(* ===== verification/Fsx_Prelude.thy ===== *)
theory Fsx_Prelude
  imports Main "HOL-Library.Word" "HOL-Library.Multiset" "HOL-Library.Product_Lexorder"
begin

text \<open>
  Shared vocabulary of the development: the machine integers of the C++ sources as words,
  the error values of \<^verbatim>\<open>include/fsx/error.hpp\<close> and \<^verbatim>\<open>include/fsx/result.hpp\<close>, the
  sequencing of fallible steps, and the generic facts on words, lists and byte buffers that
  the component theories use.
\<close>

unbundle bit_operations_syntax

named_theorems buf_simps \<open>reading and writing fixed places of a byte buffer\<close>
named_theorems word_nat \<open>words read as natural numbers\<close>

type_synonym u8 = "8 word"
type_synonym u16 = "16 word"
type_synonym u32 = "32 word"
type_synonym u64 = "64 word"
type_synonym bytes = "u8 list"

section \<open>Error codes and results\<close>

datatype errc =
    Errc_ok | Errc_usage | Errc_invalid_argument | Errc_open_failed | Errc_read_failed
  | Errc_write_failed | Errc_flush_failed | Errc_short_io | Errc_unsupported | Errc_corrupt
  | Errc_unsafe | Errc_not_found | Errc_permission | Errc_io | Errc_internal

record error =
  err_code :: errc
  err_sys_errno :: int
  err_message :: string

fun errc_name :: "errc \<Rightarrow> string" where
  "errc_name Errc_ok = ''ok''"
| "errc_name Errc_usage = ''usage''"
| "errc_name Errc_invalid_argument = ''invalid_argument''"
| "errc_name Errc_open_failed = ''open_failed''"
| "errc_name Errc_read_failed = ''read_failed''"
| "errc_name Errc_write_failed = ''write_failed''"
| "errc_name Errc_flush_failed = ''flush_failed''"
| "errc_name Errc_short_io = ''short_io''"
| "errc_name Errc_unsupported = ''unsupported''"
| "errc_name Errc_corrupt = ''corrupt''"
| "errc_name Errc_unsafe = ''unsafe''"
| "errc_name Errc_not_found = ''not_found''"
| "errc_name Errc_permission = ''permission''"
| "errc_name Errc_io = ''io''"
| "errc_name Errc_internal = ''internal''"

definition from_errno :: "errc \<Rightarrow> string \<Rightarrow> int \<Rightarrow> error" where
  "from_errno c msg e = \<lparr>err_code = c, err_sys_errno = e, err_message = msg\<rparr>"

text \<open>\<open>Result<T>\<close>: \<open>Inl\<close> carries the error, \<open>Inr\<close> the value.\<close>

type_synonym 'a result = "error + 'a"

definition mk_error :: "errc \<Rightarrow> string \<Rightarrow> error" where
  "mk_error c msg = \<lparr>err_code = c, err_sys_errno = 0, err_message = msg\<rparr>"

definition fail :: "errc \<Rightarrow> string \<Rightarrow> 'a result" where
  "fail c msg = Inl (mk_error c msg)"

definition result_ok :: "'a result \<Rightarrow> bool" where
  "result_ok r = (case r of Inl _ \<Rightarrow> False | Inr _ \<Rightarrow> True)"

fun bind_result :: "'a result \<Rightarrow> ('a \<Rightarrow> 'b result) \<Rightarrow> 'b result" where
  "bind_result (Inl e) f = Inl e"
| "bind_result (Inr x) f = f x"

lemma fail_neq_Inr [simp]: "fail c m \<noteq> Inr x" "Inr x \<noteq> fail c m"
  by (simp_all add: fail_def)

lemma result_ok_simps [simp]: "result_ok (Inr x)" "\<not> result_ok (Inl e)" "\<not> result_ok (fail c m)"
  by (simp_all add: result_ok_def fail_def)

lemma bind_result_fail [simp]: "bind_result (fail c m) f = fail c m"
  by (simp add: fail_def)

lemma bind_result_Inr [simp]: "bind_result r f = Inr y \<longleftrightarrow> (\<exists>x. r = Inr x \<and> f x = Inr y)"
  by (cases r) auto

lemma bind_result_cong [fundef_cong]:
  "r = r' \<Longrightarrow> (\<And>x. r' = Inr x \<Longrightarrow> f x = f' x) \<Longrightarrow> bind_result r f = bind_result r' f'"
  by (cases r') auto

lemma if_fail_Inr [simp]:
  "(if b then fail c m else r) = Inr x \<longleftrightarrow> \<not> b \<and> r = Inr x"
  "(if b then r else fail c m) = Inr x \<longleftrightarrow> b \<and> r = Inr x"
  by auto

section \<open>Words as natural numbers\<close>

lemma unat_sub_le [word_nat]: "b \<le> a \<Longrightarrow> unat (a - b) = unat a - unat (b :: 'a::len word)"
  by (simp add: unat_sub)

lemma unat_add_le [word_nat]:
  "unat a + unat b < 2 ^ LENGTH('a) \<Longrightarrow> unat (a + b) = unat a + unat (b :: 'a::len word)"
  by (simp add: unat_word_ariths)

lemma unat_mult_le [word_nat]:
  "unat a * unat b < 2 ^ LENGTH('a) \<Longrightarrow> unat (a * b) = unat a * unat (b :: 'a::len word)"
  by (simp add: unat_word_ariths)

lemma unat_lt_64: "unat (x :: u64) < 18446744073709551616"
  using unsigned_less [of x] by simp

lemma unat_ucast_up [word_nat]:
  assumes "LENGTH('a) \<le> LENGTH('b)"
  shows "unat (ucast (x :: 'a::len word) :: 'b::len word) = unat x"
proof -
  have "unat x < 2 ^ LENGTH('a)" by (rule unsigned_less)
  also have "\<dots> \<le> (2 :: nat) ^ LENGTH('b)" using assms by (simp add: power_increasing)
  finally show ?thesis by (simp add: unsigned_ucast_eq take_bit_nat_eq_self_iff)
qed

section \<open>Byte buffers\<close>

text \<open>\<open>get_bytes off n b\<close> is \<^verbatim>\<open>span.subspan(off, n)\<close>; \<open>put_bytes off s b\<close> copies \<open>s\<close> over
  the bytes of \<open>b\<close> from \<open>off\<close> on, as \<^verbatim>\<open>std::copy\<close> into a buffer does.\<close>

definition get_bytes :: "nat \<Rightarrow> nat \<Rightarrow> 'a list \<Rightarrow> 'a list" where
  "get_bytes off n b = take n (drop off b)"

definition put_bytes :: "nat \<Rightarrow> 'a list \<Rightarrow> 'a list \<Rightarrow> 'a list" where
  "put_bytes off s b = take off b @ s @ drop (off + length s) b"

lemma length_get_bytes [simp, buf_simps]: "off + n \<le> length b \<Longrightarrow> length (get_bytes off n b) = n"
  by (simp add: get_bytes_def)

lemma length_put_bytes [simp, buf_simps]:
  "off + length s \<le> length b \<Longrightarrow> length (put_bytes off s b) = length b"
  by (simp add: put_bytes_def)

lemma nth_put_bytes:
  "off + length s \<le> length b \<Longrightarrow> k < length b \<Longrightarrow>
   put_bytes off s b ! k = (if off \<le> k \<and> k < off + length s then s ! (k - off) else b ! k)"
  by (auto simp: put_bytes_def nth_append not_less)

lemma nth_get_bytes: "off + n \<le> length b \<Longrightarrow> k < n \<Longrightarrow> get_bytes off n b ! k = b ! (off + k)"
  by (simp add: get_bytes_def)

lemma get_put_same [buf_simps]:
  "off + length s \<le> length b \<Longrightarrow> n = length s \<Longrightarrow> get_bytes off n (put_bytes off s b) = s"
  by (simp add: get_bytes_def put_bytes_def)

lemma get_put_other [buf_simps]:
  "off + length s \<le> length b \<Longrightarrow> o' + n \<le> length b \<Longrightarrow> o' + n \<le> off \<or> off + length s \<le> o' \<Longrightarrow>
   get_bytes o' n (put_bytes off s b) = get_bytes o' n b"
  by (rule nth_equalityI) (auto simp: nth_get_bytes nth_put_bytes)

lemma take_put_bytes [buf_simps]:
  "off + length s \<le> length b \<Longrightarrow> n \<le> off \<Longrightarrow> take n (put_bytes off s b) = take n b"
  by (simp add: put_bytes_def)

lemma put_bytes_get_bytes:
  "off + n \<le> length b \<Longrightarrow> put_bytes off (get_bytes off n b) b = b"
  by (rule nth_equalityI) (auto simp: nth_put_bytes nth_get_bytes)

end
