(* ===== verification/Fsx_Endian.thy ===== *)
theory Fsx_Endian
  imports Fsx_Prelude
begin

text \<open>
  \<^verbatim>\<open>include/fsx/endian.hpp\<close>: reading and writing little- and big-endian integers at an offset
  of a byte buffer. The loops of the templates are the recursive functions \<open>read_le_wide\<close>,
  \<open>read_be_wide\<close> and \<open>write_le_loop\<close>; the fixed-width entry points cast as the C++ code does.
  The lemmas say what a read returns after a write at the same place, at a disjoint place, and
  that writes keep the buffer's length: they are the rewrite rules every on-disk codec of the
  development is verified with.
\<close>

section \<open>Model\<close>

text \<open>The loop \<^verbatim>\<open>wide |= byte << (i * 8)\<close> for \<open>i < n\<close>.\<close>

primrec read_le_wide :: "nat \<Rightarrow> bytes \<Rightarrow> nat \<Rightarrow> u64" where
  "read_le_wide 0 b off = 0"
| "read_le_wide (Suc n) b off = read_le_wide n b off OR push_bit (n * 8) (ucast (b ! (off + n)))"

definition read_le16 :: "bytes \<Rightarrow> nat \<Rightarrow> u16" where
  "read_le16 b off = ucast (read_le_wide 2 b off)"

definition read_le32 :: "bytes \<Rightarrow> nat \<Rightarrow> u32" where
  "read_le32 b off = ucast (read_le_wide 4 b off)"

definition read_le64 :: "bytes \<Rightarrow> nat \<Rightarrow> u64" where
  "read_le64 b off = read_le_wide 8 b off"

text \<open>The loop \<^verbatim>\<open>wide = (wide << 8) | byte\<close> for \<open>i < n\<close>.\<close>

primrec read_be_wide :: "nat \<Rightarrow> bytes \<Rightarrow> nat \<Rightarrow> u64" where
  "read_be_wide 0 b off = 0"
| "read_be_wide (Suc n) b off = push_bit 8 (read_be_wide n b off) OR ucast (b ! (off + n))"

definition read_be16 :: "bytes \<Rightarrow> nat \<Rightarrow> u16" where
  "read_be16 b off = ucast (read_be_wide 2 b off)"

definition read_be32 :: "bytes \<Rightarrow> nat \<Rightarrow> u32" where
  "read_be32 b off = ucast (read_be_wide 4 b off)"

definition read_be64 :: "bytes \<Rightarrow> nat \<Rightarrow> u64" where
  "read_be64 b off = read_be_wide 8 b off"

text \<open>The loop \<^verbatim>\<open>data[off + i] = byte((v >> (i * 8)) & 0xff)\<close> for \<open>i < n\<close>.\<close>

primrec write_le_loop :: "nat \<Rightarrow> bytes \<Rightarrow> nat \<Rightarrow> u64 \<Rightarrow> bytes" where
  "write_le_loop 0 b off v = b"
| "write_le_loop (Suc n) b off v =
     (write_le_loop n b off v)[off + n := ucast (drop_bit (n * 8) v AND 0xff)]"

definition write_le16 :: "bytes \<Rightarrow> nat \<Rightarrow> u16 \<Rightarrow> bytes" where
  "write_le16 b off v = write_le_loop 2 b off (ucast v)"

definition write_le32 :: "bytes \<Rightarrow> nat \<Rightarrow> u32 \<Rightarrow> bytes" where
  "write_le32 b off v = write_le_loop 4 b off (ucast v)"

definition write_le64 :: "bytes \<Rightarrow> nat \<Rightarrow> u64 \<Rightarrow> bytes" where
  "write_le64 b off v = write_le_loop 8 b off v"

section \<open>Loop lemmas\<close>

lemma length_write_le_loop [simp]: "length (write_le_loop n b off v) = length b"
  by (induction n) auto

lemma nth_write_le_loop:
  "off + n \<le> length b \<Longrightarrow>
   write_le_loop n b off v ! k =
     (if off \<le> k \<and> k < off + n then ucast (drop_bit ((k - off) * 8) v AND 0xff) else b ! k)"
proof (induction n)
  case 0
  then show ?case by auto
next
  case (Suc n)
  then have "off + n < length b" and "off + n \<le> length b" by simp_all
  then show ?case
    using Suc.IH by (cases "k = off + n") (auto simp: nth_list_update)
qed

lemma take_write_le_loop: "n \<le> off \<Longrightarrow> take n (write_le_loop k b off v) = take n b"
  by (induction k) auto

lemma bit_byte_cast: "bit (ucast (w AND 0xff :: u64) :: u8) i \<longleftrightarrow> i < 8 \<and> bit w i"
proof -
  have "(0xff :: u64) = mask 8" by (simp add: mask_eq_exp_minus_1)
  then have "w AND 0xff = take_bit 8 w" by (simp only: take_bit_eq_mask)
  then show ?thesis
    by (simp only:) (auto simp: bit_simps dest: bit_imp_le_length)
qed

lemma bit_read_le_wide:
  "n \<le> 8 \<Longrightarrow> bit (read_le_wide n b off) i \<longleftrightarrow> i < n * 8 \<and> bit (b ! (off + i div 8)) (i mod 8)"
proof (induction n)
  case 0
  then show ?case by simp
next
  case (Suc n)
  have step: "bit (push_bit (n * 8) (ucast (b ! (off + n)) :: u64)) i
      \<longleftrightarrow> n * 8 \<le> i \<and> i < Suc n * 8 \<and> bit (b ! (off + n)) (i - n * 8)"
    using Suc.prems by (auto simp: bit_simps dest: bit_imp_le_length)
  show ?case
  proof (cases "n * 8 \<le> i \<and> i < Suc n * 8")
    case True
    then have d: "i div 8 = n" by (intro div_nat_eqI) auto
    then have m: "i mod 8 = i - n * 8" by (metis minus_div_mult_eq_mod)
    from True d m step Suc show ?thesis by (simp add: bit_or_iff)
  next
    case False
    then have "i < Suc n * 8 \<longleftrightarrow> i < n * 8" by auto
    with False step Suc show ?thesis by (auto simp: bit_or_iff)
  qed
qed

lemma read_le_wide_cong:
  "n \<le> 8 \<Longrightarrow> (\<And>k. k < n \<Longrightarrow> b ! (off + k) = c ! (off' + k)) \<Longrightarrow>
   read_le_wide n b off = read_le_wide n c off'"
  by (rule bit_word_eqI) (auto simp: bit_read_le_wide less_mult_imp_div_less)

lemma read_write_le_same:
  assumes "n \<le> 8" "off + n \<le> length b"
  shows "read_le_wide n (write_le_loop n b off v) off = take_bit (n * 8) v"
proof (rule bit_word_eqI)
  fix i assume "i < LENGTH(64)"
  have "i < n * 8 \<Longrightarrow> i div 8 < n" by (simp add: less_mult_imp_div_less)
  moreover have "i div 8 * 8 + i mod 8 = i" by simp
  ultimately show "bit (read_le_wide n (write_le_loop n b off v) off) i = bit (take_bit (n * 8) v) i"
    using assms
    by (auto simp: bit_read_le_wide nth_write_le_loop bit_byte_cast bit_take_bit_iff bit_drop_bit_eq)
qed

lemma read_write_le_other:
  assumes "n \<le> 8" "off + m \<le> length b" "o' + n \<le> off \<or> off + m \<le> o'"
  shows "read_le_wide n (write_le_loop m b off v) o' = read_le_wide n b o'"
  using assms by (intro read_le_wide_cong) (auto simp: nth_write_le_loop)

lemma read_le_wide_put_other:
  assumes "n \<le> 8" "off + length s \<le> length b" "o' + n \<le> length b" "o' + n \<le> off \<or> off + length s \<le> o'"
  shows "read_le_wide n (put_bytes off s b) o' = read_le_wide n b o'"
  using assms by (intro read_le_wide_cong) (auto simp: nth_put_bytes)

lemma get_write_le_other:
  assumes "off + m \<le> length b" "o' + n \<le> length b" "o' + n \<le> off \<or> off + m \<le> o'"
  shows "get_bytes o' n (write_le_loop m b off v) = get_bytes o' n b"
  using assms by (intro nth_equalityI) (auto simp: nth_get_bytes nth_write_le_loop)

section \<open>Rules for the fixed-width accessors\<close>

lemmas endian_defs = read_le16_def read_le32_def read_le64_def
  write_le16_def write_le32_def write_le64_def

lemma length_write_le [simp, buf_simps]:
  "length (write_le16 b off v) = length b"
  "length (write_le32 b off w) = length b"
  "length (write_le64 b off x) = length b"
  by (simp_all add: endian_defs)

lemma ucast_take_ucast:
  "LENGTH('a) \<le> 64 \<Longrightarrow> n = LENGTH('a) \<Longrightarrow>
   ucast (take_bit n (ucast (v :: 'a::len word) :: u64)) = v"
  by (rule bit_word_eqI) (auto simp: bit_simps)

lemma read_write_le16_same [buf_simps]:
  "off + 2 \<le> length b \<Longrightarrow> read_le16 (write_le16 b off v) off = v"
  by (simp add: read_le16_def write_le16_def read_write_le_same ucast_take_ucast)

lemma read_write_le32_same [buf_simps]:
  "off + 4 \<le> length b \<Longrightarrow> read_le32 (write_le32 b off v) off = v"
  by (simp add: read_le32_def write_le32_def read_write_le_same ucast_take_ucast)

lemma read_write_le64_same [buf_simps]:
  "off + 8 \<le> length b \<Longrightarrow> read_le64 (write_le64 b off v) off = v"
  by (simp add: read_le64_def write_le64_def read_write_le_same take_bit_word_eq_self)

lemma read_le16_other [buf_simps]:
  "off + 2 \<le> length b \<Longrightarrow> o' + 2 \<le> off \<or> off + 2 \<le> o' \<Longrightarrow> read_le16 (write_le16 b off v) o' = read_le16 b o'"
  "off + 4 \<le> length b \<Longrightarrow> o' + 2 \<le> off \<or> off + 4 \<le> o' \<Longrightarrow> read_le16 (write_le32 b off w) o' = read_le16 b o'"
  "off + 8 \<le> length b \<Longrightarrow> o' + 2 \<le> off \<or> off + 8 \<le> o' \<Longrightarrow> read_le16 (write_le64 b off x) o' = read_le16 b o'"
  by (simp_all add: endian_defs read_write_le_other)

lemma read_le32_other [buf_simps]:
  "off + 2 \<le> length b \<Longrightarrow> o' + 4 \<le> off \<or> off + 2 \<le> o' \<Longrightarrow> read_le32 (write_le16 b off v) o' = read_le32 b o'"
  "off + 4 \<le> length b \<Longrightarrow> o' + 4 \<le> off \<or> off + 4 \<le> o' \<Longrightarrow> read_le32 (write_le32 b off w) o' = read_le32 b o'"
  "off + 8 \<le> length b \<Longrightarrow> o' + 4 \<le> off \<or> off + 8 \<le> o' \<Longrightarrow> read_le32 (write_le64 b off x) o' = read_le32 b o'"
  by (simp_all add: endian_defs read_write_le_other)

lemma read_le64_other [buf_simps]:
  "off + 2 \<le> length b \<Longrightarrow> o' + 8 \<le> off \<or> off + 2 \<le> o' \<Longrightarrow> read_le64 (write_le16 b off v) o' = read_le64 b o'"
  "off + 4 \<le> length b \<Longrightarrow> o' + 8 \<le> off \<or> off + 4 \<le> o' \<Longrightarrow> read_le64 (write_le32 b off w) o' = read_le64 b o'"
  "off + 8 \<le> length b \<Longrightarrow> o' + 8 \<le> off \<or> off + 8 \<le> o' \<Longrightarrow> read_le64 (write_le64 b off x) o' = read_le64 b o'"
  by (simp_all add: endian_defs read_write_le_other)

lemma read_le_put_other [buf_simps]:
  "off + length s \<le> length b \<Longrightarrow> o' + 2 \<le> length b \<Longrightarrow> o' + 2 \<le> off \<or> off + length s \<le> o' \<Longrightarrow>
   read_le16 (put_bytes off s b) o' = read_le16 b o'"
  "off + length s \<le> length b \<Longrightarrow> o' + 4 \<le> length b \<Longrightarrow> o' + 4 \<le> off \<or> off + length s \<le> o' \<Longrightarrow>
   read_le32 (put_bytes off s b) o' = read_le32 b o'"
  "off + length s \<le> length b \<Longrightarrow> o' + 8 \<le> length b \<Longrightarrow> o' + 8 \<le> off \<or> off + length s \<le> o' \<Longrightarrow>
   read_le64 (put_bytes off s b) o' = read_le64 b o'"
  by (simp_all add: endian_defs read_le_wide_put_other)

lemma get_write_le [buf_simps]:
  "off + 2 \<le> length b \<Longrightarrow> o' + n \<le> length b \<Longrightarrow> o' + n \<le> off \<or> off + 2 \<le> o' \<Longrightarrow>
   get_bytes o' n (write_le16 b off v) = get_bytes o' n b"
  "off + 4 \<le> length b \<Longrightarrow> o' + n \<le> length b \<Longrightarrow> o' + n \<le> off \<or> off + 4 \<le> o' \<Longrightarrow>
   get_bytes o' n (write_le32 b off w) = get_bytes o' n b"
  "off + 8 \<le> length b \<Longrightarrow> o' + n \<le> length b \<Longrightarrow> o' + n \<le> off \<or> off + 8 \<le> o' \<Longrightarrow>
   get_bytes o' n (write_le64 b off x) = get_bytes o' n b"
  by (simp_all add: endian_defs get_write_le_other)

lemma take_write_le [buf_simps]:
  "n \<le> off \<Longrightarrow> take n (write_le16 b off v) = take n b"
  "n \<le> off \<Longrightarrow> take n (write_le32 b off w) = take n b"
  "n \<le> off \<Longrightarrow> take n (write_le64 b off x) = take n b"
  by (simp_all add: endian_defs take_write_le_loop)

lemma write_le_overwrite: "off + n \<le> length b \<Longrightarrow> write_le_loop n (write_le_loop n b off v) off u = write_le_loop n b off u"
  by (rule nth_equalityI) (auto simp: nth_write_le_loop)

lemma write_le32_overwrite: "off + 4 \<le> length b \<Longrightarrow> write_le32 (write_le32 b off v) off u = write_le32 b off u"
  by (simp add: write_le32_def write_le_overwrite)

lemma write_le_read: 
  assumes "n \<le> 8" "off + n \<le> length b"
  shows "write_le_loop n b off (read_le_wide n b off) = b"
proof (rule nth_equalityI)
  fix k assume "k < length (write_le_loop n b off (read_le_wide n b off))"
  have "ucast (drop_bit ((k - off) * 8) (read_le_wide n b off) AND 0xff) = b ! k" if "off \<le> k" "k < off + n"
  proof (rule bit_word_eqI)
    fix i assume "i < LENGTH(8)"
    then have "(k - off) * 8 + i < n * 8" "off + ((k - off) * 8 + i) div 8 = k" "((k - off) * 8 + i) mod 8 = i"
      using that by auto
    then show "bit (ucast (drop_bit ((k - off) * 8) (read_le_wide n b off) AND 0xff) :: u8) i = bit (b ! k) i"
      using \<open>i < LENGTH(8)\<close> assms(1) unfolding bit_byte_cast by (simp add: bit_drop_bit_eq bit_read_le_wide)
  qed
  then show "write_le_loop n b off (read_le_wide n b off) ! k = b ! k"
    using assms(2) by (simp add: nth_write_le_loop)
qed simp

lemma write_le32_read:
  assumes "off + 4 \<le> length b"
  shows "write_le32 b off (read_le32 b off) = b"
proof -
  have "ucast (ucast (read_le_wide 4 b off) :: u32) = read_le_wide 4 b off"
    by (rule bit_word_eqI) (auto simp: bit_simps bit_read_le_wide)
  then show ?thesis using write_le_read [of 4 off b] assms by (simp add: write_le32_def read_le32_def)
qed

lemma read_le_get_bytes [buf_simps]:
  "off + n \<le> length b \<Longrightarrow> o' + 2 \<le> n \<Longrightarrow> read_le16 (get_bytes off n b) o' = read_le16 b (off + o')"
  "off + n \<le> length b \<Longrightarrow> o' + 4 \<le> n \<Longrightarrow> read_le32 (get_bytes off n b) o' = read_le32 b (off + o')"
  "off + n \<le> length b \<Longrightarrow> o' + 8 \<le> n \<Longrightarrow> read_le64 (get_bytes off n b) o' = read_le64 b (off + o')"
  by (auto simp: endian_defs nth_get_bytes add.assoc intro!: arg_cong [where f = ucast] read_le_wide_cong)

end
