(* ===== verification/Fsx_Crc.thy ===== *)
theory Fsx_Crc
  imports Fsx_Endian
begin

text \<open>
  \<^verbatim>\<open>src/core/crc.cpp\<close>: the table-driven CRC-32 (IEEE and Castagnoli polynomials, reflected),
  with eight tables and a main loop that consumes eight bytes per step, and the SSE4.2 variant
  with the CPU's CRC instructions as parameters. The reference is the bit-by-bit register
  \<open>crc_ref\<close>; the theory shows that both fast routines compute it, that a checksum can be
  continued over a split buffer, and that changing one byte of a buffer always changes its
  checksum.
\<close>

section \<open>Model\<close>

definition crc_step :: "u32 \<Rightarrow> u32 \<Rightarrow> u32" where
  "crc_step poly c = (if c AND 1 \<noteq> 0 then poly XOR drop_bit 1 c else drop_bit 1 c)"

definition crc_byte :: "u32 \<Rightarrow> u32 \<Rightarrow> u32" where
  "crc_byte poly c = (crc_step poly ^^ 8) c"

text \<open>The tables built by \<^verbatim>\<open>make_tables<Poly>\<close>: row 0, then each row from the one before.\<close>

definition table_row0 :: "u32 \<Rightarrow> u32 list" where
  "table_row0 poly = map (\<lambda>i. crc_byte poly (of_nat i)) [0..<256]"

primrec table_row :: "u32 \<Rightarrow> nat \<Rightarrow> u32 list" where
  "table_row poly 0 = table_row0 poly"
| "table_row poly (Suc n) =
     map (\<lambda>c. table_row0 poly ! unat (c AND 0xff) XOR drop_bit 8 c) (table_row poly n)"

definition make_tables :: "u32 \<Rightarrow> u32 list list" where
  "make_tables poly = map (table_row poly) [0..<8]"

definition poly_ieee :: u32 where "poly_ieee = 0xedb88320"
definition poly_castagnoli :: u32 where "poly_castagnoli = 0x82f63b78"

definition load_le64 :: "bytes \<Rightarrow> u64" where
  "load_le64 p = read_le_wide 8 p 0"

definition table_index :: "u64 \<Rightarrow> nat \<Rightarrow> nat" where
  "table_index q k = unat (drop_bit (8 * k) q AND 0xff)"

text \<open>One iteration of the eight-byte loop.\<close>

definition slice_step :: "u32 list list \<Rightarrow> bytes \<Rightarrow> u32 \<Rightarrow> u32" where
  "slice_step t p c =
     (let q = load_le64 p XOR ucast c
      in t ! 7 ! table_index q 0 XOR t ! 6 ! table_index q 1 XOR t ! 5 ! table_index q 2 XOR
         t ! 4 ! table_index q 3 XOR t ! 3 ! table_index q 4 XOR t ! 2 ! table_index q 5 XOR
         t ! 1 ! table_index q 6 XOR t ! 0 ! table_index q 7)"

definition tail_step :: "u32 list list \<Rightarrow> u8 \<Rightarrow> u32 \<Rightarrow> u32" where
  "tail_step t b c = t ! 0 ! unat ((c XOR ucast b) AND 0xff) XOR drop_bit 8 c"

function crc_run :: "bytes \<Rightarrow> u32 \<Rightarrow> u32 list list \<Rightarrow> u32" where
  "crc_run p c t = (if 8 \<le> length p then crc_run (drop 8 p) (slice_step t p c) t
                    else fold (tail_step t) p c)"
  by pat_completeness auto
termination
  by (relation "measure (\<lambda>(p, c, t). length p)") auto

declare crc_run.simps [simp del]

definition crc32_ieee :: "bytes \<Rightarrow> u32 \<Rightarrow> u32" where
  "crc32_ieee data seed = crc_run data seed (make_tables poly_ieee)"

definition crc32c :: "bytes \<Rightarrow> u32 \<Rightarrow> u32" where
  "crc32c data seed = crc_run data seed (make_tables poly_castagnoli)"

text \<open>
  The SSE4.2 routine. The four instructions are parameters: \<open>m64 c v\<close> is \<^verbatim>\<open>_mm_crc32_u64\<close> on
  a 64-bit accumulator, the others work on the 32-bit register.
\<close>

function sse42_loop8 :: "(u64 \<Rightarrow> u64 \<Rightarrow> u64) \<Rightarrow> bytes \<Rightarrow> u64 \<Rightarrow> bytes \<times> u64" where
  "sse42_loop8 m64 p c =
     (if 8 \<le> length p then sse42_loop8 m64 (drop 8 p) (m64 c (read_le64 p 0)) else (p, c))"
  by pat_completeness auto
termination
  by (relation "measure (\<lambda>(m, p, c). length p)") auto

function sse42_loop4 :: "(u32 \<Rightarrow> u32 \<Rightarrow> u32) \<Rightarrow> bytes \<Rightarrow> u32 \<Rightarrow> bytes \<times> u32" where
  "sse42_loop4 m32 p c =
     (if 4 \<le> length p then sse42_loop4 m32 (drop 4 p) (m32 c (read_le32 p 0)) else (p, c))"
  by pat_completeness auto
termination
  by (relation "measure (\<lambda>(m, p, c). length p)") auto

declare sse42_loop8.simps [simp del] sse42_loop4.simps [simp del]

definition crc32c_sse42 ::
  "(u64 \<Rightarrow> u64 \<Rightarrow> u64) \<Rightarrow> (u32 \<Rightarrow> u32 \<Rightarrow> u32) \<Rightarrow> (u32 \<Rightarrow> u16 \<Rightarrow> u32) \<Rightarrow> (u32 \<Rightarrow> u8 \<Rightarrow> u32) \<Rightarrow>
   bytes \<Rightarrow> u32 \<Rightarrow> u32" where
  "crc32c_sse42 m64 m32 m16 m8 data seed =
     (case sse42_loop8 m64 data (ucast seed) of (p, c) \<Rightarrow>
      case sse42_loop4 m32 p (ucast c) of (p4, c4) \<Rightarrow>
      let (p2, c2) = (if 2 \<le> length p4 then (drop 2 p4, m16 c4 (read_le16 p4 0)) else (p4, c4))
      in if p2 \<noteq> [] then m8 c2 (p2 ! 0) else c2)"

definition crc32c_dispatch ::
  "bool \<Rightarrow> (u64 \<Rightarrow> u64 \<Rightarrow> u64) \<Rightarrow> (u32 \<Rightarrow> u32 \<Rightarrow> u32) \<Rightarrow> (u32 \<Rightarrow> u16 \<Rightarrow> u32) \<Rightarrow> (u32 \<Rightarrow> u8 \<Rightarrow> u32) \<Rightarrow>
   bytes \<Rightarrow> u32 \<Rightarrow> u32" where
  "crc32c_dispatch have_sse42 m64 m32 m16 m8 data seed =
     (if have_sse42 then crc32c_sse42 m64 m32 m16 m8 data seed
      else crc_run data seed (make_tables poly_castagnoli))"

text \<open>The reference: the register is shifted one bit at a time.\<close>

definition crc_ref :: "u32 \<Rightarrow> bytes \<Rightarrow> u32 \<Rightarrow> u32" where
  "crc_ref poly data c = fold (\<lambda>b c. crc_byte poly (c XOR ucast b)) data c"

section \<open>The register step is linear and injective\<close>

lemma and_1_bit: "(c AND 1 \<noteq> 0) = bit (c :: u32) 0"
  by (simp add: and_one_eq bit_0 odd_iff_mod_2_eq_one)

lemma crc_step_bit: "crc_step poly c = (if bit c 0 then poly XOR drop_bit 1 c else drop_bit 1 c)"
  unfolding crc_step_def and_1_bit ..

lemma drop_bit_xor_word: "drop_bit n (a XOR b) = drop_bit n a XOR drop_bit n (b :: 'a::len word)"
  by (rule bit_word_eqI) (simp add: bit_simps)

lemma xor_cancel [simp]: "(a :: 'a::len word) XOR (a XOR b) = b"
  by (simp flip: xor.assoc)

lemma crc_step_xor: "crc_step p (a XOR b) = crc_step p a XOR crc_step p b"
  unfolding crc_step_bit drop_bit_xor_word bit_xor_iff
  by (cases "bit a 0"; cases "bit b 0") (simp_all add: xor.assoc xor.left_commute [of _ p])

lemma crc_step_pow_xor: "(crc_step p ^^ n) (a XOR b) = (crc_step p ^^ n) a XOR (crc_step p ^^ n) b"
  by (induction n arbitrary: a b) (simp_all add: crc_step_xor)

lemma crc_byte_xor: "crc_byte p (a XOR b) = crc_byte p a XOR crc_byte p b"
  by (simp add: crc_byte_def crc_step_pow_xor)

lemma crc_byte_pow_xor: "(crc_byte p ^^ n) (a XOR b) = (crc_byte p ^^ n) a XOR (crc_byte p ^^ n) b"
  by (induction n arbitrary: a b) (simp_all add: crc_byte_xor)

lemma crc_byte_0 [simp]: "crc_byte p 0 = 0"
  by (simp add: crc_byte_def numeral_eq_Suc crc_step_def)

lemma crc_byte_pow_0 [simp]: "(crc_byte p ^^ n) 0 = 0"
  by (induction n) simp_all

lemma crc_step_pow_low:
  "n \<le> 8 \<Longrightarrow> (\<And>i. i < 8 \<Longrightarrow> \<not> bit c i) \<Longrightarrow> (crc_step p ^^ n) c = drop_bit n c"
proof (induction n)
  case 0
  then show ?case by simp
next
  case (Suc n)
  then have "\<not> bit (drop_bit n c) 0" by (simp add: bit_drop_bit_eq)
  with Suc show ?case by (simp add: crc_step_bit)
qed

lemma word_split8: "(c :: u32) = (c AND 0xff) XOR push_bit 8 (drop_bit 8 c)"
proof -
  have "c AND 0xff = take_bit 8 c" by (simp add: take_bit_eq_mask mask_eq_exp_minus_1)
  then show ?thesis by (intro bit_word_eqI) (auto simp: bit_simps)
qed

lemma crc_byte_split: "crc_byte p c = crc_byte p (c AND 0xff) XOR drop_bit 8 c"
proof -
  have "crc_byte p (push_bit 8 (drop_bit 8 c)) = drop_bit 8 (push_bit 8 (drop_bit 8 c))"
    unfolding crc_byte_def by (rule crc_step_pow_low) (simp_all add: bit_push_bit_iff)
  also have "\<dots> = drop_bit 8 c"
    by (rule bit_word_eqI) (auto simp: bit_simps dest: bit_imp_le_length)
  finally show ?thesis
    by (subst word_split8) (simp add: crc_byte_xor)
qed

section \<open>The tables hold iterated byte steps\<close>

lemma and_ff_take_bit: "(w :: 'a::len word) AND 0xff = take_bit 8 w"
  by (simp add: take_bit_eq_mask mask_eq_exp_minus_1)

lemma unat_and_ff: "unat ((w :: 'a::len word) AND 0xff) < 256"
  unfolding and_ff_take_bit
  using take_bit_nat_less_exp [of 8 "unat w"]
  by (simp add: unsigned_take_bit_eq)

lemma length_table_row [simp]: "length (table_row p n) = 256"
  by (induction n) (simp_all add: table_row0_def)

lemma table_row0_nth: "table_row0 p ! unat ((c :: u32) AND 0xff) = crc_byte p (c AND 0xff)"
  using unat_and_ff [of c] by (simp add: table_row0_def)

lemma table_row_nth: "i < 256 \<Longrightarrow> table_row p n ! i = (crc_byte p ^^ Suc n) (of_nat i)"
proof (induction n)
  case 0
  then show ?case by (simp add: table_row0_def)
next
  case (Suc n)
  then show ?case by (simp add: table_row0_nth flip: crc_byte_split)
qed

lemma make_tables_nth: "n < 8 \<Longrightarrow> make_tables p ! n = table_row p n"
  by (simp add: make_tables_def)

lemma tail_step_ref: "tail_step (make_tables p) b c = crc_byte p (c XOR ucast b)"
proof -
  have "drop_bit 8 (c XOR ucast b) = drop_bit 8 c"
    by (rule bit_word_eqI) (auto simp: bit_simps dest: bit_imp_le_length)
  then show ?thesis
    by (simp add: tail_step_def make_tables_nth table_row0_nth crc_byte_split [of p "c XOR ucast b"])
qed

section \<open>Eight bytes at once\<close>

lemma table_index_entry:
  "n < 8 \<Longrightarrow> make_tables p ! n ! table_index q k = (crc_byte p ^^ (n + 1)) (ucast (drop_bit (8 * k) q AND 0xff))"
  using unat_and_ff [of "drop_bit (8 * k) q"]
  by (simp add: make_tables_nth table_index_def table_row_nth)

lemma load_byte:
  assumes "k < 8"
  shows "(ucast (drop_bit (8 * k) (load_le64 p XOR ucast (c :: u32)) AND 0xff) :: u32)
       = ucast (p ! k) XOR (drop_bit (8 * k) c AND 0xff)"
proof (rule bit_word_eqI)
  fix i
  show "bit (ucast (drop_bit (8 * k) (load_le64 p XOR ucast c) AND 0xff) :: u32) i
      = bit (ucast (p ! k) XOR (drop_bit (8 * k) c AND 0xff)) i"
  proof (cases "i < 8")
    case True
    then have "(8 * k + i) div 8 = k" and "(8 * k + i) mod 8 = i" and "8 * k + i < 64"
      using assms by simp_all
    with True show ?thesis
      unfolding and_ff_take_bit load_le64_def
      by (auto simp: bit_simps bit_read_le_wide)
  next
    case False
    then have "\<not> bit (p ! k) i" by (auto dest: bit_imp_le_length)
    with False show ?thesis
      unfolding and_ff_take_bit by (auto simp: bit_simps)
  qed
qed

lemma crc_byte_pow8_split:
  "(crc_byte p ^^ 8) c = (crc_byte p ^^ 8) (c AND 0xff) XOR (crc_byte p ^^ 7) (drop_bit 8 c AND 0xff)
     XOR (crc_byte p ^^ 6) (drop_bit 16 c AND 0xff) XOR (crc_byte p ^^ 5) (drop_bit 24 c AND 0xff)"
proof -
  have one: "(crc_byte p ^^ Suc n) x = (crc_byte p ^^ Suc n) (x AND 0xff) XOR (crc_byte p ^^ n) (drop_bit 8 x)"
    for n x
    by (simp only: funpow_Suc_right o_apply crc_byte_split [of p x] crc_byte_pow_xor)
  have "drop_bit 32 c = 0" by (rule bit_word_eqI) (simp add: bit_simps)
  then show ?thesis
    using one [of 7 c] one [of 6 "drop_bit 8 c"] one [of 5 "drop_bit 16 c"] one [of 4 "drop_bit 24 c"]
    by (simp add: xor.assoc)
qed

lemma take8: "8 \<le> length p \<Longrightarrow> take 8 p = [p!0, p!1, p!2, p!3, p!4, p!5, p!6, p!7]"
  by (rule nth_equalityI) (auto simp: less_Suc_eq numeral_eq_Suc)

lemma slice_step_ref:
  assumes "8 \<le> length p"
  shows "slice_step (make_tables poly) p c = crc_ref poly (take 8 p) c"
proof -
  let ?L = "crc_byte poly"
  have hi: "drop_bit k c = 0" if "32 \<le> k" for k
    using that by (intro bit_word_eqI) (auto simp: bit_simps dest: bit_imp_le_length)
  have "crc_ref poly (take 8 p) c =
      (?L ^^ 8) c XOR (?L ^^ 8) (ucast (p!0)) XOR (?L ^^ 7) (ucast (p!1)) XOR (?L ^^ 6) (ucast (p!2))
      XOR (?L ^^ 5) (ucast (p!3)) XOR (?L ^^ 4) (ucast (p!4)) XOR (?L ^^ 3) (ucast (p!5))
      XOR (?L ^^ Suc (Suc 0)) (ucast (p!6)) XOR (?L ^^ 1) (ucast (p!7))"
    unfolding take8 [OF assms] crc_ref_def by (simp add: crc_byte_xor numeral_eq_Suc xor.assoc)
  moreover have "slice_step (make_tables poly) p c =
      (?L ^^ 8) (ucast (p!0) XOR (c AND 0xff)) XOR (?L ^^ 7) (ucast (p!1) XOR (drop_bit 8 c AND 0xff)) XOR
      (?L ^^ 6) (ucast (p!2) XOR (drop_bit 16 c AND 0xff)) XOR (?L ^^ 5) (ucast (p!3) XOR (drop_bit 24 c AND 0xff)) XOR
      (?L ^^ 4) (ucast (p!4)) XOR (?L ^^ 3) (ucast (p!5)) XOR (?L ^^ Suc (Suc 0)) (ucast (p!6)) XOR (?L ^^ 1) (ucast (p!7))"
    using load_byte [of 0 p c] load_byte [of 1 p c] load_byte [of 2 p c] load_byte [of 3 p c]
      load_byte [of 4 p c] load_byte [of 5 p c] load_byte [of 6 p c] load_byte [of 7 p c]
    by (simp add: slice_step_def Let_def table_index_entry hi del: funpow.simps)
  ultimately show ?thesis
    by (simp add: crc_byte_pow_xor crc_byte_pow8_split [of poly c] xor.assoc xor.left_commute xor.commute
      del: funpow.simps)
qed

lemma crc_ref_append: "crc_ref p (a @ b) c = crc_ref p b (crc_ref p a c)"
  by (simp add: crc_ref_def)

lemma crc_run_ref: "crc_run data c (make_tables poly) = crc_ref poly data c"
proof (induction data c "make_tables poly" rule: crc_run.induct)
  case (1 p c)
  show ?case
  proof (cases "8 \<le> length p")
    case True
    have "crc_ref poly p c = crc_ref poly (drop 8 p) (crc_ref poly (take 8 p) c)"
      by (simp flip: crc_ref_append)
    with True "1" show ?thesis by (simp add: crc_run.simps [of p] slice_step_ref)
  next
    case False
    moreover have "tail_step (make_tables poly) = (\<lambda>b c. crc_byte poly (c XOR ucast b))"
      by (intro ext tail_step_ref)
    ultimately show ?thesis by (simp add: crc_run.simps [of p] crc_ref_def)
  qed
qed

lemma crc32_ieee_ref: "crc32_ieee data seed = crc_ref poly_ieee data seed"
  by (simp add: crc32_ieee_def crc_run_ref)

lemma crc32c_ref: "crc32c data seed = crc_ref poly_castagnoli data seed"
  by (simp add: crc32c_def crc_run_ref)

section \<open>The SSE4.2 routine\<close>

text \<open>
  The documented behaviour of the instructions: each continues the Castagnoli checksum over
  the bytes of its operand, least significant byte first.
\<close>

definition le_bytes :: "nat \<Rightarrow> u64 \<Rightarrow> bytes" where
  "le_bytes n v = map (\<lambda>k. ucast (drop_bit (k * 8) v AND 0xff)) [0..<n]"

definition crc_instructions ::
  "(u64 \<Rightarrow> u64 \<Rightarrow> u64) \<Rightarrow> (u32 \<Rightarrow> u32 \<Rightarrow> u32) \<Rightarrow> (u32 \<Rightarrow> u16 \<Rightarrow> u32) \<Rightarrow> (u32 \<Rightarrow> u8 \<Rightarrow> u32) \<Rightarrow> bool" where
  "crc_instructions m64 m32 m16 m8 \<longleftrightarrow>
     (\<forall>c v. m64 c v = ucast (crc_ref poly_castagnoli (le_bytes 8 v) (ucast c))) \<and>
     (\<forall>c v. m32 c v = crc_ref poly_castagnoli (le_bytes 4 (ucast v)) c) \<and>
     (\<forall>c v. m16 c v = crc_ref poly_castagnoli (le_bytes 2 (ucast v)) c) \<and>
     (\<forall>c v. m8 c v = crc_ref poly_castagnoli [v] c)"

lemma length_le_bytes [simp]: "length (le_bytes n v) = n"
  by (simp add: le_bytes_def)

lemma le_bytes_read:
  assumes "n \<le> length p" "n \<le> m" "m \<le> 8"
    and "\<And>i. i < n * 8 \<Longrightarrow> bit v i = bit (read_le_wide m p 0) i"
  shows "le_bytes n v = take n p"
proof (rule nth_equalityI)
  show "length (le_bytes n v) = length (take n p)" using assms(1) by simp
next
  fix k assume "k < length (le_bytes n v)"
  then have k: "k < n" by simp
  have "bit (ucast (drop_bit (k * 8) v AND 0xff) :: u8) j = bit (p ! k) j" for j
  proof (cases "j < 8")
    case True
    then have "(k * 8 + j) div 8 = k" "(k * 8 + j) mod 8 = j" "k * 8 + j < n * 8" using k by auto
    with True k assms show ?thesis
      by (simp add: bit_byte_cast bit_drop_bit_eq bit_read_le_wide)
  qed (auto simp: bit_byte_cast dest: bit_imp_le_length)
  then show "le_bytes n v ! k = take n p ! k"
    using k by (simp add: le_bytes_def bit_eq_iff)
qed

lemma le_bytes_read_le:
  "8 \<le> length p \<Longrightarrow> le_bytes 8 (read_le64 p 0) = take 8 p"
  "4 \<le> length p \<Longrightarrow> le_bytes 4 (ucast (read_le32 p 0)) = take 4 p"
  "2 \<le> length p \<Longrightarrow> le_bytes 2 (ucast (read_le16 p 0)) = take 2 p"
  by (rule le_bytes_read [where m = 8] le_bytes_read [where m = 4] le_bytes_read [where m = 2],
      simp_all add: endian_defs bit_simps)+

lemma crc_ref_take_drop: "crc_ref p (drop n d) (crc_ref p (take n d) c) = crc_ref p d c"
  by (simp flip: crc_ref_append)

lemma ucast_ucast_id: "(ucast (ucast (c :: u32) :: u64) :: u32) = c"
  by (rule bit_word_eqI) (simp add: bit_simps)

lemma sse42_loop8_ref:
  "crc_instructions m64 m32 m16 m8 \<Longrightarrow> sse42_loop8 m64 p c = (p', c') \<Longrightarrow>
   crc_ref poly_castagnoli p' (ucast c') = crc_ref poly_castagnoli p (ucast c)"
proof (induction m64 p c rule: sse42_loop8.induct)
  case (1 m p c)
  show ?case
  proof (cases "8 \<le> length p")
    case True
    then have "m c (read_le64 p 0) = ucast (crc_ref poly_castagnoli (take 8 p) (ucast c))"
      using "1.prems"(1) by (simp add: crc_instructions_def le_bytes_read_le)
    then have "(ucast (m c (read_le64 p 0)) :: u32) = crc_ref poly_castagnoli (take 8 p) (ucast c)"
      by (simp add: ucast_ucast_id)
    with True "1" show ?thesis
      by (simp add: sse42_loop8.simps [of m p c] crc_ref_take_drop)
  next
    case False
    with "1.prems" show ?thesis by (simp add: sse42_loop8.simps [of m p c])
  qed
qed

lemma sse42_loop4_ref:
  "crc_instructions m64 m32 m16 m8 \<Longrightarrow> sse42_loop4 m32 p c = (p', c') \<Longrightarrow>
   crc_ref poly_castagnoli p' c' = crc_ref poly_castagnoli p c \<and> length p' < 4"
proof (induction m32 p c rule: sse42_loop4.induct)
  case (1 m p c)
  show ?case
  proof (cases "4 \<le> length p")
    case True
    then have "m c (read_le32 p 0) = crc_ref poly_castagnoli (take 4 p) c"
      using "1.prems"(1) by (simp add: crc_instructions_def le_bytes_read_le)
    with True "1" show ?thesis
      by (simp add: sse42_loop4.simps [of m p c] crc_ref_take_drop)
  next
    case False
    with "1.prems" show ?thesis by (simp add: sse42_loop4.simps [of m p c])
  qed
qed

lemma sse42_last:
  assumes "crc_instructions m64 m32 m16 m8" "length p < 4"
  shows "(let (p2, c2) = (if 2 \<le> length p then (drop 2 p, m16 c (read_le16 p 0)) else (p, c))
          in if p2 \<noteq> [] then m8 c2 (p2 ! 0) else c2) = crc_ref poly_castagnoli p c"
proof -
  have m16: "m16 c (read_le16 p 0) = crc_ref poly_castagnoli (take 2 p) c" if "2 \<le> length p"
    using that assms(1) by (simp add: crc_instructions_def le_bytes_read_le)
  have m8: "(if q \<noteq> [] then m8 d (q ! 0) else d) = crc_ref poly_castagnoli q d" if "length q < 2" for q d
    using that assms(1) by (cases q) (auto simp: crc_instructions_def crc_ref_def)
  show ?thesis
  proof (cases "2 \<le> length p")
    case True
    then have "length (drop 2 p) < 2" using assms(2) by simp
    from m8 [OF this, of "m16 c (read_le16 p 0)"] True show ?thesis
      by (simp add: m16 [OF True] crc_ref_take_drop split: if_splits)
  next
    case False
    with m8 [of p c] show ?thesis by simp
  qed
qed

lemma crc32c_sse42_ref:
  assumes "crc_instructions m64 m32 m16 m8"
  shows "crc32c_sse42 m64 m32 m16 m8 data seed = crc_ref poly_castagnoli data seed"
proof -
  obtain p c where 8: "sse42_loop8 m64 data (ucast seed) = (p, c)" by fastforce
  obtain p4 c4 where 4: "sse42_loop4 m32 p (ucast c) = (p4, c4)" by fastforce
  have short: "length p4 < 4" using sse42_loop4_ref [OF assms 4] by simp
  have "crc_ref poly_castagnoli p4 c4 = crc_ref poly_castagnoli p (ucast c)"
    using sse42_loop4_ref [OF assms 4] by simp
  also have "\<dots> = crc_ref poly_castagnoli data seed"
    using sse42_loop8_ref [OF assms 8] by (simp add: ucast_ucast_id)
  finally show ?thesis
    using sse42_last [OF assms short, of c4] by (simp add: crc32c_sse42_def 8 4)
qed

section \<open>A changed byte changes the checksum\<close>

lemma crc_step_inj:
  assumes "bit poly 31"
  shows "inj (crc_step poly)"
proof (rule injI)
  fix x y assume "crc_step poly x = crc_step poly y"
  then have z: "crc_step poly (x XOR y) = 0" by (simp add: crc_step_xor)
  have "bit (drop_bit 1 (x XOR y)) 31 = False" by (auto simp: bit_simps dest: bit_imp_le_length)
  with assms have "\<not> bit (x XOR y) 0" using z
    unfolding crc_step_bit by (metis bit_0_eq bit_xor_iff bot_apply bot_bool_def)
  with z have "drop_bit 1 (x XOR y) = 0" by (simp add: crc_step_bit)
  then have "bit (x XOR y) (Suc i) = False" for i by (metis bit_0_eq bit_drop_bit_eq bot_apply bot_bool_def comp_apply plus_1_eq_Suc)
  with \<open>\<not> bit (x XOR y) 0\<close> have "x XOR y = 0"
    by (intro bit_word_eqI) (metis bit_0_eq bot_apply bot_bool_def not0_implies_Suc)
  then show "x = y" by (metis xor_cancel xor.right_neutral)
qed

lemma crc_byte_inj: "bit poly 31 \<Longrightarrow> inj (crc_byte poly)"
  unfolding crc_byte_def using crc_step_inj [of poly] by (simp add: inj_fn)

lemma crc_byte_eq_iff: "bit poly 31 \<Longrightarrow> crc_byte poly x = crc_byte poly y \<longleftrightarrow> x = y"
  by (meson crc_byte_inj injD)

lemma xor_right_eq: "(a XOR c = b XOR c) = (a = (b :: 'a::len word))"
  by (metis xor.assoc xor.right_neutral xor_self_eq)

lemma xor_left_eq: "(c XOR a = c XOR b) = (a = (b :: 'a::len word))"
  by (metis xor_cancel)

lemma crc_ref_seed_inj: "bit poly 31 \<Longrightarrow> crc_ref poly d x = crc_ref poly d y \<longleftrightarrow> x = y"
  by (induction d arbitrary: x y) (simp_all add: crc_ref_def crc_byte_eq_iff xor_right_eq)

lemma ucast8_inj: "(ucast a :: u32) = ucast b \<longleftrightarrow> a = (b :: u8)"
proof
  assume "(ucast a :: u32) = ucast b"
  then have "unat (ucast a :: u32) = unat (ucast b :: u32)" by simp
  then show "a = b" by (simp add: unat_ucast_up word_unat_eq_iff)
qed simp

lemma crc_ref_update_neq:
  assumes "bit poly 31" "i < length d" "v \<noteq> d ! i"
  shows "crc_ref poly (d[i := v]) s \<noteq> crc_ref poly d s"
proof -
  let ?c = "crc_ref poly (take i d) s" and ?rest = "drop (Suc i) d"
  have split: "crc_ref poly (take i d @ x # ?rest) s = crc_ref poly ?rest (crc_byte poly (?c XOR ucast x))" for x
    by (simp add: crc_ref_def)
  have "crc_ref poly d s = crc_ref poly ?rest (crc_byte poly (?c XOR ucast (d ! i)))"
    using split [of "d ! i"] assms(2) by (simp add: Cons_nth_drop_Suc)
  moreover have "crc_ref poly (d[i := v]) s = crc_ref poly ?rest (crc_byte poly (?c XOR ucast v))"
    using split [of v] assms(2) by (simp add: upd_conv_take_nth_drop)
  ultimately show ?thesis
    using assms(1,3) by (simp add: crc_ref_seed_inj crc_byte_eq_iff xor_left_eq ucast8_inj)
qed

lemma poly_top_bits: "bit poly_ieee 31" "bit poly_castagnoli 31"
  by (simp_all add: poly_ieee_def poly_castagnoli_def bit_numeral_rec)

section \<open>Checksums as an interface\<close>

text \<open>
  What the on-disk formats rely on: a checksum that is a left fold over the bytes and that
  tells buffers apart that differ in one byte.
\<close>

locale fold_checksum =
  fixes crc :: "bytes \<Rightarrow> u32 \<Rightarrow> u32"
  assumes crc_nil: "crc [] s = s"
    and crc_append: "crc (a @ b) s = crc b (crc a s)"
    and crc_update: "i < length d \<Longrightarrow> v \<noteq> d ! i \<Longrightarrow> crc (d[i := v]) s \<noteq> crc d s"
begin

text \<open>Continuing a checksum chunk by chunk gives the checksum of the whole.\<close>

lemma crc_chunks: "fold (\<lambda>c s. crc c s) cs s = crc (concat cs) s"
  by (induction cs arbitrary: s) (simp_all add: crc_append crc_nil)

text \<open>
  A sealed buffer keeps the inverted checksum of its first \<open>k\<close> bytes in the four bytes at
  \<open>k\<close>. Any change of a single byte of it is noticed.
\<close>

definition sealed_at :: "nat \<Rightarrow> bytes \<Rightarrow> bool" where
  "sealed_at k b \<longleftrightarrow> read_le32 b k = crc (take k b) 0xffffffff XOR 0xffffffff"

lemma sealed_write: "k + 4 \<le> length b \<Longrightarrow>
  sealed_at k (write_le32 b k (crc (take k b) 0xffffffff XOR 0xffffffff))"
  by (simp add: sealed_at_def buf_simps)

lemma read_le32_update_neq:
  assumes "k + 4 \<le> length b" "k \<le> i" "i < k + 4" "v \<noteq> b ! i"
  shows "read_le32 (b[i := v]) k \<noteq> read_le32 b k"
proof -
  obtain j where j: "bit v j \<noteq> bit (b ! i) j" using assms(4) by (metis bit_word_eqI)
  then have "j < 8" by (auto dest: bit_imp_le_length)
  define n where "n = (i - k) * 8 + j"
  have n: "n < 32" "n div 8 = i - k" "n mod 8 = j" using \<open>j < 8\<close> assms(2,3) by (auto simp: n_def)
  have "bit (read_le32 (b[i := v]) k) n \<noteq> bit (read_le32 b k) n"
    using n j assms by (simp add: read_le32_def bit_simps bit_read_le_wide)
  then show ?thesis by auto
qed

lemma sealed_update:
  assumes "sealed_at k b" "k + 4 \<le> length b" "i < k + 4" "v \<noteq> b ! i"
  shows "\<not> sealed_at k (b[i := v])"
proof (cases "i < k")
  case True
  have "read_le32 (b[i := v]) k = read_le32 b k"
    unfolding read_le32_def using True by (intro arg_cong [where f = ucast] read_le_wide_cong) auto
  moreover have "take k (b[i := v]) = (take k b)[i := v]" by (simp add: take_update_swap)
  moreover have "crc ((take k b)[i := v]) 0xffffffff \<noteq> crc (take k b) 0xffffffff"
    using assms True by (intro crc_update) auto
  ultimately show ?thesis using assms(1) by (auto simp: sealed_at_def xor_right_eq)
next
  case False
  then have "take k (b[i := v]) = take k b" by simp
  with False assms show ?thesis
    using read_le32_update_neq [of k b i v] by (simp add: sealed_at_def)
qed

end

interpretation castagnoli: fold_checksum crc32c
  by unfold_locales
    (simp_all add: crc32c_ref crc_ref_append crc_ref_update_neq poly_top_bits, simp add: crc_ref_def)

interpretation ieee: fold_checksum crc32_ieee
  by unfold_locales
    (simp_all add: crc32_ieee_ref crc_ref_append crc_ref_update_neq poly_top_bits, simp add: crc_ref_def)

section \<open>Properties\<close>

text \<open>
  C39. The eight-table routine equals the bit-by-bit register for either polynomial, and the
  dispatch of \<open>crc32c\<close> returns the same value on the SSE4.2 path, whatever the
  instructions compute as long as they behave as documented.
\<close>

theorem crc_fast_equals_reference:
  assumes "crc_instructions m64 m32 m16 m8"
  shows "crc32_ieee data seed = crc_ref poly_ieee data seed
       \<and> crc32c_dispatch have_sse42 m64 m32 m16 m8 data seed = crc_ref poly_castagnoli data seed
       \<and> crc32c_dispatch have_sse42 m64 m32 m16 m8 data seed = crc32c data seed"
  by (simp add: crc32_ieee_ref crc32c_dispatch_def crc_run_ref crc32c_sse42_ref [OF assms] crc32c_ref)

theorem crc_fast_equals_reference_witness:
  "crc32c_dispatch True
     (\<lambda>c v. ucast (crc_ref poly_castagnoli (le_bytes 8 v) (ucast c)))
     (\<lambda>c v. crc_ref poly_castagnoli (le_bytes 4 (ucast v)) c)
     (\<lambda>c v. crc_ref poly_castagnoli (le_bytes 2 (ucast v)) c)
     (\<lambda>c v. crc_ref poly_castagnoli [v] c) [1, 2, 3] 0xffffffff
   = crc_ref poly_castagnoli [1, 2, 3] 0xffffffff"
proof -
  have "crc_instructions
     (\<lambda>c v. ucast (crc_ref poly_castagnoli (le_bytes 8 v) (ucast c)))
     (\<lambda>c v. crc_ref poly_castagnoli (le_bytes 4 (ucast v)) c)
     (\<lambda>c v. crc_ref poly_castagnoli (le_bytes 2 (ucast v)) c)
     (\<lambda>c v. crc_ref poly_castagnoli [v] c)"
    by (simp add: crc_instructions_def)
  from crc_fast_equals_reference [OF this] show ?thesis by blast
qed

text \<open>
  Changing any one byte of a buffer changes both of its checksums, and a checksum over a
  buffer cut into chunks, each continued from the previous one, is the checksum of the whole
  buffer (the chunked loops of the copy and verification code depend on it).
\<close>

theorem crc_detects_byte_change:
  "(\<forall>d i v s. i < length d \<and> v \<noteq> d ! i \<longrightarrow>
      crc32c (d[i := v]) s \<noteq> crc32c d s \<and> crc32_ieee (d[i := v]) s \<noteq> crc32_ieee d s)
   \<and> (\<forall>cs s. fold (\<lambda>c s. crc32c c s) cs s = crc32c (concat cs) s)"
  by (simp add: castagnoli.crc_update ieee.crc_update castagnoli.crc_chunks)

theorem crc_detects_byte_change_witness:
  "crc32c ([1, 2, 3][1 := 7]) 0 \<noteq> crc32c [1, 2, 3] 0
   \<and> fold (\<lambda>c s. crc32c c s) [[1], [2, 3]] 0 = crc32c [1, 2, 3] 0"
  using crc_detects_byte_change [THEN conjunct1, rule_format, of 1 "[1, 2, 3]" 7 0]
    crc_detects_byte_change [THEN conjunct2, rule_format, of "[[1], [2, 3]]" 0]
  by simp

end
