(* ===== verification/Fsx_Uuid.thy ===== *)
theory Fsx_Uuid
  imports Fsx_Prelude
begin

text \<open>
  \<^verbatim>\<open>src/core/uuid.cpp\<close>: parsing and printing of UUIDs and the version/variant fix-up of random
  ones. \<open>parse_uuid\<close> is the loop over the characters with its state (output array, output
  index, pending high digit) explicit; entropy and clock readings of \<open>random_uuid_v4\<close> are
  arguments.
\<close>

section \<open>Model\<close>

definition hex :: "char \<Rightarrow> int" where
  "hex c =
     (let n = of_char c :: int in
      if 48 \<le> n \<and> n \<le> 57 then n - 48
      else if 97 \<le> n \<and> n \<le> 102 then n - 97 + 10
      else if 65 \<le> n \<and> n \<le> 70 then n - 65 + 10
      else -1)"

definition join_nibbles :: "int \<Rightarrow> int \<Rightarrow> u8" where
  "join_nibbles high v = word_of_int (push_bit 4 high OR v)"

fun parse_uuid_loop :: "string \<Rightarrow> bytes \<Rightarrow> nat \<Rightarrow> int \<Rightarrow> (bytes \<times> nat \<times> int) result" where
  "parse_uuid_loop [] out oi high = Inr (out, oi, high)"
| "parse_uuid_loop (c # cs) out oi high =
     (if c = CHR ''-'' then parse_uuid_loop cs out oi high
      else let v = hex c in
        if v < 0 then fail Errc_invalid_argument ''invalid UUID''
        else if high < 0 then parse_uuid_loop cs out oi v
        else if length out \<le> oi then fail Errc_invalid_argument ''UUID is too long''
        else parse_uuid_loop cs (out[oi := join_nibbles high v]) (oi + 1) (-1))"

definition parse_uuid :: "string \<Rightarrow> bytes result" where
  "parse_uuid s =
     bind_result (parse_uuid_loop s (replicate 16 0) 0 (-1)) (\<lambda>(out, oi, high).
       if oi \<noteq> 16 \<or> 0 \<le> high then fail Errc_invalid_argument ''UUID must contain 16 bytes''
       else Inr out)"

definition hex_digits :: string where "hex_digits = ''0123456789abcdef''"

definition format_uuid :: "bytes \<Rightarrow> string" where
  "format_uuid u =
     concat (map (\<lambda>i. (if i = 4 \<or> i = 6 \<or> i = 8 \<or> i = 10 then ''-'' else '''') @
                      [hex_digits ! unat (drop_bit 4 (u ! i)), hex_digits ! unat (u ! i AND 15)]) [0..<16])"

definition random_uuid_v4 :: "bytes option \<Rightarrow> u64 \<Rightarrow> u64 \<Rightarrow> u64 \<Rightarrow> u64 \<Rightarrow> bytes" where
  "random_uuid_v4 entropy a b c d =
     (let x = a XOR push_bit 17 c XOR (d * 0x9e3779b97f4a7c15);
          y = b XOR push_bit 31 c XOR (d * 0xbf58476d1ce4e5b9);
          out = (case entropy of Some e \<Rightarrow> e
                 | None \<Rightarrow> map (\<lambda>i. ucast (drop_bit (i * 8) x AND 0xff)) [0..<8] @
                           map (\<lambda>i. ucast (drop_bit (i * 8) y AND 0xff)) [0..<8]);
          out6 = out[6 := (out ! 6 AND 0x0f) OR 0x40]
      in out6[8 := (out6 ! 8 AND 0x3f) OR 0x80])"

section \<open>Digits\<close>

lemma hex_digit: "n < 16 \<Longrightarrow> hex (hex_digits ! n) = int n \<and> hex_digits ! n \<noteq> CHR ''-''"
proof -
  have "\<forall>n\<in>set [0..<16]. hex (hex_digits ! n) = int n \<and> hex_digits ! n \<noteq> CHR ''-''"
    by code_simp
  then show "n < 16 \<Longrightarrow> ?thesis" by simp
qed

lemma nibble_bounds: "unat (drop_bit 4 (b :: u8)) < 16" "unat (b AND 15) < 16"
proof -
  have "unat b < 256" using unsigned_less [of b] by simp
  then show "unat (drop_bit 4 b) < 16" by (simp add: drop_bit_eq_div unat_div)
  have "b AND 15 = take_bit 4 b" by (simp add: take_bit_eq_mask mask_eq_exp_minus_1)
  then show "unat (b AND 15) < 16"
    using take_bit_nat_less_exp [of 4 "unat b"] by (simp add: unsigned_take_bit_eq)
qed

lemma join_nibbles_split:
  "join_nibbles (uint (drop_bit 4 b)) (uint (b AND 15)) = b"
proof (rule bit_word_eqI)
  fix i :: nat assume "i < LENGTH(8)"
  then have "i < 8" by simp
  have lo: "b AND 15 = take_bit 4 b" by (simp add: take_bit_eq_mask mask_eq_exp_minus_1)
  show "bit (join_nibbles (uint (drop_bit 4 b)) (uint (b AND 15))) i = bit b i"
    unfolding join_nibbles_def lo using \<open>i < 8\<close>
    by (cases "i < 4") (auto simp: bit_simps bit_unsigned_iff)
qed

section \<open>Parsing what was printed\<close>

lemma parse_byte:
  assumes "oi < length out"
  shows "parse_uuid_loop ([hex_digits ! unat (drop_bit 4 b), hex_digits ! unat (b AND 15)] @ rest) out oi (-1)
       = parse_uuid_loop rest (out[oi := b]) (oi + 1) (-1)"
  using assms hex_digit [OF nibble_bounds(1) [of b]] hex_digit [OF nibble_bounds(2) [of b]]
  by (simp add: Let_def join_nibbles_split)

lemma parse_format_loop:
  assumes "k \<le> 16" "length out = 16" "length u = 16"
  shows "parse_uuid_loop
     (concat (map (\<lambda>i. (if i = 4 \<or> i = 6 \<or> i = 8 \<or> i = 10 then ''-'' else '''') @
        [hex_digits ! unat (drop_bit 4 (u ! i)), hex_digits ! unat (u ! i AND 15)]) [k..<16])) out k (-1)
   = Inr (take k out @ drop k u, 16, -1)"
  using assms
proof (induction "16 - k" arbitrary: k out)
  case 0
  then show ?case by simp
next
  case (Suc n)
  then have "k < 16" by simp
  have upd: "take (Suc k) (out[k := u ! k]) @ drop (Suc k) u = take k out @ drop k u"
    using Suc.prems \<open>k < 16\<close> by (simp add: take_Suc_conv_app_nth Cons_nth_drop_Suc)
  from Suc \<open>k < 16\<close> show ?case
    using Suc.hyps(1) [of "Suc k" "out[k := u ! k]"]
    by (simp add: upt_conv_Cons parse_byte [simplified] upd)
qed

lemma random_uuid_v4_nth:
  assumes "case entropy of None \<Rightarrow> True | Some e \<Rightarrow> length e = 16"
  shows "random_uuid_v4 entropy a b c d ! 6 AND 0xf0 = 0x40"
    and "random_uuid_v4 entropy a b c d ! 8 AND 0xc0 = 0x80"
    and "length (random_uuid_v4 entropy a b c d) = 16"
proof -
  have m: "((x AND 0x0f) OR 0x40) AND 0xf0 = (0x40 :: u8)" "((x AND 0x3f) OR 0x80) AND 0xc0 = (0x80 :: u8)" for x :: u8
    by (simp_all add: bit.conj_disj_distrib2 and.assoc)
  show "random_uuid_v4 entropy a b c d ! 6 AND 0xf0 = 0x40"
    "random_uuid_v4 entropy a b c d ! 8 AND 0xc0 = 0x80"
    "length (random_uuid_v4 entropy a b c d) = 16"
    using assms by (auto simp: random_uuid_v4_def Let_def m split: option.splits)
qed

section \<open>Properties\<close>

text \<open>
  Printing a 16-byte UUID and parsing the text gives the bytes back, and a generated UUID
  has 16 bytes with version nibble 4 and the RFC variant bits, with or without entropy.
\<close>

theorem uuid_roundtrip:
  assumes "length u = 16" and "case entropy of None \<Rightarrow> True | Some e \<Rightarrow> length e = 16"
  shows "parse_uuid (format_uuid u) = Inr u
       \<and> length (random_uuid_v4 entropy a b c d) = 16
       \<and> random_uuid_v4 entropy a b c d ! 6 AND 0xf0 = 0x40
       \<and> random_uuid_v4 entropy a b c d ! 8 AND 0xc0 = 0x80"
  using parse_format_loop [of 0 "replicate 16 0" u] assms random_uuid_v4_nth [OF assms(2)]
  by (simp add: parse_uuid_def format_uuid_def)

theorem uuid_roundtrip_witness:
  "parse_uuid (format_uuid (map of_nat [0..<16])) = Inr (map of_nat [0..<16])
   \<and> random_uuid_v4 None 1 2 3 4 ! 6 AND 0xf0 = 0x40"
  using uuid_roundtrip [of "map of_nat [0..<16]" None 1 2 3 4] by simp

end
