(* ===== verification/Fsx_Fault.thy ===== *)
theory Fsx_Fault
  imports Fsx_Prelude
begin

text \<open>
  \<^verbatim>\<open>src/core/fault.cpp\<close>: the dormant fault-injection hooks of the block layer. The mutex-guarded
  static state is the record \<open>fault_state\<close>; \<open>fault_point\<close> is one call of \<^verbatim>\<open>fault::point\<close>,
  whose \<^verbatim>\<open>_exit(200)\<close> is the failure value \<open>Exited 200\<close>.
\<close>

section \<open>Model\<close>

datatype fault_operation = Op_read | Op_write | Op_flush
datatype fault_timing = Before | After
datatype fault_action = Return_error | Terminate_process

record fault_rule =
  fr_operation :: fault_operation
  fr_timing :: fault_timing
  fr_hit :: u64
  fr_one_shot :: bool
  fr_action :: fault_action

record fault_state =
  fs_rule :: fault_rule
  fs_active :: bool
  fs_counts :: "fault_operation \<Rightarrow> u64"

text \<open>A call can return an error, end the process or never return.\<close>

datatype failure = Failed error | Exited int | Diverged

fun digits :: "nat \<Rightarrow> string" where
  "digits n = (if n < 10 then [char_of (48 + n)] else digits (n div 10) @ [char_of (48 + n mod 10)])"

declare digits.simps [simp del]

definition to_string :: "u64 \<Rightarrow> string" where
  "to_string v = digits (unat v)"

definition fault_install :: "fault_rule \<Rightarrow> fault_state \<Rightarrow> fault_state" where
  "fault_install r s =
     (let r' = (if fr_hit r = 0 then r\<lparr>fr_hit := 1\<rparr> else r)
      in \<lparr>fs_rule = r', fs_active = True, fs_counts = (\<lambda>_. 0)\<rparr>)"

definition fault_reset :: "fault_state \<Rightarrow> fault_state" where
  "fault_reset s = s\<lparr>fs_active := False, fs_counts := (\<lambda>_. 0)\<rparr>"

definition fault_enabled :: "fault_state \<Rightarrow> bool" where
  "fault_enabled s = fs_active s"

definition fault_hits :: "fault_operation \<Rightarrow> fault_state \<Rightarrow> u64" where
  "fault_hits op s = fs_counts s op"

definition fault_message :: "fault_operation \<Rightarrow> fault_timing \<Rightarrow> u64 \<Rightarrow> string" where
  "fault_message op t n =
     ''fault injection: '' @ (case op of Op_read \<Rightarrow> ''read'' | Op_write \<Rightarrow> ''write'' | Op_flush \<Rightarrow> ''flush'')
     @ '' '' @ (case t of Before \<Rightarrow> ''before'' | After \<Rightarrow> ''after'') @ '' operation '' @ to_string n"

definition fault_point ::
  "fault_operation \<Rightarrow> fault_timing \<Rightarrow> fault_state \<Rightarrow> (failure + unit) \<times> fault_state" where
  "fault_point op t s =
     (if \<not> fs_active s then (Inr (), s)
      else if fr_operation (fs_rule s) \<noteq> op \<or> fr_timing (fs_rule s) \<noteq> t then (Inr (), s)
      else
        let n = fs_counts s op + 1;
            s1 = s\<lparr>fs_counts := (fs_counts s)(op := n)\<rparr>
        in if n \<noteq> fr_hit (fs_rule s) then (Inr (), s1)
           else
             let s2 = (if fr_one_shot (fs_rule s) then s1\<lparr>fs_active := False\<rparr> else s1)
             in if fr_action (fs_rule s) = Terminate_process then (Inl (Exited 200), s2)
                else (Inl (Failed (mk_error Errc_io (fault_message op t n))), s2))"

text \<open>A run of hook calls, up to the first one that fails.\<close>

fun fault_points :: "(fault_operation \<times> fault_timing) list \<Rightarrow> fault_state \<Rightarrow> (failure + unit) \<times> fault_state" where
  "fault_points [] s = (Inr (), s)"
| "fault_points ((op, t) # ps) s =
     (case fault_point op t s of (Inl f, s') \<Rightarrow> (Inl f, s') | (Inr _, s') \<Rightarrow> fault_points ps s')"

section \<open>Lemmas\<close>

lemma fault_point_idle [simp]: "\<not> fs_active s \<Longrightarrow> fault_point op t s = (Inr (), s)"
  by (simp add: fault_point_def)

lemma fault_points_idle [simp]: "\<not> fs_active s \<Longrightarrow> fault_points ps s = (Inr (), s)"
  by (induction ps) auto

lemma fault_point_rule [simp]: "fs_rule (snd (fault_point op t s)) = fs_rule s"
  by (simp add: fault_point_def Let_def)

lemma fault_point_other:
  "fr_operation (fs_rule s) \<noteq> op \<or> fr_timing (fs_rule s) \<noteq> t \<Longrightarrow> fault_point op t s = (Inr (), s)"
  by (simp add: fault_point_def)

text \<open>
  The hook calls that match the armed rule are the ones that count: the number of matching
  calls so far is the counter, as long as the rule has not fired.
\<close>

definition matching :: "fault_rule \<Rightarrow> (fault_operation \<times> fault_timing) list \<Rightarrow> nat" where
  "matching r ps = length (filter (\<lambda>p. p = (fr_operation r, fr_timing r)) ps)"

lemma fault_points_below:
  assumes "fs_active s" "unat (fs_counts s (fr_operation (fs_rule s))) + matching (fs_rule s) ps < unat (fr_hit (fs_rule s))"
  shows "\<exists>s'. fault_points ps s = (Inr (), s') \<and> fs_active s' \<and> fs_rule s' = fs_rule s \<and>
     unat (fs_counts s' (fr_operation (fs_rule s))) =
       unat (fs_counts s (fr_operation (fs_rule s))) + matching (fs_rule s) ps"
  using assms
proof (induction ps arbitrary: s)
  case Nil
  then show ?case by (simp add: matching_def)
next
  case (Cons p ps)
  obtain op t where p: "p = (op, t)" by fastforce
  let ?r = "fs_rule s" and ?c = "fs_counts s (fr_operation (fs_rule s))"
  show ?case
  proof (cases "fr_operation ?r = op \<and> fr_timing ?r = t")
    case False
    then have "fault_point op t s = (Inr (), s)" by (intro fault_point_other) auto
    with False Cons p show ?thesis by (auto simp: matching_def)
  next
    case True
    have m: "matching ?r (p # ps) = Suc (matching ?r ps)" using True p by (simp add: matching_def)
    have c1: "unat (?c + 1) = unat ?c + 1"
      using Cons.prems(2) m unat_lt_64 [of "fr_hit ?r"] by (subst unat_add_le) auto
    then have "?c + 1 \<noteq> fr_hit ?r" using Cons.prems(2) m by auto
    with True Cons.prems(1) have pt:
      "fault_point op t s = (Inr (), s\<lparr>fs_counts := (fs_counts s)(op := ?c + 1)\<rparr>)"
      by (auto simp: fault_point_def Let_def)
    show ?thesis
      using Cons.IH [of "s\<lparr>fs_counts := (fs_counts s)(op := ?c + 1)\<rparr>"] Cons.prems True p pt m c1
      by auto
  qed
qed

lemma matching_append: "matching r (xs @ ys) = matching r xs + matching r ys"
  by (simp add: matching_def)

lemma fault_points_append:
  "fault_points (xs @ ys) s =
     (case fault_points xs s of (Inl f, s') \<Rightarrow> (Inl f, s') | (Inr _, s') \<Rightarrow> fault_points ys s')"
  by (induction xs arbitrary: s) (auto split: prod.splits sum.splits)

section \<open>Properties\<close>

text \<open>
  An installed rule fires at exactly its n-th matching hook call: every run with fewer
  matching calls passes, the call after \<open>hit - 1\<close> matching ones fails with the rule's action,
  and a one-shot rule is inactive afterwards, so that later calls pass.
\<close>

theorem fault_fires_exactly_once:
  assumes "fr_hit r \<noteq> 0" and "matching r ps + 1 = unat (fr_hit r)"
  shows "fst (fault_points ps (fault_install r s0)) = Inr ()
    \<and> fst (fault_points (ps @ [(fr_operation r, fr_timing r)]) (fault_install r s0)) =
      Inl (if fr_action r = Terminate_process then Exited 200
           else Failed (mk_error Errc_io (fault_message (fr_operation r) (fr_timing r) (fr_hit r))))
    \<and> (fr_one_shot r \<longrightarrow>
      fst (fault_points qs (snd (fault_points (ps @ [(fr_operation r, fr_timing r)]) (fault_install r s0)))) = Inr ())"
proof -
  let ?s = "fault_install r s0"
  have s: "fs_active ?s" "fs_rule ?s = r" "fs_counts ?s (fr_operation r) = 0"
    using assms(1) by (simp_all add: fault_install_def)
  obtain s' where run: "fault_points ps ?s = (Inr (), s')" and s': "fs_active s'" "fs_rule s' = r"
    and c: "unat (fs_counts s' (fr_operation r)) = matching r ps"
    using fault_points_below [of ?s ps] s assms by auto
  have "unat (fs_counts s' (fr_operation r) + 1) = unat (fr_hit r)"
    using c assms(2) unat_lt_64 [of "fr_hit r"] by (subst unat_add_le) auto
  then have hit: "fs_counts s' (fr_operation r) + 1 = fr_hit r" by (simp add: word_unat_eq_iff)
  from run s' hit show ?thesis by (simp add: fault_points_append fault_point_def Let_def)
qed

theorem fault_fires_exactly_once_witness:
  "fst (fault_points [(Op_write, Before), (Op_read, Before), (Op_write, Before)]
     (fault_install \<lparr>fr_operation = Op_write, fr_timing = Before, fr_hit = 2, fr_one_shot = True,
        fr_action = Terminate_process\<rparr>
        \<lparr>fs_rule = \<lparr>fr_operation = Op_read, fr_timing = After, fr_hit = 1, fr_one_shot = False,
           fr_action = Return_error\<rparr>, fs_active = False, fs_counts = (\<lambda>_. 0)\<rparr>)) = Inl (Exited 200)"
  using fault_fires_exactly_once
    [of "\<lparr>fr_operation = Op_write, fr_timing = Before, fr_hit = 2, fr_one_shot = True,
        fr_action = Terminate_process\<rparr>" "[(Op_write, Before), (Op_read, Before)]"
      "\<lparr>fs_rule = \<lparr>fr_operation = Op_read, fr_timing = After, fr_hit = 1, fr_one_shot = False,
           fr_action = Return_error\<rparr>, fs_active = False, fs_counts = (\<lambda>_. 0)\<rparr>" "[]"]
  by (simp add: matching_def)

end
