(* ===== verification/Fsx_Journal_Format.thy ===== *)
theory Fsx_Journal_Format
  imports Fsx_Crc
begin

text \<open>
  The on-disk format of the transaction journal, \<^verbatim>\<open>src/transaction/journal.cpp\<close> lines 17-146 and
  the types of \<^verbatim>\<open>include/fsx/journal.hpp\<close>: the 4096-byte header written to two slots and the
  128-byte record, each sealed with an inverted CRC-32C in its last four bytes.
\<close>

section \<open>Types\<close>

datatype operation_phase =
    Phase_prepared | Phase_relocating | Phase_paused | Phase_metadata_finalize
  | Phase_filesystem_shrunk | Phase_partition_pending | Phase_complete | Phase_failed
  | Phase_staged | Phase_metadata_paused | Phase_compacted

fun phase_code :: "operation_phase \<Rightarrow> u32" where
  "phase_code Phase_prepared = 1"
| "phase_code Phase_relocating = 2"
| "phase_code Phase_paused = 3"
| "phase_code Phase_metadata_finalize = 4"
| "phase_code Phase_filesystem_shrunk = 5"
| "phase_code Phase_partition_pending = 6"
| "phase_code Phase_complete = 7"
| "phase_code Phase_failed = 8"
| "phase_code Phase_staged = 9"
| "phase_code Phase_metadata_paused = 10"
| "phase_code Phase_compacted = 11"

text \<open>The cast \<^verbatim>\<open>static_cast<OperationPhase>(ph)\<close>, for the numbers the enumeration has.\<close>

definition phases :: "operation_phase list" where
  "phases = [Phase_prepared, Phase_relocating, Phase_paused, Phase_metadata_finalize,
     Phase_filesystem_shrunk, Phase_partition_pending, Phase_complete, Phase_failed, Phase_staged,
     Phase_metadata_paused, Phase_compacted]"

definition phase_of :: "u32 \<Rightarrow> operation_phase" where
  "phase_of n = phases ! (unat n - 1)"

datatype journal_record_type =
    Rec_relocation_intent | Rec_copy_verified | Rec_metadata_committed | Rec_checkpoint | Rec_note
  | Rec_destination_reserved | Rec_owner_switched | Rec_source_released
  | Rec_filesystem_marked_dirty | Rec_filesystem_marked_clean | Rec_partition_intent
  | Rec_partition_committed

fun record_type_code :: "journal_record_type \<Rightarrow> u16" where
  "record_type_code Rec_relocation_intent = 1"
| "record_type_code Rec_copy_verified = 2"
| "record_type_code Rec_metadata_committed = 3"
| "record_type_code Rec_checkpoint = 4"
| "record_type_code Rec_note = 5"
| "record_type_code Rec_destination_reserved = 6"
| "record_type_code Rec_owner_switched = 7"
| "record_type_code Rec_source_released = 8"
| "record_type_code Rec_filesystem_marked_dirty = 9"
| "record_type_code Rec_filesystem_marked_clean = 10"
| "record_type_code Rec_partition_intent = 11"
| "record_type_code Rec_partition_committed = 12"

definition record_types :: "journal_record_type list" where
  "record_types = [Rec_relocation_intent, Rec_copy_verified, Rec_metadata_committed, Rec_checkpoint,
     Rec_note, Rec_destination_reserved, Rec_owner_switched, Rec_source_released,
     Rec_filesystem_marked_dirty, Rec_filesystem_marked_clean, Rec_partition_intent,
     Rec_partition_committed]"

definition record_type_of :: "u16 \<Rightarrow> journal_record_type" where
  "record_type_of n = record_types ! (unat n - 1)"

record journal_identity =
  id_operation_uuid :: bytes
  id_filesystem_uuid :: bytes
  id_device_size :: u64
  id_target_size :: u64

record journal_record =
  jr_type :: journal_record_type
  jr_sequence :: u64
  jr_transaction_id :: u64
  jr_source_block :: u64
  jr_destination_block :: u64
  jr_block_count :: u64
  jr_inode :: u64
  jr_aux :: u64
  jr_data_crc32c :: u32
  jr_state :: u32

record decoded_header =
  dh_id :: journal_identity
  dh_sequence :: u64
  dh_phase :: operation_phase
  dh_record_count :: u64

fun operation_phase_name :: "operation_phase \<Rightarrow> string" where
  "operation_phase_name Phase_prepared = ''prepared''"
| "operation_phase_name Phase_relocating = ''relocating''"
| "operation_phase_name Phase_paused = ''paused''"
| "operation_phase_name Phase_metadata_finalize = ''metadata_finalize''"
| "operation_phase_name Phase_filesystem_shrunk = ''filesystem_shrunk''"
| "operation_phase_name Phase_partition_pending = ''partition_pending''"
| "operation_phase_name Phase_complete = ''complete''"
| "operation_phase_name Phase_failed = ''failed''"
| "operation_phase_name Phase_staged = ''staged''"
| "operation_phase_name Phase_metadata_paused = ''metadata_paused''"
| "operation_phase_name Phase_compacted = ''compacted''"

fun journal_record_type_name :: "journal_record_type \<Rightarrow> string" where
  "journal_record_type_name Rec_relocation_intent = ''relocation_intent''"
| "journal_record_type_name Rec_copy_verified = ''copy_verified''"
| "journal_record_type_name Rec_metadata_committed = ''metadata_committed''"
| "journal_record_type_name Rec_checkpoint = ''checkpoint''"
| "journal_record_type_name Rec_note = ''note''"
| "journal_record_type_name Rec_destination_reserved = ''destination_reserved''"
| "journal_record_type_name Rec_owner_switched = ''owner_switched''"
| "journal_record_type_name Rec_source_released = ''source_released''"
| "journal_record_type_name Rec_filesystem_marked_dirty = ''filesystem_marked_dirty''"
| "journal_record_type_name Rec_filesystem_marked_clean = ''filesystem_marked_clean''"
| "journal_record_type_name Rec_partition_intent = ''partition_intent''"
| "journal_record_type_name Rec_partition_committed = ''partition_committed''"

section \<open>Headers\<close>

definition header_magic :: bytes where
  "header_magic = [0x46, 0x53, 0x58, 0x4A, 0x4E, 0x4C, 0x31, 0x30]"

definition header_version :: u32 where "header_version = 1"
definition record_magic :: u32 where "record_magic = 0x52585346"
definition record_version :: u16 where "record_version = 1"

definition header_bytes :: u64 where "header_bytes = 4096"
definition records_offset :: u64 where "records_offset = header_bytes * 2"
definition record_bytes :: u64 where "record_bytes = 128"

definition crc_seal :: "bytes \<Rightarrow> nat \<Rightarrow> u32" where
  "crc_seal b k = crc32c (take k b) 0xffffffff XOR 0xffffffff"

definition encode_header :: "journal_identity \<Rightarrow> u64 \<Rightarrow> operation_phase \<Rightarrow> u64 \<Rightarrow> bytes" where
  "encode_header ident sequence phase record_count =
     (let b = replicate 4096 0;
          b = put_bytes 0 header_magic b;
          b = write_le32 b 8 header_version;
          b = write_le32 b 12 4096;
          b = write_le64 b 16 sequence;
          b = put_bytes 24 (id_operation_uuid ident) b;
          b = put_bytes 40 (id_filesystem_uuid ident) b;
          b = write_le64 b 56 (id_device_size ident);
          b = write_le64 b 64 (id_target_size ident);
          b = write_le32 b 72 (phase_code phase);
          b = write_le64 b 80 record_count;
          b = write_le64 b 88 record_bytes;
          b = write_le64 b 96 records_offset;
          b = write_le32 b 4092 0
      in write_le32 b 4092 (crc_seal b 4092))"

definition decode_header :: "bytes \<Rightarrow> decoded_header result" where
  "decode_header b =
     (if length b < 4096 then fail Errc_corrupt ''journal header is truncated''
      else if get_bytes 0 8 b \<noteq> header_magic then fail Errc_corrupt ''journal header magic mismatch''
      else if read_le32 b 8 \<noteq> header_version \<or> read_le32 b 12 \<noteq> 4096
      then fail Errc_unsupported ''unsupported journal header version''
      else
        let stored = read_le32 b 4092;
            tmp = write_le32 (take 4096 b) 4092 0
        in if stored \<noteq> crc_seal tmp 4092 then fail Errc_corrupt ''journal header checksum mismatch''
        else
          let ph = read_le32 b 72
          in if ph < 1 \<or> ph > 11 then fail Errc_corrupt ''invalid journal phase''
          else if read_le64 b 88 \<noteq> record_bytes \<or> read_le64 b 96 \<noteq> records_offset
          then fail Errc_unsupported ''unsupported journal record layout''
          else Inr \<lparr>dh_id = \<lparr>id_operation_uuid = get_bytes 24 16 b, id_filesystem_uuid = get_bytes 40 16 b,
                              id_device_size = read_le64 b 56, id_target_size = read_le64 b 64\<rparr>,
                    dh_sequence = read_le64 b 16, dh_phase = phase_of ph, dh_record_count = read_le64 b 80\<rparr>)"

section \<open>Records\<close>

definition encode_record :: "journal_record \<Rightarrow> bytes" where
  "encode_record r =
     (let b = replicate 128 0;
          b = write_le32 b 0 record_magic;
          b = write_le16 b 4 record_version;
          b = write_le16 b 6 (record_type_code (jr_type r));
          b = write_le64 b 8 (jr_sequence r);
          b = write_le64 b 16 (jr_transaction_id r);
          b = write_le64 b 24 (jr_source_block r);
          b = write_le64 b 32 (jr_destination_block r);
          b = write_le64 b 40 (jr_block_count r);
          b = write_le64 b 48 (jr_inode r);
          b = write_le64 b 56 (jr_aux r);
          b = write_le32 b 64 (jr_data_crc32c r);
          b = write_le32 b 68 (jr_state r);
          b = write_le32 b 124 0
      in write_le32 b 124 (crc_seal b 124))"

definition decode_record :: "bytes \<Rightarrow> journal_record result" where
  "decode_record b =
     (if length b < 128 \<or> read_le32 b 0 \<noteq> record_magic \<or> read_le16 b 4 \<noteq> record_version
      then fail Errc_corrupt ''journal record header invalid''
      else
        let stored = read_le32 b 124;
            tmp = write_le32 (take 128 b) 124 0
        in if stored \<noteq> crc_seal tmp 124 then fail Errc_corrupt ''journal record checksum mismatch''
        else
          let rt = read_le16 b 6
          in if rt < 1 \<or> rt > 12 then fail Errc_corrupt ''journal record type invalid''
          else Inr \<lparr>jr_type = record_type_of rt, jr_sequence = read_le64 b 8,
                    jr_transaction_id = read_le64 b 16, jr_source_block = read_le64 b 24,
                    jr_destination_block = read_le64 b 32, jr_block_count = read_le64 b 40,
                    jr_inode = read_le64 b 48, jr_aux = read_le64 b 56,
                    jr_data_crc32c = read_le32 b 64, jr_state = read_le32 b 68\<rparr>)"

section \<open>Codes\<close>

lemma phase_of_code [simp]: "phase_of (phase_code p) = p" "\<not> phase_code p < 1" "\<not> 11 < phase_code p" "phase_code p \<noteq> 0"
  by (cases p; simp add: phase_of_def phases_def)+

lemma record_type_of_code [simp]:
  "record_type_of (record_type_code t) = t" "\<not> record_type_code t < 1" "\<not> 12 < record_type_code t"
    "record_type_code t \<noteq> 0"
  by (cases t; simp add: record_type_of_def record_types_def)+

definition identity_ok :: "journal_identity \<Rightarrow> bool" where
  "identity_ok i \<longleftrightarrow> length (id_operation_uuid i) = 16 \<and> length (id_filesystem_uuid i) = 16"

lemma length_encode_header [simp]: "identity_ok i \<Longrightarrow> length (encode_header i s p n) = 4096"
  by (simp add: encode_header_def Let_def identity_ok_def header_magic_def)

lemma length_encode_record [simp]: "length (encode_record r) = 128"
  by (simp add: encode_record_def Let_def)

section \<open>Round trips\<close>

lemma decode_encode_header:
  assumes "identity_ok i"
  shows "decode_header (encode_header i s p n) =
    Inr \<lparr>dh_id = i, dh_sequence = s, dh_phase = p, dh_record_count = n\<rparr>"
  using assms
  by (simp add: decode_header_def encode_header_def Let_def identity_ok_def header_magic_def crc_seal_def buf_simps)

lemma decode_encode_record: "decode_record (encode_record r) = Inr r"
  by (simp add: decode_record_def encode_record_def Let_def crc_seal_def buf_simps)

text \<open>A decoded buffer is sealed, so the checksum notices every change of one byte.\<close>

lemma decode_header_sealed: "decode_header b = Inr h \<Longrightarrow> length b = 4096 \<Longrightarrow> castagnoli.sealed_at 4092 b"
  by (simp add: decode_header_def Let_def castagnoli.sealed_at_def crc_seal_def buf_simps)

lemma decode_record_sealed: "decode_record b = Inr r \<Longrightarrow> length b = 128 \<Longrightarrow> castagnoli.sealed_at 124 b"
  by (simp add: decode_record_def Let_def castagnoli.sealed_at_def crc_seal_def buf_simps)

section \<open>Properties\<close>

text \<open>C10. Every header and every record the encoders write decodes to the values it was made from:
  the identity, sequence, phase and record count of a header, and all ten fields of a record.\<close>

theorem journal_format_roundtrip:
  assumes "identity_ok i"
  shows "decode_header (encode_header i s p n) =
      Inr \<lparr>dh_id = i, dh_sequence = s, dh_phase = p, dh_record_count = n\<rparr>
    \<and> decode_record (encode_record r) = Inr r
    \<and> length (encode_header i s p n) = unat header_bytes \<and> length (encode_record r) = unat record_bytes"
  using assms by (simp add: decode_encode_header decode_encode_record header_bytes_def record_bytes_def)

definition sample_identity :: journal_identity where
  "sample_identity = \<lparr>id_operation_uuid = replicate 16 7, id_filesystem_uuid = replicate 16 9,
     id_device_size = 65536, id_target_size = 32768\<rparr>"

lemma sample_identity_ok [simp]: "identity_ok sample_identity"
  by (simp add: identity_ok_def sample_identity_def)

theorem journal_format_roundtrip_witness:
  "identity_ok sample_identity \<and> decode_header (encode_header sample_identity 5 Phase_staged 3) =
      Inr \<lparr>dh_id = sample_identity, dh_sequence = 5, dh_phase = Phase_staged, dh_record_count = 3\<rparr>"
  using journal_format_roundtrip [OF sample_identity_ok] by simp

text \<open>C9. Changing any one byte of a valid 4096-byte header slot or of a valid 128-byte record to any
  other value makes the decoder reject it.\<close>

theorem journal_corruption_rejected:
  assumes "decode_header hb = Inr h" and "length hb = 4096" and "i < 4096" and "u \<noteq> hb ! i"
    and "decode_record rb = Inr r" and "length rb = 128" and "j < 128" and "v \<noteq> rb ! j"
  shows "\<not> result_ok (decode_header (hb[i := u])) \<and> \<not> result_ok (decode_record (rb[j := v]))"
proof
  have "\<not> castagnoli.sealed_at 4092 (hb[i := u])"
    using castagnoli.sealed_update [OF decode_header_sealed [OF assms(1,2)]] assms(2-4) by simp
  then show "\<not> result_ok (decode_header (hb[i := u]))"
    using decode_header_sealed assms(2) by (auto simp: result_ok_def split: sum.splits)
  have "\<not> castagnoli.sealed_at 124 (rb[j := v])"
    using castagnoli.sealed_update [OF decode_record_sealed [OF assms(5,6)]] assms(6-8) by simp
  then show "\<not> result_ok (decode_record (rb[j := v]))"
    using decode_record_sealed assms(6) by (auto simp: result_ok_def split: sum.splits)
qed

definition sample_record :: journal_record where
  "sample_record = \<lparr>jr_type = Rec_relocation_intent, jr_sequence = 1, jr_transaction_id = 2, jr_source_block = 90,
     jr_destination_block = 10, jr_block_count = 4, jr_inode = 12, jr_aux = 0, jr_data_crc32c = 77, jr_state = 0\<rparr>"

theorem journal_corruption_rejected_witness:
  "\<not> result_ok (decode_header ((encode_header sample_identity 1 Phase_prepared 0)
      [80 := encode_header sample_identity 1 Phase_prepared 0 ! 80 + 1]))
   \<and> \<not> result_ok (decode_record ((encode_record sample_record)[24 := encode_record sample_record ! 24 + 1]))"
  by (rule journal_corruption_rejected [OF decode_encode_header [OF sample_identity_ok] _ _ _ decode_encode_record])
    simp_all

end
