(* ===== verification/Fsx_Device.thy ===== *)
theory Fsx_Device
  imports Fsx_Fault
begin

text \<open>
  \<^verbatim>\<open>src/io/device.cpp\<close> and \<^verbatim>\<open>include/fsx/device.hpp\<close>: the block device, with whole-range reads
  and writes over the host's \<^verbatim>\<open>pread\<close>/\<^verbatim>\<open>pwrite\<close>/\<^verbatim>\<open>fsync\<close>.

  The host is explicit state, the record \<open>world\<close>: the files by number with their current bytes
  (what \<^verbatim>\<open>pread\<close> sees) and the bytes that survive a power loss, the names (again the current and the
  surviving ones), the fault hooks, and a
  script of what the coming system calls do (a finite list of short transfers and errors, after
  which every call succeeds in full), and what the coming polls of the cancellation flag find. A \<open>block_device\<close> has the fields of the C++ class. The
  retry loops run as long as the script makes them run, so they always return.
\<close>

section \<open>The host\<close>

datatype sysev = Sys_done | Sys_short nat | Sys_err int

record file_obj =
  f_data :: bytes
  f_durable :: bytes
  f_is_blk :: bool
  f_is_reg :: bool
  f_blkgetsize64 :: "u64 option"
  f_blksszget :: "int option"
  f_blkpbszget :: "int option"
  f_rdev :: "nat \<times> nat"
  f_ident :: "nat \<times> nat"

text \<open>What the kernel tells about block devices: the lines of \<^verbatim>\<open>/proc/self/mountinfo\<close> and
  \<^verbatim>\<open>/proc/swaps\<close>, the canonical sysfs path of a device number as its components (empty when it
  cannot be resolved), the numbers behind block-special paths, \<^verbatim>\<open>realpath\<close>, and the
  \<^verbatim>\<open>holders\<close> and \<^verbatim>\<open>slaves\<close> directories.\<close>

record host_info =
  hi_mountinfo :: "string list option"
  hi_swaps :: "string list option"
  hi_sysfs :: "nat \<times> nat \<Rightarrow> string list"
  hi_blk_rdev :: "string \<Rightarrow> (nat \<times> nat) option"
  hi_realpath :: "string \<Rightarrow> string option"
  hi_holders :: "nat \<times> nat \<Rightarrow> string list option"
  hi_slaves :: "(string list \<times> string list list) list"

record world =
  w_files :: "nat \<Rightarrow> file_obj"
  w_names :: "string \<Rightarrow> nat option"
  w_durable_names :: "string \<Rightarrow> nat option"
  w_next :: nat
  w_script :: "sysev list"
  w_cancel :: "bool list"
  w_faults :: fault_state
  w_strerror :: "int \<Rightarrow> string"
  w_host :: host_info

type_synonym 'a io = "world \<Rightarrow> (failure + 'a) \<times> world"

definition return_io :: "'a \<Rightarrow> 'a io" where
  "return_io x w = (Inr x, w)"

definition throw_io :: "error \<Rightarrow> 'a io" where
  "throw_io e w = (Inl (Failed e), w)"

definition fail_io :: "errc \<Rightarrow> string \<Rightarrow> 'a io" where
  "fail_io c msg = throw_io (mk_error c msg)"

definition lift_io :: "'a result \<Rightarrow> 'a io" where
  "lift_io r w = (case r of Inl e \<Rightarrow> (Inl (Failed e), w) | Inr x \<Rightarrow> (Inr x, w))"

definition bind_io :: "'a io \<Rightarrow> ('a \<Rightarrow> 'b io) \<Rightarrow> 'b io" where
  "bind_io m f w = (case m w of (Inl e, w') \<Rightarrow> (Inl e, w') | (Inr x, w') \<Rightarrow> f x w')"

definition next_event :: "world \<Rightarrow> sysev \<times> world" where
  "next_event w = (case w_script w of [] \<Rightarrow> (Sys_done, w) | e # es \<Rightarrow> (e, w\<lparr>w_script := es\<rparr>))"

text \<open>\<^verbatim>\<open>Cancellation::requested\<close> of \<^verbatim>\<open>src/core/cancel.cpp\<close>: a flag that a signal sets at any moment, so each
  poll finds what the host decides.\<close>

definition cancellation_requested :: "bool io" where
  "cancellation_requested w = (case w_cancel w of [] \<Rightarrow> (Inr False, w) | c # cs \<Rightarrow> (Inr c, w\<lparr>w_cancel := cs\<rparr>))"

definition file_write :: "nat \<Rightarrow> bytes \<Rightarrow> bytes \<Rightarrow> bytes" where
  "file_write pos s d = put_bytes pos s (d @ replicate (pos - length d) 0)"

definition set_data :: "nat \<Rightarrow> bytes \<Rightarrow> world \<Rightarrow> world" where
  "set_data fd d w = w\<lparr>w_files := (w_files w)(fd := (w_files w fd)\<lparr>f_data := d\<rparr>)\<rparr>"

definition sys_pread :: "nat \<Rightarrow> nat \<Rightarrow> nat \<Rightarrow> world \<Rightarrow> (int + bytes) \<times> world" where
  "sys_pread fd want pos w =
     (case next_event w of (ev, w') \<Rightarrow>
      case ev of
        Sys_err e \<Rightarrow> (Inl e, w')
      | Sys_done \<Rightarrow> (Inr (get_bytes pos want (f_data (w_files w' fd))), w')
      | Sys_short k \<Rightarrow> (Inr (get_bytes pos (min k want) (f_data (w_files w' fd))), w'))"

definition sys_pwrite :: "nat \<Rightarrow> bytes \<Rightarrow> nat \<Rightarrow> world \<Rightarrow> (int + nat) \<times> world" where
  "sys_pwrite fd b pos w =
     (case next_event w of (ev, w') \<Rightarrow>
      case ev of
        Sys_err e \<Rightarrow> (Inl e, w')
      | Sys_done \<Rightarrow> (Inr (length b), set_data fd (file_write pos b (f_data (w_files w' fd))) w')
      | Sys_short k \<Rightarrow>
          (Inr (min k (length b)),
           set_data fd (file_write pos (take k b) (f_data (w_files w' fd))) w'))"

definition sys_fsync :: "nat \<Rightarrow> world \<Rightarrow> (int + unit) \<times> world" where
  "sys_fsync fd w =
     (case next_event w of (ev, w') \<Rightarrow>
      case ev of
        Sys_err e \<Rightarrow> (Inl e, w')
      | _ \<Rightarrow> (Inr (), w'\<lparr>w_files := (w_files w')(fd := (w_files w' fd)\<lparr>f_durable := f_data (w_files w' fd)\<rparr>)\<rparr>))"

definition EINTR :: int where "EINTR = 4"
definition EPERM :: int where "EPERM = 1"
definition EACCES :: int where "EACCES = 13"
definition EEXIST :: int where "EEXIST = 17"
definition ENOENT :: int where "ENOENT = 2"

section \<open>Devices\<close>

record device_geometry =
  g_size_bytes :: u64
  g_logical_sector :: u32
  g_physical_sector :: u32
  g_is_block_device :: bool
  g_read_only :: bool

record block_device =
  bd_fd :: nat
  bd_path :: string
  bd_geometry :: device_geometry
  bd_writable :: bool

text \<open>\<^verbatim>\<open>geometry_for\<close>, the Linux branch. The \<^verbatim>\<open>ioctl\<close> results are fields of the file (\<open>None\<close> when
  the call fails); \<^verbatim>\<open>fstat\<close> and \<^verbatim>\<open>lseek\<close> take their turn in the script.\<close>

definition geometry_for :: "nat \<Rightarrow> bool \<Rightarrow> device_geometry io" where
  "geometry_for fd write w =
     (case next_event w of (Sys_err e, w1) \<Rightarrow> throw_io (from_errno Errc_io ''fstat failed'' e) w1
      | (_, w1) \<Rightarrow>
     let f = w_files w1 fd;
         g0 = \<lparr>g_size_bytes = 0, g_logical_sector = 512, g_physical_sector = 512,
               g_is_block_device = f_is_blk f, g_read_only = \<not> write\<rparr>;
         g1 = (if f_is_blk f
               then g0\<lparr>g_size_bytes := (case f_blkgetsize64 f of Some n \<Rightarrow> n | None \<Rightarrow> 0),
                       g_logical_sector := (case f_blksszget f of Some n \<Rightarrow> if 0 < n then word_of_int n else 512 | None \<Rightarrow> 512),
                       g_physical_sector := (case f_blkpbszget f of Some n \<Rightarrow> if 0 < n then word_of_int n else 512 | None \<Rightarrow> 512)\<rparr>
               else g0)
     in if \<not> g_is_block_device g1 \<or> g_size_bytes g1 = 0
        then if f_is_reg f then return_io (g1\<lparr>g_size_bytes := of_nat (length (f_data f))\<rparr>) w1
             else (case next_event w1 of
                     (Sys_err e, w2) \<Rightarrow> return_io g1 w2
                   | (_, w2) \<Rightarrow> return_io (g1\<lparr>g_size_bytes := of_nat (length (f_data f))\<rparr>) w2)
        else return_io g1 w1)"

definition sys_open :: "string \<Rightarrow> world \<Rightarrow> (int + nat) \<times> world" where
  "sys_open path w =
     (case next_event w of
        (Sys_err e, w') \<Rightarrow> (Inl e, w')
      | (_, w') \<Rightarrow> (case w_names w' path of None \<Rightarrow> (Inl ENOENT, w') | Some fd \<Rightarrow> (Inr fd, w')))"

definition open_device_impl :: "string \<Rightarrow> bool \<Rightarrow> block_device io" where
  "open_device_impl path write w =
     (case sys_open path w of
        (Inl e, w') \<Rightarrow>
          throw_io (from_errno (if e = EACCES \<or> e = EPERM then Errc_permission else Errc_open_failed)
            (''cannot open '' @ path @ '': '' @ w_strerror w' e) e) w'
      | (Inr fd, w') \<Rightarrow>
          bind_io (geometry_for fd write) (\<lambda>g. return_io
            \<lparr>bd_fd = fd, bd_path = path, bd_geometry = g, bd_writable = write\<rparr>) w')"

definition open_read :: "string \<Rightarrow> block_device io" where
  "open_read path = open_device_impl path False"

definition open_write :: "string \<Rightarrow> block_device io" where
  "open_write path = open_device_impl path True"

definition off_t_max :: nat where "off_t_max = 2 ^ 63 - 1"
definition ssize_max :: nat where "ssize_max = 2 ^ 63 - 1"

definition fault_hook :: "fault_operation \<Rightarrow> fault_timing \<Rightarrow> unit io" where
  "fault_hook op t w =
     (if fault_enabled (w_faults w)
      then case fault_point op t (w_faults w) of (r, fs) \<Rightarrow> (r, w\<lparr>w_faults := fs\<rparr>)
      else (Inr (), w))"

text \<open>The loop of \<^verbatim>\<open>read_exact\<close>: \<open>done\<close> holds the bytes read so far.\<close>

function read_loop :: "nat \<Rightarrow> nat \<Rightarrow> nat \<Rightarrow> bytes \<Rightarrow> bytes io" where
  "read_loop fd off n done w =
     (if length done < n then
        (case sys_pread fd (min (n - length done) ssize_max) (off + length done) w of
           (Inl e, w') \<Rightarrow>
             if e = EINTR then read_loop fd off n done w'
             else throw_io (from_errno Errc_read_failed
               (''read failed at byte '' @ digits (off + length done) @ '': '' @ w_strerror w' e) e) w'
         | (Inr got, w') \<Rightarrow>
             if got = [] then fail_io Errc_short_io (''unexpected end of device at byte '' @ digits (off + length done)) w'
             else read_loop fd off n (done @ got) w')
      else return_io done w)"
  by pat_completeness auto
termination
proof (relation "measure (\<lambda>(fd, off, n, done, w). length (w_script w) + (n - length done))", goal_cases)
  case 1
  show ?case by simp
next
  case (2 fd off n don w r w' e)
  then show ?case by (auto simp: sys_pread_def next_event_def split: list.splits sysev.splits prod.splits)
next
  case (3 fd off n don w r w' got)
  then have "length (w_script w') \<le> length (w_script w)"
    by (auto simp: sys_pread_def next_event_def split: list.splits sysev.splits prod.splits)
  moreover have "n - (length don + length got) < n - length don"
    using 3 by (cases got) auto
  ultimately show ?case by simp
qed

declare read_loop.simps [simp del]

definition read_exact :: "block_device \<Rightarrow> u64 \<Rightarrow> nat \<Rightarrow> bytes io" where
  "read_exact d off n =
     bind_io (fault_hook Op_read Before) (\<lambda>_.
     if unat (g_size_bytes (bd_geometry d)) < unat off
        \<or> unat (g_size_bytes (bd_geometry d)) - unat off < n
     then fail_io Errc_short_io ''read range exceeds device geometry''
     else if off_t_max < unat off \<or> off_t_max - unat off < n
     then fail_io Errc_unsupported ''read range exceeds host off_t''
     else bind_io (read_loop (bd_fd d) (unat off) n []) (\<lambda>out.
          bind_io (fault_hook Op_read After) (\<lambda>_. return_io out)))"

function write_loop :: "nat \<Rightarrow> nat \<Rightarrow> bytes \<Rightarrow> nat \<Rightarrow> unit io" where
  "write_loop fd off b done w =
     (if done < length b then
        (case sys_pwrite fd (get_bytes done (min (length b - done) ssize_max) b) (off + done) w of
           (Inl e, w') \<Rightarrow>
             if e = EINTR then write_loop fd off b done w'
             else throw_io (from_errno Errc_write_failed
               (''write failed at byte '' @ digits (off + done) @ '': '' @ w_strerror w' e) e) w'
         | (Inr n, w') \<Rightarrow>
             if n = 0 then fail_io Errc_short_io ''short write'' w'
             else write_loop fd off b (done + n) w')
      else return_io () w)"
  by pat_completeness auto
termination
proof (relation "measure (\<lambda>(fd, off, b, done, w). length (w_script w) + (length b - done))", goal_cases)
  case 1
  show ?case by simp
next
  case (2 fd off b don w r w' e)
  then show ?case by (auto simp: sys_pwrite_def next_event_def set_data_def split: list.splits sysev.splits prod.splits)
next
  case (3 fd off b don w r w' n)
  then have "length (w_script w') \<le> length (w_script w)"
    by (auto simp: sys_pwrite_def next_event_def set_data_def split: list.splits sysev.splits prod.splits)
  with 3 show ?case by auto
qed

declare write_loop.simps [simp del]

definition write_exact :: "block_device \<Rightarrow> u64 \<Rightarrow> bytes \<Rightarrow> unit io" where
  "write_exact d off b =
     bind_io (fault_hook Op_write Before) (\<lambda>_.
     if \<not> bd_writable d then fail_io Errc_permission ''device is read-only''
     else if unat (g_size_bytes (bd_geometry d)) < unat off
        \<or> unat (g_size_bytes (bd_geometry d)) - unat off < length b
     then fail_io Errc_short_io ''write range exceeds device geometry''
     else if off_t_max < unat off \<or> off_t_max - unat off < length b
     then fail_io Errc_unsupported ''write range exceeds host off_t''
     else bind_io (write_loop (bd_fd d) (unat off) b 0) (\<lambda>_. fault_hook Op_write After))"

definition flush :: "block_device \<Rightarrow> unit io" where
  "flush d =
     bind_io (fault_hook Op_flush Before) (\<lambda>_ w.
     case sys_fsync (bd_fd d) w of
       (Inl e, w') \<Rightarrow> throw_io (from_errno Errc_flush_failed (''fsync failed: '' @ w_strerror w' e) e) w'
     | (Inr _, w') \<Rightarrow> fault_hook Op_flush After w')"

section \<open>Sequencing\<close>

lemma bind_io_simps [simp]:
  "bind_io (return_io x) f = f x"
  "bind_io (fail_io c m) f = fail_io c m"
  "bind_io (throw_io e) g = throw_io e"
  by (simp_all add: fun_eq_iff bind_io_def return_io_def fail_io_def throw_io_def)

lemma bind_io_Inr: "m w = (Inr x, w') \<Longrightarrow> bind_io m f w = f x w'"
  by (simp add: bind_io_def)

lemma bind_io_Inl: "m w = (Inl e, w') \<Longrightarrow> bind_io m f w = (Inl e, w')"
  by (simp add: bind_io_def)

lemma bind_io_OkE:
  assumes "bind_io m f w = (Inr y, w'')"
  obtains x w' where "m w = (Inr x, w')" "f x w' = (Inr y, w'')"
  using assms by (auto simp: bind_io_def split: prod.splits sum.splits)

lemma bind_io_cases:
  assumes "bind_io m f w = (r, w'')"
  obtains (failed) e where "m w = (Inl e, w'')" "r = Inl e"
    | (step) x w' where "m w = (Inr x, w')" "f x w' = (r, w'')"
  using assms by (auto simp: bind_io_def split: prod.splits sum.splits)

lemma return_throw_simps [simp]:
  "return_io x w = (Inr x, w)" "throw_io e w = (Inl (Failed e), w)"
  "fail_io c m w = (Inl (Failed (mk_error c m)), w)"
  "lift_io (Inr x) w = (Inr x, w)" "lift_io (Inl e) w = (Inl (Failed e), w)"
  by (simp_all add: return_io_def throw_io_def fail_io_def lift_io_def)

lemma lift_io_fail [simp]: "lift_io (fail c m) = fail_io c m"
  by (simp add: fun_eq_iff fail_def)

section \<open>What the calls do to the files\<close>

abbreviation data_of :: "block_device \<Rightarrow> world \<Rightarrow> bytes" where
  "data_of d w \<equiv> f_data (w_files w (bd_fd d))"

text \<open>The geometry recorded when the device was opened fits the file behind it.\<close>

definition on_file :: "block_device \<Rightarrow> world \<Rightarrow> bool" where
  "on_file d w \<longleftrightarrow> unat (g_size_bytes (bd_geometry d)) = length (data_of d w)
     \<and> length (data_of d w) \<le> off_t_max"

lemma next_event_files: "next_event w = (ev, w') \<Longrightarrow> w_files w' = w_files w"
  by (auto simp: next_event_def split: list.splits)

lemma fault_hook_files: "fault_hook op t w = (r, w') \<Longrightarrow> w_files w' = w_files w"
  by (auto simp: fault_hook_def split: if_splits prod.splits)

lemma get_bytes_append:
  "get_bytes off a d @ get_bytes (off + a) k d = get_bytes off (a + k) d"
  by (simp add: get_bytes_def take_add add.commute)

lemma get_bytes_min_length: "get_bytes off (length (get_bytes off k d)) d = get_bytes off k d"
  by (simp add: get_bytes_def min_def)

lemma sys_pread_files: "sys_pread fd k pos w = (r, w') \<Longrightarrow> w_files w' = w_files w"
  by (auto simp: sys_pread_def dest: next_event_files split: prod.splits sysev.splits)

lemma sys_pread_Inr:
  assumes "sys_pread fd k pos w = (Inr got, w')"
  shows "got = get_bytes pos (length got) (f_data (w_files w fd))" and "length got \<le> k"
proof -
  obtain m where "got = get_bytes pos m (f_data (w_files w fd))" and "m \<le> k"
    using assms by (auto simp: sys_pread_def dest!: next_event_files split: prod.splits sysev.splits)
  then show "got = get_bytes pos (length got) (f_data (w_files w fd))" "length got \<le> k"
    by (simp_all add: get_bytes_min_length) (simp add: get_bytes_def)
qed

lemma read_loop_spec:
  assumes "read_loop fd off n acc w = (r, w')"
    and "acc = get_bytes off (length acc) (f_data (w_files w fd))" and "length acc \<le> n"
  shows "w_files w' = w_files w
    \<and> (\<forall>out. r = Inr out \<longrightarrow> out = get_bytes off n (f_data (w_files w fd)) \<and> length out = n)"
  using assms
proof (induction fd off n acc w rule: read_loop.induct)
  case (1 fd off n acc w)
  show ?case
  proof (cases "length acc < n")
    case False
    with "1.prems" have "length acc = n" by simp
    with "1.prems" False show ?thesis by (auto simp: read_loop.simps [of fd off n acc w])
  next
    case True
    obtain q w1 where q: "sys_pread fd (min (n - length acc) ssize_max) (off + length acc) w = (q, w1)" by fastforce
    have fw: "w_files w1 = w_files w" using q by (rule sys_pread_files)
    show ?thesis
    proof (cases q)
      case (Inl e)
      with True q "1.prems" fw show ?thesis
        using "1.IH"(1) [OF True q [symmetric] Inl]
        by (auto simp: read_loop.simps [of fd off n acc w] split: if_splits)
    next
      case (Inr got)
      note got = sys_pread_Inr [OF q [unfolded Inr]]
      have acc': "acc @ got = get_bytes off (length (acc @ got)) (f_data (w_files w1 fd))"
        using arg_cong2 [OF "1.prems"(2) got(1), of append] fw by (simp add: get_bytes_append get_bytes_min_length)
      show ?thesis
      proof (cases "got = []")
        case False
        then have rl: "read_loop fd off n (acc @ got) w1 = (r, w')"
          using "1.prems"(1) True q Inr by (simp add: read_loop.simps [of fd off n acc w])
        have "length (acc @ got) \<le> n" using got(2) True by auto
        from "1.IH"(2) [OF True q [symmetric] Inr False rl acc' this] show ?thesis using fw by simp
      qed (use "1.prems"(1) True q Inr fw in \<open>auto simp: read_loop.simps [of fd off n acc w]\<close>)
    qed
  qed
qed

lemma read_exact_spec:
  assumes "read_exact d off n w = (r, w')"
  shows "w_files w' = w_files w
    \<and> (\<forall>out. r = Inr out \<longrightarrow> out = get_bytes (unat off) n (data_of d w) \<and> length out = n
          \<and> unat off + n \<le> unat (g_size_bytes (bd_geometry d)))"
proof -
  have "\<And>out w1 w2. read_loop (bd_fd d) (unat off) n [] w1 = (out, w2) \<Longrightarrow> w_files w1 = w_files w \<Longrightarrow>
     w_files w2 = w_files w \<and> (\<forall>b. out = Inr b \<longrightarrow> b = get_bytes (unat off) n (data_of d w) \<and> length b = n)"
    using read_loop_spec [where acc = "[]"] by (fastforce simp: get_bytes_def)
  then show ?thesis
    using assms unfolding read_exact_def
    by (fastforce simp: bind_io_def dest: fault_hook_files split: prod.splits sum.splits if_splits)
qed

lemma put_bytes_extend:
  assumes "off + length b \<le> length d" and "a + m \<le> length b"
  shows "put_bytes (off + a) (get_bytes a m b) (put_bytes off (take a b) d) = put_bytes off (take (a + m) b) d"
  by (rule nth_equalityI) (use assms in \<open>auto simp: nth_put_bytes nth_get_bytes\<close>)

lemma file_write_inside: "pos \<le> length d \<Longrightarrow> file_write pos s d = put_bytes pos s d"
  by (simp add: file_write_def)

lemma sys_pwrite_Inl: "sys_pwrite fd b pos w = (Inl e, w') \<Longrightarrow> w_files w' = w_files w"
  by (auto simp: sys_pwrite_def dest: next_event_files split: prod.splits sysev.splits)

lemma sys_pwrite_Inr:
  assumes "sys_pwrite fd b pos w = (Inr n, w')"
  shows "n \<le> length b"
    and "w_files w' = w_files (set_data fd (file_write pos (take n b) (f_data (w_files w fd))) w)"
proof -
  obtain ev w1 where e: "next_event w = (ev, w1)" by fastforce
  have f: "w_files w1 = w_files w" using e by (rule next_event_files)
  have "min k (length b) \<le> length b \<and> take (min k (length b)) b = take k b" for k
    by (simp add: min_def)
  then show "n \<le> length b"
      "w_files w' = w_files (set_data fd (file_write pos (take n b) (f_data (w_files w fd))) w)"
    using assms e f by (cases ev; auto simp: sys_pwrite_def set_data_def)+
qed

text \<open>\<open>wrote d pos s w w'\<close>: the file behind \<open>d\<close> has the bytes \<open>s\<close> at \<open>pos\<close> and nothing else of any
  file changed.\<close>

definition wrote :: "nat \<Rightarrow> nat \<Rightarrow> bytes \<Rightarrow> world \<Rightarrow> world \<Rightarrow> bool" where
  "wrote fd pos s w w' \<longleftrightarrow> w_files w' = w_files (set_data fd (put_bytes pos s (f_data (w_files w fd))) w)"

lemma wrote_nil: "w_files w' = w_files w \<Longrightarrow> wrote fd pos [] w w'"
  by (simp add: wrote_def set_data_def put_bytes_def)

lemma wrote_files: "wrote fd pos s w w1 \<Longrightarrow> w_files w2 = w_files w1 \<Longrightarrow> wrote fd pos s w w2"
  by (simp add: wrote_def)

lemma wrote_data:
  "wrote fd pos s w w' \<Longrightarrow> f_data (w_files w' fd) = put_bytes pos s (f_data (w_files w fd))"
  "wrote fd pos s w w' \<Longrightarrow> f_durable (w_files w' fd') = f_durable (w_files w fd')"
  "wrote fd pos s w w' \<Longrightarrow> fd' \<noteq> fd \<Longrightarrow> w_files w' fd' = w_files w fd'"
  by (simp_all add: wrote_def set_data_def)

lemma write_loop_spec:
  assumes "write_loop fd off b n w = (r, w')"
    and "wrote fd off (take n b) w0 w" and "n \<le> length b"
    and "off + length b \<le> length (f_data (w_files w0 fd))"
  shows "\<exists>k. n \<le> k \<and> k \<le> length b \<and> wrote fd off (take k b) w0 w' \<and> (r = Inr () \<longrightarrow> k = length b)"
  using assms
proof (induction fd off b n w rule: write_loop.induct)
  case (1 fd off b n w)
  show ?case
  proof (cases "n < length b")
    case False
    with "1.prems" show ?thesis by (auto simp: write_loop.simps [of fd off b n w])
  next
    case True
    define s where "s = get_bytes n (min (length b - n) ssize_max) b"
    obtain q w1 where q: "sys_pwrite fd s (off + n) w = (q, w1)" by fastforce
    show ?thesis
    proof (cases q)
      case (Inl e)
      have "w_files w1 = w_files w" using q Inl sys_pwrite_Inl by simp
      then have w1: "wrote fd off (take n b) w0 w1" using "1.prems"(2) by (simp add: wrote_def)
      show ?thesis
      proof (cases "e = EINTR")
        case True': True
        show ?thesis
          using "1.IH"(1) [OF True q [symmetric, unfolded s_def] Inl True' _ w1] "1.prems" q Inl True True'
          by (auto simp: write_loop.simps [of fd off b n w] s_def)
      next
        case False
        then show ?thesis using "1.prems" q Inl True w1
          by (auto simp: write_loop.simps [of fd off b n w] s_def intro!: exI [of _ n])
      qed
    next
      case (Inr m)
      have m: "m \<le> length s" and fw: "w_files w1 = w_files (set_data fd (file_write (off + n) (take m s) (f_data (w_files w fd))) w)"
        using sys_pwrite_Inr q Inr by simp_all
      have ms: "n + m \<le> length b" and ts: "take m s = get_bytes n m b"
        using m True by (auto simp: s_def get_bytes_def min_def split: if_splits)
      have "put_bytes (off + n) (take m s) (f_data (w_files w fd)) = put_bytes off (take (n + m) b) (f_data (w_files w0 fd))"
        using "1.prems"(4) ms put_bytes_extend [of off b _ n m] by (simp add: ts wrote_data(1) [OF "1.prems"(2)])
      moreover have "off + n \<le> length (f_data (w_files w fd))"
        using "1.prems"(3,4) by (simp add: wrote_data(1) [OF "1.prems"(2)])
      ultimately have w1: "wrote fd off (take (n + m) b) w0 w1"
        using "1.prems"(2) fw by (simp add: wrote_def file_write_inside set_data_def)
      show ?thesis
      proof (cases "m = 0")
        case True': True
        then show ?thesis using "1.prems" q Inr True w1
          by (auto simp: write_loop.simps [of fd off b n w] s_def intro!: exI [of _ n])
      next
        case False
        then have "write_loop fd off b (n + m) w1 = (r, w')"
          using "1.prems"(1) True q Inr by (simp add: write_loop.simps [of fd off b n w] s_def)
        from "1.IH"(2) [OF True q [symmetric, unfolded s_def] Inr False this w1 ms "1.prems"(4)]
        obtain k where "n + m \<le> k" "k \<le> length b" "wrote fd off (take k b) w0 w'" "r = Inr () \<longrightarrow> k = length b"
          by blast
        then show ?thesis by (intro exI [of _ k]) simp
      qed
    qed
  qed
qed

lemma write_exact_spec:
  assumes "write_exact d off b w = (r, w')" and "on_file d w"
  shows "\<exists>k\<le>length b. wrote (bd_fd d) (unat off) (take k b) w w' \<and> (r = Inr () \<longrightarrow>
      k = length b \<and> bd_writable d \<and> unat off + length b \<le> length (data_of d w))"
proof -
  have nil: ?thesis if "w_files w' = w_files w" "r \<noteq> Inr ()"
    using wrote_nil [OF that(1)] that(2) by (intro exI [of _ 0]) simp
  show ?thesis
    using assms(1) unfolding write_exact_def
  proof (cases rule: bind_io_cases)
    case (failed e)
    then show ?thesis using nil fault_hook_files [OF failed(1)] by simp
  next
    case (step u w1)
    note f1 = fault_hook_files [OF step(1)]
    show ?thesis
    proof (cases "bd_writable d \<and> unat off + length b \<le> length (data_of d w)")
      case False
      then have "w' = w1 \<and> r \<noteq> Inr ()" using step(2) assms(2)
        by (auto simp: on_file_def split: if_splits)
      then show ?thesis using nil f1 by simp
    next
      case True
      with step(2) assms(2)
      have "bind_io (write_loop (bd_fd d) (unat off) b 0) (\<lambda>_. fault_hook Op_write After) w1 = (r, w')"
        by (auto simp: on_file_def split: if_splits)
      then obtain r1 w2 where wl: "write_loop (bd_fd d) (unat off) b 0 w1 = (r1, w2)"
        and fin: "w_files w' = w_files w2" "r = Inr () \<longrightarrow> r1 = Inr ()"
        by (cases rule: bind_io_cases) (auto dest: fault_hook_files)
      have "wrote (bd_fd d) (unat off) (take 0 b) w w1" using wrote_nil [OF f1] by simp
      from write_loop_spec [OF wl this] True obtain k where
        "k \<le> length b" "wrote (bd_fd d) (unat off) (take k b) w w2" "r1 = Inr () \<longrightarrow> k = length b" by auto
      with fin True show ?thesis by (intro exI [of _ k]) (simp add: wrote_def)
    qed
  qed
qed

lemma flush_spec:
  assumes "flush d w = (r, w')"
  shows "\<exists>D. w_files w' = (w_files w)(bd_fd d := (w_files w (bd_fd d))\<lparr>f_durable := D\<rparr>)
     \<and> (D = f_durable (w_files w (bd_fd d)) \<or> D = data_of d w)
     \<and> (r = Inr () \<longrightarrow> D = data_of d w)"
  using assms unfolding flush_def
proof (cases rule: bind_io_cases)
  case (failed e)
  then show ?thesis
    by (intro exI [of _ "f_durable (w_files w (bd_fd d))"]) (auto dest: fault_hook_files)
next
  case (step u w1)
  obtain ev w2 where ev: "next_event w1 = (ev, w2)" by fastforce
  have f: "w_files w2 = w_files w" using fault_hook_files [OF step(1)] next_event_files [OF ev] by simp
  show ?thesis
  proof (cases ev)
    case (Sys_err e)
    then show ?thesis using step(2) ev f
      by (intro exI [of _ "f_durable (w_files w (bd_fd d))"]) (auto simp: sys_fsync_def)
  next
    case Sys_done
    then show ?thesis using step(2) ev f
      by (intro exI [of _ "data_of d w"]) (auto simp: sys_fsync_def dest!: fault_hook_files)
  next
    case (Sys_short k)
    then show ?thesis using step(2) ev f
      by (intro exI [of _ "data_of d w"]) (auto simp: sys_fsync_def dest!: fault_hook_files)
  qed
qed

section \<open>A quiet host\<close>

text \<open>With nothing left in the script and no fault hook installed, every call inside the geometry
  succeeds, and its effect is a function of the bytes on the device.\<close>

definition calm :: "world \<Rightarrow> bool" where
  "calm w \<longleftrightarrow> w_script w = [] \<and> \<not> fault_enabled (w_faults w)"

definition set_durable :: "nat \<Rightarrow> bytes \<Rightarrow> world \<Rightarrow> world" where
  "set_durable fd b w = w\<lparr>w_files := (w_files w)(fd := (w_files w fd)\<lparr>f_durable := b\<rparr>)\<rparr>"

lemma calm_set [simp]: "calm (set_data fd b w) = calm w" "calm (set_durable fd b w) = calm w"
  by (simp_all add: calm_def set_data_def set_durable_def)

lemma set_data_simps [simp]:
  "f_data (w_files (set_data fd b w) fd) = b"
  "fd' \<noteq> fd \<Longrightarrow> w_files (set_data fd b w) fd' = w_files w fd'"
  "f_durable (w_files (set_data fd b w) fd') = f_durable (w_files w fd')"
  "f_data (w_files (set_durable fd b w) fd') = f_data (w_files w fd')"
  "f_durable (w_files (set_durable fd b w) fd) = b"
  "set_data fd b (set_data fd b' w) = set_data fd b w"
  by (simp_all add: set_data_def set_durable_def)

lemma fault_hook_calm: "calm w \<Longrightarrow> fault_hook op t w = (Inr (), w)"
  by (simp add: calm_def fault_hook_def)

lemma read_loop_calm:
  assumes "calm w" and "off + n \<le> length (f_data (w_files w fd))" and "n \<le> ssize_max"
  shows "read_loop fd off n [] w = (Inr (get_bytes off n (f_data (w_files w fd))), w)"
proof (cases "n = 0")
  case True
  then show ?thesis by (simp add: read_loop.simps get_bytes_def)
next
  case False
  then have "get_bytes off n (f_data (w_files w fd)) \<noteq> []" using assms(2) by (auto simp: get_bytes_def)
  then show ?thesis using False assms
    by (simp add: read_loop.simps [of fd off n "[]"] read_loop.simps [of fd off n "get_bytes off n (f_data (w_files w fd))"]
        sys_pread_def next_event_def calm_def min_absorb1)
qed

lemma write_loop_calm:
  assumes "calm w" and "off + length b \<le> length (f_data (w_files w fd))" and "length b \<le> ssize_max"
  shows "write_loop fd off b 0 w = (Inr (), set_data fd (put_bytes off b (f_data (w_files w fd))) w)"
proof (cases "b = []")
  case True
  then show ?thesis by (simp add: write_loop.simps put_bytes_def set_data_def)
next
  case False
  then show ?thesis using assms
    by (simp add: write_loop.simps [of fd off b 0] write_loop.simps [of fd off b "length b"] file_write_inside
        sys_pwrite_def next_event_def calm_def min_absorb1 get_bytes_def set_data_def)
qed

lemma read_exact_calm:
  assumes "calm w" and "on_file d w" and "unat off + n \<le> length (data_of d w)"
  shows "read_exact d off n w = (Inr (get_bytes (unat off) n (data_of d w)), w)"
proof -
  have "n \<le> ssize_max" using assms(2,3) by (simp add: on_file_def off_t_max_def ssize_max_def)
  then show ?thesis using assms
    by (auto simp: read_exact_def bind_io_def fault_hook_calm read_loop_calm on_file_def)
qed

lemma write_exact_calm:
  assumes "calm w" and "on_file d w" and "bd_writable d" and "unat off + length b \<le> length (data_of d w)"
  shows "write_exact d off b w = (Inr (), set_data (bd_fd d) (put_bytes (unat off) b (data_of d w)) w)"
proof -
  have "length b \<le> ssize_max" using assms(2,4) by (simp add: on_file_def off_t_max_def ssize_max_def)
  then show ?thesis using assms
    by (auto simp: write_exact_def bind_io_def fault_hook_calm write_loop_calm on_file_def)
qed

lemma flush_calm:
  assumes "calm w"
  shows "flush d w = (Inr (), set_durable (bd_fd d) (data_of d w) w)"
  using assms fault_hook_calm [of "set_durable (bd_fd d) (data_of d w) w"]
  by (simp add: flush_def bind_io_def fault_hook_calm sys_fsync_def next_event_def calm_def set_durable_def)

lemma on_file_set [simp]:
  "length b = length (data_of d w) \<Longrightarrow> on_file d (set_data (bd_fd d) b w) = on_file d w"
  "fd \<noteq> bd_fd d \<Longrightarrow> on_file d (set_data fd b w) = on_file d w"
  "on_file d (set_durable fd b w) = on_file d w"
  by (auto simp: on_file_def)

lemmas calm_io = read_exact_calm write_exact_calm flush_calm

section \<open>Whole-range transfer\<close>

text \<open>C4. Whatever short transfers, interruptions, errors or injected faults the host produces,
  \<^verbatim>\<open>read_exact\<close> changes no file and, when it succeeds, returns exactly the requested bytes;
  \<^verbatim>\<open>write_exact\<close> leaves the old contents with some prefix of the buffer at the offset, the whole
  buffer when it succeeds, and touches no other file and no durable byte; a successful
  \<^verbatim>\<open>flush\<close> makes the current contents durable.\<close>

theorem exact_transfers:
  assumes "on_file d w"
    and "read_exact d off n w = (r, w1)" and "write_exact d off2 b w = (r2, w2)" and "flush d w = (r3, w3)"
  shows "w_files w1 = w_files w
      \<and> (\<forall>out. r = Inr out \<longrightarrow> out = get_bytes (unat off) n (data_of d w) \<and> length out = n)
      \<and> (\<exists>k\<le>length b. wrote (bd_fd d) (unat off2) (take k b) w w2
           \<and> (r2 = Inr () \<longrightarrow> k = length b \<and> bd_writable d \<and> unat off2 + length b \<le> length (data_of d w)))
      \<and> (\<forall>fd. f_data (w_files w3 fd) = f_data (w_files w fd))
      \<and> (r3 = Inr () \<longrightarrow> f_durable (w_files w3 (bd_fd d)) = data_of d w)"
  using read_exact_spec [OF assms(2)] write_exact_spec [OF assms(3,1)] flush_spec [OF assms(4)] by auto

definition sample_world :: "bytes \<Rightarrow> sysev list \<Rightarrow> world" where
  "sample_world b script =
     \<lparr>w_files = (\<lambda>_. \<lparr>f_data = b, f_durable = b, f_is_blk = False, f_is_reg = True, f_blkgetsize64 = None,
                      f_blksszget = None, f_blkpbszget = None, f_rdev = (0, 0), f_ident = (0, 0)\<rparr>),
      w_names = (\<lambda>_. None), w_durable_names = (\<lambda>_. None), w_next = 1, w_script = script, w_cancel = [],
      w_faults = \<lparr>fs_rule = \<lparr>fr_operation = Op_write, fr_timing = Before, fr_hit = 1, fr_one_shot = True,
                             fr_action = Return_error\<rparr>, fs_active = False, fs_counts = (\<lambda>_. 0)\<rparr>,
      w_strerror = (\<lambda>_. []),
      w_host = \<lparr>hi_mountinfo = Some [], hi_swaps = None, hi_sysfs = (\<lambda>_. []), hi_blk_rdev = (\<lambda>_. None),
                hi_realpath = (\<lambda>_. None), hi_holders = (\<lambda>_. None), hi_slaves = []\<rparr>\<rparr>"

definition sample_device :: "u64 \<Rightarrow> block_device" where
  "sample_device n = \<lparr>bd_fd = 0, bd_path = ''img'',
     bd_geometry = \<lparr>g_size_bytes = n, g_logical_sector = 512, g_physical_sector = 512,
       g_is_block_device = False, g_read_only = False\<rparr>, bd_writable = True\<rparr>"

lemmas io_eval = read_exact_def write_exact_def flush_def read_loop.simps write_loop.simps bind_io_def
  fault_hook_def fault_enabled_def sys_pread_def sys_pwrite_def sys_fsync_def next_event_def sample_world_def
  sample_device_def off_t_max_def ssize_max_def EINTR_def get_bytes_def put_bytes_def file_write_def
  set_data_def on_file_def

theorem exact_transfers_witness:
  "on_file (sample_device 8) (sample_world [1, 2, 3, 4, 5, 6, 7, 8] [Sys_short 2, Sys_err 4, Sys_short 1])
   \<and> fst (read_exact (sample_device 8) 1 5 (sample_world [1, 2, 3, 4, 5, 6, 7, 8] [Sys_short 2, Sys_err 4, Sys_short 1]))
       = Inr [2, 3, 4, 5, 6]
   \<and> (\<exists>k\<le>4. wrote 0 1 (take k [9, 9, 9, 9])
        (sample_world [1, 2, 3, 4, 5, 6, 7, 8] [Sys_short 2, Sys_err 4, Sys_short 1])
        (snd (write_exact (sample_device 8) 1 [9, 9, 9, 9]
           (sample_world [1, 2, 3, 4, 5, 6, 7, 8] [Sys_short 2, Sys_err 4, Sys_short 1]))))"
proof -
  let ?w = "sample_world [1, 2, 3, 4, 5, 6, 7, 8] [Sys_short 2, Sys_err 4, Sys_short 1]"
  have on: "on_file (sample_device 8) ?w" by (simp add: io_eval)
  have rd: "fst (read_exact (sample_device 8) 1 5 ?w) = Inr [2, 3, 4, 5, 6]" by (simp add: io_eval)
  have fd: "bd_fd (sample_device 8) = 0" by (simp add: sample_device_def)
  have "\<exists>k\<le>length [9, 9, 9, 9 :: u8]. wrote (bd_fd (sample_device 8)) (unat (1 :: u64)) (take k [9, 9, 9, 9]) ?w
      (snd (write_exact (sample_device 8) 1 [9, 9, 9, 9] ?w))"
    using exact_transfers [OF on surjective_pairing surjective_pairing surjective_pairing, where off = 1 and n = 5 and ?off2.0 = 1 and b = "[9, 9, 9, 9]"]
    by blast
  then show ?thesis using on rd fd by (simp add: numeral_eq_Suc)
qed

section \<open>Byte stores\<close>

text \<open>What the journal and the partition tables rely on of the device: reads return what is there,
  a write leaves a prefix of its buffer at its place, a flush makes the contents durable, and the
  extent of the store never changes.\<close>

locale byte_store =
  fixes image durable :: "'w \<Rightarrow> bytes"
    and ready :: "'w \<Rightarrow> bool"
    and rd :: "u64 \<Rightarrow> nat \<Rightarrow> 'w \<Rightarrow> ('e + bytes) \<times> 'w"
    and wr :: "u64 \<Rightarrow> bytes \<Rightarrow> 'w \<Rightarrow> ('e + unit) \<times> 'w"
    and fl :: "'w \<Rightarrow> ('e + unit) \<times> 'w"
  assumes rd_law: "ready w \<Longrightarrow> rd off n w = (ro, w') \<Longrightarrow> ready w' \<and> image w' = image w \<and> durable w' = durable w
        \<and> (\<forall>out. ro = Inr out \<longrightarrow> out = get_bytes (unat off) n (image w) \<and> length out = n)"
    and wr_law: "ready w \<Longrightarrow> wr off b w = (r, w') \<Longrightarrow> unat off + length b \<le> length (image w) \<Longrightarrow> ready w'
        \<and> durable w' = durable w
        \<and> (\<exists>k\<le>length b. image w' = put_bytes (unat off) (take k b) (image w) \<and> (r = Inr () \<longrightarrow> k = length b))"
    and wr_range: "ready w \<Longrightarrow> wr off b w = (Inr (), w') \<Longrightarrow> unat off + length b \<le> length (image w)"
    and fl_law: "ready w \<Longrightarrow> fl w = (r, w') \<Longrightarrow> ready w' \<and> image w' = image w
        \<and> (durable w' = durable w \<or> durable w' = image w) \<and> (r = Inr () \<longrightarrow> durable w' = image w)"
begin

lemma wr_image_length:
  assumes "ready w" and "wr off b w = (r, w')" and "unat off + length b \<le> length (image w)"
  shows "length (image w') = length (image w)"
  using wr_law [OF assms] assms(3) by auto

lemma wr_rd_same:
  assumes "ready w" and "wr off b w = (Inr (), w1)" and "rd off (length b) w1 = (Inr out, w2)"
  shows "out = b"
proof -
  have rng: "unat off + length b \<le> length (image w)" using wr_range [OF assms(1,2)] .
  have "ready w1" "image w1 = put_bytes (unat off) b (image w)"
    using wr_law [OF assms(1,2) rng] by auto
  then show ?thesis using rd_law [OF _ assms(3)] rng by (simp add: get_put_same)
qed

lemma wr_outside:
  assumes "ready w" and "wr off b w = (r, w')" and "unat off + length b \<le> length (image w)"
    and "p + n \<le> length (image w)" and "p + n \<le> unat off \<or> unat off + length b \<le> p"
  shows "get_bytes p n (image w') = get_bytes p n (image w)"
proof -
  obtain k where "k \<le> length b" "image w' = put_bytes (unat off) (take k b) (image w)"
    using wr_law [OF assms(1,2,3)] by auto
  then show ?thesis using assms(3-5) by (auto intro!: get_put_other)
qed

text \<open>Write-ahead: once \<open>x\<close> is written and flushed, every later outcome of a write elsewhere finds
  \<open>x\<close> durable and still in place.\<close>

lemma write_ahead:
  assumes "ready w" and "wr a x w = (Inr (), w1)" and "fl w1 = (Inr (), w2)" and "wr b y w2 = (r, w3)"
    and "unat b + length y \<le> length (image w)"
    and "unat a + length x \<le> unat b \<or> unat b + length y \<le> unat a"
  shows "get_bytes (unat a) (length x) (durable w3) = x \<and> get_bytes (unat a) (length x) (image w3) = x
     \<and> ready w3 \<and> length (image w3) = length (image w)"
proof -
  have rng: "unat a + length x \<le> length (image w)" using wr_range [OF assms(1,2)] .
  have s1: "ready w1" "image w1 = put_bytes (unat a) x (image w)" using wr_law [OF assms(1,2) rng] by auto
  have s2: "ready w2" "image w2 = image w1" "durable w2 = image w1" using fl_law [OF s1(1) assms(3)] by auto
  have len: "length (image w2) = length (image w)" using s1 s2 rng by simp
  have s3: "ready w3" "durable w3 = durable w2" using wr_law [OF s2(1) assms(4)] assms(5) len by auto
  have "get_bytes (unat a) (length x) (image w3) = get_bytes (unat a) (length x) (image w2)"
    using wr_outside [OF s2(1) assms(4)] assms(5,6) len rng by simp
  moreover have "get_bytes (unat a) (length x) (image w1) = x" using s1(2) rng by (simp add: get_put_same)
  ultimately show ?thesis using s2 s3 len wr_image_length [OF s2(1) assms(4)] assms(5) by simp
qed

end

lemma on_file_files: "w_files w' = w_files w \<Longrightarrow> on_file d w' = on_file d w"
  by (simp add: on_file_def)

lemma on_file_wrote:
  assumes "wrote (bd_fd d) pos s w w'" and "pos + length s \<le> length (data_of d w)"
  shows "on_file d w' = on_file d w"
  using wrote_data(1) [OF assms(1)] assms(2) by (simp add: on_file_def)

lemma on_file_flush:
  assumes "flush d w = (r, w')"
  shows "on_file d w' = on_file d w"
proof -
  obtain D where "w_files w' = (w_files w)(bd_fd d := (w_files w (bd_fd d))\<lparr>f_durable := D\<rparr>)"
    using flush_spec [OF assms] by blast
  then show ?thesis by (simp add: on_file_def)
qed

interpretation dev: byte_store "data_of d" "\<lambda>w. f_durable (w_files w (bd_fd d))" "on_file d"
    "read_exact d" "write_exact d" "flush d" for d
proof (unfold_locales, goal_cases)
  case (1 w off n r w')
  then show ?case using read_exact_spec [OF 1(2)] on_file_files [of w' w d] by simp
next
  case (2 w off b r w')
  obtain k where k: "k \<le> length b" "wrote (bd_fd d) (unat off) (take k b) w w'" "r = Inr () \<longrightarrow> k = length b"
    using write_exact_spec [OF 2(2,1)] by blast
  have "on_file d w'" using on_file_wrote [OF k(2)] k(1) 2(1,3) by simp
  moreover have "data_of d w' = put_bytes (unat off) (take k b) (data_of d w)" by (rule wrote_data(1) [OF k(2)])
  moreover have "f_durable (w_files w' (bd_fd d)) = f_durable (w_files w (bd_fd d))" by (rule wrote_data(2) [OF k(2)])
  ultimately show ?case using k(1,3) by blast
next
  case (3 w off b w')
  then show ?case using write_exact_spec [OF 3(2,1)] by blast
next
  case (4 w r w')
  obtain D where D: "w_files w' = (w_files w)(bd_fd d := (w_files w (bd_fd d))\<lparr>f_durable := D\<rparr>)"
     "D = f_durable (w_files w (bd_fd d)) \<or> D = data_of d w" "r = Inr () \<longrightarrow> D = data_of d w"
    using flush_spec [OF 4(2)] by blast
  have "data_of d w' = data_of d w" "f_durable (w_files w' (bd_fd d)) = D" using D(1) by simp_all
  then show ?case using on_file_flush [OF 4(2)] 4(1) D(2,3) by simp
qed

end
