(* ===== verification/Fsx_Files.thy ===== *)
theory Fsx_Files
  imports Fsx_Device
begin

text \<open>
  Creating and publishing files: \<^verbatim>\<open>BlockDevice::create_file\<close> of \<^verbatim>\<open>src/io/device.cpp\<close> and the
  no-replace publication of \<^verbatim>\<open>src/core/file_util.cpp\<close>. A name is current as soon as the call that makes
  it returns; it survives a power loss once its directory has been synced.
\<close>

section \<open>Model\<close>

definition EINVAL :: int where "EINVAL = 22"
definition ENOSYS :: int where "ENOSYS = 38"
definition EOPNOTSUPP :: int where "EOPNOTSUPP = 95"

definition parent_path :: "string \<Rightarrow> string" where
  "parent_path p =
     (let dir = dropWhile (\<lambda>c. c \<noteq> CHR ''/'') (rev p);
          base = dropWhile (\<lambda>c. c = CHR ''/'') dir
      in if base = [] \<and> dir \<noteq> [] then ''/'' else rev base)"

definition sys_unlink :: "string \<Rightarrow> world \<Rightarrow> (int + unit) \<times> world" where
  "sys_unlink path w =
     (case next_event w of
        (Sys_err e, w') \<Rightarrow> (Inl e, w')
      | (_, w') \<Rightarrow> (case w_names w' path of None \<Rightarrow> (Inl ENOENT, w')
                    | Some _ \<Rightarrow> (Inr (), w'\<lparr>w_names := (w_names w')(path := None)\<rparr>)))"

definition sys_link :: "string \<Rightarrow> string \<Rightarrow> world \<Rightarrow> (int + unit) \<times> world" where
  "sys_link old new w =
     (case next_event w of
        (Sys_err e, w') \<Rightarrow> (Inl e, w')
      | (_, w') \<Rightarrow> (case w_names w' old of None \<Rightarrow> (Inl ENOENT, w')
                    | Some fd \<Rightarrow> if w_names w' new \<noteq> None then (Inl EEXIST, w')
                                 else (Inr (), w'\<lparr>w_names := (w_names w')(new := Some fd)\<rparr>)))"

text \<open>\<^verbatim>\<open>renameat2(..., RENAME_NOREPLACE)\<close>.\<close>

definition sys_rename_noreplace :: "string \<Rightarrow> string \<Rightarrow> world \<Rightarrow> (int + unit) \<times> world" where
  "sys_rename_noreplace old new w =
     (case next_event w of
        (Sys_err e, w') \<Rightarrow> (Inl e, w')
      | (_, w') \<Rightarrow> (case w_names w' old of None \<Rightarrow> (Inl ENOENT, w')
                    | Some fd \<Rightarrow> if w_names w' new \<noteq> None then (Inl EEXIST, w')
                                 else (Inr (), w'\<lparr>w_names := (w_names w')(old := None, new := Some fd)\<rparr>)))"

text \<open>Syncing a directory makes the names in it durable as they are.\<close>

definition sync_names :: "string \<Rightarrow> world \<Rightarrow> world" where
  "sync_names dir w = w\<lparr>w_durable_names :=
     (\<lambda>p. if parent_path p = dir then w_names w p else w_durable_names w p)\<rparr>"

definition fsync_parent_directory :: "string \<Rightarrow> string \<Rightarrow> unit io" where
  "fsync_parent_directory path object_name w =
     (case next_event w of
        (Sys_err e, w1) \<Rightarrow> throw_io (from_errno Errc_open_failed
            (''cannot open '' @ object_name @ '' parent directory: '' @ w_strerror w1 e) e) w1
      | (_, w1) \<Rightarrow> (case next_event w1 of
           (Sys_err e, w2) \<Rightarrow> throw_io (from_errno Errc_flush_failed
             (''cannot fsync '' @ object_name @ '' parent directory: '' @ w_strerror w2 e) e) w2
         | (_, w2) \<Rightarrow> return_io () (sync_names (parent_path path) w2)))"

definition no_replace_unavailable :: "int \<Rightarrow> bool" where
  "no_replace_unavailable e \<longleftrightarrow> e = ENOSYS \<or> e = EINVAL \<or> e = EOPNOTSUPP"

definition publish_with_link :: "string \<Rightarrow> string \<Rightarrow> string \<Rightarrow> unit io" where
  "publish_with_link temp_path final_path object_name w =
     (case sys_link temp_path final_path w of
        (Inl e, w1) \<Rightarrow>
          if e = EEXIST then fail_io Errc_unsafe (''refusing to overwrite existing '' @ object_name) w1
          else throw_io (from_errno Errc_write_failed
            (''cannot publish '' @ object_name @ '' without replacement: '' @ w_strerror w1 e) e) w1
      | (Inr _, w1) \<Rightarrow>
          bind_io (fsync_parent_directory final_path object_name) (\<lambda>_ w2.
            case sys_unlink temp_path w2 of
              (Inl e, w3) \<Rightarrow> throw_io (from_errno Errc_write_failed
                (object_name @ '' was published but its temporary link could not be removed: '' @ w_strerror w3 e) e) w3
            | (Inr _, w3) \<Rightarrow> fsync_parent_directory final_path object_name w3) w1)"

definition publish_file_noreplace :: "string \<Rightarrow> string \<Rightarrow> string \<Rightarrow> unit io" where
  "publish_file_noreplace temp_path final_path object_name w =
     (case sys_rename_noreplace temp_path final_path w of
        (Inr _, w1) \<Rightarrow> fsync_parent_directory final_path object_name w1
      | (Inl e, w1) \<Rightarrow>
          if e = EEXIST then fail_io Errc_unsafe (''refusing to overwrite existing '' @ object_name) w1
          else if \<not> no_replace_unavailable e then throw_io (from_errno Errc_write_failed
            (''cannot atomically publish '' @ object_name @ '': '' @ w_strerror w1 e) e) w1
          else publish_with_link temp_path final_path object_name w1)"

definition fresh_file :: file_obj where
  "fresh_file = \<lparr>f_data = [], f_durable = [], f_is_blk = False, f_is_reg = True, f_blkgetsize64 = None,
     f_blksszget = None, f_blkpbszget = None, f_rdev = (0, 0), f_ident = (0, 0)\<rparr>"

text \<open>\<^verbatim>\<open>open(path, O_RDWR | O_CREAT | O_EXCL)\<close>.\<close>

definition sys_create_excl :: "string \<Rightarrow> world \<Rightarrow> (int + nat) \<times> world" where
  "sys_create_excl path w =
     (case next_event w of
        (Sys_err e, w') \<Rightarrow> (Inl e, w')
      | (_, w') \<Rightarrow> if w_names w' path \<noteq> None then (Inl EEXIST, w')
                   else (Inr (w_next w'), w'\<lparr>w_names := (w_names w')(path := Some (w_next w')),
                          w_files := (w_files w')(w_next w' := fresh_file\<lparr>f_ident := (0, w_next w')\<rparr>), w_next := Suc (w_next w')\<rparr>))"

definition sys_ftruncate :: "nat \<Rightarrow> nat \<Rightarrow> world \<Rightarrow> (int + unit) \<times> world" where
  "sys_ftruncate fd n w =
     (case next_event w of
        (Sys_err e, w') \<Rightarrow> (Inl e, w')
      | (_, w') \<Rightarrow> let d = f_data (w_files w' fd)
                   in (Inr (), set_data fd (take n d @ replicate (n - length d) 0) w'))"

definition create_file :: "string \<Rightarrow> u64 \<Rightarrow> block_device io" where
  "create_file path size_bytes w =
     (if off_t_max < unat size_bytes
      then fail_io Errc_unsupported ''requested file size exceeds host off_t'' w
      else case sys_create_excl path w of
        (Inl e, w1) \<Rightarrow> throw_io (from_errno Errc_open_failed (''cannot create '' @ path @ '': '' @ w_strerror w1 e) e) w1
      | (Inr fd, w1) \<Rightarrow>
          (case sys_ftruncate fd (unat size_bytes) w1 of
             (Inl e, w2) \<Rightarrow> throw_io (from_errno Errc_write_failed (''cannot size '' @ path @ '': '' @ w_strerror w2 e) e)
               (snd (sys_unlink path w2))
           | (Inr _, w2) \<Rightarrow>
              (case geometry_for fd True w2 of
                 (Inl err, w3) \<Rightarrow> (Inl err, snd (sys_unlink path w3))
               | (Inr g, w3) \<Rightarrow> return_io \<lparr>bd_fd = fd, bd_path = path, bd_geometry = g, bd_writable = True\<rparr> w3)))"

text \<open>The guard objects that remove a temporary file when a function returns early.\<close>

definition with_cleanup :: "string \<Rightarrow> 'a io \<Rightarrow> 'a io" where
  "with_cleanup temp m w =
     (case m w of
        (Inl (Failed e), w') \<Rightarrow> (Inl (Failed e), snd (sys_unlink temp w'))
      | (r, w') \<Rightarrow> (r, w'))"

section \<open>What the calls do to the names\<close>

lemma next_event_names: "next_event w = (ev, w') \<Longrightarrow>
  w_names w' = w_names w \<and> w_durable_names w' = w_durable_names w \<and> w_files w' = w_files w \<and> w_next w' = w_next w"
  by (auto simp: next_event_def split: list.splits)

text \<open>\<open>names_step f temp final w w'\<close>: the moves publication makes. Only the two names change, \<open>final\<close> at
  most from free to \<open>f\<close>, and \<open>f\<close> keeps a name, also among the durable ones.\<close>

definition names_step :: "nat \<Rightarrow> string \<Rightarrow> string \<Rightarrow> world \<Rightarrow> world \<Rightarrow> bool" where
  "names_step f temp final w w' \<longleftrightarrow> w_files w' = w_files w
     \<and> (\<forall>p. p \<noteq> temp \<longrightarrow> p \<noteq> final \<longrightarrow> w_names w' p = w_names w p)
     \<and> (w_names w' final = w_names w final \<or> w_names w final = None \<and> w_names w' final = Some f)
     \<and> (w_names w' temp = Some f \<or> w_names w' final = Some f)"

lemma fsync_parent_spec:
  assumes "fsync_parent_directory path obj w = (r, w')"
  shows "w_names w' = w_names w \<and> w_files w' = w_files w
    \<and> (w_durable_names w' = w_durable_names w \<or> w_durable_names w' = w_durable_names (sync_names (parent_path path) w))
    \<and> (r = Inr () \<longrightarrow> w_durable_names w' = w_durable_names (sync_names (parent_path path) w))"
  using assms
  by (auto simp: fsync_parent_directory_def sync_names_def dest!: next_event_names split: prod.splits sysev.splits)

lemma publish_with_link_spec:
  assumes pub: "publish_with_link temp final obj w = (r, w')" and t: "w_names w temp = Some f" "temp \<noteq> final"
  shows "names_step f temp final w w' \<and> (w_names w final \<noteq> None \<longrightarrow> r \<noteq> Inr ())
    \<and> (r = Inr () \<longrightarrow> w_names w' final = Some f \<and> w_names w' temp = None \<and> w_durable_names w' final = Some f)"
proof -
  obtain q w1 where q: "sys_link temp final w = (q, w1)" by fastforce
  show ?thesis
  proof (cases q)
    case (Inl e)
    then have same: "w_names w1 = w_names w \<and> w_files w1 = w_files w"
      using q t by (auto simp: sys_link_def dest!: next_event_names split: prod.splits sysev.splits if_splits)
    moreover have "w' = w1" "r \<noteq> Inr ()" using pub q Inl
      by (auto simp: publish_with_link_def split: if_splits)
    ultimately show ?thesis using t by (simp add: names_step_def)
  next
    case (Inr u)
    then have free: "w_names w final = None"
      and w1: "w_names w1 = (w_names w)(final := Some f)" "w_files w1 = w_files w"
      using q t by (auto simp: sys_link_def dest!: next_event_names split: prod.splits sysev.splits if_splits)
    from pub q Inr have "bind_io (fsync_parent_directory final obj) (\<lambda>_ w2.
            case sys_unlink temp w2 of
              (Inl e, w3) \<Rightarrow> throw_io (from_errno Errc_write_failed
                (obj @ '' was published but its temporary link could not be removed: '' @ w_strerror w3 e) e) w3
            | (Inr _, w3) \<Rightarrow> fsync_parent_directory final obj w3) w1 = (r, w')"
      by (simp add: publish_with_link_def)
    then show ?thesis
    proof (cases rule: bind_io_cases)
      case (failed e)
      then show ?thesis using fsync_parent_spec [OF failed(1)] w1 free t by (simp add: names_step_def)
    next
      case (step x w2)
      note s2 = fsync_parent_spec [OF step(1)]
      obtain v w3 where v: "sys_unlink temp w2 = (v, w3)" by fastforce
      show ?thesis
      proof (cases v)
        case (Inl e)
        then have "w_names w3 = w_names w2 \<and> w_files w3 = w_files w2" "w' = w3" "r \<noteq> Inr ()"
          using v step(2) by (auto simp: sys_unlink_def dest!: next_event_names split: prod.splits sysev.splits option.splits)
        then show ?thesis using s2 w1 free t by (simp add: names_step_def)
      next
        case (Inr y)
        then have "w_names w3 = (w_names w2)(temp := None) \<and> w_files w3 = w_files w2"
          using v by (auto simp: sys_unlink_def dest!: next_event_names split: prod.splits sysev.splits option.splits)
        moreover have "fsync_parent_directory final obj w3 = (r, w')" using v step(2) Inr by simp
        ultimately show ?thesis using fsync_parent_spec s2 w1 free t
          by (fastforce simp: names_step_def sync_names_def)
      qed
    qed
  qed
qed

lemma publish_names_step:
  assumes "publish_file_noreplace temp final obj w = (r, w')" and "w_names w temp = Some f" and "temp \<noteq> final"
  shows "names_step f temp final w w' \<and> (w_names w final \<noteq> None \<longrightarrow> r \<noteq> Inr ())
    \<and> (r = Inr () \<longrightarrow> w_names w' final = Some f \<and> w_names w' temp = None \<and> w_durable_names w' final = Some f)"
proof -
  obtain q w1 where q: "sys_rename_noreplace temp final w = (q, w1)" by fastforce
  show ?thesis
  proof (cases q)
    case (Inr u)
    then have w1: "w_names w final = None" "w_names w1 = (w_names w)(temp := None, final := Some f)" "w_files w1 = w_files w"
      using q assms(2) by (auto simp: sys_rename_noreplace_def dest!: next_event_names split: prod.splits sysev.splits if_splits)
    have "fsync_parent_directory final obj w1 = (r, w')"
      using assms(1) q Inr by (simp add: publish_file_noreplace_def)
    from fsync_parent_spec [OF this] w1 assms(3) show ?thesis
      by (auto simp: names_step_def sync_names_def)
  next
    case (Inl e)
    then have w1: "w_names w1 = w_names w" "w_files w1 = w_files w"
      using q assms(2) by (auto simp: sys_rename_noreplace_def dest!: next_event_names split: prod.splits sysev.splits if_splits)
    show ?thesis
    proof (cases "publish_with_link temp final obj w1 = (r, w')")
      case True
      then show ?thesis
        using publish_with_link_spec [OF True, of f] w1 assms(2,3) by (simp add: names_step_def)
    next
      case False
      then have "w' = w1" "r \<noteq> Inr ()"
        using assms(1) q Inl by (auto simp: publish_file_noreplace_def split: if_splits)
      then show ?thesis using w1 assms(2) by (simp add: names_step_def)
    qed
  qed
qed

lemma publish_file_spec:
  assumes "publish_file_noreplace temp final obj w = (r, w')" and "w_names w temp = Some f" and "temp \<noteq> final"
  shows "w_files w' = w_files w" and "w_names w final \<noteq> None \<Longrightarrow> r \<noteq> Inr ()"
    and "r = Inr () \<Longrightarrow> w_names w' final = Some f \<and> w_durable_names w' final = Some f"
  using publish_names_step [OF assms] by (auto simp: names_step_def)

section \<open>Properties\<close>

text \<open>C8. Publishing a finished temporary file never replaces an existing destination: whatever the
  host does, if the final name was taken the call fails and the name keeps its file; no file contents
  and no third name change; the published file never loses its last name; and when the call succeeds
  the final name is the file, survives a power loss, and the temporary name is gone.\<close>

theorem publish_never_replaces:
  assumes "publish_file_noreplace temp final obj w = (r, w')" and "w_names w temp = Some f" and "temp \<noteq> final"
  shows "(\<forall>g. w_names w final = Some g \<longrightarrow> w_names w' final = Some g \<and> r \<noteq> Inr ())
    \<and> w_files w' = w_files w
    \<and> (\<forall>p. p \<noteq> temp \<longrightarrow> p \<noteq> final \<longrightarrow> w_names w' p = w_names w p)
    \<and> (w_names w' temp = Some f \<or> w_names w' final = Some f)
    \<and> (r = Inr () \<longrightarrow> w_names w' final = Some f \<and> w_names w' temp = None \<and> w_durable_names w' final = Some f)"
  using publish_names_step [OF assms] by (auto simp: names_step_def)

definition named_world :: "(string \<Rightarrow> nat option) \<Rightarrow> sysev list \<Rightarrow> world" where
  "named_world names script = (sample_world [] script)\<lparr>w_names := names\<rparr>"

theorem publish_never_replaces_witness:
  "w_names (snd (publish_file_noreplace ''t'' ''j'' ''journal'' (named_world [''t'' \<mapsto> 3] [Sys_err 38]))) ''j'' = Some 3
   \<and> fst (publish_file_noreplace ''t'' ''j'' ''journal'' (named_world [''t'' \<mapsto> 3] [Sys_err 38])) = Inr ()
   \<and> w_names (snd (publish_file_noreplace ''t'' ''j'' ''journal'' (named_world [''t'' \<mapsto> 3, ''j'' \<mapsto> 1] []))) ''j'' = Some 1"
proof -
  have n: "w_names (named_world m s) = m" for m s by (simp add: named_world_def)
  have ok: "fst (publish_file_noreplace ''t'' ''j'' ''journal'' (named_world [''t'' \<mapsto> 3] [Sys_err 38])) = Inr ()"
    by (simp add: publish_file_noreplace_def publish_with_link_def sys_rename_noreplace_def sys_link_def sys_unlink_def
        fsync_parent_directory_def next_event_def named_world_def sample_world_def bind_io_def sync_names_def
        no_replace_unavailable_def ENOSYS_def EEXIST_def)
  show ?thesis
    using ok publish_never_replaces [OF surjective_pairing, of "named_world [''t'' \<mapsto> 3] [Sys_err 38]" "''t''" 3 "''j''" "''journal''"]
      publish_never_replaces [OF surjective_pairing, of "named_world [''t'' \<mapsto> 3, ''j'' \<mapsto> 1] []" "''t''" 3 "''j''" "''journal''"]
    by (simp add: n)
qed

section \<open>Files on a quiet host\<close>

definition new_file_device :: "nat \<Rightarrow> string \<Rightarrow> u64 \<Rightarrow> block_device" where
  "new_file_device fd path n = \<lparr>bd_fd = fd, bd_path = path,
     bd_geometry = \<lparr>g_size_bytes = n, g_logical_sector = 512, g_physical_sector = 512,
       g_is_block_device = False, g_read_only = False\<rparr>, bd_writable = True\<rparr>"

definition new_file_world :: "string \<Rightarrow> bytes \<Rightarrow> world \<Rightarrow> world" where
  "new_file_world path b w = w\<lparr>w_names := (w_names w)(path := Some (w_next w)),
     w_files := (w_files w)(w_next w := fresh_file\<lparr>f_ident := (0, w_next w), f_data := b\<rparr>), w_next := Suc (w_next w)\<rparr>"

lemma next_event_calm: "calm w \<Longrightarrow> next_event w = (Sys_done, w)"
  by (simp add: calm_def next_event_def)

lemma create_file_calm:
  assumes "calm w" "w_names w path = None" "unat n \<le> off_t_max"
  shows "create_file path n w =
    (Inr (new_file_device (w_next w) path n), new_file_world path (replicate (unat n) 0) w)"
proof -
  let ?w1 = "w\<lparr>w_names := (w_names w)(path := Some (w_next w)), w_files := (w_files w)(w_next w := fresh_file\<lparr>f_ident := (0, w_next w)\<rparr>), w_next := Suc (w_next w)\<rparr>"
  have c: "calm ?w1" "calm (new_file_world path b w)" for b using assms(1) by (simp_all add: calm_def new_file_world_def)
  have "sys_create_excl path w = (Inr (w_next w), ?w1)"
    using assms by (simp add: sys_create_excl_def next_event_calm)
  moreover have "sys_ftruncate (w_next w) (unat n) ?w1 = (Inr (), new_file_world path (replicate (unat n) 0) w)"
    using c(1) by (simp add: sys_ftruncate_def next_event_calm set_data_def new_file_world_def fresh_file_def)
  moreover have "geometry_for (w_next w) True (new_file_world path (replicate (unat n) 0) w) =
      (Inr \<lparr>g_size_bytes = n, g_logical_sector = 512, g_physical_sector = 512,
        g_is_block_device = False, g_read_only = False\<rparr>, new_file_world path (replicate (unat n) 0) w)"
    using c(2) by (simp add: geometry_for_def next_event_calm Let_def)
      (simp add: new_file_world_def fresh_file_def)
  ultimately show ?thesis using assms(3) by (simp add: create_file_def new_file_device_def not_less)
qed

lemma publish_calm:
  assumes "calm w" "w_names w temp = Some fd" "w_names w final = None"
  shows "publish_file_noreplace temp final obj w =
    (Inr (), sync_names (parent_path final) (w\<lparr>w_names := (w_names w)(temp := None, final := Some fd)\<rparr>))"
proof -
  let ?w = "w\<lparr>w_names := (w_names w)(temp := None, final := Some fd)\<rparr>"
  have "calm ?w" using assms(1) by (simp add: calm_def)
  then show ?thesis using assms
    by (simp add: publish_file_noreplace_def sys_rename_noreplace_def next_event_calm fsync_parent_directory_def)
qed

lemma open_write_calm:
  assumes "calm w" "w_names w path = Some fd" "w_files w fd = f" "f_is_reg f" "\<not> f_is_blk f"
  shows "open_write path w = (Inr (new_file_device fd path (of_nat (length (f_data f)))), w)"
  using assms by (simp add: open_write_def open_device_impl_def sys_open_def next_event_calm geometry_for_def
      bind_io_def new_file_device_def)

lemma open_read_calm:
  assumes "calm w" "w_names w path = Some fd" "w_files w fd = f" "f_is_reg f" "\<not> f_is_blk f"
  shows "\<exists>bk. open_read path w = (Inr bk, w) \<and> bd_fd bk = fd \<and> g_size_bytes (bd_geometry bk) = of_nat (length (f_data f))"
  using assms by (simp add: open_read_def open_device_impl_def sys_open_def next_event_calm geometry_for_def bind_io_def)

end
