(* ===== verification/Fsx_Journal.thy ===== *)
theory Fsx_Journal
  imports Fsx_Journal_Format Fsx_Files Fsx_Uuid
begin

text \<open>
  The transaction journal, \<^verbatim>\<open>TransactionJournal\<close> of \<^verbatim>\<open>src/transaction/journal.cpp\<close>: a file with two
  header slots of 4096 bytes followed by 128-byte records. Records are appended and flushed before
  the header that counts them goes to the slot of its sequence's parity.

  A method that changes the object returns the new object next to its result. The abstract
  content of a journal image is what \<open>load_image\<close> finds there.
\<close>

section \<open>Model\<close>

record journal_status =
  js_identity :: journal_identity
  js_phase :: operation_phase
  js_header_sequence :: u64
  js_record_count :: u64
  js_committed_transactions :: u64
  js_last_transaction_id :: u64
  js_header_a_valid :: bool
  js_header_b_valid :: bool
  js_records_valid :: bool

record journal =
  j_device :: block_device
  j_status :: journal_status
  j_writable :: bool

definition zero_identity :: journal_identity where
  "zero_identity = \<lparr>id_operation_uuid = replicate 16 0, id_filesystem_uuid = replicate 16 0,
     id_device_size = 0, id_target_size = 0\<rparr>"

definition empty_status :: journal_status where
  "empty_status = \<lparr>js_identity = zero_identity, js_phase = Phase_prepared, js_header_sequence = 0,
     js_record_count = 0, js_committed_transactions = 0, js_last_transaction_id = 0,
     js_header_a_valid = False, js_header_b_valid = False, js_records_valid = False\<rparr>"

definition write_header :: "journal \<Rightarrow> u64 \<Rightarrow> u64 \<Rightarrow> operation_phase \<Rightarrow> u64 \<Rightarrow> unit io" where
  "write_header j slot seq ph n =
     (if \<not> j_writable j then fail_io Errc_permission ''journal is read-only''
      else write_exact (j_device j) (slot * header_bytes) (encode_header (js_identity (j_status j)) seq ph n))"

text \<open>The choice between the two decoded headers.\<close>

definition choose_header :: "decoded_header result \<Rightarrow> decoded_header result \<Rightarrow> decoded_header result" where
  "choose_header da db =
     (case (da, db) of
        (Inl _, Inl _) \<Rightarrow> fail Errc_corrupt ''both journal headers are invalid''
      | (Inr a, Inr b) \<Rightarrow>
          if id_operation_uuid (dh_id a) \<noteq> id_operation_uuid (dh_id b)
             \<or> id_filesystem_uuid (dh_id a) \<noteq> id_filesystem_uuid (dh_id b)
             \<or> id_device_size (dh_id a) \<noteq> id_device_size (dh_id b)
             \<or> id_target_size (dh_id a) \<noteq> id_target_size (dh_id b)
          then fail Errc_corrupt ''journal headers describe different operations''
          else Inr (if dh_sequence b \<le> dh_sequence a then a else b)
      | (Inr a, Inl _) \<Rightarrow> Inr a
      | (Inl _, Inr b) \<Rightarrow> Inr b)"

definition capacity_records :: "block_device \<Rightarrow> u64" where
  "capacity_records d = (let size = g_size_bytes (bd_geometry d)
     in if records_offset < size then (size - records_offset) div record_bytes else 0)"

definition count_record :: "journal_record \<Rightarrow> journal_status \<Rightarrow> journal_status" where
  "count_record r s = s\<lparr>js_last_transaction_id := max (js_last_transaction_id s) (jr_transaction_id r),
     js_committed_transactions := (if jr_type r = Rec_metadata_committed
       then js_committed_transactions s + 1 else js_committed_transactions s)\<rparr>"

text \<open>The loop over the records \<open>i, ..., i + n - 1\<close> of \<^verbatim>\<open>load\<close>.\<close>

primrec load_records :: "nat \<Rightarrow> block_device \<Rightarrow> u64 \<Rightarrow> journal_status \<Rightarrow> journal_status io" where
  "load_records 0 d i s = return_io s"
| "load_records (Suc n) d i s =
     bind_io (read_exact d (records_offset + i * record_bytes) 128) (\<lambda>rec.
     bind_io (lift_io (decode_record rec)) (\<lambda>r.
     if jr_sequence r \<noteq> i + 1 then fail_io Errc_corrupt ''journal record sequence is not contiguous''
     else load_records n d (i + 1) (count_record r s)))"

definition load :: "journal \<Rightarrow> journal io" where
  "load j =
     bind_io (read_exact (j_device j) 0 4096) (\<lambda>a.
     bind_io (read_exact (j_device j) header_bytes 4096) (\<lambda>b.
     let da = decode_header a; db = decode_header b in
     bind_io (lift_io (choose_header da db)) (\<lambda>h.
     let s = (j_status j)\<lparr>js_header_a_valid := result_ok da, js_header_b_valid := result_ok db,
               js_identity := dh_id h, js_phase := dh_phase h, js_header_sequence := dh_sequence h,
               js_record_count := dh_record_count h\<rparr>
     in if capacity_records (j_device j) < js_record_count s
        then fail_io Errc_corrupt ''journal record count exceeds journal capacity''
        else bind_io (load_records (unat (js_record_count s)) (j_device j) 0 (s\<lparr>js_records_valid := True\<rparr>)) (\<lambda>s'.
             return_io (j\<lparr>j_status := s'\<rparr>)))))"

definition journal_open :: "string \<Rightarrow> bool \<Rightarrow> journal io" where
  "journal_open path writable =
     bind_io (if writable then open_write path else open_read path) (\<lambda>d.
     load \<lparr>j_device = d, j_status = empty_status, j_writable = writable\<rparr>)"

primrec write_records :: "block_device \<Rightarrow> u64 \<Rightarrow> journal_record list \<Rightarrow> unit io" where
  "write_records d i [] = return_io ()"
| "write_records d i (r # rs) =
     bind_io (write_exact d (records_offset + i * record_bytes) (encode_record (r\<lparr>jr_sequence := i + 1\<rparr>))) (\<lambda>_.
     write_records d (i + 1) rs)"

text \<open>The writes of one batch, up to the second flush.\<close>

definition append_writes :: "journal \<Rightarrow> journal_record list \<Rightarrow> unit io" where
  "append_writes j rs =
     bind_io (write_records (j_device j) (js_record_count (j_status j)) rs) (\<lambda>_.
     bind_io (flush (j_device j)) (\<lambda>_.
     let seq = js_header_sequence (j_status j) + 1 in
     bind_io (write_header j (seq AND 1) seq (js_phase (j_status j)) (js_record_count (j_status j) + of_nat (length rs))) (\<lambda>_.
     flush (j_device j))))"

definition append_batch :: "journal_record list \<Rightarrow> journal \<Rightarrow> world \<Rightarrow> (failure + unit) \<times> journal \<times> world" where
  "append_batch rs j w =
     (if \<not> j_writable j then (Inl (Failed (mk_error Errc_permission ''journal is read-only'')), j, w)
      else if rs = [] then (Inr (), j, w)
      else
        let s = j_status j; capacity = capacity_records (j_device j); add = of_nat (length rs)
        in if capacity < js_record_count s \<or> capacity - js_record_count s < add
           then (Inl (Failed (mk_error Errc_io ''journal is full'')), j, w)
           else case append_writes j rs w of
               (Inl e, w') \<Rightarrow> (Inl e, j, w')
             | (Inr _, w') \<Rightarrow>
                 (Inr (), j\<lparr>j_status := fold count_record rs
                    (s\<lparr>js_header_sequence := js_header_sequence s + 1, js_record_count := js_record_count s + add\<rparr>)\<rparr>, w'))"

definition journal_append :: "journal_record \<Rightarrow> journal \<Rightarrow> world \<Rightarrow> (failure + unit) \<times> journal \<times> world" where
  "journal_append r = append_batch [r]"

definition checkpoint_record :: "operation_phase \<Rightarrow> journal_status \<Rightarrow> journal_record" where
  "checkpoint_record ph s = \<lparr>jr_type = Rec_checkpoint, jr_sequence = 0, jr_transaction_id = js_last_transaction_id s,
     jr_source_block = 0, jr_destination_block = 0, jr_block_count = 0, jr_inode = 0,
     jr_aux = ucast (phase_code ph), jr_data_crc32c = 0, jr_state = 0\<rparr>"

definition checkpoint :: "operation_phase \<Rightarrow> journal \<Rightarrow> world \<Rightarrow> (failure + unit) \<times> journal \<times> world" where
  "checkpoint ph j w =
     (if \<not> j_writable j then (Inl (Failed (mk_error Errc_permission ''journal is read-only'')), j, w)
      else
        case journal_append (checkpoint_record ph (j_status j)) j w of
             (Inl e, j1, w1) \<Rightarrow> (Inl e, j1, w1)
           | (Inr _, j1, w1) \<Rightarrow>
               let seq = js_header_sequence (j_status j1) + 1
               in case bind_io (write_header j1 (seq AND 1) seq ph (js_record_count (j_status j1)))
                       (\<lambda>_. flush (j_device j1)) w1 of
                    (Inl e, w2) \<Rightarrow> (Inl e, j1, w2)
                  | (Inr _, w2) \<Rightarrow> (Inr (), j1\<lparr>j_status := (j_status j1)\<lparr>js_header_sequence := seq, js_phase := ph\<rparr>\<rparr>, w2))"

definition journal_flush :: "journal \<Rightarrow> unit io" where
  "journal_flush j = flush (j_device j)"

primrec read_records :: "nat \<Rightarrow> block_device \<Rightarrow> u64 \<Rightarrow> journal_record list io" where
  "read_records 0 d i = return_io []"
| "read_records (Suc n) d i =
     bind_io (read_exact d (records_offset + i * record_bytes) 128) (\<lambda>rec.
     bind_io (lift_io (decode_record rec)) (\<lambda>r.
     bind_io (read_records n d (i + 1)) (\<lambda>rs. return_io (r # rs))))"

definition size_max :: nat where "size_max = 2 ^ 64 - 1"

definition records :: "journal \<Rightarrow> journal_record list io" where
  "records j =
     (if size_max < unat (js_record_count (j_status j))
      then fail_io Errc_unsupported ''journal record count exceeds host address space''
      else read_records (unat (js_record_count (j_status j))) (j_device j) 0)"

text \<open>\<^verbatim>\<open>create\<close>: the process id and the random bytes of the temporary name come from the host. The
  temporary file is removed on every error path before publication.\<close>

definition journal_temp_name :: "string \<Rightarrow> nat \<Rightarrow> bytes \<Rightarrow> string" where
  "journal_temp_name path pid uuid = path @ ''.part.'' @ digits pid @ ''.'' @ to_string (read_le64 uuid 0)"

definition path_exists :: "string \<Rightarrow> world \<Rightarrow> (int + bool) \<times> world" where
  "path_exists path w =
     (case next_event w of
        (Sys_err e, w') \<Rightarrow> (Inl e, w')
      | (_, w') \<Rightarrow> (Inr (w_names w' path \<noteq> None), w'))"

definition create :: "nat \<Rightarrow> bytes \<Rightarrow> string \<Rightarrow> journal_identity \<Rightarrow> u64 \<Rightarrow> journal io" where
  "create pid temp_uuid path ident cap w =
     (if cap < records_offset + record_bytes * 16
      then fail_io Errc_invalid_argument ''journal capacity is too small'' w
      else case path_exists path w of
        (Inl e, w1) \<Rightarrow> fail_io Errc_open_failed (''cannot inspect transaction journal path: '' @ w_strerror w1 e) w1
      | (Inr True, w1) \<Rightarrow> fail_io Errc_unsafe ''refusing to overwrite existing transaction journal'' w1
      | (Inr False, w1) \<Rightarrow>
         let temp = journal_temp_name path pid temp_uuid in
         bind_io (with_cleanup temp
           (bind_io (create_file temp cap) (\<lambda>d.
            let j = \<lparr>j_device = d,
                     j_status = empty_status\<lparr>js_identity := ident, js_phase := Phase_prepared,
                                  js_header_sequence := 1, js_records_valid := True\<rparr>,
                     j_writable = True\<rparr> in
            bind_io (write_header j 0 1 Phase_prepared 0) (\<lambda>_.
            bind_io (write_header j 1 0 Phase_prepared 0) (\<lambda>_.
            bind_io (flush d) (\<lambda>_.
            bind_io (publish_file_noreplace temp path ''transaction journal'') (\<lambda>_.
            return_io j))))))) (\<lambda>j.
         bind_io (open_write path) (\<lambda>d.
         return_io (j\<lparr>j_device := d,
           j_status := (j_status j)\<lparr>js_header_a_valid := True, js_header_b_valid := True\<rparr>\<rparr>))) w1)"

section \<open>Journal images\<close>

definition slot_of :: "bytes \<Rightarrow> u64 \<Rightarrow> bytes" where
  "slot_of D s = get_bytes (unat s * 4096) 4096 D"

definition rec_at :: "bytes \<Rightarrow> nat \<Rightarrow> bytes" where
  "rec_at D i = get_bytes (8192 + i * 128) 128 D"

primrec image_records :: "bytes \<Rightarrow> nat \<Rightarrow> nat \<Rightarrow> journal_record list result" where
  "image_records D i 0 = Inr []"
| "image_records D i (Suc n) =
     bind_result (decode_record (rec_at D i)) (\<lambda>r.
     if jr_sequence r \<noteq> of_nat i + 1 then fail Errc_corrupt ''journal record sequence is not contiguous''
     else bind_result (image_records D (Suc i) n) (\<lambda>rs. Inr (r # rs)))"

definition load_image :: "bytes \<Rightarrow> (decoded_header \<times> journal_record list) result" where
  "load_image D =
     bind_result (choose_header (decode_header (slot_of D 0)) (decode_header (slot_of D 1))) (\<lambda>h.
     if (length D - 8192) div 128 < unat (dh_record_count h)
     then fail Errc_corrupt ''journal record count exceeds journal capacity''
     else bind_result (image_records D 0 (unat (dh_record_count h))) (\<lambda>rs. Inr (h, rs)))"

primrec number_from :: "u64 \<Rightarrow> journal_record list \<Rightarrow> journal_record list" where
  "number_from i [] = []"
| "number_from i (r # rs) = r\<lparr>jr_sequence := i + 1\<rparr> # number_from (i + 1) rs"

lemma length_number_from [simp]: "length (number_from i rs) = length rs"
  by (induction rs arbitrary: i) simp_all

lemma image_records_cong:
  "(\<And>k. k < n \<Longrightarrow> rec_at D (i + k) = rec_at E (i + k)) \<Longrightarrow> image_records D i n = image_records E i n"
proof (induction n arbitrary: i)
  case (Suc n)
  have "image_records D (Suc i) n = image_records E (Suc i) n"
    using Suc.prems [of "Suc _"] by (intro Suc.IH) simp
  then show ?case using Suc.prems [of 0] by (simp cong: if_cong)
qed simp

lemma image_records_Suc:
  "image_records D i (Suc n) = Inr rs \<longleftrightarrow> (\<exists>r rs'. rs = r # rs' \<and> decode_record (rec_at D i) = Inr r
     \<and> jr_sequence r = of_nat i + 1 \<and> image_records D (Suc i) n = Inr rs')"
  by auto

lemma image_records_add:
  "image_records D i (a + b) = Inr rs \<longleftrightarrow> (\<exists>xs ys. rs = xs @ ys \<and> image_records D i a = Inr xs \<and> image_records D (i + a) b = Inr ys)"
proof (induction a arbitrary: i rs)
  case 0
  show ?case by simp
next
  case (Suc a)
  have "image_records D i (Suc (a + b)) = Inr rs \<longleftrightarrow>
    (\<exists>r xs ys. rs = r # xs @ ys \<and> decode_record (rec_at D i) = Inr r \<and> jr_sequence r = of_nat i + 1
      \<and> image_records D (Suc i) a = Inr xs \<and> image_records D (Suc i + a) b = Inr ys)"
    unfolding image_records_Suc Suc.IH by blast
  also have "\<dots> \<longleftrightarrow> (\<exists>xs ys. rs = xs @ ys \<and> image_records D i (Suc a) = Inr xs \<and> image_records D (i + Suc a) b = Inr ys)"
    unfolding image_records_Suc by force
  finally show ?case by simp
qed

lemma image_records_length: "image_records D i n = Inr rs \<Longrightarrow> length rs = n"
  by (induction n arbitrary: i rs) auto

section \<open>Addresses\<close>

lemma records_offset_unat: "unat records_offset = 8192" "unat header_bytes = 4096" "unat record_bytes = 128"
  by (simp_all add: records_offset_def header_bytes_def record_bytes_def)

lemma record_address:
  assumes "8192 + unat i * 128 < 2 ^ 64"
  shows "unat (records_offset + i * record_bytes) = 8192 + unat i * 128"
  using assms by (simp add: unat_add_le unat_mult_le records_offset_unat)

lemma unat_Suc: "unat i + 1 < 2 ^ 64 \<Longrightarrow> unat (i + 1 :: u64) = Suc (unat i)"
  by (simp add: unat_add_le)

lemma unat_less_max: "(x :: u64) \<noteq> - 1 \<Longrightarrow> unat x + 1 < 2 ^ 64"
proof (rule ccontr)
  assume "x \<noteq> - 1" and "\<not> unat x + 1 < 2 ^ 64"
  then have "unat x = unat (- 1 :: u64)" using unat_lt_64 [of x] by (simp add: unsigned_minus_1_eq_mask mask_eq_exp_minus_1)
  with \<open>x \<noteq> - 1\<close> show False using unsigned_word_eqI by blast
qed

lemma slot_cases: "x AND 1 = 0 \<or> x AND 1 = (1 :: u64)"
  by (simp add: and_one_eq mod2_eq_if)

lemma slot_flip: "(x + 1 :: u64) AND 1 = 1 - (x AND 1)"
  by (simp add: and_one_eq mod2_eq_if even_plus_one_iff)

lemma slot_flip_neq: "(x + 1 :: u64) AND 1 \<noteq> x AND 1"
  using slot_cases [of x] by (auto simp: slot_flip)

section \<open>Appending\<close>

lemma write_records_spec:
  assumes "on_file d w" and "write_records d i rs w = (r, w')"
    and "8192 + (unat i + length rs) * 128 \<le> length (data_of d w)"
  shows "on_file d w' \<and> length (data_of d w') = length (data_of d w)
    \<and> (\<forall>p n. p + n \<le> 8192 + unat i * 128 \<longrightarrow> get_bytes p n (data_of d w') = get_bytes p n (data_of d w))
    \<and> (r = Inr () \<longrightarrow> image_records (data_of d w') (unat i) (length rs) = Inr (number_from i rs))"
  using assms
proof (induction rs arbitrary: i w)
  case Nil
  then show ?case by simp
next
  case (Cons x rs)
  let ?enc = "encode_record (x\<lparr>jr_sequence := i + 1\<rparr>)" and ?off = "records_offset + i * record_bytes"
  have big: "length (data_of d w) < 2 ^ 63" using Cons.prems(1) by (simp add: on_file_def off_t_max_def)
  have addr: "unat ?off = 8192 + unat i * 128" using Cons.prems(3) big by (intro record_address) simp
  have suc: "unat (i + 1) = Suc (unat i)" using Cons.prems(3) big by (intro unat_Suc) simp
  obtain q w1 where q: "write_exact d ?off ?enc w = (q, w1)" by fastforce
  have rng: "unat ?off + length ?enc \<le> length (data_of d w)" using Cons.prems(3) by (simp add: addr)
  note law = dev.wr_law [OF Cons.prems(1) q rng]
  have len1: "length (data_of d w1) = length (data_of d w)"
    by (rule dev.wr_image_length [OF Cons.prems(1) q rng])
  have pre1: "get_bytes p n (data_of d w1) = get_bytes p n (data_of d w)" if "p + n \<le> 8192 + unat i * 128" for p n
    using dev.wr_outside [OF Cons.prems(1) q rng, of p n] that rng by (simp add: addr)
  show ?case
  proof (cases q)
    case (Inl e)
    then have "r = Inl e" "w' = w1" using Cons.prems(2) q by (simp_all add: bind_io_def)
    then show ?thesis using law len1 pre1 by simp
  next
    case (Inr u)
    then have rest: "write_records d (i + 1) rs w1 = (r, w')" using Cons.prems(2) q by (simp add: bind_io_def)
    have ih: "on_file d w' \<and> length (data_of d w') = length (data_of d w1)
      \<and> (\<forall>p n. p + n \<le> 8192 + unat (i + 1) * 128 \<longrightarrow> get_bytes p n (data_of d w') = get_bytes p n (data_of d w1))
      \<and> (r = Inr () \<longrightarrow> image_records (data_of d w') (unat (i + 1)) (length rs) = Inr (number_from (i + 1) rs))"
      using law Cons.prems(3) by (intro Cons.IH rest) (simp_all add: len1 suc)
    have "data_of d w1 = put_bytes (unat ?off) ?enc (data_of d w)" using law Inr by auto
    then have "rec_at (data_of d w1) (unat i) = ?enc" using rng by (simp add: rec_at_def addr get_put_same)
    moreover have "rec_at (data_of d w') (unat i) = rec_at (data_of d w1) (unat i)"
      using ih by (simp add: rec_at_def suc)
    ultimately have "decode_record (rec_at (data_of d w') (unat i)) = Inr (x\<lparr>jr_sequence := i + 1\<rparr>)"
      by (simp add: decode_encode_record)
    then have "r = Inr () \<longrightarrow> image_records (data_of d w') (unat i) (length (x # rs)) = Inr (number_from i (x # rs))"
      using ih by (simp add: suc)
    moreover have "get_bytes p n (data_of d w') = get_bytes p n (data_of d w)" if "p + n \<le> 8192 + unat i * 128" for p n
      using ih pre1 that by (simp add: suc)
    ultimately show ?thesis using ih len1 by simp
  qed
qed

text \<open>The well-formed journal: the records it counts are on disk, the slot the next header will not
  touch holds a header with the current content, and the slot it will overwrite holds nothing valid,
  an older header, or one with the same content.\<close>

definition same_content :: "decoded_header \<Rightarrow> journal_status \<Rightarrow> bool" where
  "same_content h s \<longleftrightarrow> dh_id h = js_identity s \<and> dh_phase h = js_phase s \<and> dh_record_count h = js_record_count s"

definition journal_inv :: "journal_status \<Rightarrow> journal_record list \<Rightarrow> bytes \<Rightarrow> bool" where
  "journal_inv s rs D \<longleftrightarrow> identity_ok (js_identity s) \<and> unat (js_record_count s) = length rs
     \<and> 8192 + length rs * 128 \<le> length D
     \<and> image_records D 0 (length rs) = Inr rs
     \<and> (\<exists>g. decode_header (slot_of D (js_header_sequence s AND 1)) = Inr g \<and> same_content g s
           \<and> dh_sequence g \<le> js_header_sequence s
           \<and> (\<forall>g'. decode_header (slot_of D ((js_header_sequence s + 1) AND 1)) = Inr g' \<longrightarrow>
                dh_id g' = js_identity s \<and> dh_sequence g' \<le> js_header_sequence s
                \<and> (dh_sequence g \<le> dh_sequence g' \<longrightarrow> same_content g' s)))"

lemma choose_header_valid:
  "choose_header (Inr a) (Inl e) = Inr a"
  "choose_header (Inl e) (Inr a) = Inr a"
  "dh_id a = dh_id b \<Longrightarrow> choose_header (Inr a) (Inr b) = Inr (if dh_sequence b \<le> dh_sequence a then a else b)"
  by (simp_all add: choose_header_def)

lemma choose_header_pick:
  assumes g: "same_content g s" and r: "\<And>b. r = Inr b \<Longrightarrow> dh_id b = dh_id g"
    "\<And>b. r = Inr b \<Longrightarrow> dh_sequence g \<le> dh_sequence b \<longrightarrow> same_content b s"
  shows "\<exists>h. choose_header (Inr g) r = Inr h \<and> same_content h s"
    and "\<exists>h. choose_header r (Inr g) = Inr h \<and> same_content h s"
proof (atomize (full), cases r)
  case (Inr b)
  then show "(\<exists>h. choose_header (Inr g) r = Inr h \<and> same_content h s) \<and> (\<exists>h. choose_header r (Inr g) = Inr h \<and> same_content h s)"
    using r(1) [OF Inr] r(2) [OF Inr] g by (simp add: choose_header_valid)
qed (simp add: choose_header_valid g)

lemma journal_inv_load:
  assumes "journal_inv s rs D"
  shows "\<exists>h. load_image D = Inr (h, rs) \<and> same_content h s"
proof -
  obtain g where g: "decode_header (slot_of D (js_header_sequence s AND 1)) = Inr g" "same_content g s"
    and g': "\<And>g'. decode_header (slot_of D ((js_header_sequence s + 1) AND 1)) = Inr g' \<Longrightarrow>
                dh_id g' = js_identity s \<and> (dh_sequence g \<le> dh_sequence g' \<longrightarrow> same_content g' s)"
    using assms unfolding journal_inv_def by blast
  note pick = choose_header_pick [OF g(2), of "decode_header (slot_of D ((js_header_sequence s + 1) AND 1))"]
  have ids: "dh_id b = dh_id g" if "decode_header (slot_of D ((js_header_sequence s + 1) AND 1)) = Inr b" for b
    using g' [OF that] g(2) unfolding same_content_def by metis
  have "\<exists>h. choose_header (decode_header (slot_of D 0)) (decode_header (slot_of D 1)) = Inr h \<and> same_content h s"
  proof (cases "js_header_sequence s AND 1 = 0")
    case True
    then have "(js_header_sequence s + 1) AND 1 = 1" using slot_flip [of "js_header_sequence s"] by simp
    with pick(1) [OF ids] g' True g(1) show ?thesis by simp
  next
    case False
    then have "js_header_sequence s AND 1 = 1" "(js_header_sequence s + 1) AND 1 = 0"
      using slot_cases [of "js_header_sequence s"] slot_flip [of "js_header_sequence s"] by simp_all
    with pick(2) [OF ids] g' g(1) show ?thesis by simp
  qed
  moreover have "\<not> (length D - 8192) div 128 < length rs" using assms by (auto simp: journal_inv_def)
  moreover have "unat (js_record_count s) = length rs" "image_records D 0 (length rs) = Inr rs"
    using assms by (simp_all add: journal_inv_def)
  ultimately show ?thesis by (auto simp: load_image_def same_content_def)
qed

text \<open>Changes outside the counted records and the safe slot that leave the other slot as it was or
  invalid keep the journal.\<close>

lemma slot_of_cases: "slot_of D (x AND 1) = slot_of D 0 \<or> slot_of D (x AND 1) = slot_of D 1"
  using slot_cases [of x] by auto

lemma journal_inv_keep:
  assumes "journal_inv s rs D" and "length D' = length D"
    and "\<And>k. k < length rs \<Longrightarrow> rec_at D' k = rec_at D k"
    and "slot_of D' (js_header_sequence s AND 1) = slot_of D (js_header_sequence s AND 1)"
    and "\<not> result_ok (decode_header (slot_of D' ((js_header_sequence s + 1) AND 1)))
       \<or> slot_of D' ((js_header_sequence s + 1) AND 1) = slot_of D ((js_header_sequence s + 1) AND 1)"
  shows "journal_inv s rs D'"
proof -
  have "image_records D' 0 (length rs) = image_records D 0 (length rs)"
    using assms(3) by (intro image_records_cong) simp
  then show ?thesis using assms by (auto simp: journal_inv_def)
qed

text \<open>A complete new header with the next sequence makes its content current.\<close>

lemma journal_inv_header:
  assumes "journal_inv s rs D" and "length D' = length D"
    and seq: "js_header_sequence s \<noteq> - 1"
    and "slot_of D' (js_header_sequence s AND 1) = slot_of D (js_header_sequence s AND 1)"
    and "slot_of D' ((js_header_sequence s + 1) AND 1) = encode_header (js_identity s) (js_header_sequence s + 1) ph n"
    and "image_records D' 0 (length rs') = Inr rs'" and "unat n = length rs'" and "8192 + length rs' * 128 \<le> length D"
    and "js_identity s' = js_identity s" "js_phase s' = ph" "js_record_count s' = n"
        "js_header_sequence s' = js_header_sequence s + 1"
  shows "journal_inv s' rs' D'"
proof -
  let ?q = "js_header_sequence s"
  have s': "unat (?q + 1) = Suc (unat ?q)" using unat_less_max [OF seq] by (intro unat_Suc) simp
  have par: "(?q + 1 + 1) AND 1 = ?q AND 1" using slot_flip [of ?q] slot_flip [of "?q + 1"] by simp
  obtain g where g: "decode_header (slot_of D (?q AND 1)) = Inr g" "same_content g s" "dh_sequence g \<le> ?q"
    using assms(1) by (auto simp: journal_inv_def)
  have id: "identity_ok (js_identity s)" using assms(1) by (simp add: journal_inv_def)
  have "\<not> ?q + 1 \<le> dh_sequence g" "dh_sequence g \<le> ?q + 1"
    using g(3) s' by (auto simp: word_le_nat_alt)
  moreover have "slot_of D' (js_header_sequence s' AND 1) = encode_header (js_identity s) (?q + 1) ph n"
    "slot_of D' ((js_header_sequence s' + 1) AND 1) = slot_of D (?q AND 1)"
    unfolding assms(12) par by (rule assms(5), rule assms(4))
  ultimately show ?thesis
    using assms(2,6-12) id g by (simp add: journal_inv_def decode_encode_header same_content_def del: not_le)
qed

lemma count_record_fields [simp]:
  "js_identity (fold count_record rs s) = js_identity s" "js_phase (fold count_record rs s) = js_phase s"
  "js_record_count (fold count_record rs s) = js_record_count s"
  "js_header_sequence (fold count_record rs s) = js_header_sequence s"
  by (induction rs arbitrary: s) (simp_all add: count_record_def)

lemma slot_address: "x = 0 \<or> x = 1 \<Longrightarrow> unat (x * header_bytes :: u64) = unat x * 4096"
  by (auto simp: header_bytes_def)

lemma get_put_inside:
  assumes "length s \<le> n" and "off + n \<le> length b"
  shows "get_bytes off n (put_bytes off s b) = put_bytes 0 s (get_bytes off n b)"
  using assms by (intro nth_equalityI) (auto simp: nth_get_bytes nth_put_bytes)

lemma slot_of_put:
  assumes "x = 0 \<or> x = 1" "y = 0 \<or> y = 1" "length b \<le> 4096" "8192 \<le> length D"
  shows "slot_of (put_bytes (unat (x * header_bytes)) b D) y =
    (if y = x then put_bytes 0 b (slot_of D y) else slot_of D y)"
  using assms unfolding slot_address [OF assms(1)] slot_of_def
  by (auto simp: get_put_inside get_put_other)

lemma rec_at_put:
  assumes "x = 0 \<or> x = 1" "length b \<le> 4096" "8192 + (i + 1) * 128 \<le> length D"
  shows "rec_at (put_bytes (unat (x * header_bytes)) b D) i = rec_at D i"
  using assms unfolding slot_address [OF assms(1)] rec_at_def by (auto intro!: get_put_other)

text \<open>The torn header: a proper prefix of the new header over the old slot that still decodes, which
  only a checksum collision allows.\<close>

definition torn_header :: "bytes \<Rightarrow> bytes \<Rightarrow> bytes \<Rightarrow> bool" where
  "torn_header hdr old now \<longleftrightarrow> (\<exists>k. 0 < k \<and> k < 4096 \<and> now = put_bytes 0 (take k hdr) old \<and> result_ok (decode_header now))"

lemma header_write_outcomes:
  assumes inv: "journal_inv s rs D" and seq: "js_header_sequence s \<noteq> - 1"
    and mid: "length D1 = length D" "\<And>k. k < length rs \<Longrightarrow> rec_at D1 k = rec_at D k"
      "\<And>x. x = 0 \<or> x = 1 \<Longrightarrow> slot_of D1 x = slot_of D x"
    and recs: "image_records D1 0 (length rs') = Inr rs'" "unat n = length rs'" "8192 + length rs' * 128 \<le> length D"
    and hdr: "hdr = encode_header (js_identity s) (js_header_sequence s + 1) ph n"
    and wr: "D2 = put_bytes (unat (((js_header_sequence s + 1) AND 1) * header_bytes)) (take k hdr) D1" "k \<le> 4096"
    and s': "js_identity s' = js_identity s" "js_phase s' = ph" "js_record_count s' = n"
        "js_header_sequence s' = js_header_sequence s + 1"
  shows "length D2 = length D \<and> (k = 4096 \<longrightarrow> journal_inv s' rs' D2)
    \<and> (journal_inv s rs D2 \<or> journal_inv s' rs' D2
       \<or> torn_header hdr (slot_of D ((js_header_sequence s + 1) AND 1)) (slot_of D2 ((js_header_sequence s + 1) AND 1)))"
proof -
  let ?a = "js_header_sequence s AND 1" and ?b = "(js_header_sequence s + 1) AND 1"
  have sl: "?a = 0 \<or> ?a = 1" "?b = 0 \<or> ?b = 1" by (rule slot_cases)+
  have ok: "identity_ok (js_identity s)" "8192 + length rs * 128 \<le> length D" using inv by (auto simp: journal_inv_def)
  have lh: "length (take k hdr) = k" "length hdr = 4096" using hdr wr(2) ok(1) by simp_all
  have len: "length D2 = length D"
    using wr lh mid(1) ok(2) slot_address [OF sl(2)] sl(2) by (auto simp: header_bytes_def)
  have sa: "slot_of D2 ?a = slot_of D ?a"
    using slot_of_put [OF sl(2,1), of "take k hdr" D1] slot_flip_neq [of "js_header_sequence s"] mid(1,3) sl(1) ok(2) lh wr by simp
  have sb: "slot_of D2 ?b = put_bytes 0 (take k hdr) (slot_of D ?b)"
    using slot_of_put [OF sl(2,2), of "take k hdr" D1] mid(1,3) sl(2) ok(2) lh wr by simp
  have lb: "length (slot_of D ?b) = 4096" using sl(2) ok(2) by (auto simp: slot_of_def)
  have rc: "rec_at D2 i = rec_at D1 i" if "8192 + (i + 1) * 128 \<le> length D" for i
    using rec_at_put [OF sl(2), of "take k hdr" i D1] that mid(1) lh wr by simp
  have keep: "journal_inv s rs D2" if "\<not> result_ok (decode_header (slot_of D2 ?b)) \<or> slot_of D2 ?b = slot_of D ?b"
    using that ok(2) mid(2) by (intro journal_inv_keep [OF inv len _ sa]) (simp_all add: rc)
  have "journal_inv s' rs' D2" if "k = 4096"
  proof (rule journal_inv_header [OF inv len seq sa _ _ recs(2,3) s'])
    show "slot_of D2 ?b = encode_header (js_identity s) (js_header_sequence s + 1) ph n"
      using sb that lh(2) lb hdr by (simp add: put_bytes_def)
    have "image_records D2 0 (length rs') = image_records D1 0 (length rs')"
      using recs(3) by (intro image_records_cong rc) simp
    then show "image_records D2 0 (length rs') = Inr rs'" using recs(1) by simp
  qed
  moreover have "journal_inv s rs D2" if "k = 0" using sb that by (intro keep) (simp add: put_bytes_def)
  moreover have "journal_inv s rs D2 \<or> torn_header hdr (slot_of D ?b) (slot_of D2 ?b)" if "0 < k" "k < 4096"
    using keep sb that unfolding torn_header_def by blast
  ultimately show ?thesis using len wr(2) by (metis le_neq_implies_less neq0_conv)
qed

lemma append_writes_outcomes:
  assumes j: "j_writable j" "j_device j = d" "j_status j = s" and w: "on_file d w"
    and inv: "journal_inv s rs (data_of d w)" and seq: "js_header_sequence s \<noteq> - 1"
    and cap: "8192 + (length rs + length new) * 128 \<le> length (data_of d w)"
    and run: "append_writes j new w = (r, w')"
    and s': "s' = fold count_record new (s\<lparr>js_header_sequence := js_header_sequence s + 1,
               js_record_count := js_record_count s + of_nat (length new)\<rparr>)"
  shows "on_file d w' \<and> length (data_of d w') = length (data_of d w)
    \<and> (r = Inr () \<longrightarrow> journal_inv s' (rs @ number_from (js_record_count s) new) (data_of d w'))
    \<and> (journal_inv s rs (data_of d w') \<or> journal_inv s' (rs @ number_from (js_record_count s) new) (data_of d w')
       \<or> torn_header (encode_header (js_identity s) (js_header_sequence s + 1) (js_phase s)
             (js_record_count s + of_nat (length new)))
           (slot_of (data_of d w) ((js_header_sequence s + 1) AND 1))
           (slot_of (data_of d w') ((js_header_sequence s + 1) AND 1)))"
proof -
  let ?D = "data_of d w" and ?cnt = "js_record_count s" and ?b = "(js_header_sequence s + 1) AND 1"
  let ?all = "rs @ number_from ?cnt new"
  define hdr where "hdr = encode_header (js_identity s) (js_header_sequence s + 1) (js_phase s) (?cnt + of_nat (length new))"
  have cnt: "unat ?cnt = length rs" and idk: "identity_ok (js_identity s)" using inv by (simp_all add: journal_inv_def)
  have big: "length ?D < 2 ^ 63" using w by (simp add: on_file_def off_t_max_def)
  have n: "unat (?cnt + of_nat (length new)) = length ?all"
    using cap big cnt by (subst unat_add_le) (simp_all add: unat_of_nat take_bit_nat_eq_self)
  obtain q w1 where q: "write_records d ?cnt new w = (q, w1)" by fastforce
  have wrs: "on_file d w1" "length (data_of d w1) = length ?D"
     "\<And>p n. p + n \<le> 8192 + length rs * 128 \<Longrightarrow> get_bytes p n (data_of d w1) = get_bytes p n ?D"
     "q = Inr () \<Longrightarrow> image_records (data_of d w1) (length rs) (length new) = Inr (number_from ?cnt new)"
    using write_records_spec [OF w q] cap by (auto simp: cnt)
  have sl1: "slot_of (data_of d w1) x = slot_of ?D x" if "x = 0 \<or> x = 1" for x :: u64
    using that by (auto simp: slot_of_def intro!: wrs(3))
  have rc1: "rec_at (data_of d w1) k = rec_at ?D k" if "k < length rs" for k
    using that by (simp add: rec_at_def wrs(3))
  have keep: "journal_inv s rs D'" if "D' = data_of d w1" for D'
    using wrs(2) rc1 sl1 slot_cases that by (intro journal_inv_keep [OF inv]) auto
  show ?thesis
  proof (cases q)
    case (Inl e)
    then have "w' = w1" "r = Inl e" using run q j by (simp_all add: append_writes_def bind_io_def)
    then show ?thesis using wrs keep by simp
  next
    case (Inr u)
    obtain q2 w2 where q2: "flush d w1 = (q2, w2)" by fastforce
    note f2 = dev.fl_law [OF wrs(1) q2]
    show ?thesis
    proof (cases q2)
      case (Inl e)
      then have "w' = w2" "r = Inl e" using run q q2 Inr j by (simp_all add: append_writes_def bind_io_def)
      then show ?thesis using wrs keep f2 by simp
    next
      case q2ok: (Inr u2)
      obtain q3 w3 where q3: "write_exact d (?b * header_bytes) hdr w2 = (q3, w3)" by fastforce
      have sl: "?b = 0 \<or> ?b = 1" by (rule slot_cases)
      have rng: "unat (?b * header_bytes) + length hdr \<le> length (data_of d w2)"
        using cap f2 wrs(2) idk sl by (auto simp: hdr_def slot_address)
      obtain k where k: "k \<le> 4096" "data_of d w3 = put_bytes (unat (?b * header_bytes)) (take k hdr) (data_of d w1)"
          "q3 = Inr () \<longrightarrow> k = 4096" and on3: "on_file d w3"
        using dev.wr_law [OF _ q3 rng] f2 idk by (auto simp: hdr_def)
      have rec: "image_records (data_of d w1) 0 (length ?all) = Inr ?all"
        using wrs(4) Inr image_records_cong [of "length rs" "data_of d w1" 0 ?D] rc1 inv
        by (auto simp: image_records_add journal_inv_def)
      have out: "length (data_of d w3) = length ?D \<and> (k = 4096 \<longrightarrow> journal_inv s' ?all (data_of d w3))
        \<and> (journal_inv s rs (data_of d w3) \<or> journal_inv s' ?all (data_of d w3)
          \<or> torn_header hdr (slot_of ?D ?b) (slot_of (data_of d w3) ?b))"
        by (rule header_write_outcomes [OF inv seq wrs(2) rc1 sl1 rec n _ hdr_def k(2,1)]) (use cap s' in simp_all)
      have run3: "(case q3 of Inl e \<Rightarrow> (Inl e, w3) | Inr _ \<Rightarrow> flush d w3) = (r, w')"
        using run q q2 q3 Inr q2ok j
        by (auto simp: append_writes_def bind_io_def write_header_def hdr_def Let_def split: sum.splits)
      have "data_of d w' = data_of d w3 \<and> on_file d w' \<and> (r = Inr () \<longrightarrow> q3 = Inr ())"
        using run3 dev.fl_law [OF on3] on3 by (cases q3) auto
      then show ?thesis using out k(3) by (auto simp: hdr_def)
    qed
  qed
qed

text \<open>What is left of a journal with status \<open>s\<close> and records \<open>rs\<close> when header \<open>hdr\<close> was going to its
  next slot: the old content, the new content, or a torn header the checksum accepts.\<close>

definition old_or_new :: "journal_status \<Rightarrow> journal_record list \<Rightarrow> journal_status \<Rightarrow> journal_record list
    \<Rightarrow> bytes \<Rightarrow> bytes \<Rightarrow> bool" where
  "old_or_new s rs s' rs' D D' \<longleftrightarrow> journal_inv s rs D' \<or> journal_inv s' rs' D'
     \<or> torn_header (encode_header (js_identity s) (js_header_sequence s') (js_phase s') (js_record_count s'))
         (slot_of D (js_header_sequence s' AND 1)) (slot_of D' (js_header_sequence s' AND 1))"

definition batch_status :: "journal_record list \<Rightarrow> journal_status \<Rightarrow> journal_status" where
  "batch_status new s = fold count_record new (s\<lparr>js_header_sequence := js_header_sequence s + 1,
     js_record_count := js_record_count s + of_nat (length new)\<rparr>)"

lemma capacity_fits:
  assumes "on_file d w" and "unat n \<le> unat (capacity_records d)" and "records_offset < g_size_bytes (bd_geometry d)"
  shows "8192 + unat n * 128 \<le> length (data_of d w)"
proof -
  have "unat (capacity_records d) = (length (data_of d w) - 8192) div 128"
    using assms(1,3) by (simp add: capacity_records_def Let_def unat_div unat_sub_le records_offset_unat on_file_def)
  moreover have "8192 < length (data_of d w)"
    using assms(1,3) by (simp add: word_less_nat_alt records_offset_unat on_file_def)
  ultimately show ?thesis using assms(2) by simp
qed

lemma append_batch_cases:
  assumes "append_batch new j w = (r, j', w')" and "j_writable j" and "length new < 2 ^ 64" and "on_file (j_device j) w"
  obtains (nothing) "new = []" "r = Inr ()" "j' = j" "w' = w"
    | (full) e where "new \<noteq> []" "r = Inl e" "e = Failed (mk_error Errc_io ''journal is full'')" "j' = j" "w' = w"
        "unat (capacity_records (j_device j)) < unat (js_record_count (j_status j)) + length new"
    | (failed) e where "append_writes j new w = (Inl e, w')" "r = Inl e" "j' = j"
        "8192 + (unat (js_record_count (j_status j)) + length new) * 128 \<le> length (data_of (j_device j) w)"
    | (appended) "append_writes j new w = (Inr (), w')" "r = Inr ()" "j' = j\<lparr>j_status := batch_status new (j_status j)\<rparr>"
        "8192 + (unat (js_record_count (j_status j)) + length new) * 128 \<le> length (data_of (j_device j) w)"
proof -
  let ?c = "js_record_count (j_status j)" and ?cap = "capacity_records (j_device j)"
  have un: "unat (of_nat (length new) :: u64) = length new"
    using assms(3) by (simp add: unat_of_nat take_bit_nat_eq_self)
  show thesis
  proof (cases "new = []")
    case True
    then have "r = Inr ()" "j' = j" "w' = w" using assms(1,2) by (simp_all add: append_batch_def)
    with True show thesis by (rule nothing)
  next
    case ne: False
    show thesis
    proof (cases "?cap < ?c \<or> ?cap - ?c < of_nat (length new)")
      case True
      then have "unat ?cap < unat ?c + length new"
        by (cases "?cap < ?c") (auto simp: word_less_nat_alt un unat_sub_le word_le_nat_alt)
      with True ne assms(1,2) show thesis by (intro full) (auto simp: append_batch_def Let_def)
    next
      case False
      then have le: "unat ?c + length new \<le> unat ?cap"
        by (auto simp: word_less_nat_alt un unat_sub_le word_le_nat_alt not_less)
      have "unat ?cap \<noteq> 0" using le ne by (cases new) auto
      then have big: "records_offset < g_size_bytes (bd_geometry (j_device j))"
        by (auto simp: capacity_records_def Let_def split: if_splits)
      have fits: "8192 + (unat ?c + length new) * 128 \<le> length (data_of (j_device j) w)"
        using capacity_fits [OF assms(4) _ big, of "?c + of_nat (length new)"] le unat_lt_64 [of ?cap]
        by (simp add: unat_add_le un)
      show thesis
        using assms(1,2) False ne fits failed appended
        by (auto simp: append_batch_def Let_def batch_status_def split: prod.splits sum.splits)
    qed
  qed
qed

lemma batch_status_fields [simp]:
  "js_identity (batch_status new s) = js_identity s" "js_phase (batch_status new s) = js_phase s"
  "js_record_count (batch_status new s) = js_record_count s + of_nat (length new)"
  "js_header_sequence (batch_status new s) = js_header_sequence s + 1"
  by (simp_all add: batch_status_def)

lemma append_batch_outcomes:
  assumes "append_batch new j w = (r, j', w')" and "j_writable j" and "length new < 2 ^ 64"
    and "on_file (j_device j) w" and "journal_inv (j_status j) rs (data_of (j_device j) w)"
    and "js_header_sequence (j_status j) \<noteq> - 1" and "new \<noteq> []"
  shows "on_file (j_device j) w' \<and> length (data_of (j_device j) w') = length (data_of (j_device j) w)
    \<and> (r = Inr () \<longrightarrow> j' = j\<lparr>j_status := batch_status new (j_status j)\<rparr>
         \<and> journal_inv (j_status j') (rs @ number_from (js_record_count (j_status j)) new) (data_of (j_device j) w'))
    \<and> (r \<noteq> Inr () \<longrightarrow> j' = j)
    \<and> old_or_new (j_status j) rs (batch_status new (j_status j)) (rs @ number_from (js_record_count (j_status j)) new)
         (data_of (j_device j) w) (data_of (j_device j) w')"
proof -
  have cnt: "unat (js_record_count (j_status j)) = length rs" using assms(5) by (simp add: journal_inv_def)
  note out = append_writes_outcomes [OF assms(2) refl refl assms(4,5,6) _ _ batch_status_def]
  show ?thesis
    using assms(1,2,3,4)
  proof (cases rule: append_batch_cases)
    case nothing
    then show ?thesis using assms(7) by simp
  next
    case (full e)
    then show ?thesis using assms(4,5) by (simp add: old_or_new_def)
  next
    case (failed e)
    with out [OF _ failed(1)] show ?thesis by (simp add: cnt old_or_new_def)
  next
    case appended
    with out [OF _ appended(1)] show ?thesis by (simp add: cnt old_or_new_def)
  qed
qed

text \<open>What opening finds after an interrupted append: the records of before, or those and the whole
  batch.\<close>

lemma old_or_new_load:
  assumes "old_or_new s rs s' rs' D D'"
    and "\<not> torn_header (encode_header (js_identity s) (js_header_sequence s') (js_phase s') (js_record_count s'))
         (slot_of D (js_header_sequence s' AND 1)) (slot_of D' (js_header_sequence s' AND 1))"
  shows "\<exists>h. load_image D' = Inr (h, rs) \<and> same_content h s \<or> load_image D' = Inr (h, rs') \<and> same_content h s'"
  using assms journal_inv_load unfolding old_or_new_def by metis

section \<open>Loading\<close>

lemma load_records_calm:
  assumes "calm w" "on_file d w" and "8192 + (unat i + n) * 128 \<le> length (data_of d w)"
  shows "load_records n d i s w =
    (case image_records (data_of d w) (unat i) n of
       Inl e \<Rightarrow> (Inl (Failed e), w) | Inr rs \<Rightarrow> (Inr (fold count_record rs s), w))"
  using assms(3)
proof (induction n arbitrary: i s)
  case 0
  show ?case by simp
next
  case (Suc n)
  have big: "length (data_of d w) < 2 ^ 63" using assms(2) by (simp add: on_file_def off_t_max_def)
  have addr: "unat (records_offset + i * record_bytes) = 8192 + unat i * 128"
    using Suc.prems big by (intro record_address) simp
  have suc: "unat (i + 1) = Suc (unat i)" using Suc.prems big by (intro unat_Suc) simp
  have rd: "read_exact d (records_offset + i * record_bytes) 128 w = (Inr (rec_at (data_of d w) (unat i)), w)"
    using read_exact_calm [OF assms(1,2)] Suc.prems by (simp add: addr rec_at_def)
  show ?case
    using Suc.IH [of "i + 1"] Suc.prems
    by (cases "decode_record (rec_at (data_of d w) (unat i))"; cases "image_records (data_of d w) (Suc (unat i)) n")
      (auto simp: bind_io_def rd suc fail_def)
qed

definition loaded_status :: "bytes \<Rightarrow> decoded_header \<Rightarrow> journal_record list \<Rightarrow> journal_status \<Rightarrow> journal_status" where
  "loaded_status D h rs s = fold count_record rs (s\<lparr>
     js_header_a_valid := result_ok (decode_header (slot_of D 0)), js_header_b_valid := result_ok (decode_header (slot_of D 1)),
     js_identity := dh_id h, js_phase := dh_phase h, js_header_sequence := dh_sequence h,
     js_record_count := dh_record_count h, js_records_valid := True\<rparr>)"

lemma load_calm:
  assumes "calm w" "on_file (j_device j) w" and "8192 \<le> length (data_of (j_device j) w)"
  shows "load j w =
    (case load_image (data_of (j_device j) w) of
       Inl e \<Rightarrow> (Inl (Failed e), w)
     | Inr (h, rs) \<Rightarrow> (Inr (j\<lparr>j_status := loaded_status (data_of (j_device j) w) h rs (j_status j)\<rparr>), w))"
proof -
  let ?d = "j_device j" and ?D = "data_of (j_device j) w"
  have rd: "read_exact ?d 0 4096 w = (Inr (slot_of ?D 0), w)" "read_exact ?d header_bytes 4096 w = (Inr (slot_of ?D 1), w)"
    using read_exact_calm [OF assms(1,2)] assms(3) by (simp_all add: slot_of_def header_bytes_def)
  have cap: "unat (capacity_records ?d) = (length ?D - 8192) div 128"
    using assms(2,3) by (auto simp: capacity_records_def Let_def unat_div unat_sub_le records_offset_unat on_file_def
        word_less_nat_alt word_le_nat_alt)
  show ?thesis
  proof (cases "choose_header (decode_header (slot_of ?D 0)) (decode_header (slot_of ?D 1))")
    case (Inl e)
    then show ?thesis by (simp add: load_def load_image_def bind_io_def rd Let_def)
  next
    case (Inr h)
    show ?thesis
    proof (cases "capacity_records ?d < dh_record_count h")
      case True
      with Inr show ?thesis
        by (simp add: load_def load_image_def bind_io_def rd Let_def cap word_less_nat_alt fail_def)
    next
      case False
      then have "8192 + (unat (0 :: u64) + unat (dh_record_count h)) * 128 \<le> length ?D"
        using assms(3) by (simp add: word_less_nat_alt cap)
      note lr = load_records_calm [OF assms(1,2) this]
      have "\<not> (length ?D - 8192) div 128 < unat (dh_record_count h)" using False by (simp add: word_less_nat_alt cap)
      with False Inr show ?thesis
        by (cases "image_records ?D 0 (unat (dh_record_count h))")
          (simp_all add: load_def load_image_def bind_io_def rd Let_def lr loaded_status_def)
    qed
  qed
qed

lemma read_records_calm:
  assumes "calm w" "on_file d w" and "8192 + (unat i + n) * 128 \<le> length (data_of d w)"
    and "image_records (data_of d w) (unat i) n = Inr rs"
  shows "read_records n d i w = (Inr rs, w)"
  using assms(3,4)
proof (induction n arbitrary: i rs)
  case 0
  then show ?case by simp
next
  case (Suc n)
  have big: "length (data_of d w) < 2 ^ 63" using assms(2) by (simp add: on_file_def off_t_max_def)
  have addr: "unat (records_offset + i * record_bytes) = 8192 + unat i * 128"
    using Suc.prems big by (intro record_address) simp
  have suc: "unat (i + 1) = Suc (unat i)" using Suc.prems big by (intro unat_Suc) simp
  have rd: "read_exact d (records_offset + i * record_bytes) 128 w = (Inr (rec_at (data_of d w) (unat i)), w)"
    using read_exact_calm [OF assms(1,2)] Suc.prems by (simp add: addr rec_at_def)
  obtain r rs' where "rs = r # rs'" "decode_record (rec_at (data_of d w) (unat i)) = Inr r"
    "image_records (data_of d w) (unat (i + 1)) n = Inr rs'"
    using Suc.prems(2) unfolding image_records_Suc suc by blast
  with Suc.IH [of "i + 1" rs'] Suc.prems show ?case by (simp add: bind_io_def rd suc)
qed

section \<open>The image a new journal has\<close>

definition created_image :: "journal_identity \<Rightarrow> nat \<Rightarrow> bytes" where
  "created_image i extra = encode_header i 1 Phase_prepared 0 @ encode_header i 0 Phase_prepared 0 @ replicate extra 0"

definition created_status :: "journal_identity \<Rightarrow> journal_status" where
  "created_status i = empty_status\<lparr>js_identity := i, js_phase := Phase_prepared,
     js_header_sequence := 1, js_records_valid := True, js_header_a_valid := True, js_header_b_valid := True\<rparr>"

lemma created_slots:
  assumes "identity_ok i"
  shows "slot_of (created_image i n) 0 = encode_header i 1 Phase_prepared 0"
    "slot_of (created_image i n) 1 = encode_header i 0 Phase_prepared 0"
  using assms by (simp_all add: slot_of_def created_image_def get_bytes_def)

lemma created_inv:
  assumes "identity_ok i"
  shows "journal_inv (created_status i) [] (created_image i n)"
  using assms
  by (simp add: journal_inv_def created_status_def empty_status_def same_content_def created_slots decode_encode_header)
    (simp add: created_image_def)

section \<open>Properties\<close>


definition sample_journal :: journal where
  "sample_journal = \<lparr>j_device = sample_device 10240, j_status = created_status sample_identity, j_writable = True\<rparr>"

definition sample_journal_world :: "sysev list \<Rightarrow> world" where
  "sample_journal_world script = sample_world (created_image sample_identity 2048) script"

lemma sample_journal_facts:
  "j_writable sample_journal" "on_file (j_device sample_journal) (sample_journal_world s)"
  "journal_inv (j_status sample_journal) [] (data_of (j_device sample_journal) (sample_journal_world s))"
  "js_header_sequence (j_status sample_journal) \<noteq> - 1"
  using created_inv [OF sample_identity_ok]
  by (simp_all add: sample_journal_def sample_journal_world_def on_file_def sample_device_def sample_world_def
      off_t_max_def created_image_def created_status_def)


lemma count_record_fold:
  "js_last_transaction_id (fold count_record rs t) = fold max (map jr_transaction_id rs) (js_last_transaction_id t)"
  "js_records_valid (fold count_record rs t) = js_records_valid t"
  by (induction rs arbitrary: t) (simp_all add: count_record_def max.commute)

text \<open>C5. Opening reads back what was written: on a quiet host \<^verbatim>\<open>load\<close> of a well-formed journal succeeds
  with the identity, phase and record count of the status that wrote it, counts transactions over
  exactly its records, changes nothing, and \<^verbatim>\<open>records\<close> returns them in order.\<close>

theorem journal_reopen:
  assumes "calm w" and "on_file (j_device j) w" and "journal_inv s rs (data_of (j_device j) w)"
  shows "\<exists>j'. load j w = (Inr j', w) \<and> j_device j' = j_device j \<and> same_content
        \<lparr>dh_id = js_identity (j_status j'), dh_sequence = js_header_sequence (j_status j'),
         dh_phase = js_phase (j_status j'), dh_record_count = js_record_count (j_status j')\<rparr> s
      \<and> js_records_valid (j_status j')
      \<and> js_last_transaction_id (j_status j') =
          fold max (map jr_transaction_id rs) (js_last_transaction_id (j_status j))
      \<and> records j' w = (Inr rs, w)"
proof -
  let ?D = "data_of (j_device j) w"
  obtain h where h: "load_image ?D = Inr (h, rs)" "same_content h s" using journal_inv_load [OF assms(3)] by blast
  define j' where "j' = j\<lparr>j_status := loaded_status ?D h rs (j_status j)\<rparr>"
  have len: "8192 + length rs * 128 \<le> length ?D" "unat (js_record_count s) = length rs"
    "image_records ?D 0 (length rs) = Inr rs" using assms(3) by (simp_all add: journal_inv_def)
  have ld: "load j w = (Inr j', w)" using load_calm [OF assms(1,2)] len h by (simp add: j'_def)
  have st: "js_identity (j_status j') = dh_id h" "js_phase (j_status j') = dh_phase h"
     "js_record_count (j_status j') = dh_record_count h" "js_records_valid (j_status j')" "j_device j' = j_device j"
     "js_last_transaction_id (j_status j') = fold max (map jr_transaction_id rs) (js_last_transaction_id (j_status j))"
    by (simp_all add: j'_def loaded_status_def count_record_fold)
  have "unat (dh_record_count h) = length rs" using h(2) len(2) by (simp add: same_content_def)
  then have "records j' w = (Inr rs, w)"
    using read_records_calm [OF assms(1,2), of 0 "length rs" rs] len unat_lt_64 [of "dh_record_count h"]
    by (simp add: records_def st size_max_def)
  with ld st h(2) show ?thesis by (intro exI [of _ j']) (simp add: same_content_def)
qed

theorem journal_reopen_witness:
  "calm (sample_journal_world []) \<and> (\<exists>j'. load sample_journal (sample_journal_world []) = (Inr j', sample_journal_world [])
      \<and> records j' (sample_journal_world []) = (Inr [], sample_journal_world []))"
proof -
  have c: "calm (sample_journal_world [])"
    by (simp add: calm_def sample_journal_world_def sample_world_def fault_enabled_def)
  show ?thesis using c journal_reopen [OF c sample_journal_facts(2,3)] by blast
qed

lemma checkpoint_outcomes:
  assumes run: "checkpoint ph j w = (r, j', w')" and wr: "j_writable j" and on: "on_file (j_device j) w"
    and inv: "journal_inv (j_status j) rs (data_of (j_device j) w)"
    and seq: "js_header_sequence (j_status j) \<noteq> - 1" "js_header_sequence (j_status j) + 1 \<noteq> - 1"
    and s1: "s1 = batch_status [checkpoint_record ph (j_status j)] (j_status j)"
    and rs1: "rs1 = rs @ [(checkpoint_record ph (j_status j))\<lparr>jr_sequence := js_record_count (j_status j) + 1\<rparr>]"
    and s2: "s2 = s1\<lparr>js_header_sequence := js_header_sequence s1 + 1, js_phase := ph\<rparr>"
  shows "(old_or_new (j_status j) rs s1 rs1 (data_of (j_device j) w) (data_of (j_device j) w')
       \<or> (\<exists>D. journal_inv s1 rs1 D \<and> old_or_new s1 rs1 s2 rs1 D (data_of (j_device j) w')))
    \<and> (r = Inr () \<longrightarrow> journal_inv s2 rs1 (data_of (j_device j) w') \<and> on_file (j_device j) w' \<and> j' = j\<lparr>j_status := s2\<rparr>)"
proof -
  let ?d = "j_device j" and ?cp = "checkpoint_record ph (j_status j)"
  obtain q j1 w1 where q: "append_batch [?cp] j w = (q, j1, w1)" using prod_cases3 by blast
  note out = append_batch_outcomes [OF q wr _ on inv seq(1)]
  show ?thesis
  proof (cases q)
    case (Inl e)
    then have "w' = w1" "r = Inl e" using run q wr by (simp_all add: checkpoint_def journal_append_def)
    then show ?thesis using out by (simp add: s1 rs1)
  next
    case (Inr u)
    have j1: "j1 = j\<lparr>j_status := s1\<rparr>" and inv1: "journal_inv s1 rs1 (data_of ?d w1)" and on1: "on_file ?d w1"
      using out Inr by (auto simp: s1 rs1)
    define hdr where "hdr = encode_header (js_identity s1) (js_header_sequence s1 + 1) ph (js_record_count s1)"
    let ?b = "(js_header_sequence s1 + 1) AND 1"
    obtain q3 w3 where q3: "write_exact ?d (?b * header_bytes) hdr w1 = (q3, w3)" by fastforce
    have facts: "identity_ok (js_identity s1)" "8192 + length rs1 * 128 \<le> length (data_of ?d w1)"
        "unat (js_record_count s1) = length rs1" "image_records (data_of ?d w1) 0 (length rs1) = Inr rs1"
      using inv1 by (simp_all add: journal_inv_def)
    have rng: "unat (?b * header_bytes) + length hdr \<le> length (data_of ?d w1)"
      using facts slot_cases [of "js_header_sequence s1 + 1"] by (auto simp: hdr_def slot_address)
    obtain k where k: "k \<le> 4096" "data_of ?d w3 = put_bytes (unat (?b * header_bytes)) (take k hdr) (data_of ?d w1)"
        "q3 = Inr () \<longrightarrow> k = 4096" and on3: "on_file ?d w3"
      using dev.wr_law [OF on1 q3 rng] facts(1) by (auto simp: hdr_def)
    have "js_header_sequence s1 \<noteq> - 1" using seq(2) by (simp add: s1)
    then have o3: "length (data_of ?d w3) = length (data_of ?d w1) \<and> (k = 4096 \<longrightarrow> journal_inv s2 rs1 (data_of ?d w3))
        \<and> (journal_inv s1 rs1 (data_of ?d w3) \<or> journal_inv s2 rs1 (data_of ?d w3)
          \<or> torn_header hdr (slot_of (data_of ?d w1) ?b) (slot_of (data_of ?d w3) ?b))"
      by (rule header_write_outcomes [OF inv1 _ refl refl refl facts(4,3,2) hdr_def k(2,1)]) (simp_all add: s2)
    have "checkpoint ph j w = (case (case q3 of Inl e \<Rightarrow> (Inl e, w3) | Inr _ \<Rightarrow> flush ?d w3) of
        (Inl e, w2) \<Rightarrow> (Inl e, j1, w2) | (Inr _, w2) \<Rightarrow> (Inr (), j1\<lparr>j_status := s2\<rparr>, w2))"
      using wr by (simp add: checkpoint_def journal_append_def q Inr j1 bind_io_def write_header_def Let_def s2
          q3 [unfolded hdr_def] split: sum.splits prod.splits)
    then have run3: "(case (case q3 of Inl e \<Rightarrow> (Inl e, w3) | Inr _ \<Rightarrow> flush ?d w3) of
        (Inl e, w2) \<Rightarrow> (Inl e, j1, w2) | (Inr _, w2) \<Rightarrow> (Inr (), j1\<lparr>j_status := s2\<rparr>, w2)) = (r, j', w')"
      using run by simp
    have fin: "data_of ?d w' = data_of ?d w3 \<and> (r = Inr () \<longrightarrow> q3 = Inr () \<and> on_file ?d w' \<and> j' = j\<lparr>j_status := s2\<rparr>)"
      using run3 dev.fl_law [OF on3] by (cases q3) (auto simp: j1 split: prod.splits sum.splits)
    have "old_or_new s1 rs1 s2 rs1 (data_of ?d w1) (data_of ?d w')"
      using o3 fin by (simp add: old_or_new_def hdr_def s2)
    then show ?thesis using inv1 fin k(3) o3 by auto
  qed
qed



section \<open>Creating\<close>

lemma created_writes:
  assumes "identity_ok i" "8192 \<le> n"
  shows "put_bytes 4096 (encode_header i 0 Phase_prepared 0) (put_bytes 0 (encode_header i 1 Phase_prepared 0) (replicate n 0)) =
    created_image i (n - 8192)"
  using assms by (simp add: created_image_def put_bytes_def)

lemma temp_name_neq: "journal_temp_name path pid u \<noteq> path"
  by (simp add: journal_temp_name_def)

text \<open>C7. Creating a journal under a free name on a quiet host succeeds and yields a well-formed
  empty journal: both headers are valid, the file and its name are durable, the temporary name is
  gone, and the object can append.\<close>

theorem journal_create:
  assumes c: "calm w" and i: "identity_ok i" and names: "w_names w path = None" "w_names w (journal_temp_name path pid u) = None"
    and cap: "10240 \<le> unat cap" "unat cap \<le> off_t_max"
  shows "\<exists>j w'. create pid u path i cap w = (Inr j, w') \<and> j_writable j \<and> j_status j = created_status i
    \<and> on_file (j_device j) w' \<and> journal_inv (j_status j) [] (data_of (j_device j) w')
    \<and> f_durable (w_files w' (bd_fd (j_device j))) = data_of (j_device j) w'
    \<and> w_durable_names w' path = Some (bd_fd (j_device j)) \<and> w_names w' path = Some (bd_fd (j_device j))
    \<and> w_names w' (journal_temp_name path pid u) = None"
proof -
  let ?t = "journal_temp_name path pid u" and ?n = "unat cap" and ?fd = "w_next w"
  define d where "d = new_file_device ?fd ?t cap"
  define img where "img = created_image i (?n - 8192)"
  define j where "j = \<lparr>j_device = d, j_status = empty_status\<lparr>js_identity := i, js_phase := Phase_prepared,
                                  js_header_sequence := 1, js_records_valid := True\<rparr>, j_writable = True\<rparr>"
  have cap': "\<not> cap < records_offset + record_bytes * 16"
    using cap(1) by (simp add: word_less_nat_alt records_offset_def record_bytes_def header_bytes_def)
  have limg: "length img = ?n" using i cap(1) by (simp add: img_def created_image_def)
  have nw: "calm (new_file_world ?t b w)" "f_data (w_files (new_file_world ?t b w) ?fd) = b"
      "w_names (new_file_world ?t b w) = (w_names w)(?t := Some ?fd)"
      "set_data ?fd b' (new_file_world ?t b w) = new_file_world ?t b' w" for b b'
    using c by (simp_all add: calm_def new_file_world_def set_data_def)
  have on: "on_file d (new_file_world ?t b w)" if "length b = ?n" for b
    using that cap(2) by (simp add: on_file_def nw) (simp add: d_def new_file_device_def nw)
  have dd: "bd_fd d = ?fd" "bd_writable d" by (simp_all add: d_def new_file_device_def)
  define w3 where "w3 = set_durable ?fd img (new_file_world ?t img w)"
  have h0: "write_header j 0 1 Phase_prepared 0 (new_file_world ?t (replicate ?n 0) w) =
      (Inr (), new_file_world ?t (put_bytes 0 (encode_header i 1 Phase_prepared 0) (replicate ?n 0)) w)"
    using write_exact_calm [OF nw(1) on dd(2), of "replicate ?n 0" 0 "encode_header i 1 Phase_prepared 0"] i cap(1)
    by (simp add: write_header_def j_def dd nw)
  have h1: "write_header j 1 0 Phase_prepared 0 (new_file_world ?t (put_bytes 0 (encode_header i 1 Phase_prepared 0) (replicate ?n 0)) w) =
      (Inr (), new_file_world ?t img w)"
    using write_exact_calm [OF nw(1) on dd(2), of "put_bytes 0 (encode_header i 1 Phase_prepared 0) (replicate ?n 0)" header_bytes
        "encode_header i 0 Phase_prepared 0"] i cap(1) created_writes [OF i, of ?n]
    by (simp add: write_header_def j_def dd nw records_offset_unat img_def)
  have fl: "flush d (new_file_world ?t img w) = (Inr (), w3)"
    using flush_calm [OF nw(1)] by (simp add: dd nw w3_def)
  have w3n: "calm w3" "w_names w3 = (w_names w)(?t := Some ?fd)" "w_files w3 ?fd = fresh_file\<lparr>f_ident := (0, ?fd), f_data := img, f_durable := img\<rparr>"
    using c by (simp_all add: w3_def set_durable_def new_file_world_def calm_def)
  define w4 where "w4 = sync_names (parent_path path) (w3\<lparr>w_names := (w_names w)(path := Some ?fd)\<rparr>)"
  have pub: "publish_file_noreplace ?t path ''transaction journal'' w3 = (Inr (), w4)"
    using publish_calm [OF w3n(1), of ?t ?fd path] names w3n(2) temp_name_neq [of path pid u]
    by (simp add: w4_def fun_upd_twist [of ?t path] fun_upd_idem)
  have w4n: "calm w4" "w_names w4 = (w_names w)(path := Some ?fd)" "w_files w4 = w_files w3" "w_durable_names w4 path = Some ?fd"
    using w3n(1) by (simp_all add: w4_def sync_names_def calm_def)
  have op: "open_write path w4 = (Inr (new_file_device ?fd path cap), w4)"
    using open_write_calm [OF w4n(1), of path ?fd] w4n w3n(3) limg by (simp add: fresh_file_def)
  let ?j = "\<lparr>j_device = new_file_device ?fd path cap, j_status = created_status i, j_writable = True\<rparr>"
  have "create pid u path i cap w = (Inr ?j, w4)"
    using cap' names create_file_calm [OF c names(2) cap(2)] h0 h1 fl pub op
    by (simp add: create_def path_exists_def next_event_calm c Let_def with_cleanup_def bind_io_def j_def d_def
        created_status_def)
  moreover have "on_file (j_device ?j) w4" "data_of (j_device ?j) w4 = img" "f_durable (w_files w4 ?fd) = img"
    using w4n(3) w3n(3) limg cap(2) by (simp_all add: on_file_def new_file_device_def)
  ultimately show ?thesis
    using created_inv [OF i] w4n(2,4) names(2) temp_name_neq [of path pid u]
    by (intro exI [of _ ?j] exI [of _ w4]) (simp add: img_def new_file_device_def)
qed

theorem journal_create_witness:
  "\<exists>j w'. create 7 (replicate 16 0) ''j'' sample_identity 16384 (sample_world [] []) = (Inr j, w')
    \<and> journal_inv (j_status j) [] (data_of (j_device j) w')"
proof -
  have w: "calm (sample_world [] [])" "w_names (sample_world [] []) p = None" for p
    by (simp_all add: calm_def sample_world_def fault_enabled_def)
  have "10240 \<le> unat (16384 :: u64)" "unat (16384 :: u64) \<le> off_t_max" by (simp_all add: off_t_max_def)
  from journal_create [OF w(1) sample_identity_ok w(2) w(2) this] show ?thesis by blast
qed

section \<open>The slots of a new journal\<close>

lemma torn_prefix_invalid:
  assumes "identity_ok i" "a \<noteq> b" "unat a < 256" "unat b < 256"
  shows "\<not> result_ok (decode_header (put_bytes 0 (take 17 (encode_header i a p n)) (encode_header i b p m)))"
proof -
  let ?A = "encode_header i a p n" and ?B = "encode_header i b p m"
  have len: "length ?A = 4096" "length ?B = 4096" using assms(1) by simp_all
  have low: "get_bytes 0 16 ?A = get_bytes 0 16 ?B"
    using assms(1) by (simp add: encode_header_def Let_def buf_simps identity_ok_def header_magic_def)
  have eq: "put_bytes 0 (take 17 ?A) ?B = ?B[16 := ?A ! 16]"
  proof (rule nth_equalityI)
    fix k assume k: "k < length (put_bytes 0 (take 17 ?A) ?B)"
    have "?A ! k = ?B ! k" if "k < 16"
      using arg_cong [OF low, of "\<lambda>l. l ! k"] that len by (simp add: nth_get_bytes)
    then show "put_bytes 0 (take 17 ?A) ?B ! k = ?B[16 := ?A ! 16] ! k"
      using k len by (auto simp: nth_put_bytes nth_list_update)
  qed (use len in simp)
  have rd: "read_le64 ?A 16 = a" "read_le64 ?B 16 = b"
    using assms(1) by (simp_all add: encode_header_def Let_def buf_simps identity_ok_def header_magic_def)
  have "?A ! 16 \<noteq> ?B ! 16"
  proof
    assume "?A ! 16 = ?B ! 16"
    then have "take_bit 8 (read_le64 ?A 16) = take_bit 8 (read_le64 ?B 16)"
      unfolding read_le64_def by (intro bit_word_eqI) (auto simp: bit_simps bit_read_le_wide)
    then have "take_bit 8 a = take_bit 8 b" unfolding rd .
    moreover have "take_bit 8 x = x" if "unat x < 256" for x :: u64
      using that by (simp add: word_unat_eq_iff unsigned_take_bit_eq take_bit_nat_eq_self)
    ultimately show False using assms(2-4) by metis
  qed
  then have "\<not> castagnoli.sealed_at 4092 (?B[16 := ?A ! 16])"
    using castagnoli.sealed_update [OF decode_header_sealed [OF decode_encode_header [OF assms(1)]]] len by simp
  then show ?thesis
    unfolding eq using decode_header_sealed len by (auto simp: result_ok_def split: sum.splits)
qed



end
