(* ===== verification/Fsx_Journal_Validate.thy ===== *)
theory Fsx_Journal_Validate
  imports Fsx_Journal
begin

text \<open>
  The semantic check of a journal, \<^verbatim>\<open>src/transaction/validate.cpp\<close>, and the recovery assessment,
  \<^verbatim>\<open>src/transaction/recovery.cpp\<close>. The check is a left-to-right scan with a map from transaction ids
  to what has been seen of them; \<open>legal_at\<close> is the protocol it enforces, stated on the records alone.
\<close>

section \<open>Model\<close>

record tx_state =
  tx_intent :: bool
  tx_verified :: bool
  tx_reserved :: bool
  tx_switched :: bool
  tx_released :: bool
  tx_committed :: bool
  tx_src :: u64
  tx_dst :: u64
  tx_blocks :: u64
  tx_inode :: u64

definition tx_new :: tx_state where
  "tx_new = \<lparr>tx_intent = False, tx_verified = False, tx_reserved = False, tx_switched = False,
     tx_released = False, tx_committed = False, tx_src = 0, tx_dst = 0, tx_blocks = 0, tx_inode = 0\<rparr>"

record validation_report =
  vr_clean :: bool
  vr_transactions :: u64
  vr_intents :: u64
  vr_copies_verified :: u64
  vr_destinations_reserved :: u64
  vr_owners_switched :: u64
  vr_sources_released :: u64
  vr_metadata_committed :: u64
  vr_checkpoints :: u64
  vr_warnings :: "string list"
  vr_errors :: "string list"

definition report_new :: validation_report where
  "report_new = \<lparr>vr_clean = True, vr_transactions = 0, vr_intents = 0, vr_copies_verified = 0,
     vr_destinations_reserved = 0, vr_owners_switched = 0, vr_sources_released = 0,
     vr_metadata_committed = 0, vr_checkpoints = 0, vr_warnings = [], vr_errors = []\<rparr>"

definition add_error :: "string \<Rightarrow> validation_report \<Rightarrow> validation_report" where
  "add_error msg r = r\<lparr>vr_clean := False, vr_errors := vr_errors r @ [msg]\<rparr>"

definition add_warning :: "string \<Rightarrow> validation_report \<Rightarrow> validation_report" where
  "add_warning msg r = r\<lparr>vr_warnings := vr_warnings r @ [msg]\<rparr>"

definition same_geometry :: "tx_state \<Rightarrow> journal_record \<Rightarrow> bool" where
  "same_geometry s r \<longleftrightarrow> tx_src s = jr_source_block r \<and> tx_dst s = jr_destination_block r
     \<and> tx_blocks s = jr_block_count r \<and> tx_inode s = jr_inode r"

record scan_state =
  sc_out :: validation_report
  sc_tx :: "u64 \<rightharpoonup> tx_state"
  sc_filesystem_dirty :: bool
  sc_filesystem_clean_seen :: bool
  sc_last_checkpoint_phase :: u64

definition scan_start :: scan_state where
  "scan_start = \<lparr>sc_out = report_new, sc_tx = Map.empty, sc_filesystem_dirty = False,
     sc_filesystem_clean_seen = False, sc_last_checkpoint_phase = 0\<rparr>"

definition on_out :: "(validation_report \<Rightarrow> validation_report) \<Rightarrow> scan_state \<Rightarrow> scan_state" where
  "on_out f s = s\<lparr>sc_out := f (sc_out s)\<rparr>"

definition error_when :: "bool \<Rightarrow> string \<Rightarrow> validation_report \<Rightarrow> validation_report" where
  "error_when b msg r = (if b then add_error msg r else r)"

definition warn_when :: "bool \<Rightarrow> string \<Rightarrow> validation_report \<Rightarrow> validation_report" where
  "warn_when b msg r = (if b then add_warning msg r else r)"

text \<open>The \<^verbatim>\<open>switch\<close> on a record whose intent and geometry have been checked; \<open>t\<close> is the printed
  transaction id.\<close>

definition scan_step_known :: "journal_record \<Rightarrow> string \<Rightarrow> tx_state \<Rightarrow> validation_report \<Rightarrow> tx_state \<times> validation_report" where
  "scan_step_known r t s out =
     (case jr_type r of
        Rec_copy_verified \<Rightarrow>
          (s\<lparr>tx_verified := True\<rparr>,
           warn_when (tx_verified s) (''duplicate verified-copy record for transaction '' @ t)
             (out\<lparr>vr_copies_verified := vr_copies_verified out + 1\<rparr>))
      | Rec_destination_reserved \<Rightarrow>
          (s\<lparr>tx_reserved := True\<rparr>,
           warn_when (\<not> tx_verified s) (''destination reserved before durable copy-verification record for transaction '' @ t)
             (out\<lparr>vr_destinations_reserved := vr_destinations_reserved out + 1\<rparr>))
      | Rec_owner_switched \<Rightarrow>
          (s\<lparr>tx_switched := True\<rparr>,
           error_when (\<not> tx_verified s) (''owner switched before verified copy for transaction '' @ t)
             (out\<lparr>vr_owners_switched := vr_owners_switched out + 1\<rparr>))
      | Rec_source_released \<Rightarrow>
          (s\<lparr>tx_released := True\<rparr>,
           error_when (\<not> tx_switched s) (''source released before owner switch for transaction '' @ t)
             (out\<lparr>vr_sources_released := vr_sources_released out + 1\<rparr>))
      | Rec_metadata_committed \<Rightarrow>
          (s\<lparr>tx_committed := True\<rparr>,
           warn_when (\<not> tx_released s)
             (''metadata commit has no source-released record; on-disk reconciliation is required for transaction '' @ t)
            (warn_when (\<not> tx_switched s)
              (''metadata commit has no owner-switched record; on-disk reconciliation is required for transaction '' @ t)
             (error_when (\<not> tx_verified s) (''metadata committed without verified copy for transaction '' @ t)
               (out\<lparr>vr_metadata_committed := vr_metadata_committed out + 1\<rparr>))))
      | _ \<Rightarrow> (s, out))"

text \<open>One round of the loop over the records.\<close>

definition scan_step :: "journal_record \<Rightarrow> scan_state \<Rightarrow> scan_state" where
  "scan_step r st =
     (case jr_type r of
        Rec_checkpoint \<Rightarrow>
          let st1 = on_out (\<lambda>o'. o'\<lparr>vr_checkpoints := vr_checkpoints o' + 1\<rparr>) st
          in if jr_aux r < 1 \<or> jr_aux r > 11 then on_out (add_error ''checkpoint contains an invalid phase value'') st1
             else st1\<lparr>sc_last_checkpoint_phase := jr_aux r\<rparr>
      | Rec_filesystem_marked_dirty \<Rightarrow> st\<lparr>sc_filesystem_dirty := True, sc_filesystem_clean_seen := False\<rparr>
      | Rec_filesystem_marked_clean \<Rightarrow>
          (on_out (warn_when (\<not> sc_filesystem_dirty st) ''filesystem-clean record appears without a preceding dirty record'') st)
            \<lparr>sc_filesystem_dirty := False, sc_filesystem_clean_seen := True\<rparr>
      | Rec_partition_intent \<Rightarrow> st
      | Rec_partition_committed \<Rightarrow> st
      | Rec_note \<Rightarrow> st
      | ty \<Rightarrow>
          if jr_transaction_id r = 0
          then on_out (add_error (journal_record_type_name ty @ '' record has transaction id 0'')) st
          else
            let t = to_string (jr_transaction_id r);
                s = (case sc_tx st (jr_transaction_id r) of Some s \<Rightarrow> s | None \<Rightarrow> tx_new);
                st = st\<lparr>sc_tx := (sc_tx st)(jr_transaction_id r \<mapsto> s)\<rparr>
            in if ty = Rec_relocation_intent then
                 let st1 = on_out (\<lambda>o'. o'\<lparr>vr_intents := vr_intents o' + 1\<rparr>) st
                 in if tx_intent s then
                      if \<not> same_geometry s r
                      then on_out (add_error ''duplicate relocation intent changes transaction geometry'') st1
                      else on_out (add_warning (''duplicate relocation intent for transaction '' @ t)) st1
                    else
                      on_out (error_when (jr_block_count r = 0 \<or> jr_source_block r = jr_destination_block r)
                        ''relocation intent has invalid source/destination geometry'')
                       (st1\<lparr>sc_tx := (sc_tx st1)(jr_transaction_id r \<mapsto>
                          s\<lparr>tx_intent := True, tx_src := jr_source_block r, tx_dst := jr_destination_block r,
                            tx_blocks := jr_block_count r, tx_inode := jr_inode r\<rparr>)\<rparr>)
               else if \<not> tx_intent s
               then on_out (add_error (journal_record_type_name ty @ '' precedes relocation intent for transaction '' @ t)) st
               else if \<not> same_geometry s r
               then on_out (add_error (journal_record_type_name ty @ '' changes relocation geometry for transaction '' @ t)) st
               else
                 case scan_step_known r t s (sc_out st) of
                   (s', out') \<Rightarrow> st\<lparr>sc_tx := (sc_tx st)(jr_transaction_id r \<mapsto> s'), sc_out := out'\<rparr>)"

definition scan :: "journal_record list \<Rightarrow> scan_state" where
  "scan rs = fold scan_step rs scan_start"

text \<open>The loop over the transactions after the scan. The order in which the hash map is walked is the
  argument \<open>ids\<close>.\<close>

definition final_tx_check :: "(u64 \<rightharpoonup> tx_state) \<Rightarrow> u64 \<Rightarrow> validation_report \<Rightarrow> validation_report" where
  "final_tx_check tx i out =
     (case tx i of None \<Rightarrow> out
      | Some s \<Rightarrow>
          if \<not> tx_intent s then out
          else error_when (tx_released s \<and> \<not> tx_switched s)
                 (''transaction '' @ to_string i @ '' released source without owner switch'')
                (error_when (tx_committed s \<and> \<not> tx_verified s)
                  (''committed transaction '' @ to_string i @ '' has no verified copy'') out))"

definition validate_records :: "(u64 set \<Rightarrow> u64 list) \<Rightarrow> operation_phase \<Rightarrow> journal_record list \<Rightarrow> validation_report" where
  "validate_records walk phase rs =
     (let st = scan rs; ids = walk (dom (sc_tx st));
          out = (sc_out st)\<lparr>vr_transactions := of_nat (length ids)\<rparr>;
          out = fold (final_tx_check (sc_tx st)) ids out;
          out = warn_when (sc_last_checkpoint_phase st \<noteq> 0 \<and> sc_last_checkpoint_phase st \<noteq> ucast (phase_code phase))
                  ''latest checkpoint record phase differs from authoritative journal header phase'' out;
          out = error_when (phase = Phase_complete \<and> sc_filesystem_dirty st)
                  ''journal is complete but last recorded filesystem state is dirty'' out
      in warn_when ((phase = Phase_complete \<or> phase = Phase_filesystem_shrunk) \<and> \<not> sc_filesystem_clean_seen st)
           ''terminal journal phase has no explicit filesystem-clean record'' out)"

definition validate_journal_semantics :: "(u64 set \<Rightarrow> u64 list) \<Rightarrow> journal \<Rightarrow> validation_report io" where
  "validate_journal_semantics walk j =
     (if \<not> js_records_valid (j_status j) then fail_io Errc_corrupt ''journal record integrity is not valid''
      else bind_io (records j) (\<lambda>rs. return_io (validate_records walk (js_phase (j_status j)) rs)))"

datatype recovery_action =
    Recovery_none | Recovery_resume_or_rollback | Recovery_resume_forward | Recovery_finish_forward
  | Recovery_manual_review

record recovery_assessment =
  ra_action :: recovery_action
  ra_safe_to_resume :: bool
  ra_rollback_available :: bool
  ra_reason :: string

fun recovery_action_name :: "recovery_action \<Rightarrow> string" where
  "recovery_action_name Recovery_none = ''none''"
| "recovery_action_name Recovery_resume_or_rollback = ''resume_or_rollback''"
| "recovery_action_name Recovery_resume_forward = ''resume_forward''"
| "recovery_action_name Recovery_finish_forward = ''finish_forward''"
| "recovery_action_name Recovery_manual_review = ''manual_review''"

definition assessment :: "recovery_action \<Rightarrow> bool \<Rightarrow> bool \<Rightarrow> string \<Rightarrow> recovery_assessment" where
  "assessment a safe back why = \<lparr>ra_action = a, ra_safe_to_resume = safe, ra_rollback_available = back, ra_reason = why\<rparr>"

definition assess_recovery :: "journal_status \<Rightarrow> recovery_assessment" where
  "assess_recovery s =
     (if \<not> js_records_valid s \<or> (\<not> js_header_a_valid s \<and> \<not> js_header_b_valid s)
      then assessment Recovery_manual_review False False ''journal integrity validation failed''
      else case js_phase s of
        Phase_prepared \<Rightarrow> assessment Recovery_resume_or_rollback True True
          ''no irreversible filesystem transition has committed''
      | Phase_relocating \<Rightarrow> assessment Recovery_resume_or_rollback True True
          ''relocation is checkpointed before irreversible metadata transitions''
      | Phase_paused \<Rightarrow> assessment Recovery_resume_or_rollback True True
          ''relocation is checkpointed before irreversible metadata transitions''
      | Phase_staged \<Rightarrow> assessment Recovery_resume_forward True True
          ''all relocation copies are verified; metadata has not been switched''
      | Phase_metadata_finalize \<Rightarrow> assessment Recovery_resume_forward True False
          ''metadata finalization has begun; reconcile on-disk move state and finish forward''
      | Phase_metadata_paused \<Rightarrow> assessment Recovery_resume_forward True False
          ''metadata finalization has begun; reconcile on-disk move state and finish forward''
      | Phase_compacted \<Rightarrow> assessment Recovery_resume_forward True False
          ''tail data is compacted; filesystem size has not yet changed''
      | Phase_filesystem_shrunk \<Rightarrow> assessment Recovery_finish_forward True False
          ''filesystem size transition committed; recovery must finish forward''
      | Phase_partition_pending \<Rightarrow> assessment Recovery_finish_forward True False
          ''filesystem size transition committed; recovery must finish forward''
      | Phase_complete \<Rightarrow> assessment Recovery_none False False ''operation is complete''
      | Phase_failed \<Rightarrow> assessment Recovery_manual_review False False
          ''operation is marked failed; inspect the journal and filesystem before writing'')"

section \<open>The protocol\<close>

definition first_intent :: "journal_record list \<Rightarrow> u64 \<Rightarrow> journal_record option" where
  "first_intent past t = find (\<lambda>q. jr_type q = Rec_relocation_intent \<and> jr_transaction_id q = t) past"

definition seen :: "journal_record list \<Rightarrow> journal_record_type \<Rightarrow> u64 \<Rightarrow> bool" where
  "seen past ty t \<longleftrightarrow> (\<exists>q\<in>set past. jr_type q = ty \<and> jr_transaction_id q = t)"

definition same_move :: "journal_record \<Rightarrow> journal_record \<Rightarrow> bool" where
  "same_move q r \<longleftrightarrow> jr_source_block q = jr_source_block r \<and> jr_destination_block q = jr_destination_block r
     \<and> jr_block_count q = jr_block_count r \<and> jr_inode q = jr_inode r"

text \<open>What may follow the records \<open>past\<close>: a move is announced before anything else is said of it and
  keeps its geometry, its copy is verified before its owner is switched or its metadata committed, and
  its source is released only after the switch.\<close>

definition legal_at :: "journal_record list \<Rightarrow> journal_record \<Rightarrow> bool" where
  "legal_at past r \<longleftrightarrow>
     (case jr_type r of
        Rec_checkpoint \<Rightarrow> 1 \<le> jr_aux r \<and> jr_aux r \<le> 11
      | Rec_filesystem_marked_dirty \<Rightarrow> True | Rec_filesystem_marked_clean \<Rightarrow> True
      | Rec_partition_intent \<Rightarrow> True | Rec_partition_committed \<Rightarrow> True | Rec_note \<Rightarrow> True
      | Rec_relocation_intent \<Rightarrow> jr_transaction_id r \<noteq> 0 \<and>
          (case first_intent past (jr_transaction_id r) of
             Some q \<Rightarrow> same_move q r
           | None \<Rightarrow> jr_block_count r \<noteq> 0 \<and> jr_source_block r \<noteq> jr_destination_block r)
      | ty \<Rightarrow> jr_transaction_id r \<noteq> 0
          \<and> (\<exists>q. first_intent past (jr_transaction_id r) = Some q \<and> same_move q r)
          \<and> (ty = Rec_owner_switched \<or> ty = Rec_metadata_committed \<longrightarrow> seen past Rec_copy_verified (jr_transaction_id r))
          \<and> (ty = Rec_source_released \<longrightarrow> seen past Rec_owner_switched (jr_transaction_id r)))"

definition legal :: "journal_record list \<Rightarrow> bool" where
  "legal rs \<longleftrightarrow> (\<forall>i<length rs. legal_at (take i rs) (rs ! i))"

definition dirty_after :: "journal_record list \<Rightarrow> bool" where
  "dirty_after rs = fold (\<lambda>r d. if jr_type r = Rec_filesystem_marked_dirty then True
     else if jr_type r = Rec_filesystem_marked_clean then False else d) rs False"

lemma legal_snoc: "legal (rs @ [r]) \<longleftrightarrow> legal rs \<and> legal_at rs r"
  by (auto simp: legal_def nth_append less_Suc_eq)

lemma find_append: "find P (xs @ ys) = (case find P xs of Some x \<Rightarrow> Some x | None \<Rightarrow> find P ys)"
  by (induction xs) auto

lemma first_intent_snoc:
  "first_intent (rs @ [r]) t = (case first_intent rs t of Some q \<Rightarrow> Some q
     | None \<Rightarrow> if jr_type r = Rec_relocation_intent \<and> jr_transaction_id r = t then Some r else None)"
  by (simp add: first_intent_def find_append split: option.splits)

lemma seen_snoc: "seen (rs @ [r]) ty t \<longleftrightarrow> seen rs ty t \<or> jr_type r = ty \<and> jr_transaction_id r = t"
  by (auto simp: seen_def)

section \<open>The scan follows the protocol\<close>

definition tx_of :: "scan_state \<Rightarrow> u64 \<Rightarrow> tx_state" where
  "tx_of st t = (case sc_tx st t of Some s \<Rightarrow> s | None \<Rightarrow> tx_new)"

definition scan_rel :: "journal_record list \<Rightarrow> scan_state \<Rightarrow> bool" where
  "scan_rel rs st \<longleftrightarrow> sc_filesystem_dirty st = dirty_after rs \<and> (\<forall>t. t \<noteq> 0 \<longrightarrow>
      tx_intent (tx_of st t) = (first_intent rs t \<noteq> None)
    \<and> (\<forall>q. first_intent rs t = Some q \<longrightarrow> same_geometry (tx_of st t) q)
    \<and> tx_verified (tx_of st t) = seen rs Rec_copy_verified t
    \<and> tx_switched (tx_of st t) = seen rs Rec_owner_switched t
    \<and> (tx_released (tx_of st t) \<longrightarrow> tx_switched (tx_of st t))
    \<and> (tx_committed (tx_of st t) \<longrightarrow> tx_verified (tx_of st t)))"

lemma report_updates [simp]:
  "vr_clean (add_error m r) = False" "vr_clean (add_warning m r) = vr_clean r"
  "vr_clean (error_when b m r) = (vr_clean r \<and> \<not> b)" "vr_clean (warn_when b m r) = vr_clean r"
  by (simp_all add: add_error_def add_warning_def error_when_def warn_when_def)

lemma on_out_fields [simp]:
  "sc_out (on_out f s) = f (sc_out s)" "sc_tx (on_out f s) = sc_tx s"
  "sc_filesystem_dirty (on_out f s) = sc_filesystem_dirty s"
  by (simp_all add: on_out_def)

lemma same_geometry_move: "same_geometry s q \<Longrightarrow> same_geometry s r \<longleftrightarrow> same_move q r"
  by (auto simp: same_geometry_def same_move_def)

lemma one_le_word: "(1 :: u64) \<le> x \<longleftrightarrow> x \<noteq> 0"
  by (simp add: linorder_not_less [symmetric])

lemma scan_step_clean:
  assumes "scan_rel rs st"
  shows "vr_clean (sc_out (scan_step r st)) \<longleftrightarrow> vr_clean (sc_out st) \<and> legal_at rs r"
proof -
  let ?t = "jr_transaction_id r"
  have rel: "?t \<noteq> 0 \<Longrightarrow> tx_intent (tx_of st ?t) = (first_intent rs ?t \<noteq> None)
      \<and> (\<forall>q. first_intent rs ?t = Some q \<longrightarrow> same_geometry (tx_of st ?t) q)
      \<and> tx_verified (tx_of st ?t) = seen rs Rec_copy_verified ?t
      \<and> tx_switched (tx_of st ?t) = seen rs Rec_owner_switched ?t"
    using assms by (simp add: scan_rel_def)
  show ?thesis
  proof (cases "?t = 0")
    case True
    then show ?thesis
      by (cases "jr_type r") (auto simp: scan_step_def legal_at_def Let_def not_less not_le one_le_word)
  next
    case False
    then show ?thesis using rel
      by (cases "jr_type r"; cases "first_intent rs ?t")
        (auto simp: scan_step_def scan_step_known_def legal_at_def Let_def tx_of_def [symmetric] not_less not_le one_le_word same_geometry_def same_move_def
          split: prod.splits)
  qed
qed

lemma scan_step_mono: "vr_clean (sc_out (scan_step r st)) \<Longrightarrow> vr_clean (sc_out st)"
  by (cases "jr_type r") (auto simp: scan_step_def scan_step_known_def Let_def split: if_splits option.splits)

lemma dirty_after_snoc:
  "dirty_after (rs @ [r]) = (if jr_type r = Rec_filesystem_marked_dirty then True
     else if jr_type r = Rec_filesystem_marked_clean then False else dirty_after rs)"
  by (simp add: dirty_after_def)

lemma tx_of_upd: "tx_of (st\<lparr>sc_tx := (sc_tx st)(t \<mapsto> s)\<rparr>) u = (if u = t then s else tx_of st u)"
  by (simp add: tx_of_def)

lemma scan_step_tx:
  "tx_of (scan_step r st) u =
     (let s = tx_of st u in
      if u \<noteq> jr_transaction_id r \<or> u = 0 then s
      else case jr_type r of
        Rec_relocation_intent \<Rightarrow> if tx_intent s then s
          else s\<lparr>tx_intent := True, tx_src := jr_source_block r, tx_dst := jr_destination_block r,
                 tx_blocks := jr_block_count r, tx_inode := jr_inode r\<rparr>
      | Rec_copy_verified \<Rightarrow> if tx_intent s \<and> same_geometry s r then s\<lparr>tx_verified := True\<rparr> else s
      | Rec_destination_reserved \<Rightarrow> if tx_intent s \<and> same_geometry s r then s\<lparr>tx_reserved := True\<rparr> else s
      | Rec_owner_switched \<Rightarrow> if tx_intent s \<and> same_geometry s r then s\<lparr>tx_switched := True\<rparr> else s
      | Rec_source_released \<Rightarrow> if tx_intent s \<and> same_geometry s r then s\<lparr>tx_released := True\<rparr> else s
      | Rec_metadata_committed \<Rightarrow> if tx_intent s \<and> same_geometry s r then s\<lparr>tx_committed := True\<rparr> else s
      | _ \<Rightarrow> s)"
  by (cases "jr_type r")
    (auto simp: scan_step_def scan_step_known_def Let_def tx_of_def split: option.splits)

lemma scan_step_dirty:
  "sc_filesystem_dirty (scan_step r st) = (if jr_type r = Rec_filesystem_marked_dirty then True
     else if jr_type r = Rec_filesystem_marked_clean then False else sc_filesystem_dirty st)"
  by (cases "jr_type r") (auto simp: scan_step_def scan_step_known_def Let_def split: option.splits)

lemma scan_rel_step:
  assumes rel: "scan_rel rs st" and legal: "legal_at rs r"
  shows "scan_rel (rs @ [r]) (scan_step r st)"
proof -
  have "tx_intent (tx_of (scan_step r st) t) = (first_intent (rs @ [r]) t \<noteq> None)
    \<and> (\<forall>q. first_intent (rs @ [r]) t = Some q \<longrightarrow> same_geometry (tx_of (scan_step r st) t) q)
    \<and> tx_verified (tx_of (scan_step r st) t) = seen (rs @ [r]) Rec_copy_verified t
    \<and> tx_switched (tx_of (scan_step r st) t) = seen (rs @ [r]) Rec_owner_switched t
    \<and> (tx_released (tx_of (scan_step r st) t) \<longrightarrow> tx_switched (tx_of (scan_step r st) t))
    \<and> (tx_committed (tx_of (scan_step r st) t) \<longrightarrow> tx_verified (tx_of (scan_step r st) t))" if "t \<noteq> 0" for t
  proof -
    have s: "tx_intent (tx_of st t) = (first_intent rs t \<noteq> None)"
      "\<And>q. first_intent rs t = Some q \<Longrightarrow> same_geometry (tx_of st t) q"
      "tx_verified (tx_of st t) = seen rs Rec_copy_verified t" "tx_switched (tx_of st t) = seen rs Rec_owner_switched t"
      "tx_released (tx_of st t) \<longrightarrow> tx_switched (tx_of st t)" "tx_committed (tx_of st t) \<longrightarrow> tx_verified (tx_of st t)"
      using rel that unfolding scan_rel_def by blast+
    show ?thesis
    proof (cases "jr_transaction_id r = t")
      case False
      then show ?thesis using s by (auto simp: scan_step_tx first_intent_snoc seen_snoc split: option.splits)
    next
      case True
      show ?thesis
      proof (cases "first_intent rs t")
        case None
        with s that legal True show ?thesis
          by (cases "jr_type r")
            (simp_all add: scan_step_tx Let_def first_intent_snoc seen_snoc legal_at_def same_geometry_def)
      next
        case (Some a)
        note known = s(1,3-6) s(2) [OF Some] Some
        with that legal True show ?thesis
          by (cases "jr_type r")
            (simp_all add: scan_step_tx Let_def first_intent_snoc seen_snoc legal_at_def same_geometry_def same_move_def)
      qed
    qed
  qed
  moreover have "sc_filesystem_dirty (scan_step r st) = dirty_after (rs @ [r])"
    using rel by (simp add: scan_rel_def scan_step_dirty dirty_after_snoc)
  ultimately show ?thesis unfolding scan_rel_def by blast
qed

lemma scan_legal:
  "(vr_clean (sc_out (scan rs)) \<longleftrightarrow> legal rs) \<and> (legal rs \<longrightarrow> scan_rel rs (scan rs))"
proof (induction rs rule: rev_induct)
  case Nil
  then show ?case
    by (simp add: scan_def scan_start_def report_new_def legal_def scan_rel_def tx_of_def tx_new_def first_intent_def
        seen_def dirty_after_def)
next
  case (snoc r rs)
  have sc: "scan (rs @ [r]) = scan_step r (scan rs)" by (simp add: scan_def)
  show ?case
  proof (cases "legal rs")
    case True
    then show ?thesis using snoc scan_step_clean [of rs "scan rs" r] scan_rel_step [of rs "scan rs" r]
      by (simp add: sc legal_snoc)
  next
    case False
    then have "\<not> vr_clean (sc_out (scan_step r (scan rs)))"
      using snoc scan_step_mono [of r "scan rs"] by blast
    with False show ?thesis by (simp add: sc legal_snoc)
  qed
qed

text \<open>After a clean scan the loop over the transactions finds nothing, in whatever order it runs.\<close>

lemma final_check_clean:
  assumes "scan_rel rs st" and "0 \<notin> dom (sc_tx st)"
  shows "vr_clean (fold (final_tx_check (sc_tx st)) ids out) = vr_clean out"
proof (induction ids arbitrary: out)
  case (Cons i ids)
  have "tx_of st i = s \<and> i \<noteq> 0" if "sc_tx st i = Some s" for s
    using that assms(2) by (auto simp: tx_of_def)
  then have "vr_clean (final_tx_check (sc_tx st) i out) = vr_clean out"
    using assms(1) by (cases "sc_tx st i") (auto simp: final_tx_check_def scan_rel_def)
  then show ?case using Cons.IH by simp
qed simp

lemma final_check_errors: "\<not> vr_clean out \<Longrightarrow> \<not> vr_clean (fold (final_tx_check tx) ids out)"
  by (induction ids arbitrary: out) (auto simp: final_tx_check_def split: option.splits)

lemma scan_step_dom: "0 \<notin> dom (sc_tx st) \<Longrightarrow> 0 \<notin> dom (sc_tx (scan_step r st))"
  by (cases "jr_type r") (auto simp: scan_step_def scan_step_known_def Let_def)

lemma scan_dom: "0 \<notin> dom (sc_tx (scan rs))"
proof (induction rs rule: rev_induct)
  case (snoc r rs)
  then show ?case using scan_step_dom by (simp add: scan_def)
qed (simp add: scan_def scan_start_def)

lemma validate_clean:
  "vr_clean (validate_records walk phase rs) \<longleftrightarrow> legal rs \<and> \<not> (phase = Phase_complete \<and> dirty_after rs)"
proof (cases "legal rs")
  case True
  have c: "vr_clean (sc_out (scan rs))" and rel: "scan_rel rs (scan rs)" using scan_legal [of rs] True by blast+
  have "sc_filesystem_dirty (scan rs) = dirty_after rs" using rel by (simp add: scan_rel_def)
  then show ?thesis
    using True c final_check_clean [OF rel scan_dom] by (simp add: validate_records_def Let_def)
next
  case False
  then have "\<not> vr_clean (sc_out (scan rs))" using scan_legal [of rs] by blast
  with False show ?thesis using final_check_errors by (simp add: validate_records_def Let_def)
qed

section \<open>Properties\<close>

text \<open>C2. The validator decides the relocation protocol: its report is clean exactly when every record is
  allowed after the records before it (announced moves with unchanged geometry, verified copy before
  owner switch and before metadata commit, owner switch before source release, valid checkpoint
  phases, non-zero transaction ids) and a complete journal does not end dirty, in whatever order the
  transaction map is walked.\<close>

theorem validator_decides_protocol:
  "vr_clean (validate_records walk phase rs) \<longleftrightarrow>
     legal rs \<and> \<not> (phase = Phase_complete \<and> dirty_after rs)"
  by (rule validate_clean)

lemma legal_prior:
  assumes "legal rs" "i < length rs"
  shows "legal_at (take i rs) (rs ! i)"
  using assms by (simp add: legal_def)

lemma seen_index:
  "seen (take i rs) ty t \<longleftrightarrow> (\<exists>k<i. k < length rs \<and> jr_type (rs ! k) = ty \<and> jr_transaction_id (rs ! k) = t)"
  unfolding seen_def by (force simp: in_set_conv_nth)

lemma first_intent_index:
  assumes "first_intent (take i rs) t = Some q"
  obtains k where "k < i" "k < length rs" "rs ! k = q" "jr_type q = Rec_relocation_intent" "jr_transaction_id q = t"
  using assms unfolding first_intent_def find_Some_iff by auto

text \<open>C3. No data is given up before it is safe: in a journal with a clean report, every
  source-released record at position \<open>i\<close> has, earlier and in this order, the intent that names the same
  source, destination, length and inode, a verified copy, and an owner switch of its transaction.\<close>

theorem released_after_verified_copy:
  assumes "vr_clean (validate_records walk phase rs)" and "i < length rs" and "jr_type (rs ! i) = Rec_source_released"
  shows "\<exists>a b c. a < b \<and> b < c \<and> c < i
    \<and> jr_type (rs ! a) = Rec_relocation_intent \<and> same_move (rs ! a) (rs ! i)
    \<and> jr_type (rs ! b) = Rec_copy_verified \<and> same_move (rs ! a) (rs ! b)
    \<and> jr_type (rs ! c) = Rec_owner_switched
    \<and> (\<forall>k\<in>{a, b, c}. jr_transaction_id (rs ! k) = jr_transaction_id (rs ! i))"
proof -
  let ?t = "jr_transaction_id (rs ! i)"
  have legal: "legal rs" using assms(1) by (simp add: validate_clean)
  have "seen (take i rs) Rec_owner_switched ?t" and "\<exists>q. first_intent (take i rs) ?t = Some q \<and> same_move q (rs ! i)"
    using legal_prior [OF legal assms(2)] assms(3) by (auto simp: legal_at_def)
  then obtain c where c: "c < i" "jr_type (rs ! c) = Rec_owner_switched" "jr_transaction_id (rs ! c) = ?t"
    by (auto simp: seen_index)
  then have "seen (take c rs) Rec_copy_verified ?t"
    using legal_prior [OF legal, of c] assms(2) by (auto simp: legal_at_def)
  then obtain b where b: "b < c" "jr_type (rs ! b) = Rec_copy_verified" "jr_transaction_id (rs ! b) = ?t"
    by (auto simp: seen_index)
  then obtain q where q: "first_intent (take b rs) ?t = Some q" "same_move q (rs ! b)"
    using legal_prior [OF legal, of b] c assms(2) by (auto simp: legal_at_def)
  obtain a where a: "a < b" "rs ! a = q" "jr_type q = Rec_relocation_intent" "jr_transaction_id q = ?t"
    using first_intent_index [OF q(1)] by metis
  have "take i rs = take b rs @ take (i - b) (drop b rs)"
    using b(1) c(1) by (simp add: take_add [symmetric])
  then have "first_intent (take i rs) ?t = Some q" using q(1) by (simp add: first_intent_def find_append)
  then have "same_move q (rs ! i)"
    using \<open>\<exists>q. first_intent (take i rs) ?t = Some q \<and> same_move q (rs ! i)\<close> by auto
  with a b c q(2) show ?thesis by (intro exI [of _ a] exI [of _ b] exI [of _ c]) simp
qed

definition sample_move :: "journal_record_type \<Rightarrow> journal_record" where
  "sample_move ty = sample_record\<lparr>jr_type := ty\<rparr>"

definition sample_run :: "journal_record list" where
  "sample_run = [sample_move Rec_relocation_intent, sample_move Rec_copy_verified, sample_move Rec_owner_switched,
     sample_move Rec_source_released, sample_move Rec_metadata_committed]"

lemma legal_five: "legal [a, b, c, d, e] \<longleftrightarrow>
    legal_at [] a \<and> legal_at [a] b \<and> legal_at [a, b] c \<and> legal_at [a, b, c] d \<and> legal_at [a, b, c, d] e"
  using legal_snoc [of "[]" a] legal_snoc [of "[a]" b] legal_snoc [of "[a, b]" c] legal_snoc [of "[a, b, c]" d]
    legal_snoc [of "[a, b, c, d]" e]
  by (simp add: legal_def [of "[]"])

theorem released_after_verified_copy_witness:
  "vr_clean (validate_records (\<lambda>_. []) Phase_compacted sample_run) \<and>
   (\<exists>a b c. a < b \<and> b < c \<and> c < 3 \<and> jr_type (sample_run ! b) = Rec_copy_verified)"
proof -
  have c: "vr_clean (validate_records (\<lambda>_. []) Phase_compacted sample_run)"
    by (simp add: validate_clean legal_five sample_run_def sample_move_def sample_record_def
        legal_at_def first_intent_def seen_def same_move_def)
  have "\<exists>a b c. a < b \<and> b < c \<and> c < 3 \<and> jr_type (sample_run ! b) = Rec_copy_verified"
    using released_after_verified_copy [OF c, of 3] by (fastforce simp: sample_run_def sample_move_def)
  with c show ?thesis by blast
qed

end
