(* ===== verification/Fsx_Triple.thy ===== *)
theory Fsx_Triple
  imports Fsx_Device
begin

text \<open>
  Hoare triples for programs over the host, with one postcondition for success and one for every
  kind of failure (an error value, the end of the process or a call that never returns). The rules for the device calls speak
  of the bytes of one device: its current contents and the contents that survive a power loss.
\<close>

definition triple :: "(world \<Rightarrow> bool) \<Rightarrow> 'a io \<Rightarrow> ('a \<Rightarrow> world \<Rightarrow> bool) \<Rightarrow> (world \<Rightarrow> bool) \<Rightarrow> bool" where
  "triple P m Q E \<longleftrightarrow> (\<forall>w r w'. P w \<longrightarrow> m w = (r, w') \<longrightarrow> (case r of Inr x \<Rightarrow> Q x w' | Inl _ \<Rightarrow> E w'))"

lemma tripleI:
  "(\<And>w r w'. P w \<Longrightarrow> m w = (r, w') \<Longrightarrow> (case r of Inr x \<Rightarrow> Q x w' | Inl _ \<Rightarrow> E w')) \<Longrightarrow> triple P m Q E"
  by (simp add: triple_def)

lemma triple_Inr: "triple P m Q E \<Longrightarrow> P w \<Longrightarrow> m w = (Inr x, w') \<Longrightarrow> Q x w'"
  by (fastforce simp: triple_def)

lemma triple_Inl: "triple P m Q E \<Longrightarrow> P w \<Longrightarrow> m w = (Inl e, w') \<Longrightarrow> E w'"
  by (fastforce simp: triple_def)

lemma triple_any: "triple P m (\<lambda>_. E) E \<Longrightarrow> P w \<Longrightarrow> m w = (r, w') \<Longrightarrow> E w'"
  by (cases r) (auto dest: triple_Inr triple_Inl)

lemma triple_conseq:
  "triple P m Q E \<Longrightarrow> (\<And>w. P' w \<Longrightarrow> P w) \<Longrightarrow> (\<And>x w. Q x w \<Longrightarrow> Q' x w) \<Longrightarrow> (\<And>w. E w \<Longrightarrow> E' w) \<Longrightarrow> triple P' m Q' E'"
  by (fastforce simp: triple_def split: sum.splits)

lemma triple_bind:
  assumes "triple P m R E" and "\<And>x. triple (R x) (f x) Q E"
  shows "triple P (bind_io m f) Q E"
proof (rule tripleI)
  fix w r w' assume "P w" and "bind_io m f w = (r, w')"
  from this(2) show "case r of Inr x \<Rightarrow> Q x w' | Inl _ \<Rightarrow> E w'"
  proof (cases rule: bind_io_cases)
    case (failed e)
    then show ?thesis using triple_Inl [OF assms(1) \<open>P w\<close>] by simp
  next
    case (step x w1)
    then have "R x w1" using triple_Inr [OF assms(1) \<open>P w\<close>] by simp
    then show ?thesis using assms(2) step(2) by (auto simp: triple_def)
  qed
qed

lemma triple_return: "(\<And>w. P w \<Longrightarrow> Q x w) \<Longrightarrow> triple P (return_io x) Q E"
  by (simp add: triple_def)

lemma triple_fail: "(\<And>w. P w \<Longrightarrow> E w) \<Longrightarrow> triple P (fail_io c m) Q E"
  by (simp add: triple_def)

lemma triple_if:
  "(b \<Longrightarrow> triple P m Q E) \<Longrightarrow> (\<not> b \<Longrightarrow> triple P m' Q E) \<Longrightarrow> triple P (if b then m else m') Q E"
  by simp

lemma triple_lift: "(\<And>w. P w \<Longrightarrow> E w) \<Longrightarrow> (\<And>x w. P w \<Longrightarrow> r = Inr x \<Longrightarrow> Q x w) \<Longrightarrow> triple P (lift_io r) Q E"
  by (auto simp: triple_def lift_io_def split: sum.splits)

text \<open>Guards and early returns.\<close>

lemma guard_io_cases:
  assumes "(if b then fail_io c m else k) w = (r, w')"
  obtains "b" "r = Inl (Failed (mk_error c m))" "w' = w" | "\<not> b" "k w = (r, w')"
  using assms by (cases b) auto

lemma lift_bind_cases:
  assumes "bind_io (lift_io v) k w = (r, w')"
  obtains e where "v = Inl e" "r = Inl (Failed e)" "w' = w" | x where "v = Inr x" "k x w = (r, w')"
  using assms by (cases v) (auto simp: bind_io_def)

lemma bind_lift_Inr [simp]: "bind_io (lift_io (Inr x)) k = k x"
  by (rule ext) (simp add: bind_io_def)

text \<open>The bytes of a device.\<close>

definition bytes_are :: "block_device \<Rightarrow> (bytes \<Rightarrow> bytes \<Rightarrow> bool) \<Rightarrow> world \<Rightarrow> bool" where
  "bytes_are d J w \<longleftrightarrow> on_file d w \<and> J (data_of d w) (f_durable (w_files w (bd_fd d)))"

lemma triple_write:
  assumes "\<And>D U. J D U \<Longrightarrow> unat off + length b \<le> length D"
    and "\<And>D U k. J D U \<Longrightarrow> k \<le> length b \<Longrightarrow> E (put_bytes (unat off) (take k b) D) U"
    and "\<And>D U. J D U \<Longrightarrow> Q (put_bytes (unat off) b D) U"
  shows "triple (bytes_are d J) (write_exact d off b) (\<lambda>_. bytes_are d Q) (bytes_are d E)"
proof (rule tripleI)
  fix w r w' assume j: "bytes_are d J w" and run: "write_exact d off b w = (r, w')"
  have on: "on_file d w" and jj: "J (data_of d w) (f_durable (w_files w (bd_fd d)))" using j by (simp_all add: bytes_are_def)
  obtain k where k: "k \<le> length b" "data_of d w' = put_bytes (unat off) (take k b) (data_of d w)" "r = Inr () \<longrightarrow> k = length b"
    and rest: "on_file d w'" "f_durable (w_files w' (bd_fd d)) = f_durable (w_files w (bd_fd d))"
    using dev.wr_law [OF on run assms(1) [OF jj]] by blast
  then show "case r of Inr x \<Rightarrow> bytes_are d Q w' | Inl _ \<Rightarrow> bytes_are d E w'"
    using assms(2) [OF jj k(1)] assms(3) [OF jj] by (auto simp: bytes_are_def split: sum.splits)
qed

lemma triple_flush:
  assumes "\<And>D U. J D U \<Longrightarrow> E D U \<and> E D D" and "\<And>D U. J D U \<Longrightarrow> Q D D"
  shows "triple (bytes_are d J) (flush d) (\<lambda>_. bytes_are d Q) (bytes_are d E)"
proof (rule tripleI)
  fix w r w' assume j: "bytes_are d J w" and run: "flush d w = (r, w')"
  then show "case r of Inr x \<Rightarrow> bytes_are d Q w' | Inl _ \<Rightarrow> bytes_are d E w'"
    using dev.fl_law [OF _ run] assms by (auto simp: bytes_are_def split: sum.splits)
qed

lemma triple_read:
  assumes "\<And>D U. J D U \<Longrightarrow> E D U"
    and "\<And>D U out. J D U \<Longrightarrow> out = get_bytes (unat off) n D \<Longrightarrow> length out = n \<Longrightarrow> Q out D U"
  shows "triple (bytes_are d J) (read_exact d off n) (\<lambda>out. bytes_are d (Q out)) (bytes_are d E)"
proof (rule tripleI)
  fix w r w' assume j: "bytes_are d J w" and run: "read_exact d off n w = (r, w')"
  have on: "on_file d w" and jj: "J (data_of d w) (f_durable (w_files w (bd_fd d)))" using j by (simp_all add: bytes_are_def)
  show "case r of Inr x \<Rightarrow> bytes_are d (Q x) w' | Inl _ \<Rightarrow> bytes_are d E w'"
    using dev.rd_law [OF on run] assms(1) [OF jj] assms(2) [OF jj]
    by (auto simp: bytes_are_def split: sum.splits)
qed

lemmas triple_rules = triple_bind triple_write triple_flush triple_read triple_if

text \<open>Programs that change no file.\<close>

definition pure_io :: "'a io \<Rightarrow> bool" where
  "pure_io m \<longleftrightarrow> (\<forall>w r w'. m w = (r, w') \<longrightarrow> w_files w' = w_files w)"

named_theorems pure_intros \<open>programs that change no file\<close>

lemma pure_bind [pure_intros]: "pure_io m \<Longrightarrow> (\<And>x. pure_io (f x)) \<Longrightarrow> pure_io (bind_io m f)"
  by (auto simp: pure_io_def bind_io_def split: prod.splits sum.splits)

lemma pure_simple [pure_intros]:
  "pure_io (return_io x)" "pure_io (fail_io c m)" "pure_io (throw_io e)" "pure_io (lift_io r)" "pure_io (read_exact d off n)"
  by (auto simp: pure_io_def lift_io_def read_exact_spec split: sum.splits)

lemma pure_if [pure_intros]: "pure_io m \<Longrightarrow> pure_io m' \<Longrightarrow> pure_io (if b then m else m')"
  by simp

text \<open>Error values that the caller inspects; the end of the process is not one of them.\<close>

definition try_io :: "'a io \<Rightarrow> 'a result io" where
  "try_io m w = (case m w of
       (Inl (Failed e), w') \<Rightarrow> (Inr (Inl e), w')
     | (Inl (Exited c), w') \<Rightarrow> (Inl (Exited c), w')
     | (Inl Diverged, w') \<Rightarrow> (Inl Diverged, w')
     | (Inr x, w') \<Rightarrow> (Inr (Inr x), w'))"

lemma pure_try [pure_intros]: "pure_io m \<Longrightarrow> pure_io (try_io m)"
  by (auto simp: pure_io_def try_io_def split: prod.splits sum.splits failure.splits)

lemma try_io_Inr: "try_io m w = (Inr (Inr x), w') \<longleftrightarrow> m w = (Inr x, w')"
  by (auto simp: try_io_def split: prod.splits sum.splits failure.splits)

lemma pure_cancel [pure_intros]: "pure_io cancellation_requested"
  by (auto simp: pure_io_def cancellation_requested_def split: list.splits)

lemma pure_step: "pure_io m \<Longrightarrow> m w = (r, w') \<Longrightarrow> w_files w' = w_files w"
  by (simp add: pure_io_def)

lemma triple_pure:
  assumes "pure_io m"
  shows "triple (bytes_are d J) m (\<lambda>_. bytes_are d J) (bytes_are d J)"
proof (rule tripleI)
  fix w r w' assume "bytes_are d J w" and "m w = (r, w')"
  moreover from this have "w_files w' = w_files w" using assms by (simp add: pure_io_def)
  ultimately have "bytes_are d J w'" using on_file_files [of w' w d] by (simp add: bytes_are_def)
  then show "case r of Inr x \<Rightarrow> bytes_are d J w' | Inl _ \<Rightarrow> bytes_are d J w'" by (cases r) simp_all
qed

lemma triple_pure_bind:
  assumes "pure_io m" and "\<And>D U. J D U \<Longrightarrow> E D U" and "\<And>x. triple (bytes_are d J) (f x) Q (bytes_are d E)"
  shows "triple (bytes_are d J) (bind_io m f) Q (bytes_are d E)"
proof (rule triple_bind [where R = "\<lambda>_. bytes_are d J"])
  show "triple (bytes_are d J) m (\<lambda>_. bytes_are d J) (bytes_are d E)"
    by (rule triple_conseq [OF triple_pure [OF assms(1), of d J]]) (use assms(2) in \<open>auto simp: bytes_are_def\<close>)
qed (rule assms(3))

text \<open>Caught errors, facts that hold before a program starts or of what it returns, and programs that work on other files.\<close>

lemma triple_try:
  assumes "triple P m Q E"
  shows "triple P (try_io m) (\<lambda>r w. case r of Inl _ \<Rightarrow> E w | Inr x \<Rightarrow> Q x w) E"
proof (rule tripleI)
  fix w r w' assume p: "P w" and "try_io m w = (r, w')"
  then show "case r of Inl _ \<Rightarrow> E w' | Inr x \<Rightarrow> (case x of Inl _ \<Rightarrow> E w' | Inr x \<Rightarrow> Q x w')"
    using triple_Inr [OF assms p] triple_Inl [OF assms p]
    by (fastforce simp: try_io_def split: prod.splits sum.splits failure.splits)
qed

lemma triple_static:
  assumes "\<And>D U. J D U \<Longrightarrow> A" and "A \<Longrightarrow> triple (bytes_are d J) m Q E"
  shows "triple (bytes_are d J) m Q E"
  using assms by (fastforce simp: triple_def bytes_are_def)

lemma triple_result:
  assumes "triple (bytes_are d J) m (\<lambda>x. bytes_are d (Q x)) E" and "\<And>w x w'. m w = (Inr x, w') \<Longrightarrow> R x"
  shows "triple (bytes_are d J) m (\<lambda>x. bytes_are d (\<lambda>D U. Q x D U \<and> R x)) E"
  using assms by (fastforce simp: triple_def bytes_are_def split: sum.splits)

lemma triple_elsewhere:
  assumes "\<And>w r w'. m w = (r, w') \<Longrightarrow> w_files w' (bd_fd d) = w_files w (bd_fd d)"
  shows "triple (bytes_are d J) m (\<lambda>_. bytes_are d J) (bytes_are d J)"
proof (rule tripleI)
  fix w r w' assume "bytes_are d J w" and "m w = (r, w')"
  then have "bytes_are d J w'" using assms by (simp add: bytes_are_def on_file_def)
  then show "case r of Inr x \<Rightarrow> bytes_are d J w' | Inl _ \<Rightarrow> bytes_are d J w'" by (cases r) simp_all
qed

lemma pure_option: "pure_io a \<Longrightarrow> (\<And>x. pure_io (f x)) \<Longrightarrow> pure_io (case y of None \<Rightarrow> a | Some x \<Rightarrow> f x)"
  by (cases y) simp_all

text \<open>Programs that only read: from files \<open>F\<close> they end with the same files, and what they return satisfies
  a property.\<close>

definition reads :: "(nat \<Rightarrow> file_obj) \<Rightarrow> ('a \<Rightarrow> bool) \<Rightarrow> 'a io \<Rightarrow> bool" where
  "reads F Q m \<longleftrightarrow> (\<forall>w r w'. w_files w = F \<longrightarrow> m w = (r, w') \<longrightarrow> w_files w' = F \<and> (\<forall>x. r = Inr x \<longrightarrow> Q x))"

named_theorems reads_intros \<open>rules for programs that only read\<close>

lemma readsI:
  "(\<And>w r w'. w_files w = F \<Longrightarrow> m w = (r, w') \<Longrightarrow> w_files w' = F \<and> (\<forall>x. r = Inr x \<longrightarrow> Q x)) \<Longrightarrow> reads F Q m"
  unfolding reads_def by blast

lemma readsD:
  assumes "reads F Q m" and "w_files w = F" and "m w = (r, w')"
  shows "w_files w' = F" and "r = Inr x \<Longrightarrow> Q x"
  using assms unfolding reads_def by blast+

lemma reads_bind:
  assumes "reads F P m" and "\<And>x. P x \<Longrightarrow> reads F Q (f x)"
  shows "reads F Q (bind_io m f)"
proof (rule readsI)
  fix w r w' assume w: "w_files w = F" and run: "bind_io m f w = (r, w')"
  from run show "w_files w' = F \<and> (\<forall>x. r = Inr x \<longrightarrow> Q x)"
  proof (cases rule: bind_io_cases)
    case (failed e)
    then show ?thesis using readsD(1) [OF assms(1) w failed(1)] by simp
  next
    case (step x w1)
    have "P x" by (rule readsD(2) [OF assms(1) w step(1) refl])
    from readsD [OF assms(2) [OF this] readsD(1) [OF assms(1) w step(1)] step(2)] show ?thesis by blast
  qed
qed

lemma reads_pure: "pure_io m \<Longrightarrow> reads F (\<lambda>_. True) m"
  by (rule readsI) (simp add: pure_step)

lemma reads_any: "pure_io m \<Longrightarrow> (\<And>x. reads F Q (f x)) \<Longrightarrow> reads F Q (bind_io m f)"
  by (rule reads_bind [OF reads_pure])

lemma reads_simple [reads_intros]:
  "Q x \<Longrightarrow> reads F Q (return_io x)" "reads F Q (fail_io c m)" "(\<And>x. r = Inr x \<Longrightarrow> Q x) \<Longrightarrow> reads F Q (lift_io r)"
  by (rule readsI; auto simp: lift_io_def split: sum.splits)+

lemma reads_if [reads_intros]:
  "(b \<Longrightarrow> reads F Q m) \<Longrightarrow> (\<not> b \<Longrightarrow> reads F Q m') \<Longrightarrow> reads F Q (if b then m else m')"
  by simp

lemma reads_lift_bind: "(\<And>x. r = Inr x \<Longrightarrow> reads F Q (f x)) \<Longrightarrow> reads F Q (bind_io (lift_io r) f)"
  by (rule reads_bind [where P = "\<lambda>x. r = Inr x"]) (rule reads_simple(3))

lemma reads_conseq: "reads F P m \<Longrightarrow> (\<And>x. P x \<Longrightarrow> Q x) \<Longrightarrow> reads F Q m"
  unfolding reads_def by blast

lemma reads_exact:
  "reads F (\<lambda>b. b = get_bytes (unat off) n (f_data (F (bd_fd d))) \<and> length b = n
      \<and> unat off + n \<le> unat (g_size_bytes (bd_geometry d))) (read_exact d off n)"
  by (rule readsI) (drule read_exact_spec, simp)

end
