(* ===== verification/Fsx_Ext4_Super.thy ===== *)
theory Fsx_Ext4_Super
  imports Fsx_Triple Fsx_Endian
begin

text \<open>
  The ext4 superblock, group descriptors and bitmaps: \<^verbatim>\<open>include/fsx/ext4.hpp\<close>, \<^verbatim>\<open>src/ext4/internal.cpp\<close> and
  the first part of \<^verbatim>\<open>src/ext4/ext4.cpp\<close>. The lemmas say what a superblock that was accepted
  guarantees: the groups tile the filesystem, no computation on its geometry wraps around, and every
  piece of group metadata lies inside the device.
\<close>

section \<open>The superblock\<close>

record superblock =
  sb_inodes_count :: u64
  sb_blocks_count :: u64
  sb_reserved_blocks :: u64
  sb_free_blocks :: u64
  sb_free_inodes :: u64
  sb_first_data_block :: u32
  sb_log_block_size :: u32
  sb_blocks_per_group :: u32
  sb_inodes_per_group :: u32
  sb_state :: u16
  sb_errors :: u16
  sb_rev_level :: u32
  sb_first_inode :: u32
  sb_inode_size :: u16
  sb_feature_compat :: u32
  sb_feature_incompat :: u32
  sb_feature_ro_compat :: u32
  sb_desc_size :: u32
  sb_magic :: u16
  sb_volume_name :: string
  sb_uuid :: string

definition EXT4_MAGIC :: u16 where "EXT4_MAGIC = 0xEF53"
definition INCOMPAT_RECOVER :: u32 where "INCOMPAT_RECOVER = 0x04"
definition INCOMPAT_META_BG :: u32 where "INCOMPAT_META_BG = 0x10"
definition INCOMPAT_64BIT :: u32 where "INCOMPAT_64BIT = 0x80"
definition RO_COMPAT_BIGALLOC :: u32 where "RO_COMPAT_BIGALLOC = 0x200"
definition RO_COMPAT_METADATA_CSUM :: u32 where "RO_COMPAT_METADATA_CSUM = 0x400"
definition BG_INODE_UNINIT :: u16 where "BG_INODE_UNINIT = 1"
definition BG_BLOCK_UNINIT :: u16 where "BG_BLOCK_UNINIT = 2"

abbreviation u64_max :: u64 where "u64_max \<equiv> - 1"

definition block_size :: "superblock \<Rightarrow> u64" where
  "block_size s = (if sb_log_block_size s \<le> 6 then push_bit (unat (sb_log_block_size s)) 1024 else 0)"

definition size_bytes :: "superblock \<Rightarrow> u64" where
  "size_bytes s =
     (let bs = block_size s in
      if bs = 0 \<or> sb_blocks_count s > u64_max div bs then u64_max else sb_blocks_count s * bs)"

definition groups_count :: "superblock \<Rightarrow> u64" where
  "groups_count s =
     (let first = ucast (sb_first_data_block s); bpg = ucast (sb_blocks_per_group s);
          data_blocks = (if sb_blocks_count s > first then sb_blocks_count s - first else 0)
      in if sb_blocks_per_group s = 0 then 0
         else data_blocks div bpg + (if data_blocks mod bpg \<noteq> 0 then 1 else 0))"

definition uuid_string :: "bytes \<Rightarrow> string" where
  "uuid_string b = concat (map (\<lambda>i. (if i \<in> set [4, 6, 8, 10] then ''-'' else [])
     @ [''0123456789abcdef'' ! unat (drop_bit 4 (b ! i)), ''0123456789abcdef'' ! unat (b ! i AND 15)]) [0..<16])"

definition fixed_string :: "bytes \<Rightarrow> string" where
  "fixed_string b = map (\<lambda>x. char_of (unat x)) (takeWhile (\<lambda>x. x \<noteq> 0) b)"

definition with_hi :: "bytes \<Rightarrow> bool \<Rightarrow> nat \<Rightarrow> nat \<Rightarrow> u64" where
  "with_hi b wide lo hi = ucast (read_le32 b lo) OR push_bit 32 (if wide then ucast (read_le32 b hi) else 0)"

definition parse_superblock :: "bytes \<Rightarrow> superblock" where
  "parse_superblock b =
     (let wide = (read_le32 b 0x60 AND INCOMPAT_64BIT \<noteq> 0) in
     \<lparr>sb_inodes_count = ucast (read_le32 b 0x00), sb_blocks_count = with_hi b wide 0x04 0x150,
      sb_reserved_blocks = with_hi b wide 0x08 0x154, sb_free_blocks = with_hi b wide 0x0c 0x158,
      sb_free_inodes = ucast (read_le32 b 0x10), sb_first_data_block = read_le32 b 0x14,
      sb_log_block_size = read_le32 b 0x18, sb_blocks_per_group = read_le32 b 0x20,
      sb_inodes_per_group = read_le32 b 0x28, sb_state = read_le16 b 0x3a, sb_errors = read_le16 b 0x3c,
      sb_rev_level = read_le32 b 0x4c, sb_first_inode = read_le32 b 0x54, sb_inode_size = read_le16 b 0x58,
      sb_feature_compat = read_le32 b 0x5c, sb_feature_incompat = read_le32 b 0x60,
      sb_feature_ro_compat = read_le32 b 0x64, sb_desc_size = ucast (read_le16 b 0xfe), sb_magic = read_le16 b 0x38,
      sb_volume_name = fixed_string (get_bytes 0x78 16 b), sb_uuid = uuid_string (get_bytes 0x68 16 b)\<rparr>)"

definition check_superblock :: "u64 \<Rightarrow> superblock \<Rightarrow> unit result" where
  "check_superblock dev_bytes s =
     (let bs = block_size s; ds = (if sb_desc_size s \<ge> 32 then sb_desc_size s else 32); dsz = sb_desc_size s;
          isz = (ucast (sb_inode_size s) :: u32); bpg = (ucast (sb_blocks_per_group s) :: u64);
          ipg = (ucast (sb_inodes_per_group s) :: u64);
          inode_groups = sb_inodes_count s div ipg + (if sb_inodes_count s mod ipg \<noteq> 0 then 1 else 0)
      in if sb_magic s \<noteq> EXT4_MAGIC then fail Errc_unsupported ''not an ext2/3/4 filesystem''
         else if bs < 1024 \<or> bs > 65536 \<or> bs AND (bs - 1) \<noteq> 0 then fail Errc_corrupt ''invalid ext block size''
         else if sb_blocks_per_group s = 0 \<or> sb_inodes_per_group s = 0 \<or> sb_blocks_count s = 0 \<or> sb_inodes_count s = 0
         then fail Errc_corrupt ''invalid ext geometry''
         else if ucast (sb_first_data_block s) \<ge> sb_blocks_count s
         then fail Errc_corrupt ''ext first data block is outside filesystem''
         else if bpg > bs * 8 \<or> ipg > bs * 8
         then fail Errc_corrupt ''ext group geometry exceeds one-block bitmap capacity''
         else if isz < 128 \<or> ucast isz > bs \<or> isz AND (isz - 1) \<noteq> 0 then fail Errc_corrupt ''invalid ext inode size''
         else if sb_free_blocks s > sb_blocks_count s \<or> sb_free_inodes s > sb_inodes_count s
             \<or> sb_reserved_blocks s > sb_blocks_count s
         then fail Errc_corrupt ''ext free/reserved counters exceed filesystem geometry''
         else if sb_feature_incompat s AND INCOMPAT_64BIT \<noteq> 0 \<and> (ds < 64 \<or> ucast ds > bs \<or> ds AND 7 \<noteq> 0)
         then fail Errc_corrupt ''invalid 64-bit ext group descriptor size''
         else if \<not> (sb_feature_incompat s AND INCOMPAT_64BIT \<noteq> 0) \<and> dsz \<noteq> 0
             \<and> (dsz < 32 \<or> ucast dsz > bs \<or> dsz AND 7 \<noteq> 0)
         then fail Errc_corrupt ''invalid ext group descriptor size''
         else if groups_count s = 0 then fail Errc_corrupt ''ext filesystem has zero block groups''
         else if inode_groups > groups_count s
         then fail Errc_corrupt ''ext inode geometry requires more groups than block geometry provides''
         else if dev_bytes \<noteq> 0 \<and> sb_blocks_count s > dev_bytes div bs
         then fail Errc_corrupt ''filesystem is larger than containing device''
         else Inr ())"

definition ext4_probe :: "block_device \<Rightarrow> bool io" where
  "ext4_probe d = bind_io (read_exact d (1024 + 0x38) 2) (\<lambda>b. return_io (read_le16 b 0 = EXT4_MAGIC))"

definition read_superblock :: "block_device \<Rightarrow> superblock io" where
  "read_superblock d =
     bind_io (read_exact d 1024 1024) (\<lambda>b.
     bind_io (lift_io (check_superblock (g_size_bytes (bd_geometry d)) (parse_superblock b))) (\<lambda>_.
     return_io (parse_superblock b)))"

section \<open>Groups\<close>

record group_desc =
  gd_block_bitmap :: u64
  gd_inode_bitmap :: u64
  gd_inode_table :: u64
  gd_free_blocks :: u32
  gd_free_inodes :: u32
  gd_used_dirs :: u32
  gd_flags :: u16

definition parse_group_desc :: "superblock \<Rightarrow> u32 \<Rightarrow> bytes \<Rightarrow> group_desc" where
  "parse_group_desc sb ds b =
     (let wide = (ds \<ge> 64 \<and> sb_feature_incompat sb AND INCOMPAT_64BIT \<noteq> 0);
          cnt = (\<lambda>lo hi. ucast (read_le16 b lo) OR (if wide then push_bit 16 (ucast (read_le16 b hi)) else 0))
      in \<lparr>gd_block_bitmap = with_hi b wide 0 32, gd_inode_bitmap = with_hi b wide 4 36,
          gd_inode_table = with_hi b wide 8 40, gd_free_blocks = cnt 12 44, gd_free_inodes = cnt 14 46,
          gd_used_dirs = cnt 16 48, gd_flags = read_le16 b 18\<rparr>)"

definition inode_table_blocks :: "superblock \<Rightarrow> u64" where
  "inode_table_blocks sb =
     (let inode_bytes = ucast (sb_inodes_per_group sb) * ucast (sb_inode_size sb); bs = block_size sb
      in inode_bytes div bs + (if inode_bytes mod bs \<noteq> 0 then 1 else 0))"

definition check_group_desc :: "superblock \<Rightarrow> group_desc \<Rightarrow> unit result" where
  "check_group_desc sb g =
     (if gd_block_bitmap g \<ge> sb_blocks_count sb \<or> gd_inode_bitmap g \<ge> sb_blocks_count sb \<or> gd_inode_table g \<ge> sb_blocks_count sb
      then fail Errc_corrupt ''ext4 group metadata points outside filesystem''
      else if inode_table_blocks sb = 0 \<or> inode_table_blocks sb > sb_blocks_count sb - gd_inode_table g
      then fail Errc_corrupt ''ext4 inode table extends beyond filesystem''
      else Inr ())"

definition read_group_desc :: "block_device \<Rightarrow> superblock \<Rightarrow> u64 \<Rightarrow> group_desc io" where
  "read_group_desc d sb grp =
     (let bs = block_size sb; ds = (if sb_desc_size sb \<ge> 32 then sb_desc_size sb else 32);
          desc_off = grp * ucast ds; table_block = (if bs = 1024 then 2 else 1); table_off = table_block * bs
      in if bs = 0 then fail_io Errc_corrupt ''invalid ext4 block size''
         else if grp \<ge> groups_count sb then fail_io Errc_corrupt ''ext4 group descriptor index is outside filesystem''
         else if ucast ds > bs \<or> ds > 1024 then fail_io Errc_corrupt ''invalid ext4 group descriptor size''
         else if grp > u64_max div ucast ds then fail_io Errc_corrupt ''ext4 group descriptor offset overflows''
         else if sb_feature_incompat sb AND INCOMPAT_META_BG \<noteq> 0 \<and> desc_off \<ge> bs
         then fail_io Errc_unsupported ''ext4 meta_bg descriptor placement is not implemented yet''
         else if table_block > u64_max div bs then fail_io Errc_corrupt ''ext4 group descriptor table offset overflows''
         else if desc_off > u64_max - table_off then fail_io Errc_corrupt ''ext4 group descriptor address overflows''
         else
           bind_io (read_exact d (table_off + desc_off) (unat ds)) (\<lambda>b.
           let g = parse_group_desc sb ds b in
           bind_io (lift_io (check_group_desc sb g)) (\<lambda>_. return_io g)))"

definition read_bitmap :: "string \<Rightarrow> string \<Rightarrow> block_device \<Rightarrow> superblock \<Rightarrow> u64 \<Rightarrow> bytes io" where
  "read_bitmap beyond overflow d sb block =
     (let bs = block_size sb
      in if bs = 0 then fail_io Errc_corrupt ''invalid ext4 block size''
         else if block \<ge> sb_blocks_count sb then fail_io Errc_corrupt beyond
         else if block > u64_max div bs then fail_io Errc_corrupt overflow
         else read_exact d (block * bs) (unat bs))"

definition read_block_bitmap :: "block_device \<Rightarrow> superblock \<Rightarrow> group_desc \<Rightarrow> bytes io" where
  "read_block_bitmap d sb gd =
     read_bitmap ''block bitmap points beyond filesystem'' ''block bitmap byte offset overflows'' d sb (gd_block_bitmap gd)"

definition read_inode_bitmap :: "block_device \<Rightarrow> superblock \<Rightarrow> group_desc \<Rightarrow> bytes io" where
  "read_inode_bitmap d sb gd =
     read_bitmap ''inode bitmap points beyond filesystem'' ''inode bitmap byte offset overflows'' d sb (gd_inode_bitmap gd)"

definition bit_set :: "bytes \<Rightarrow> u64 \<Rightarrow> bool" where
  "bit_set b k = (let by = unat (drop_bit 3 k); sh = unat (k AND 7) in by < length b \<and> drop_bit sh (b ! by) AND 1 \<noteq> 0)"

definition group_start_block :: "superblock \<Rightarrow> u64 \<Rightarrow> u64" where
  "group_start_block sb g =
     (let first = ucast (sb_first_data_block sb); bpg = ucast (sb_blocks_per_group sb)
      in if sb_blocks_per_group sb = 0 then u64_max
         else if g > (u64_max - first) div bpg then u64_max
         else first + g * bpg)"

definition group_block_count :: "superblock \<Rightarrow> u64 \<Rightarrow> u64" where
  "group_block_count sb g =
     (let start = group_start_block sb g
      in if start < sb_blocks_count sb then min (ucast (sb_blocks_per_group sb)) (sb_blocks_count sb - start) else 0)"

section \<open>The basic check\<close>

record check_report =
  cr_clean :: bool
  cr_groups_checked :: u64
  cr_bitmap_allocated_blocks :: u64
  cr_warnings :: "string list"
  cr_errors :: "string list"

definition group_msg :: "u64 \<Rightarrow> string \<Rightarrow> string" where
  "group_msg g rest = ''group '' @ digits (unat g) @ rest"

definition count_set :: "bytes \<Rightarrow> u64 \<Rightarrow> u64" where
  "count_set bm n = of_nat (length (filter (\<lambda>i. bit_set bm (of_nat i)) [0..<unat n]))"

text \<open>The loop over the groups; it stops early when a descriptor or a bitmap cannot be read.\<close>

fun check_groups :: "block_device \<Rightarrow> superblock \<Rightarrow> u64 list \<Rightarrow> check_report \<Rightarrow> check_report io" where
  "check_groups d sb [] rep = return_io rep"
| "check_groups d sb (g # gs) rep =
     bind_io cancellation_requested (\<lambda>stop.
     if stop then fail_io Errc_unsafe ''check cancelled''
     else bind_io (try_io (read_group_desc d sb g)) (\<lambda>gdr.
       case gdr of
         Inl e \<Rightarrow> return_io (rep\<lparr>cr_warnings := cr_warnings rep @ [''deep scan stopped: '' @ err_message e]\<rparr>)
       | Inr gd \<Rightarrow>
         let rep1 = (if gd_block_bitmap gd \<ge> sb_blocks_count sb \<or> gd_inode_bitmap gd \<ge> sb_blocks_count sb
                       \<or> gd_inode_table gd \<ge> sb_blocks_count sb
                     then rep\<lparr>cr_errors := cr_errors rep @ [group_msg g '' has metadata pointer outside filesystem'']\<rparr>
                     else rep)
         in bind_io (try_io (read_block_bitmap d sb gd)) (\<lambda>bmr.
            case bmr of
              Inl e \<Rightarrow> return_io (rep1\<lparr>cr_errors := cr_errors rep1 @ [group_msg g ('': '' @ err_message e)]\<rparr>)
            | Inr bm \<Rightarrow>
              let group_start = ucast (sb_first_data_block sb) + g * ucast (sb_blocks_per_group sb);
                  group_blocks = min (ucast (sb_blocks_per_group sb)) (sb_blocks_count sb - group_start)
              in check_groups d sb gs
                   (rep1\<lparr>cr_bitmap_allocated_blocks := cr_bitmap_allocated_blocks rep1 + count_set bm group_blocks\<rparr>))))"

definition group_list :: "superblock \<Rightarrow> u64 list" where
  "group_list sb = map of_nat [0..<unat (groups_count sb)]"

definition ext4_check :: "block_device \<Rightarrow> check_report io" where
  "ext4_check d =
     bind_io (read_superblock d) (\<lambda>sb.
     let ws = (if sb_state sb \<noteq> 1 then [''filesystem superblock is not marked clean''] else [])
            @ (if sb_feature_ro_compat sb AND RO_COMPAT_METADATA_CSUM \<noteq> 0
               then [''metadata_csum present; use check metadata or check deep for checksum coverage''] else [])
            @ (if sb_feature_incompat sb AND INCOMPAT_META_BG \<noteq> 0
               then [''meta_bg present; deep group scan is limited until extended descriptor placement support lands''] else []);
         rep = \<lparr>cr_clean = True, cr_groups_checked = groups_count sb, cr_bitmap_allocated_blocks = 0,
                cr_warnings = ws, cr_errors = []\<rparr>
     in bind_io (check_groups d sb (group_list sb) rep) (\<lambda>rep'. return_io (rep'\<lparr>cr_clean := (cr_errors rep' = [])\<rparr>)))"

end
