(* ===== verification/Fsx_Ext4_Groups.thy ===== *)
theory Fsx_Ext4_Groups
  imports Fsx_Ext4_Super
begin

text \<open>
  What an accepted superblock guarantees: all geometry fits the device without wrap-around, the groups
  tile the filesystem, and group metadata lies inside it.
\<close>

section \<open>Geometry as natural numbers\<close>

definition sb_ok :: "superblock \<Rightarrow> bool" where
  "sb_ok s \<longleftrightarrow> 0 < unat (sb_blocks_per_group s) \<and> 0 < unat (sb_inodes_per_group s)
     \<and> unat (sb_first_data_block s) < unat (sb_blocks_count s)
     \<and> 1024 \<le> unat (block_size s) \<and> unat (block_size s) \<le> 65536
     \<and> unat (sb_blocks_per_group s) \<le> 8 * unat (block_size s) \<and> unat (sb_inodes_per_group s) \<le> 8 * unat (block_size s)
     \<and> 128 \<le> unat (sb_inode_size s) \<and> unat (sb_inode_size s) \<le> unat (block_size s)"

lemma block_size_le: "unat (block_size s) \<le> 65536"
proof (cases "sb_log_block_size s \<le> 6")
  case True
  then have "unat (sb_log_block_size s) \<le> 6" by (simp add: word_le_nat_alt)
  then consider "unat (sb_log_block_size s) = 0" | "unat (sb_log_block_size s) = 1" | "unat (sb_log_block_size s) = 2"
    | "unat (sb_log_block_size s) = 3" | "unat (sb_log_block_size s) = 4" | "unat (sb_log_block_size s) = 5"
    | "unat (sb_log_block_size s) = 6" by linarith
  then show ?thesis using True by cases (simp_all add: block_size_def)
qed (simp add: block_size_def)

lemma check_superblock_ok:
  assumes "check_superblock n s = Inr ()"
  shows "sb_ok s" and "n \<noteq> 0 \<Longrightarrow> unat (sb_blocks_count s) \<le> unat n div unat (block_size s)"
proof -
  let ?bs = "block_size s"
  have c: "\<not> ?bs < 1024" "sb_blocks_per_group s \<noteq> 0" "sb_inodes_per_group s \<noteq> 0"
    "\<not> ucast (sb_first_data_block s) \<ge> sb_blocks_count s" "\<not> (ucast (sb_blocks_per_group s) :: u64) > ?bs * 8"
    "\<not> (ucast (sb_inodes_per_group s) :: u64) > ?bs * 8" "\<not> (ucast (sb_inode_size s) :: u32) < 128"
    "\<not> ucast (ucast (sb_inode_size s) :: u32) > ?bs" "\<not> (n \<noteq> 0 \<and> sb_blocks_count s > n div ?bs)"
    using assms by (simp_all add: check_superblock_def Let_def split: if_split_asm)
  have "unat (?bs * 8) = unat ?bs * 8" using block_size_le [of s] unat_mult_le [of ?bs 8] by simp
  then show "sb_ok s"
    using c(1-8) block_size_le [of s]
    by (simp add: sb_ok_def word_less_nat_alt word_le_nat_alt word_nat not_less not_le unat_gt_0)
  assume "n \<noteq> 0"
  then show "unat (sb_blocks_count s) \<le> unat n div unat (block_size s)"
    using c(9) by (simp add: word_less_nat_alt unat_div not_less)
qed

lemma read_superblock_ok:
  assumes "read_superblock d w = (Inr sb, w')"
  shows "sb_ok sb" and "check_superblock (g_size_bytes (bd_geometry d)) sb = Inr ()"
    and "sb = parse_superblock (get_bytes 1024 1024 (data_of d w))" and "w_files w' = w_files w"
proof -
  from assms obtain b w1 where rd: "read_exact d 1024 1024 w = (Inr b, w1)"
    and rest: "bind_io (lift_io (check_superblock (g_size_bytes (bd_geometry d)) (parse_superblock b)))
        (\<lambda>_. return_io (parse_superblock b)) w1 = (Inr sb, w')"
    unfolding read_superblock_def by (rule bind_io_OkE)
  from rest have c: "check_superblock (g_size_bytes (bd_geometry d)) (parse_superblock b) = Inr ()"
    and sb: "sb = parse_superblock b" and w': "w' = w1"
    by (auto elim: lift_bind_cases)
  show "check_superblock (g_size_bytes (bd_geometry d)) sb = Inr ()" using c sb by simp
  then show "sb_ok sb" by (rule check_superblock_ok(1))
  show "sb = parse_superblock (get_bytes 1024 1024 (data_of d w))" "w_files w' = w_files w"
    using read_exact_spec [OF rd] sb w' by auto
qed

section \<open>Groups\<close>

definition data_blocks :: "superblock \<Rightarrow> nat" where
  "data_blocks s = unat (sb_blocks_count s) - unat (sb_first_data_block s)"

lemma div_up: "0 < k \<Longrightarrow> n div k + (if n mod k \<noteq> 0 then 1 else 0) = (n + k - 1) div (k :: nat)"
proof (cases "n mod k = 0")
  case True
  assume "0 < k"
  then obtain q where "n = k * q" using True by blast
  moreover have "(k * q + k - 1) div k = q + (k - 1) div k" using \<open>0 < k\<close> div_mult_self2 [of k "k - 1" q] by (simp add: add.commute)
  ultimately show ?thesis using \<open>0 < k\<close> by simp
next
  case False
  assume "0 < k"
  have "n mod k - 1 < k" using mod_less_divisor [OF \<open>0 < k\<close>, of n] by linarith
  then have "(k * (n div k + 1) + (n mod k - 1)) div k = n div k + 1"
    using \<open>0 < k\<close> by (subst div_mult_self4) simp_all
  moreover have "n + k - 1 = k * (n div k + 1) + (n mod k - 1)"
    using False mult_div_mod_eq [of k n] unfolding distrib_left mult_1_right by arith
  ultimately show ?thesis using False by simp
qed

lemma groups_count_nat:
  assumes "sb_ok s"
  shows "unat (groups_count s) = (data_blocks s + unat (sb_blocks_per_group s) - 1) div unat (sb_blocks_per_group s)"
proof -
  let ?f = "ucast (sb_first_data_block s) :: u64" and ?k = "ucast (sb_blocks_per_group s) :: u64"
  let ?n = "sb_blocks_count s - ?f"
  have u: "unat ?f = unat (sb_first_data_block s)" "unat ?k = unat (sb_blocks_per_group s)" by (simp_all add: word_nat)
  have lt: "?f < sb_blocks_count s" using assms u by (simp add: sb_ok_def word_less_nat_alt)
  have n: "unat ?n = data_blocks s" using lt u by (simp add: data_blocks_def unat_sub_le)
  have k0: "0 < unat ?k" "sb_blocks_per_group s \<noteq> 0" using assms u by (auto simp: sb_ok_def)
  have bound: "data_blocks s div unat ?k + (if data_blocks s mod unat ?k \<noteq> 0 then 1 else 0) < 2 ^ 64"
  proof -
    have d: "data_blocks s < 2 ^ 64" using n unat_lt_64 [of ?n] by simp
    show ?thesis
    proof (cases "unat ?k = 1")
      case False
      then have "data_blocks s div unat ?k \<le> data_blocks s div 2" using k0(1) by (intro div_le_mono2) simp_all
      moreover have "data_blocks s div 2 + 1 < 2 ^ 64" using d by simp
      ultimately show ?thesis by (cases "data_blocks s mod unat ?k = 0") simp_all
    qed (use d in simp)
  qed
  have mz: "(?n mod ?k = 0) = (data_blocks s mod unat ?k = 0)"
    by (simp add: n [symmetric] unat_mod [symmetric] unat_eq_zero)
  have "unat (?n div ?k + (if ?n mod ?k \<noteq> 0 then 1 else 0)) = data_blocks s div unat ?k + (if data_blocks s mod unat ?k \<noteq> 0 then 1 else 0)"
    using bound by (auto simp: mz unat_div n unat_add_le)
  then show ?thesis using lt k0 div_up [OF k0(1)] u by (simp add: groups_count_def Let_def)
qed

lemma tile:
  assumes "0 < (k :: nat)"
  shows "concat (map (\<lambda>i. [a + i * k..<min (a + i * k + k) b]) [0..<n]) = [a..<min (a + n * k) b]"
proof (induction n)
  case (Suc n)
  have "[a..<min (a + n * k) b] @ [a + n * k..<min (a + n * k + k) b] = [a..<min (a + Suc n * k) b]"
  proof (cases "a + n * k \<le> b")
    case True
    then show ?thesis using upt_add_eq_append [of a "a + n * k" "min (a + n * k + k) b - (a + n * k)"]
      by (simp add: algebra_simps min_def)
  qed (simp add: min_def algebra_simps)
  with Suc show ?case by simp
qed simp

lemma group_start_nat:
  assumes "sb_ok s" and "g < groups_count s"
  shows "unat (group_start_block s g) = unat (sb_first_data_block s) + unat g * unat (sb_blocks_per_group s)"
    and "unat (group_start_block s g) < unat (sb_blocks_count s)"
proof -
  let ?f = "unat (sb_first_data_block s)" and ?k = "unat (sb_blocks_per_group s)"
  have k: "0 < ?k" "sb_blocks_per_group s \<noteq> 0" and fb: "?f < unat (sb_blocks_count s)" using assms(1) by (auto simp: sb_ok_def)
  have "unat g < (data_blocks s + ?k - 1) div ?k" using assms by (simp add: word_less_nat_alt groups_count_nat)
  then have "(unat g + 1) * ?k \<le> data_blocks s + ?k - 1" using k(1) by (simp add: less_eq_div_iff_mult_less_eq Suc_le_eq [symmetric])
  then have lt: "?f + unat g * ?k < unat (sb_blocks_count s)" using fb k(1) by (simp add: data_blocks_def)
  have b64: "unat (sb_blocks_count s) < 2 ^ 64" using unat_lt_64 [of "sb_blocks_count s"] by simp
  have u: "unat (ucast (sb_first_data_block s) :: u64) = ?f" "unat (ucast (sb_blocks_per_group s) :: u64) = ?k" by (simp_all add: word_nat)
  have m: "unat (g * ucast (sb_blocks_per_group s)) = unat g * ?k" using lt b64 u by (subst unat_mult_le) simp_all
  have f32: "?f < 2 ^ 32" using unsigned_less [of "sb_first_data_block s", where 'a = nat] by simp
  have "\<not> g > (u64_max - ucast (sb_first_data_block s)) div ucast (sb_blocks_per_group s)"
  proof -
    have "unat (u64_max - ucast (sb_first_data_block s)) = 2 ^ 64 - 1 - ?f"
      using u f32 by (subst unat_sub_le) (simp_all add: word_le_nat_alt unsigned_minus_1_eq_mask mask_eq_exp_minus_1)
    then have "unat ((u64_max - ucast (sb_first_data_block s)) div ucast (sb_blocks_per_group s)) = (2 ^ 64 - 1 - ?f) div ?k"
      by (simp add: unat_div u)
    moreover have "unat g \<le> (2 ^ 64 - 1 - ?f) div ?k"
      using lt b64 k(1) by (simp add: less_eq_div_iff_mult_less_eq)
    ultimately show ?thesis by (simp add: word_less_nat_alt not_less)
  qed
  then have "group_start_block s g = ucast (sb_first_data_block s) + g * ucast (sb_blocks_per_group s)"
    using k(2) by (simp add: group_start_block_def Let_def)
  moreover have "unat (ucast (sb_first_data_block s) + g * ucast (sb_blocks_per_group s) :: u64) = ?f + unat g * ?k"
    using lt b64 u m by (subst unat_add_le) simp_all
  ultimately show "unat (group_start_block s g) = ?f + unat g * ?k" by simp
  then show "unat (group_start_block s g) < unat (sb_blocks_count s)" using lt by simp
qed

lemma group_count_nat:
  assumes "sb_ok s" and "g < groups_count s"
  shows "unat (group_block_count s g) = min (unat (sb_blocks_per_group s)) (unat (sb_blocks_count s) - unat (group_start_block s g))"
proof -
  have lt: "group_start_block s g < sb_blocks_count s" using group_start_nat(2) [OF assms] by (simp add: word_less_nat_alt)
  then have "unat (sb_blocks_count s - group_start_block s g) = unat (sb_blocks_count s) - unat (group_start_block s g)"
    by (intro unat_sub_le) simp
  with lt show ?thesis
    by (auto simp: group_block_count_def Let_def min_def word_le_nat_alt word_nat unat_sub_le)
qed

text \<open>The block numbers of a group.\<close>

definition group_blocks :: "superblock \<Rightarrow> u64 \<Rightarrow> nat list" where
  "group_blocks s g = [unat (group_start_block s g)..<unat (group_start_block s g) + unat (group_block_count s g)]"

lemma group_list_nth: "set (group_list s) = {g. g < groups_count s}"
proof -
  have "g \<in> set (group_list s)" if "g < groups_count s" for g
    using that by (auto simp: group_list_def word_less_nat_alt image_iff intro!: bexI [of _ "unat g"])
  moreover have "g < groups_count s" if g: "g \<in> set (group_list s)" for g
  proof -
    obtain i where i: "g = of_nat i" "i < unat (groups_count s)"
      using g by (auto simp: group_list_def)
    moreover have "i < 2 ^ 64" using i(2) unat_lt_64 [of "groups_count s"] by simp
    ultimately show ?thesis by (simp add: word_less_nat_alt unat_of_nat take_bit_nat_eq_self)
  qed
  ultimately show ?thesis by auto
qed

lemma groups_tile:
  assumes "sb_ok s"
  shows "concat (map (group_blocks s) (group_list s)) = [unat (sb_first_data_block s)..<unat (sb_blocks_count s)]"
proof -
  let ?f = "unat (sb_first_data_block s)" and ?k = "unat (sb_blocks_per_group s)" and ?n = "unat (groups_count s)"
  have k: "0 < ?k" using assms by (simp add: sb_ok_def)
  have b: "group_blocks s (of_nat i) = [?f + i * ?k..<min (?f + i * ?k + ?k) (unat (sb_blocks_count s))]" if "i < ?n" for i
  proof -
    have i: "unat (of_nat i :: u64) = i"
      using that unat_lt_64 [of "groups_count s"] by (simp add: unat_of_nat take_bit_nat_eq_self)
    then have g: "(of_nat i :: u64) < groups_count s" using that by (simp add: word_less_nat_alt)
    show ?thesis using group_start_nat [OF assms g] group_count_nat [OF assms g] i
      by (simp add: group_blocks_def min_def)
  qed
  have "concat (map (group_blocks s) (group_list s)) = concat (map (\<lambda>i. [?f + i * ?k..<min (?f + i * ?k + ?k) (unat (sb_blocks_count s))]) [0..<?n])"
    unfolding group_list_def map_map by (intro arg_cong [of _ _ concat] map_cong) (simp_all add: b)
  also have "\<dots> = [?f..<min (?f + ?n * ?k) (unat (sb_blocks_count s))]" by (rule tile [OF k])
  finally have "concat (map (group_blocks s) (group_list s)) = \<dots>" .
  moreover have "unat (sb_blocks_count s) \<le> ?f + ?n * ?k"
  proof -
    have "data_blocks s + ?k - 1 < ?k * ((data_blocks s + ?k - 1) div ?k) + ?k" using dividend_less_times_div [OF k] by (simp add: add.commute)
    then show ?thesis using k by (simp add: groups_count_nat [OF assms] data_blocks_def mult.commute)
  qed
  ultimately show ?thesis by (simp add: min_absorb2)
qed

lemma size_bytes_nat:
  assumes "sb_ok s" and "unat (sb_blocks_count s) \<le> unat (n :: u64) div unat (block_size s)"
  shows "unat (size_bytes s) = unat (sb_blocks_count s) * unat (block_size s)"
    and "unat (sb_blocks_count s) * unat (block_size s) \<le> unat n"
proof -
  have b: "0 < unat (block_size s)" using assms(1) by (simp add: sb_ok_def)
  show le: "unat (sb_blocks_count s) * unat (block_size s) \<le> unat n"
    using assms(2) b by (simp add: less_eq_div_iff_mult_less_eq)
  then have lt: "unat (sb_blocks_count s) * unat (block_size s) < 2 ^ 64" using unat_lt_64 [of n] by simp
  then have "unat (sb_blocks_count s) \<le> (2 ^ 64 - 1) div unat (block_size s)"
    using b by (simp add: less_eq_div_iff_mult_less_eq)
  then have "\<not> sb_blocks_count s > u64_max div block_size s"
    by (simp add: word_less_nat_alt unat_div unsigned_minus_1_eq_mask mask_eq_exp_minus_1 not_less)
  then show "unat (size_bytes s) = unat (sb_blocks_count s) * unat (block_size s)"
    using b lt by (auto simp: size_bytes_def Let_def unat_mult_le)
qed

section \<open>Properties\<close>

text \<open>C18. A superblock that \<^verbatim>\<open>read_superblock\<close> accepts is sound: the filesystem fits the device and its byte
  size is computed without wrap-around, the block groups tile the blocks from the first data block to the
  end, without gaps and overlaps, and every block of a group has a bit in the group's one-block bitmap.\<close>

theorem ext4_superblock_sound:
  assumes "read_superblock d w = (Inr sb, w')" and "g_size_bytes (bd_geometry d) \<noteq> 0"
  shows "unat (size_bytes sb) = unat (sb_blocks_count sb) * unat (block_size sb)
    \<and> unat (sb_blocks_count sb) * unat (block_size sb) \<le> unat (g_size_bytes (bd_geometry d))
    \<and> concat (map (group_blocks sb) (group_list sb)) = [unat (sb_first_data_block sb)..<unat (sb_blocks_count sb)]
    \<and> list_all (\<lambda>g. length (group_blocks sb g) \<le> 8 * unat (block_size sb)) (group_list sb)"
proof -
  note ok = read_superblock_ok(1) [OF assms(1)]
  have "length (group_blocks sb g) \<le> 8 * unat (block_size sb)" if "g < groups_count sb" for g
    using group_count_nat [OF ok that] ok by (simp add: group_blocks_def sb_ok_def min_def)
  then show ?thesis
    using size_bytes_nat [OF ok check_superblock_ok(2) [OF read_superblock_ok(2) [OF assms(1)] assms(2)]] groups_tile [OF ok]
    by (simp add: list_all_iff group_list_nth)
qed

text \<open>The descriptor of a group in the disk contents.\<close>

definition desc_of :: "superblock \<Rightarrow> bytes \<Rightarrow> u64 \<Rightarrow> group_desc" where
  "desc_of sb D g =
     (let ds = (if sb_desc_size sb \<ge> 32 then sb_desc_size sb else 32)
      in parse_group_desc sb ds
           (get_bytes (unat ((if block_size sb = 1024 then 2 else 1) * block_size sb + g * ucast ds)) (unat ds) D))"

lemma read_group_desc_ok:
  assumes "read_group_desc d sb g w = (Inr gd, w')"
  shows "check_group_desc sb gd = Inr ()" and "g < groups_count sb" and "w_files w' = w_files w"
    and "gd = desc_of sb (data_of d w) g"
proof -
  let ?ds = "if sb_desc_size sb \<ge> 32 then sb_desc_size sb else 32"
  let ?off = "(if block_size sb = 1024 then 2 else 1) * block_size sb + g * ucast ?ds"
  have g: "g < groups_count sb" and run: "bind_io (read_exact d ?off (unat ?ds)) (\<lambda>b. let g = parse_group_desc sb ?ds b in
           bind_io (lift_io (check_group_desc sb g)) (\<lambda>_. return_io g)) w = (Inr gd, w')"
    using assms unfolding read_group_desc_def Let_def by (auto simp: not_le split: if_split_asm)
  from run obtain b w1 where rd: "read_exact d ?off (unat ?ds) w = (Inr b, w1)"
    and rest: "bind_io (lift_io (check_group_desc sb (parse_group_desc sb ?ds b))) (\<lambda>_. return_io (parse_group_desc sb ?ds b)) w1 = (Inr gd, w')"
    unfolding Let_def by (rule bind_io_OkE)
  show "check_group_desc sb gd = Inr ()" "w_files w' = w_files w" "gd = desc_of sb (data_of d w) g"
    using rest read_exact_spec [OF rd] by (auto simp: desc_of_def Let_def elim: lift_bind_cases)
  show "g < groups_count sb" by (rule g)
qed

text \<open>The byte offset of a block of an accepted filesystem.\<close>

lemma block_offset:
  assumes "sb_ok s" and "unat (sb_blocks_count s) * unat (block_size s) \<le> n" and "n < 2 ^ 64" and "b < sb_blocks_count s"
  shows "unat (b * block_size s) = unat b * unat (block_size s)" and "(unat b + 1) * unat (block_size s) \<le> n"
proof -
  have "unat b + 1 \<le> unat (sb_blocks_count s)" using assms(4) by (simp add: word_less_nat_alt)
  then have "(unat b + 1) * unat (block_size s) \<le> unat (sb_blocks_count s) * unat (block_size s)" by (rule mult_le_mono1)
  then show le: "(unat b + 1) * unat (block_size s) \<le> n" using assms(2) by simp
  then show "unat (b * block_size s) = unat b * unat (block_size s)" using assms(3) by (intro unat_mult_le) simp
qed

lemma inode_table_nat:
  assumes "sb_ok s"
  shows "unat (inode_table_blocks s) = (unat (sb_inodes_per_group s) * unat (sb_inode_size s) + unat (block_size s) - 1) div unat (block_size s)"
proof -
  let ?i = "ucast (sb_inodes_per_group s) * ucast (sb_inode_size s) :: u64" and ?n = "unat (sb_inodes_per_group s) * unat (sb_inode_size s)"
  have b: "0 < unat (block_size s)" "unat (sb_inodes_per_group s) \<le> 524288" "unat (sb_inode_size s) \<le> 65536"
    using assms block_size_le [of s] by (simp_all add: sb_ok_def)
  have "?n \<le> 524288 * 65536" by (rule mult_le_mono [OF b(2,3)])
  then have n: "unat ?i = ?n" "?n < 2 ^ 36" by (simp_all add: unat_mult_le word_nat)
  have mz: "(?i mod block_size s = 0) = (?n mod unat (block_size s) = 0)"
    by (simp add: n(1) [symmetric] unat_mod [symmetric] unat_eq_zero)
  have "?n div unat (block_size s) < 2 ^ 36" using n(2) by (rule le_less_trans [OF div_le_dividend])
  then have "unat (?i div block_size s) + 1 < 2 ^ 64" using n(1) by (simp add: unat_div)
  then have "unat (?i div block_size s + (if ?i mod block_size s \<noteq> 0 then 1 else 0))
      = ?n div unat (block_size s) + (if ?n mod unat (block_size s) \<noteq> 0 then 1 else 0)"
    by (simp add: mz unat_add_le) (simp add: unat_div n(1))
  then show ?thesis using div_up [OF b(1)] by (simp add: inode_table_blocks_def Let_def)
qed

text \<open>C19. Group metadata stays inside the device: for an accepted superblock and a descriptor that was
  read, the two bitmaps and the whole inode table lie inside the filesystem and hence the device, the
  inode table is large enough for the inodes of a group, and the byte offsets do not wrap around.\<close>

theorem ext4_group_metadata_in_bounds:
  assumes "read_superblock d w = (Inr sb, w1)" and "g_size_bytes (bd_geometry d) \<noteq> 0"
    and "read_group_desc d sb g w2 = (Inr gd, w3)"
  shows "list_all (\<lambda>(b, n). unat (b * block_size sb) = unat b * unat (block_size sb)
        \<and> unat b + n \<le> unat (sb_blocks_count sb)
        \<and> (unat b + n) * unat (block_size sb) \<le> unat (g_size_bytes (bd_geometry d)))
      [(gd_block_bitmap gd, 1), (gd_inode_bitmap gd, 1), (gd_inode_table gd, unat (inode_table_blocks sb))]
    \<and> unat (sb_inodes_per_group sb) * unat (sb_inode_size sb) \<le> unat (inode_table_blocks sb) * unat (block_size sb)"
proof -
  let ?n = "unat (g_size_bytes (bd_geometry d))" and ?bs = "unat (block_size sb)" and ?N = "unat (sb_blocks_count sb)"
  note ok = read_superblock_ok(1) [OF assms(1)]
  have fits: "?N * ?bs \<le> ?n"
    using size_bytes_nat(2) [OF ok check_superblock_ok(2) [OF read_superblock_ok(2) [OF assms(1)] assms(2)]] .
  have n64: "?n < 2 ^ 64" using unat_lt_64 [of "g_size_bytes (bd_geometry d)"] by simp
  have c: "gd_block_bitmap gd < sb_blocks_count sb" "gd_inode_bitmap gd < sb_blocks_count sb" "gd_inode_table gd < sb_blocks_count sb"
    "inode_table_blocks sb \<le> sb_blocks_count sb - gd_inode_table gd"
    using read_group_desc_ok(1) [OF assms(3)] by (auto simp: check_group_desc_def not_le split: if_split_asm)
  have t: "unat (gd_inode_table gd) + unat (inode_table_blocks sb) \<le> ?N"
    using c(3,4) by (simp add: word_le_nat_alt word_less_nat_alt unat_sub_le)
  then have "(unat (gd_inode_table gd) + unat (inode_table_blocks sb)) * ?bs \<le> ?n"
    using fits mult_le_mono1 [OF t, of ?bs] by linarith
  moreover have "unat (sb_inodes_per_group sb) * unat (sb_inode_size sb) \<le> unat (inode_table_blocks sb) * ?bs"
  proof -
    have "0 < ?bs" using ok by (simp add: sb_ok_def)
    from dividend_less_times_div [OF this, of "unat (sb_inodes_per_group sb) * unat (sb_inode_size sb) + ?bs - 1"] this
    show ?thesis by (simp add: inode_table_nat [OF ok] mult.commute)
  qed
  ultimately show ?thesis
    using t c(1-3) block_offset [OF ok fits n64] by (simp add: word_less_nat_alt Suc_le_eq)
qed

section \<open>A sample filesystem\<close>

text \<open>A filesystem of 64 blocks of 1024 bytes in one group.\<close>

definition sample_super :: bytes where
  "sample_super = write_le16 (write_le16 (write_le16 (write_le32 (write_le32 (write_le32 (write_le32 (write_le32
     (replicate 1024 0) 0x00 8) 0x04 64) 0x14 1) 0x20 8192) 0x28 8) 0x38 0xEF53) 0x3a 1) 0x58 128"

definition sample_desc :: bytes where
  "sample_desc = write_le32 (write_le32 (write_le32 (replicate 32 0) 0 3) 4 4) 8 5"

definition sample_ext4 :: bytes where
  "sample_ext4 = put_bytes 2048 sample_desc (put_bytes 1024 sample_super (replicate 65536 0))"

lemma read_zero [simp]:
  "off + 2 \<le> n \<Longrightarrow> read_le16 (replicate n 0) off = 0" "off + 4 \<le> n \<Longrightarrow> read_le32 (replicate n 0) off = 0"
proof -
  have "off + m \<le> n \<Longrightarrow> read_le_wide m (replicate n 0) off = 0" for m by (induction m) auto
  then show "off + 2 \<le> n \<Longrightarrow> read_le16 (replicate n 0) off = 0" "off + 4 \<le> n \<Longrightarrow> read_le32 (replicate n 0) off = 0"
    by (simp_all add: read_le16_def read_le32_def)
qed

lemma sample_super_fields:
  "read_le32 sample_super 0 = 8" "read_le32 sample_super 4 = 64" "read_le32 sample_super 8 = 0" "read_le32 sample_super 12 = 0"
  "read_le32 sample_super 16 = 0" "read_le32 sample_super 20 = 1" "read_le32 sample_super 24 = 0"
  "read_le32 sample_super 32 = 8192" "read_le32 sample_super 40 = 8" "read_le16 sample_super 56 = 0xEF53"
  "read_le16 sample_super 58 = 1" "read_le16 sample_super 88 = 128" "read_le32 sample_super 92 = 0" "read_le32 sample_super 96 = 0"
  "read_le32 sample_super 100 = 0" "read_le16 sample_super 254 = 0" "length sample_super = 1024"
  by (simp_all add: sample_super_def buf_simps)

lemma sample_desc_fields:
  "read_le32 sample_desc 0 = 3" "read_le32 sample_desc 4 = 4" "read_le32 sample_desc 8 = 5" "length sample_desc = 32"
  by (simp_all add: sample_desc_def buf_simps)

definition sample_sb :: superblock where
  "sample_sb = parse_superblock sample_super"

lemma sample_sb_fields:
  "sb_inodes_count sample_sb = 8" "sb_blocks_count sample_sb = 64" "sb_first_data_block sample_sb = 1"
  "sb_log_block_size sample_sb = 0" "sb_blocks_per_group sample_sb = 8192" "sb_inodes_per_group sample_sb = 8"
  "sb_inode_size sample_sb = 128" "sb_feature_incompat sample_sb = 0" "sb_desc_size sample_sb = 0" "sb_magic sample_sb = EXT4_MAGIC"
  "sb_free_blocks sample_sb = 0" "sb_free_inodes sample_sb = 0" "sb_reserved_blocks sample_sb = 0" "block_size sample_sb = 1024"
  "sb_feature_ro_compat sample_sb = 0"  "sb_state sample_sb = 1"
  by (simp_all add: sample_sb_def parse_superblock_def with_hi_def sample_super_fields EXT4_MAGIC_def block_size_def)

lemma sample_groups: "groups_count sample_sb = 1"
  by (simp add: groups_count_def sample_sb_fields)

lemma sample_check: "check_superblock 65536 sample_sb = Inr ()"
  by (simp add: check_superblock_def sample_sb_fields sample_groups Let_def word_le_nat_alt word_less_nat_alt)

lemma sample_image:
  "length sample_ext4 = 65536" "get_bytes 1024 1024 sample_ext4 = sample_super" "get_bytes 2048 32 sample_ext4 = sample_desc"
  by (simp_all add: sample_ext4_def buf_simps sample_super_fields sample_desc_fields)

definition ext4_world :: world where
  "ext4_world = sample_world sample_ext4 []"

lemma ext4_world_facts:
  "calm ext4_world" "on_file (sample_device 65536) ext4_world" "f_data (w_files ext4_world f) = sample_ext4"
  "bd_fd (sample_device 65536) = 0" "g_size_bytes (bd_geometry (sample_device 65536)) = 65536" "w_cancel ext4_world = []"
  by (simp_all add: ext4_world_def sample_world_def sample_device_def calm_def fault_enabled_def on_file_def off_t_max_def sample_image)

lemma sample_read_superblock: "read_superblock (sample_device 65536) ext4_world = (Inr sample_sb, ext4_world)"
proof -
  have "read_exact (sample_device 65536) 1024 1024 ext4_world = (Inr sample_super, ext4_world)"
    using read_exact_calm [OF ext4_world_facts(1,2), of 1024 1024] by (simp add: ext4_world_facts sample_image)
  then show ?thesis
    using sample_check by (simp add: read_superblock_def bind_io_def ext4_world_facts sample_sb_def)
qed

lemma sample_read_group_desc:
  "\<exists>gd. read_group_desc (sample_device 65536) sample_sb 0 ext4_world = (Inr gd, ext4_world)
     \<and> gd_block_bitmap gd = 3 \<and> gd_inode_bitmap gd = 4 \<and> gd_inode_table gd = 5"
proof -
  have rd: "read_exact (sample_device 65536) 2048 32 ext4_world = (Inr sample_desc, ext4_world)"
    using read_exact_calm [OF ext4_world_facts(1,2), of 2048 32] by (simp add: ext4_world_facts sample_image)
  let ?g = "parse_group_desc sample_sb 32 sample_desc"
  have g: "gd_block_bitmap ?g = 3" "gd_inode_bitmap ?g = 4" "gd_inode_table ?g = 5"
    by (simp_all add: parse_group_desc_def with_hi_def sample_desc_fields Let_def sample_sb_fields)
  then have "check_group_desc sample_sb ?g = Inr ()"
    by (simp add: check_group_desc_def sample_sb_fields inode_table_blocks_def word_le_nat_alt word_less_nat_alt)
  then show ?thesis
    using rd g by (simp add: read_group_desc_def sample_sb_fields sample_groups bind_io_def word_le_nat_alt word_less_nat_alt unat_div
        unsigned_minus_1_eq_mask mask_eq_exp_minus_1)
qed

theorem ext4_superblock_sound_witness:
  "read_superblock (sample_device 65536) ext4_world = (Inr sample_sb, ext4_world)
   \<and> concat (map (group_blocks sample_sb) (group_list sample_sb)) = [1..<64] \<and> unat (size_bytes sample_sb) = 65536"
  using ext4_superblock_sound [OF sample_read_superblock] sample_read_superblock
  by (simp add: ext4_world_facts sample_sb_fields)

theorem ext4_group_metadata_in_bounds_witness:
  "\<exists>gd. read_group_desc (sample_device 65536) sample_sb 0 ext4_world = (Inr gd, ext4_world)
     \<and> unat (gd_inode_table gd) + unat (inode_table_blocks sample_sb) \<le> 64"
proof -
  obtain gd where r: "read_group_desc (sample_device 65536) sample_sb 0 ext4_world = (Inr gd, ext4_world)"
    using sample_read_group_desc by blast
  from ext4_group_metadata_in_bounds [OF sample_read_superblock _ r] r show ?thesis
    by (simp add: ext4_world_facts sample_sb_fields)
qed

end
