(* ===== verification/Fsx_Ext4_Metadata.thy ===== *)
theory Fsx_Ext4_Metadata
  imports Fsx_Ext4_Groups Fsx_Crc
begin

text \<open>
  Checksummed ext4 metadata, \<^verbatim>\<open>src/ext4/metadata.cpp\<close>: the checksums of the superblock, the group
  descriptors, the bitmaps, the inodes and the extent blocks, raw access to them, and the integrity
  check over all groups. A function that changes a buffer in place returns the changed buffer.
  Progress reports are left out.
\<close>

section \<open>Model\<close>

definition RO_GDT_CSUM :: u32 where "RO_GDT_CSUM = 0x0010"
definition RO_METADATA_CSUM :: u32 where "RO_METADATA_CSUM = 0x0400"
definition INCOMPAT_CSUM_SEED :: u32 where "INCOMPAT_CSUM_SEED = 0x2000"

abbreviation SB_CHECKSUM_OFF :: nat where "SB_CHECKSUM_OFF \<equiv> 0x3fc"
abbreviation SB_CHECKSUM_SEED_OFF :: nat where "SB_CHECKSUM_SEED_OFF \<equiv> 0x270"
abbreviation GD_BLOCK_CSUM_LO :: nat where "GD_BLOCK_CSUM_LO \<equiv> 0x18"
abbreviation GD_INODE_CSUM_LO :: nat where "GD_INODE_CSUM_LO \<equiv> 0x1a"
abbreviation GD_CHECKSUM :: nat where "GD_CHECKSUM \<equiv> 0x1e"
abbreviation GD_BLOCK_CSUM_HI :: nat where "GD_BLOCK_CSUM_HI \<equiv> 0x38"
abbreviation GD_INODE_CSUM_HI :: nat where "GD_INODE_CSUM_HI \<equiv> 0x3a"
abbreviation INODE_CSUM_LO :: nat where "INODE_CSUM_LO \<equiv> 0x7c"
abbreviation INODE_EXTRA_ISIZE :: nat where "INODE_EXTRA_ISIZE \<equiv> 0x80"
abbreviation INODE_CSUM_HI :: nat where "INODE_CSUM_HI \<equiv> 0x82"

record metadata_context =
  mc_sb :: superblock
  mc_uuid :: bytes
  mc_checksum_seed :: u32
  mc_metadata_csum :: bool
  mc_gdt_csum :: bool
  mc_csum_seed_feature :: bool

record metadata_integrity_report =
  mi_clean :: bool
  mi_superblock_checksum_present :: bool
  mi_superblock_checksum_valid :: bool
  mi_groups_checked :: u64
  mi_group_desc_checksum_failures :: u64
  mi_block_bitmap_checksum_failures :: u64
  mi_inode_bitmap_checksum_failures :: u64
  mi_block_count_mismatches :: u64
  mi_inode_count_mismatches :: u64
  mi_inode_checksums_checked :: u64
  mi_inode_checksum_failures :: u64
  mi_extent_blocks_checked :: u64
  mi_extent_block_checksum_failures :: u64
  mi_allocated_blocks_from_bitmaps :: u64
  mi_allocated_inodes_from_bitmaps :: u64
  mi_warnings :: "string list"
  mi_errors :: "string list"

definition crc16_bit :: "u16 \<Rightarrow> u16" where
  "crc16_bit c = (if c AND 1 \<noteq> 0 then drop_bit 1 c XOR 0xa001 else drop_bit 1 c)"

definition crc16_ibm :: "bytes \<Rightarrow> u16 \<Rightarrow> u16" where
  "crc16_ibm data seed = fold (\<lambda>b c. (crc16_bit ^^ 8) (c XOR ucast b)) data seed"

definition le32_bytes :: "u32 \<Rightarrow> bytes" where
  "le32_bytes v = write_le32 (replicate 4 0) 0 v"

definition metadata_seed :: "bytes \<Rightarrow> u32" where
  "metadata_seed raw_sb =
     (if read_le32 raw_sb 0x60 AND INCOMPAT_CSUM_SEED \<noteq> 0 then read_le32 raw_sb SB_CHECKSUM_SEED_OFF
      else crc32c (get_bytes 0x68 16 raw_sb) 0xffffffff)"

definition bitmap_checksum :: "metadata_context \<Rightarrow> bytes \<Rightarrow> nat \<Rightarrow> u32" where
  "bitmap_checksum ctx bitmap n = crc32c (take (min n (length bitmap)) bitmap) (mc_checksum_seed ctx)"

definition descriptor_bitmap_checksum :: "bytes \<Rightarrow> bool \<Rightarrow> u32" where
  "descriptor_bitmap_checksum gd ino =
     (let lo = read_le16 gd (if ino then GD_INODE_CSUM_LO else GD_BLOCK_CSUM_LO);
          hi_off = (if ino then GD_INODE_CSUM_HI else GD_BLOCK_CSUM_HI)
      in ucast lo OR (if length gd \<ge> hi_off + 2 then push_bit 16 (ucast (read_le16 gd hi_off)) else 0))"

definition inode_offset :: "block_device \<Rightarrow> metadata_context \<Rightarrow> u64 \<Rightarrow> u64 io" where
  "inode_offset d ctx ino =
     (let sb = mc_sb ctx; z = ino - 1; grp = z div ucast (sb_inodes_per_group sb); idx = z mod ucast (sb_inodes_per_group sb);
          bs = block_size sb; isz = (ucast (sb_inode_size sb) :: u64); fs_bytes = size_bytes sb
      in if ino = 0 \<or> ino > sb_inodes_count sb then fail_io Errc_invalid_argument ''inode number outside filesystem''
         else bind_io (read_group_desc d sb grp) (\<lambda>gd.
           let table_off = gd_inode_table gd * bs; rel = idx * isz; off = table_off + rel
           in if bs = 0 \<or> gd_inode_table gd > u64_max div bs then fail_io Errc_corrupt ''inode table byte offset overflows''
              else if idx > u64_max div isz then fail_io Errc_corrupt ''inode entry offset overflows''
              else if rel > u64_max - table_off then fail_io Errc_corrupt ''inode absolute offset overflows''
              else if off > fs_bytes \<or> isz > fs_bytes - off then fail_io Errc_corrupt ''inode table entry lies beyond filesystem''
              else return_io off))"

definition inode_has_hi_checksum :: "bytes \<Rightarrow> bool" where
  "inode_has_hi_checksum b =
     (if length b \<le> 128 \<or> length b < INODE_CSUM_HI + 2 then False
      else if length b < INODE_EXTRA_ISIZE + 2 then False
      else read_le16 b INODE_EXTRA_ISIZE \<ge> 4)"

text \<open>The code clears the checksum fields, computes, and puts the old values back.\<close>

definition clear_inode_checksum :: "bytes \<Rightarrow> bytes" where
  "clear_inode_checksum b =
     (let b1 = (if length b \<ge> INODE_CSUM_LO + 2 then write_le16 b INODE_CSUM_LO 0 else b)
      in if inode_has_hi_checksum b then write_le16 b1 INODE_CSUM_HI 0 else b1)"

definition compute_inode_checksum :: "metadata_context \<Rightarrow> u64 \<Rightarrow> bytes \<Rightarrow> u32" where
  "compute_inode_checksum ctx no b =
     (let c = clear_inode_checksum b
      in crc32c c (crc32c (le32_bytes (read_le32 c 0x64)) (crc32c (le32_bytes (ucast no)) (mc_checksum_seed ctx))))"

definition extent_tail :: "bytes \<Rightarrow> nat" where
  "extent_tail block = 12 + unat (read_le16 block 4) * 12"

definition compute_extent_checksum :: "metadata_context \<Rightarrow> u64 \<Rightarrow> u32 \<Rightarrow> bytes \<Rightarrow> u32 result" where
  "compute_extent_checksum ctx ino gen block =
     (if length block < 12 then fail Errc_corrupt ''extent block too small''
      else if read_le16 block 0 \<noteq> 0xf30a then fail Errc_corrupt ''invalid extent block magic''
      else if extent_tail block + 4 > length block then fail Errc_corrupt ''extent checksum tail lies outside block''
      else Inr (crc32c (take (extent_tail block) block)
                 (crc32c (le32_bytes gen) (crc32c (le32_bytes (ucast ino)) (mc_checksum_seed ctx)))))"

definition popcount_bitmap :: "bytes \<Rightarrow> u64 \<Rightarrow> u64" where
  "popcount_bitmap bm bits = of_nat (length (filter (\<lambda>i. bit_set bm (of_nat i)) [0..<unat bits]))"

definition read_raw_superblock :: "block_device \<Rightarrow> bytes io" where
  "read_raw_superblock d = read_exact d 1024 1024"

definition write_raw_superblock :: "block_device \<Rightarrow> bytes \<Rightarrow> unit io" where
  "write_raw_superblock d raw =
     (if length raw \<noteq> 1024 then fail_io Errc_invalid_argument ''ext superblock write requires exactly 1024 bytes''
      else write_exact d 1024 raw)"

definition verify_superblock_checksum :: "bytes \<Rightarrow> bool" where
  "verify_superblock_checksum raw =
     (if length raw < 1024 then False
      else if read_le32 raw 0x64 AND RO_METADATA_CSUM = 0 then True
      else read_le32 raw SB_CHECKSUM_OFF = crc32c (take SB_CHECKSUM_OFF raw) 0xffffffff)"

definition update_superblock_checksum :: "bytes \<Rightarrow> bytes result" where
  "update_superblock_checksum raw =
     (if length raw < 1024 then fail Errc_invalid_argument ''superblock buffer is too small''
      else if read_le32 raw 0x64 AND RO_METADATA_CSUM = 0 then Inr raw
      else Inr (write_le32 raw SB_CHECKSUM_OFF (crc32c (take SB_CHECKSUM_OFF raw) 0xffffffff)))"

definition load_metadata_context :: "block_device \<Rightarrow> bool \<Rightarrow> metadata_context io" where
  "load_metadata_context d tolerate =
     bind_io (read_superblock d) (\<lambda>sb.
     bind_io (read_raw_superblock d) (\<lambda>raw.
     let csum = (sb_feature_ro_compat sb AND RO_METADATA_CSUM \<noteq> 0)
     in if csum \<and> \<not> verify_superblock_checksum raw \<and> \<not> tolerate
        then fail_io Errc_corrupt ''ext4 superblock checksum mismatch''
        else return_io \<lparr>mc_sb = sb, mc_uuid = get_bytes 0x68 16 raw, mc_checksum_seed = metadata_seed raw,
               mc_metadata_csum = csum, mc_gdt_csum = (sb_feature_ro_compat sb AND RO_GDT_CSUM \<noteq> 0 \<or> csum),
               mc_csum_seed_feature = (sb_feature_incompat sb AND INCOMPAT_CSUM_SEED \<noteq> 0)\<rparr>))"

definition desc_bytes :: "superblock \<Rightarrow> u64" where
  "desc_bytes sb = ucast (if sb_desc_size sb \<ge> 32 then sb_desc_size sb else 32)"

text \<open>The address of a descriptor, the part that reading and writing share.\<close>

definition desc_address :: "string \<Rightarrow> superblock \<Rightarrow> u64 \<Rightarrow> u64 result" where
  "desc_address unsupported sb grp =
     (let bs = block_size sb; ds = desc_bytes sb; desc_off = grp * ds; table_off = (if bs = 1024 then 2 else 1) * bs
      in if grp > u64_max div ds then fail Errc_corrupt ''group descriptor offset overflows''
         else if sb_feature_incompat sb AND INCOMPAT_META_BG \<noteq> 0 \<and> desc_off \<ge> bs then fail Errc_unsupported unsupported
         else if desc_off > u64_max - table_off then fail Errc_corrupt ''group descriptor address overflows''
         else Inr (table_off + desc_off))"

definition read_group_descriptor_raw :: "block_device \<Rightarrow> metadata_context \<Rightarrow> u64 \<Rightarrow> bytes io" where
  "read_group_descriptor_raw d ctx grp =
     (let sb = mc_sb ctx; bs = block_size sb; ds = desc_bytes sb
      in if grp \<ge> groups_count sb then fail_io Errc_invalid_argument ''group number outside filesystem''
         else if bs = 0 \<or> ds = 0 \<or> ds > bs then fail_io Errc_corrupt ''invalid ext4 descriptor geometry''
         else bind_io (lift_io (desc_address ''meta_bg descriptor placement is not supported by the write engine yet'' sb grp))
                (\<lambda>off. read_exact d off (unat ds)))"

definition write_group_descriptor_raw :: "block_device \<Rightarrow> metadata_context \<Rightarrow> u64 \<Rightarrow> bytes \<Rightarrow> unit io" where
  "write_group_descriptor_raw d ctx grp raw =
     (let sb = mc_sb ctx; bs = block_size sb; ds = desc_bytes sb
      in if bs = 0 \<or> ds = 0 \<or> ds > bs then fail_io Errc_corrupt ''invalid ext4 descriptor geometry''
         else if length raw \<noteq> unat ds then fail_io Errc_invalid_argument ''group descriptor buffer has wrong size''
         else if grp \<ge> groups_count sb then fail_io Errc_invalid_argument ''group number outside filesystem''
         else bind_io (lift_io (desc_address ''meta_bg descriptor writes are not supported yet'' sb grp))
                (\<lambda>off. write_exact d off raw))"

text \<open>The checksum of a descriptor whose checksum field is zero.\<close>

definition group_desc_checksum :: "metadata_context \<Rightarrow> u64 \<Rightarrow> bytes \<Rightarrow> u16" where
  "group_desc_checksum ctx grp z =
     (let gb = le32_bytes (ucast grp)
      in if mc_metadata_csum ctx then ucast (crc32c z (crc32c gb (mc_checksum_seed ctx)) AND 0xffff)
         else let crc = crc16_ibm (take 30 z) (crc16_ibm gb (crc16_ibm (mc_uuid ctx) 0xffff))
              in if length z > 32 then crc16_ibm (drop 32 z) crc else crc)"

definition verify_group_descriptor_checksum :: "metadata_context \<Rightarrow> u64 \<Rightarrow> bytes \<Rightarrow> bool result" where
  "verify_group_descriptor_checksum ctx grp raw =
     (if \<not> mc_gdt_csum ctx then Inr True
      else if length raw < 32 then fail Errc_corrupt ''group descriptor too short''
      else Inr (read_le16 raw GD_CHECKSUM = group_desc_checksum ctx grp (write_le16 raw GD_CHECKSUM 0)))"

definition update_group_descriptor_checksum :: "metadata_context \<Rightarrow> u64 \<Rightarrow> bytes \<Rightarrow> bytes result" where
  "update_group_descriptor_checksum ctx grp raw =
     (if \<not> mc_gdt_csum ctx then Inr raw
      else if length raw < 32 then fail Errc_corrupt ''group descriptor too short''
      else let z = write_le16 raw GD_CHECKSUM 0 in Inr (write_le16 z GD_CHECKSUM (group_desc_checksum ctx grp z)))"

definition bitmap_bytes :: "u32 \<Rightarrow> nat" where
  "bitmap_bytes per_group = unat ((ucast per_group + 7) div 8 :: u64)"

text \<open>The stored checksum against the computed one; short descriptors hold its lower half only.\<close>

definition verify_bitmap_checksum :: "bool \<Rightarrow> u32 \<Rightarrow> metadata_context \<Rightarrow> bytes \<Rightarrow> bytes \<Rightarrow> bool result" where
  "verify_bitmap_checksum ino per_group ctx gd bitmap =
     (if \<not> mc_metadata_csum ctx then Inr True
      else let got = bitmap_checksum ctx bitmap (bitmap_bytes per_group); stored = descriptor_bitmap_checksum gd ino
           in Inr (if length gd \<ge> (if ino then GD_INODE_CSUM_HI else GD_BLOCK_CSUM_HI) + 2 then stored = got
                   else stored AND 0xffff = got AND 0xffff))"

definition update_bitmap_checksum :: "bool \<Rightarrow> u32 \<Rightarrow> metadata_context \<Rightarrow> bytes \<Rightarrow> bytes \<Rightarrow> bytes result" where
  "update_bitmap_checksum ino per_group ctx gd bitmap =
     (if \<not> mc_metadata_csum ctx then Inr gd
      else let c = bitmap_checksum ctx bitmap (bitmap_bytes per_group);
               hi = (if ino then GD_INODE_CSUM_HI else GD_BLOCK_CSUM_HI);
               gd1 = write_le16 gd (if ino then GD_INODE_CSUM_LO else GD_BLOCK_CSUM_LO) (ucast c)
           in Inr (if length gd \<ge> hi + 2 then write_le16 gd1 hi (ucast (drop_bit 16 c)) else gd1))"

definition verify_block_bitmap_checksum :: "metadata_context \<Rightarrow> bytes \<Rightarrow> bytes \<Rightarrow> bool result" where
  "verify_block_bitmap_checksum ctx = verify_bitmap_checksum False (sb_blocks_per_group (mc_sb ctx)) ctx"

definition verify_inode_bitmap_checksum :: "metadata_context \<Rightarrow> bytes \<Rightarrow> bytes \<Rightarrow> bool result" where
  "verify_inode_bitmap_checksum ctx = verify_bitmap_checksum True (sb_inodes_per_group (mc_sb ctx)) ctx"

definition update_block_bitmap_checksum :: "metadata_context \<Rightarrow> bytes \<Rightarrow> bytes \<Rightarrow> bytes result" where
  "update_block_bitmap_checksum ctx = update_bitmap_checksum False (sb_blocks_per_group (mc_sb ctx)) ctx"

definition update_inode_bitmap_checksum :: "metadata_context \<Rightarrow> bytes \<Rightarrow> bytes \<Rightarrow> bytes result" where
  "update_inode_bitmap_checksum ctx = update_bitmap_checksum True (sb_inodes_per_group (mc_sb ctx)) ctx"

definition read_inode_raw :: "block_device \<Rightarrow> metadata_context \<Rightarrow> u64 \<Rightarrow> bytes io" where
  "read_inode_raw d ctx ino =
     bind_io (inode_offset d ctx ino) (\<lambda>off. read_exact d off (unat (sb_inode_size (mc_sb ctx))))"

definition write_inode_raw :: "block_device \<Rightarrow> metadata_context \<Rightarrow> u64 \<Rightarrow> bytes \<Rightarrow> unit io" where
  "write_inode_raw d ctx ino raw =
     (if length raw \<noteq> unat (sb_inode_size (mc_sb ctx)) then fail_io Errc_invalid_argument ''inode buffer has wrong size''
      else bind_io (inode_offset d ctx ino) (\<lambda>off. write_exact d off raw))"

definition verify_inode_checksum :: "metadata_context \<Rightarrow> u64 \<Rightarrow> bytes \<Rightarrow> bool result" where
  "verify_inode_checksum ctx ino raw =
     (if \<not> mc_metadata_csum ctx then Inr True
      else if length raw < 128 then fail Errc_corrupt ''inode buffer too short''
      else let lo = read_le16 raw INODE_CSUM_LO; hi = inode_has_hi_checksum raw;
               stored_hi = (if hi then read_le16 raw INODE_CSUM_HI else 0);
               expected = compute_inode_checksum ctx ino raw; stored = (ucast lo OR push_bit 16 (ucast stored_hi) :: u32)
           in Inr (if hi then stored = expected else stored AND 0xffff = expected AND 0xffff))"

definition update_inode_checksum :: "metadata_context \<Rightarrow> u64 \<Rightarrow> bytes \<Rightarrow> bytes result" where
  "update_inode_checksum ctx ino raw =
     (if \<not> mc_metadata_csum ctx then Inr raw
      else if length raw < 128 then fail Errc_corrupt ''inode buffer too short''
      else let c = compute_inode_checksum ctx ino raw; raw1 = write_le16 raw INODE_CSUM_LO (ucast c)
           in Inr (if inode_has_hi_checksum raw1 then write_le16 raw1 INODE_CSUM_HI (ucast (drop_bit 16 c)) else raw1))"

definition verify_extent_block_checksum :: "metadata_context \<Rightarrow> u64 \<Rightarrow> u32 \<Rightarrow> bytes \<Rightarrow> bool result" where
  "verify_extent_block_checksum ctx ino gen block =
     (if \<not> mc_metadata_csum ctx then Inr True
      else bind_result (compute_extent_checksum ctx ino gen block) (\<lambda>c. Inr (read_le32 block (extent_tail block) = c)))"

definition update_extent_block_checksum :: "metadata_context \<Rightarrow> u64 \<Rightarrow> u32 \<Rightarrow> bytes \<Rightarrow> bytes result" where
  "update_extent_block_checksum ctx ino gen block =
     (if \<not> mc_metadata_csum ctx then Inr block
      else bind_result (compute_extent_checksum ctx ino gen block) (\<lambda>c. Inr (write_le32 block (extent_tail block) c)))"

section \<open>The integrity check\<close>

definition mi_report :: "string \<Rightarrow> metadata_integrity_report \<Rightarrow> metadata_integrity_report" where
  "mi_report m rep = rep\<lparr>mi_errors := mi_errors rep @ [m]\<rparr>"

definition first_inode :: "superblock \<Rightarrow> u64 \<Rightarrow> u64" where
  "first_inode sb g = g * ucast (sb_inodes_per_group sb) + 1"

definition group_inode_count :: "superblock \<Rightarrow> u64 \<Rightarrow> u64" where
  "group_inode_count sb g =
     (let first = first_inode sb g; remain = (if sb_inodes_count sb \<ge> first then sb_inodes_count sb - first + 1 else 0)
      in min (ucast (sb_inodes_per_group sb)) remain)"

fun check_inodes :: "block_device \<Rightarrow> metadata_context \<Rightarrow> u64 \<Rightarrow> bytes \<Rightarrow> nat list \<Rightarrow> metadata_integrity_report
    \<Rightarrow> metadata_integrity_report io" where
  "check_inodes d ctx first ib [] rep = return_io rep"
| "check_inodes d ctx first ib (i # is) rep =
     (if \<not> bit_set ib (of_nat i) then check_inodes d ctx first ib is rep
      else let ino = first + of_nat i in
      bind_io (read_inode_raw d ctx ino) (\<lambda>raw.
      if read_le16 raw 0 = 0 then check_inodes d ctx first ib is rep
      else bind_io (lift_io (verify_inode_checksum ctx ino raw)) (\<lambda>ok.
        let rep1 = rep\<lparr>mi_inode_checksums_checked := mi_inode_checksums_checked rep + 1\<rparr>;
            rep2 = (if ok then rep1
                    else mi_report (''inode '' @ digits (unat ino) @ '' checksum mismatch'')
                           (rep1\<lparr>mi_inode_checksum_failures := mi_inode_checksum_failures rep1 + 1\<rparr>))
        in check_inodes d ctx first ib is rep2)))"

text \<open>The checks of one group that follow from what was read of it.\<close>

definition judge_group :: "metadata_context \<Rightarrow> u64 \<Rightarrow> group_desc \<Rightarrow> bytes \<Rightarrow> bytes \<Rightarrow> bool \<Rightarrow> bool \<Rightarrow> bool
    \<Rightarrow> metadata_integrity_report \<Rightarrow> metadata_integrity_report" where
  "judge_group ctx g gd bb ib gd_ok bb_ok ib_ok rep =
     (let sb = mc_sb ctx;
          rep1 = (if gd_ok then rep else mi_report (group_msg g '' descriptor checksum mismatch'')
                    (rep\<lparr>mi_group_desc_checksum_failures := mi_group_desc_checksum_failures rep + 1\<rparr>));
          rep2 = (if bb_ok then rep1 else mi_report (group_msg g '' block bitmap checksum mismatch'')
                    (rep1\<lparr>mi_block_bitmap_checksum_failures := mi_block_bitmap_checksum_failures rep1 + 1\<rparr>));
          rep3 = (if ib_ok then rep2 else mi_report (group_msg g '' inode bitmap checksum mismatch'')
                    (rep2\<lparr>mi_inode_bitmap_checksum_failures := mi_inode_bitmap_checksum_failures rep2 + 1\<rparr>));
          gb = group_block_count sb g; ba = popcount_bitmap bb gb;
          rep4 = rep3\<lparr>mi_allocated_blocks_from_bitmaps := mi_allocated_blocks_from_bitmaps rep3 + ba\<rparr>;
          rep5 = (if gb - ba = ucast (gd_free_blocks gd) then rep4 else mi_report (group_msg g '' free-block count mismatch'')
                    (rep4\<lparr>mi_block_count_mismatches := mi_block_count_mismatches rep4 + 1\<rparr>));
          ic = group_inode_count sb g; ia = popcount_bitmap ib ic;
          rep6 = rep5\<lparr>mi_allocated_inodes_from_bitmaps := mi_allocated_inodes_from_bitmaps rep5 + ia\<rparr>
      in if ic - ia = ucast (gd_free_inodes gd) then rep6 else mi_report (group_msg g '' free-inode count mismatch'')
           (rep6\<lparr>mi_inode_count_mismatches := mi_inode_count_mismatches rep6 + 1\<rparr>))"

fun check_metadata_groups :: "block_device \<Rightarrow> metadata_context \<Rightarrow> bool \<Rightarrow> u64 list \<Rightarrow> metadata_integrity_report
    \<Rightarrow> metadata_integrity_report io" where
  "check_metadata_groups d ctx scan [] rep = return_io rep"
| "check_metadata_groups d ctx scan (g # gs) rep =
     bind_io cancellation_requested (\<lambda>stop.
     if stop then fail_io Errc_unsafe ''metadata verification cancelled''
     else
     bind_io (read_group_descriptor_raw d ctx g) (\<lambda>gd_raw.
     bind_io (lift_io (verify_group_descriptor_checksum ctx g gd_raw)) (\<lambda>gd_ok.
     bind_io (read_group_desc d (mc_sb ctx) g) (\<lambda>gd.
     bind_io (read_block_bitmap d (mc_sb ctx) gd) (\<lambda>bb.
     bind_io (read_inode_bitmap d (mc_sb ctx) gd) (\<lambda>ib.
     bind_io (lift_io (verify_block_bitmap_checksum ctx gd_raw bb)) (\<lambda>bb_ok.
     bind_io (lift_io (verify_inode_bitmap_checksum ctx gd_raw ib)) (\<lambda>ib_ok.
     let rep1 = judge_group ctx g gd bb ib gd_ok bb_ok ib_ok rep in
     bind_io (if scan \<and> mc_metadata_csum ctx \<and> gd_flags gd AND BG_INODE_UNINIT = 0
              then check_inodes d ctx (first_inode (mc_sb ctx) g) ib [0..<unat (group_inode_count (mc_sb ctx) g)] rep1
              else return_io rep1) (\<lambda>rep2.
     check_metadata_groups d ctx scan gs rep2)))))))))"

definition judge_totals :: "superblock \<Rightarrow> metadata_integrity_report \<Rightarrow> metadata_integrity_report" where
  "judge_totals sb rep =
     (let rep1 = (if mi_allocated_blocks_from_bitmaps rep = sb_blocks_count sb - sb_free_blocks sb then rep
                  else mi_report ''superblock free-block count disagrees with allocation bitmaps''
                         (rep\<lparr>mi_block_count_mismatches := mi_block_count_mismatches rep + 1\<rparr>));
          rep2 = (if sb_inodes_count sb - sb_free_inodes sb = mi_allocated_inodes_from_bitmaps rep1 then rep1
                  else mi_report ''superblock free-inode count disagrees with inode bitmaps''
                         (rep1\<lparr>mi_inode_count_mismatches := mi_inode_count_mismatches rep1 + 1\<rparr>))
      in rep2\<lparr>mi_clean := (mi_errors rep2 = [])\<rparr>)"

definition verify_metadata :: "block_device \<Rightarrow> bool \<Rightarrow> metadata_integrity_report io" where
  "verify_metadata d scan =
     bind_io (read_raw_superblock d) (\<lambda>raw.
     bind_io (read_superblock d) (\<lambda>sb.
     let valid = verify_superblock_checksum raw;
         rep = \<lparr>mi_clean = valid, mi_superblock_checksum_present = (sb_feature_ro_compat sb AND RO_METADATA_CSUM \<noteq> 0),
                mi_superblock_checksum_valid = valid, mi_groups_checked = 0, mi_group_desc_checksum_failures = 0,
                mi_block_bitmap_checksum_failures = 0, mi_inode_bitmap_checksum_failures = 0,
                mi_block_count_mismatches = 0, mi_inode_count_mismatches = 0, mi_inode_checksums_checked = 0,
                mi_inode_checksum_failures = 0, mi_extent_blocks_checked = 0, mi_extent_block_checksum_failures = 0,
                mi_allocated_blocks_from_bitmaps = 0, mi_allocated_inodes_from_bitmaps = 0, mi_warnings = [],
                mi_errors = (if valid then [] else [''superblock checksum mismatch''])\<rparr>
     in bind_io (load_metadata_context d False) (\<lambda>ctx.
        bind_io (check_metadata_groups d ctx scan (group_list (mc_sb ctx))
                   (rep\<lparr>mi_groups_checked := groups_count (mc_sb ctx)\<rparr>)) (\<lambda>rep'.
        return_io (judge_totals (mc_sb ctx) rep')))))"

end
