(* ===== verification/Fsx_Intervals.thy ===== *)
theory Fsx_Intervals
  imports Fsx_Prelude
begin

text \<open>
  The overlap test that the partition tables and the relocation planner share: sort the ranges and
  compare neighbours. The locale states what it needs of the ranges and shows that it decides
  pairwise disjointness of the ranges in the order they were given.
\<close>

fun adjacent :: "('a \<Rightarrow> 'a \<Rightarrow> bool) \<Rightarrow> 'a list \<Rightarrow> bool" where
  "adjacent R (x # y # zs) = (R x y \<and> adjacent R (y # zs))"
| "adjacent R _ = True"

lemma sorted_wrt_insort_sym:
  assumes "\<And>a b. R a b \<Longrightarrow> R b a"
  shows "sorted_wrt R (insort_key f x ys) \<longleftrightarrow> (\<forall>y\<in>set ys. R x y) \<and> sorted_wrt R ys"
proof (induction ys)
  case (Cons y ys)
  then show ?case using assms by (auto simp: set_insort_key)
qed simp

lemma sorted_wrt_sort_sym:
  assumes "\<And>a b. R a b \<Longrightarrow> R b a"
  shows "sorted_wrt R (sort_key f xs) \<longleftrightarrow> sorted_wrt R xs"
proof (induction xs)
  case (Cons x xs)
  then show ?case by (simp add: sort_key_def sorted_wrt_insort_sym [of R, OF assms]) (simp flip: sort_key_def)
qed simp

locale range_scan =
  fixes before le :: "'a \<Rightarrow> 'a \<Rightarrow> bool" and wf :: "'a \<Rightarrow> bool"
  assumes before_trans: "wf b \<Longrightarrow> before a b \<Longrightarrow> before b c \<Longrightarrow> before a c"
    and le_not_after: "wf a \<Longrightarrow> wf b \<Longrightarrow> le a b \<Longrightarrow> \<not> before b a"
begin

definition apart :: "'a \<Rightarrow> 'a \<Rightarrow> bool" where
  "apart a b \<longleftrightarrow> before a b \<or> before b a"

lemma adjacent_sorted_wrt:
  assumes "\<forall>x\<in>set xs. wf x"
  shows "adjacent before xs \<longleftrightarrow> sorted_wrt before xs"
  using assms
proof (induction xs rule: induct_list012)
  case (3 x y zs)
  then show ?case using before_trans [of y x] by auto
qed auto

lemma sorted_apart:
  assumes "\<forall>x\<in>set xs. wf x" and "sorted_wrt le xs"
  shows "sorted_wrt before xs \<longleftrightarrow> sorted_wrt apart xs"
  using assms by (induction xs) (auto simp: apart_def dest: le_not_after)

text \<open>Comparing neighbours of the sorted ranges decides whether all ranges are pairwise apart.\<close>

lemma adjacent_decides:
  assumes "\<forall>x\<in>set xs. wf x" and "sorted_wrt le (sort_key f xs)"
  shows "adjacent before (sort_key f xs) \<longleftrightarrow> sorted_wrt apart xs"
proof -
  have "adjacent before (sort_key f xs) \<longleftrightarrow> sorted_wrt apart (sort_key f xs)"
    using assms adjacent_sorted_wrt [of "sort_key f xs"] sorted_apart [of "sort_key f xs"] by simp
  moreover have "sorted_wrt apart (sort_key f xs) \<longleftrightarrow> sorted_wrt apart xs"
    by (rule sorted_wrt_sort_sym) (auto simp: apart_def)
  ultimately show ?thesis by simp
qed

end

text \<open>Closed ranges \<open>[first, last]\<close> as pairs, ordered lexicographically.\<close>

interpretation closed: range_scan "\<lambda>a b. snd a < (fst b :: 'k::linorder)" "(\<le>)" "\<lambda>a. fst a \<le> snd a"
  by unfold_locales (auto simp: less_eq_prod_def)

lemma closed_sorted: "sorted_wrt (\<le>) (sort (xs :: ('k::linorder \<times> 'k) list))"
  by simp

end
