(* ===== verification/Fsx_Allocation.thy ===== *)
theory Fsx_Allocation
  imports Fsx_Ext4_Groups Fsx_Intervals "HOL-Library.Multiset"
begin

text \<open>
  The allocation graph of an ext4 filesystem and the geometry of a relocation, \<^verbatim>\<open>src/ext4/allocation.cpp\<close>,
  with the plan for a shrink of \<^verbatim>\<open>src/ext4/ext4.cpp\<close>. The bitmaps are read by the scheduler's workers
  ahead of their use; the model reads each bitmap where its future is awaited, which is the order the
  code processes them in. \<^verbatim>\<open>std::sort\<close> with a comparison of the lengths leaves the order of equal
  elements open, so the sorted order is an argument.
\<close>

section \<open>Model\<close>

record block_extent =
  be_start :: u64
  be_length :: u64

definition be_end :: "block_extent \<Rightarrow> u64" where
  "be_end e = be_start e + be_length e"

abbreviation extent :: "u64 \<Rightarrow> u64 \<Rightarrow> block_extent" where
  "extent s n \<equiv> \<lparr>be_start = s, be_length = n\<rparr>"

record allocation_graph =
  ag_block_size :: u64
  ag_total_blocks :: u64
  ag_allocated_blocks :: u64
  ag_free_blocks :: u64
  ag_allocated :: "block_extent list"
  ag_free :: "block_extent list"

definition append_run :: "block_extent list \<Rightarrow> u64 \<Rightarrow> u64 \<Rightarrow> block_extent list" where
  "append_run out start len =
     (if len = 0 then out
      else if out \<noteq> [] \<and> be_end (last out) = start
      then butlast out @ [(last out)\<lparr>be_length := be_length (last out) + len\<rparr>]
      else out @ [extent start len])"

text \<open>The run that is being collected: \<open>None\<close> before the first block (\<^verbatim>\<open>have_state\<close> false).\<close>

type_synonym run = "(bool \<times> u64 \<times> u64) option"

definition flush_run :: "run \<Rightarrow> allocation_graph \<Rightarrow> allocation_graph" where
  "flush_run r g =
     (case r of None \<Rightarrow> g
      | Some (used, start, len) \<Rightarrow>
          if len = 0 then g
          else if used then g\<lparr>ag_allocated := append_run (ag_allocated g) start len\<rparr>
          else g\<lparr>ag_free := append_run (ag_free g) start len\<rparr>)"

definition scan_block :: "u64 \<Rightarrow> bool \<Rightarrow> run \<times> allocation_graph \<Rightarrow> run \<times> allocation_graph" where
  "scan_block block used st =
     (case st of (r, g) \<Rightarrow>
      let (r', g') = (case r of
            None \<Rightarrow> (Some (used, block, 1), g)
          | Some (cur, start, len) \<Rightarrow>
              if used = cur \<and> start + len = block then (Some (cur, start, len + 1), g)
              else (Some (used, block, 1), flush_run r g))
      in (r', if used then g'\<lparr>ag_allocated_blocks := ag_allocated_blocks g' + 1\<rparr>
              else g'\<lparr>ag_free_blocks := ag_free_blocks g' + 1\<rparr>))"

definition scan_group :: "superblock \<Rightarrow> u64 \<Rightarrow> bytes \<Rightarrow> run \<times> allocation_graph \<Rightarrow> run \<times> allocation_graph" where
  "scan_group sb g bm st =
     fold (\<lambda>i. scan_block (group_start_block sb g + of_nat i) (bit_set bm (of_nat i)))
       [0..<unat (group_block_count sb g)] st"

fun read_descs :: "block_device \<Rightarrow> superblock \<Rightarrow> u64 list \<Rightarrow> group_desc list io" where
  "read_descs d sb [] = return_io []"
| "read_descs d sb (g # gs) =
     bind_io (read_group_desc d sb g) (\<lambda>gd.
     if gd_flags gd AND BG_BLOCK_UNINIT \<noteq> 0
     then fail_io Errc_unsupported
       ''block-uninitialized ext4 groups require reconstructed bitmap support before destructive planning''
     else bind_io (read_descs d sb gs) (\<lambda>rest. return_io (gd # rest)))"

text \<open>One read of the scheduler: it polls the cancellation flag before it reads.\<close>

definition submit_read :: "block_device \<Rightarrow> u64 \<Rightarrow> nat \<Rightarrow> bytes io" where
  "submit_read d off n =
     bind_io cancellation_requested (\<lambda>stop.
     if stop then fail_io Errc_unsafe ''operation cancelled'' else read_exact d off n)"

fun scan_bitmaps :: "block_device \<Rightarrow> superblock \<Rightarrow> (u64 \<times> group_desc) list \<Rightarrow> run \<times> allocation_graph \<Rightarrow> (run \<times> allocation_graph) io" where
  "scan_bitmaps d sb [] st = return_io st"
| "scan_bitmaps d sb ((g, gd) # gs) st =
     bind_io cancellation_requested (\<lambda>stop.
     if stop then fail_io Errc_unsafe ''scan cancelled''
     else if gd_block_bitmap gd \<ge> sb_blocks_count sb then fail_io Errc_corrupt ''block bitmap points beyond filesystem''
     else bind_io (submit_read d (gd_block_bitmap gd * block_size sb) (unat (block_size sb))) (\<lambda>bm.
          scan_bitmaps d sb gs (scan_group sb g bm st)))"

definition empty_graph :: "superblock \<Rightarrow> allocation_graph" where
  "empty_graph sb = \<lparr>ag_block_size = block_size sb, ag_total_blocks = sb_blocks_count sb, ag_allocated_blocks = 0,
     ag_free_blocks = 0, ag_allocated = [], ag_free = []\<rparr>"

definition build_allocation_graph :: "block_device \<Rightarrow> allocation_graph io" where
  "build_allocation_graph d =
     bind_io (read_superblock d) (\<lambda>sb.
     if sb_feature_incompat sb AND INCOMPAT_META_BG \<noteq> 0
     then fail_io Errc_unsupported ''allocation graph does not yet support ext4 meta_bg descriptor placement''
     else if sb_feature_ro_compat sb AND RO_COMPAT_BIGALLOC \<noteq> 0
     then fail_io Errc_unsupported ''bigalloc uses cluster allocation; block-granularity relocation is refused''
     else
     bind_io (read_descs d sb (group_list sb)) (\<lambda>descs.
     bind_io (scan_bitmaps d sb (zip (group_list sb) descs) (None, empty_graph sb)) (\<lambda>(r, g).
     return_io (flush_run r g))))"

text \<open>The geometry of a relocation: extents above the target go to free extents below it.\<close>

record reloc_move =
  rm_source :: block_extent
  rm_destination :: block_extent

record relocation_geometry =
  rg_target_blocks :: u64
  rg_source_blocks :: u64
  rg_destination_blocks :: u64
  rg_largest_source_extent :: u64
  rg_largest_destination_extent :: u64
  rg_moves :: "reloc_move list"
  rg_capacity_ok :: bool

definition source_extents :: "allocation_graph \<Rightarrow> u64 \<Rightarrow> block_extent list" where
  "source_extents g target =
     map (\<lambda>e. let s = max (be_start e) target in extent s (be_end e - s))
       (filter (\<lambda>e. \<not> be_end e \<le> target) (ag_allocated g))"

definition dest_extents :: "block_extent list \<Rightarrow> u64 \<Rightarrow> block_extent list" where
  "dest_extents free target =
     map (\<lambda>e. extent (be_start e) (min (be_end e) target - be_start e))
       (filter (\<lambda>e. min (be_end e) target > be_start e) (takeWhile (\<lambda>e. \<not> be_start e \<ge> target) free))"

definition sum_lengths :: "block_extent list \<Rightarrow> u64" where
  "sum_lengths es = fold (\<lambda>e a. a + be_length e) es 0"

definition max_length :: "block_extent list \<Rightarrow> u64" where
  "max_length es = fold (\<lambda>e a. max a (be_length e)) es 0"

text \<open>The inner loops: \<open>skip_full\<close> leaves destinations that are used up, \<open>place\<close> cuts one source into moves.\<close>

fun skip_full :: "block_extent list \<Rightarrow> u64 \<Rightarrow> block_extent list \<times> u64" where
  "skip_full [] dused = ([], dused)"
| "skip_full (t # ts) dused = (if dused = be_length t then skip_full ts 0 else (t # ts, dused))"

lemma skip_full_head: "skip_full ts dused = (t # ts', k) \<Longrightarrow> k \<noteq> be_length t"
  by (induction ts dused rule: skip_full.induct) (auto split: if_splits)

function place :: "block_extent \<Rightarrow> u64 \<Rightarrow> block_extent list \<times> u64 \<Rightarrow> reloc_move list
    \<Rightarrow> ((block_extent list \<times> u64) \<times> reloc_move list) result" where
  "place s soff st acc =
     (if soff < be_length s then
        (case skip_full (fst st) (snd st) of
           ([], _) \<Rightarrow> fail Errc_internal ''relocation geometry exhausted destination extents''
         | (t # ts, dused) \<Rightarrow>
             let n = min (be_length s - soff) (be_length t - dused)
             in place s (soff + n) (t # ts, dused + n)
                  (acc @ [\<lparr>rm_source = extent (be_start s + soff) n, rm_destination = extent (be_start t + dused) n\<rparr>]))
      else Inr (st, acc))"
  by pat_completeness auto
termination
proof (relation "measure (\<lambda>(s, soff, st, acc). unat (be_length s - soff))", goal_cases)
  case (2 s soff st acc x xa t ts n)
  have ne: "xa \<noteq> be_length t" using skip_full_head [of "fst st" "snd st" t ts xa] 2(2,3) by simp
  have n: "0 < unat n" "unat n \<le> unat (be_length s - soff)"
    using 2(1,4) ne by (auto simp: min_def unat_gt_0 word_le_nat_alt)
  have "be_length s - (soff + n) = (be_length s - soff) - n" by simp
  then have "unat (be_length s - (soff + n)) = unat (be_length s - soff) - unat n"
    using n(2) by (simp only: unat_sub_le word_le_nat_alt)
  then show ?case using n by simp
qed simp

declare place.simps [simp del]

fun place_all :: "block_extent list \<Rightarrow> block_extent list \<times> u64 \<Rightarrow> reloc_move list \<Rightarrow> reloc_move list result" where
  "place_all [] st acc = Inr acc"
| "place_all (s # ss) st acc = bind_result (place s 0 st acc) (\<lambda>(st', acc'). place_all ss st' acc')"

text \<open>\<open>srt\<close> is \<^verbatim>\<open>std::sort\<close> with the comparison by descending length.\<close>

definition build_relocation_geometry ::
    "(block_extent list \<Rightarrow> block_extent list) \<Rightarrow> allocation_graph \<Rightarrow> u64 \<Rightarrow> relocation_geometry result" where
  "build_relocation_geometry srt g target =
     (if target = 0 \<or> target \<ge> ag_total_blocks g
      then fail Errc_invalid_argument ''relocation target must be inside filesystem''
      else
        let sources = srt (source_extents g target); dests = srt (dest_extents (ag_free g) target);
            r = \<lparr>rg_target_blocks = target, rg_source_blocks = sum_lengths sources, rg_destination_blocks = sum_lengths dests,
                 rg_largest_source_extent = max_length sources, rg_largest_destination_extent = max_length dests,
                 rg_moves = [], rg_capacity_ok = (sum_lengths dests \<ge> sum_lengths sources)\<rparr>
        in if \<not> rg_capacity_ok r then Inr r
           else bind_result (place_all sources (dests, 0) []) (\<lambda>ms. Inr (r\<lparr>rg_moves := ms\<rparr>)))"

section \<open>The shrink plan\<close>

record resize_plan =
  rp_current_bytes :: u64
  rp_target_bytes :: u64
  rp_target_blocks :: u64
  rp_block_size :: u64
  rp_allocated_blocks_above_target :: u64
  rp_allocated_bytes_above_target :: u64
  rp_metadata_blocks_above_target :: u64
  rp_free_blocks_below_target :: u64
  rp_highest_allocated_block :: u64
  rp_allocated_extent_count :: u64
  rp_free_extent_count :: u64
  rp_relocation_move_count :: u64
  rp_largest_relocation_extent_blocks :: u64
  rp_target_possible_by_capacity :: bool
  rp_requires_relocation :: bool
  rp_notes :: "string list"

definition allocated_above :: "block_extent list \<Rightarrow> u64 \<Rightarrow> u64" where
  "allocated_above es target =
     fold (\<lambda>e a. if be_end e > target then a + (be_end e - max (be_start e) target) else a) es 0"

definition highest_allocated :: "block_extent list \<Rightarrow> u64" where
  "highest_allocated es = fold (\<lambda>e h. if be_length e \<noteq> 0 then max h (be_end e - 1) else h) es 0"

definition free_below :: "block_extent list \<Rightarrow> u64 \<Rightarrow> u64" where
  "free_below es target =
     fold (\<lambda>e a. a + (min (be_end e) target - be_start e)) (takeWhile (\<lambda>e. \<not> be_start e \<ge> target) es) 0"

definition group_metadata_above :: "superblock \<Rightarrow> u64 \<Rightarrow> group_desc \<Rightarrow> u64" where
  "group_metadata_above sb target gd =
     (let bs = block_size sb; it_blocks = (ucast (sb_inodes_per_group sb) * ucast (sb_inode_size sb) + bs - 1) div bs;
          mark = (\<lambda>b. if b \<ge> target then 1 else 0)
      in mark (gd_block_bitmap gd) + mark (gd_inode_bitmap gd)
         + (if gd_inode_table gd \<ge> target then it_blocks
            else if gd_inode_table gd + it_blocks > target then gd_inode_table gd + it_blocks - target else 0))"

fun metadata_above :: "block_device \<Rightarrow> superblock \<Rightarrow> u64 \<Rightarrow> u64 list \<Rightarrow> u64 \<Rightarrow> u64 io" where
  "metadata_above d sb target [] acc = return_io acc"
| "metadata_above d sb target (g # gs) acc =
     bind_io cancellation_requested (\<lambda>stop.
     if stop then fail_io Errc_unsafe ''resize plan cancelled''
     else bind_io (read_group_desc d sb g) (\<lambda>gd. metadata_above d sb target gs (acc + group_metadata_above sb target gd)))"

definition plan_shrink :: "(block_extent list \<Rightarrow> block_extent list) \<Rightarrow> block_device \<Rightarrow> u64 \<Rightarrow> resize_plan io" where
  "plan_shrink srt d target_bytes =
     bind_io (read_superblock d) (\<lambda>sb.
     let bs = block_size sb; target = target_bytes div bs
     in if target_bytes \<ge> size_bytes sb then fail_io Errc_invalid_argument ''target is not smaller than filesystem''
        else if target \<le> ucast (sb_first_data_block sb) then fail_io Errc_invalid_argument ''target is too small''
        else
        bind_io (build_allocation_graph d) (\<lambda>graph.
        bind_io (metadata_above d sb target (group_list sb) 0) (\<lambda>meta.
        bind_io (lift_io (build_relocation_geometry srt graph target)) (\<lambda>geo.
        let above = allocated_above (ag_allocated graph) target in
        return_io
          \<lparr>rp_current_bytes = size_bytes sb, rp_target_bytes = target_bytes, rp_target_blocks = target, rp_block_size = bs,
           rp_allocated_blocks_above_target = above, rp_allocated_bytes_above_target = above * bs,
           rp_metadata_blocks_above_target = meta, rp_free_blocks_below_target = free_below (ag_free graph) target,
           rp_highest_allocated_block = highest_allocated (ag_allocated graph),
           rp_allocated_extent_count = of_nat (length (ag_allocated graph)), rp_free_extent_count = of_nat (length (ag_free graph)),
           rp_relocation_move_count = of_nat (length (rg_moves geo)),
           rp_largest_relocation_extent_blocks = rg_largest_source_extent geo,
           rp_target_possible_by_capacity = (rg_capacity_ok geo \<and> target \<ge> ag_allocated_blocks graph),
           rp_requires_relocation = (above > 0 \<or> meta > 0),
           rp_notes = (if sb_feature_incompat sb AND INCOMPAT_META_BG \<noteq> 0
                       then [''meta_bg requires extended descriptor relocation support before destructive shrink can be enabled''] else [])
             @ [''geometry plan only; use plan relocate for owner-aware relocation and shrink readiness'']\<rparr>))))"

end
