(* ===== verification/Fsx_Allocation_Laws.thy ===== *)
theory Fsx_Allocation_Laws
  imports Fsx_Allocation
begin

text \<open>
  What the allocation graph and the relocation geometry mean: the extents are the maximal runs of the
  bits in the bitmaps, and the moves send every allocated block above the target to its own free block
  below it.
\<close>

section \<open>Extents as block numbers\<close>

definition eblocks :: "block_extent \<Rightarrow> nat list" where
  "eblocks e = [unat (be_start e)..<unat (be_start e) + unat (be_length e)]"

definition blocks_of :: "block_extent list \<Rightarrow> nat list" where
  "blocks_of es = concat (map eblocks es)"

lemma blocks_of_simps [simp]:
  "blocks_of [] = []" "blocks_of (e # es) = eblocks e @ blocks_of es" "blocks_of (es @ fs) = blocks_of es @ blocks_of fs"
  by (simp_all add: blocks_of_def)

lemma length_eblocks [simp]: "length (eblocks e) = unat (be_length e)"
  by (simp add: eblocks_def)

text \<open>Maximal runs below \<open>k\<close>: not empty, in order, with a gap between neighbours.\<close>

definition ext_hi :: "block_extent \<Rightarrow> nat" where
  "ext_hi e = unat (be_start e) + unat (be_length e)"

definition runs :: "nat \<Rightarrow> block_extent list \<Rightarrow> bool" where
  "runs k es \<longleftrightarrow> (\<forall>e\<in>set es. 0 < unat (be_length e) \<and> ext_hi e \<le> k) \<and> sorted_wrt (\<lambda>a b. ext_hi a < unat (be_start b)) es"

lemma runs_Nil [simp]: "runs k []" by (simp add: runs_def)

lemma runs_mono: "runs k es \<Longrightarrow> k \<le> k' \<Longrightarrow> runs k' es"
  by (auto simp: runs_def)

lemma be_end_nat: "ext_hi e \<le> k \<Longrightarrow> k < 2 ^ 64 \<Longrightarrow> unat (be_end e) = ext_hi e"
  by (simp add: be_end_def ext_hi_def unat_add_le)

text \<open>A run that starts after a gap is a new extent.\<close>

lemma append_run_new:
  assumes "runs k es" "k < 2 ^ 64" "\<forall>e\<in>set es. ext_hi e < unat s" "0 < unat l"
  shows "append_run es s l = es @ [extent s l]"
proof -
  have "be_end (last es) \<noteq> s" if "es \<noteq> []"
    using that assms(1-3) be_end_nat [of "last es" k] last_in_set [OF that] by (auto simp: runs_def)
  then show ?thesis using assms(4) by (auto simp: append_run_def)
qed

lemma runs_append:
  assumes "runs (unat s) es" "\<forall>e\<in>set es. ext_hi e < unat s" "0 < unat l" "unat s + unat l = k"
  shows "runs k (es @ [extent s l])"
  using assms by (auto simp: runs_def sorted_wrt_append ext_hi_def)

section \<open>Collecting runs\<close>

definition used_blocks :: "(nat \<times> bool) list \<Rightarrow> bool \<Rightarrow> nat list" where
  "used_blocks bits u = map fst (filter (\<lambda>x. snd x = u) bits)"

definition side :: "bool \<Rightarrow> allocation_graph \<Rightarrow> block_extent list" where
  "side u g = (if u then ag_allocated g else ag_free g)"

definition tally :: "bool \<Rightarrow> allocation_graph \<Rightarrow> u64" where
  "tally u g = (if u then ag_allocated_blocks g else ag_free_blocks g)"

definition scan_inv :: "nat \<Rightarrow> nat \<Rightarrow> (nat \<times> bool) list \<Rightarrow> run \<times> allocation_graph \<Rightarrow> bool" where
  "scan_inv a k bits st \<longleftrightarrow> map fst bits = [a..<k] \<and> a \<le> k
     \<and> (\<forall>u. tally u (snd st) = of_nat (length (used_blocks bits u)))
     \<and> (case fst st of
          None \<Rightarrow> bits = [] \<and> (\<forall>u. side u (snd st) = [])
        | Some (cur, s, l) \<Rightarrow> 0 < unat l \<and> unat s + unat l = k \<and>
            (\<forall>u. blocks_of (side u (snd st)) @ (if u = cur then [unat s..<k] else []) = used_blocks bits u
               \<and> runs (unat s) (side u (snd st)) \<and> (u = cur \<longrightarrow> (\<forall>e\<in>set (side u (snd st)). ext_hi e < unat s))))"

lemma scan_invI:
  assumes "map fst bits = [a..<k]" "a \<le> k" "\<And>u. tally u g = of_nat (length (used_blocks bits u))"
    "0 < unat l" "unat s + unat l = k"
    "\<And>u. blocks_of (side u g) @ (if u = cur then [unat s..<k] else []) = used_blocks bits u"
    "\<And>u. runs (unat s) (side u g)" "\<And>e. e \<in> set (side cur g) \<Longrightarrow> ext_hi e < unat s"
  shows "scan_inv a k bits (Some (cur, s, l), g)"
  using assms by (auto simp: scan_inv_def)

lemma used_blocks_snoc: "used_blocks (bits @ [(k, v)]) u = used_blocks bits u @ (if v = u then [k] else [])"
  by (simp add: used_blocks_def)

lemma flush_run_side:
  assumes "0 < unat l" "\<forall>e\<in>set (side cur g). ext_hi e < unat s" "runs (unat s) (side cur g)"
  shows "side u (flush_run (Some (cur, s, l)) g) = (if u = cur then side u g @ [extent s l] else side u g)"
    and "tally u (flush_run (Some (cur, s, l)) g) = tally u g"
proof -
  have "l \<noteq> 0" using assms(1) by auto
  moreover have "append_run (side cur g) s l = side cur g @ [extent s l]"
    using append_run_new [OF assms(3) _ assms(2,1)] unat_lt_64 [of s] by simp
  ultimately show "side u (flush_run (Some (cur, s, l)) g) = (if u = cur then side u g @ [extent s l] else side u g)"
    "tally u (flush_run (Some (cur, s, l)) g) = tally u g"
    by (cases cur; cases u; simp add: flush_run_def side_def tally_def)+
qed

definition bump :: "bool \<Rightarrow> allocation_graph \<Rightarrow> allocation_graph" where
  "bump v g = (if v then g\<lparr>ag_allocated_blocks := ag_allocated_blocks g + 1\<rparr> else g\<lparr>ag_free_blocks := ag_free_blocks g + 1\<rparr>)"

lemma bump_simps [simp]: "side u (bump v g) = side u g" "tally u (bump v g) = tally u g + (if v = u then 1 else 0)"
  by (simp_all add: bump_def side_def tally_def)

lemma scan_block_eq:
  "scan_block b v (None, g) = (Some (v, b, 1), bump v g)"
  "scan_block b v (Some (cur, s, l), g) =
     (if v = cur \<and> s + l = b then (Some (cur, s, l + 1), bump v g) else (Some (v, b, 1), bump v (flush_run (Some (cur, s, l)) g)))"
  by (simp_all add: scan_block_def bump_def)

lemma scan_inv_None: "scan_inv a k bits (None, g) \<Longrightarrow> bits = [] \<and> a = k \<and> side u g = [] \<and> tally u g = 0"
  using upt_eq_Nil_conv [of a k] eq_commute [of "[]" "[a..<k]"] by (auto simp: scan_inv_def used_blocks_def)

lemma scan_invD:
  assumes "scan_inv a k bits (Some (cur, s, l), g)"
  shows "0 < unat l" "unat s + unat l = k" "tally u g = of_nat (length (used_blocks bits u))"
    "used_blocks bits u = blocks_of (side u g) @ (if u = cur then [unat s..<k] else [])"
    "runs (unat s) (side u g)" "e \<in> set (side cur g) \<Longrightarrow> ext_hi e < unat s"
  using assms by (auto simp: scan_inv_def)

lemma scan_inv_bits: "scan_inv a k bits st \<Longrightarrow> map fst (bits @ [(k, v)]) = [a..<Suc k] \<and> a \<le> Suc k"
  by (simp add: scan_inv_def)

lemma scan_block_start:
  assumes "scan_inv a k bits (None, g)" and "unat b = k"
  shows "scan_inv a (Suc k) (bits @ [(k, v)]) (Some (v, b, 1), bump v g)"
  using scan_inv_None [OF assms(1)] assms(2)
  by (intro scan_invI) (auto simp: used_blocks_def)

lemma scan_block_same:
  assumes inv: "scan_inv a k bits (Some (cur, s, l), g)" and k64: "k + 1 < 2 ^ 64"
  shows "scan_inv a (Suc k) (bits @ [(k, cur)]) (Some (cur, s, l + 1), bump cur g)"
proof -
  note i = scan_invD [OF inv]
  have l1: "unat (l + 1) = unat l + 1" using i(1,2) k64 unat_add_le [of l 1] by simp
  have up: "[unat s..<Suc k] = [unat s..<k] @ [k]" using i(1,2) by simp
  show ?thesis
    using scan_inv_bits [OF inv, of cur] i(1,2,3,5,6) l1
    by (intro scan_invI) (auto simp: used_blocks_snoc up i(4) simp del: upt_Suc)
qed

lemma scan_block_flip:
  assumes inv: "scan_inv a k bits (Some (cur, s, l), g)" and b: "unat b = k" and v: "v \<noteq> cur"
  shows "scan_inv a (Suc k) (bits @ [(k, v)]) (Some (v, b, 1), bump v (flush_run (Some (cur, s, l)) g))"
proof -
  note i = scan_invD [OF inv]
  note fl = flush_run_side [OF i(1) _ i(5) [of cur]]
  have s1: "side u (flush_run (Some (cur, s, l)) g) = (if u = cur then side u g @ [extent s l] else side u g)"
    and t1: "tally u (flush_run (Some (cur, s, l)) g) = tally u g" for u
    using fl i(6) by simp_all
  have r1: "runs k (if u = cur then side u g @ [extent s l] else side u g)" for u
    using i(1,2,6) i(5) [of u] runs_append [of s "side u g" l k] runs_mono [of "unat s" "side u g" k] by auto
  have gap: "ext_hi e < k" if "e \<in> set (side v g)" for e
    using that i(5) [of v] i(1,2) by (force simp: runs_def)
  show ?thesis
  proof (rule scan_invI, goal_cases)
    case (6 u)
    show ?case using v i(1,2) b by (auto simp: used_blocks_snoc s1 i(4) eblocks_def)
  qed (use scan_inv_bits [OF inv, of v] r1 gap v b in \<open>auto simp: s1 t1 used_blocks_snoc i(3)\<close>)
qed

lemma scan_block_inv:
  assumes inv: "scan_inv a k bits st" and k: "unat b = k" and k64: "k + 1 < 2 ^ 64"
  shows "scan_inv a (Suc k) (bits @ [(k, v)]) (scan_block b v st)"
proof (cases st)
  case (Pair r g)
  show ?thesis
  proof (cases r)
    case None
    then show ?thesis using scan_block_start [of a k bits g b v] inv k Pair by (simp add: scan_block_eq)
  next
    case (Some c)
    obtain cur s l where c: "c = (cur, s, l)" by (cases c)
    have i: "scan_inv a k bits (Some (cur, s, l), g)" using inv Pair Some c by simp
    have "unat (s + l) = k" using scan_invD(2) [OF i] k64 by (simp add: unat_add_le)
    then have eq: "s + l = b" using k by (simp add: word_unat_eq_iff)
    show ?thesis
    proof (cases "v = cur")
      case True
      then show ?thesis using scan_block_same [OF i k64] Pair Some c eq by (simp add: scan_block_eq)
    next
      case False
      then show ?thesis using scan_block_flip [OF i k False] Pair Some c by (simp add: scan_block_eq)
    qed
  qed
qed

text \<open>A group and all groups.\<close>

definition group_bits :: "superblock \<Rightarrow> u64 \<Rightarrow> bytes \<Rightarrow> (nat \<times> bool) list" where
  "group_bits sb g bm = map (\<lambda>i. (unat (group_start_block sb g) + i, bit_set bm (of_nat i))) [0..<unat (group_block_count sb g)]"

lemma fst_group_bits: "map fst (group_bits sb g bm) = group_blocks sb g"
proof -
  have "map (\<lambda>i. m + i) [0..<n] = [m..<m + n]" for m n :: nat by (induction n) simp_all
  then show ?thesis by (simp add: group_bits_def group_blocks_def comp_def)
qed

lemma scan_group_inv:
  assumes inv: "scan_inv a (unat (group_start_block sb g)) bits st"
    and hi: "unat (group_start_block sb g) + unat (group_block_count sb g) < 2 ^ 64"
  shows "scan_inv a (unat (group_start_block sb g) + unat (group_block_count sb g)) (bits @ group_bits sb g bm) (scan_group sb g bm st)"
proof -
  let ?s = "group_start_block sb g"
  have "n \<le> unat (group_block_count sb g) \<Longrightarrow>
      scan_inv a (unat ?s + n) (bits @ map (\<lambda>i. (unat ?s + i, bit_set bm (of_nat i))) [0..<n])
        (fold (\<lambda>i. scan_block (?s + of_nat i) (bit_set bm (of_nat i))) [0..<n] st)" for n
  proof (induction n)
    case 0
    then show ?case using inv by simp
  next
    case (Suc n)
    then have "n < 2 ^ 64" "unat ?s + n + 1 < 2 ^ 64" using hi by simp_all
    then have "unat (?s + of_nat n) = unat ?s + n"
      using unat_add_le [of ?s "of_nat n"] by (simp add: unat_of_nat take_bit_nat_eq_self)
    from scan_block_inv [OF Suc.IH this, of "bit_set bm (of_nat n)"] Suc.prems \<open>unat ?s + n + 1 < 2 ^ 64\<close> show ?case by simp
  qed
  from this [of "unat (group_block_count sb g)"] show ?thesis by (simp add: scan_group_def group_bits_def)
qed

definition disk_bits :: "superblock \<Rightarrow> bytes \<Rightarrow> (u64 \<times> group_desc) list \<Rightarrow> (nat \<times> bool) list" where
  "disk_bits sb D gs = concat (map (\<lambda>(g, gd). group_bits sb g
     (get_bytes (unat (gd_block_bitmap gd * block_size sb)) (unat (block_size sb)) D)) gs)"

lemma upt_prefix:
  assumes "[s..<s + n] @ ys = [k..<N]" and "0 < n"
  shows "k = s" "ys = [s + n..<N]" "s + n \<le> N"
proof -
  have "s \<in> set [k..<N]" using assms(2) by (simp flip: assms(1))
  then have kN: "k < N" by simp
  have "[k..<N] ! 0 = ([s..<s + n] @ ys) ! 0" using assms(1) by simp
  then show k: "k = s" using assms(2) kN by (simp add: nth_append)
  have len: "n + length ys = N - s" using arg_cong [OF assms(1), of length] k by simp
  then show le: "s + n \<le> N" using kN k by simp
  have "ys = drop n ([s..<s + n] @ ys)" by simp
  also have "\<dots> = [s + n..<N]" unfolding assms(1) using k by (simp add: add.commute)
  finally show "ys = [s + n..<N]" .
qed

lemma submit_read_spec:
  assumes "submit_read d off n w = (Inr b, w')"
  shows "b = get_bytes (unat off) n (data_of d w) \<and> w_files w' = w_files w"
proof -
  from assms obtain stop w1 where c: "cancellation_requested w = (Inr stop, w1)"
    and rd: "(if stop then fail_io Errc_unsafe ''operation cancelled'' else read_exact d off n) w1 = (Inr b, w')"
    unfolding submit_read_def by (rule bind_io_OkE)
  then have "read_exact d off n w1 = (Inr b, w')" by (simp split: if_split_asm)
  then show ?thesis using read_exact_spec pure_step [OF pure_cancel c] by fastforce
qed

lemma scan_bitmaps_spec:
  assumes "scan_bitmaps d sb gs st w = (Inr st', w')" and "w_files w = w_files w0"
    and "scan_inv a k bits st" and "concat (map (\<lambda>(g, gd). group_blocks sb g) gs) = [k..<N]" and "k \<le> N" and "N < 2 ^ 64"
    and "\<forall>(g, gd)\<in>set gs. group_blocks sb g \<noteq> []"
  shows "scan_inv a N (bits @ disk_bits sb (data_of d w0) gs) st' \<and> w_files w' = w_files w0"
  using assms
proof (induction gs arbitrary: st bits k w)
  case Nil
  then have "k = N" using upt_eq_Nil_conv [of k N] by auto
  then show ?case using Nil by (simp add: disk_bits_def)
next
  case (Cons x gs)
  obtain g gd where x: "x = (g, gd)" by (cases x)
  let ?s = "unat (group_start_block sb g)" and ?n = "unat (group_block_count sb g)"
  have gb: "group_blocks sb g = [?s..<?s + ?n]" by (simp add: group_blocks_def)
  have "0 < ?n" using Cons.prems(7) x gb by auto
  then have k: "k = ?s" and rest: "concat (map (\<lambda>(g, gd). group_blocks sb g) gs) = [?s + ?n..<N]" and le: "?s + ?n \<le> N"
    using Cons.prems(4) x gb upt_prefix [of ?s ?n "concat (map (\<lambda>(g, gd). group_blocks sb g) gs)" k N] by auto
  from Cons.prems(1) x obtain stop w1 where c: "cancellation_requested w = (Inr stop, w1)"
    and r1: "(if stop then fail_io Errc_unsafe ''scan cancelled''
       else if gd_block_bitmap gd \<ge> sb_blocks_count sb then fail_io Errc_corrupt ''block bitmap points beyond filesystem''
       else bind_io (submit_read d (gd_block_bitmap gd * block_size sb) (unat (block_size sb))) (\<lambda>bm.
          scan_bitmaps d sb gs (scan_group sb g bm st))) w1 = (Inr st', w')"
    by (auto elim!: bind_io_OkE)
  from r1 obtain bm w2 where rd: "submit_read d (gd_block_bitmap gd * block_size sb) (unat (block_size sb)) w1 = (Inr bm, w2)"
    and r2: "scan_bitmaps d sb gs (scan_group sb g bm st) w2 = (Inr st', w')"
    by (auto elim!: bind_io_OkE split: if_split_asm)
  have w1: "w_files w1 = w_files w0" using pure_step [OF pure_cancel c] Cons.prems(2) by simp
  have bm: "bm = get_bytes (unat (gd_block_bitmap gd * block_size sb)) (unat (block_size sb)) (data_of d w0)" "w_files w2 = w_files w0"
    using submit_read_spec [OF rd] w1 by simp_all
  have inv: "scan_inv a (?s + ?n) (bits @ group_bits sb g bm) (scan_group sb g bm st)"
    using scan_group_inv [of a sb g bits st bm] Cons.prems(3,6) k le by simp
  from Cons.IH [OF r2 bm(2) inv rest le Cons.prems(6)] Cons.prems(7) show ?case
    by (simp add: x disk_bits_def bm(1))
qed

lemma read_descs_spec:
  assumes "read_descs d sb gs w = (Inr descs, w')"
  shows "descs = map (desc_of sb (data_of d w)) gs \<and> w_files w' = w_files w"
  using assms
proof (induction gs arbitrary: w descs)
  case (Cons g gs)
  from Cons.prems obtain gd w1 where rd: "read_group_desc d sb g w = (Inr gd, w1)"
    and rest: "bind_io (read_descs d sb gs) (\<lambda>rest. return_io (gd # rest)) w1 = (Inr descs, w')"
    by (auto elim!: bind_io_OkE split: if_split_asm)
  from rest obtain ds w2 where "read_descs d sb gs w1 = (Inr ds, w2)" "descs = gd # ds" "w' = w2"
    by (auto elim!: bind_io_OkE)
  then show ?case using Cons.IH read_group_desc_ok(3,4) [OF rd] by fastforce
qed simp

definition used_map :: "superblock \<Rightarrow> bytes \<Rightarrow> (nat \<times> bool) list" where
  "used_map sb D = disk_bits sb D (map (\<lambda>g. (g, desc_of sb D g)) (group_list sb))"

lemma flush_final:
  assumes inv: "scan_inv a N bits st" and "a < N"
  shows "blocks_of (side u (case st of (r, g) \<Rightarrow> flush_run r g)) = used_blocks bits u
    \<and> runs N (side u (case st of (r, g) \<Rightarrow> flush_run r g))
    \<and> tally u (case st of (r, g) \<Rightarrow> flush_run r g) = of_nat (length (used_blocks bits u))"
proof (cases st)
  case (Pair r g)
  have "r \<noteq> None" using scan_inv_None [of a N bits g] inv Pair assms(2) by (cases r) auto
  then obtain cur s l where r: "r = Some (cur, s, l)" by (cases r) auto
  have i: "scan_inv a N bits (Some (cur, s, l), g)" using inv Pair r by simp
  note d = scan_invD [OF i]
  note fl = flush_run_side [OF d(1) _ d(5) [of cur], of u]
  have s1: "side u (flush_run (Some (cur, s, l)) g) = (if u = cur then side u g @ [extent s l] else side u g)"
    "tally u (flush_run (Some (cur, s, l)) g) = tally u g"
    using fl d(6) by simp_all
  then show ?thesis
    using Pair r d runs_append [of s "side u g" l N] runs_mono [of "unat s" "side u g" N] by (auto simp: eblocks_def)
qed

lemma flush_run_total [simp]: "ag_total_blocks (flush_run r g) = ag_total_blocks g"
  by (simp add: flush_run_def split: option.splits)

lemma flush_pair_total: "ag_total_blocks (case x of (r, g) \<Rightarrow> flush_run r g) = ag_total_blocks (snd x)"
  by (cases x) simp

lemma scan_block_total [simp]: "ag_total_blocks (snd (scan_block b v st)) = ag_total_blocks (snd st)"
  by (auto simp: scan_block_def split: prod.splits option.splits if_splits)

lemma scan_group_total [simp]: "ag_total_blocks (snd (scan_group sb g bm st)) = ag_total_blocks (snd st)"
proof -
  have "ag_total_blocks (snd (fold (\<lambda>i. scan_block (f i) (v i)) xs st)) = ag_total_blocks (snd st)" for f v and xs :: "nat list"
    by (induction xs arbitrary: st) simp_all
  then show ?thesis by (simp add: scan_group_def)
qed

lemma scan_bitmaps_total:
  "scan_bitmaps d sb gs st w = (Inr st', w') \<Longrightarrow> ag_total_blocks (snd st') = ag_total_blocks (snd st)"
proof (induction d sb gs st arbitrary: w rule: scan_bitmaps.induct)
  case (2 d sb g gd gs st)
  then show ?case by (fastforce elim!: bind_io_OkE split: if_split_asm)
qed auto

lemma allocation_graph_spec:
  assumes run: "build_allocation_graph d w = (Inr gr, w')"
  shows "\<exists>sb w1. read_superblock d w = (Inr sb, w1) \<and> ag_total_blocks gr = sb_blocks_count sb \<and> w_files w' = w_files w
    \<and> map fst (used_map sb (data_of d w)) = [unat (sb_first_data_block sb)..<unat (sb_blocks_count sb)]
    \<and> (\<forall>u. blocks_of (side u gr) = used_blocks (used_map sb (data_of d w)) u \<and> runs (unat (sb_blocks_count sb)) (side u gr)
         \<and> tally u gr = of_nat (length (used_blocks (used_map sb (data_of d w)) u)))"
proof -
  from run obtain sb w1 where rs: "read_superblock d w = (Inr sb, w1)"
    and r1: "bind_io (read_descs d sb (group_list sb)) (\<lambda>descs.
       bind_io (scan_bitmaps d sb (zip (group_list sb) descs) (None, empty_graph sb)) (\<lambda>(r, g).
       return_io (flush_run r g))) w1 = (Inr gr, w')"
    unfolding build_allocation_graph_def by (auto elim!: bind_io_OkE split: if_split_asm)
  note sb = read_superblock_ok [OF rs]
  from r1 obtain descs w2 where rd: "read_descs d sb (group_list sb) w1 = (Inr descs, w2)"
    and r2: "bind_io (scan_bitmaps d sb (zip (group_list sb) descs) (None, empty_graph sb)) (\<lambda>(r, g).
       return_io (flush_run r g)) w2 = (Inr gr, w')"
    by (rule bind_io_OkE)
  have descs: "descs = map (desc_of sb (data_of d w)) (group_list sb)" "w_files w2 = w_files w"
    using read_descs_spec [OF rd] sb(4) by simp_all
  from r2 obtain st w3 where sc: "scan_bitmaps d sb (zip (group_list sb) descs) (None, empty_graph sb) w2 = (Inr st, w3)"
    and gr: "gr = (case st of (r, g) \<Rightarrow> flush_run r g)" "w' = w3"
    by (auto elim!: bind_io_OkE split: prod.splits)
  let ?N = "unat (sb_blocks_count sb)" and ?f = "unat (sb_first_data_block sb)"
  have zip: "zip (group_list sb) descs = map (\<lambda>g. (g, desc_of sb (data_of d w) g)) (group_list sb)"
    by (simp add: descs(1) zip_map2 zip_same_conv_map)
  have cc: "concat (map (\<lambda>(g, gd). group_blocks sb g) (zip (group_list sb) descs)) = [?f..<?N]"
    using groups_tile [OF sb(1)] by (simp add: zip comp_def)
  have fN: "?f < ?N" using sb(1) by (simp add: sb_ok_def)
  have ne: "\<forall>(g, gd)\<in>set (zip (group_list sb) descs). group_blocks sb g \<noteq> []"
    using group_start_nat(2) [OF sb(1)] group_count_nat [OF sb(1)] sb(1)
    by (auto simp: zip group_list_nth group_blocks_def sb_ok_def)
  have start: "scan_inv ?f ?f [] (None, empty_graph sb)"
    by (simp add: scan_inv_def used_blocks_def side_def tally_def empty_graph_def)
  have inv: "scan_inv ?f ?N (used_map sb (data_of d w)) st" "w_files w3 = w_files w"
    using scan_bitmaps_spec [OF sc descs(2) start cc _ _ ne] fN unat_lt_64 [of "sb_blocks_count sb"]
    by (simp_all add: used_map_def zip)
  have tot: "ag_total_blocks gr = sb_blocks_count sb"
    using scan_bitmaps_total [OF sc] gr(1) by (simp add: empty_graph_def split: prod.splits)
  show ?thesis
    using rs tot gr inv(2) flush_final [OF inv(1) fN] inv(1)
    by (intro exI [of _ sb] exI [of _ w1]) (auto simp: scan_inv_def)
qed

section \<open>The relocation geometry\<close>

lemma source_extents_blocks:
  assumes "runs N (ag_allocated g)" and "N < 2 ^ 64"
  shows "blocks_of (source_extents g t) = filter (\<lambda>b. unat t \<le> b) (blocks_of (ag_allocated g))"
    and "\<forall>e\<in>set (source_extents g t). ext_hi e \<le> N \<and> 0 < unat (be_length e)"
proof -
  have one: "filter (\<lambda>b. unat t \<le> b) (eblocks e) = (if be_end e \<le> t then [] else eblocks (extent (max (be_start e) t) (be_end e - max (be_start e) t)))"
    and hi: "\<not> be_end e \<le> t \<Longrightarrow> ext_hi (extent (max (be_start e) t) (be_end e - max (be_start e) t)) = ext_hi e
       \<and> 0 < unat (be_end e - max (be_start e) t)"
    if "0 < unat (be_length e)" "ext_hi e \<le> N" for e
  proof -
    have en: "unat (be_end e) = ext_hi e" using be_end_nat [OF that(2) assms(2)] .
    have le: "max (be_start e) t \<le> be_end e" if "\<not> be_end e \<le> t"
      using that en by (simp add: word_le_nat_alt ext_hi_def max_def)
    have mx: "unat (max (be_start e) t) = max (unat (be_start e)) (unat t)" by (simp add: max_def word_le_nat_alt)
    have len: "unat (be_end e - max (be_start e) t) = ext_hi e - max (unat (be_start e)) (unat t)" if "\<not> be_end e \<le> t"
      using unat_sub_le [OF le [OF that]] en mx by simp
    have fl: "filter (\<lambda>b. c \<le> b) [x..<y] = [max x c..<y]" for c x y :: nat by (induction y) (auto simp: max_def)
    show "filter (\<lambda>b. unat t \<le> b) (eblocks e) = (if be_end e \<le> t then [] else eblocks (extent (max (be_start e) t) (be_end e - max (be_start e) t)))"
      using en len mx that le by (auto simp: eblocks_def fl ext_hi_def word_le_nat_alt max_def)
    show "\<not> be_end e \<le> t \<Longrightarrow> ext_hi (extent (max (be_start e) t) (be_end e - max (be_start e) t)) = ext_hi e
       \<and> 0 < unat (be_end e - max (be_start e) t)"
      using en len mx that by (auto simp: ext_hi_def word_le_nat_alt max_def)
  qed
  have r: "\<forall>e\<in>set (ag_allocated g). 0 < unat (be_length e) \<and> ext_hi e \<le> N" using assms(1) by (simp add: runs_def)
  then have "blocks_of (map (\<lambda>e. let s = max (be_start e) t in extent s (be_end e - s)) (filter (\<lambda>e. \<not> be_end e \<le> t) es))
      = filter (\<lambda>b. unat t \<le> b) (blocks_of es)" if "set es \<subseteq> set (ag_allocated g)" for es
    using that by (induction es) (auto simp: Let_def one)
  then show "blocks_of (source_extents g t) = filter (\<lambda>b. unat t \<le> b) (blocks_of (ag_allocated g))"
    by (simp add: source_extents_def)
  show "\<forall>e\<in>set (source_extents g t). ext_hi e \<le> N \<and> 0 < unat (be_length e)"
    using r hi by (auto simp: source_extents_def Let_def)
qed

lemma dest_extents_blocks:
  assumes "runs N es" and "N < 2 ^ 64"
  shows "blocks_of (dest_extents es t) = filter (\<lambda>b. b < unat t) (blocks_of es)"
    and "\<forall>e\<in>set (dest_extents es t). ext_hi e \<le> N"
proof -
  have fl: "filter (\<lambda>b. b < c) [x..<y] = [x..<min y c]" for c x y :: nat
    by (induction y) (auto simp: min_def Suc_le_eq not_less dest: antisym)
  have e1: "unat (min (be_end e) t - be_start e) = min (ext_hi e) (unat t) - unat (be_start e)"
    if "be_start e < t" "ext_hi e \<le> N" for e
  proof -
    have "unat (be_end e) = ext_hi e" using be_end_nat [OF that(2) assms(2)] .
    moreover from this have "be_start e \<le> min (be_end e) t" using that(1) by (simp add: word_le_nat_alt word_less_nat_alt ext_hi_def min_def)
    ultimately show ?thesis by (simp add: unat_sub_le min_def word_le_nat_alt)
  qed
  have "blocks_of (dest_extents es t) = filter (\<lambda>b. b < unat t) (blocks_of es) \<and> (\<forall>e\<in>set (dest_extents es t). ext_hi e \<le> N)"
    using assms(1)
  proof (induction es)
    case (Cons e es)
    have r: "runs N es" "0 < unat (be_length e)" "ext_hi e \<le> N" "\<forall>f\<in>set es. ext_hi e < unat (be_start f)"
      using Cons.prems by (auto simp: runs_def)
    show ?case
    proof (cases "be_start e \<ge> t")
      case True
      then have "\<forall>b\<in>set (eblocks e @ blocks_of es). \<not> b < unat t"
        using r by (force simp: eblocks_def blocks_of_def ext_hi_def word_le_nat_alt)
      then show ?thesis using True by (simp add: dest_extents_def filter_empty_conv)
    next
      case False
      then have lt: "be_start e < t" by simp
      have en: "unat (be_end e) = ext_hi e" using be_end_nat [OF r(3) assms(2)] .
      have pos: "min (be_end e) t > be_start e" using lt en r(2) by (simp add: min_def word_less_nat_alt ext_hi_def)
      have "eblocks (extent (be_start e) (min (be_end e) t - be_start e)) = filter (\<lambda>b. b < unat t) (eblocks e)"
        using e1 [OF lt r(3)] lt r(2) by (auto simp: eblocks_def fl ext_hi_def word_less_nat_alt min_def)
      moreover have "ext_hi (extent (be_start e) (min (be_end e) t - be_start e)) \<le> N"
        using e1 [OF lt r(3)] lt r(2,3) by (auto simp: ext_hi_def word_less_nat_alt)
      ultimately show ?thesis using Cons.IH [OF r(1)] False pos by (simp add: dest_extents_def)
    qed
  qed (simp add: dest_extents_def)
  then show "blocks_of (dest_extents es t) = filter (\<lambda>b. b < unat t) (blocks_of es)" "\<forall>e\<in>set (dest_extents es t). ext_hi e \<le> N"
    by simp_all
qed

text \<open>What is left of the destinations.\<close>

definition rest_of :: "block_extent list \<times> u64 \<Rightarrow> nat list" where
  "rest_of st = drop (unat (snd st)) (blocks_of (fst st))"

definition cursor_ok :: "block_extent list \<times> u64 \<Rightarrow> bool" where
  "cursor_ok st \<longleftrightarrow> (case fst st of [] \<Rightarrow> True | t # _ \<Rightarrow> unat (snd st) \<le> unat (be_length t))"

lemma skip_full_rest:
  assumes "cursor_ok (ts, k)"
  shows "rest_of (skip_full ts k) = rest_of (ts, k) \<and> set (fst (skip_full ts k)) \<subseteq> set ts
    \<and> (\<forall>t us k'. skip_full ts k = (t # us, k') \<longrightarrow> unat k' < unat (be_length t)) \<and> (fst (skip_full ts k) = [] \<longrightarrow> rest_of (ts, k) = [])"
  using assms
proof (induction ts k rule: skip_full.induct)
  case (2 t ts k)
  show ?case
  proof (cases "k = be_length t")
    case True
    have "cursor_ok (ts, 0)" by (simp add: cursor_ok_def split: list.splits)
    with 2 True show ?thesis by (auto simp: rest_of_def)
  next
    case False
    then have "unat k \<noteq> unat (be_length t)" by (simp add: word_unat_eq_iff)
    moreover have "unat k \<le> unat (be_length t)" using 2(2) by (simp add: cursor_ok_def)
    ultimately have "unat k < unat (be_length t)" by simp
    with False show ?thesis by (auto simp: rest_of_def)
  qed
qed (simp add: rest_of_def)

lemma eblocks_sub:
  assumes "ext_hi e \<le> N" "N < 2 ^ 64" "unat k + unat n \<le> unat (be_length e)"
  shows "eblocks (extent (be_start e + k) n) = take (unat n) (drop (unat k) (eblocks e))"
proof -
  have "unat (be_start e + k) = unat (be_start e) + unat k" using assms by (intro unat_add_le) (simp add: ext_hi_def)
  then show ?thesis using assms(3) by (simp add: eblocks_def take_upt drop_upt)
qed

lemma place_spec:
  assumes "ext_hi s \<le> N" "N < 2 ^ 64" "\<forall>e\<in>set (fst st). ext_hi e \<le> N" "cursor_ok st" "unat soff \<le> unat (be_length s)"
    "unat (be_length s) - unat soff \<le> length (rest_of st)"
  shows "\<exists>st' ms. place s soff st acc = Inr (st', acc @ ms) \<and> cursor_ok st' \<and> set (fst st') \<subseteq> set (fst st)
    \<and> rest_of st' = drop (unat (be_length s) - unat soff) (rest_of st)
    \<and> blocks_of (map rm_source ms) = drop (unat soff) (eblocks s)
    \<and> blocks_of (map rm_destination ms) = take (unat (be_length s) - unat soff) (rest_of st)
    \<and> list_all (\<lambda>m. be_length (rm_source m) = be_length (rm_destination m)) ms"
  using assms
proof (induction s soff st acc rule: place.induct)
  case (1 s soff st acc)
  show ?case
  proof (cases "soff < be_length s")
    case False
    then have "place s soff st acc = Inr (st, acc)" by (simp add: place.simps [of s soff])
    moreover have "unat soff = unat (be_length s)" using False "1.prems"(5) by (simp add: word_less_nat_alt)
    ultimately show ?thesis using "1.prems"(4) by (intro exI [of _ st] exI [of _ "[]"]) simp
  next
    case True
    obtain ts k where st: "st = (ts, k)" by fastforce
    note sk = skip_full_rest [of ts k] 
    have "rest_of (ts, k) \<noteq> []" using True "1.prems"(6) st by (auto simp: word_less_nat_alt)
    then obtain t us k' where sf: "skip_full ts k = (t # us, k')"
      using sk "1.prems"(4) st by (cases "skip_full ts k"; cases "fst (skip_full ts k)") auto
    have r: "rest_of st = drop (unat k') (blocks_of (t # us))" "unat k' < unat (be_length t)" "set (t # us) \<subseteq> set ts"
      using sk "1.prems"(4) st sf by (auto simp: rest_of_def)
    define n where "n = min (be_length s - soff) (be_length t - k')"
    have un: "unat n = min (unat (be_length s) - unat soff) (unat (be_length t) - unat k')"
      using True r(2) by (simp add: n_def min_def word_le_nat_alt word_less_nat_alt unat_sub_le)
    have t64: "ext_hi t \<le> N" using "1.prems"(3) r(3) st by auto
    have so: "unat (soff + n) = unat soff + unat n"
      using un "1.prems"(5) unat_lt_64 [of "be_length s"] by (intro unat_add_le) simp
    have ko: "unat (k' + n) = unat k' + unat n" using un r(2) unat_lt_64 [of "be_length t"] by (intro unat_add_le) simp
    let ?m = "\<lparr>rm_source = extent (be_start s + soff) n, rm_destination = extent (be_start t + k') n\<rparr>"
    let ?st = "(t # us, k' + n)"
    have "rest_of ?st = drop (unat (k' + n)) (blocks_of (t # us))" by (simp only: rest_of_def fst_conv snd_conv)
    then have rest1: "rest_of ?st = drop (unat n) (rest_of st)" by (simp only: r(1) ko drop_drop add.commute)
    have step: "place s soff st acc = place s (soff + n) ?st (acc @ [?m])"
      using True sf st by (simp add: place.simps [of s soff] n_def Let_def)
    have lr: "length (rest_of st) \<ge> unat (be_length s) - unat soff" using "1.prems"(6) .
    have p1: "(t # us, k') = skip_full (fst st) (snd st)" using sf st by simp
    have p2: "\<forall>e\<in>set (fst ?st). ext_hi e \<le> N" using "1.prems"(3) r(3) st by auto
    have p3: "cursor_ok ?st" using ko un r(2) by (simp add: cursor_ok_def)
    have p4: "unat (soff + n) \<le> unat (be_length s)" using so un "1.prems"(5) by simp
    have p5: "unat (be_length s) - unat (soff + n) \<le> length (rest_of ?st)" using lr so by (simp add: rest1)
    note IH = "1.IH" [OF True p1 refl n_def "1.prems"(1,2) p2 p3 p4 p5]
    from IH obtain st' ms where ms: "place s (soff + n) ?st (acc @ [?m]) = Inr (st', (acc @ [?m]) @ ms)" "cursor_ok st'" "set (fst st') \<subseteq> set (fst ?st)"
      "rest_of st' = drop (unat (be_length s) - unat (soff + n)) (rest_of ?st)"
      "blocks_of (map rm_source ms) = drop (unat (soff + n)) (eblocks s)"
      "blocks_of (map rm_destination ms) = take (unat (be_length s) - unat (soff + n)) (rest_of ?st)"
      "list_all (\<lambda>m. be_length (rm_source m) = be_length (rm_destination m)) ms" by blast
    have src: "eblocks (extent (be_start s + soff) n) @ drop (unat (soff + n)) (eblocks s) = drop (unat soff) (eblocks s)"
    proof -
      have "unat soff + unat n \<le> unat (be_length s)" using so p4 by simp
      then have "eblocks (extent (be_start s + soff) n) = take (unat n) (drop (unat soff) (eblocks s))"
        by (rule eblocks_sub [OF "1.prems"(1,2)])
      moreover have "drop (unat (soff + n)) (eblocks s) = drop (unat n) (drop (unat soff) (eblocks s))"
        unfolding so drop_drop by (simp only: add.commute)
      ultimately show ?thesis by (simp only: append_take_drop_id)
    qed
    have dst: "eblocks (extent (be_start t + k') n) = take (unat n) (rest_of st)"
      using eblocks_sub [OF t64 "1.prems"(2), of k' n] un r(1,2) by simp
    have nsum: "unat n + (unat (be_length s) - unat (soff + n)) = unat (be_length s) - unat soff" using so p4 by linarith
    have tk: "take (unat n) (rest_of st) @ take (unat (be_length s) - unat (soff + n)) (drop (unat n) (rest_of st))
        = take (unat (be_length s) - unat soff) (rest_of st)"
      by (simp only: take_add [symmetric] nsum)
    have fin: "drop (unat (be_length s) - unat (soff + n)) (drop (unat n) (rest_of st)) = drop (unat (be_length s) - unat soff) (rest_of st)"
      unfolding drop_drop add.commute [of "unat (be_length s) - unat (soff + n)"] nsum by (rule refl)
    show ?thesis
    proof (rule exI [of _ st'], rule exI [of _ "?m # ms"], intro conjI)
      show "place s soff st acc = Inr (st', acc @ ?m # ms)" using step ms(1) by simp
      show "cursor_ok st'" by (rule ms(2))
      show "set (fst st') \<subseteq> set (fst st)" using ms(3) r(3) st by auto
      show "rest_of st' = drop (unat (be_length s) - unat soff) (rest_of st)" using ms(4) rest1 fin by simp
      show "blocks_of (map rm_source (?m # ms)) = drop (unat soff) (eblocks s)" using ms(5) src by simp
      show "blocks_of (map rm_destination (?m # ms)) = take (unat (be_length s) - unat soff) (rest_of st)"
        using ms(6) dst tk rest1 by simp
      show "list_all (\<lambda>m. be_length (rm_source m) = be_length (rm_destination m)) (?m # ms)" using ms(7) by simp
    qed
  qed
qed

lemma place_all_spec:
  assumes "\<forall>s\<in>set ss. ext_hi s \<le> N" "N < 2 ^ 64" "\<forall>e\<in>set (fst st). ext_hi e \<le> N" "cursor_ok st"
    "length (blocks_of ss) \<le> length (rest_of st)"
  shows "\<exists>ms. place_all ss st acc = Inr (acc @ ms) \<and> blocks_of (map rm_source ms) = blocks_of ss
    \<and> blocks_of (map rm_destination ms) = take (length (blocks_of ss)) (rest_of st)
    \<and> list_all (\<lambda>m. be_length (rm_source m) = be_length (rm_destination m)) ms"
  using assms
proof (induction ss arbitrary: st acc)
  case (Cons s ss)
  have h: "ext_hi s \<le> N" "unat 0 \<le> unat (be_length s)" "unat (be_length s) - unat 0 \<le> length (rest_of st)" using Cons.prems(1,5) by simp_all
  obtain st' ms where p: "place s 0 st acc = Inr (st', acc @ ms)" "cursor_ok st'" "set (fst st') \<subseteq> set (fst st)"
      "rest_of st' = drop (unat (be_length s)) (rest_of st)" "blocks_of (map rm_source ms) = eblocks s"
      "blocks_of (map rm_destination ms) = take (unat (be_length s)) (rest_of st)"
      "list_all (\<lambda>m. be_length (rm_source m) = be_length (rm_destination m)) ms"
    using place_spec [OF h(1) Cons.prems(2-4) h(2,3), of acc] by auto
  have q: "\<forall>s\<in>set ss. ext_hi s \<le> N" "\<forall>e\<in>set (fst st'). ext_hi e \<le> N" "length (blocks_of ss) \<le> length (rest_of st')"
    using Cons.prems(1,3,5) p(3,4) by auto
  obtain ms' where m: "place_all ss st' (acc @ ms) = Inr ((acc @ ms) @ ms')" "blocks_of (map rm_source ms') = blocks_of ss"
      "blocks_of (map rm_destination ms') = take (length (blocks_of ss)) (rest_of st')"
      "list_all (\<lambda>m. be_length (rm_source m) = be_length (rm_destination m)) ms'"
    using Cons.IH [OF q(1) Cons.prems(2) q(2) p(2) q(3), of "acc @ ms"] by blast
  show ?case
    by (rule exI [of _ "ms @ ms'"]) (use p m in \<open>simp add: take_add\<close>)
qed simp

lemma mset_blocks_of: "mset (blocks_of es) = (\<Sum>e\<in>#mset es. mset (eblocks e))"
  by (induction es) simp_all

lemma runs_blocks:
  assumes "runs N es"
  shows "distinct (blocks_of es)" "set (blocks_of es) \<subseteq> {..<N}"
proof -
  show "set (blocks_of es) \<subseteq> {..<N}" using assms by (force simp: runs_def blocks_of_def eblocks_def ext_hi_def)
  have "sorted_wrt (<) (blocks_of es)"
    using assms
  proof (induction es)
    case (Cons e es)
    have "b < b'" if "b \<in> set (eblocks e)" "b' \<in> set (blocks_of es)" for b b'
      using that Cons.prems by (fastforce simp: runs_def blocks_of_def eblocks_def ext_hi_def)
    moreover have "runs N es" using Cons.prems by (simp add: runs_def)
    ultimately show ?case using Cons.IH by (auto simp: sorted_wrt_append eblocks_def)
  qed simp
  then show "distinct (blocks_of es)" by (simp add: strict_sorted_iff)
qed

lemma sum_lengths_nat: "length (blocks_of es) < 2 ^ 64 \<Longrightarrow> unat (sum_lengths es) = length (blocks_of es)"
proof -
  have "fold (\<lambda>e a. a + be_length e) es a = a + of_nat (length (blocks_of es))" for a :: u64
    by (induction es arbitrary: a) (simp_all add: add.assoc)
  then show "length (blocks_of es) < 2 ^ 64 \<Longrightarrow> unat (sum_lengths es) = length (blocks_of es)"
    by (simp add: sum_lengths_def unat_of_nat take_bit_nat_eq_self)
qed

text \<open>\<open>moves_exact\<close>: every allocated block at or above the target is the source of exactly one move, the
  destinations are different free blocks below the target, and each move keeps its length.\<close>

definition moves_exact :: "nat list \<Rightarrow> nat list \<Rightarrow> nat \<Rightarrow> reloc_move list \<Rightarrow> bool" where
  "moves_exact used free t ms \<longleftrightarrow> mset (blocks_of (map rm_source ms)) = mset (filter (\<lambda>b. t \<le> b) used)
     \<and> distinct (blocks_of (map rm_destination ms)) \<and> set (blocks_of (map rm_destination ms)) \<subseteq> {b \<in> set free. b < t}
     \<and> list_all (\<lambda>m. be_length (rm_source m) = be_length (rm_destination m)) ms"

lemma relocation_geometry_spec:
  assumes al: "runs N (ag_allocated g)" and fr: "runs N (ag_free g)" and N: "N = unat (ag_total_blocks g)"
    and srt: "\<And>xs. mset (srt xs) = mset xs" and t: "t \<noteq> 0" "t < ag_total_blocks g"
  shows "\<exists>geo. build_relocation_geometry srt g t = Inr geo
    \<and> (rg_capacity_ok geo \<longleftrightarrow> length (filter (\<lambda>b. unat t \<le> b) (blocks_of (ag_allocated g)))
          \<le> length (filter (\<lambda>b. b < unat t) (blocks_of (ag_free g))))
    \<and> (rg_capacity_ok geo \<longrightarrow> moves_exact (blocks_of (ag_allocated g)) (blocks_of (ag_free g)) (unat t) (rg_moves geo))"
proof -
  let ?ss = "srt (source_extents g t)" and ?ds = "srt (dest_extents (ag_free g) t)"
  let ?above = "filter (\<lambda>b. unat t \<le> b) (blocks_of (ag_allocated g))" and ?below = "filter (\<lambda>b. b < unat t) (blocks_of (ag_free g))"
  have N64: "N < 2 ^ 64" using N unat_lt_64 [of "ag_total_blocks g"] by simp
  note so = source_extents_blocks [OF al N64, of t] and de = dest_extents_blocks [OF fr N64, of t]
  have ms: "mset (blocks_of ?ss) = mset ?above" "mset (blocks_of ?ds) = mset ?below"
    by (simp_all only: mset_blocks_of srt so(1) [symmetric] de(1) [symmetric])
  have len: "length (blocks_of ?ss) = length ?above" "length (blocks_of ?ds) = length ?below"
    by (rule mset_eq_length [OF ms(1)], rule mset_eq_length [OF ms(2)])
  have small: "length xs \<le> N" if "distinct xs" "set xs \<subseteq> {..<N}" for xs
    using card_mono [OF _ that(2)] distinct_card [OF that(1)] by simp
  have "length ?above \<le> N" "length ?below \<le> N"
    using runs_blocks [OF al] runs_blocks [OF fr] by (auto intro!: small)
  then have sums: "unat (sum_lengths ?ss) = length ?above" "unat (sum_lengths ?ds) = length ?below"
    using N64 len by (simp_all add: sum_lengths_nat)
  have hi: "\<forall>e\<in>set ?ss. ext_hi e \<le> N" "\<forall>e\<in>set ?ds. ext_hi e \<le> N"
    using so(2) de(2) mset_eq_setD [OF srt] by simp_all
  have cap: "sum_lengths ?ss \<le> sum_lengths ?ds \<longleftrightarrow> length ?above \<le> length ?below" using sums by (simp add: word_le_nat_alt)
  have tt: "(t = 0 \<or> ag_total_blocks g \<le> t) = False" using t by simp
  show ?thesis
  proof (cases "sum_lengths ?ss \<le> sum_lengths ?ds")
    case False
    then show ?thesis using cap by (simp add: build_relocation_geometry_def Let_def tt)
  next
    case True
    then have le: "length (blocks_of ?ss) \<le> length (rest_of (?ds, 0))" using sums len by (simp add: word_le_nat_alt rest_of_def)
    have cur: "cursor_ok (?ds, 0)" by (simp add: cursor_ok_def split: list.splits)
    obtain mv where mv: "place_all ?ss (?ds, 0) [] = Inr mv" "blocks_of (map rm_source mv) = blocks_of ?ss"
        "blocks_of (map rm_destination mv) = take (length (blocks_of ?ss)) (blocks_of ?ds)"
        "list_all (\<lambda>m. be_length (rm_source m) = be_length (rm_destination m)) mv"
      using place_all_spec [OF hi(1) N64 _ cur le, of "[]"] hi(2) by (auto simp: rest_of_def)
    have db: "distinct (blocks_of ?ds)" "set (blocks_of ?ds) = {b \<in> set (blocks_of (ag_free g)). b < unat t}"
      using mset_eq_imp_distinct_iff [OF ms(2)] runs_blocks(1) [OF fr] mset_eq_setD [OF ms(2)] by auto
    have "moves_exact (blocks_of (ag_allocated g)) (blocks_of (ag_free g)) (unat t) mv"
      using mv(2-4) ms(1) db set_take_subset [of "length (blocks_of ?ss)" "blocks_of ?ds"]
      by (auto simp: moves_exact_def)
    then show ?thesis using True cap mv(1) by (simp add: build_relocation_geometry_def Let_def tt)
  qed
qed

section \<open>Properties\<close>

text \<open>C20. The allocation graph is exactly what the bitmaps say: every block from the first data block to the end
  has one bit, the allocated extents are the maximal runs of set bits and the free extents the maximal runs of
  clear bits, both in order and without gaps inside, and the two counters are their sizes.\<close>

theorem allocation_graph_exact:
  assumes "build_allocation_graph d w = (Inr gr, w')"
  shows "let sb = parse_superblock (get_bytes 1024 1024 (data_of d w)); bits = used_map sb (data_of d w); N = unat (sb_blocks_count sb) in
      map fst bits = [unat (sb_first_data_block sb)..<N]
      \<and> blocks_of (ag_allocated gr) = used_blocks bits True \<and> blocks_of (ag_free gr) = used_blocks bits False
      \<and> runs N (ag_allocated gr) \<and> runs N (ag_free gr)
      \<and> unat (ag_allocated_blocks gr) = length (used_blocks bits True) \<and> unat (ag_free_blocks gr) = length (used_blocks bits False)"
proof -
  obtain sb w1 where sb: "read_superblock d w = (Inr sb, w1)"
    and f: "map fst (used_map sb (data_of d w)) = [unat (sb_first_data_block sb)..<unat (sb_blocks_count sb)]"
    and u: "\<And>u. blocks_of (side u gr) = used_blocks (used_map sb (data_of d w)) u \<and> runs (unat (sb_blocks_count sb)) (side u gr)
         \<and> tally u gr = of_nat (length (used_blocks (used_map sb (data_of d w)) u))"
    using allocation_graph_spec [OF assms] by blast
  have "length (used_blocks (used_map sb (data_of d w)) u) \<le> unat (sb_blocks_count sb)" for u
  proof -
    have "length (used_blocks (used_map sb (data_of d w)) u) \<le> length (map fst (used_map sb (data_of d w)))"
      by (simp add: used_blocks_def)
    then show ?thesis by (simp add: f)
  qed
  then have "length (used_blocks (used_map sb (data_of d w)) u) < 2 ^ 64" for u
    by (rule le_less_trans) (use unat_lt_64 [of "sb_blocks_count sb"] in simp)
  then have "unat (tally u gr) = length (used_blocks (used_map sb (data_of d w)) u)" for u
    using u [of u] by (simp add: unat_of_nat take_bit_nat_eq_self)
  from this [of True] this [of False] show ?thesis
    unfolding Let_def read_superblock_ok(3) [OF sb, symmetric]
    using f u [of True] u [of False] by (simp add: side_def tally_def)
qed

lemma sample_graph:
  "\<exists>gr. build_allocation_graph (sample_device 65536) ext4_world = (Inr gr, ext4_world) \<and> ag_total_blocks gr = 64"
proof -
  let ?d = "sample_device 65536" and ?w = ext4_world
  obtain gd where gd: "read_group_desc ?d sample_sb 0 ?w = (Inr gd, ?w)" "gd_block_bitmap gd = 3"
    using sample_read_group_desc by blast
  have fl: "gd_flags gd = 0"
    using read_group_desc_ok(4) [OF gd(1)] by (simp add: desc_of_def sample_sb_fields parse_group_desc_def ext4_world_facts sample_image)
      (simp add: sample_desc_def buf_simps)
  have gl: "group_list sample_sb = [0]" by (simp add: group_list_def sample_groups)
  have rd: "\<exists>bm. submit_read ?d 3072 1024 ?w = (Inr bm, ?w)"
    using read_exact_calm [OF ext4_world_facts(1,2), of 3072 1024]
    by (simp add: submit_read_def cancellation_requested_def ext4_world_facts bind_io_def sample_image)
  then obtain bm where bm: "submit_read ?d 3072 1024 ?w = (Inr bm, ?w)" by blast
  have "scan_bitmaps ?d sample_sb [(0, gd)] (None, empty_graph sample_sb) ?w = (Inr (scan_group sample_sb 0 bm (None, empty_graph sample_sb)), ?w)"
    using bm gd(2) by (simp add: bind_io_def cancellation_requested_def ext4_world_facts sample_sb_fields word_le_nat_alt)
  then have run: "build_allocation_graph ?d ?w = (Inr (case scan_group sample_sb 0 bm (None, empty_graph sample_sb) of (r, g) \<Rightarrow> flush_run r g), ?w)"
    using gd(1) fl by (simp add: build_allocation_graph_def bind_io_def sample_read_superblock sample_sb_fields gl split: prod.splits)
  moreover have "ag_total_blocks (case scan_group sample_sb 0 bm (None, empty_graph sample_sb) of (r, g) \<Rightarrow> flush_run r g) = 64"
    by (simp add: flush_pair_total) (simp add: empty_graph_def sample_sb_fields)
  ultimately show ?thesis by blast
qed

theorem allocation_graph_exact_witness:
  "\<exists>gr. build_allocation_graph (sample_device 65536) ext4_world = (Inr gr, ext4_world)
     \<and> blocks_of (ag_allocated gr) = used_blocks (used_map sample_sb sample_ext4) True
     \<and> map fst (used_map sample_sb sample_ext4) = [1..<64]"
proof -
  obtain gr where g: "build_allocation_graph (sample_device 65536) ext4_world = (Inr gr, ext4_world)" using sample_graph by blast
  from allocation_graph_exact [OF g] g show ?thesis
    by (intro exI [of _ gr]) (simp add: ext4_world_facts sample_image sample_sb_def [symmetric] sample_sb_fields Let_def)
qed

text \<open>C21. The relocation geometry moves everything: for a graph that was built from a filesystem and any target
  inside it the planner returns, and never with the error for exhausted destinations; it reports enough
  capacity exactly when the free blocks below the target are at least as many as the allocated ones at
  or above it, and then its moves send each such block to a free block of its own.\<close>

theorem relocation_geometry_exact:
  assumes "build_allocation_graph d w = (Inr gr, w')" and "\<And>xs. mset (srt xs) = mset xs"
    and "t \<noteq> 0" "t < ag_total_blocks gr"
  shows "\<exists>geo. build_relocation_geometry srt gr t = Inr geo
    \<and> (rg_capacity_ok geo \<longleftrightarrow> length (filter (\<lambda>b. unat t \<le> b) (blocks_of (ag_allocated gr)))
          \<le> length (filter (\<lambda>b. b < unat t) (blocks_of (ag_free gr))))
    \<and> (rg_capacity_ok geo \<longrightarrow> moves_exact (blocks_of (ag_allocated gr)) (blocks_of (ag_free gr)) (unat t) (rg_moves geo))"
proof -
  obtain sb :: superblock where tot: "ag_total_blocks gr = sb_blocks_count sb" and r: "\<forall>u. runs (unat (sb_blocks_count sb)) (side u gr)"
    using allocation_graph_spec [OF assms(1)] by blast
  have "runs (unat (ag_total_blocks gr)) (ag_allocated gr)" "runs (unat (ag_total_blocks gr)) (ag_free gr)"
    using tot r [rule_format, of True] r [rule_format, of False] by (simp_all add: side_def)
  from relocation_geometry_spec [OF this refl assms(2-4)] show ?thesis .
qed

theorem relocation_geometry_exact_witness:
  "\<exists>gr geo. build_allocation_graph (sample_device 65536) ext4_world = (Inr gr, ext4_world)
     \<and> build_relocation_geometry (\<lambda>xs. xs) gr 32 = Inr geo"
proof -
  obtain gr where g: "build_allocation_graph (sample_device 65536) ext4_world = (Inr gr, ext4_world)" "ag_total_blocks gr = 64"
    using sample_graph by blast
  from relocation_geometry_exact [OF g(1), of "\<lambda>xs. xs" 32] g show ?thesis by (auto simp: word_less_nat_alt)
qed

end
