(* ===== verification/Fsx_Ext4_Metadata_Laws.thy ===== *)
theory Fsx_Ext4_Metadata_Laws
  imports Fsx_Ext4_Metadata Fsx_Allocation_Laws
begin

text \<open>
  What the checksums and the integrity check of the ext4 metadata promise: an updated buffer verifies,
  a report that is clean has counters that agree with the bitmaps, and why no filesystem with 1 KiB blocks
  is ever reported clean.
\<close>

section \<open>Updated buffers verify\<close>

lemma halves [simp]: "ucast (ucast c :: u16) OR push_bit 16 (ucast (ucast (drop_bit 16 c) :: u16)) = (c :: u32)"
  by (rule bit_word_eqI) (auto simp: bit_simps)

lemma low_half [simp]: "ucast (ucast c :: u16) AND 0xffff = (c :: u32) AND 0xffff"
proof -
  have m: "(0xffff :: u32) = mask 16" by (simp add: mask_eq_exp_minus_1)
  show ?thesis unfolding m by (auto intro!: bit_word_eqI simp: bit_simps)
qed

lemma write_le16_overwrite: "off + 2 \<le> length b \<Longrightarrow> write_le16 (write_le16 b off v) off u = write_le16 b off u"
  by (simp add: write_le16_def write_le_overwrite)

lemma bitmap_checksum_stored:
  assumes "update_bitmap_checksum ino n ctx gd bm = Inr gd'" and "32 \<le> length gd"
  shows "verify_bitmap_checksum ino n ctx gd' bm = Inr True" "length gd' = length gd"
  using assms
  by (auto simp: update_bitmap_checksum_def verify_bitmap_checksum_def descriptor_bitmap_checksum_def Let_def buf_simps
      split: if_split_asm)

text \<open>A checksum field of the descriptor is not touched by writing the others.\<close>

lemma verify_bitmap_cong:
  assumes "length gd' = length gd" "read_le16 gd' GD_BLOCK_CSUM_LO = read_le16 gd GD_BLOCK_CSUM_LO"
    "read_le16 gd' GD_INODE_CSUM_LO = read_le16 gd GD_INODE_CSUM_LO"
    "GD_BLOCK_CSUM_HI + 2 \<le> length gd \<Longrightarrow> read_le16 gd' GD_BLOCK_CSUM_HI = read_le16 gd GD_BLOCK_CSUM_HI"
    "GD_INODE_CSUM_HI + 2 \<le> length gd \<Longrightarrow> read_le16 gd' GD_INODE_CSUM_HI = read_le16 gd GD_INODE_CSUM_HI"
  shows "verify_bitmap_checksum ino n ctx gd' bm = verify_bitmap_checksum ino n ctx gd bm"
  using assms by (simp add: verify_bitmap_checksum_def descriptor_bitmap_checksum_def Let_def)

lemma update_inode_bitmap_keeps:
  assumes "update_bitmap_checksum True n ctx gd bm = Inr gd'" and "32 \<le> length gd"
  shows "verify_bitmap_checksum False m ctx gd' bb = verify_bitmap_checksum False m ctx gd bb"
  using assms
  by (auto simp: update_bitmap_checksum_def verify_bitmap_checksum_def descriptor_bitmap_checksum_def Let_def buf_simps
      split: if_split_asm)

lemma group_checksum_stored:
  assumes "update_group_descriptor_checksum ctx g gd = Inr gd'"
  shows "verify_group_descriptor_checksum ctx g gd' = Inr True" "length gd' = length gd"
    and "verify_bitmap_checksum ino n ctx gd' bm = verify_bitmap_checksum ino n ctx gd bm"
proof -
  show "verify_group_descriptor_checksum ctx g gd' = Inr True" "length gd' = length gd"
    using assms
    by (auto simp: update_group_descriptor_checksum_def verify_group_descriptor_checksum_def Let_def buf_simps
        write_le16_overwrite split: if_split_asm)
  show "verify_bitmap_checksum ino n ctx gd' bm = verify_bitmap_checksum ino n ctx gd bm"
    using assms by (auto simp: update_group_descriptor_checksum_def Let_def buf_simps intro!: verify_bitmap_cong split: if_split_asm)
qed

text \<open>C23. Updating a group: after the checksums of the block bitmap, of the inode bitmap and of the descriptor
  were stored in this order, all three verify.\<close>

theorem group_checksums_roundtrip:
  assumes "update_block_bitmap_checksum ctx gd bb = Inr gd1" and "update_inode_bitmap_checksum ctx gd1 ib = Inr gd2"
    and "update_group_descriptor_checksum ctx g gd2 = Inr gd3" and "32 \<le> length gd"
  shows "verify_block_bitmap_checksum ctx gd3 bb = Inr True \<and> verify_inode_bitmap_checksum ctx gd3 ib = Inr True
    \<and> verify_group_descriptor_checksum ctx g gd3 = Inr True \<and> length gd3 = length gd"
proof -
  note b = bitmap_checksum_stored [OF assms(1) [unfolded update_block_bitmap_checksum_def] assms(4)]
  have l1: "32 \<le> length gd1" using b(2) assms(4) by simp
  note i = bitmap_checksum_stored [OF assms(2) [unfolded update_inode_bitmap_checksum_def] l1]
  show ?thesis
    using b i group_checksum_stored [OF assms(3)] update_inode_bitmap_keeps [OF assms(2) [unfolded update_inode_bitmap_checksum_def] l1]
    by (simp add: verify_block_bitmap_checksum_def verify_inode_bitmap_checksum_def)
qed

lemma has_hi_write_le16:
  assumes "off + 2 \<le> length b" "off + 2 \<le> INODE_EXTRA_ISIZE \<or> INODE_EXTRA_ISIZE + 2 \<le> off"
  shows "inode_has_hi_checksum (write_le16 b off v) = inode_has_hi_checksum b"
  using assms by (auto simp: inode_has_hi_checksum_def buf_simps)

lemma inode_checksum_stored:
  assumes "update_inode_checksum ctx ino raw = Inr raw'"
  shows "verify_inode_checksum ctx ino raw' = Inr True"
proof (cases "mc_metadata_csum ctx")
  case True
  have len: "128 \<le> length raw" using assms True by (simp add: update_inode_checksum_def not_less split: if_split_asm)
  let ?c = "compute_inode_checksum ctx ino raw"
  let ?r1 = "write_le16 raw INODE_CSUM_LO (ucast ?c)"
  have hi1: "inode_has_hi_checksum ?r1 = inode_has_hi_checksum raw" using len by (simp add: has_hi_write_le16)
  have raw': "raw' = (if inode_has_hi_checksum raw then write_le16 ?r1 INODE_CSUM_HI (ucast (drop_bit 16 ?c)) else ?r1)"
    using assms True len hi1 by (simp add: update_inode_checksum_def Let_def)
  have l: "INODE_CSUM_HI + 2 \<le> length raw" if "inode_has_hi_checksum raw" using that by (simp add: inode_has_hi_checksum_def split: if_split_asm)
  have hi: "inode_has_hi_checksum raw' = inode_has_hi_checksum raw" using len l hi1 by (auto simp: raw' has_hi_write_le16)
  have swap: "write_le16 (write_le16 b INODE_CSUM_HI x) INODE_CSUM_LO 0 = write_le16 (write_le16 b INODE_CSUM_LO 0) INODE_CSUM_HI x"
    if "INODE_CSUM_HI + 2 \<le> length b" for b x
    using that by (intro nth_equalityI) (auto simp: write_le16_def nth_write_le_loop)
  have clear: "clear_inode_checksum raw' = clear_inode_checksum raw"
    using len l hi by (auto simp: clear_inode_checksum_def Let_def raw' write_le16_overwrite swap)
  have "compute_inode_checksum ctx ino raw' = ?c" by (simp add: compute_inode_checksum_def clear)
  then show ?thesis
    using True len l hi by (auto simp: verify_inode_checksum_def Let_def raw' buf_simps)
qed (use assms in \<open>simp add: verify_inode_checksum_def update_inode_checksum_def\<close>)

lemma extent_checksum_stored:
  assumes "update_extent_block_checksum ctx ino gen block = Inr block'"
  shows "verify_extent_block_checksum ctx ino gen block' = Inr True"
proof (cases "mc_metadata_csum ctx")
  case True
  then obtain c where c: "compute_extent_checksum ctx ino gen block = Inr c" and b': "block' = write_le32 block (extent_tail block) c"
    using assms by (cases "compute_extent_checksum ctx ino gen block") (auto simp: update_extent_block_checksum_def)
  have len: "extent_tail block + 4 \<le> length block"
    using c by (simp add: compute_extent_checksum_def not_less split: if_split_asm)
  have t12: "12 \<le> extent_tail block" by (simp add: extent_tail_def)
  have t: "extent_tail block' = extent_tail block"
    using len by (simp add: extent_tail_def b' buf_simps)
  have "compute_extent_checksum ctx ino gen block' = Inr c"
    using c len t12 t by (simp add: compute_extent_checksum_def b' buf_simps split: if_split_asm)
  then show ?thesis using True len t by (simp add: verify_extent_block_checksum_def b' buf_simps)
qed (use assms in \<open>simp add: verify_extent_block_checksum_def update_extent_block_checksum_def\<close>)

text \<open>Updated superblocks, inodes and extent blocks verify.\<close>

theorem buffer_checksums_roundtrip:
  "(update_superblock_checksum raw = Inr raw' \<longrightarrow> verify_superblock_checksum raw')
   \<and> (update_inode_checksum ctx ino inode = Inr inode' \<longrightarrow> verify_inode_checksum ctx ino inode' = Inr True)
   \<and> (update_extent_block_checksum ctx ino gen block = Inr block' \<longrightarrow> verify_extent_block_checksum ctx ino gen block' = Inr True)"
proof (intro conjI impI)
  show "verify_superblock_checksum raw'" if "update_superblock_checksum raw = Inr raw'"
    using that by (auto simp: update_superblock_checksum_def verify_superblock_checksum_def buf_simps split: if_split_asm)
qed (fact inode_checksum_stored extent_checksum_stored)+

section \<open>The integrity check\<close>

lemma pure_ext4 [pure_intros]:
  "pure_io (read_superblock d)" "pure_io (read_group_desc d sb g)" "pure_io (read_block_bitmap d sb gd)"
  "pure_io (read_inode_bitmap d sb gd)" "pure_io (read_raw_superblock d)" "pure_io (read_group_descriptor_raw d ctx g)"
  "pure_io (inode_offset d ctx ino)" "pure_io (read_inode_raw d ctx ino)" "pure_io (load_metadata_context d tol)"
proof -
  show s: "pure_io (read_superblock d)" unfolding read_superblock_def by (intro pure_intros)
  show g: "pure_io (read_group_desc d sb g)" for sb g unfolding read_group_desc_def Let_def by (intro pure_intros)
  show "pure_io (read_block_bitmap d sb gd)" "pure_io (read_inode_bitmap d sb gd)"
    unfolding read_block_bitmap_def read_inode_bitmap_def read_bitmap_def Let_def by (intro pure_intros)+
  show r: "pure_io (read_raw_superblock d)" unfolding read_raw_superblock_def by (intro pure_intros)
  show "pure_io (read_group_descriptor_raw d ctx g)" unfolding read_group_descriptor_raw_def Let_def by (intro pure_intros)
  show o: "pure_io (inode_offset d ctx ino)" unfolding inode_offset_def Let_def by (intro pure_intros g)
  show "pure_io (read_inode_raw d ctx ino)" unfolding read_inode_raw_def by (intro pure_intros o)
  show "pure_io (load_metadata_context d tol)" unfolding load_metadata_context_def Let_def by (intro pure_intros s r)
qed

lemma pure_check_inodes [pure_intros]: "pure_io (check_inodes d ctx first ib xs rep)"
  by (induction xs arbitrary: rep) (auto simp: Let_def intro!: pure_intros)

text \<open>The errors of a report only grow.\<close>

lemma mi_report_simps [simp]:
  "mi_errors (mi_report m rep) = mi_errors rep @ [m]"
  "mi_allocated_blocks_from_bitmaps (mi_report m rep) = mi_allocated_blocks_from_bitmaps rep"
  by (simp_all add: mi_report_def)

definition grows :: "metadata_integrity_report \<Rightarrow> metadata_integrity_report \<Rightarrow> bool" where
  "grows rep rep' \<longleftrightarrow> (mi_errors rep' = [] \<longrightarrow> mi_errors rep = [])
     \<and> mi_allocated_blocks_from_bitmaps rep' = mi_allocated_blocks_from_bitmaps rep"

lemma grows_trans: "grows a b \<Longrightarrow> grows b c \<Longrightarrow> grows a c"
  by (simp add: grows_def)

lemma check_inodes_grows: "reads F (grows rep) (check_inodes d ctx first ib xs rep)"
proof (induction xs arbitrary: rep)
  case (Cons i xs)
  have go: "reads F (grows rep) (check_inodes d ctx first ib xs rep')" if "grows rep rep'" for rep'
    by (rule reads_conseq [OF Cons]) (rule grows_trans [OF that])
  show ?case
    unfolding check_inodes.simps Let_def
    by (intro reads_if reads_any pure_intros go) (simp_all add: grows_def)
qed (simp add: reads_intros grows_def)

lemma check_inodes_if: "reads F (grows rep) (if c then check_inodes d ctx first ib xs rep else return_io rep)"
  by (intro reads_if check_inodes_grows reads_simple(1)) (simp add: grows_def)

text \<open>What a group contributes: the bits of its bitmap, and the counters of its descriptor that must agree.\<close>

definition bitmap_of :: "superblock \<Rightarrow> bytes \<Rightarrow> u64 \<Rightarrow> bytes" where
  "bitmap_of sb D g = get_bytes (unat (gd_block_bitmap (desc_of sb D g) * block_size sb)) (unat (block_size sb)) D"

text \<open>The bytes of a descriptor, and the context that a superblock gives.\<close>

definition desc_raw :: "superblock \<Rightarrow> bytes \<Rightarrow> u64 \<Rightarrow> bytes" where
  "desc_raw sb D g =
     get_bytes (unat ((if block_size sb = 1024 then 2 else 1) * block_size sb + g * desc_bytes sb)) (unat (desc_bytes sb)) D"

definition context_of :: "bytes \<Rightarrow> metadata_context" where
  "context_of raw =
     (let sb = parse_superblock raw; csum = (sb_feature_ro_compat sb AND RO_METADATA_CSUM \<noteq> 0)
      in \<lparr>mc_sb = sb, mc_uuid = get_bytes 0x68 16 raw, mc_checksum_seed = metadata_seed raw, mc_metadata_csum = csum,
          mc_gdt_csum = (sb_feature_ro_compat sb AND RO_GDT_CSUM \<noteq> 0 \<or> csum),
          mc_csum_seed_feature = (sb_feature_incompat sb AND INCOMPAT_CSUM_SEED \<noteq> 0)\<rparr>)"

lemma context_of_sb [simp]: "mc_sb (context_of raw) = parse_superblock raw"
  by (simp add: context_of_def Let_def)

definition group_agrees :: "metadata_context \<Rightarrow> bytes \<Rightarrow> u64 \<Rightarrow> bool" where
  "group_agrees ctx D g \<longleftrightarrow> (let sb = mc_sb ctx; used = popcount_bitmap (bitmap_of sb D g) (group_block_count sb g) in
     group_block_count sb g - used = ucast (gd_free_blocks (desc_of sb D g))
     \<and> verify_group_descriptor_checksum ctx g (desc_raw sb D g) = Inr True
     \<and> verify_block_bitmap_checksum ctx (desc_raw sb D g) (bitmap_of sb D g) = Inr True)"

lemma judge_group_errors:
  "mi_allocated_blocks_from_bitmaps (judge_group ctx g gd bb ib a b c rep)
     = mi_allocated_blocks_from_bitmaps rep + popcount_bitmap bb (group_block_count (mc_sb ctx) g)"
  "mi_errors (judge_group ctx g gd bb ib a b c rep) = [] \<Longrightarrow> mi_errors rep = [] \<and> a \<and> b
     \<and> group_block_count (mc_sb ctx) g - popcount_bitmap bb (group_block_count (mc_sb ctx) g) = ucast (gd_free_blocks gd)"
  by (auto simp: judge_group_def Let_def split: if_split_asm)

lemma reads_group_desc: "reads F (\<lambda>gd. gd = desc_of sb (f_data (F (bd_fd d))) g) (read_group_desc d sb g)"
  by (auto simp: reads_def dest: read_group_desc_ok(4) pure_step [OF pure_ext4(2)])

lemma reads_block_bitmap:
  "reads F (\<lambda>b. b = get_bytes (unat (gd_block_bitmap gd * block_size sb)) (unat (block_size sb)) (f_data (F (bd_fd d))))
     (read_block_bitmap d sb gd)"
  unfolding read_block_bitmap_def read_bitmap_def Let_def
  by (intro reads_intros reads_conseq [OF reads_exact]) auto

lemma desc_address_Inr: "desc_address msg sb g = Inr off \<Longrightarrow> off = (if block_size sb = 1024 then 2 else 1) * block_size sb + g * desc_bytes sb"
  by (auto simp: desc_address_def Let_def split: if_split_asm)

lemma reads_desc_raw:
  "reads F (\<lambda>raw. raw = desc_raw (mc_sb ctx) (f_data (F (bd_fd d))) g \<and> length raw = unat (desc_bytes (mc_sb ctx)))
     (read_group_descriptor_raw d ctx g)"
  unfolding read_group_descriptor_raw_def Let_def
  by (intro reads_intros reads_lift_bind reads_conseq [OF reads_exact]) (auto simp: desc_raw_def dest: desc_address_Inr)

text \<open>The loop adds up the bits, and stays without errors only if every group agrees.\<close>

definition tallied :: "metadata_context \<Rightarrow> bytes \<Rightarrow> u64 list \<Rightarrow> metadata_integrity_report \<Rightarrow> metadata_integrity_report \<Rightarrow> bool" where
  "tallied ctx D gs rep rep' \<longleftrightarrow>
     mi_allocated_blocks_from_bitmaps rep' = mi_allocated_blocks_from_bitmaps rep
       + (\<Sum>g\<leftarrow>gs. popcount_bitmap (bitmap_of (mc_sb ctx) D g) (group_block_count (mc_sb ctx) g))
     \<and> (mi_errors rep' = [] \<longrightarrow> mi_errors rep = [] \<and> list_all (group_agrees ctx D) gs)"

lemma tallied_step:
  assumes "grows (judge_group ctx g (desc_of (mc_sb ctx) D g) (bitmap_of (mc_sb ctx) D g) ib a b c rep) rep2"
    and "verify_group_descriptor_checksum ctx g (desc_raw (mc_sb ctx) D g) = Inr a"
    and "verify_block_bitmap_checksum ctx (desc_raw (mc_sb ctx) D g) (bitmap_of (mc_sb ctx) D g) = Inr b"
    and "tallied ctx D gs rep2 rep'"
  shows "tallied ctx D (g # gs) rep rep'"
  using assms judge_group_errors [of ctx g "desc_of (mc_sb ctx) D g" "bitmap_of (mc_sb ctx) D g" ib a b c rep]
  by (auto simp: tallied_def grows_def group_agrees_def Let_def)

lemma check_groups_tallied:
  "reads F (tallied ctx (f_data (F (bd_fd d))) gs rep) (check_metadata_groups d ctx scan gs rep)"
proof (induction gs arbitrary: rep)
  case (Cons g gs)
  let ?D = "f_data (F (bd_fd d))"
  have go: "reads F (tallied ctx ?D (g # gs) rep) (check_metadata_groups d ctx scan gs rep2)"
    if "grows (judge_group ctx g (desc_of (mc_sb ctx) ?D g) (bitmap_of (mc_sb ctx) ?D g) ib a b c rep) rep2"
      "verify_group_descriptor_checksum ctx g (desc_raw (mc_sb ctx) ?D g) = Inr a"
      "verify_block_bitmap_checksum ctx (desc_raw (mc_sb ctx) ?D g) (bitmap_of (mc_sb ctx) ?D g) = Inr b"
    for ib a b c rep2
    by (rule reads_conseq [OF Cons]) (rule tallied_step [OF that])
  show ?case
    unfolding check_metadata_groups.simps Let_def
    by (rule reads_any [OF pure_cancel], rule reads_if, rule reads_simple(2),
        rule reads_bind [OF reads_desc_raw], rule reads_lift_bind, rule reads_bind [OF reads_group_desc],
        rule reads_bind [OF reads_block_bitmap], rule reads_any [OF pure_ext4(4)],
        rule reads_lift_bind, rule reads_lift_bind, rule reads_bind [OF check_inodes_if], rule go)
      (simp_all add: bitmap_of_def)
qed (simp add: reads_intros tallied_def)


text \<open>The bits of all groups, as the allocation graph sees them.\<close>

lemma popcount_nat:
  "unat (popcount_bitmap bm n) = length (filter (\<lambda>i. bit_set bm (of_nat i)) [0..<unat n])"
proof -
  have "length (filter (\<lambda>i. bit_set bm (of_nat i)) [0..<unat n]) \<le> unat n"
    using length_filter_le [of "\<lambda>i. bit_set bm (of_nat i)" "[0..<unat n]"] by simp
  also have "\<dots> < 2 ^ 64" using unat_lt_64 [of n] by simp
  finally show ?thesis by (simp add: popcount_bitmap_def unat_of_nat take_bit_nat_eq_self)
qed

lemma used_map_popcounts:
  "length (used_blocks (used_map sb D) True)
     = (\<Sum>g\<leftarrow>group_list sb. unat (popcount_bitmap (bitmap_of sb D g) (group_block_count sb g)))"
proof -
  have "length (filter (\<lambda>x. snd x) (group_bits sb g bm)) = unat (popcount_bitmap bm (group_block_count sb g))" for g bm
    by (simp add: popcount_nat group_bits_def filter_map comp_def)
  then show ?thesis
    by (simp add: used_blocks_def used_map_def disk_bits_def filter_concat length_concat comp_def bitmap_of_def)
qed

lemma used_map_length:
  assumes "sb_ok sb"
  shows "length (used_blocks (used_map sb D) True) + length (used_blocks (used_map sb D) False)
    = unat (sb_blocks_count sb) - unat (sb_first_data_block sb)"
proof -
  have "map fst (used_map sb D) = concat (map (group_blocks sb) (group_list sb))"
    by (simp add: used_map_def disk_bits_def map_concat comp_def fst_group_bits)
  then have "length (used_map sb D) = unat (sb_blocks_count sb) - unat (sb_first_data_block sb)"
    using groups_tile [OF assms] by (metis length_map length_upt)
  moreover have "length (filter snd xs) + length (filter (\<lambda>x. \<not> snd x) xs) = length xs" for xs :: "(nat \<times> bool) list"
    by (rule sum_length_filter_compl)
  ultimately show ?thesis by (simp add: used_blocks_def)
qed

lemma sum_list_of_nat: "(\<Sum>x\<leftarrow>xs. f x) = (of_nat (\<Sum>x\<leftarrow>xs. unat (f x)) :: u64)"
  by (induction xs) simp_all

lemma judge_totals_clean:
  "mi_clean (judge_totals sb rep) \<longleftrightarrow> mi_errors rep = [] \<and> mi_allocated_blocks_from_bitmaps rep = sb_blocks_count sb - sb_free_blocks sb
     \<and> sb_inodes_count sb - sb_free_inodes sb = mi_allocated_inodes_from_bitmaps rep"
  by (auto simp: judge_totals_def Let_def mi_report_def)

lemma reads_superblock:
  "reads F (\<lambda>sb. sb = parse_superblock (get_bytes 1024 1024 (f_data (F (bd_fd d)))) \<and> sb_ok sb
     \<and> check_superblock (g_size_bytes (bd_geometry d)) sb = Inr ()) (read_superblock d)"
proof (rule readsI)
  fix w r w' assume "w_files w = F" and "read_superblock d w = (r, w')"
  then show "w_files w' = F \<and> (\<forall>sb. r = Inr sb \<longrightarrow> sb = parse_superblock (get_bytes 1024 1024 (f_data (F (bd_fd d)))) \<and> sb_ok sb
     \<and> check_superblock (g_size_bytes (bd_geometry d)) sb = Inr ())"
    using pure_step [OF pure_ext4(1)] read_superblock_ok by metis
qed

lemma reads_raw_superblock:
  "reads F (\<lambda>raw. raw = get_bytes 1024 1024 (f_data (F (bd_fd d))) \<and> length raw = 1024) (read_raw_superblock d)"
  unfolding read_raw_superblock_def by (rule reads_conseq [OF reads_exact]) simp

lemma reads_context:
  "reads F (\<lambda>ctx. ctx = context_of (get_bytes 1024 1024 (f_data (F (bd_fd d)))) \<and> sb_ok (mc_sb ctx)
     \<and> check_superblock (g_size_bytes (bd_geometry d)) (mc_sb ctx) = Inr ()) (load_metadata_context d tol)"
  unfolding load_metadata_context_def Let_def
  by (rule reads_bind [OF reads_superblock], rule reads_bind [OF reads_raw_superblock], intro reads_intros)
    (auto simp: context_of_def Let_def)

lemma check_superblock_counts:
  "check_superblock n s = Inr () \<Longrightarrow> sb_free_blocks s \<le> sb_blocks_count s"
  by (auto simp: check_superblock_def Let_def not_less split: if_split_asm)

definition meta_verdict :: "superblock \<Rightarrow> bytes \<Rightarrow> metadata_integrity_report \<Rightarrow> bool" where
  "meta_verdict sb D rep \<longleftrightarrow> (mi_clean rep \<longrightarrow>
     length (used_blocks (used_map sb D) True) = unat (sb_blocks_count sb - sb_free_blocks sb)
     \<and> list_all (group_agrees (context_of (get_bytes 1024 1024 D)) D) (group_list sb))"

lemma totals_verdict:
  assumes ok: "sb_ok sb" and t: "tallied ctx D (group_list sb) rep rep'" and sb: "mc_sb ctx = sb" "ctx = context_of (get_bytes 1024 1024 D)"
    and z: "mi_allocated_blocks_from_bitmaps rep = 0"
  shows "meta_verdict sb D (judge_totals sb rep')"
proof -
  let ?n = "length (used_blocks (used_map sb D) True)"
  have "mi_allocated_blocks_from_bitmaps rep' = of_nat ?n"
    using t z unfolding tallied_def sb(1) used_map_popcounts by (simp add: sum_list_of_nat)
  moreover have "?n \<le> unat (sb_blocks_count sb)" using used_map_length [OF ok, of D] by linarith
  then have "?n < 2 ^ 64" using unat_lt_64 [of "sb_blocks_count sb"] by simp
  ultimately have "unat (mi_allocated_blocks_from_bitmaps rep') = ?n" by (simp add: unat_of_nat take_bit_nat_eq_self)
  then show ?thesis using t sb by (auto simp: meta_verdict_def judge_totals_clean tallied_def)
qed

lemma verify_metadata_verdict:
  "reads F (meta_verdict (parse_superblock (get_bytes 1024 1024 (f_data (F (bd_fd d))))) (f_data (F (bd_fd d)))) (verify_metadata d scan)"
  unfolding verify_metadata_def Let_def
  by (rule reads_any [OF pure_ext4(5)], rule reads_any [OF pure_ext4(1)], rule reads_bind [OF reads_context],
      rule reads_bind [OF check_groups_tallied], rule reads_simple(1))
    (auto intro!: totals_verdict)



text \<open>C25. The check never accepts a filesystem whose first data block is not block 0, that is, one with 1 KiB
  blocks: when the superblock's counter of free blocks is right, the report is not clean.\<close>

theorem verify_metadata_small_blocks:
  assumes "verify_metadata d scan w = (Inr rep, w')" and "sb = parse_superblock (get_bytes 1024 1024 (data_of d w))"
    and "sb_first_data_block sb \<noteq> 0" and "unat (sb_free_blocks sb) = length (used_blocks (used_map sb (data_of d w)) False)"
  shows "\<not> mi_clean rep"
proof
  assume "mi_clean rep"
  with readsD(2) [OF verify_metadata_verdict refl assms(1)]
  have used: "length (used_blocks (used_map sb (data_of d w)) True) = unat (sb_blocks_count sb - sb_free_blocks sb)"
    by (simp add: meta_verdict_def assms(2))
  obtain raw w1 where raw: "read_raw_superblock d w = (Inr raw, w1)" and k: "fst (read_superblock d w1) \<in> range Inr"
    by (rule bind_io_OkE [OF assms(1) [unfolded verify_metadata_def]], erule bind_io_OkE) simp
  then obtain sb' w2 where sb': "read_superblock d w1 = (Inr sb', w2)" by (cases "read_superblock d w1") auto
  have w1: "w_files w1 = w_files w" by (rule pure_step [OF pure_ext4(5) raw])
  have sbe: "sb' = sb" using read_superblock_ok(3) [OF sb'] w1 assms(2) by simp
  have ok: "sb_ok sb" and le: "sb_free_blocks sb \<le> sb_blocks_count sb"
    using read_superblock_ok(1,2) [OF sb'] check_superblock_counts sbe by auto
  have "unat (sb_first_data_block sb) \<noteq> 0" using assms(3) by (simp add: unat_eq_0)
  moreover have "unat (sb_first_data_block sb) < unat (sb_blocks_count sb)" using ok by (simp add: sb_ok_def)
  moreover have "unat (sb_blocks_count sb - sb_free_blocks sb) = unat (sb_blocks_count sb) - unat (sb_free_blocks sb)"
    using le by (simp add: unat_sub_le)
  moreover have "unat (sb_free_blocks sb) \<le> unat (sb_blocks_count sb)" using le by (simp add: word_le_nat_alt)
  ultimately show False using used_map_length [OF ok, of "data_of d w"] used assms(4) by linarith
qed


section \<open>Samples\<close>

text \<open>A filesystem without used blocks that starts at block \<open>f\<close> and says that it has \<open>n\<close> free blocks.\<close>

definition meta_super :: "u32 \<Rightarrow> u32 \<Rightarrow> bytes" where
  "meta_super f n = write_le32 (write_le32 (write_le32 sample_super 0x14 f) 0x0c n) 0x10 8"

definition meta_desc :: "u32 \<Rightarrow> bytes" where
  "meta_desc n = write_le16 (write_le16 sample_desc 12 (ucast n)) 14 8"

definition meta_world :: "u32 \<Rightarrow> u32 \<Rightarrow> world" where
  "meta_world f n = sample_world (put_bytes 2048 (meta_desc n) (put_bytes 1024 (meta_super f n) (replicate 65536 0))) []"

lemma meta_super_fields:
  "read_le32 (meta_super f n) 0 = 8" "read_le32 (meta_super f n) 4 = 64" "read_le32 (meta_super f n) 8 = 0"
  "read_le32 (meta_super f n) 12 = n" "read_le32 (meta_super f n) 16 = 8" "read_le32 (meta_super f n) 20 = f"
  "read_le32 (meta_super f n) 24 = 0" "read_le32 (meta_super f n) 32 = 8192" "read_le32 (meta_super f n) 40 = 8"
  "read_le16 (meta_super f n) 56 = 0xEF53" "read_le16 (meta_super f n) 88 = 128" "read_le32 (meta_super f n) 96 = 0"
  "read_le32 (meta_super f n) 100 = 0" "read_le16 (meta_super f n) 254 = 0" "length (meta_super f n) = 1024"
  by (simp_all add: meta_super_def buf_simps sample_super_fields)

lemma meta_desc_fields:
  "read_le32 (meta_desc n) 0 = 3" "read_le32 (meta_desc n) 4 = 4" "read_le32 (meta_desc n) 8 = 5" "read_le16 (meta_desc n) 12 = ucast n"
  "read_le16 (meta_desc n) 14 = 8" "length (meta_desc n) = 32"
  by (simp_all add: meta_desc_def sample_desc_fields buf_simps)

definition meta_sb :: "u32 \<Rightarrow> u32 \<Rightarrow> superblock" where
  "meta_sb f n = parse_superblock (meta_super f n)"

lemma meta_sb_fields:
  "sb_inodes_count (meta_sb f n) = 8" "sb_blocks_count (meta_sb f n) = 64" "sb_first_data_block (meta_sb f n) = f"
  "sb_blocks_per_group (meta_sb f n) = 8192" "sb_inodes_per_group (meta_sb f n) = 8" "sb_inode_size (meta_sb f n) = 128"
  "sb_feature_incompat (meta_sb f n) = 0" "sb_desc_size (meta_sb f n) = 0" "sb_magic (meta_sb f n) = EXT4_MAGIC"
  "sb_free_blocks (meta_sb f n) = ucast n" "sb_free_inodes (meta_sb f n) = 8" "sb_reserved_blocks (meta_sb f n) = 0"
  "block_size (meta_sb f n) = 1024" "sb_feature_ro_compat (meta_sb f n) = 0"
  by (simp_all add: meta_sb_def parse_superblock_def with_hi_def meta_super_fields EXT4_MAGIC_def block_size_def)

lemma meta_world_facts:
  "calm (meta_world f n)" "on_file (sample_device 65536) (meta_world f n)" "bd_fd (sample_device 65536) = 0"
  "g_size_bytes (bd_geometry (sample_device 65536)) = 65536" "w_cancel (meta_world f n) = []"
  "get_bytes 1024 1024 (f_data (w_files (meta_world f n) k)) = meta_super f n"
  "get_bytes 2048 32 (f_data (w_files (meta_world f n) k)) = meta_desc n"
  "get_bytes 3072 1024 (f_data (w_files (meta_world f n) k)) = replicate 1024 0"
  "get_bytes 4096 1024 (f_data (w_files (meta_world f n) k)) = replicate 1024 0" "length (f_data (w_files (meta_world f n) k)) = 65536"
proof -
  have l: "length (put_bytes 2048 (meta_desc n) (put_bytes 1024 (meta_super f n) (replicate 65536 0))) = 65536"
    by (simp add: buf_simps meta_super_fields meta_desc_fields)
  show "calm (meta_world f n)" "on_file (sample_device 65536) (meta_world f n)" "bd_fd (sample_device 65536) = 0"
    "g_size_bytes (bd_geometry (sample_device 65536)) = 65536" "w_cancel (meta_world f n) = []"
    by (simp_all add: meta_world_def sample_world_def sample_device_def calm_def fault_enabled_def on_file_def off_t_max_def l)
  show "length (f_data (w_files (meta_world f n) k)) = 65536" using l by (simp add: meta_world_def sample_world_def)
  show "get_bytes 1024 1024 (f_data (w_files (meta_world f n) k)) = meta_super f n"
    "get_bytes 2048 32 (f_data (w_files (meta_world f n) k)) = meta_desc n"
    "get_bytes 3072 1024 (f_data (w_files (meta_world f n) k)) = replicate 1024 0"
    "get_bytes 4096 1024 (f_data (w_files (meta_world f n) k)) = replicate 1024 0"
    by (simp_all add: meta_world_def sample_world_def buf_simps meta_super_fields meta_desc_fields)
      (simp_all add: get_bytes_def)
qed


lemma meta_reads:
  assumes "f = 0 \<and> n = 64 \<or> f = 1 \<and> n = 63"
  shows "groups_count (meta_sb f n) = 1" "read_superblock (sample_device 65536) (meta_world f n) = (Inr (meta_sb f n), meta_world f n)"
    "read_raw_superblock (sample_device 65536) (meta_world f n) = (Inr (meta_super f n), meta_world f n)"
proof -
  have rd: "read_exact (sample_device 65536) 1024 1024 (meta_world f n) = (Inr (meta_super f n), meta_world f n)"
    using read_exact_calm [OF meta_world_facts(1,2), of 1024 1024 f n] by (simp add: meta_world_facts)
  show g: "groups_count (meta_sb f n) = 1"
    using assms by (elim disjE conjE; hypsubst) (simp_all add: groups_count_def meta_sb_fields)
  have "check_superblock 65536 (meta_sb f n) = Inr ()"
    using assms by (auto simp: check_superblock_def meta_sb_fields g Let_def word_le_nat_alt word_less_nat_alt)
  then show "read_superblock (sample_device 65536) (meta_world f n) = (Inr (meta_sb f n), meta_world f n)"
    by (simp add: read_superblock_def bind_io_def meta_world_facts rd meta_sb_def)
  show "read_raw_superblock (sample_device 65536) (meta_world f n) = (Inr (meta_super f n), meta_world f n)"
    by (simp add: read_raw_superblock_def rd)
qed

lemma meta_group:
  assumes fn: "f = 0 \<and> n = 64 \<or> f = 1 \<and> n = 63"
  defines "gd \<equiv> parse_group_desc (meta_sb f n) 32 (meta_desc n)"
  shows "read_group_desc (sample_device 65536) (meta_sb f n) 0 (meta_world f n) = (Inr gd, meta_world f n)"
    "read_block_bitmap (sample_device 65536) (meta_sb f n) gd (meta_world f n) = (Inr (replicate 1024 0), meta_world f n)"
    "read_inode_bitmap (sample_device 65536) (meta_sb f n) gd (meta_world f n) = (Inr (replicate 1024 0), meta_world f n)"
    "gd_free_blocks gd = n" "gd_free_inodes gd = 8"
proof -
  have rd: "read_exact (sample_device 65536) 2048 32 (meta_world f n) = (Inr (meta_desc n), meta_world f n)"
    using read_exact_calm [OF meta_world_facts(1,2), of 2048 32 f n] by (simp add: meta_world_facts)
  have g: "gd_block_bitmap gd = 3" "gd_inode_bitmap gd = 4" "gd_inode_table gd = 5"
    by (simp_all add: gd_def parse_group_desc_def with_hi_def meta_desc_fields Let_def meta_sb_fields)
  show "gd_free_blocks gd = n" "gd_free_inodes gd = 8"
    using fn by (auto simp: gd_def parse_group_desc_def meta_desc_fields Let_def meta_sb_fields)
  have "check_group_desc (meta_sb f n) gd = Inr ()"
    using g by (simp add: check_group_desc_def meta_sb_fields inode_table_blocks_def word_le_nat_alt word_less_nat_alt)
  then show "read_group_desc (sample_device 65536) (meta_sb f n) 0 (meta_world f n) = (Inr gd, meta_world f n)"
    using rd by (simp add: read_group_desc_def meta_sb_fields meta_reads(1) [OF fn] bind_io_def word_le_nat_alt word_less_nat_alt unat_div
        unsigned_minus_1_eq_mask mask_eq_exp_minus_1 gd_def)
  show "read_block_bitmap (sample_device 65536) (meta_sb f n) gd (meta_world f n) = (Inr (replicate 1024 0), meta_world f n)"
    "read_inode_bitmap (sample_device 65536) (meta_sb f n) gd (meta_world f n) = (Inr (replicate 1024 0), meta_world f n)"
    using read_exact_calm [OF meta_world_facts(1,2), of 3072 1024 f n] read_exact_calm [OF meta_world_facts(1,2), of 4096 1024 f n]
    by (simp_all add: read_block_bitmap_def read_inode_bitmap_def read_bitmap_def g meta_sb_fields meta_world_facts word_le_nat_alt
        word_less_nat_alt unat_div unsigned_minus_1_eq_mask mask_eq_exp_minus_1)
qed

lemma bit_set_zero [simp]: "\<not> bit_set (replicate n 0) k"
  by (simp add: bit_set_def Let_def)

lemma meta_run:
  assumes fn: "f = 0 \<and> n = 64 \<or> f = 1 \<and> n = 63"
  shows "\<exists>rep. verify_metadata (sample_device 65536) False (meta_world f n) = (Inr rep, meta_world f n) \<and> (mi_clean rep \<longleftrightarrow> f = 0)"
proof -
  let ?d = "sample_device 65536" and ?w = "meta_world f n" and ?sb = "meta_sb f n"
  let ?gd = "parse_group_desc ?sb 32 (meta_desc n)"
  note r = meta_reads [OF fn] meta_group [OF fn]
  have gl: "group_list ?sb = [0]" by (simp add: group_list_def r(1))
  have vs: "verify_superblock_checksum (meta_super f n)"
    by (simp add: verify_superblock_checksum_def meta_super_fields)
  obtain ctx where ctx: "load_metadata_context ?d False ?w = (Inr ctx, ?w)" and
    c: "mc_sb ctx = ?sb" "\<not> mc_metadata_csum ctx" "\<not> mc_gdt_csum ctx"
    by (simp add: load_metadata_context_def bind_io_def r meta_sb_fields)
  have rd: "read_exact ?d 2048 32 ?w = (Inr (meta_desc n), ?w)"
    using read_exact_calm [OF meta_world_facts(1,2), of 2048 32 f n] by (simp add: meta_world_facts)
  have raw: "read_group_descriptor_raw ?d ctx 0 ?w = (Inr (meta_desc n), ?w)"
    using rd by (simp add: read_group_descriptor_raw_def c r(1) meta_sb_fields desc_bytes_def desc_address_def Let_def bind_io_def
        word_le_nat_alt word_less_nat_alt unat_div unsigned_minus_1_eq_mask mask_eq_exp_minus_1)
  have cancel: "cancellation_requested ?w = (Inr False, ?w)" by (simp add: cancellation_requested_def meta_world_facts)
  have step: "check_metadata_groups ?d ctx False [0] rep ?w = (Inr (judge_group ctx 0 ?gd (replicate 1024 0) (replicate 1024 0) True True True rep), ?w)" for rep
    by (simp add: bind_io_def cancel raw r c verify_group_descriptor_checksum_def verify_block_bitmap_checksum_def
        verify_inode_bitmap_checksum_def verify_bitmap_checksum_def Let_def)
  have gb: "group_block_count ?sb 0 = ucast n" "group_inode_count ?sb 0 = 8"
    using fn by (auto simp: group_block_count_def group_start_block_def group_inode_count_def first_inode_def meta_sb_fields Let_def
        word_less_nat_alt word_le_nat_alt unat_div min_def unsigned_minus_1_eq_mask mask_eq_exp_minus_1)
  have pc: "popcount_bitmap (replicate 1024 0) k = 0" for k by (simp add: popcount_bitmap_def)
  show ?thesis
    using fn
    by (auto simp: verify_metadata_def bind_io_def r ctx c gl step vs judge_totals_clean judge_group_def Let_def gb pc meta_sb_fields
        simp del: check_metadata_groups.simps)
qed


theorem verify_metadata_small_blocks_witness:
  "\<exists>rep. verify_metadata (sample_device 65536) False (meta_world 1 63) = (Inr rep, meta_world 1 63) \<and> \<not> mi_clean rep"
proof -
  obtain rep where r: "verify_metadata (sample_device 65536) False (meta_world 1 63) = (Inr rep, meta_world 1 63)"
    using meta_run [of 1 63] by auto
  let ?D = "data_of (sample_device 65536) (meta_world 1 63)"
  have sb: "meta_sb 1 63 = parse_superblock (get_bytes 1024 1024 ?D)" by (simp add: meta_sb_def meta_world_facts)
  have g: "gd_block_bitmap (desc_of (meta_sb 1 63) (f_data (w_files (meta_world 1 63) 0)) 0) = 3"
    by (simp add: desc_of_def meta_sb_fields meta_world_facts Let_def parse_group_desc_def with_hi_def meta_desc_fields)
  have "used_blocks (used_map (meta_sb 1 63) ?D) True = []"
    using meta_reads(1) [of 1 63]
    by (simp add: used_blocks_def used_map_def disk_bits_def group_list_def g group_bits_def filter_map comp_def
        meta_sb_fields meta_world_facts)
  moreover have "sb_ok (meta_sb 1 63)" by (simp add: sb_ok_def meta_sb_fields)
  ultimately have "length (used_blocks (used_map (meta_sb 1 63) ?D) False) = 63"
    using used_map_length [of "meta_sb 1 63" ?D] by (simp add: meta_sb_fields)
  with verify_metadata_small_blocks [OF r sb] r show ?thesis by (simp add: meta_sb_fields)
qed

text \<open>Buffers of a filesystem with checksums.\<close>

definition csum_ctx :: metadata_context where
  "csum_ctx = \<lparr>mc_sb = sample_sb, mc_uuid = replicate 16 0, mc_checksum_seed = 1, mc_metadata_csum = True, mc_gdt_csum = True,
     mc_csum_seed_feature = False\<rparr>"

theorem group_checksums_roundtrip_witness:
  "\<exists>gd1 gd2 gd3. update_block_bitmap_checksum csum_ctx (replicate 64 0) (replicate 1024 7) = Inr gd1
     \<and> update_inode_bitmap_checksum csum_ctx gd1 (replicate 1024 9) = Inr gd2
     \<and> update_group_descriptor_checksum csum_ctx 3 gd2 = Inr gd3
     \<and> verify_block_bitmap_checksum csum_ctx gd3 (replicate 1024 7) = Inr True"
proof -
  have ub: "\<exists>gd'. update_bitmap_checksum ino n csum_ctx gd bm = Inr gd' \<and> length gd' = length gd" for ino n gd bm
    by (simp add: update_bitmap_checksum_def csum_ctx_def Let_def)
  have ug: "\<exists>gd'. update_group_descriptor_checksum csum_ctx g gd = Inr gd'" if "32 \<le> length gd" for g gd
    using that by (simp add: update_group_descriptor_checksum_def csum_ctx_def Let_def)
  obtain gd1 where 1: "update_block_bitmap_checksum csum_ctx (replicate 64 0) (replicate 1024 7) = Inr gd1" "length gd1 = 64"
    using ub [of False _ "replicate 64 0" "replicate 1024 7"] by (auto simp: update_block_bitmap_checksum_def)
  obtain gd2 where 2: "update_inode_bitmap_checksum csum_ctx gd1 (replicate 1024 9) = Inr gd2" "length gd2 = 64"
    using ub [of True _ gd1 "replicate 1024 9"] 1(2) by (auto simp: update_inode_bitmap_checksum_def)
  obtain gd3 where 3: "update_group_descriptor_checksum csum_ctx 3 gd2 = Inr gd3" using ug [of gd2 3] 2(2) by auto
  from group_checksums_roundtrip [OF 1(1) 2(1) 3] 1 2 3 show ?thesis by auto
qed

theorem buffer_checksums_roundtrip_witness:
  "\<exists>inode'. update_inode_checksum csum_ctx 12 (replicate 256 1) = Inr inode' \<and> verify_inode_checksum csum_ctx 12 inode' = Inr True"
proof -
  obtain inode' where i: "update_inode_checksum csum_ctx 12 (replicate 256 1) = Inr inode'"
    by (simp add: update_inode_checksum_def csum_ctx_def Let_def)
  with buffer_checksums_roundtrip [of "[]" "[]" csum_ctx 12 "replicate 256 1" inode' 0 "[]" "[]"] show ?thesis by blast
qed

end
