(* ===== verification/Fsx_Extents.thy ===== *)
theory Fsx_Extents
  imports Fsx_Ext4_Metadata_Laws
begin

text \<open>
  Extent trees, \<^verbatim>\<open>src/ext4/extents.cpp\<close>: which inode owns which blocks. The parser walks the
  tree of an inode; the depth of a node is one less than that of its parent, so the recursion is on the
  depth the caller expects. \<^verbatim>\<open>std::sort\<close> by the start of an extent leaves ties open and is an argument.
  Progress reports are left out.
\<close>

section \<open>Model\<close>

datatype extent_ref_kind = Inode_root | Extent_block

record extent_reference =
  er_kind :: extent_ref_kind
  er_container_byte_offset :: u64
  er_container_block :: u64
  er_entry_offset :: u32
  er_tree_depth :: u16

record owned_extent =
  oe_inode :: u64
  oe_logical_block :: u64
  oe_physical_block :: u64
  oe_length :: u64
  oe_inode_generation :: u32
  oe_unwritten :: bool
  oe_reference :: extent_reference

definition oe_end :: "owned_extent \<Rightarrow> u64" where
  "oe_end e = oe_physical_block e + oe_length e"

record extent_tree_block =
  tb_inode :: u64
  tb_physical_block :: u64
  tb_parent_container_byte_offset :: u64
  tb_parent_entry_offset :: u32
  tb_depth :: u16

record owner_scan =
  os_inodes_examined :: u64
  os_allocated_inodes :: u64
  os_extent_inodes :: u64
  os_legacy_blockmap_inodes :: u64
  os_corrupt_inodes :: u64
  os_total_extent_records :: u64
  os_retained_extent_blocks :: u64
  os_retained_tree_blocks :: u64
  os_extents :: "owned_extent list"
  os_tree_blocks :: "extent_tree_block list"

definition EXT4_EXTENTS_FL :: u32 where "EXT4_EXTENTS_FL = 0x00080000"
definition EXTENT_MAGIC :: u16 where "EXTENT_MAGIC = 0xf30a"
abbreviation INODE_I_BLOCK_OFF :: nat where "INODE_I_BLOCK_OFF \<equiv> 40"
abbreviation INODE_I_BLOCK_LEN :: nat where "INODE_I_BLOCK_LEN \<equiv> 60"
abbreviation INODE_FLAGS_OFF :: nat where "INODE_FLAGS_OFF \<equiv> 32"
abbreviation INODE_GENERATION_OFF :: nat where "INODE_GENERATION_OFF \<equiv> 100"

record parse_ctx =
  pc_dev :: block_device
  pc_sb :: superblock
  pc_inode :: u64
  pc_generation :: u32
  pc_retain_from :: u64
  pc_metadata :: "metadata_context option"

text \<open>What the parser changes: the blocks it has visited and the scan it fills.\<close>

type_synonym parse_state = "u64 set \<times> owner_scan"

definition inode_msg :: "parse_ctx \<Rightarrow> string \<Rightarrow> string" where
  "inode_msg c rest = ''inode '' @ digits (unat (pc_inode c)) @ rest"

definition check_node :: "parse_ctx \<Rightarrow> bytes \<Rightarrow> u16 \<Rightarrow> extent_ref_kind \<Rightarrow> nat result" where
  "check_node c node expected_depth kind =
     (if length node < 12 then fail Errc_corrupt ''extent node is truncated''
      else
      bind_result (case pc_metadata c of
          Some m \<Rightarrow> if kind = Extent_block \<and> mc_metadata_csum m
                    then verify_extent_block_checksum m (pc_inode c) (pc_generation c) node else Inr True
        | None \<Rightarrow> Inr True) (\<lambda>ok.
      if \<not> ok then fail Errc_corrupt (inode_msg c '' extent block checksum mismatch'')
      else
      let magic = read_le16 node 0; entries = read_le16 node 2; max_entries = read_le16 node 4; depth = read_le16 node 6
      in if magic \<noteq> EXTENT_MAGIC then fail Errc_corrupt (inode_msg c '' has invalid extent magic'')
         else if depth \<noteq> expected_depth then fail Errc_corrupt (inode_msg c '' extent depth mismatch'')
         else if depth > 5 then fail Errc_corrupt (inode_msg c '' extent tree depth is unreasonable'')
         else if entries > max_entries \<or> unat entries > (length node - 12) div 12
         then fail Errc_corrupt (inode_msg c '' extent entry count exceeds node capacity'')
         else Inr (unat entries)))"

definition entry_offset :: "nat \<Rightarrow> nat" where
  "entry_offset i = 12 + i * 12"

definition leaf_logical :: "bytes \<Rightarrow> nat \<Rightarrow> u64" where
  "leaf_logical node i = ucast (read_le32 node (entry_offset i))"

definition leaf_raw_len :: "bytes \<Rightarrow> nat \<Rightarrow> u16" where
  "leaf_raw_len node i = read_le16 node (entry_offset i + 4)"

definition leaf_unwritten :: "bytes \<Rightarrow> nat \<Rightarrow> bool" where
  "leaf_unwritten node i \<longleftrightarrow> leaf_raw_len node i > 32768"

definition leaf_len :: "bytes \<Rightarrow> nat \<Rightarrow> u64" where
  "leaf_len node i = (if leaf_unwritten node i then ucast (leaf_raw_len node i - 32768) else ucast (leaf_raw_len node i))"

definition leaf_physical :: "bytes \<Rightarrow> nat \<Rightarrow> u64" where
  "leaf_physical node i =
     push_bit 32 (ucast (read_le16 node (entry_offset i + 6))) OR ucast (read_le32 node (entry_offset i + 8))"

definition index_child :: "bytes \<Rightarrow> nat \<Rightarrow> u64" where
  "index_child node i =
     push_bit 32 (ucast (read_le16 node (entry_offset i + 8))) OR ucast (read_le32 node (entry_offset i + 4))"

text \<open>The loop over the extents of a leaf; \<open>prev\<close> is \<^verbatim>\<open>last_logical_end\<close>, \<open>None\<close> before the first one.\<close>

fun leaf_entries :: "parse_ctx \<Rightarrow> bytes \<Rightarrow> u64 \<Rightarrow> u64 \<Rightarrow> extent_ref_kind \<Rightarrow> nat list \<Rightarrow> u64 option \<Rightarrow> owner_scan
    \<Rightarrow> owner_scan result" where
  "leaf_entries c node cbo cblk kind [] prev out = Inr out"
| "leaf_entries c node cbo cblk kind (i # is) prev out =
     (let logical = leaf_logical node i; len = leaf_len node i; physical = leaf_physical node i; n = sb_blocks_count (pc_sb c)
      in if leaf_raw_len node i = 0 then fail Errc_corrupt (inode_msg c '' contains zero-length extent'')
         else if physical = 0 \<or> physical \<ge> n \<or> len > n - physical
         then fail Errc_corrupt (inode_msg c '' extent points outside filesystem'')
         else if (case prev of None \<Rightarrow> False | Some e \<Rightarrow> logical < e)
         then fail Errc_corrupt (inode_msg c '' extent tree is not logically ordered'')
         else
         let out1 = out\<lparr>os_total_extent_records := os_total_extent_records out + 1\<rparr>;
             ext = \<lparr>oe_inode = pc_inode c, oe_logical_block = logical, oe_physical_block = physical, oe_length = len,
                    oe_inode_generation = pc_generation c, oe_unwritten = leaf_unwritten node i,
                    oe_reference = \<lparr>er_kind = kind, er_container_byte_offset = cbo, er_container_block = cblk,
                      er_entry_offset = of_nat (entry_offset i), er_tree_depth = 0\<rparr>\<rparr>;
             out2 = (if physical + len > pc_retain_from c
                     then out1\<lparr>os_extents := os_extents out1 @ [ext],
                               os_retained_extent_blocks := os_retained_extent_blocks out1 + len\<rparr>
                     else out1)
         in leaf_entries c node cbo cblk kind is (Some (logical + len)) out2)"

text \<open>The loop over the children of an index node; \<open>sub\<close> parses a child and \<open>prev\<close> is \<^verbatim>\<open>last_index\<close>.\<close>

fun index_entries :: "(bytes \<Rightarrow> u64 \<Rightarrow> u64 \<Rightarrow> extent_ref_kind \<Rightarrow> parse_state \<Rightarrow> parse_state io) \<Rightarrow> parse_ctx \<Rightarrow> bytes \<Rightarrow> u64
    \<Rightarrow> nat \<Rightarrow> nat list \<Rightarrow> u64 option \<Rightarrow> parse_state \<Rightarrow> parse_state io" where
  "index_entries sub c node cbo depth [] prev st = return_io st"
| "index_entries sub c node cbo depth (i # is) prev st =
     (let logical = leaf_logical node i; child = index_child node i; bs = block_size (pc_sb c); visited = fst st; out = snd st
      in if (case prev of None \<Rightarrow> False | Some l \<Rightarrow> logical \<le> l)
         then fail_io Errc_corrupt (inode_msg c '' extent index is not strictly ordered'')
         else if child = 0 \<or> child \<ge> sb_blocks_count (pc_sb c)
         then fail_io Errc_corrupt (inode_msg c '' extent index points outside filesystem'')
         else if child \<in> visited then fail_io Errc_corrupt (inode_msg c '' extent tree contains a cycle'')
         else
         let out1 = (if child \<ge> pc_retain_from c
                     then out\<lparr>os_tree_blocks := os_tree_blocks out @ [\<lparr>tb_inode = pc_inode c, tb_physical_block = child,
                                tb_parent_container_byte_offset = cbo, tb_parent_entry_offset = of_nat (entry_offset i),
                                tb_depth = of_nat (depth - 1)\<rparr>],
                              os_retained_tree_blocks := os_retained_tree_blocks out + 1\<rparr>
                     else out)
         in bind_io (read_exact (pc_dev c) (child * bs) (unat bs)) (\<lambda>buf.
            bind_io (sub buf (child * bs) child Extent_block (insert child visited, out1)) (\<lambda>st'.
            index_entries sub c node cbo depth is (Some logical) st')))"

primrec parse_node :: "nat \<Rightarrow> parse_ctx \<Rightarrow> bytes \<Rightarrow> u64 \<Rightarrow> u64 \<Rightarrow> extent_ref_kind \<Rightarrow> parse_state \<Rightarrow> parse_state io" where
  "parse_node 0 c node cbo cblk kind st =
     bind_io (lift_io (check_node c node 0 kind)) (\<lambda>entries.
     bind_io (lift_io (leaf_entries c node cbo cblk kind [0..<entries] None (snd st))) (\<lambda>out.
     return_io (fst st, out)))"
| "parse_node (Suc n) c node cbo cblk kind st =
     bind_io (lift_io (check_node c node (of_nat (Suc n)) kind)) (\<lambda>entries.
     index_entries (parse_node n c) c node cbo (Suc n) [0..<entries] None st)"

definition parse_extent_node :: "parse_ctx \<Rightarrow> bytes \<Rightarrow> u16 \<Rightarrow> u64 \<Rightarrow> u64 \<Rightarrow> extent_ref_kind \<Rightarrow> parse_state \<Rightarrow> parse_state io" where
  "parse_extent_node c node expected_depth cbo cblk kind st = parse_node (unat expected_depth) c node cbo cblk kind st"

definition inode_allocated :: "bytes \<Rightarrow> u64 \<Rightarrow> bool" where
  "inode_allocated bm idx = bit_set bm idx"

definition empty_scan :: owner_scan where
  "empty_scan = \<lparr>os_inodes_examined = 0, os_allocated_inodes = 0, os_extent_inodes = 0, os_legacy_blockmap_inodes = 0,
     os_corrupt_inodes = 0, os_total_extent_records = 0, os_retained_extent_blocks = 0, os_retained_tree_blocks = 0,
     os_extents = [], os_tree_blocks = []\<rparr>"

text \<open>The part that both scans share: the extent tree in an inode, from its root on.\<close>

definition parse_inode :: "block_device \<Rightarrow> superblock \<Rightarrow> metadata_context \<Rightarrow> u64 \<Rightarrow> u64 \<Rightarrow> u64 \<Rightarrow> bytes \<Rightarrow> owner_scan \<Rightarrow> owner_scan io" where
  "parse_inode d sb mctx retain_from ino inode_abs inode out =
     (let gen = read_le32 inode INODE_GENERATION_OFF; root = get_bytes INODE_I_BLOCK_OFF INODE_I_BLOCK_LEN inode;
          c = \<lparr>pc_dev = d, pc_sb = sb, pc_inode = ino, pc_generation = gen, pc_retain_from = retain_from, pc_metadata = Some mctx\<rparr>;
          depth = (if length root \<ge> 8 then read_le16 root 6 else - 1)
      in bind_io (parse_extent_node c root depth (inode_abs + 40) 0 Inode_root ({}, out)) (\<lambda>st. return_io (snd st)))"

definition scan_specific_inode :: "(owned_extent list \<Rightarrow> owned_extent list) \<Rightarrow> block_device \<Rightarrow> superblock \<Rightarrow> u64 \<Rightarrow> u64 \<Rightarrow> owner_scan io" where
  "scan_specific_inode srt d sb ino retain_from =
     (let z = ino - 1; grp = z div ucast (sb_inodes_per_group sb); idx = z mod ucast (sb_inodes_per_group sb)
      in if ino = 0 \<or> ino > sb_inodes_count sb then fail_io Errc_invalid_argument ''inode number outside filesystem''
         else
         bind_io (read_group_desc d sb grp) (\<lambda>gd.
         if gd_flags gd AND BG_INODE_UNINIT \<noteq> 0 then fail_io Errc_not_found ''inode group is uninitialized''
         else
         bind_io (read_inode_bitmap d sb gd) (\<lambda>ib.
         if \<not> inode_allocated ib idx then fail_io Errc_not_found ''inode is not allocated''
         else
         let inode_abs = gd_inode_table gd * block_size sb + idx * ucast (sb_inode_size sb) in
         bind_io (read_exact d inode_abs (unat (sb_inode_size sb))) (\<lambda>inode.
         if read_le16 inode 0 = 0 \<or> read_le16 inode 26 = 0 then fail_io Errc_not_found ''inode is allocated but inactive''
         else
         bind_io (load_metadata_context d False) (\<lambda>mctx.
         let out = empty_scan\<lparr>os_inodes_examined := 1, os_allocated_inodes := 1\<rparr>
         in if read_le32 inode INODE_FLAGS_OFF AND EXT4_EXTENTS_FL = 0
            then return_io (out\<lparr>os_legacy_blockmap_inodes := 1\<rparr>)
            else bind_io (parse_inode d sb mctx retain_from ino inode_abs inode (out\<lparr>os_extent_inodes := 1\<rparr>)) (\<lambda>out1.
                 return_io (out1\<lparr>os_extents := srt (os_extents out1)\<rparr>)))))))"

fun scan_inodes :: "block_device \<Rightarrow> superblock \<Rightarrow> metadata_context \<Rightarrow> u64 \<Rightarrow> group_desc \<Rightarrow> bytes \<Rightarrow> bytes \<Rightarrow> u64 \<Rightarrow> nat list
    \<Rightarrow> owner_scan \<Rightarrow> owner_scan io" where
  "scan_inodes d sb mctx retain_from gd ib table first [] out = return_io out"
| "scan_inodes d sb mctx retain_from gd ib table first (i # is) out =
     (let isz = unat (sb_inode_size sb); inode = get_bytes (i * isz) isz table;
          out1 = out\<lparr>os_inodes_examined := os_inodes_examined out + 1\<rparr>;
          out2 = out1\<lparr>os_allocated_inodes := os_allocated_inodes out1 + 1\<rparr>
      in if \<not> inode_allocated ib (of_nat i) then scan_inodes d sb mctx retain_from gd ib table first is out1
         else if read_le16 inode 0 = 0 \<or> read_le16 inode 26 = 0
         then scan_inodes d sb mctx retain_from gd ib table first is out2
         else if read_le32 inode INODE_FLAGS_OFF AND EXT4_EXTENTS_FL = 0
         then scan_inodes d sb mctx retain_from gd ib table first is
                (out2\<lparr>os_legacy_blockmap_inodes := os_legacy_blockmap_inodes out2 + 1\<rparr>)
         else bind_io (parse_inode d sb mctx retain_from (first + of_nat i)
                         (gd_inode_table gd * block_size sb + of_nat i * ucast (sb_inode_size sb)) inode
                         (out2\<lparr>os_extent_inodes := os_extent_inodes out2 + 1\<rparr>)) (\<lambda>out3.
              scan_inodes d sb mctx retain_from gd ib table first is out3))"

fun scan_owner_groups :: "block_device \<Rightarrow> superblock \<Rightarrow> metadata_context \<Rightarrow> u64 \<Rightarrow> u64 list \<Rightarrow> owner_scan \<Rightarrow> owner_scan io" where
  "scan_owner_groups d sb mctx retain_from [] out = return_io out"
| "scan_owner_groups d sb mctx retain_from (g # gs) out =
     bind_io cancellation_requested (\<lambda>stop.
     if stop then fail_io Errc_unsafe ''owner scan cancelled''
     else
     bind_io (read_group_desc d sb g) (\<lambda>gd.
     if gd_flags gd AND BG_INODE_UNINIT \<noteq> 0 then scan_owner_groups d sb mctx retain_from gs out
     else
     bind_io (read_inode_bitmap d sb gd) (\<lambda>ib.
     let n = group_inode_count sb g; table_bytes = n * ucast (sb_inode_size sb)
     in if table_bytes > u64_max then fail_io Errc_unsupported ''inode table is too large for address space''
        else
        bind_io (if table_bytes \<noteq> 0 then read_exact d (gd_inode_table gd * block_size sb) (unat table_bytes) else return_io []) (\<lambda>table.
        bind_io (scan_inodes d sb mctx retain_from gd ib table (first_inode sb g) [0..<unat n] out) (\<lambda>out1.
        scan_owner_groups d sb mctx retain_from gs out1)))))"

definition scan_extent_owners :: "(owned_extent list \<Rightarrow> owned_extent list) \<Rightarrow> block_device \<Rightarrow> u64 \<Rightarrow> owner_scan io" where
  "scan_extent_owners srt d retain_from =
     bind_io (read_superblock d) (\<lambda>sb.
     bind_io (load_metadata_context d False) (\<lambda>mctx.
     if sb_inode_size sb < 128 \<or> ucast (sb_inode_size sb) > block_size sb then fail_io Errc_unsupported ''unsupported ext inode size''
     else if sb_feature_incompat sb AND INCOMPAT_META_BG \<noteq> 0
     then fail_io Errc_unsupported ''owner scan does not yet support meta_bg descriptor placement''
     else
     let retain = (if retain_from > sb_blocks_count sb then sb_blocks_count sb else retain_from) in
     bind_io (scan_owner_groups d sb mctx retain (group_list sb) empty_scan) (\<lambda>out.
     return_io (out\<lparr>os_extents := srt (os_extents out)\<rparr>))))"

definition scan_inode_extent_tree :: "(owned_extent list \<Rightarrow> owned_extent list) \<Rightarrow> block_device \<Rightarrow> u64 \<Rightarrow> u64 \<Rightarrow> owner_scan io" where
  "scan_inode_extent_tree srt d ino retain_from =
     bind_io (read_superblock d) (\<lambda>sb.
     if sb_inode_size sb < 128 \<or> ucast (sb_inode_size sb) > block_size sb then fail_io Errc_unsupported ''unsupported ext inode size''
     else if sb_feature_incompat sb AND INCOMPAT_META_BG \<noteq> 0
     then fail_io Errc_unsupported ''owner scan does not yet support meta_bg descriptor placement''
     else scan_specific_inode srt d sb ino (if retain_from > sb_blocks_count sb then sb_blocks_count sb else retain_from))"

definition find_inode_extent :: "(owned_extent list \<Rightarrow> owned_extent list) \<Rightarrow> block_device \<Rightarrow> u64 \<Rightarrow> u64 \<Rightarrow> owned_extent io" where
  "find_inode_extent srt d ino logical_block =
     bind_io (scan_inode_extent_tree srt d ino 0) (\<lambda>scan.
     case find (\<lambda>e. logical_block \<ge> oe_logical_block e \<and> logical_block < oe_logical_block e + oe_length e) (os_extents scan) of
       Some e \<Rightarrow> return_io e
     | None \<Rightarrow> fail_io Errc_not_found ''logical block is not covered by an extent'')"

end
