(* ===== verification/Fsx_Relocate.thy ===== *)
theory Fsx_Relocate
  imports Fsx_Extents
begin

text \<open>
  The relocation planner, first half of \<^verbatim>\<open>src/ext4/relocate.cpp\<close>: every extent and tree block that reaches beyond
  the target gets a free range below it, chosen by best fit. The three uses of \<^verbatim>\<open>std::sort\<close> with ties are
  arguments. \<^verbatim>\<open>std::lower_bound\<close> on the sorted extents of the graph is \<open>dropWhile\<close>.
\<close>

section \<open>Model\<close>

datatype relocation_kind = Data_extent | Extent_tree_block

record owner_move =
  om_kind :: relocation_kind
  om_transaction_id :: u64
  om_inode :: u64
  om_logical_block :: u64
  om_source_block :: u64
  om_destination_block :: u64
  om_block_count :: u64
  om_unwritten :: bool
  om_tree_depth :: u16

record owner_relocation_plan =
  op_block_size :: u64
  op_target_blocks :: u64
  op_target_bytes :: u64
  op_data_blocks_to_move :: u64
  op_tree_blocks_to_move :: u64
  op_unknown_allocated_blocks_above_target :: u64
  op_fixed_metadata_blocks_above_target :: u64
  op_legacy_blockmap_inodes :: u64
  op_allocated_inodes :: u64
  op_extent_inodes :: u64
  op_complete_owner_coverage :: bool
  op_destinations_available :: bool
  op_moves :: "owner_move list"

text \<open>A \<^verbatim>\<open>FreeSlot\<close> is an extent. The loop keeps the index of the best slot so far and its waste, and stops at
  a slot that fits exactly.\<close>

fun best_fit :: "block_extent list \<Rightarrow> u64 \<Rightarrow> nat \<Rightarrow> nat option \<Rightarrow> u64 \<Rightarrow> nat option" where
  "best_fit [] len i best waste = best"
| "best_fit (s # ss) len i best waste =
     (if be_length s < len then best_fit ss len (Suc i) best waste
      else let w = be_length s - len
           in if w < waste then (if w = 0 then Some i else best_fit ss len (Suc i) (Some i) w)
              else best_fit ss len (Suc i) best waste)"

definition allocate_best_fit :: "block_extent list \<Rightarrow> u64 \<Rightarrow> (u64 \<times> block_extent list) option" where
  "allocate_best_fit slots len =
     (case best_fit slots len 0 None u64_max of
        None \<Rightarrow> None
      | Some i \<Rightarrow>
          let s = slots ! i; s' = extent (be_start s + len) (be_length s - len)
          in Some (be_start s, if be_length s' = 0 then take i slots @ drop (Suc i) slots else slots[i := s']))"

definition sum_tail_overlap :: "owned_extent list \<Rightarrow> u64 \<Rightarrow> u64" where
  "sum_tail_overlap es target =
     fold (\<lambda>e n. if oe_end e \<le> target then n else n + (oe_end e - max (oe_physical_block e) target)) es 0"

fun cover_loop :: "block_extent list \<Rightarrow> u64 \<Rightarrow> u64 \<Rightarrow> bool" where
  "cover_loop [] covered fin = False"
| "cover_loop (e # es) covered fin =
     (if be_start e \<le> covered
      then let c = (if be_end e > covered then be_end e else covered) in if c \<ge> fin then True else cover_loop es c fin
      else False)"

definition range_fully_allocated :: "block_extent list \<Rightarrow> u64 \<Rightarrow> u64 \<Rightarrow> bool" where
  "range_fully_allocated allocated start len =
     (if len = 0 then True
      else if len > u64_max - start then False
      else cover_loop (dropWhile (\<lambda>e. be_end e \<le> start) allocated) start (start + len))"

text \<open>The ranges \<^verbatim>\<open>R\<close> as tuples start, end, inode, tree: the comparison of the code is their lexicographic order.\<close>

definition owner_ranges :: "owner_scan \<Rightarrow> (u64 \<times> u64 \<times> u64 \<times> bool) list" where
  "owner_ranges sc = map (\<lambda>e. (oe_physical_block e, oe_end e, oe_inode e, False)) (os_extents sc)
     @ map (\<lambda>t. (tb_physical_block t, tb_physical_block t + 1, tb_inode t, True)) (os_tree_blocks sc)"

fun owner_overlap :: "(u64 \<times> u64 \<times> u64 \<times> bool) list \<Rightarrow> unit result" where
  "owner_overlap (a # b # rs) =
     (if fst b < fst (snd a)
      then fail Errc_corrupt (''physical block ownership overlaps between inode '' @ digits (unat (fst (snd (snd a))))
             @ '' and inode '' @ digits (unat (fst (snd (snd b)))))
      else owner_overlap (b # rs))"
| "owner_overlap _ = Inr ()"

definition validate_owner_ranges :: "owner_scan \<Rightarrow> unit result" where
  "validate_owner_ranges sc = owner_overlap (sort (owner_ranges sc))"

definition fixed_allocated :: "block_extent list \<Rightarrow> superblock \<Rightarrow> group_desc \<Rightarrow> bool" where
  "fixed_allocated allocated sb gd =
     (let it_blocks = (ucast (sb_inodes_per_group sb) * ucast (sb_inode_size sb) + block_size sb - 1) div block_size sb
      in range_fully_allocated allocated (gd_block_bitmap gd) 1 \<and> range_fully_allocated allocated (gd_inode_bitmap gd) 1
         \<and> range_fully_allocated allocated (gd_inode_table gd) it_blocks)"

fun fixed_metadata :: "block_device \<Rightarrow> superblock \<Rightarrow> block_extent list \<Rightarrow> u64 \<Rightarrow> u64 list \<Rightarrow> u64 \<Rightarrow> u64 io" where
  "fixed_metadata d sb allocated target [] acc = return_io acc"
| "fixed_metadata d sb allocated target (g # gs) acc =
     bind_io (read_group_desc d sb g) (\<lambda>gd.
     if \<not> fixed_allocated allocated sb gd
     then fail_io Errc_corrupt (group_msg g '' fixed metadata is not fully allocated in block bitmap'')
     else fixed_metadata d sb allocated target gs (acc + group_metadata_above sb target gd))"

text \<open>The two placing loops: \<open>mk\<close> builds the move for an item, its transaction and its destination. The result is the
  moves, the slots that are left, the next transaction and whether all items were placed.\<close>

fun place_items :: "('a \<Rightarrow> u64) \<Rightarrow> ('a \<Rightarrow> u64 \<Rightarrow> u64 \<Rightarrow> owner_move) \<Rightarrow> 'a list \<Rightarrow> block_extent list \<Rightarrow> u64
    \<Rightarrow> owner_move list \<times> block_extent list \<times> u64 \<times> bool" where
  "place_items len mk [] slots txn = ([], slots, txn, True)"
| "place_items len mk (x # xs) slots txn =
     (case allocate_best_fit slots (len x) of
        None \<Rightarrow> ([], slots, txn, False)
      | Some (dest, slots') \<Rightarrow>
          (case place_items len mk xs slots' (txn + 1) of (ms, r) \<Rightarrow> (mk x txn dest # ms, r)))"

definition data_move :: "owned_extent \<Rightarrow> u64 \<Rightarrow> u64 \<Rightarrow> owner_move" where
  "data_move e txn dest =
     \<lparr>om_kind = Data_extent, om_transaction_id = txn, om_inode = oe_inode e, om_logical_block = oe_logical_block e,
      om_source_block = oe_physical_block e, om_destination_block = dest, om_block_count = oe_length e,
      om_unwritten = oe_unwritten e, om_tree_depth = 0\<rparr>"

definition tree_move :: "extent_tree_block \<Rightarrow> u64 \<Rightarrow> u64 \<Rightarrow> owner_move" where
  "tree_move t txn dest =
     \<lparr>om_kind = Extent_tree_block, om_transaction_id = txn, om_inode = tb_inode t, om_logical_block = 0,
      om_source_block = tb_physical_block t, om_destination_block = dest, om_block_count = 1,
      om_unwritten = False, om_tree_depth = tb_depth t\<rparr>"

definition place_owners :: "owned_extent list \<Rightarrow> extent_tree_block list \<Rightarrow> block_extent list \<Rightarrow> owner_move list \<times> owner_move list \<times> bool" where
  "place_owners data trees free =
     (case place_items oe_length data_move data free 1 of
        (ms, slots, txn, ok) \<Rightarrow>
          if ok then (case place_items (\<lambda>_. 1) tree_move trees slots txn of (ts, _, _, ok') \<Rightarrow> (ms, ts, ok'))
          else (ms, [], False))"

record plan_sorts =
  ps_scan :: "owned_extent list \<Rightarrow> owned_extent list"
  ps_free :: "block_extent list \<Rightarrow> block_extent list"
  ps_data :: "owned_extent list \<Rightarrow> owned_extent list"

definition build_owner_relocation_plan :: "plan_sorts \<Rightarrow> block_device \<Rightarrow> u64 \<Rightarrow> owner_relocation_plan io" where
  "build_owner_relocation_plan srt d target_bytes =
     bind_io (read_superblock d) (\<lambda>sb.
     let bs = block_size sb; target = target_bytes div bs
     in if target_bytes \<ge> size_bytes sb then fail_io Errc_invalid_argument ''target is not smaller than filesystem''
        else if target \<le> ucast (sb_first_data_block sb) then fail_io Errc_invalid_argument ''target is too small''
        else
        bind_io (build_allocation_graph d) (\<lambda>graph.
        bind_io (scan_extent_owners (ps_scan srt) d target) (\<lambda>owners.
        bind_io (lift_io (validate_owner_ranges owners)) (\<lambda>_.
        bind_io (fixed_metadata d sb (ag_allocated graph) target (group_list sb) 0) (\<lambda>fixed.
        let free = ps_free srt (dest_extents (ag_free graph) target);
            data = ps_data srt (filter (\<lambda>e. oe_end e > target) (os_extents owners));
            trees = filter (\<lambda>t. tb_physical_block t \<ge> target) (os_tree_blocks owners);
            (ms, ts, placed) = place_owners data trees free;
            tail = allocated_above (ag_allocated graph) target;
            known = min tail (sum_tail_overlap (os_extents owners) target + of_nat (length trees) + fixed);
            unknown = tail - known
        in return_io
          \<lparr>op_block_size = bs, op_target_blocks = target, op_target_bytes = target * bs,
           op_data_blocks_to_move = fold (\<lambda>m n. n + om_block_count m) ms 0, op_tree_blocks_to_move = of_nat (length ts),
           op_unknown_allocated_blocks_above_target = unknown, op_fixed_metadata_blocks_above_target = fixed,
           op_legacy_blockmap_inodes = os_legacy_blockmap_inodes owners, op_allocated_inodes = os_allocated_inodes owners,
           op_extent_inodes = os_extent_inodes owners,
           op_complete_owner_coverage = (placed \<and> os_legacy_blockmap_inodes owners = 0 \<and> os_corrupt_inodes owners = 0 \<and> unknown = 0),
           op_destinations_available = placed, op_moves = ms @ ts\<rparr>)))))"

end
