(* ===== verification/Fsx_Safety.thy ===== *)
theory Fsx_Safety
  imports Fsx_Device "HOL-Library.Transitive_Closure_Table"
begin

text \<open>
  \<^verbatim>\<open>src/io/safety.cpp\<close>, the Linux branch: is a device mounted, swapped on, held by another kernel
  object or the parent of one that is, may it be written, and may two devices overlap. The tables the
  kernel offers are the record \<open>host_info\<close> of the host.
\<close>

section \<open>Text of the kernel tables\<close>

definition is_space :: "char \<Rightarrow> bool" where
  "is_space c \<longleftrightarrow> c \<in> {CHR '' '', CHR 0x09, CHR 0x0A, CHR 0x0B, CHR 0x0C, CHR 0x0D}"

text \<open>The words \<^verbatim>\<open>>>\<close> extracts from a string stream.\<close>

function tokens :: "string \<Rightarrow> string list" where
  "tokens s =
     (let s' = dropWhile is_space s
      in if s' = [] then [] else takeWhile (\<lambda>c. \<not> is_space c) s' # tokens (dropWhile (\<lambda>c. \<not> is_space c) s'))"
  by pat_completeness auto
termination
proof (relation "measure length", goal_cases)
  case (2 s s')
  then have "s' \<noteq> []" by blast
  then obtain a t where s': "s' = a # t" by (cases s') auto
  have "\<not> is_space (hd s')" using 2 hd_dropWhile by metis
  then have "length (dropWhile (\<lambda>c. \<not> is_space c) s') < length s'"
    by (simp add: s' length_dropWhile_le le_imp_less_Suc)
  also have "length s' \<le> length s" using 2 by (simp add: length_dropWhile_le)
  finally show ?case by simp
qed simp

declare tokens.simps [simp del]

definition is_digit :: "char \<Rightarrow> bool" where
  "is_digit c \<longleftrightarrow> 48 \<le> (of_char c :: nat) \<and> (of_char c :: nat) \<le> 57"

definition decimal :: "string \<Rightarrow> nat" where
  "decimal s = fold (\<lambda>c n. n * 10 + (of_char c - 48)) s 0"

text \<open>\<^verbatim>\<open>strtoul(s, &end, 10)\<close>: the value and what is left at \<open>end\<close>; without digits nothing is
  consumed.\<close>

definition strtoul :: "string \<Rightarrow> u64 \<times> string" where
  "strtoul s =
     (let t = dropWhile is_space s;
          neg = (t \<noteq> [] \<and> hd t = CHR ''-'');
          u = (if t \<noteq> [] \<and> (hd t = CHR ''-'' \<or> hd t = CHR ''+'') then tl t else t);
          ds = takeWhile is_digit u
      in if ds = [] then (0, s)
         else let n = decimal ds;
                  v = (if 2 ^ 64 \<le> n then - 1 else if neg then - of_nat n else of_nat n)
              in (v, dropWhile is_digit u))"

definition parse_major_minor :: "string \<Rightarrow> (u64 \<times> u64) option" where
  "parse_major_minor text =
     (if CHR '':'' \<notin> set text then None
      else
        let a = takeWhile (\<lambda>c. c \<noteq> CHR '':'') text;
            b = tl (dropWhile (\<lambda>c. c \<noteq> CHR '':'') text);
            (maj, e1) = strtoul a; (min', e2) = strtoul b
        in if e1 = [] \<and> e2 = [] then Some (maj, min') else None)"

section \<open>Devices in the tables\<close>

record device_safety =
  ds_mounted :: bool
  ds_active_swap :: bool
  ds_block_device :: bool
  ds_regular_file :: bool
  ds_has_holders :: bool
  ds_descendant_mounted :: bool
  ds_descendant_swap :: bool
  ds_mountpoint :: string
  ds_holders :: "string list"
  ds_active_descendants :: "string list"

definition canonical_or_self :: "host_info \<Rightarrow> string \<Rightarrow> string" where
  "canonical_or_self h p = (case hi_realpath h p of Some q \<Rightarrow> q | None \<Rightarrow> p)"

definition sysfs_device_path :: "host_info \<Rightarrow> nat \<times> nat \<Rightarrow> string list" where
  "sysfs_device_path h mm = hi_sysfs h mm"

fun path_prefix :: "string list \<Rightarrow> string list \<Rightarrow> bool" where
  "path_prefix [] cs = True"
| "path_prefix (b # bs) [] = False"
| "path_prefix (b # bs) (c # cs) = (b = c \<and> path_prefix bs cs)"

definition same_or_descendant :: "string list \<Rightarrow> string list \<Rightarrow> bool" where
  "same_or_descendant base candidate \<longleftrightarrow> base \<noteq> [] \<and> candidate \<noteq> [] \<and> path_prefix base candidate"

text \<open>One line of \<^verbatim>\<open>/proc/self/mountinfo\<close>.\<close>

definition mount_line :: "host_info \<Rightarrow> nat \<times> nat \<Rightarrow> string \<Rightarrow> device_safety \<Rightarrow> device_safety" where
  "mount_line h want line out =
     (case tokens line of
        _ # _ # majmin # _ # mountpoint # _ \<Rightarrow>
          (case parse_major_minor majmin of
             None \<Rightarrow> out
           | Some (ma, mi) \<Rightarrow>
               if (unat ma, unat mi) = want then out\<lparr>ds_mounted := True, ds_mountpoint := mountpoint\<rparr>
               else if same_or_descendant (sysfs_device_path h want) (sysfs_device_path h (unat ma, unat mi))
               then out\<lparr>ds_descendant_mounted := True,
                        ds_active_descendants := ds_active_descendants out @ [majmin @ '' mounted at '' @ mountpoint]\<rparr>
               else out)
      | _ \<Rightarrow> out)"

text \<open>One line of \<^verbatim>\<open>/proc/swaps\<close>, after the heading.\<close>

definition swap_line :: "host_info \<Rightarrow> nat \<times> nat \<Rightarrow> string \<Rightarrow> string \<Rightarrow> device_safety \<Rightarrow> device_safety" where
  "swap_line h want path line out =
     (case tokens line of
        [] \<Rightarrow> out
      | source # _ \<Rightarrow>
          if canonical_or_self h source = canonical_or_self h path then out\<lparr>ds_active_swap := True\<rparr>
          else case hi_blk_rdev h source of
              None \<Rightarrow> out
            | Some rdev \<Rightarrow>
                if same_or_descendant (sysfs_device_path h want) (sysfs_device_path h rdev)
                then out\<lparr>ds_descendant_swap := True,
                         ds_active_descendants := ds_active_descendants out @ [source @ '' active as swap'']\<rparr>
                else out)"

definition inspect_device_safety :: "block_device \<Rightarrow> device_safety io" where
  "inspect_device_safety d w =
     (case next_event w of
        (Sys_err e, w1) \<Rightarrow> throw_io (from_errno Errc_io (''fstat failed while checking device safety: '' @ w_strerror w1 e) e) w1
      | (_, w1) \<Rightarrow>
     let f = w_files w1 (bd_fd d); h = w_host w1; want = f_rdev f;
         out = \<lparr>ds_mounted = False, ds_active_swap = False, ds_block_device = f_is_blk f,
                ds_regular_file = f_is_reg f, ds_has_holders = False, ds_descendant_mounted = False,
                ds_descendant_swap = False, ds_mountpoint = [], ds_holders = [], ds_active_descendants = []\<rparr>
     in if \<not> ds_block_device out then return_io out w1
        else case hi_mountinfo h of
            None \<Rightarrow> fail_io Errc_io ''cannot read /proc/self/mountinfo'' w1
          | Some lines \<Rightarrow>
              let out = fold (mount_line h want) lines out;
                  out = (case hi_swaps h of None \<Rightarrow> out
                         | Some slines \<Rightarrow> fold (swap_line h want (bd_path d)) (tl slines) out);
                  out = (case hi_holders h want of None \<Rightarrow> out
                         | Some hs \<Rightarrow> out\<lparr>ds_holders := hs, ds_has_holders := (hs \<noteq> [])\<rparr>)
              in return_io out w1)"

fun join_with :: "string \<Rightarrow> string list \<Rightarrow> string" where
  "join_with sep [] = []"
| "join_with sep [x] = x"
| "join_with sep (x # y # xs) = x @ sep @ join_with sep (y # xs)"

text \<open>The exclusive lock taken last is a call of the host.\<close>

definition require_offline_for_write :: "block_device \<Rightarrow> unit io" where
  "require_offline_for_write d =
     bind_io (inspect_device_safety d) (\<lambda>s.
     if ds_mounted s
     then fail_io Errc_unsafe (''device is mounted at '' @ ds_mountpoint s @ ''; offline filesystem writes are refused'')
     else if ds_active_swap s then fail_io Errc_unsafe ''device is active swap; writes are refused''
     else if ds_descendant_mounted s \<or> ds_descendant_swap s
     then fail_io Errc_unsafe (''device has active child partitions ('' @ join_with '', '' (ds_active_descendants s)
            @ ''); whole-device writes are refused'')
     else if ds_has_holders s
     then fail_io Errc_unsafe (''device has active kernel holders ('' @ join_with '','' (ds_holders s)
            @ ''); writes are refused'')
     else (\<lambda>w. case next_event w of
             (Sys_err e, w1) \<Rightarrow> throw_io (from_errno Errc_unsafe (''cannot acquire exclusive device lock: '' @ w_strerror w1 e) e) w1
           | (_, w1) \<Rightarrow> return_io () w1))"

definition require_disk_offline_for_write :: "block_device \<Rightarrow> unit io" where
  "require_disk_offline_for_write d = require_offline_for_write d"

section \<open>Overlap of two devices\<close>

text \<open>\<^verbatim>\<open>collect_backing_devices\<close>: the leaves of the slave graph under a device. \<open>visiting\<close> is the
  path of the recursion, so a cycle is cut; the recursion ends because a device with slaves is
  visited at most once along a path. A slave whose path cannot be resolved is the empty path.\<close>

function collect_backing_devices :: "(string list \<times> string list list) list \<Rightarrow> string list \<Rightarrow> string list set \<Rightarrow> string list list" where
  "collect_backing_devices slaves sys visiting =
     (if sys = [] \<or> sys \<in> visiting then []
      else case map_of slaves sys of
          None \<Rightarrow> [sys]
        | Some [] \<Rightarrow> [sys]
        | Some (c # cs) \<Rightarrow>
            concat (map (\<lambda>child. collect_backing_devices slaves child (insert sys visiting)) (c # cs)))"
  by pat_completeness auto
termination
proof (relation "measure (\<lambda>(slaves, sys, visiting). card (fst ` set slaves - visiting))", goal_cases)
  case (2 slaves sys visiting x2 c cs z)
  then have "sys \<in> fst ` set slaves - visiting" by (force dest: map_of_SomeD)
  then have "card (fst ` set slaves - insert sys visiting) < card (fst ` set slaves - visiting)"
    by (intro psubset_card_mono) auto
  then show ?case by simp
qed simp

declare collect_backing_devices.simps [simp del]

definition backing_set :: "host_info \<Rightarrow> nat \<times> nat \<Rightarrow> string list list" where
  "backing_set h rdev = collect_backing_devices (hi_slaves h) (sysfs_device_path h rdev) {}"

definition require_nonoverlapping_devices :: "block_device \<Rightarrow> block_device \<Rightarrow> unit io" where
  "require_nonoverlapping_devices source target w =
     (case next_event w of
        (Sys_err e, w1) \<Rightarrow> throw_io (from_errno Errc_io (''fstat failed for clone source: '' @ w_strerror w1 e) e) w1
      | (_, w1) \<Rightarrow> (case next_event w1 of
        (Sys_err e, w2) \<Rightarrow> throw_io (from_errno Errc_io (''fstat failed for clone target: '' @ w_strerror w2 e) e) w2
      | (_, w2) \<Rightarrow>
     let ss = w_files w2 (bd_fd source); ts = w_files w2 (bd_fd target); h = w_host w2
     in if f_ident ss = f_ident ts then fail_io Errc_unsafe ''source and target refer to the same object'' w2
        else if \<not> f_is_blk ss \<or> \<not> f_is_blk ts then return_io () w2
        else if f_rdev ss = f_rdev ts then fail_io Errc_unsafe ''source and target refer to the same block device'' w2
        else
          let sp = sysfs_device_path h (f_rdev ss); tp = sysfs_device_path h (f_rdev ts)
          in if sp = [] \<or> tp = []
             then fail_io Errc_unsupported ''cannot resolve block-device ancestry; refusing potentially overlapping copy'' w2
             else if same_or_descendant sp tp \<or> same_or_descendant tp sp
             then fail_io Errc_unsafe ''source and target are a disk/partition overlap'' w2
             else
               let sb = backing_set h (f_rdev ss); tb = backing_set h (f_rdev ts)
               in if sb = [] \<or> tb = []
                  then fail_io Errc_unsupported ''cannot resolve block-device backing storage; refusing potentially overlapping copy'' w2
                  else if list_ex (\<lambda>a. list_ex (\<lambda>b. a = b \<or> same_or_descendant a b \<or> same_or_descendant b a) tb) sb
                  then fail_io Errc_unsafe ''source and target share overlapping block storage'' w2
                  else return_io () w2))"

section \<open>Properties\<close>

lemma path_prefix_iff: "path_prefix b c \<longleftrightarrow> (\<exists>r. c = b @ r)"
  by (induction b c rule: path_prefix.induct) auto

lemma mount_line_mono:
  "ds_mounted out \<Longrightarrow> ds_mounted (mount_line h want l out)"
  "ds_descendant_mounted out \<Longrightarrow> ds_descendant_mounted (mount_line h want l out)"
  by (simp_all add: mount_line_def split: list.splits option.splits)

lemma fold_mount_mono:
  "ds_mounted out \<Longrightarrow> ds_mounted (fold (mount_line h want) ls out)"
  "ds_descendant_mounted out \<Longrightarrow> ds_descendant_mounted (fold (mount_line h want) ls out)"
  by (induction ls arbitrary: out) (simp_all add: mount_line_mono)

lemma swap_line_keeps:
  "ds_mounted (swap_line h want p l out) = ds_mounted out"
  "ds_descendant_mounted (swap_line h want p l out) = ds_descendant_mounted out"
  "ds_active_swap out \<Longrightarrow> ds_active_swap (swap_line h want p l out)"
  "ds_descendant_swap out \<Longrightarrow> ds_descendant_swap (swap_line h want p l out)"
  by (simp_all add: swap_line_def split: list.splits option.splits)

lemma fold_swap_keeps:
  "ds_mounted (fold (swap_line h want p) ls out) = ds_mounted out"
  "ds_descendant_mounted (fold (swap_line h want p) ls out) = ds_descendant_mounted out"
  "ds_active_swap out \<Longrightarrow> ds_active_swap (fold (swap_line h want p) ls out)"
  "ds_descendant_swap out \<Longrightarrow> ds_descendant_swap (fold (swap_line h want p) ls out)"
  by (induction ls arbitrary: out) (simp_all add: swap_line_keeps)

text \<open>A line that mentions the device, or one below it in sysfs, is noticed wherever it stands.\<close>

definition mount_entry :: "string \<Rightarrow> (nat \<times> nat) option" where
  "mount_entry line = (case tokens line of
     _ # _ # majmin # _ # _ # _ \<Rightarrow> map_option (\<lambda>(a, b). (unat a, unat b)) (parse_major_minor majmin)
   | _ \<Rightarrow> None)"

lemma mount_line_entry:
  assumes "mount_entry l = Some e"
  shows "e = want \<Longrightarrow> ds_mounted (mount_line h want l out)"
    and "e \<noteq> want \<Longrightarrow> same_or_descendant (hi_sysfs h want) (hi_sysfs h e) \<Longrightarrow> ds_descendant_mounted (mount_line h want l out)"
  using assms by (auto simp: mount_entry_def mount_line_def sysfs_device_path_def split: list.splits option.splits)

lemma fold_mount_entry:
  assumes "l \<in> set ls" and "mount_entry l = Some e" and "e = want \<or> same_or_descendant (hi_sysfs h want) (hi_sysfs h e)"
  shows "ds_mounted (fold (mount_line h want) ls out) \<or> ds_descendant_mounted (fold (mount_line h want) ls out)"
  using assms(1)
proof (induction ls arbitrary: out)
  case (Cons x ls)
  show ?case
  proof (cases "x = l")
    case True
    then have "ds_mounted (mount_line h want x out) \<or> ds_descendant_mounted (mount_line h want x out)"
      using mount_line_entry [OF assms(2), of want h out] assms(3) by auto
    then show ?thesis by (auto intro: fold_mount_mono)
  qed (use Cons in auto)
qed simp

lemma fold_swap_entry:
  assumes "l \<in> set ls" and "tokens l = src # rest"
    and "canonical_or_self h src = canonical_or_self h p
         \<or> (\<exists>rdev. hi_blk_rdev h src = Some rdev \<and> same_or_descendant (hi_sysfs h want) (hi_sysfs h rdev))"
  shows "ds_active_swap (fold (swap_line h want p) ls out) \<or> ds_descendant_swap (fold (swap_line h want p) ls out)"
  using assms(1)
proof (induction ls arbitrary: out)
  case (Cons x ls)
  show ?case
  proof (cases "x = l")
    case True
    then have "ds_active_swap (swap_line h want p x out) \<or> ds_descendant_swap (swap_line h want p x out)"
      using assms(2,3) by (auto simp: swap_line_def sysfs_device_path_def)
    then show ?thesis by (auto intro: fold_swap_keeps)
  qed (use Cons in auto)
qed simp

text \<open>C13. A block device passes the offline check only if no line of the mount table and no active swap
  names it or a device below it in sysfs, and nothing in the kernel holds it; the check changes no
  file.\<close>

theorem offline_check_sound:
  assumes "require_offline_for_write d w = (Inr (), w')" and "f_is_blk (w_files w (bd_fd d))"
    and "want = f_rdev (w_files w (bd_fd d))" and "h = w_host w"
  shows "w_files w' = w_files w \<and> (\<exists>ls. hi_mountinfo h = Some ls
      \<and> (\<forall>l\<in>set ls. \<forall>e. mount_entry l = Some e \<longrightarrow> e \<noteq> want \<and> \<not> same_or_descendant (hi_sysfs h want) (hi_sysfs h e)))
    \<and> (\<forall>ls l src rest. hi_swaps h = Some ls \<longrightarrow> l \<in> set (tl ls) \<longrightarrow> tokens l = src # rest \<longrightarrow>
         canonical_or_self h src \<noteq> canonical_or_self h (bd_path d)
         \<and> (\<forall>rdev. hi_blk_rdev h src = Some rdev \<longrightarrow> \<not> same_or_descendant (hi_sysfs h want) (hi_sysfs h rdev)))
    \<and> (\<forall>hs. hi_holders h want = Some hs \<longrightarrow> hs = [])"
proof -
  obtain s w1 where i: "inspect_device_safety d w = (Inr s, w1)"
    and ok: "\<not> ds_mounted s" "\<not> ds_active_swap s" "\<not> ds_descendant_mounted s" "\<not> ds_descendant_swap s" "\<not> ds_has_holders s"
    and fin: "w_files w' = w_files w1"
    using assms(1) unfolding require_offline_for_write_def
    by (elim bind_io_OkE) (auto split: if_splits prod.splits sysev.splits dest: next_event_files)
  obtain ev w0 where ev: "next_event w = (ev, w0)" by fastforce
  have w0: "w_files w0 = w_files w" "w_host w0 = w_host w"
    using ev by (auto simp: next_event_def split: list.splits)
  obtain ls out0 where ls: "hi_mountinfo h = Some ls" and w1: "w1 = w0"
    and s: "s = (let out = fold (mount_line h want) ls out0;
                  out = (case hi_swaps h of None \<Rightarrow> out | Some slines \<Rightarrow> fold (swap_line h want (bd_path d)) (tl slines) out)
              in (case hi_holders h want of None \<Rightarrow> out | Some hs \<Rightarrow> out\<lparr>ds_holders := hs, ds_has_holders := (hs \<noteq> [])\<rparr>))"
    using i ev w0 assms(2-4)
    by (cases ev) (auto simp: inspect_device_safety_def Let_def split: option.splits)
  have m: "\<not> ds_mounted (fold (mount_line h want) ls out0)" "\<not> ds_descendant_mounted (fold (mount_line h want) ls out0)"
    using ok(1,3) s by (auto simp: Let_def fold_swap_keeps split: option.splits)
  have sw: "\<not> ds_active_swap (fold (swap_line h want (bd_path d)) (tl sl) (fold (mount_line h want) ls out0))
      \<and> \<not> ds_descendant_swap (fold (swap_line h want (bd_path d)) (tl sl) (fold (mount_line h want) ls out0))"
    if "hi_swaps h = Some sl" for sl
    using ok(2,4) s that by (auto simp: Let_def split: option.splits)
  have hd: "hs = []" if "hi_holders h want = Some hs" for hs
    using ok(5) s that by (auto simp: Let_def split: option.splits)
  have a: "\<forall>l\<in>set ls. \<forall>e. mount_entry l = Some e \<longrightarrow> e \<noteq> want \<and> \<not> same_or_descendant (hi_sysfs h want) (hi_sysfs h e)"
    using m fold_mount_entry [of _ ls _ want h out0] by blast
  have b: "\<forall>sl l src rest. hi_swaps h = Some sl \<longrightarrow> l \<in> set (tl sl) \<longrightarrow> tokens l = src # rest \<longrightarrow>
         canonical_or_self h src \<noteq> canonical_or_self h (bd_path d)
         \<and> (\<forall>rdev. hi_blk_rdev h src = Some rdev \<longrightarrow> \<not> same_or_descendant (hi_sysfs h want) (hi_sysfs h rdev))"
    using sw fold_swap_entry by blast
  show ?thesis using a b hd ls w1 w0(1) fin by auto
qed

definition sample_disk_world :: "string list \<Rightarrow> world" where
  "sample_disk_world mounts =
     (let w = sample_world [0] [] in
      w\<lparr>w_files := (\<lambda>fd. (w_files w fd)\<lparr>f_is_blk := True, f_is_reg := False, f_rdev := (8, 16 * fd), f_ident := (5, fd)\<rparr>),
        w_host := (w_host w)\<lparr>hi_mountinfo := Some mounts,
          hi_sysfs := (\<lambda>mm. [''/'', ''sys'', ''devices'', ''block'', if snd mm < 16 then ''sda'' else ''sdb'']),
          hi_holders := (\<lambda>_. Some [])\<rparr>\<rparr>)"

theorem offline_check_sound_witness:
  "fst (require_offline_for_write (sample_device 1) (sample_disk_world [])) = Inr ()
   \<and> w_files (snd (require_offline_for_write (sample_device 1) (sample_disk_world []))) = w_files (sample_disk_world [])"
proof -
  have r: "fst (require_offline_for_write (sample_device 1) (sample_disk_world [])) = Inr ()"
    by (simp add: require_offline_for_write_def inspect_device_safety_def sample_disk_world_def sample_world_def
        sample_device_def next_event_def bind_io_def Let_def)
  have b: "f_is_blk (w_files (sample_disk_world []) (bd_fd (sample_device 1)))"
    by (simp add: sample_disk_world_def Let_def)
  have "require_offline_for_write (sample_device 1) (sample_disk_world []) =
      (Inr (), snd (require_offline_for_write (sample_device 1) (sample_disk_world [])))"
    using r by (metis prod.collapse)
  from offline_check_sound [OF this b refl refl] r show ?thesis by blast
qed

subsection \<open>Backing storage\<close>

definition slave_edge :: "(string list \<times> string list list) list \<Rightarrow> string list \<Rightarrow> string list \<Rightarrow> bool" where
  "slave_edge slaves a b \<longleftrightarrow> (\<exists>cs. map_of slaves a = Some cs \<and> b \<in> set cs \<and> b \<noteq> [])"

definition backing_leaf :: "(string list \<times> string list list) list \<Rightarrow> string list \<Rightarrow> string list \<Rightarrow> bool" where
  "backing_leaf slaves a l \<longleftrightarrow> a \<noteq> [] \<and> (slave_edge slaves)\<^sup>*\<^sup>* a l \<and> (map_of slaves l = None \<or> map_of slaves l = Some [])"

lemma collect_path:
  assumes "rtrancl_path (slave_edge slaves) a p l" "distinct (a # p)" "set (a # p) \<inter> visiting = {}" "a \<noteq> []"
    "map_of slaves l = None \<or> map_of slaves l = Some []"
  shows "l \<in> set (collect_backing_devices slaves a visiting)"
  using assms
proof (induction arbitrary: visiting rule: rtrancl_path.induct)
  case (base x)
  then show ?case by (auto simp: collect_backing_devices.simps [of slaves x])
next
  case (step x y ys z)
  then have "z \<in> set (collect_backing_devices slaves y (insert x visiting))"
    by (intro step.IH) (auto simp: slave_edge_def)
  with step show ?case
    by (fastforce simp: collect_backing_devices.simps [of slaves x] slave_edge_def split: option.splits list.splits)
qed

lemma collect_complete: "backing_leaf slaves a l \<Longrightarrow> l \<in> set (collect_backing_devices slaves a {})"
  unfolding backing_leaf_def rtranclp_eq_rtrancl_path
  by (metis collect_path inf_bot_right rtrancl_path_distinct)

text \<open>C14. Two block devices pass the overlap check only if they are different devices, neither lies
  below the other in sysfs, and no physical device reachable through the slaves of the one is, or lies
  above or below, a physical device reachable through the slaves of the other, also when the slave
  graph has cycles.\<close>

theorem overlap_check_sound:
  assumes "require_nonoverlapping_devices source target w = (Inr (), w')"
    and "a = w_files w (bd_fd source)" and "b = w_files w (bd_fd target)" and "h = w_host w"
    and "f_is_blk a" and "f_is_blk b"
    and "backing_leaf (hi_slaves h) (hi_sysfs h (f_rdev a)) l" and "backing_leaf (hi_slaves h) (hi_sysfs h (f_rdev b)) m"
  shows "f_rdev a \<noteq> f_rdev b \<and> \<not> same_or_descendant (hi_sysfs h (f_rdev a)) (hi_sysfs h (f_rdev b))
    \<and> \<not> same_or_descendant (hi_sysfs h (f_rdev b)) (hi_sysfs h (f_rdev a))
    \<and> l \<noteq> m \<and> \<not> same_or_descendant l m \<and> \<not> same_or_descendant m l"
proof -
  obtain ev w1 ev2 w2 where ev: "next_event w = (ev, w1)" "next_event w1 = (ev2, w2)" by fastforce
  have w2: "w_files w2 = w_files w" "w_host w2 = w_host w"
    using ev by (auto simp: next_event_def split: list.splits)
  have "l \<in> set (backing_set h (f_rdev a))" "m \<in> set (backing_set h (f_rdev b))"
    using assms(7,8) by (simp_all add: backing_set_def sysfs_device_path_def collect_complete)
  then show ?thesis
    using assms(1-6) ev w2
    by (cases ev; cases ev2)
      (auto simp: require_nonoverlapping_devices_def Let_def sysfs_device_path_def list_ex_iff split: if_splits)
qed

theorem overlap_check_sound_witness:
  "fst (require_nonoverlapping_devices (sample_device 1) ((sample_device 1)\<lparr>bd_fd := 1\<rparr>) (sample_disk_world [])) = Inr ()
   \<and> \<not> same_or_descendant [''/'', ''sys'', ''devices'', ''block'', ''sda''] [''/'', ''sys'', ''devices'', ''block'', ''sdb'']"
proof -
  let ?s = "sample_device 1" and ?t = "(sample_device 1)\<lparr>bd_fd := 1\<rparr>" and ?w = "sample_disk_world []"
  have f: "w_files ?w fd = (w_files (sample_world [0] []) fd)\<lparr>f_is_blk := True, f_is_reg := False, f_rdev := (8, 16 * fd), f_ident := (5, fd)\<rparr>"
    "hi_sysfs (w_host ?w) mm = [''/'', ''sys'', ''devices'', ''block'', if snd mm < 16 then ''sda'' else ''sdb'']"
    "hi_slaves (w_host ?w) = []" "w_script ?w = []" for fd mm
    by (simp_all add: sample_disk_world_def sample_world_def Let_def)
  have d: "bd_fd ?s = 0" "bd_fd ?t = 1" by (simp_all add: sample_device_def)
  have r: "fst (require_nonoverlapping_devices ?s ?t ?w) = Inr ()"
    by (simp add: require_nonoverlapping_devices_def Let_def sysfs_device_path_def next_event_def f d
        same_or_descendant_def backing_set_def collect_backing_devices.simps)
  then have run: "require_nonoverlapping_devices ?s ?t ?w = (Inr (), snd (require_nonoverlapping_devices ?s ?t ?w))"
    by (metis prod.collapse)
  have "backing_leaf (hi_slaves (w_host ?w)) (hi_sysfs (w_host ?w) mm) (hi_sysfs (w_host ?w) mm)" for mm
    by (simp add: backing_leaf_def f)
  from overlap_check_sound [OF run refl refl refl _ _ this this] r show ?thesis by (simp add: f d)
qed

end
