(* ===== verification/Fsx_Gpt.thy ===== *)
theory Fsx_Gpt
  imports Fsx_Crc Fsx_Uuid Fsx_Files Fsx_Safety Fsx_Intervals
begin

text \<open>
  GUID partition tables, \<^verbatim>\<open>src/partition/gpt.cpp\<close>: reading and checking the two copies, changing a
  partition, repairing a copy, and saving and restoring the whole metadata. Reporting progress has
  no effect on the table and is left out; the random bytes of temporary names are arguments.
\<close>

section \<open>Types\<close>

definition SIG :: bytes where
  "SIG = [0x45, 0x46, 0x49, 0x20, 0x50, 0x41, 0x52, 0x54]"

record raw_side =
  rs_signature_ok :: bool
  rs_header_crc_ok :: bool
  rs_entries_crc_ok :: bool
  rs_lba :: u64
  rs_current_lba :: u64
  rs_backup_lba :: u64
  rs_first_usable :: u64
  rs_last_usable :: u64
  rs_entries_lba :: u64
  rs_revision :: u32
  rs_header_size :: u32
  rs_entry_count :: u32
  rs_entry_size :: u32
  rs_disk_guid :: bytes
  rs_header :: bytes
  rs_entries :: bytes

definition raw_side_new :: "u64 \<Rightarrow> bytes \<Rightarrow> raw_side" where
  "raw_side_new lba header = \<lparr>rs_signature_ok = False, rs_header_crc_ok = False, rs_entries_crc_ok = False,
     rs_lba = lba, rs_current_lba = 0, rs_backup_lba = 0, rs_first_usable = 0, rs_last_usable = 0,
     rs_entries_lba = 0, rs_revision = 0, rs_header_size = 0, rs_entry_count = 0, rs_entry_size = 0,
     rs_disk_guid = replicate 16 0, rs_header = header, rs_entries = []\<rparr>"

record gpt_partition =
  gp_index :: u32
  gp_first_lba :: u64
  gp_last_lba :: u64
  gp_attributes :: u64
  gp_type_guid :: bytes
  gp_unique_guid :: bytes
  gp_name :: string

record gpt_table =
  gt_primary_header_crc_ok :: bool
  gt_entries_crc_ok :: bool
  gt_backup_header_crc_ok :: bool
  gt_backup_entries_crc_ok :: bool
  gt_protective_mbr_ok :: bool
  gt_current_lba :: u64
  gt_backup_lba :: u64
  gt_first_usable_lba :: u64
  gt_last_usable_lba :: u64
  gt_primary_entries_lba :: u64
  gt_backup_entries_lba :: u64
  gt_header_size :: u32
  gt_entry_size :: u32
  gt_entry_count :: u32
  gt_disk_guid :: bytes
  gt_partitions :: "gpt_partition list"

record gpt_mutation_options =
  mo_allow_block_device :: bool
  mo_reread_kernel_table :: bool

record gpt_mutation_report =
  mr_backup_written :: bool
  mr_primary_written :: bool
  mr_verified :: bool
  mr_kernel_reread_requested :: bool

section \<open>One copy\<close>

definition sector_size :: "block_device \<Rightarrow> u32" where
  "sector_size d = (if g_logical_sector (bd_geometry d) \<noteq> 0 then g_logical_sector (bd_geometry d) else 512)"

definition ss64 :: "block_device \<Rightarrow> u64" where
  "ss64 d = ucast (sector_size d)"

definition total_sectors :: "block_device \<Rightarrow> u64" where
  "total_sectors d = g_size_bytes (bd_geometry d) div ss64 d"

fun utf16le_name :: "bytes \<Rightarrow> string" where
  "utf16le_name (a # b # rest) =
     (let c = read_le16 [a, b] 0
      in if c = 0 then [] else (if c < 0x80 then char_of (unat c) else CHR ''?'') # utf16le_name rest)"
| "utf16le_name _ = []"

definition zero_guid :: "bytes \<Rightarrow> bool" where
  "zero_guid g = list_all (\<lambda>b. b = 0) g"

definition protective_entry :: "bytes \<Rightarrow> bool" where
  "protective_entry b = list_ex (\<lambda>i. b ! (446 + i * 16 + 4) = 0xee) [0..<4]"

definition protective_mbr_ok :: "block_device \<Rightarrow> bool io" where
  "protective_mbr_ok d w =
     (if sector_size d < 512 then (Inr False, w)
      else case read_exact d 0 (unat (sector_size d)) w of
          (Inl (Failed _), w') \<Rightarrow> (Inr False, w')
        | (Inl (Exited c), w') \<Rightarrow> (Inl (Exited c), w')
        | (Inl Diverged, w') \<Rightarrow> (Inl Diverged, w')
        | (Inr b, w') \<Rightarrow> (Inr (b ! 510 = 0x55 \<and> b ! 511 = 0xaa \<and> protective_entry b), w'))"

definition entry_bytes :: "raw_side \<Rightarrow> u64" where
  "entry_bytes s = ucast (rs_entry_count s) * ucast (rs_entry_size s)"

definition entry_sectors :: "raw_side \<Rightarrow> u64 \<Rightarrow> u64" where
  "entry_sectors s ss = (entry_bytes s + ss - 1) div ss"

definition validate_side_geometry :: "raw_side \<Rightarrow> u64 \<Rightarrow> u64 \<Rightarrow> unit result" where
  "validate_side_geometry s tot ss =
     (if rs_backup_lba s \<ge> tot \<or> rs_backup_lba s = rs_current_lba s
      then fail Errc_corrupt ''GPT alternate-header LBA is invalid''
      else if rs_first_usable s > rs_last_usable s \<or> rs_last_usable s \<ge> tot
      then fail Errc_corrupt ''GPT usable LBA range is invalid''
      else
        let sectors = entry_sectors s ss; arr_first = rs_entries_lba s; arr_last = rs_entries_lba s + sectors - 1
        in if \<not> (arr_last < rs_first_usable s \<or> arr_first > rs_last_usable s)
           then fail Errc_corrupt ''GPT entry array overlaps usable partition space''
           else if rs_current_lba s \<ge> rs_first_usable s \<and> rs_current_lba s \<le> rs_last_usable s
           then fail Errc_corrupt ''GPT header overlaps usable partition space''
           else Inr ())"

definition header_crc :: "bytes \<Rightarrow> u32 \<Rightarrow> u32" where
  "header_crc header hsize = crc32_ieee (take (unat hsize) (write_le32 header 16 0)) 0xffffffff XOR 0xffffffff"

text \<open>The fields of a header sector, as far as they do not depend on the entry array.\<close>

definition parse_side :: "u64 \<Rightarrow> bytes \<Rightarrow> raw_side" where
  "parse_side lba header = (raw_side_new lba header)\<lparr>rs_signature_ok := True,
     rs_revision := read_le32 header 8, rs_header_size := read_le32 header 12,
     rs_header_crc_ok := (read_le32 header 16 = header_crc header (read_le32 header 12)),
     rs_current_lba := read_le64 header 24, rs_backup_lba := read_le64 header 32,
     rs_first_usable := read_le64 header 40, rs_last_usable := read_le64 header 48,
     rs_disk_guid := get_bytes 56 16 header, rs_entries_lba := read_le64 header 72,
     rs_entry_count := read_le32 header 80, rs_entry_size := read_le32 header 84\<rparr>"

definition with_entries :: "bytes \<Rightarrow> raw_side \<Rightarrow> raw_side" where
  "with_entries entries s = s\<lparr>rs_entries := entries,
     rs_entries_crc_ok := (crc32_ieee entries 0xffffffff XOR 0xffffffff = read_le32 (rs_header s) 88)\<rparr>"

definition entry_geometry_bad :: "raw_side \<Rightarrow> bool" where
  "entry_geometry_bad s \<longleftrightarrow> rs_entry_size s < 128 \<or> rs_entry_size s > 4096 \<or> rs_entry_count s = 0 \<or> rs_entry_count s > 16384"

definition read_side :: "block_device \<Rightarrow> u64 \<Rightarrow> raw_side io" where
  "read_side d lba =
     (let ss = ss64 d; tot = total_sectors d in
      if lba \<ge> tot then fail_io Errc_corrupt ''GPT header LBA is outside device''
      else
      bind_io (read_exact d (lba * ss) (unat (sector_size d))) (\<lambda>header.
      if take 8 header \<noteq> SIG then return_io (raw_side_new lba header)
      else
        let s = parse_side lba header
        in if rs_header_size s < 92 \<or> rs_header_size s > sector_size d
           then fail_io Errc_corrupt ''invalid GPT header size''
           else if rs_current_lba s \<noteq> lba
           then fail_io Errc_corrupt ''GPT header current-LBA field does not match its location''
           else if entry_geometry_bad s then fail_io Errc_corrupt ''unreasonable GPT entry geometry''
           else if entry_bytes s > 64 * 1024 * 1024 then fail_io Errc_corrupt ''GPT entry array too large''
           else if rs_entries_lba s \<ge> tot \<or> entry_sectors s ss > tot - rs_entries_lba s
           then fail_io Errc_corrupt ''GPT entry array lies outside device''
           else
             bind_io (read_exact d (rs_entries_lba s * ss) (unat (entry_bytes s))) (\<lambda>entries.
             let out = with_entries entries s in
             bind_io (lift_io (validate_side_geometry out tot ss)) (\<lambda>_. return_io out))))"

definition entry_at :: "raw_side \<Rightarrow> nat \<Rightarrow> bytes" where
  "entry_at s i = get_bytes (i * unat (rs_entry_size s)) (unat (rs_entry_size s)) (rs_entries s)"

definition partition_of :: "u32 \<Rightarrow> nat \<Rightarrow> bytes \<Rightarrow> gpt_partition" where
  "partition_of esize i ent =
     \<lparr>gp_index = of_nat (i + 1), gp_first_lba = read_le64 ent 32, gp_last_lba = read_le64 ent 40,
      gp_attributes = read_le64 ent 48, gp_type_guid = get_bytes 0 16 ent, gp_unique_guid = get_bytes 16 16 ent,
      gp_name = utf16le_name (get_bytes 56 (min 72 (unat (esize - 56))) ent)\<rparr>"

definition used_entries :: "raw_side \<Rightarrow> (nat \<times> bytes) list" where
  "used_entries s = filter (\<lambda>(i, ent). \<not> zero_guid (get_bytes 0 16 ent))
     (map (\<lambda>i. (i, entry_at s i)) [0..<unat (rs_entry_count s)])"

definition table_from_side :: "raw_side \<Rightarrow> bool \<Rightarrow> gpt_table" where
  "table_from_side s pmbr =
     \<lparr>gt_primary_header_crc_ok = False, gt_entries_crc_ok = False, gt_backup_header_crc_ok = False,
      gt_backup_entries_crc_ok = False, gt_protective_mbr_ok = pmbr, gt_current_lba = rs_current_lba s,
      gt_backup_lba = rs_backup_lba s, gt_first_usable_lba = rs_first_usable s, gt_last_usable_lba = rs_last_usable s,
      gt_primary_entries_lba = 0, gt_backup_entries_lba = 0, gt_header_size = rs_header_size s,
      gt_entry_size = rs_entry_size s, gt_entry_count = rs_entry_count s, gt_disk_guid = rs_disk_guid s,
      gt_partitions = map (\<lambda>(i, ent). partition_of (rs_entry_size s) i ent) (used_entries s)\<rparr>"

definition entry_range :: "bytes \<Rightarrow> u64 \<times> u64" where
  "entry_range ent = (read_le64 ent 32, read_le64 ent 40)"

definition range_bad :: "raw_side \<Rightarrow> u64 \<times> u64 \<Rightarrow> bool" where
  "range_bad s r \<longleftrightarrow> fst r > rs_last_usable s \<or> snd r < rs_first_usable s \<or> fst r > snd r"

definition validate_entries :: "raw_side \<Rightarrow> unit result" where
  "validate_entries s =
     (let ranges = map (\<lambda>(i, ent). entry_range ent) (used_entries s)
      in if list_ex (range_bad s) ranges then fail Errc_corrupt ''GPT partition lies outside usable LBA range''
         else if \<not> adjacent (\<lambda>a b. snd a < fst b) (sort ranges) then fail Errc_corrupt ''GPT partitions overlap''
         else Inr ())"

definition sides_equal :: "raw_side \<Rightarrow> raw_side \<Rightarrow> bool" where
  "sides_equal a b \<longleftrightarrow> rs_revision a = rs_revision b \<and> rs_header_size a = rs_header_size b
     \<and> rs_backup_lba a = rs_current_lba b \<and> rs_backup_lba b = rs_current_lba a
     \<and> rs_first_usable a = rs_first_usable b \<and> rs_last_usable a = rs_last_usable b
     \<and> rs_entry_count a = rs_entry_count b \<and> rs_entry_size a = rs_entry_size b
     \<and> rs_disk_guid a = rs_disk_guid b \<and> rs_entries a = rs_entries b"

definition side_from_backup_bytes :: "bytes \<Rightarrow> bytes \<Rightarrow> u64 \<Rightarrow> u64 \<Rightarrow> u32 \<Rightarrow> raw_side result" where
  "side_from_backup_bytes header entries lba tot ss =
     (if length header < unat ss then fail Errc_corrupt ''GPT backup header sector is truncated''
      else
        let h = take (unat ss) header; s = parse_side lba h
        in if take 8 h \<noteq> SIG then fail Errc_corrupt ''GPT backup contains a header with invalid signature''
           else if rs_header_size s < 92 \<or> rs_header_size s > ss
           then fail Errc_corrupt ''GPT backup contains invalid header size''
           else if \<not> rs_header_crc_ok s then fail Errc_corrupt ''GPT backup embedded header checksum mismatch''
           else if rs_current_lba s \<noteq> lba then fail Errc_corrupt ''GPT backup embedded header current-LBA mismatch''
           else if entry_geometry_bad s then fail Errc_corrupt ''GPT backup embedded entry geometry is unreasonable''
           else if unat (entry_bytes s) \<noteq> length entries
           then fail Errc_corrupt ''GPT backup embedded entry array size disagrees with header''
           else
             let out = with_entries entries s
             in if \<not> rs_entries_crc_ok out then fail Errc_corrupt ''GPT backup embedded entry-array checksum mismatch''
                else bind_result (validate_side_geometry out tot (ucast ss)) (\<lambda>_.
                     bind_result (validate_entries out) (\<lambda>_. Inr out)))"

section \<open>Writing both copies\<close>

definition make_header :: "raw_side \<Rightarrow> u64 \<Rightarrow> u64 \<Rightarrow> u64 \<Rightarrow> u32 \<Rightarrow> u32 \<Rightarrow> bytes" where
  "make_header c current backup entries_lba entries_crc ss =
     (let h = replicate (unat ss) 0;
          h = put_bytes 0 SIG h;
          h = write_le32 h 8 (if rs_revision c \<noteq> 0 then rs_revision c else 0x00010000);
          h = write_le32 h 12 (if rs_header_size c \<noteq> 0 then rs_header_size c else 92);
          h = write_le32 h 16 0;
          h = write_le32 h 20 0;
          h = write_le64 h 24 current;
          h = write_le64 h 32 backup;
          h = write_le64 h 40 (rs_first_usable c);
          h = write_le64 h 48 (rs_last_usable c);
          h = put_bytes 56 (rs_disk_guid c) h;
          h = write_le64 h 72 entries_lba;
          h = write_le32 h 80 (rs_entry_count c);
          h = write_le32 h 84 (rs_entry_size c);
          h = write_le32 h 88 entries_crc
      in write_le32 h 16 (crc32_ieee (take (unat (rs_header_size c)) h) 0xffffffff XOR 0xffffffff))"

definition side_valid :: "raw_side \<Rightarrow> bool" where
  "side_valid s \<longleftrightarrow> rs_signature_ok s \<and> rs_header_crc_ok s \<and> rs_entries_crc_ok s"

definition read_redundant_table :: "block_device \<Rightarrow> gpt_table io" where
  "read_redundant_table d =
     (if total_sectors d < 2 then fail_io Errc_corrupt ''device too small for GPT''
      else
      bind_io (read_side d 1) (\<lambda>p.
      bind_io (read_side d (total_sectors d - 1)) (\<lambda>b.
      if \<not> side_valid p \<and> \<not> side_valid b then fail_io Errc_corrupt ''both GPT copies are invalid''
      else
      bind_io (lift_io (if side_valid p then validate_entries p else Inr ())) (\<lambda>_.
      bind_io (lift_io (if side_valid b then validate_entries b else Inr ())) (\<lambda>_.
      if side_valid p \<and> side_valid b \<and> \<not> sides_equal p b
      then fail_io Errc_corrupt ''primary and backup GPT copies are both valid but disagree (split-brain GPT)''
      else
      bind_io (protective_mbr_ok d) (\<lambda>pmbr.
      return_io ((table_from_side (if side_valid p then p else b) pmbr)
        \<lparr>gt_primary_header_crc_ok := rs_header_crc_ok p, gt_entries_crc_ok := rs_entries_crc_ok p,
         gt_backup_header_crc_ok := rs_header_crc_ok b, gt_backup_entries_crc_ok := rs_entries_crc_ok b,
         gt_primary_entries_lba := rs_entries_lba p, gt_backup_entries_lba := rs_entries_lba b\<rparr>)))))))"

definition read_table :: "block_device \<Rightarrow> gpt_table io" where
  "read_table d = read_redundant_table d"

definition probe :: "block_device \<Rightarrow> bool io" where
  "probe d = bind_io (read_exact d (ss64 d) (unat (sector_size d))) (\<lambda>b. return_io (take 8 b = SIG))"

definition kernel_reread :: "block_device \<Rightarrow> gpt_mutation_options \<Rightarrow> bool io" where
  "kernel_reread d opts w =
     (if mo_reread_kernel_table opts \<and> g_is_block_device (bd_geometry d)
      then case next_event w of (Sys_err e, w') \<Rightarrow> (Inr False, w') | (_, w') \<Rightarrow> (Inr True, w')
      else (Inr False, w))"

definition gpt_guard :: "string \<Rightarrow> block_device \<Rightarrow> gpt_mutation_options \<Rightarrow> unit io" where
  "gpt_guard msg d opts =
     bind_io (require_disk_offline_for_write d) (\<lambda>_.
     bind_io (inspect_device_safety d) (\<lambda>ds.
     if ds_block_device ds \<and> \<not> mo_allow_block_device opts then fail_io Errc_unsafe msg else return_io ()))"

definition primary_entries_lba :: "raw_side \<Rightarrow> u64 \<Rightarrow> u64" where
  "primary_entries_lba c sectors =
     (if rs_first_usable c > sectors \<and> rs_first_usable c - sectors \<ge> 2 then rs_first_usable c - sectors else 2)"

text \<open>The four writes, backup copy first, with their flushes.\<close>

definition write_both :: "block_device \<Rightarrow> raw_side \<Rightarrow> bytes \<Rightarrow> unit io" where
  "write_both d c entries =
     (let ss = ss64 d; last_lba = total_sectors d - 1; sectors = entry_sectors c ss;
          backup_entries = last_lba - sectors; primary_entries = primary_entries_lba c sectors;
          ecrc = crc32_ieee entries 0xffffffff XOR 0xffffffff;
          bh = make_header c last_lba 1 backup_entries ecrc (sector_size d);
          ph = make_header c 1 last_lba primary_entries ecrc (sector_size d)
      in bind_io (write_exact d (backup_entries * ss) entries) (\<lambda>_.
         bind_io (write_exact d (last_lba * ss) bh) (\<lambda>_.
         bind_io (flush d) (\<lambda>_.
         bind_io (write_exact d (primary_entries * ss) entries) (\<lambda>_.
         bind_io (write_exact d ss ph) (\<lambda>_. flush d))))))"

definition write_pair :: "block_device \<Rightarrow> raw_side \<Rightarrow> bytes \<Rightarrow> gpt_mutation_options \<Rightarrow> gpt_mutation_report io" where
  "write_pair d c entries opts =
     bind_io (gpt_guard ''GPT mutation on a block device requires --allow-block-device'' d opts) (\<lambda>_.
     if total_sectors d < 100 then fail_io Errc_invalid_argument ''device is too small for GPT''
     else
     bind_io (write_both d c entries) (\<lambda>_.
     bind_io (read_redundant_table d) (\<lambda>t.
     if \<not> gt_primary_header_crc_ok t \<or> \<not> gt_entries_crc_ok t \<or> \<not> gt_backup_header_crc_ok t \<or> \<not> gt_backup_entries_crc_ok t
     then fail_io Errc_io ''GPT post-write verification failed''
     else bind_io (kernel_reread d opts) (\<lambda>k.
     return_io \<lparr>mr_backup_written = True, mr_primary_written = True, mr_verified = True, mr_kernel_reread_requested = k\<rparr>))))"

definition resize_entry :: "u32 \<Rightarrow> u64 \<Rightarrow> u64 \<Rightarrow> raw_side \<Rightarrow> raw_side" where
  "resize_entry index new_first new_last c =
     c\<lparr>rs_entries := put_bytes (unat (index - 1) * unat (rs_entry_size c))
         (write_le64 (write_le64 (entry_at c (unat (index - 1))) 32 new_first) 40 new_last) (rs_entries c)\<rparr>"

definition resize_partition :: "block_device \<Rightarrow> u32 \<Rightarrow> u64 \<Rightarrow> u64 \<Rightarrow> gpt_mutation_options \<Rightarrow> gpt_mutation_report io" where
  "resize_partition d index new_first new_last opts =
     bind_io (read_side d 1) (\<lambda>p.
     bind_io (read_side d (total_sectors d - 1)) (\<lambda>b.
     if side_valid p \<and> side_valid b \<and> \<not> sides_equal p b
     then fail_io Errc_corrupt ''refusing GPT mutation because valid primary and backup copies disagree''
     else if \<not> side_valid p \<and> \<not> side_valid b
     then fail_io Errc_corrupt ''no valid GPT copy is available for mutation''
     else
       let c = (if side_valid p then p else b)
       in if index = 0 \<or> index > rs_entry_count c
          then fail_io Errc_invalid_argument ''partition index outside GPT array''
          else if new_first < rs_first_usable c \<or> new_last > rs_last_usable c \<or> new_first > new_last
          then fail_io Errc_invalid_argument ''requested partition range is outside usable GPT space''
          else if zero_guid (get_bytes 0 16 (entry_at c (unat (index - 1))))
          then fail_io Errc_not_found ''requested GPT partition entry is unused''
          else
            let c' = resize_entry index new_first new_last c in
            bind_io (lift_io (validate_entries c')) (\<lambda>_. write_pair d c' (rs_entries c') opts)))"

definition repair_redundancy :: "block_device \<Rightarrow> gpt_mutation_options \<Rightarrow> gpt_mutation_report io" where
  "repair_redundancy d opts =
     bind_io (read_side d 1) (\<lambda>p.
     bind_io (read_side d (total_sectors d - 1)) (\<lambda>b.
     if \<not> side_valid p \<and> \<not> side_valid b
     then fail_io Errc_corrupt ''neither GPT copy can be used as repair source''
     else if side_valid p \<and> side_valid b \<and> \<not> sides_equal p b
     then fail_io Errc_corrupt ''both GPT copies are valid but disagree; repair source is ambiguous''
     else
       let c = (if side_valid p then p else b) in
       bind_io (lift_io (validate_entries c)) (\<lambda>_. write_pair d c (rs_entries c) opts)))"

section \<open>Saving and restoring the metadata\<close>

definition backup_magic :: bytes where
  "backup_magic = [0x46, 0x53, 0x58, 0x47, 0x50, 0x54, 0x42, 0x31]"

text \<open>\<^verbatim>\<open>read_piece\<close>: append a piece of the disk to the payload; the offset is the length so far.\<close>

definition read_piece :: "block_device \<Rightarrow> u64 \<Rightarrow> bytes \<Rightarrow> u64 \<Rightarrow> u64 \<Rightarrow> bytes io" where
  "read_piece d payload_size acc disk_off n =
     (if n > payload_size - of_nat (length acc) then fail_io Errc_internal ''GPT backup payload layout overflow''
      else bind_io (read_exact d disk_off (unat n)) (\<lambda>b. return_io (acc @ b)))"

definition backup_header :: "u64 \<Rightarrow> u64 \<Rightarrow> u64 \<Rightarrow> u64 \<Rightarrow> u64 \<Rightarrow> u64 \<Rightarrow> u64 \<Rightarrow> bytes \<Rightarrow> bytes" where
  "backup_header ss disk_size ebytes primary_entries backup_entries last_lba payload_size payload =
     (let h = replicate 128 0;
          h = put_bytes 0 backup_magic h;
          h = write_le32 h 8 1;
          h = write_le32 h 12 (ucast ss);
          h = write_le64 h 16 disk_size;
          h = write_le64 h 24 ebytes;
          h = write_le64 h 32 primary_entries;
          h = write_le64 h 40 backup_entries;
          h = write_le64 h 48 last_lba;
          h = write_le64 h 56 payload_size;
          h = write_le32 h 64 (crc32c payload 0xffffffff XOR 0xffffffff);
          h = write_le32 h 68 0
      in write_le32 h 68 (crc32c h 0xffffffff XOR 0xffffffff))"

definition backup_metadata :: "bytes \<Rightarrow> block_device \<Rightarrow> string \<Rightarrow> unit io" where
  "backup_metadata temp_uuid d backup_path =
     bind_io (read_redundant_table d) (\<lambda>t.
     if \<not> gt_primary_header_crc_ok t \<or> \<not> gt_entries_crc_ok t \<or> \<not> gt_backup_header_crc_ok t \<or> \<not> gt_backup_entries_crc_ok t
     then fail_io Errc_corrupt ''GPT metadata backup requires two valid GPT copies''
     else
       let ss = ss64 d; ebytes = ucast (gt_entry_count t) * ucast (gt_entry_size t)
       in if ss < 512 \<or> ss > 65536 then fail_io Errc_unsupported ''unsupported logical sector size for GPT backup''
          else if ebytes > 64 * 1024 * 1024 then fail_io Errc_corrupt ''GPT entry array too large to back up''
          else if total_sectors d < 2 then fail_io Errc_corrupt ''disk too small for GPT backup''
          else
            let last_lba = total_sectors d - 1; payload_size = 3 * ss + 2 * ebytes in
            bind_io (read_piece d payload_size [] 0 ss) (\<lambda>p1.
            bind_io (read_piece d payload_size p1 ss ss) (\<lambda>p2.
            bind_io (read_piece d payload_size p2 (gt_primary_entries_lba t * ss) ebytes) (\<lambda>p3.
            bind_io (read_piece d payload_size p3 (gt_backup_entries_lba t * ss) ebytes) (\<lambda>p4.
            bind_io (read_piece d payload_size p4 (last_lba * ss) ss) (\<lambda>payload.
            if of_nat (length payload) \<noteq> payload_size then fail_io Errc_internal ''GPT backup payload size mismatch''
            else
              let h = backup_header ss (g_size_bytes (bd_geometry d)) ebytes (gt_primary_entries_lba t)
                        (gt_backup_entries_lba t) last_lba payload_size payload;
                  temp = backup_path @ ''.part.'' @ format_uuid temp_uuid
              in with_cleanup temp (
                 bind_io (create_file temp (128 + payload_size)) (\<lambda>out.
                 bind_io (write_exact out 0 h) (\<lambda>_.
                 bind_io (write_exact out 128 payload) (\<lambda>_.
                 bind_io (flush out) (\<lambda>_.
                 publish_file_noreplace temp backup_path ''GPT metadata backup'')))))))))))"

text \<open>What a backup file must satisfy before anything is written: its own header and payload, and
  the two tables inside it.\<close>

record gpt_backup =
  gb_mbr :: bytes
  gb_primary_header :: bytes
  gb_primary_entries :: bytes
  gb_backup_entries :: bytes
  gb_backup_header :: bytes
  gb_primary_lba :: u64
  gb_backup_lba :: u64
  gb_header_lba :: u64

definition check_backup_header :: "block_device \<Rightarrow> u64 \<Rightarrow> bytes \<Rightarrow> u64 result" where
  "check_backup_header d file_size h =
     (if take 8 h \<noteq> backup_magic then fail Errc_corrupt ''not an FSX GPT backup''
      else if read_le32 h 8 \<noteq> 1 then fail Errc_unsupported ''unsupported FSX GPT backup version''
      else if crc32c (write_le32 h 68 0) 0xffffffff XOR 0xffffffff \<noteq> read_le32 h 68
      then fail Errc_corrupt ''GPT backup header checksum mismatch''
      else
        let ss = ucast (read_le32 h 12); ebytes = read_le64 h 24; payload_size = read_le64 h 56;
            tot = read_le64 h 16 div ss; esectors = (ebytes + ss - 1) div ss
        in if ss \<noteq> ss64 d \<or> read_le64 h 16 \<noteq> g_size_bytes (bd_geometry d)
           then fail Errc_unsafe ''GPT backup geometry does not match target disk''
           else if ebytes = 0 \<or> ebytes > 64 * 1024 * 1024 then fail Errc_corrupt ''GPT backup entry geometry is unreasonable''
           else if payload_size \<noteq> 3 * ss + 2 * ebytes then fail Errc_corrupt ''GPT backup payload geometry mismatch''
           else if 128 + payload_size \<noteq> file_size then fail Errc_corrupt ''GPT backup file size does not match its header''
           else if tot < 2 \<or> read_le64 h 48 \<noteq> tot - 1
           then fail Errc_corrupt ''GPT backup header LBA does not match disk geometry''
           else if read_le64 h 32 \<ge> tot \<or> read_le64 h 40 \<ge> tot
               \<or> esectors > tot - read_le64 h 32 \<or> esectors > tot - read_le64 h 40
           then fail Errc_corrupt ''GPT backup entry arrays are outside disk geometry''
           else Inr payload_size)"

definition check_backup_payload :: "block_device \<Rightarrow> bytes \<Rightarrow> bytes \<Rightarrow> gpt_backup result" where
  "check_backup_payload d h payload =
     (if crc32c payload 0xffffffff XOR 0xffffffff \<noteq> read_le32 h 64
      then fail Errc_corrupt ''GPT backup payload checksum mismatch''
      else
        let ss = unat (ss64 d); e = unat (read_le64 h 24); tot = read_le64 h 16 div ss64 d;
            b = \<lparr>gb_mbr = get_bytes 0 ss payload, gb_primary_header = get_bytes ss ss payload,
                 gb_primary_entries = get_bytes (2 * ss) e payload, gb_backup_entries = get_bytes (2 * ss + e) e payload,
                 gb_backup_header = get_bytes (2 * ss + 2 * e) ss payload, gb_primary_lba = read_le64 h 32,
                 gb_backup_lba = read_le64 h 40, gb_header_lba = read_le64 h 48\<rparr>
        in if gb_mbr b ! 510 \<noteq> 0x55 \<or> gb_mbr b ! 511 \<noteq> 0xaa
           then fail Errc_corrupt ''GPT backup protective MBR signature is invalid''
           else if \<not> protective_entry (gb_mbr b) then fail Errc_corrupt ''GPT backup protective MBR has no 0xEE entry''
           else bind_result (side_from_backup_bytes (gb_primary_header b) (gb_primary_entries b) 1 tot (sector_size d)) (\<lambda>ps.
                bind_result (side_from_backup_bytes (gb_backup_header b) (gb_backup_entries b) (gb_header_lba b) tot (sector_size d)) (\<lambda>bs.
                if rs_entries_lba ps \<noteq> gb_primary_lba b \<or> rs_entries_lba bs \<noteq> gb_backup_lba b
                then fail Errc_corrupt ''GPT backup sidecar entry-array LBAs disagree with embedded headers''
                else if \<not> sides_equal ps bs
                then fail Errc_corrupt ''GPT backup contains internally inconsistent primary and backup tables''
                else Inr b)))"

definition restore_writes :: "block_device \<Rightarrow> gpt_backup \<Rightarrow> unit io" where
  "restore_writes d b =
     (let ss = ss64 d in
      bind_io (write_exact d (gb_backup_lba b * ss) (gb_backup_entries b)) (\<lambda>_.
      bind_io (write_exact d (gb_header_lba b * ss) (gb_backup_header b)) (\<lambda>_.
      bind_io (flush d) (\<lambda>_.
      bind_io (write_exact d (gb_primary_lba b * ss) (gb_primary_entries b)) (\<lambda>_.
      bind_io (write_exact d ss (gb_primary_header b)) (\<lambda>_.
      bind_io (write_exact d 0 (gb_mbr b)) (\<lambda>_. flush d)))))))"

definition restore_metadata :: "block_device \<Rightarrow> string \<Rightarrow> gpt_mutation_options \<Rightarrow> gpt_mutation_report io" where
  "restore_metadata d backup_path opts =
     bind_io (gpt_guard ''GPT restore on a block device requires --allow-block-device'' d opts) (\<lambda>_.
     bind_io (open_read backup_path) (\<lambda>inp.
     bind_io (read_exact inp 0 128) (\<lambda>h.
     bind_io (lift_io (check_backup_header d (g_size_bytes (bd_geometry inp)) h)) (\<lambda>payload_size.
     bind_io (read_exact inp 128 (unat payload_size)) (\<lambda>payload.
     bind_io (lift_io (check_backup_payload d h payload)) (\<lambda>b.
     bind_io (restore_writes d b) (\<lambda>_.
     bind_io (read_redundant_table d) (\<lambda>t.
     if \<not> gt_primary_header_crc_ok t \<or> \<not> gt_entries_crc_ok t \<or> \<not> gt_backup_header_crc_ok t
        \<or> \<not> gt_backup_entries_crc_ok t \<or> \<not> gt_protective_mbr_ok t
     then fail_io Errc_io ''restored GPT failed post-write verification''
     else bind_io (kernel_reread d opts) (\<lambda>k.
     return_io \<lparr>mr_backup_written = True, mr_primary_written = True, mr_verified = True, mr_kernel_reread_requested = k\<rparr>)))))))))"

definition hex2 :: "u8 \<Rightarrow> string" where
  "hex2 v = [hex_digits ! unat (drop_bit 4 v), hex_digits ! unat (v AND 15)]"

definition guid_to_string :: "bytes \<Rightarrow> string" where
  "guid_to_string g =
     concat (map (\<lambda>i. hex2 (g ! i)) [3, 2, 1, 0]) @ ''-'' @ concat (map (\<lambda>i. hex2 (g ! i)) [5, 4]) @ ''-''
     @ concat (map (\<lambda>i. hex2 (g ! i)) [7, 6]) @ ''-'' @ concat (map (\<lambda>i. hex2 (g ! i)) [8, 9]) @ ''-''
     @ concat (map (\<lambda>i. hex2 (g ! i)) [10, 11, 12, 13, 14, 15])"

end
