(* ===== verification/Fsx_Gpt_Laws.thy ===== *)
theory Fsx_Gpt_Laws
  imports Fsx_Gpt Fsx_Triple
begin

text \<open>
  What the partition-table code guarantees: the entry check decides disjointness, a header that is
  written is read back with a matching checksum, and of the two copies one is always whole.
\<close>

section \<open>Entries\<close>

lemma closed_apart_sets:
  assumes "fst a \<le> snd a" "fst b \<le> (snd b :: 'k::linorder)"
  shows "closed.apart a b \<longleftrightarrow> {fst a..snd a} \<inter> {fst b..snd b} = {}"
  using assms by (auto simp: closed.apart_def Int_atLeastAtMost max_def min_def)

definition side_ranges :: "raw_side \<Rightarrow> (u64 \<times> u64) list" where
  "side_ranges s = map (\<lambda>(i, ent). entry_range ent) (used_entries s)"

lemma validate_entries_iff:
  "validate_entries s = Inr () \<longleftrightarrow> (\<forall>r\<in>set (side_ranges s). \<not> range_bad s r) \<and> sorted_wrt closed.apart (side_ranges s)"
proof (cases "\<forall>r\<in>set (side_ranges s). \<not> range_bad s r")
  case True
  then have "\<forall>r\<in>set (side_ranges s). fst r \<le> snd r" by (auto simp: range_bad_def not_less)
  then have "adjacent (\<lambda>a b. snd a < fst b) (sort (side_ranges s)) \<longleftrightarrow> sorted_wrt closed.apart (side_ranges s)"
    using closed.adjacent_decides [of "side_ranges s" "\<lambda>x. x"] closed_sorted by simp
  with True show ?thesis
    by (auto simp: validate_entries_def side_ranges_def [symmetric] Let_def list_ex_iff)
next
  case False
  then show ?thesis by (auto simp: validate_entries_def side_ranges_def [symmetric] Let_def list_ex_iff)
qed

lemma sorted_wrt_apart_sets:
  assumes "\<forall>r\<in>set xs. fst r \<le> (snd r :: 'k::linorder)"
  shows "sorted_wrt closed.apart xs \<longleftrightarrow> sorted_wrt (\<lambda>a b. {fst a..snd a} \<inter> {fst b..snd b} = {}) xs"
  using assms by (induction xs) (auto simp: closed_apart_sets)

text \<open>C12. The entry check decides what it should: it passes exactly when every used entry has its first
  sector not after its last and neither ends before nor starts after the usable range, and no two used
  entries share a sector. The order in which the entries stand does not matter.\<close>

theorem gpt_entries_disjoint:
  "validate_entries s = Inr () \<longleftrightarrow>
     list_all (\<lambda>r. fst r \<le> snd r \<and> fst r \<le> rs_last_usable s \<and> rs_first_usable s \<le> snd r) (side_ranges s)
     \<and> sorted_wrt (\<lambda>a b. {fst a..snd a} \<inter> {fst b..snd b} = {}) (side_ranges s)"
proof (cases "\<forall>r\<in>set (side_ranges s). \<not> range_bad s r")
  case True
  then have "\<forall>r\<in>set (side_ranges s). fst r \<le> snd r" by (auto simp: range_bad_def not_less)
  with True show ?thesis
    by (auto simp: validate_entries_iff sorted_wrt_apart_sets list_all_iff range_bad_def not_less)
next
  case False
  then show ?thesis by (auto simp: validate_entries_iff list_all_iff range_bad_def not_less)
qed

text \<open>A table with the one partition \<open>[90, 200]\<close> and the usable range \<open>[34, 100]\<close>.\<close>

definition overhang_entry :: bytes where
  "overhang_entry = write_le64 (write_le64 (1 # replicate 127 0) 32 90) 40 200"

definition overhang_side :: raw_side where
  "overhang_side = (raw_side_new 1 [])\<lparr>rs_first_usable := 34, rs_last_usable := 100, rs_entry_count := 1,
     rs_entry_size := 128, rs_entries := overhang_entry\<rparr>"

lemma overhang_ranges: "side_ranges overhang_side = [(90, 200)]"
proof -
  have e: "entry_at overhang_side 0 = overhang_entry"
    by (simp add: entry_at_def overhang_side_def overhang_entry_def get_bytes_def)
  have "get_bytes 0 16 overhang_entry ! 0 = 1"
    by (simp add: overhang_entry_def buf_simps nth_get_bytes)
  then have "\<not> zero_guid (get_bytes 0 16 overhang_entry)"
    by (auto simp: zero_guid_def list_all_length overhang_entry_def buf_simps intro!: exI [of _ 0])
  moreover have "entry_range overhang_entry = (90, 200)"
    by (simp add: entry_range_def overhang_entry_def buf_simps)
  ultimately show ?thesis
    by (simp add: side_ranges_def used_entries_def e) (simp add: overhang_side_def e [unfolded overhang_side_def])
qed


section \<open>Headers\<close>

lemma header_layout:
  assumes "92 \<le> unat ss" and "length (rs_disk_guid c) = 16"
  shows "length (make_header c cur bak el ecrc ss) = unat ss"
  using assms by (simp add: make_header_def Let_def SIG_def)

text \<open>The header written for a copy is the header read back: its fields are those of the table and the
  place it was made for, its signature is right and its checksum matches.\<close>

theorem gpt_header_roundtrip:
  assumes "92 \<le> unat (rs_header_size c)" and "rs_header_size c \<le> ss" and "length (rs_disk_guid c) = 16"
    and "rs_revision c \<noteq> 0" and "h = make_header c cur bak el ecrc ss"
  shows "take 8 h = SIG \<and> read_le32 h 88 = ecrc \<and> parse_side cur h =
    (raw_side_new cur h)\<lparr>rs_signature_ok := True, rs_header_crc_ok := True, rs_revision := rs_revision c,
      rs_header_size := rs_header_size c, rs_current_lba := cur, rs_backup_lba := bak,
      rs_first_usable := rs_first_usable c, rs_last_usable := rs_last_usable c, rs_disk_guid := rs_disk_guid c,
      rs_entries_lba := el, rs_entry_count := rs_entry_count c, rs_entry_size := rs_entry_size c\<rparr>"
proof -
  have ss: "92 \<le> unat ss" using assms(1,2) by (simp add: word_le_nat_alt)
  define h0 where "h0 = (let h = replicate (unat ss) 0; h = put_bytes 0 SIG h; h = write_le32 h 8 (rs_revision c);
      h = write_le32 h 12 (rs_header_size c); h = write_le32 h 16 0; h = write_le32 h 20 0; h = write_le64 h 24 cur;
      h = write_le64 h 32 bak; h = write_le64 h 40 (rs_first_usable c); h = write_le64 h 48 (rs_last_usable c);
      h = put_bytes 56 (rs_disk_guid c) h; h = write_le64 h 72 el; h = write_le32 h 80 (rs_entry_count c);
      h = write_le32 h 84 (rs_entry_size c) in write_le32 h 88 ecrc)"
  have l8: "length SIG = 8" by (simp add: SIG_def)
  have hs: "rs_header_size c \<noteq> 0" using assms(1) by auto
  have h: "h = write_le32 h0 16 (crc32_ieee (take (unat (rs_header_size c)) h0) 0xffffffff XOR 0xffffffff)"
    using hs assms(4) by (simp add: assms(5) make_header_def h0_def Let_def)
  have f: "length h0 = unat ss" "read_le32 h0 16 = 0" "read_le32 h0 8 = rs_revision c" "read_le32 h0 12 = rs_header_size c"
    "read_le64 h0 24 = cur" "read_le64 h0 32 = bak" "read_le64 h0 40 = rs_first_usable c" "read_le64 h0 48 = rs_last_usable c"
    "get_bytes 56 16 h0 = rs_disk_guid c" "read_le64 h0 72 = el" "read_le32 h0 80 = rs_entry_count c"
    "read_le32 h0 84 = rs_entry_size c" "read_le32 h0 88 = ecrc" "take 8 h0 = SIG"
    using ss assms(3) l8 by (simp_all add: h0_def Let_def buf_simps) (simp_all add: put_bytes_def)
  have z: "write_le32 h 16 0 = h0"
    using ss f(1,2) write_le32_read [of 16 h0] by (simp add: h write_le32_overwrite)
  have "header_crc h (rs_header_size c) = read_le32 h 16"
    unfolding header_crc_def z using ss f(1) by (simp add: h buf_simps)
  then have crc: "read_le32 h 16 = header_crc h (rs_header_size c)" by simp
  have g: "length h = unat ss" "read_le32 h 8 = rs_revision c" "read_le32 h 12 = rs_header_size c"
    "read_le64 h 24 = cur" "read_le64 h 32 = bak" "read_le64 h 40 = rs_first_usable c" "read_le64 h 48 = rs_last_usable c"
    "get_bytes 56 16 h = rs_disk_guid c" "read_le64 h 72 = el" "read_le32 h 80 = rs_entry_count c"
    "read_le32 h 84 = rs_entry_size c" "read_le32 h 88 = ecrc" "take 8 h = SIG"
    using ss f by (simp_all add: h buf_simps)
  show ?thesis using crc by (simp add: parse_side_def g)
qed

definition sample_side :: raw_side where
  "sample_side = (raw_side_new 1 [])\<lparr>rs_revision := 0x10000, rs_header_size := 92, rs_first_usable := 34,
     rs_last_usable := 990, rs_entry_count := 4, rs_entry_size := 128, rs_entries := replicate 512 0\<rparr>"

theorem gpt_header_roundtrip_witness:
  "rs_header_crc_ok (parse_side 1 (make_header sample_side 1 999 2 5 512))
   \<and> rs_backup_lba (parse_side 1 (make_header sample_side 1 999 2 5 512)) = 999"
proof -
  have "92 \<le> unat (rs_header_size sample_side)" "rs_header_size sample_side \<le> 512" "length (rs_disk_guid sample_side) = 16"
    "rs_revision sample_side \<noteq> 0"
    by (simp_all add: sample_side_def raw_side_new_def)
  from gpt_header_roundtrip [OF this refl] show ?thesis by simp
qed

section \<open>The two copies\<close>

text \<open>The places \<^verbatim>\<open>write_pair\<close> writes to, in bytes, and when they are apart.\<close>

definition backup_entries_lba :: "block_device \<Rightarrow> raw_side \<Rightarrow> u64" where
  "backup_entries_lba d c = total_sectors d - 1 - entry_sectors c (ss64 d)"

definition layout_ok :: "block_device \<Rightarrow> raw_side \<Rightarrow> nat \<Rightarrow> nat \<Rightarrow> bool" where
  "layout_ok d c n len \<longleftrightarrow>
     (let ss = unat (ss64 d); pe = unat (primary_entries_lba c (entry_sectors c (ss64 d)) * ss64 d);
          be = unat (backup_entries_lba d c * ss64 d); bh = unat ((total_sectors d - 1) * ss64 d)
      in 92 \<le> ss \<and> length (rs_disk_guid c) = 16 \<and> 2 * ss \<le> pe \<and> pe + n \<le> be \<and> be + n \<le> bh \<and> bh + ss \<le> len)"

definition copies_at :: "block_device \<Rightarrow> raw_side \<Rightarrow> nat \<Rightarrow> bytes \<Rightarrow> (bytes \<times> bytes) \<times> (bytes \<times> bytes)" where
  "copies_at d c n D =
     (let ss = unat (ss64 d) in
      ((get_bytes ss ss D, get_bytes (unat (primary_entries_lba c (entry_sectors c (ss64 d)) * ss64 d)) n D),
       (get_bytes (unat ((total_sectors d - 1) * ss64 d)) ss D, get_bytes (unat (backup_entries_lba d c * ss64 d)) n D)))"

text \<open>What \<^verbatim>\<open>write_pair\<close> is going to write: headers and entries of the primary and of the backup.\<close>

definition new_copies :: "block_device \<Rightarrow> raw_side \<Rightarrow> bytes \<Rightarrow> (bytes \<times> bytes) \<times> (bytes \<times> bytes)" where
  "new_copies d c entries =
     (let last_lba = total_sectors d - 1; ecrc = crc32_ieee entries 0xffffffff XOR 0xffffffff in
      ((make_header c 1 last_lba (primary_entries_lba c (entry_sectors c (ss64 d))) ecrc (sector_size d), entries),
       (make_header c last_lba 1 (backup_entries_lba d c) ecrc (sector_size d), entries)))"

lemma sector_size_unat: "unat (ss64 d) = unat (sector_size d)"
  by (simp add: ss64_def word_nat)

lemma write_both_triple:
  assumes lay: "layout_ok d c (length entries) L"
  shows "triple (bytes_are d (\<lambda>D U. length D = L \<and> fst (copies_at d c (length entries) D) = old)) (write_both d c entries)
    (\<lambda>_. bytes_are d (\<lambda>D U. length D = L \<and> U = D \<and> copies_at d c (length entries) D = new_copies d c entries))
    (bytes_are d (\<lambda>D U. length D = L \<and> (fst (copies_at d c (length entries) D) = old
       \<or> snd (copies_at d c (length entries) D) = snd (new_copies d c entries)
         \<and> snd (copies_at d c (length entries) U) = snd (new_copies d c entries))))"
proof -
  let ?ss = "unat (ss64 d)" and ?n = "length entries" and ?sec = "entry_sectors c (ss64 d)"
  let ?pe = "unat (primary_entries_lba c ?sec * ss64 d)" and ?be = "unat (backup_entries_lba d c * ss64 d)"
  let ?bh = "unat ((total_sectors d - 1) * ss64 d)"
  let ?E = "\<lambda>D U. length D = L \<and> (fst (copies_at d c ?n D) = old
       \<or> snd (copies_at d c ?n D) = snd (new_copies d c entries) \<and> snd (copies_at d c ?n U) = snd (new_copies d c entries))"
  define PH where "PH = fst (fst (new_copies d c entries))"
  define BH where "BH = fst (snd (new_copies d c entries))"
  have len: "length PH = ?ss" "length BH = ?ss"
    using lay by (simp_all add: PH_def BH_def new_copies_def Let_def header_layout sector_size_unat layout_ok_def)
  have l: "2 * ?ss \<le> ?pe" "?pe + ?n \<le> ?be" "?be + ?n \<le> ?bh" "?bh + ?ss \<le> L"
    using lay by (simp_all add: layout_ok_def Let_def)
  have cp: "copies_at d c ?n D = ((get_bytes ?ss ?ss D, get_bytes ?pe ?n D), (get_bytes ?bh ?ss D, get_bytes ?be ?n D))" for D
    by (simp add: copies_at_def Let_def)
  have nw: "new_copies d c entries = ((PH, entries), (BH, entries))"
    by (simp add: PH_def BH_def new_copies_def Let_def)
  note [simp] = cp nw and [simp] = get_put_other get_put_same
  have "write_both d c entries =
         bind_io (write_exact d (backup_entries_lba d c * ss64 d) entries) (\<lambda>_.
         bind_io (write_exact d ((total_sectors d - 1) * ss64 d) BH) (\<lambda>_.
         bind_io (flush d) (\<lambda>_.
         bind_io (write_exact d (primary_entries_lba c ?sec * ss64 d) entries) (\<lambda>_.
         bind_io (write_exact d (ss64 d) PH) (\<lambda>_. flush d)))))"
    by (simp add: write_both_def Let_def PH_def BH_def new_copies_def backup_entries_lba_def del: nw)
  moreover have "triple (bytes_are d (\<lambda>D U. length D = L \<and> fst (copies_at d c ?n D) = old)) (write_exact d (backup_entries_lba d c * ss64 d) entries)
      (\<lambda>_. bytes_are d (\<lambda>D U. length D = L \<and> fst (copies_at d c ?n D) = old \<and> get_bytes ?be ?n D = entries)) (bytes_are d ?E)"
    by (rule triple_write) (use l len in auto)
  moreover have "triple (bytes_are d (\<lambda>D U. length D = L \<and> fst (copies_at d c ?n D) = old \<and> get_bytes ?be ?n D = entries))
      (write_exact d ((total_sectors d - 1) * ss64 d) BH)
      (\<lambda>_. bytes_are d (\<lambda>D U. length D = L \<and> fst (copies_at d c ?n D) = old \<and> snd (copies_at d c ?n D) = (BH, entries))) (bytes_are d ?E)"
    by (rule triple_write) (use l len in auto)
  moreover have "triple (bytes_are d (\<lambda>D U. length D = L \<and> fst (copies_at d c ?n D) = old \<and> snd (copies_at d c ?n D) = (BH, entries))) (flush d)
      (\<lambda>_. bytes_are d (\<lambda>D U. length D = L \<and> snd (copies_at d c ?n D) = (BH, entries) \<and> snd (copies_at d c ?n U) = (BH, entries))) (bytes_are d ?E)"
    by (rule triple_flush) auto
  moreover have "triple (bytes_are d (\<lambda>D U. length D = L \<and> snd (copies_at d c ?n D) = (BH, entries) \<and> snd (copies_at d c ?n U) = (BH, entries)))
      (write_exact d (primary_entries_lba c ?sec * ss64 d) entries)
      (\<lambda>_. bytes_are d (\<lambda>D U. length D = L \<and> snd (copies_at d c ?n D) = (BH, entries) \<and> snd (copies_at d c ?n U) = (BH, entries)
          \<and> get_bytes ?pe ?n D = entries)) (bytes_are d ?E)"
    by (rule triple_write) (use l len in auto)
  moreover have "triple (bytes_are d (\<lambda>D U. length D = L \<and> snd (copies_at d c ?n D) = (BH, entries) \<and> snd (copies_at d c ?n U) = (BH, entries)
          \<and> get_bytes ?pe ?n D = entries)) (write_exact d (ss64 d) PH)
      (\<lambda>_. bytes_are d (\<lambda>D U. length D = L \<and> copies_at d c ?n D = ((PH, entries), (BH, entries)) \<and> snd (copies_at d c ?n U) = (BH, entries))) (bytes_are d ?E)"
    by (rule triple_write) (use l len in auto)
  moreover have "triple (bytes_are d (\<lambda>D U. length D = L \<and> copies_at d c ?n D = ((PH, entries), (BH, entries)) \<and> snd (copies_at d c ?n U) = (BH, entries))) (flush d)
      (\<lambda>_. bytes_are d (\<lambda>D U. length D = L \<and> U = D \<and> copies_at d c ?n D = new_copies d c entries)) (bytes_are d ?E)"
    by (rule triple_flush) auto
  ultimately show ?thesis by (simp only:) (intro triple_bind)
qed

lemma next_event_pure:
  "next_event w = (ev, w') \<Longrightarrow> w_files w' = w_files w"
  by (rule next_event_files)

lemma pure_safety [pure_intros]:
  "pure_io (inspect_device_safety d)" "pure_io (require_disk_offline_for_write d)"
proof -
  show i: "pure_io (inspect_device_safety d)"
    by (auto simp: pure_io_def inspect_device_safety_def Let_def dest: next_event_files
        split: prod.splits sysev.splits if_splits option.splits)
  have "pure_io (\<lambda>w. case next_event w of
             (Sys_err e, w1) \<Rightarrow> throw_io (from_errno Errc_unsafe (''cannot acquire exclusive device lock: '' @ w_strerror w1 e) e) w1
           | (_, w1) \<Rightarrow> return_io () w1)"
    by (auto simp: pure_io_def dest: next_event_files split: prod.splits sysev.splits)
  with i show "pure_io (require_disk_offline_for_write d)"
    unfolding require_disk_offline_for_write_def require_offline_for_write_def
    by (intro pure_intros)
qed

lemma pure_gpt [pure_intros]:
  "pure_io (read_side d lba)" "pure_io (protective_mbr_ok d)" "pure_io (read_redundant_table d)"
  "pure_io (gpt_guard m d opts)" "pure_io (kernel_reread d opts)"
proof -
  show a: "pure_io (read_side d lba)" for lba
    unfolding read_side_def Let_def by (intro pure_intros)
  show b: "pure_io (protective_mbr_ok d)"
    by (auto simp: pure_io_def protective_mbr_ok_def dest: read_exact_spec split: if_splits prod.splits sum.splits failure.splits)
  show "pure_io (read_redundant_table d)"
    unfolding read_redundant_table_def by (intro pure_intros a b)
  show "pure_io (gpt_guard m d opts)" unfolding gpt_guard_def by (intro pure_intros)
  show "pure_io (kernel_reread d opts)"
    by (auto simp: pure_io_def kernel_reread_def dest: next_event_files split: if_splits prod.splits sysev.splits)
qed

text \<open>The state in which an update of the table may be left: the old primary copy with the disk's other
  contents where they were, or the whole new backup copy, also after a power loss.\<close>

definition copy_survives :: "block_device \<Rightarrow> raw_side \<Rightarrow> bytes \<Rightarrow> bytes \<Rightarrow> bytes \<Rightarrow> bool" where
  "copy_survives d c D0 D U \<longleftrightarrow> fst (copies_at d c (length (rs_entries c)) D) = fst (copies_at d c (length (rs_entries c)) D0)
     \<or> snd (copies_at d c (length (rs_entries c)) D) = snd (new_copies d c (rs_entries c))
       \<and> snd (copies_at d c (length (rs_entries c)) U) = snd (new_copies d c (rs_entries c))"

lemma write_pair_triple:
  assumes "layout_ok d c (length (rs_entries c)) (length D0)"
  shows "triple (bytes_are d (\<lambda>D U. D = D0)) (write_pair d c (rs_entries c) opts)
    (\<lambda>rep. bytes_are d (\<lambda>D U. copies_at d c (length (rs_entries c)) D = new_copies d c (rs_entries c) \<and> U = D))
    (bytes_are d (\<lambda>D U. copy_survives d c D0 D U))"
proof -
  let ?E = "\<lambda>D U. copy_survives d c D0 D U"
  let ?Q = "\<lambda>D U. copies_at d c (length (rs_entries c)) D = new_copies d c (rs_entries c) \<and> U = D"
  have w: "triple (bytes_are d (\<lambda>D U. D = D0)) (write_both d c (rs_entries c)) (\<lambda>_. bytes_are d ?Q) (bytes_are d ?E)"
    by (rule triple_conseq [OF write_both_triple [OF assms]]) (auto simp: bytes_are_def copy_survives_def)
  have e: "?Q D U \<Longrightarrow> ?E D U" for D U by (auto simp: copy_survives_def)
  have "D = D0 \<Longrightarrow> ?E D U" for D U by (simp add: copy_survives_def)
  then show ?thesis
    unfolding write_pair_def
    by (intro triple_pure_bind pure_intros triple_if triple_bind [OF w] triple_fail triple_return)
      (auto simp: bytes_are_def intro: e)
qed

lemma write_pair_outcome:
  assumes "write_pair d c (rs_entries c) opts w = (r, w')" and "on_file d w"
    and "layout_ok d c (length (rs_entries c)) (length (data_of d w))"
  shows "copy_survives d c (data_of d w) (data_of d w') (f_durable (w_files w' (bd_fd d)))
    \<and> (\<forall>rep. r = Inr rep \<longrightarrow> copies_at d c (length (rs_entries c)) (data_of d w') = new_copies d c (rs_entries c))"
proof -
  have pre: "bytes_are d (\<lambda>D U. D = data_of d w) w" using assms(2) by (simp add: bytes_are_def)
  note t = write_pair_triple [OF assms(3), of opts]
  show ?thesis
  proof (cases r)
    case (Inl e)
    then show ?thesis using triple_Inl [OF t pre] assms(1) by (auto simp: bytes_are_def)
  next
    case (Inr rep)
    then have "bytes_are d (\<lambda>D U. copies_at d c (length (rs_entries c)) D = new_copies d c (rs_entries c) \<and> U = D) w'"
      using triple_Inr [OF t pre] assms(1) by auto
    then show ?thesis by (simp add: bytes_are_def copy_survives_def)
  qed
qed

text \<open>The copy whose header stands in sector \<open>lba\<close> of the disk contents.\<close>

definition copy_on_disk :: "block_device \<Rightarrow> bytes \<Rightarrow> u64 \<Rightarrow> raw_side" where
  "copy_on_disk d D lba =
     (let s = parse_side lba (get_bytes (unat (lba * ss64 d)) (unat (ss64 d)) D)
      in with_entries (get_bytes (unat (rs_entries_lba s * ss64 d)) (unat (entry_bytes s)) D) s)"

definition found_copy :: "block_device \<Rightarrow> bytes \<Rightarrow> raw_side \<Rightarrow> bool" where
  "found_copy d D c \<longleftrightarrow> side_valid c \<and> list_ex (\<lambda>lba. c = copy_on_disk d D lba
     \<and> take 8 (get_bytes (unat (lba * ss64 d)) (unat (ss64 d)) D) = SIG) [1, total_sectors d - 1]"

lemma read_side_spec:
  assumes "read_side d lba w = (Inr c, w')"
  shows "rs_signature_ok c \<Longrightarrow> c = copy_on_disk d (data_of d w) lba
    \<and> take 8 (get_bytes (unat (lba * ss64 d)) (unat (ss64 d)) (data_of d w)) = SIG"
  using assms unfolding read_side_def Let_def
proof (elim guard_io_cases, goal_cases)
  case 2
  from 2(3) show ?case
  proof (cases rule: bind_io_cases)
    case (step header w1)
    have h: "header = get_bytes (unat (lba * ss64 d)) (unat (ss64 d)) (data_of d w)" "w_files w1 = w_files w"
      using read_exact_spec [OF step(1)] by (simp_all add: sector_size_unat)
    show ?thesis
    proof (cases "take 8 header = SIG")
      case True
      then have "bind_io (read_exact d (rs_entries_lba (parse_side lba header) * ss64 d) (unat (entry_bytes (parse_side lba header))))
          (\<lambda>entries. bind_io (lift_io (validate_side_geometry (with_entries entries (parse_side lba header)) (total_sectors d) (ss64 d)))
            (\<lambda>_. return_io (with_entries entries (parse_side lba header)))) w1 = (Inr c, w')"
        using step(2) by (simp split: if_split_asm)
      then show ?thesis
      proof (cases rule: bind_io_cases)
        case (step entries w2)
        then have "c = with_entries entries (parse_side lba header)"
          by (auto elim: lift_bind_cases)
        moreover have "entries = get_bytes (unat (rs_entries_lba (parse_side lba header) * ss64 d)) (unat (entry_bytes (parse_side lba header))) (data_of d w)"
          using read_exact_spec [OF step(1)] h(2) by simp
        ultimately show ?thesis using True h(1) by (simp add: copy_on_disk_def Let_def)
      qed simp
    next
      case False
      then show ?thesis using step(2) 2(1) by (auto simp: raw_side_new_def)
    qed
  qed simp
qed simp

lemma resize_partition_cases:
  assumes "resize_partition d index nf nl opts w = (r, w')"
  obtains (refused) "w_files w' = w_files w" "\<forall>rep. r \<noteq> Inr rep"
    | (written) c w2 where "w_files w2 = w_files w" "found_copy d (data_of d w) c" "validate_entries (resize_entry index nf nl c) = Inr ()"
        "rs_first_usable c \<le> nf" "nf \<le> nl" "nl \<le> rs_last_usable c"
        "write_pair d (resize_entry index nf nl c) (rs_entries (resize_entry index nf nl c)) opts w2 = (r, w')"
  using assms unfolding resize_partition_def
proof (cases rule: bind_io_cases)
  case (failed e)
  then show ?thesis using refused pure_step [OF pure_gpt(1)] by simp
next
  case (step p w1)
  note p = step(1) and w1 = pure_step [OF pure_gpt(1) step(1)]
  from step(2) show ?thesis
  proof (cases rule: bind_io_cases)
    case (failed e)
    then show ?thesis using refused pure_step [OF pure_gpt(1) failed(1)] w1 by simp
  next
    case (step b w2)
    have w2: "w_files w2 = w_files w" using pure_step [OF pure_gpt(1) step(1)] w1 by simp
    have c: "found_copy d (data_of d w) (if side_valid p then p else b)" if "side_valid p \<or> side_valid b"
      using that read_side_spec [OF p] read_side_spec [OF step(1)] w1
      by (auto simp: found_copy_def side_valid_def)
    from step(2) show ?thesis
      unfolding Let_def
    proof (elim guard_io_cases lift_bind_cases, goal_cases)
      case 7
      then show ?case by (intro written [OF w2 c]) (auto simp: not_less)
    qed (use refused w2 in auto)
  qed
qed



end
