(* ===== verification/Fsx_Publish.thy ===== *)
theory Fsx_Publish
  imports Fsx_Files Fsx_Triple
begin

text \<open>
  What the writers of auxiliary files (undo sectors, table backups, images) rely on: device calls leave
  the directories alone, a created file is new, and a file that was written, flushed and published is
  durable under its final name.
\<close>

section \<open>Calls that leave the directories alone\<close>

definition dirs :: "world \<Rightarrow> (string \<Rightarrow> nat option) \<times> (string \<Rightarrow> nat option) \<times> nat" where
  "dirs w = (w_names w, w_durable_names w, w_next w)"

definition same_dirs :: "'a io \<Rightarrow> bool" where
  "same_dirs m \<longleftrightarrow> (\<forall>w r w'. m w = (r, w') \<longrightarrow> dirs w' = dirs w)"

named_theorems dirs_intros \<open>programs that leave the directories alone\<close>

lemma same_dirsD: "same_dirs m \<Longrightarrow> m w = (r, w') \<Longrightarrow> dirs w' = dirs w"
  by (simp add: same_dirs_def)

lemma same_dirs_bind [dirs_intros]: "same_dirs m \<Longrightarrow> (\<And>x. same_dirs (f x)) \<Longrightarrow> same_dirs (bind_io m f)"
  by (fastforce simp: same_dirs_def bind_io_def split: prod.splits sum.splits)

lemma same_dirs_simple [dirs_intros]:
  "same_dirs (return_io x)" "same_dirs (fail_io c m)" "same_dirs (throw_io e)" "same_dirs (lift_io r)"
  "same_dirs (fault_hook op t)"
  by (auto simp: same_dirs_def dirs_def lift_io_def fault_hook_def split: sum.splits prod.splits if_splits)

lemma same_dirs_if [dirs_intros]: "same_dirs m \<Longrightarrow> same_dirs m' \<Longrightarrow> same_dirs (if b then m else m')"
  by simp

lemma dirs_set_data [simp]: "dirs (set_data fd b w) = dirs w"
  by (simp add: dirs_def set_data_def)

lemma next_event_dirs: "next_event w = (ev, w') \<Longrightarrow> dirs w' = dirs w"
  by (auto simp: dirs_def dest: next_event_names)

lemma sys_dirs:
  "sys_pread fd n pos w = (x, w') \<Longrightarrow> dirs w' = dirs w"
  "sys_pwrite fd b pos w = (y, w') \<Longrightarrow> dirs w' = dirs w"
  "sys_fsync fd w = (z, w') \<Longrightarrow> dirs w' = dirs w"
  by (auto simp: sys_pread_def sys_pwrite_def sys_fsync_def dest!: next_event_dirs split: prod.splits sysev.splits)
    (auto simp: dirs_def)

lemma read_loop_dirs [dirs_intros]: "same_dirs (read_loop fd off n acc)"
proof -
  have "read_loop fd off n acc w = (r, w') \<Longrightarrow> dirs w' = dirs w" for w r w'
  proof (induction fd off n acc w arbitrary: r w' rule: read_loop.induct)
    case (1 fd off n acc w)
    obtain q w1 where q: "sys_pread fd (min (n - length acc) ssize_max) (off + length acc) w = (q, w1)" by fastforce
    show ?case
      using "1.prems" "1.IH" [OF _ q [symmetric]] sys_dirs(1) [OF q] q
      by (cases q) (auto simp: read_loop.simps [of fd off n acc w] split: if_splits)
  qed
  then show ?thesis by (simp add: same_dirs_def)
qed

lemma write_loop_dirs [dirs_intros]: "same_dirs (write_loop fd off b k)"
proof -
  have "write_loop fd off b k w = (r, w') \<Longrightarrow> dirs w' = dirs w" for w r w'
  proof (induction fd off b k w arbitrary: r w' rule: write_loop.induct)
    case (1 fd off b k w)
    obtain q w1 where q: "sys_pwrite fd (get_bytes k (min (length b - k) ssize_max) b) (off + k) w = (q, w1)" by fastforce
    show ?case
      using "1.prems" "1.IH" [OF _ q [symmetric]] sys_dirs(2) [OF q] q
      by (cases q) (auto simp: write_loop.simps [of fd off b k w] split: if_splits)
  qed
  then show ?thesis by (simp add: same_dirs_def)
qed

lemma device_dirs [dirs_intros]:
  "same_dirs (read_exact d off n)" "same_dirs (write_exact d off b)" "same_dirs (flush d)"
proof -
  show "same_dirs (read_exact d off n)" unfolding read_exact_def by (intro dirs_intros)
  show "same_dirs (write_exact d off b)" unfolding write_exact_def by (intro dirs_intros)
  have "same_dirs (\<lambda>w. case sys_fsync (bd_fd d) w of
       (Inl e, w') \<Rightarrow> throw_io (from_errno Errc_flush_failed (''fsync failed: '' @ w_strerror w' e) e) w'
     | (Inr _, w') \<Rightarrow> fault_hook Op_flush After w')"
    by (auto simp: same_dirs_def dest!: sys_dirs(3) dest: same_dirsD [OF same_dirs_simple(5)] split: prod.splits sum.splits)
  then show "same_dirs (flush d)" unfolding flush_def by (intro dirs_intros)
qed

section \<open>Other files\<close>

text \<open>A call on one device changes no other file.\<close>

definition others_kept :: "nat \<Rightarrow> world \<Rightarrow> world \<Rightarrow> bool" where
  "others_kept f w w' \<longleftrightarrow> (\<forall>fd. fd \<noteq> f \<longrightarrow> w_files w' fd = w_files w fd)"

lemma others_kept_refl: "w_files w' = w_files w \<Longrightarrow> others_kept f w w'"
  by (simp add: others_kept_def)

lemma others_kept_trans: "others_kept f w w1 \<Longrightarrow> others_kept f w1 w2 \<Longrightarrow> others_kept f w w2"
  by (simp add: others_kept_def)

lemma device_others:
  "on_file d w \<Longrightarrow> write_exact d off b w = (r, w') \<Longrightarrow> others_kept (bd_fd d) w w'"
  "flush d w = (r, w') \<Longrightarrow> others_kept (bd_fd d) w w'"
  by (auto simp: others_kept_def wrote_def set_data_def dest!: write_exact_spec flush_spec)

text \<open>Creating a file.\<close>

lemma unlink_files: "w_files (snd (sys_unlink path w)) = w_files w"
  by (auto simp: sys_unlink_def dest!: next_event_names split: prod.splits sysev.splits option.splits)

lemma geometry_files: "geometry_for fd wr w = (r, w') \<Longrightarrow> w_files w' = w_files w \<and> dirs w' = dirs w"
  unfolding geometry_for_def Let_def dirs_def
  by (auto dest!: next_event_names split: prod.splits sysev.splits if_split_asm)

lemma geometry_regular:
  assumes "geometry_for fd wr w = (Inr g, w')" and "f_is_reg (w_files w fd)" and "\<not> f_is_blk (w_files w fd)"
  shows "g_size_bytes g = of_nat (length (f_data (w_files w fd)))"
  using assms by (auto simp: geometry_for_def Let_def dest!: next_event_names split: prod.splits sysev.splits)

lemma create_file_spec:
  assumes "create_file path n w = (r, w')"
  shows "others_kept (w_next w) w w'"
    and "r = Inr d \<Longrightarrow> bd_fd d = w_next w \<and> bd_writable d \<and> on_file d w' \<and> w_files w' (w_next w) = fresh_file\<lparr>f_ident := (0, w_next w), f_data := replicate (unat n) 0\<rparr>
       \<and> w_names w path = None \<and> w_names w' = (w_names w)(path := Some (w_next w)) \<and> w_durable_names w' = w_durable_names w"
proof -
  obtain q w1 where q: "sys_create_excl path w = (q, w1)" by fastforce
  obtain t w2 where t: "sys_ftruncate (w_next w) (unat n) w1 = (t, w2)" by fastforce
  obtain g w3 where g: "geometry_for (w_next w) True w2 = (g, w3)" by fastforce
  have q1: "others_kept (w_next w) w w1" "q = Inr fd \<Longrightarrow> fd = w_next w \<and> w_names w path = None
      \<and> w_names w1 = (w_names w)(path := Some (w_next w)) \<and> w_durable_names w1 = w_durable_names w
      \<and> w_files w1 fd = fresh_file\<lparr>f_ident := (0, w_next w)\<rparr>" for fd
    using q by (auto simp: sys_create_excl_def others_kept_def dest!: next_event_names split: prod.splits sysev.splits if_splits)
  have t1: "others_kept (w_next w) w1 w2" "t = Inr () \<Longrightarrow> w_names w2 = w_names w1 \<and> w_durable_names w2 = w_durable_names w1
      \<and> w_files w2 (w_next w) = (w_files w1 (w_next w))\<lparr>f_data := take (unat n) (f_data (w_files w1 (w_next w)))
           @ replicate (unat n - length (f_data (w_files w1 (w_next w)))) 0\<rparr>"
    using t by (auto simp: sys_ftruncate_def others_kept_def Let_def set_data_def dest!: next_event_names split: prod.splits sysev.splits)
  have g1: "w_files w3 = w_files w2" "dirs w3 = dirs w2" using geometry_files [OF g] by auto
  have cases: "w' = w \<and> (\<forall>d. r \<noteq> Inr d) \<or> w' = w1 \<and> (\<forall>d. r \<noteq> Inr d) \<or> w' = snd (sys_unlink path w2) \<and> (\<forall>d. r \<noteq> Inr d)
     \<or> w' = snd (sys_unlink path w3) \<and> (\<forall>d. r \<noteq> Inr d)
     \<or> (\<exists>gg. q = Inr (w_next w) \<and> t = Inr () \<and> g = Inr gg \<and> w' = w3 \<and> unat n \<le> off_t_max
          \<and> r = Inr \<lparr>bd_fd = w_next w, bd_path = path, bd_geometry = gg, bd_writable = True\<rparr>)"
  proof (cases "off_t_max < unat n")
    case False
    then show ?thesis
      using assms q t g q1(2) by (cases q; cases t; cases g) (auto simp: create_file_def)
  qed (use assms in \<open>auto simp: create_file_def\<close>)
  show "others_kept (w_next w) w w'"
    using cases q1(1) t1(1) g1(1) by (auto simp: others_kept_def unlink_files)
  assume "r = Inr d"
  then obtain gg where ok: "q = Inr (w_next w)" "t = Inr ()" "g = Inr gg" "w' = w3" "unat n \<le> off_t_max"
      "d = \<lparr>bd_fd = w_next w, bd_path = path, bd_geometry = gg, bd_writable = True\<rparr>"
    using cases by auto
  have f: "w_files w3 (w_next w) = fresh_file\<lparr>f_ident := (0, w_next w), f_data := replicate (unat n) 0\<rparr>"
    using q1(2) [OF ok(1)] t1(2) [OF ok(2)] g1(1) by (simp add: fresh_file_def)
  have "g_size_bytes gg = of_nat (length (f_data (w_files w2 (w_next w))))"
    using geometry_regular [OF g [unfolded ok(3)]] f g1(1) by (simp add: fresh_file_def)
  then have "g_size_bytes gg = n" using f g1(1) by simp
  then show "bd_fd d = w_next w \<and> bd_writable d \<and> on_file d w' \<and> w_files w' (w_next w) = fresh_file\<lparr>f_ident := (0, w_next w), f_data := replicate (unat n) 0\<rparr>
       \<and> w_names w path = None \<and> w_names w' = (w_names w)(path := Some (w_next w)) \<and> w_durable_names w' = w_durable_names w"
    using ok f q1(2) [OF ok(1)] t1(2) [OF ok(2)] g1(2) by (simp add: on_file_def dirs_def)
qed

section \<open>Published files\<close>

text \<open>\<open>path\<close> names a regular file with contents \<open>b\<close>, now and after a power loss.\<close>

definition saved :: "world \<Rightarrow> string \<Rightarrow> nat \<Rightarrow> bytes \<Rightarrow> bool" where
  "saved w path f b \<longleftrightarrow> w_names w path = Some f \<and> w_durable_names w path = Some f
     \<and> w_files w f = fresh_file\<lparr>f_ident := (0, f), f_data := b, f_durable := b\<rparr>"

definition publishing :: "string \<Rightarrow> u64 \<Rightarrow> (block_device \<Rightarrow> unit io) \<Rightarrow> string \<Rightarrow> string \<Rightarrow> unit io" where
  "publishing temp n fill path obj = with_cleanup temp
     (bind_io (create_file temp n) (\<lambda>out. bind_io (fill out) (\<lambda>_. publish_file_noreplace temp path obj)))"

locale file_writer =
  fixes fill :: "block_device \<Rightarrow> unit io" and content :: bytes
  assumes fill_frame: "on_file d w \<Longrightarrow> length (data_of d w) = length content \<Longrightarrow> fill d w = (r, w')
      \<Longrightarrow> others_kept (bd_fd d) w w' \<and> dirs w' = dirs w"
    and fill_law: "on_file d w \<Longrightarrow> length (data_of d w) = length content \<Longrightarrow> fill d w = (Inr (), w')
      \<Longrightarrow> w_files w' (bd_fd d) = (w_files w (bd_fd d))\<lparr>f_data := content, f_durable := content\<rparr>"
begin

lemma publishing_inner:
  assumes run: "bind_io (create_file temp n) (\<lambda>out. bind_io (fill out) (\<lambda>_. publish_file_noreplace temp path obj)) w = (r, w')"
    and n: "unat n = length content" and tp: "temp \<noteq> path"
  shows "others_kept (w_next w) w w' \<and> (r = Inr () \<longrightarrow> w_names w path = None \<and> saved w' path (w_next w) content)"
  using run
proof (cases rule: bind_io_cases)
  case (failed e)
  then show ?thesis using create_file_spec(1) by blast
next
  case (step out w1)
  note c = create_file_spec(2) [OF step(1) refl]
  have o1: "others_kept (w_next w) w w1" by (rule create_file_spec(1) [OF step(1)])
  have ready: "on_file out w1" "length (data_of out w1) = length content" using c n by (simp_all add: fresh_file_def)
  from step(2) show ?thesis
  proof (cases rule: bind_io_cases)
    case (failed e)
    then show ?thesis using fill_frame [OF ready failed(1)] o1 c by (auto intro: others_kept_trans)
  next
    case (step u w2)
    note fr = fill_frame [OF ready step(1)]
    have names: "w_names w2 = (w_names w)(temp := Some (w_next w))" using fr c by (simp add: dirs_def)
    then have t: "w_names w2 temp = Some (w_next w)" by simp
    note p = publish_file_spec [OF step(2) t tp]
    have o2: "others_kept (w_next w) w w2" using fr o1 c by (auto intro: others_kept_trans)
    moreover have "r = Inr () \<longrightarrow> w_names w path = None" using p(2) names tp by (cases "w_names w path") auto
    moreover have "w_files w2 (w_next w) = fresh_file\<lparr>f_ident := (0, w_next w), f_data := content, f_durable := content\<rparr>"
      using fill_law [OF ready] step(1) c by (simp add: fresh_file_def)
    ultimately show ?thesis using p by (auto simp: others_kept_def saved_def)
  qed
qed

text \<open>Whatever happens, no existing file changes; success means that the contents are durable under a
  name that was free.\<close>

lemma publishing_law:
  assumes "publishing temp n fill path obj w = (r, w')" and "unat n = length content" and "temp \<noteq> path"
  shows "others_kept (w_next w) w w'"
    and "r = Inr () \<Longrightarrow> w_names w path = None \<and> saved w' path (w_next w) content"
proof -
  obtain q w1 where q: "bind_io (create_file temp n) (\<lambda>out. bind_io (fill out) (\<lambda>_. publish_file_noreplace temp path obj)) w = (q, w1)"
    by fastforce
  note inner = publishing_inner [OF q assms(2,3)]
  have "w_files w' = w_files w1" "r = Inr () \<longrightarrow> q = Inr () \<and> w' = w1"
    using assms(1) q by (auto simp: publishing_def with_cleanup_def unlink_files split: sum.splits failure.splits)
  then show "others_kept (w_next w) w w'" "r = Inr () \<Longrightarrow> w_names w path = None \<and> saved w' path (w_next w) content"
    using inner by (auto simp: others_kept_def)
qed

end

lemma temp_name_differs: "path @ ''.part.'' @ u \<noteq> path"
  by simp

lemma bind_io_assoc: "bind_io (bind_io m f) g = bind_io m (\<lambda>x. bind_io (f x) g)"
  by (rule ext) (auto simp: bind_io_def split: prod.splits sum.splits)

text \<open>The simplest writer: one write of the whole contents, then a flush.\<close>

interpretation one_write: file_writer "\<lambda>out. bind_io (write_exact out 0 b) (\<lambda>_. flush out)" b for b
proof (unfold_locales, goal_cases)
  case (1 d w r w')
  from 1(3) show ?case
  proof (cases rule: bind_io_cases)
    case (failed e)
    then show ?thesis using device_others(1) [OF 1(1) failed(1)] same_dirsD [OF device_dirs(2) failed(1)] by simp
  next
    case (step u w1)
    have "others_kept (bd_fd d) w w1" "others_kept (bd_fd d) w1 w'"
      using device_others(1) [OF 1(1) step(1)] device_others(2) [OF step(2)] .
    then show ?thesis
      using same_dirsD [OF device_dirs(2) step(1)] same_dirsD [OF device_dirs(3) step(2)]
      by (auto intro: others_kept_trans)
  qed
next
  case (2 d w w')
  from 2(3) obtain u w1 where st: "write_exact d 0 b w = (Inr u, w1)" "flush d w1 = (Inr (), w')"
    by (rule bind_io_OkE)
  have "wrote (bd_fd d) 0 b w w1" using write_exact_spec [OF st(1) 2(1)] by auto
  then have "w_files w1 (bd_fd d) = (w_files w (bd_fd d))\<lparr>f_data := b\<rparr>"
    using 2(2) by (simp add: wrote_def set_data_def put_bytes_def)
  moreover have "w_files w' (bd_fd d) = (w_files w1 (bd_fd d))\<lparr>f_durable := data_of d w1\<rparr>"
    using flush_spec [OF st(2)] by auto
  ultimately show ?case by simp
qed

text \<open>On a quiet host, with both names free, it succeeds.\<close>

lemma one_write_succeeds:
  assumes c: "calm w" and names: "w_names w temp = None" "w_names w path = None" "temp \<noteq> path"
    and n: "unat n = length b" "unat n \<le> off_t_max"
  shows "\<exists>w'. publishing temp n (\<lambda>out. bind_io (write_exact out 0 b) (\<lambda>_. flush out)) path obj w = (Inr (), w') \<and> calm w'"
proof -
  let ?d = "new_file_device (w_next w) temp n" and ?w1 = "new_file_world temp (replicate (unat n) 0) w"
  have c1: "calm ?w1" using c by (simp add: calm_def new_file_world_def)
  have on: "on_file ?d ?w1" "bd_writable ?d" "data_of ?d ?w1 = replicate (unat n) 0" "bd_fd ?d = w_next w"
    using n by (simp_all add: on_file_def new_file_device_def new_file_world_def)
  let ?w2 = "set_data (w_next w) (put_bytes 0 b (replicate (unat n) 0)) ?w1"
  have wr: "write_exact ?d 0 b ?w1 = (Inr (), ?w2)"
    using write_exact_calm [OF c1 on(1,2), of 0 b] n on(3,4) by simp
  have c2: "calm ?w2" using c1 by simp
  obtain w3 where fl: "flush ?d ?w2 = (Inr (), w3)" "calm w3" "w_names w3 = w_names ?w1"
    using flush_calm [OF c2] c2 by (auto simp: set_durable_def set_data_def calm_def)
  have "w_names w3 temp = Some (w_next w)" "w_names w3 path = None"
    using names fl(3) by (simp_all add: new_file_world_def)
  from publish_calm [OF fl(2) this, of obj] have
    "\<exists>w'. publish_file_noreplace temp path obj w3 = (Inr (), w') \<and> calm w'"
    using fl(2) by (simp add: sync_names_def calm_def)
  then show ?thesis
    using create_file_calm [OF c names(1) n(2)] wr fl(1)
    by (auto simp: publishing_def with_cleanup_def bind_io_def)
qed

end
