(* ===== verification/Fsx_Mbr.thy ===== *)
theory Fsx_Mbr
  imports Fsx_Gpt_Laws Fsx_Publish
begin

text \<open>
  MBR partition tables, \<^verbatim>\<open>src/partition/mbr.cpp\<close>: decoding and checking the sector, changing an entry after
  publishing an undo file, and restoring from that file. The random bytes of the temporary name are
  an argument.
\<close>

section \<open>Model\<close>

record mbr_partition =
  mp_index :: u32
  mp_bootable :: bool
  mp_type :: u8
  mp_first_lba :: u32
  mp_sectors :: u32

definition last_lba :: "mbr_partition \<Rightarrow> u64" where
  "last_lba p = (if mp_sectors p \<noteq> 0 then ucast (mp_first_lba p) + ucast (mp_sectors p) - 1 else ucast (mp_first_lba p))"

record mbr_table =
  mt_signature_ok :: bool
  mt_protective :: bool
  mt_hybrid :: bool
  mt_disk_signature :: u32
  mt_partitions :: "mbr_partition list"

record mbr_options =
  mbo_allow_block_device :: bool
  mbo_backup_sector_path :: string

definition PART_OFF :: nat where "PART_OFF = 446"

definition read_sector :: "block_device \<Rightarrow> bytes io" where
  "read_sector d = read_exact d 0 512"

definition mbr_slot :: "bytes \<Rightarrow> nat \<Rightarrow> mbr_partition" where
  "mbr_slot b i = (let off = PART_OFF + i * 16 in
     \<lparr>mp_index = of_nat (i + 1), mp_bootable = (b ! off = 0x80), mp_type = b ! (off + 4),
      mp_first_lba = read_le32 b (off + 8), mp_sectors = read_le32 b (off + 12)\<rparr>)"

definition mbr_decode :: "bytes \<Rightarrow> mbr_table result" where
  "mbr_decode b =
     (if length b < 512 then fail Errc_corrupt ''MBR sector truncated''
      else
        let parts = filter (\<lambda>p. mp_type p \<noteq> 0 \<and> mp_sectors p \<noteq> 0) (map (mbr_slot b) [0..<4]);
            prot = list_ex (\<lambda>p. mp_type p = 0xee) parts; nonprot = list_ex (\<lambda>p. mp_type p \<noteq> 0xee) parts
        in Inr \<lparr>mt_signature_ok = (b ! 510 = 0x55 \<and> b ! 511 = 0xaa), mt_protective = prot,
             mt_hybrid = (prot \<and> nonprot), mt_disk_signature = read_le32 b 440, mt_partitions = parts\<rparr>)"

definition mbr_ranges :: "mbr_table \<Rightarrow> (u64 \<times> u64) list" where
  "mbr_ranges t = map (\<lambda>p. (ucast (mp_first_lba p), last_lba p))
     (filter (\<lambda>p. mp_sectors p \<noteq> 0 \<and> mp_type p \<noteq> 0xee) (mt_partitions t))"

definition mbr_validate :: "mbr_table \<Rightarrow> u64 \<Rightarrow> unit result" where
  "mbr_validate t disk_sectors =
     (if list_ex (\<lambda>p. mp_sectors p \<noteq> 0 \<and> last_lba p \<ge> disk_sectors) (mt_partitions t)
      then fail Errc_invalid_argument ''MBR partition exceeds disk''
      else if \<not> adjacent (\<lambda>a b. snd a < fst b) (sort (mbr_ranges t))
      then fail Errc_invalid_argument ''MBR partitions overlap''
      else Inr ())"

definition mbr_read_table :: "block_device \<Rightarrow> mbr_table io" where
  "mbr_read_table d =
     bind_io (read_sector d) (\<lambda>b.
     bind_io (lift_io (mbr_decode b)) (\<lambda>t.
     if \<not> mt_signature_ok t then fail_io Errc_unsupported ''not an MBR partition table'' else return_io t))"

definition mbr_guard :: "string \<Rightarrow> block_device \<Rightarrow> bool \<Rightarrow> unit io" where
  "mbr_guard msg d allow =
     bind_io (require_disk_offline_for_write d) (\<lambda>_.
     bind_io (inspect_device_safety d) (\<lambda>ds.
     if ds_block_device ds \<and> \<not> allow then fail_io Errc_unsafe msg else return_io ()))"

definition mbr_edit :: "u32 \<Rightarrow> u32 \<Rightarrow> u32 \<Rightarrow> bytes \<Rightarrow> bytes" where
  "mbr_edit index first sectors b =
     (let off = PART_OFF + unat (index - 1) * 16 in write_le32 (write_le32 b (off + 8) first) (off + 12) sectors)"

text \<open>The undo file: a temporary file with the sector, flushed and published under its final name.\<close>

definition publish_undo :: "bytes \<Rightarrow> string \<Rightarrow> bytes \<Rightarrow> unit io" where
  "publish_undo temp_uuid path orig =
     (let temp = path @ ''.part.'' @ format_uuid temp_uuid in
      with_cleanup temp (
        bind_io (create_file temp 512) (\<lambda>backup.
        bind_io (write_exact backup 0 orig) (\<lambda>_.
        bind_io (flush backup) (\<lambda>_.
        publish_file_noreplace temp path ''MBR undo sector'')))))"

definition mbr_resize_partition :: "bytes \<Rightarrow> block_device \<Rightarrow> u32 \<Rightarrow> u32 \<Rightarrow> u32 \<Rightarrow> mbr_options \<Rightarrow> unit io" where
  "mbr_resize_partition temp_uuid d index first sectors opts =
     (if index < 1 \<or> index > 4 \<or> sectors = 0 then fail_io Errc_invalid_argument ''invalid MBR resize arguments''
      else if mbo_backup_sector_path opts = [] then fail_io Errc_invalid_argument ''MBR mutation requires --backup-sector=FILE''
      else
      bind_io (mbr_guard ''MBR mutation on block device requires --allow-block-device'' d (mbo_allow_block_device opts)) (\<lambda>_.
      bind_io (read_sector d) (\<lambda>b.
      bind_io (lift_io (mbr_decode b)) (\<lambda>old.
      if \<not> mt_signature_ok old then fail_io Errc_corrupt ''MBR signature invalid''
      else if mt_protective old \<or> mt_hybrid old
      then fail_io Errc_unsafe ''refusing MBR mutation on protective/hybrid GPT media; use GPT commands''
      else if b ! (PART_OFF + unat (index - 1) * 16 + 4) = 0 then fail_io Errc_not_found ''MBR partition entry unused''
      else
        let b' = mbr_edit index first sectors b in
        bind_io (lift_io (mbr_decode b')) (\<lambda>nt.
        bind_io (lift_io (mbr_validate nt (total_sectors d))) (\<lambda>_.
        bind_io (read_sector d) (\<lambda>orig.
        bind_io (publish_undo temp_uuid (mbo_backup_sector_path opts) orig) (\<lambda>_.
        bind_io (write_exact d 0 b') (\<lambda>_. flush d)))))))))"

definition restore_sector :: "block_device \<Rightarrow> string \<Rightarrow> bool \<Rightarrow> unit io" where
  "restore_sector d path allow =
     bind_io (mbr_guard ''MBR restore on block device requires --allow-block-device'' d allow) (\<lambda>_.
     bind_io (open_read path) (\<lambda>bk.
     if g_size_bytes (bd_geometry bk) \<noteq> 512 then fail_io Errc_corrupt ''MBR backup must contain exactly one 512-byte sector''
     else
     bind_io (read_exact bk 0 512) (\<lambda>sec.
     if (case mbr_decode sec of Inl _ \<Rightarrow> True | Inr t \<Rightarrow> \<not> mt_signature_ok t)
     then fail_io Errc_corrupt ''MBR backup sector is invalid''
     else bind_io (write_exact d 0 sec) (\<lambda>_. flush d))))"

section \<open>The check\<close>

lemma last_lba_unat: "mp_sectors p \<noteq> 0 \<Longrightarrow> unat (last_lba p) = unat (mp_first_lba p) + unat (mp_sectors p) - 1"
proof -
  assume s: "mp_sectors p \<noteq> 0"
  have a: "unat (mp_first_lba p) < 2 ^ 32" "unat (mp_sectors p) < 2 ^ 32"
    using unsigned_less [of "mp_first_lba p"] unsigned_less [of "mp_sectors p"] by simp_all
  have u: "unat (ucast (mp_first_lba p) :: u64) = unat (mp_first_lba p)" "unat (ucast (mp_sectors p) :: u64) = unat (mp_sectors p)"
    by (simp_all add: word_nat)
  have "unat (ucast (mp_first_lba p) + ucast (mp_sectors p) :: u64) = unat (mp_first_lba p) + unat (mp_sectors p)"
    using a u by (subst unat_add_lem [THEN iffD1]) simp_all
  moreover have "0 < unat (mp_sectors p)" using s by (simp add: unat_gt_0)
  ultimately show ?thesis using s a
    by (simp add: last_lba_def unat_sub word_le_nat_alt)
qed

text \<open>The sectors of a partition, as numbers.\<close>

definition mbr_extent :: "mbr_partition \<Rightarrow> nat set" where
  "mbr_extent p = {unat (mp_first_lba p)..<unat (mp_first_lba p) + unat (mp_sectors p)}"

lemma mbr_range:
  assumes "mp_sectors p \<noteq> 0"
  shows "(ucast (mp_first_lba p) :: u64) \<le> last_lba p" "n \<le> last_lba p \<longleftrightarrow> \<not> mbr_extent p \<subseteq> {..<unat n}"
    "mp_sectors q \<noteq> 0 \<Longrightarrow> last_lba p < ucast (mp_first_lba q) \<longleftrightarrow> unat (mp_first_lba p) + unat (mp_sectors p) \<le> unat (mp_first_lba q)"
proof -
  have "0 < unat (mp_sectors p)" using assms by (simp add: unat_gt_0)
  then show "(ucast (mp_first_lba p) :: u64) \<le> last_lba p" "n \<le> last_lba p \<longleftrightarrow> \<not> mbr_extent p \<subseteq> {..<unat n}"
    "mp_sectors q \<noteq> 0 \<Longrightarrow> last_lba p < ucast (mp_first_lba q) \<longleftrightarrow> unat (mp_first_lba p) + unat (mp_sectors p) \<le> unat (mp_first_lba q)"
    by (auto simp: word_le_nat_alt word_less_nat_alt last_lba_unat [OF assms] word_nat mbr_extent_def subset_iff not_less
        intro!: exI [of _ "unat (mp_first_lba p) + unat (mp_sectors p) - 1"])
qed

lemma mbr_apart:
  assumes "\<forall>p\<in>set ps. mp_sectors p \<noteq> 0"
  shows "sorted_wrt closed.apart (map (\<lambda>p. (ucast (mp_first_lba p) :: u64, last_lba p)) ps)
    \<longleftrightarrow> sorted_wrt (\<lambda>p q. mbr_extent p \<inter> mbr_extent q = {}) ps"
  using assms
proof (induction ps)
  case (Cons p ps)
  have "closed.apart (ucast (mp_first_lba p) :: u64, last_lba p) (ucast (mp_first_lba q), last_lba q)
      \<longleftrightarrow> mbr_extent p \<inter> mbr_extent q = {}" if "q \<in> set ps" for q
  proof -
    have nz: "mp_sectors p \<noteq> 0" "mp_sectors q \<noteq> 0" using Cons.prems that by auto
    then have "0 < unat (mp_sectors p)" "0 < unat (mp_sectors q)" by (simp_all add: unat_gt_0)
    then show ?thesis using nz
      by (auto simp: closed.apart_def mbr_range(3) mbr_extent_def ivl_disj_int)
  qed
  then show ?case using Cons by auto
qed simp

text \<open>The MBR check decides what it should, without wrap-around: it passes exactly when every
  partition lies inside the disk and no two non-protective partitions share a sector.\<close>

theorem mbr_validate_decides:
  "mbr_validate t n = Inr () \<longleftrightarrow> list_all (\<lambda>p. mbr_extent p \<subseteq> {..<unat n}) (mt_partitions t)
     \<and> sorted_wrt (\<lambda>p q. mbr_extent p \<inter> mbr_extent q = {})
         (filter (\<lambda>p. mp_sectors p \<noteq> 0 \<and> mp_type p \<noteq> 0xee) (mt_partitions t))"
proof -
  let ?ps = "filter (\<lambda>p. mp_sectors p \<noteq> 0 \<and> mp_type p \<noteq> 0xee) (mt_partitions t)"
  have in_disk: "list_ex (\<lambda>p. mp_sectors p \<noteq> 0 \<and> last_lba p \<ge> n) (mt_partitions t)
      \<longleftrightarrow> \<not> list_all (\<lambda>p. mbr_extent p \<subseteq> {..<unat n}) (mt_partitions t)"
  proof -
    have "(mp_sectors p \<noteq> 0 \<and> n \<le> last_lba p) = (\<not> mbr_extent p \<subseteq> {..<unat n})" for p
      by (cases "mp_sectors p = 0") (simp add: mbr_extent_def, simp add: mbr_range(2))
    then show ?thesis by (auto simp: list_ex_iff list_all_iff)
  qed
  have "\<forall>r\<in>set (mbr_ranges t). fst r \<le> snd r" by (auto simp: mbr_ranges_def mbr_range(1))
  then have "adjacent (\<lambda>a b. snd a < fst b) (sort (mbr_ranges t)) \<longleftrightarrow> sorted_wrt closed.apart (mbr_ranges t)"
    using closed.adjacent_decides [of "mbr_ranges t" "\<lambda>x. x"] closed_sorted by simp
  also have "\<dots> \<longleftrightarrow> sorted_wrt (\<lambda>p q. mbr_extent p \<inter> mbr_extent q = {}) ?ps"
    unfolding mbr_ranges_def by (rule mbr_apart) simp
  finally show ?thesis using in_disk by (simp add: mbr_validate_def)
qed

section \<open>Undo before change\<close>

lemma publish_undo_eq:
  "publish_undo u path orig = publishing (path @ ''.part.'' @ format_uuid u) 512
     (\<lambda>out. bind_io (write_exact out 0 orig) (\<lambda>_. flush out)) path ''MBR undo sector''"
  by (simp add: publish_undo_def publishing_def bind_io_assoc Let_def)

lemma publish_undo_law:
  assumes "publish_undo u path orig w = (r, w')" and "length orig = 512"
  shows "others_kept (w_next w) w w'"
    and "r = Inr () \<Longrightarrow> w_names w path = None \<and> saved w' path (w_next w) orig"
  using one_write.publishing_law [OF assms(1) [unfolded publish_undo_eq] _ temp_name_differs] assms(2) by simp_all

lemma pure_mbr [pure_intros]: "pure_io (read_sector d)" "pure_io (mbr_guard m d a)"
  unfolding read_sector_def mbr_guard_def by (intro pure_intros)+

lemma safety_dirs [dirs_intros]:
  "same_dirs (inspect_device_safety d)" "same_dirs (require_disk_offline_for_write d)"
proof -
  show i: "same_dirs (inspect_device_safety d)"
    by (auto simp: same_dirs_def inspect_device_safety_def Let_def dest: next_event_dirs
        split: prod.splits sysev.splits if_splits option.splits)
  have "same_dirs (\<lambda>w. case next_event w of
             (Sys_err e, w1) \<Rightarrow> throw_io (from_errno Errc_unsafe (''cannot acquire exclusive device lock: '' @ w_strerror w1 e) e) w1
           | (_, w1) \<Rightarrow> return_io () w1)"
    by (auto simp: same_dirs_def dest: next_event_dirs split: prod.splits sysev.splits)
  with i show "same_dirs (require_disk_offline_for_write d)"
    unfolding require_disk_offline_for_write_def require_offline_for_write_def
    by (intro dirs_intros)
qed

lemma mbr_dirs [dirs_intros]: "same_dirs (read_sector d)" "same_dirs (mbr_guard m d a)"
  unfolding read_sector_def mbr_guard_def by (intro dirs_intros)+

lemma mbr_edit_length [simp]: "length (mbr_edit i f n b) = length b"
  by (simp add: mbr_edit_def Let_def)

text \<open>What stands between the call and the first write.\<close>

lemma mbr_resize_cases:
  assumes "mbr_resize_partition u d index first sectors opts w = (r, w')"
  obtains (refused) "w_files w' = w_files w" "\<forall>x. r \<noteq> Inr x"
    | (started) w1 t where "w_files w1 = w_files w" "dirs w1 = dirs w"
        "mbr_decode (mbr_edit index first sectors (get_bytes 0 512 (data_of d w))) = Inr t" "mbr_validate t (total_sectors d) = Inr ()"
        "length (get_bytes 0 512 (data_of d w)) = 512" 
        "bind_io (publish_undo u (mbo_backup_sector_path opts) (get_bytes 0 512 (data_of d w))) (\<lambda>_.
           bind_io (write_exact d 0 (mbr_edit index first sectors (get_bytes 0 512 (data_of d w)))) (\<lambda>_. flush d)) w1 = (r, w')"
  using assms unfolding mbr_resize_partition_def
proof (elim guard_io_cases, goal_cases)
  case 3
  from 3(5) show ?case
  proof (cases rule: bind_io_cases)
    case (failed e)
    then show ?thesis using refused pure_step [OF pure_mbr(2)] by simp
  next
    case (step x w1)
    note w1 = pure_step [OF pure_mbr(2) step(1)] same_dirsD [OF mbr_dirs(2) step(1)]
    from step(2) show ?thesis
    proof (cases rule: bind_io_cases)
      case (failed e)
      then show ?thesis using refused pure_step [OF pure_mbr(1)] w1 by simp
    next
      case (step b w2)
      note w2 = pure_step [OF pure_mbr(1) step(1)] same_dirsD [OF mbr_dirs(1) step(1)]
      have b: "b = get_bytes 0 512 (data_of d w)" "length b = 512"
        using read_exact_spec [OF step(1) [unfolded read_sector_def]] w1 by auto
      from step(2) show ?thesis
        unfolding Let_def
      proof (elim guard_io_cases lift_bind_cases, goal_cases)
        case (7 old t y)
        from 7(7) show ?case
        proof (cases rule: bind_io_cases)
          case (failed e)
          then show ?thesis using refused pure_step [OF pure_mbr(1)] w1 w2 by simp
        next
          case (step orig w3)
          have "orig = b" using read_exact_spec [OF step(1) [unfolded read_sector_def]] w1 w2 b by auto
          then show ?thesis
            using started [of w3 t] step(2) 7(5,6) b w1 w2 pure_step [OF pure_mbr(1) step(1)] same_dirsD [OF mbr_dirs(1) step(1)]
            by simp
        qed
      qed (use refused w1 w2 in auto)
    qed
  qed
qed (use refused in auto)

lemma mbr_resize_outcome:
  assumes run: "mbr_resize_partition u d index first sectors opts w = (r, w')"
    and on: "on_file d w" and fd: "bd_fd d < w_next w"
  shows "data_of d w' = data_of d w \<and> r \<noteq> Inr ()
    \<or> (let old = get_bytes 0 512 (data_of d w); new = mbr_edit index first sectors old in
       512 \<le> length (data_of d w) \<and> (\<exists>t. mbr_decode new = Inr t \<and> mbr_validate t (total_sectors d) = Inr ())
       \<and> saved w' (mbo_backup_sector_path opts) (w_next w) old
       \<and> (\<exists>k\<le>512. data_of d w' = put_bytes 0 (take k new) (data_of d w))
       \<and> (r = Inr () \<longrightarrow> data_of d w' = put_bytes 0 new (data_of d w) \<and> f_durable (w_files w' (bd_fd d)) = data_of d w'))"
  using run
proof (cases rule: mbr_resize_cases)
  case refused
  then show ?thesis by simp
next
  case (started w1 t)
  let ?old = "get_bytes 0 512 (data_of d w)" and ?path = "mbo_backup_sector_path opts"
  let ?new = "mbr_edit index first sectors ?old"
  have nx: "w_next w1 = w_next w" using started(2) by (simp add: dirs_def)
  from started(6) show ?thesis
  proof (cases rule: bind_io_cases)
    case (failed e)
    have "w_files w' (bd_fd d) = w_files w1 (bd_fd d)"
      using publish_undo_law(1) [OF failed(1) started(5)] nx fd by (simp add: others_kept_def)
    then show ?thesis using failed(2) started(1) by simp
  next
    case (step x w2)
    have sv: "saved w2 ?path (w_next w) ?old" and same: "w_files w2 (bd_fd d) = w_files w (bd_fd d)"
      using publish_undo_law [OF step(1) started(5)] nx fd started(1) by (simp_all add: others_kept_def)
    have on2: "on_file d w2" using on same by (simp add: on_file_def)
    have len: "512 \<le> length (data_of d w)" using started(5) by (simp add: get_bytes_def)
    have keep: "saved w3 ?path (w_next w) ?old" if "others_kept (bd_fd d) w2 w3" "dirs w3 = dirs w2" for w3
      using that sv fd by (simp add: saved_def others_kept_def dirs_def)
    from step(2) show ?thesis
    proof (cases rule: bind_io_cases)
      case (failed e)
      obtain k where "k \<le> 512" "data_of d w' = put_bytes 0 (take k ?new) (data_of d w)"
        using dev.wr_law [OF on2 failed(1)] started(5) len same by auto
      then show ?thesis
        using len failed(2) started(3,4) keep [OF device_others(1) [OF on2 failed(1)] same_dirsD [OF device_dirs(2) failed(1)]]
        by (auto simp: Let_def)
    next
      case (step y w3)
      note wr = dev.wr_law [OF on2 step(1)]
      have w3: "on_file d w3" "data_of d w3 = put_bytes 0 ?new (data_of d w)"
        using wr started(5) len same by auto
      have fl: "data_of d w' = data_of d w3" "r = Inr () \<longrightarrow> f_durable (w_files w' (bd_fd d)) = data_of d w3"
        using dev.fl_law [OF w3(1) step(2)] by auto
      have "saved w' ?path (w_next w) ?old"
        using keep [of w'] others_kept_trans [OF device_others(1) [OF on2 step(1)] device_others(2) [OF step(2)]]
          same_dirsD [OF device_dirs(2) step(1)] same_dirsD [OF device_dirs(3) step(2)] by simp
      then show ?thesis using len fl w3(2) started(3-5) by (auto simp: Let_def intro!: exI [of _ 512])
    qed
  qed
qed

text \<open>C16. Changing an MBR entry is undoable: whatever happens, either the disk is unchanged and the call
  failed, or the check passed on the new table, the undo file is durable under its path with the old sector, and
  the disk differs from before only in a prefix of the new sector; success means the whole new sector is durable.\<close>

theorem mbr_undo_before_write:
  assumes run: "mbr_resize_partition u d index first sectors opts w = (r, w')"
    and on: "on_file d w" and fd: "bd_fd d < w_next w"
  shows "data_of d w' = data_of d w \<and> r \<noteq> Inr ()
    \<or> (let old = get_bytes 0 512 (data_of d w); new = mbr_edit index first sectors old in
       (\<exists>t. mbr_decode new = Inr t \<and> mbr_validate t (total_sectors d) = Inr ())
       \<and> saved w' (mbo_backup_sector_path opts) (w_next w) old
       \<and> (\<exists>k\<le>512. data_of d w' = put_bytes 0 (take k new) (data_of d w))
       \<and> (r = Inr () \<longrightarrow> data_of d w' = put_bytes 0 new (data_of d w) \<and> f_durable (w_files w' (bd_fd d)) = data_of d w'))"
  using mbr_resize_outcome [OF assms] by (simp add: Let_def) blast

lemma open_read_spec:
  assumes "open_read path w = (Inr bk, w')"
  shows "w_names w path = Some (bd_fd bk) \<and> w_files w' = w_files w"
proof -
  have "w_names w path = Some fd \<and> w_files w1 = w_files w" if "sys_open path w = (Inr fd, w1)" for fd w1
    using that by (auto simp: sys_open_def dest!: next_event_names split: prod.splits sysev.splits option.splits)
  then show ?thesis
    using assms by (auto simp: open_read_def open_device_impl_def bind_io_def dest!: geometry_files split: prod.splits sum.splits)
qed

lemma restore_sector_spec:
  assumes run: "restore_sector d path allow w = (Inr (), w')" and sv: "saved w path f b" and len: "length b = 512" and on: "on_file d w"
  shows "data_of d w' = put_bytes 0 b (data_of d w) \<and> f_durable (w_files w' (bd_fd d)) = data_of d w'
    \<and> 512 \<le> length (data_of d w)"
proof -
  from run obtain u w1 where g: "mbr_guard ''MBR restore on block device requires --allow-block-device'' d allow w = (Inr u, w1)"
    and r1: "bind_io (open_read path) (\<lambda>bk.
     if g_size_bytes (bd_geometry bk) \<noteq> 512 then fail_io Errc_corrupt ''MBR backup must contain exactly one 512-byte sector''
     else
     bind_io (read_exact bk 0 512) (\<lambda>sec.
     if (case mbr_decode sec of Inl _ \<Rightarrow> True | Inr t \<Rightarrow> \<not> mt_signature_ok t)
     then fail_io Errc_corrupt ''MBR backup sector is invalid''
     else bind_io (write_exact d 0 sec) (\<lambda>_. flush d))) w1 = (Inr (), w')"
    unfolding restore_sector_def by (rule bind_io_OkE)
  have w1: "w_files w1 = w_files w" "dirs w1 = dirs w"
    using pure_step [OF pure_mbr(2) g] same_dirsD [OF mbr_dirs(2) g] .
  from r1 obtain bk w2 where op: "open_read path w1 = (Inr bk, w2)"
    and r2: "g_size_bytes (bd_geometry bk) = 512" "bind_io (read_exact bk 0 512) (\<lambda>sec.
     if (case mbr_decode sec of Inl _ \<Rightarrow> True | Inr t \<Rightarrow> \<not> mt_signature_ok t)
     then fail_io Errc_corrupt ''MBR backup sector is invalid''
     else bind_io (write_exact d 0 sec) (\<lambda>_. flush d)) w2 = (Inr (), w')"
    by (auto elim!: bind_io_OkE split: if_splits)
  have w2: "bd_fd bk = f" "w_files w2 = w_files w"
    using open_read_spec [OF op] w1 sv by (auto simp: saved_def dirs_def)
  from r2(2) obtain sec w3 where rd: "read_exact bk 0 512 w2 = (Inr sec, w3)"
    and r3: "bind_io (write_exact d 0 sec) (\<lambda>_. flush d) w3 = (Inr (), w')"
    by (auto elim!: bind_io_OkE split: if_splits)
  have sec: "sec = get_bytes 0 512 b" "length sec = 512" "w_files w3 = w_files w"
    using read_exact_spec [OF rd] w2 sv by (auto simp: saved_def)
  from r3 obtain u2 w4 where wr: "write_exact d 0 sec w3 = (Inr u2, w4)" "flush d w4 = (Inr (), w')" by (rule bind_io_OkE)
  have on3: "on_file d w3" using on_file_files [OF sec(3)] on by simp
  have rng: "512 \<le> length (data_of d w)" using dev.wr_range [OF on3, of 0 sec] wr(1) sec by simp
  then have w4: "on_file d w4" "data_of d w4 = put_bytes 0 sec (data_of d w)"
    using dev.wr_law [OF on3 wr(1)] sec by auto
  show ?thesis using dev.fl_law [OF w4(1) wr(2)] w4(2) sec(1) rng len by (simp add: get_bytes_def)
qed

text \<open>C17. The undo file undoes: when an MBR change has touched the disk, however far it got, a successful
  restore from the undo path brings back the contents of before, and they are durable.\<close>

theorem mbr_restore_undoes:
  assumes run: "mbr_resize_partition u d index first sectors opts w = (r, w1)" and on: "on_file d w" and fd: "bd_fd d < w_next w"
    and touched: "r = Inr () \<or> data_of d w1 \<noteq> data_of d w"
    and undo: "restore_sector d (mbo_backup_sector_path opts) allow w1 = (Inr (), w2)"
  shows "data_of d w2 = data_of d w \<and> f_durable (w_files w2 (bd_fd d)) = data_of d w"
proof -
  let ?old = "get_bytes 0 512 (data_of d w)"
  let ?new = "mbr_edit index first sectors ?old"
  have out: "512 \<le> length (data_of d w) \<and> saved w1 (mbo_backup_sector_path opts) (w_next w) ?old
      \<and> (\<exists>k\<le>512. data_of d w1 = put_bytes 0 (take k ?new) (data_of d w))"
    using mbr_resize_outcome [OF run on fd] touched by (simp add: Let_def) blast
  then obtain k where sv: "saved w1 (mbo_backup_sector_path opts) (w_next w) ?old"
    and k: "data_of d w1 = put_bytes 0 k (data_of d w)" "length k \<le> 512" by force
  have len: "512 \<le> length (data_of d w)" using out by simp
  have "on_file d w1" using on k len by (simp add: on_file_def)
  then show ?thesis using restore_sector_spec [OF undo sv] len k by (simp add: put_bytes_def get_bytes_def)
qed

section \<open>A successful change\<close>

text \<open>On a quiet host every accepted change goes through, and so does the restore.\<close>

lemma read_le32_bytes:
  "read_le32 b off = ucast (ucast (b ! off) OR push_bit 8 (ucast (b ! (off + 1))) OR push_bit 16 (ucast (b ! (off + 2)))
     OR push_bit 24 (ucast (b ! (off + 3))) :: u64)"
proof -
  have "read_le_wide 4 b off = ucast (b ! off) OR push_bit 8 (ucast (b ! (off + 1))) OR push_bit 16 (ucast (b ! (off + 2)))
     OR push_bit 24 (ucast (b ! (off + 3)))"
    by (simp add: eval_nat_numeral or.assoc)
  then show ?thesis by (simp add: read_le32_def)
qed

lemma mbr_guard_calm:
  assumes "calm w" "\<not> f_is_blk (w_files w (bd_fd d))"
  shows "bind_io (mbr_guard m d a) k w = k () w"
proof -
  have i: "\<exists>s. inspect_device_safety d w = (Inr s, w) \<and> \<not> ds_block_device s \<and> \<not> ds_mounted s \<and> \<not> ds_active_swap s
     \<and> \<not> ds_descendant_mounted s \<and> \<not> ds_descendant_swap s \<and> \<not> ds_has_holders s"
    using assms by (simp add: inspect_device_safety_def next_event_calm Let_def)
  then show ?thesis using assms
    by (auto simp: mbr_guard_def require_disk_offline_for_write_def require_offline_for_write_def next_event_calm bind_io_def)
qed

lemma mbr_resize_calm:
  assumes c: "calm w" and d: "on_file d w" "bd_writable d" "\<not> f_is_blk (w_files w (bd_fd d))" "512 \<le> length (data_of d w)"
    and fd: "bd_fd d < w_next w"
    and args: "\<not> (index < 1 \<or> index > 4 \<or> sectors = 0)" "mbo_backup_sector_path opts \<noteq> []"
    and b: "b = get_bytes 0 512 (data_of d w)"
    and old: "mbr_decode b = Inr old" "mt_signature_ok old" "\<not> (mt_protective old \<or> mt_hybrid old)"
    and used: "b ! (PART_OFF + unat (index - 1) * 16 + 4) \<noteq> 0"
    and new: "mbr_decode (mbr_edit index first sectors b) = Inr nt" "mbr_validate nt (total_sectors d) = Inr ()"
    and names: "w_names w (mbo_backup_sector_path opts) = None" "w_names w (mbo_backup_sector_path opts @ ''.part.'' @ format_uuid u) = None"
  shows "\<exists>w'. mbr_resize_partition u d index first sectors opts w = (Inr (), w') \<and> calm w' \<and> \<not> f_is_blk (w_files w' (bd_fd d))"
proof -
  have rd: "read_sector d w = (Inr b, w)" using read_exact_calm [OF c d(1), of 0 512] d(4) b by (simp add: read_sector_def)
  obtain w1 where p: "publish_undo u (mbo_backup_sector_path opts) b w = (Inr (), w1)" "calm w1"
    using one_write_succeeds [OF c names(2,1) temp_name_differs, of 512 b "''MBR undo sector''"] d(4) b
    by (auto simp: publish_undo_eq off_t_max_def)
  have same: "w_files w1 (bd_fd d) = w_files w (bd_fd d)"
    using publish_undo_law(1) [OF p(1)] d(4) b fd by (simp add: others_kept_def)
  have on1: "on_file d w1" using d(1) same by (simp add: on_file_def)
  have wr: "write_exact d 0 (mbr_edit index first sectors b) w1
      = (Inr (), set_data (bd_fd d) (put_bytes 0 (mbr_edit index first sectors b) (data_of d w1)) w1)"
    using write_exact_calm [OF p(2) on1 d(2)] same d(4) b by simp
  have fl: "\<exists>w'. flush d (set_data (bd_fd d) x w1) = (Inr (), w') \<and> calm w' \<and> \<not> f_is_blk (w_files w' (bd_fd d))" for x
    using flush_calm [of "set_data (bd_fd d) x w1" d] p(2) same d(3) by (simp add: set_durable_def set_data_def calm_def)
  show ?thesis
    using args old used new fl by (simp add: mbr_resize_partition_def mbr_guard_calm [OF c d(3)] bind_io_Inr [where m = "read_sector d", OF rd]
        bind_io_Inr [where m = "publish_undo u (mbo_backup_sector_path opts) b", OF p(1)]
        bind_io_Inr [where m = "write_exact d 0 (mbr_edit index first sectors b)", OF wr] Let_def)
qed

lemma restore_sector_calm:
  assumes c: "calm w" and d: "on_file d w" "bd_writable d" "\<not> f_is_blk (w_files w (bd_fd d))" "512 \<le> length (data_of d w)"
    and sv: "saved w path f b" "length b = 512" and ok: "mbr_decode b = Inr t" "mt_signature_ok t"
  shows "\<exists>w'. restore_sector d path allow w = (Inr (), w')"
proof -
  obtain bk where o1: "open_read path w = (Inr bk, w)" "bd_fd bk = f" "g_size_bytes (bd_geometry bk) = 512"
    using open_read_calm [OF c, of path f] sv by (fastforce simp: saved_def fresh_file_def)
  have rd: "read_exact bk 0 512 w = (Inr b, w)"
    using read_exact_calm [OF c, of bk 0 512] o1 sv by (simp add: on_file_def saved_def fresh_file_def off_t_max_def get_bytes_def)
  have wr: "write_exact d 0 b w = (Inr (), set_data (bd_fd d) (put_bytes 0 b (data_of d w)) w)"
    using write_exact_calm [OF c d(1,2)] sv d(4) by simp
  show ?thesis
    using o1(3) ok flush_calm [of "set_data (bd_fd d) (put_bytes 0 b (data_of d w)) w" d] c
    by (simp add: restore_sector_def mbr_guard_calm [OF c d(3)] bind_io_Inr [where m = "open_read path", OF o1(1)]
        bind_io_Inr [where m = "read_exact bk 0 512", OF rd] bind_io_Inr [where m = "write_exact d 0 b", OF wr])
qed

definition sample_mbr :: bytes where
  "sample_mbr = replicate 446 0 @ [0, 0, 0, 0, 0x83, 0, 0, 0, 1, 0, 0, 0, 2, 0, 0, 0] @ replicate 48 0 @ [0x55, 0xaa]"

lemma sample_mbr_decodes:
  "\<exists>t. mbr_decode sample_mbr = Inr t \<and> mt_signature_ok t \<and> \<not> mt_protective t \<and> \<not> mt_hybrid t"
  "\<exists>t. mbr_decode (mbr_edit 1 1 1 sample_mbr) = Inr t \<and> mbr_validate t 4 = Inr ()"
proof -
  have e: "length sample_mbr = 512" by (simp add: sample_mbr_def)
  show "\<exists>t. mbr_decode sample_mbr = Inr t \<and> mt_signature_ok t \<and> \<not> mt_protective t \<and> \<not> mt_hybrid t"
    by (simp add: mbr_decode_def Let_def mbr_slot_def PART_OFF_def e upt_rec) (simp add: sample_mbr_def nth_append)
  have m: "mbr_edit 1 1 1 sample_mbr = replicate 446 0 @ [0, 0, 0, 0, 0x83, 0, 0, 0, 1, 0, 0, 0, 1, 0, 0, 0] @ replicate 48 0 @ [0x55, 0xaa]"
    by (simp add: mbr_edit_def sample_mbr_def PART_OFF_def write_le32_def numeral_eq_Suc list_update_append)
  show "\<exists>t. mbr_decode (mbr_edit 1 1 1 sample_mbr) = Inr t \<and> mbr_validate t 4 = Inr ()"
    by (simp add: m mbr_decode_def Let_def mbr_slot_def PART_OFF_def upt_rec nth_append read_le32_bytes
        mbr_validate_def mbr_ranges_def last_lba_def word_le_nat_alt)
qed

definition undo_to_u :: mbr_options where
  "undo_to_u = \<lparr>mbo_allow_block_device = False, mbo_backup_sector_path = ''u''\<rparr>"

definition mbr_world :: world where
  "mbr_world = sample_world (sample_mbr @ replicate 1536 0) []"

lemma mbr_world_facts:
  "calm mbr_world" "on_file (sample_device 2048) mbr_world" "f_data (w_files mbr_world f) = sample_mbr @ replicate 1536 0"
  "get_bytes 0 512 (sample_mbr @ replicate 1536 0) = sample_mbr" "w_next mbr_world = 1" "w_names mbr_world p = None"
  "\<not> f_is_blk (w_files mbr_world f)" "bd_fd (sample_device 2048) = 0" "total_sectors (sample_device 2048) = 4"
  "bd_writable (sample_device 2048)" "length sample_mbr = 512" "sample_mbr ! 450 \<noteq> 0"
  by (simp_all add: mbr_world_def sample_world_def sample_device_def calm_def fault_enabled_def on_file_def off_t_max_def
      sample_mbr_def get_bytes_def total_sectors_def ss64_def sector_size_def nth_append)

lemma mbr_sample_run:
  "\<exists>w1. mbr_resize_partition (replicate 16 0) (sample_device 2048) 1 1 1 undo_to_u mbr_world = (Inr (), w1) \<and> calm w1 \<and> \<not> f_is_blk (w_files w1 0)"
proof -
  obtain t where t: "mbr_decode sample_mbr = Inr t" "mt_signature_ok t" "\<not> (mt_protective t \<or> mt_hybrid t)"
    using sample_mbr_decodes(1) by auto
  obtain nt where nt: "mbr_decode (mbr_edit 1 1 1 sample_mbr) = Inr nt" "mbr_validate nt 4 = Inr ()"
    using sample_mbr_decodes(2) by auto
  show ?thesis
    unfolding mbr_world_facts(8) [symmetric]
    by (rule mbr_resize_calm [where b = sample_mbr and old = t and nt = nt])
      (use t nt in \<open>simp_all add: mbr_world_facts undo_to_u_def PART_OFF_def\<close>)
qed

theorem mbr_undo_before_write_witness:
  "fst (mbr_resize_partition (replicate 16 0) (sample_device 2048) 1 1 1 undo_to_u mbr_world) = Inr ()
   \<and> data_of (sample_device 2048) (snd (mbr_resize_partition (replicate 16 0) (sample_device 2048) 1 1 1 undo_to_u mbr_world))
       = put_bytes 0 (mbr_edit 1 1 1 sample_mbr) (sample_mbr @ replicate 1536 0)
   \<and> saved (snd (mbr_resize_partition (replicate 16 0) (sample_device 2048) 1 1 1 undo_to_u mbr_world)) ''u'' 1 sample_mbr"
proof -
  obtain w1 where run: "mbr_resize_partition (replicate 16 0) (sample_device 2048) 1 1 1 undo_to_u mbr_world = (Inr (), w1)"
    using mbr_sample_run by blast
  from mbr_undo_before_write [OF run] show ?thesis
    by (simp add: run mbr_world_facts Let_def undo_to_u_def [THEN arg_cong [where f = mbo_backup_sector_path]])
qed

theorem mbr_restore_undoes_witness:
  "\<exists>w1 w2. mbr_resize_partition (replicate 16 0) (sample_device 2048) 1 1 1 undo_to_u mbr_world = (Inr (), w1)
     \<and> restore_sector (sample_device 2048) ''u'' False w1 = (Inr (), w2)
     \<and> data_of (sample_device 2048) w2 = sample_mbr @ replicate 1536 0"
proof -
  let ?d = "sample_device 2048"
  obtain w1 where run: "mbr_resize_partition (replicate 16 0) ?d 1 1 1 undo_to_u mbr_world = (Inr (), w1)" and c: "calm w1" "\<not> f_is_blk (w_files w1 0)"
    using mbr_sample_run by blast
  have u: "mbo_backup_sector_path undo_to_u = ''u''" by (simp add: undo_to_u_def)
  have out: "saved w1 ''u'' 1 sample_mbr" "data_of ?d w1 = put_bytes 0 (mbr_edit 1 1 1 sample_mbr) (sample_mbr @ replicate 1536 0)"
    using mbr_resize_outcome [OF run] by (simp_all add: mbr_world_facts Let_def u)
  obtain t where t: "mbr_decode sample_mbr = Inr t" "mt_signature_ok t" using sample_mbr_decodes(1) by auto
  obtain w2 where back_run: "restore_sector ?d ''u'' False w1 = (Inr (), w2)"
    using restore_sector_calm [OF c(1) _ _ _ _ out(1) _ t] out(2) c(2) by (fastforce simp: mbr_world_facts on_file_def off_t_max_def sample_device_def)
  from mbr_restore_undoes [OF run _ _ _ back_run [folded u]] show ?thesis
    using run back_run by (auto simp: mbr_world_facts)
qed

end
