(* ===== verification/Fsx_Partition_Sync.thy ===== *)
theory Fsx_Partition_Sync
  imports Fsx_Mbr Fsx_Ext4_Groups Fsx_Journal
begin

text \<open>
  \<^verbatim>\<open>src/partition/sync.cpp\<close>: shrinking a GPT partition to the size of the ext4 filesystem in it, with the
  intent in the transaction journal before the table changes. The progress line is left out.
\<close>

section \<open>Model\<close>

record partition_sync_options =
  pso_journal_path :: string
  pso_allow_block_device :: bool

record partition_sync_report =
  psr_partition_index :: u32
  psr_first_lba :: u64
  psr_old_last_lba :: u64
  psr_new_last_lba :: u64
  psr_filesystem_bytes :: u64
  psr_changed :: bool
  psr_verified :: bool
  psr_journal_completed :: bool

definition find_partition :: "gpt_table \<Rightarrow> u32 \<Rightarrow> gpt_partition result" where
  "find_partition t index =
     (case find (\<lambda>p. gp_index p = index) (gt_partitions t) of
        Some p \<Rightarrow> Inr p
      | None \<Rightarrow> fail Errc_not_found ''GPT partition index is unused'')"

definition validate_sync_journal :: "journal \<Rightarrow> superblock \<Rightarrow> u64 \<Rightarrow> unit result" where
  "validate_sync_journal j sb target =
     bind_result (parse_uuid (sb_uuid sb)) (\<lambda>u.
     let st = j_status j
     in if id_filesystem_uuid (js_identity st) \<noteq> u
        then fail Errc_unsafe ''journal filesystem UUID does not match partition filesystem''
        else if id_target_size (js_identity st) \<noteq> target
        then fail Errc_unsafe ''journal target size does not match current filesystem size''
        else if js_phase st \<noteq> Phase_filesystem_shrunk \<and> js_phase st \<noteq> Phase_partition_pending \<and> js_phase st \<noteq> Phase_complete
        then fail Errc_unsafe ''journal is not at the partition-resize phase''
        else Inr ())"

text \<open>The new end of the partition, with its number of sectors.\<close>

definition sync_geometry :: "block_device \<Rightarrow> block_device \<Rightarrow> superblock \<Rightarrow> gpt_partition \<Rightarrow> (u64 \<times> u64) result" where
  "sync_geometry fs disk sb p =
     (let sector = ss64 disk; sectors = gp_last_lba p - gp_first_lba p + 1; partition_bytes = sectors * sector;
          filesystem_bytes = size_bytes sb; new_sectors = filesystem_bytes div sector;
          new_last = gp_first_lba p + new_sectors - 1
      in if g_logical_sector (bd_geometry fs) \<noteq> 0 \<and> ucast (g_logical_sector (bd_geometry fs)) \<noteq> sector
            \<and> g_is_block_device (bd_geometry fs)
         then fail Errc_unsafe ''filesystem and parent disk report different logical sector sizes''
         else if sectors > u64_max div sector then fail Errc_corrupt ''GPT partition byte size overflows''
         else if g_size_bytes (bd_geometry fs) \<noteq> partition_bytes
         then fail Errc_unsafe ''selected GPT partition size does not match filesystem device geometry; wrong disk/index pair or stale kernel table''
         else if filesystem_bytes > partition_bytes then fail Errc_corrupt ''filesystem is larger than selected GPT partition''
         else if filesystem_bytes mod sector \<noteq> 0
         then fail Errc_unsupported ''filesystem size is not aligned to parent disk logical sectors''
         else if new_sectors = 0 then fail Errc_corrupt ''filesystem has zero partition sectors''
         else if gp_first_lba p > u64_max - (new_sectors - 1) then fail Errc_corrupt ''new GPT partition endpoint overflows''
         else if new_last > gp_last_lba p
         then fail Errc_unsafe ''partition synchronization only shrinks to the current filesystem size''
         else Inr (new_last, new_sectors))"

text \<open>Journal operations as programs that return the changed object.\<close>

definition on_journal :: "(journal \<Rightarrow> world \<Rightarrow> (failure + unit) \<times> journal \<times> world) \<Rightarrow> journal \<Rightarrow> journal io" where
  "on_journal f j w = (case f j w of (Inl e, j', w') \<Rightarrow> (Inl e, w') | (Inr _, j', w') \<Rightarrow> (Inr j', w'))"

definition partition_record :: "journal_record_type \<Rightarrow> gpt_partition \<Rightarrow> u32 \<Rightarrow> u64 \<Rightarrow> u64 \<Rightarrow> journal_record" where
  "partition_record ty p index new_last new_sectors =
     \<lparr>jr_type = ty, jr_sequence = 0, jr_transaction_id = 1, jr_source_block = gp_last_lba p,
      jr_destination_block = new_last, jr_block_count = new_sectors, jr_inode = ucast index,
      jr_aux = gp_first_lba p, jr_data_crc32c = 0, jr_state = 0\<rparr>"

definition open_sync_journal :: "partition_sync_options \<Rightarrow> superblock \<Rightarrow> journal option io" where
  "open_sync_journal opts sb =
     (if pso_journal_path opts = [] then return_io None
      else bind_io (journal_open (pso_journal_path opts) True) (\<lambda>j.
           bind_io (lift_io (validate_sync_journal j sb (size_bytes sb))) (\<lambda>_. return_io (Some j))))"

definition record_intent :: "journal option \<Rightarrow> gpt_partition \<Rightarrow> u32 \<Rightarrow> u64 \<Rightarrow> u64 \<Rightarrow> journal option io" where
  "record_intent jo p index new_last new_sectors =
     (case jo of
        None \<Rightarrow> return_io None
      | Some j \<Rightarrow>
          if js_phase (j_status j) = Phase_partition_pending then return_io (Some j)
          else bind_io (on_journal (journal_append (partition_record Rec_partition_intent p index new_last new_sectors)) j) (\<lambda>j1.
               bind_io (on_journal (checkpoint Phase_partition_pending) j1) (\<lambda>j2. return_io (Some j2))))"

definition record_commit :: "journal option \<Rightarrow> gpt_partition \<Rightarrow> u32 \<Rightarrow> u64 \<Rightarrow> u64 \<Rightarrow> bool io" where
  "record_commit jo p index new_last new_sectors =
     (case jo of
        None \<Rightarrow> return_io False
      | Some j \<Rightarrow>
          bind_io (on_journal (journal_append (partition_record Rec_partition_committed p index new_last new_sectors)) j) (\<lambda>j1.
          bind_io (on_journal (checkpoint Phase_complete) j1) (\<lambda>_. return_io True)))"

text \<open>What follows the checks: open the journal, and change the table when its end differs.\<close>

definition sync_commit :: "block_device \<Rightarrow> superblock \<Rightarrow> gpt_partition \<Rightarrow> u32 \<Rightarrow> u64 \<Rightarrow> u64 \<Rightarrow> partition_sync_options
    \<Rightarrow> partition_sync_report io" where
  "sync_commit disk sb p index new_last new_sectors opts =
     (let rep = \<lparr>psr_partition_index = index, psr_first_lba = gp_first_lba p, psr_old_last_lba = gp_last_lba p,
                 psr_new_last_lba = new_last, psr_filesystem_bytes = size_bytes sb, psr_changed = False,
                 psr_verified = False, psr_journal_completed = False\<rparr> in
      bind_io (open_sync_journal opts sb) (\<lambda>jo.
      if (case jo of None \<Rightarrow> False | Some j \<Rightarrow> js_phase (j_status j) = Phase_complete)
      then if new_last \<noteq> gp_last_lba p
           then fail_io Errc_unsafe ''journal says operation is complete but GPT still has old geometry''
           else return_io (rep\<lparr>psr_verified := True, psr_journal_completed := True\<rparr>)
      else if new_last = gp_last_lba p
      then (case jo of
              None \<Rightarrow> return_io (rep\<lparr>psr_verified := True\<rparr>)
            | Some j \<Rightarrow> bind_io (on_journal (checkpoint Phase_complete) j) (\<lambda>_.
                return_io (rep\<lparr>psr_verified := True, psr_journal_completed := True\<rparr>)))
      else
      bind_io (record_intent jo p index new_last new_sectors) (\<lambda>jo1.
      bind_io (resize_partition disk index (gp_first_lba p) new_last
                 \<lparr>mo_allow_block_device = pso_allow_block_device opts, mo_reread_kernel_table = True\<rparr>) (\<lambda>m.
      if \<not> mr_verified m then fail_io Errc_io ''GPT resize did not pass post-write verification''
      else bind_io (record_commit jo1 p index new_last new_sectors) (\<lambda>completed.
      return_io (rep\<lparr>psr_changed := True, psr_verified := True, psr_journal_completed := completed\<rparr>))))))"

definition sync_gpt_partition_to_ext4 :: "block_device \<Rightarrow> block_device \<Rightarrow> u32 \<Rightarrow> partition_sync_options \<Rightarrow> partition_sync_report io" where
  "sync_gpt_partition_to_ext4 fs disk index opts =
     bind_io (require_offline_for_write fs) (\<lambda>_.
     bind_io (require_disk_offline_for_write disk) (\<lambda>_.
     bind_io (inspect_device_safety disk) (\<lambda>ds.
     if ds_block_device ds \<and> \<not> pso_allow_block_device opts
     then fail_io Errc_unsafe ''GPT synchronization on a real disk requires --allow-block-device''
     else
     bind_io (read_superblock fs) (\<lambda>sb.
     if sb_state sb AND 1 = 0
     then fail_io Errc_unsafe ''filesystem is not marked clean; partition synchronization refused''
     else
     bind_io (read_redundant_table disk) (\<lambda>t.
     if \<not> gt_primary_header_crc_ok t \<or> \<not> gt_entries_crc_ok t \<or> \<not> gt_backup_header_crc_ok t \<or> \<not> gt_backup_entries_crc_ok t
     then fail_io Errc_corrupt ''both GPT copies must be valid before partition synchronization''
     else
     bind_io (lift_io (find_partition t index)) (\<lambda>p.
     bind_io (lift_io (sync_geometry fs disk sb p)) (\<lambda>(new_last, new_sectors).
     sync_commit disk sb p index new_last new_sectors opts)))))))"

section \<open>Geometry\<close>

lemma ss64_pos: "0 < unat (ss64 d)"
proof -
  have "sector_size d \<noteq> 0" by (simp add: sector_size_def)
  then show ?thesis by (simp add: sector_size_unat unat_gt_0)
qed

lemma sync_geometry_exact:
  assumes "sync_geometry fs disk sb p = Inr (nl, ns)"
  shows "gp_first_lba p \<le> nl \<and> nl \<le> gp_last_lba p
    \<and> (unat nl - unat (gp_first_lba p) + 1) * unat (ss64 disk) = unat (size_bytes sb)"
proof -
  let ?s = "ss64 disk" and ?b = "size_bytes sb"
  have c: "?b mod ?s = 0" "?b div ?s \<noteq> 0" "\<not> gp_first_lba p > u64_max - (?b div ?s - 1)" "nl \<le> gp_last_lba p"
    "nl = gp_first_lba p + ?b div ?s - 1"
    using assms by (auto simp: sync_geometry_def Let_def not_less split: if_split_asm)
  let ?n = "unat (?b div ?s)"
  have n0: "0 < ?n" using c(2) by (simp add: unat_gt_0)
  have n1: "unat (?b div ?s - 1) = ?n - 1" using n0 by (simp add: unat_sub_le word_le_nat_alt)
  have "unat (u64_max - (?b div ?s - 1)) = 2 ^ 64 - 1 - (?n - 1)"
    using n1 unat_lt_64 [of "?b div ?s"]
    by (subst unat_sub_le) (simp_all add: word_le_nat_alt unsigned_minus_1_eq_mask mask_eq_exp_minus_1)
  then have le: "unat (gp_first_lba p) + (?n - 1) < 2 ^ 64"
    using c(3) unat_lt_64 [of "?b div ?s"] by (simp add: word_less_nat_alt not_less)
  have "nl = gp_first_lba p + (?b div ?s - 1)" using c(5) by simp
  then have nl: "unat nl = unat (gp_first_lba p) + (?n - 1)" using le n1 unat_add_le [of "gp_first_lba p" "?b div ?s - 1"] by simp
  have "?n * unat ?s = unat ?b"
  proof -
    have "unat ?b mod unat ?s = 0" using c(1) by (simp add: unat_mod [symmetric])
    then show ?thesis using mult_div_mod_eq [of "unat ?s" "unat ?b"] by (simp add: unat_div mult.commute)
  qed
  then show ?thesis using nl c(4) n0 by (simp add: word_le_nat_alt)
qed

section \<open>Only the journal and the disk change\<close>

definition touches :: "nat \<Rightarrow> 'a io \<Rightarrow> bool" where
  "touches f m \<longleftrightarrow> (\<forall>w r w'. m w = (r, w') \<longrightarrow> others_kept f w w')"

named_theorems touch_intros \<open>programs that change one file at most\<close>

lemma touchesD: "touches f m \<Longrightarrow> m w = (r, w') \<Longrightarrow> others_kept f w w'"
  by (simp add: touches_def)

lemma touches_bind [touch_intros]: "touches f m \<Longrightarrow> (\<And>x. touches f (g x)) \<Longrightarrow> touches f (bind_io m g)"
  by (fastforce simp: touches_def bind_io_def others_kept_def split: prod.splits sum.splits)

lemma touches_pure: "pure_io m \<Longrightarrow> touches f m"
  by (simp add: touches_def pure_io_def others_kept_refl)

lemma touches_if [touch_intros]: "touches f m \<Longrightarrow> touches f m' \<Longrightarrow> touches f (if b then m else m')"
  by simp

lemma touches_write_loop: "touches fd (write_loop fd off b k)"
proof -
  have "write_loop fd off b k w = (r, w') \<Longrightarrow> others_kept fd w w'" for w r w'
  proof (induction fd off b k w arbitrary: r w' rule: write_loop.induct)
    case (1 fd off b k w)
    obtain q w1 where q: "sys_pwrite fd (get_bytes k (min (length b - k) ssize_max) b) (off + k) w = (q, w1)" by fastforce
    have o1: "others_kept fd w w1"
      using q by (auto simp: sys_pwrite_def others_kept_def set_data_def dest!: next_event_files split: prod.splits sysev.splits)
    show ?case
      using "1.prems" "1.IH" [OF _ q [symmetric]] o1 q others_kept_trans [OF o1]
      by (cases q) (auto simp: write_loop.simps [of fd off b k w] others_kept_def split: if_splits)
  qed
  then show ?thesis by (simp add: touches_def)
qed

lemma pure_fault [pure_intros]: "pure_io (fault_hook op t)"
  by (simp add: pure_io_def fault_hook_files)

lemma touches_device [touch_intros]:
  "touches (bd_fd d) (write_exact d off b)" "touches (bd_fd d) (flush d)"
proof -
  show "touches (bd_fd d) (write_exact d off b)" unfolding write_exact_def
    by (intro touch_intros touches_write_loop touches_pure pure_intros)
  show "touches (bd_fd d) (flush d)" using device_others(2) by (auto simp: touches_def)
qed

lemma touches_records: "touches (bd_fd d) (write_records d i rs)"
  by (induction rs arbitrary: i) (auto intro: touch_intros touches_pure pure_intros)

lemma touches_header: "touches (bd_fd (j_device j)) (write_header j s n ph k)"
  unfolding write_header_def by (intro touch_intros touches_pure pure_intros)

lemma append_others:
  assumes "append_batch rs j w = (r, j', w')"
  shows "others_kept (bd_fd (j_device j)) w w' \<and> j_device j' = j_device j"
proof -
  have t: "touches (bd_fd (j_device j)) (append_writes j rs)"
    unfolding append_writes_def Let_def by (intro touch_intros touches_records touches_header)
  show ?thesis
    using assms touchesD [OF t] by (auto simp: append_batch_def Let_def others_kept_refl split: if_splits prod.splits sum.splits)
qed

lemma checkpoint_others:
  assumes "checkpoint ph j w = (r, j', w')"
  shows "others_kept (bd_fd (j_device j)) w w' \<and> j_device j' = j_device j \<and> (r = Inr () \<longrightarrow> js_phase (j_status j') = ph)"
proof (cases "j_writable j")
  case True
  obtain q j1 w1 where a: "journal_append (checkpoint_record ph (j_status j)) j w = (q, j1, w1)" by (metis prod_cases3)
  note o1 = append_others [OF a [unfolded journal_append_def]]
  let ?m = "bind_io (write_header j1 ((js_header_sequence (j_status j1) + 1) AND 1) (js_header_sequence (j_status j1) + 1) ph
      (js_record_count (j_status j1))) (\<lambda>_. flush (j_device j1))"
  obtain q2 w2 where b: "?m w1 = (q2, w2)" by fastforce
  have "touches (bd_fd (j_device j1)) ?m" by (intro touch_intros touches_header)
  then have o2: "others_kept (bd_fd (j_device j1)) w1 w2" using b by (rule touchesD)
  show ?thesis
    using assms True a b o1 o2 others_kept_trans [of "bd_fd (j_device j)" w w1 w2]
    by (cases q; cases q2) (auto simp: checkpoint_def Let_def)
qed (use assms in \<open>auto simp: checkpoint_def others_kept_refl\<close>)

lemma on_journal_append:
  assumes "on_journal (journal_append r) j w = (q, w')"
  shows "others_kept (bd_fd (j_device j)) w w' \<and> (\<forall>j'. q = Inr j' \<longrightarrow> j_device j' = j_device j)"
proof -
  obtain x j' w1 where a: "append_batch [r] j w = (x, j', w1)" by (metis prod_cases3)
  show ?thesis using append_others [OF a] assms a by (cases x) (auto simp: on_journal_def journal_append_def)
qed

lemma on_journal_checkpoint:
  assumes "on_journal (checkpoint ph) j w = (q, w')"
  shows "others_kept (bd_fd (j_device j)) w w' \<and> (\<forall>j'. q = Inr j' \<longrightarrow> j_device j' = j_device j \<and> js_phase (j_status j') = ph)"
proof -
  obtain x j' w1 where a: "checkpoint ph j w = (x, j', w1)" by (metis prod_cases3)
  show ?thesis using checkpoint_others [OF a] assms a by (cases x) (auto simp: on_journal_def)
qed

lemma others_keptD: "others_kept g w w' \<Longrightarrow> g \<noteq> f \<Longrightarrow> w_files w' f = w_files w f"
  by (auto simp: others_kept_def)

text \<open>The journal of the call, if any, is not the file \<open>f\<close>.\<close>

definition apart_from :: "nat \<Rightarrow> journal option \<Rightarrow> bool" where
  "apart_from f jo \<longleftrightarrow> (case jo of None \<Rightarrow> True | Some j \<Rightarrow> bd_fd (j_device j) \<noteq> f)"

lemma record_intent_spec:
  assumes "apart_from f jo" and "record_intent jo p i nl ns w = (q, w')"
  shows "w_files w' f = w_files w f \<and> (\<forall>jo'. q = Inr jo' \<longrightarrow> apart_from f jo' \<and> (jo' = None \<longleftrightarrow> jo = None)
    \<and> (\<forall>j. jo' = Some j \<longrightarrow> js_phase (j_status j) = Phase_partition_pending))"
proof (cases jo)
  case None
  then show ?thesis using assms by (auto simp: record_intent_def)
next
  case (Some j)
  have nf: "bd_fd (j_device j) \<noteq> f" using assms(1) Some by (simp add: apart_from_def)
  show ?thesis
  proof (cases "js_phase (j_status j) = Phase_partition_pending")
    case True
    then show ?thesis using assms Some by (auto simp: record_intent_def)
  next
    case False
    then have "bind_io (on_journal (journal_append (partition_record Rec_partition_intent p i nl ns)) j) (\<lambda>j1.
               bind_io (on_journal (checkpoint Phase_partition_pending) j1) (\<lambda>j2. return_io (Some j2))) w = (q, w')"
      using assms(2) Some by (simp add: record_intent_def)
    then show ?thesis
    proof (cases rule: bind_io_cases)
      case (failed e)
      have "w_files w' f = w_files w f" by (rule others_keptD [OF on_journal_append [OF failed(1), THEN conjunct1] nf])
      then show ?thesis using failed(2) by simp
    next
      case (step j1 w1)
      have a: "w_files w1 f = w_files w f" "j_device j1 = j_device j"
        using others_keptD [OF on_journal_append [OF step(1), THEN conjunct1] nf] on_journal_append [OF step(1)] by auto
      have nf1: "bd_fd (j_device j1) \<noteq> f" using a nf by simp
      from step(2) show ?thesis
      proof (cases rule: bind_io_cases)
        case (failed e)
        have "w_files w' f = w_files w1 f" by (rule others_keptD [OF on_journal_checkpoint [OF failed(1), THEN conjunct1] nf1])
        then show ?thesis using failed(2) a by simp
      next
        case (step j2 w2)
        have "w_files w2 f = w_files w1 f" by (rule others_keptD [OF on_journal_checkpoint [OF step(1), THEN conjunct1] nf1])
        moreover have "j_device j2 = j_device j1" "js_phase (j_status j2) = Phase_partition_pending"
          using on_journal_checkpoint [OF step(1)] by auto
        moreover have "q = Inr (Some j2)" "w' = w2" using step(2) by simp_all
        ultimately show ?thesis using a nf Some by (simp add: apart_from_def)
      qed
    qed
  qed
qed

lemma record_commit_spec:
  assumes "apart_from f jo" and "record_commit jo p i nl ns w = (q, w')"
  shows "w_files w' f = w_files w f"
proof (cases jo)
  case None
  then show ?thesis using assms by (simp add: record_commit_def)
next
  case (Some j)
  have nf: "bd_fd (j_device j) \<noteq> f" using assms(1) Some by (simp add: apart_from_def)
  have "bind_io (on_journal (journal_append (partition_record Rec_partition_committed p i nl ns)) j) (\<lambda>j1.
          bind_io (on_journal (checkpoint Phase_complete) j1) (\<lambda>_. return_io True)) w = (q, w')"
    using assms(2) Some by (simp add: record_commit_def)
  then show ?thesis
  proof (cases rule: bind_io_cases)
    case (failed e)
    show ?thesis by (rule others_keptD [OF on_journal_append [OF failed(1), THEN conjunct1] nf])
  next
    case (step j1 w1)
    have a: "w_files w1 f = w_files w f" "bd_fd (j_device j1) \<noteq> f"
      using others_keptD [OF on_journal_append [OF step(1), THEN conjunct1] nf] on_journal_append [OF step(1)] nf by auto
    from step(2) show ?thesis
    proof (cases rule: bind_io_cases)
      case (failed e)
      show ?thesis using others_keptD [OF on_journal_checkpoint [OF failed(1), THEN conjunct1] a(2)] a(1) by simp
    next
      case (step j2 w2)
      show ?thesis using others_keptD [OF on_journal_checkpoint [OF step(1), THEN conjunct1] a(2)] a(1) step(2) by simp
    qed
  qed
qed

section \<open>Opening the journal\<close>

lemma open_write_spec:
  assumes "open_write path w = (q, w')"
  shows "w_files w' = w_files w \<and> (\<forall>d. q = Inr d \<longrightarrow> w_names w path = Some (bd_fd d))"
proof -
  have o: "w_files w1 = w_files w \<and> (\<forall>fd. x = Inr fd \<longrightarrow> w_names w path = Some fd)" if "sys_open path w = (x, w1)" for x w1
    using that by (auto simp: sys_open_def dest!: next_event_names split: prod.splits sysev.splits option.splits)
  show ?thesis
    using assms by (auto simp: open_write_def open_device_impl_def bind_io_def dest!: geometry_files o split: prod.splits sum.splits)
qed

lemma pure_load: "pure_io (load j)"
proof -
  have "pure_io (load_records n d i s)" for n d i s
    by (induction n arbitrary: i s) (auto intro!: pure_intros)
  then show ?thesis unfolding load_def Let_def by (intro pure_intros)
qed

lemma load_device: "load j w = (Inr j', w') \<Longrightarrow> j_device j' = j_device j"
  unfolding load_def Let_def by (auto simp: bind_io_def lift_io_def split: prod.splits sum.splits if_splits)

lemma journal_open_spec:
  assumes "journal_open path True w = (q, w')"
  shows "w_files w' = w_files w \<and> (\<forall>j. q = Inr j \<longrightarrow> w_names w path = Some (bd_fd (j_device j)))"
proof -
  from assms have "bind_io (open_write path) (\<lambda>d. load \<lparr>j_device = d, j_status = empty_status, j_writable = True\<rparr>) w = (q, w')"
    by (simp add: journal_open_def)
  then show ?thesis
  proof (cases rule: bind_io_cases)
    case (failed e)
    then show ?thesis using open_write_spec [OF failed(1)] by simp
  next
    case (step d w1)
    then show ?thesis
      using open_write_spec [OF step(1)] pure_step [OF pure_load step(2)] load_device by fastforce
  qed
qed

lemma open_sync_journal_spec:
  assumes "open_sync_journal opts sb w = (q, w')" and "w_names w (pso_journal_path opts) \<noteq> Some f"
  shows "w_files w' = w_files w \<and> (\<forall>jo. q = Inr jo \<longrightarrow> apart_from f jo
      \<and> (pso_journal_path opts \<noteq> [] \<longrightarrow> (\<exists>j w1. jo = Some j \<and> journal_open (pso_journal_path opts) True w = (Inr j, w1)
           \<and> validate_sync_journal j sb (size_bytes sb) = Inr ())))"
proof (cases "pso_journal_path opts = []")
  case True
  then show ?thesis using assms(1) by (auto simp: open_sync_journal_def apart_from_def)
next
  case False
  then have "bind_io (journal_open (pso_journal_path opts) True) (\<lambda>j.
           bind_io (lift_io (validate_sync_journal j sb (size_bytes sb))) (\<lambda>_. return_io (Some j))) w = (q, w')"
    using assms(1) by (simp add: open_sync_journal_def)
  then show ?thesis
  proof (cases rule: bind_io_cases)
    case (failed e)
    then show ?thesis using journal_open_spec [OF failed(1)] by simp
  next
    case (step j w1)
    note jo = journal_open_spec [OF step(1)]
    from step(2) show ?thesis
      by (rule lift_bind_cases) (use step(1) jo assms(2) in \<open>auto simp: apart_from_def\<close>)
  qed
qed

section \<open>The table changes last\<close>

lemma sync_dirs [dirs_intros]:
  "same_dirs (require_offline_for_write d)" "same_dirs (read_superblock d)" "same_dirs (read_side d lba)"
  "same_dirs (read_redundant_table d)"
proof -
  show "same_dirs (require_offline_for_write d)"
    using safety_dirs(2) [of d] by (simp add: require_disk_offline_for_write_def)
  show "same_dirs (read_superblock d)" unfolding read_superblock_def by (intro dirs_intros)
  show s: "same_dirs (read_side d lba)" for lba unfolding read_side_def Let_def by (intro dirs_intros)
  have "same_dirs (protective_mbr_ok d)"
    using device_dirs(1) [of d 0 "unat (sector_size d)"]
    by (auto simp: same_dirs_def protective_mbr_ok_def split: if_splits prod.splits sum.splits failure.splits)
  with s show "same_dirs (read_redundant_table d)" unfolding read_redundant_table_def by (intro dirs_intros)
qed

lemma pure_offline [pure_intros]: "pure_io (require_offline_for_write d)"
  using pure_safety(2) [of d] by (simp add: require_disk_offline_for_write_def)

lemma pure_superblock [pure_intros]: "pure_io (read_superblock d)"
  unfolding read_superblock_def by (intro pure_intros)

lemma sync_commit_cases:
  assumes run: "sync_commit disk sb p index nl ns opts w = (r, w')"
    and apart: "w_names w (pso_journal_path opts) \<noteq> Some (bd_fd disk)"
  obtains (kept) "w_files w' (bd_fd disk) = w_files w (bd_fd disk)" "\<And>rep. r = Inr rep \<Longrightarrow> \<not> psr_changed rep"
  | (resized) jo w0 jo1 w1 q w2 where "nl \<noteq> gp_last_lba p"
      "open_sync_journal opts sb w = (Inr jo, w0)" "record_intent jo p index nl ns w0 = (Inr jo1, w1)"
      "w_files w1 (bd_fd disk) = w_files w (bd_fd disk)"
      "pso_journal_path opts \<noteq> [] \<Longrightarrow> \<exists>j. jo1 = Some j \<and> js_phase (j_status j) = Phase_partition_pending"
      "resize_partition disk index (gp_first_lba p) nl
         \<lparr>mo_allow_block_device = pso_allow_block_device opts, mo_reread_kernel_table = True\<rparr> w1 = (q, w2)"
      "w_files w' (bd_fd disk) = w_files w2 (bd_fd disk)" "\<And>rep. r = Inr rep \<Longrightarrow> \<exists>m. q = Inr m \<and> mr_verified m"
  using run [unfolded sync_commit_def Let_def]
proof (cases rule: bind_io_cases)
  case (failed e)
  then show ?thesis using kept open_sync_journal_spec [OF failed(1) apart] by simp
next
  case (step jo w0)
  note open_ok = open_sync_journal_spec [OF step(1) apart]
  then have w0: "w_files w0 = w_files w" and jo: "apart_from (bd_fd disk) jo"
    and some: "pso_journal_path opts \<noteq> [] \<Longrightarrow> jo \<noteq> None" by auto
  consider (complete) j where "jo = Some j" "js_phase (j_status j) = Phase_complete"
    | (same) "\<not> (case jo of None \<Rightarrow> False | Some j \<Rightarrow> js_phase (j_status j) = Phase_complete)" "nl = gp_last_lba p"
    | (shrink) "\<not> (case jo of None \<Rightarrow> False | Some j \<Rightarrow> js_phase (j_status j) = Phase_complete)" "nl \<noteq> gp_last_lba p"
    by (cases jo) auto
  then show ?thesis
  proof cases
    case complete
    then show ?thesis using step(2) w0 kept by (auto split: if_splits)
  next
    case same
    show ?thesis
    proof (cases jo)
      case None
      then show ?thesis using step(2) w0 same by (intro kept) (auto split: if_splits)
    next
      case (Some j)
      have nf: "bd_fd (j_device j) \<noteq> bd_fd disk" using jo Some by (simp add: apart_from_def)
      from step(2) same Some have
        "bind_io (on_journal (checkpoint Phase_complete) j) (\<lambda>_. return_io
           (\<lparr>psr_partition_index = index, psr_first_lba = gp_first_lba p, psr_old_last_lba = gp_last_lba p,
             psr_new_last_lba = nl, psr_filesystem_bytes = size_bytes sb, psr_changed = False,
             psr_verified = True, psr_journal_completed = True\<rparr>)) w0 = (r, w')" by simp
      then show ?thesis
      proof (cases rule: bind_io_cases)
        case (failed e)
        then show ?thesis using others_keptD [OF on_journal_checkpoint [OF failed(1), THEN conjunct1] nf] w0 kept by simp
      next
        case (step x w1)
        then show ?thesis using others_keptD [OF on_journal_checkpoint [OF step(1), THEN conjunct1] nf] w0 kept by auto
      qed
    qed
  next
    case shrink
    note rest = step(2) [unfolded if_not_P [OF shrink(1)] if_not_P [OF shrink(2)]]
    from rest show ?thesis
    proof (cases rule: bind_io_cases)
      case (failed e)
      then show ?thesis using record_intent_spec [OF jo failed(1)] w0 kept by simp
    next
      case rec: (step jo1 w1)
      note intent = record_intent_spec [OF jo rec(1)]
      have jo1: "apart_from (bd_fd disk) jo1" and f1: "w_files w1 (bd_fd disk) = w_files w (bd_fd disk)"
        and pend: "pso_journal_path opts \<noteq> [] \<Longrightarrow> \<exists>j. jo1 = Some j \<and> js_phase (j_status j) = Phase_partition_pending"
        using intent w0 some by auto
      from rec(2) show ?thesis
      proof (cases rule: bind_io_cases)
        case (failed e)
        then show ?thesis by (intro resized [OF shrink(2) step(1) rec(1) f1 pend failed(1)]) auto
      next
        case res: (step m w2)
        from res(2) show ?thesis
        proof (cases rule: guard_io_cases)
          case 1
          then show ?thesis by (intro resized [OF shrink(2) step(1) rec(1) f1 pend res(1)]) auto
        next
          case 2
          from 2(2) show ?thesis
          proof (cases rule: bind_io_cases)
            case (failed e)
            then show ?thesis
              using record_commit_spec [OF jo1 failed(1)] by (intro resized [OF shrink(2) step(1) rec(1) f1 pend res(1)]) auto
          next
            case (step y w3)
            then show ?thesis
              using record_commit_spec [OF jo1 step(1)] 2(1)
              by (intro resized [OF shrink(2) \<open>open_sync_journal opts sb w = (Inr jo, w0)\<close> rec(1) f1 pend res(1)]) auto
          qed
        qed
      qed
    qed
  qed
qed

lemma quiet_cases:
  assumes "bind_io m f w = (r, w')" and "pure_io m" and "same_dirs m"
  obtains (failed) e where "r = Inl e" "w_files w' = w_files w"
  | (step) x w1 where "m w = (Inr x, w1)" "f x w1 = (r, w')" "w_files w1 = w_files w" "w_names w1 = w_names w"
  using assms(1)
proof (cases rule: bind_io_cases)
  case (failed e)
  then show ?thesis using that(1) pure_step [OF assms(2)] by blast
next
  case (step x w1)
  then show ?thesis using that(2) pure_step [OF assms(2)] same_dirsD [OF assms(3)] by (simp add: dirs_def)
qed

lemma sync_cases:
  assumes run: "sync_gpt_partition_to_ext4 fs disk index opts w = (r, w')"
  obtains (refused) e where "r = Inl e" "w_files w' = w_files w"
  | (checked) w1 t w2 p nl ns w3 where
      "read_redundant_table disk w1 = (Inr t, w2)" "w_files w1 = w_files w"
      "gt_primary_header_crc_ok t \<and> gt_entries_crc_ok t \<and> gt_backup_header_crc_ok t \<and> gt_backup_entries_crc_ok t"
      "find_partition t index = Inr p"
      "check_superblock (g_size_bytes (bd_geometry fs)) (parse_superblock (get_bytes 1024 1024 (data_of fs w))) = Inr ()"
      "sb_state (parse_superblock (get_bytes 1024 1024 (data_of fs w))) AND 1 \<noteq> 0"
      "sync_geometry fs disk (parse_superblock (get_bytes 1024 1024 (data_of fs w))) p = Inr (nl, ns)"
      "sync_commit disk (parse_superblock (get_bytes 1024 1024 (data_of fs w))) p index nl ns opts w3 = (r, w')"
      "w_files w3 = w_files w" "w_names w3 = w_names w"
  using run [unfolded sync_gpt_partition_to_ext4_def]
proof (cases rule: quiet_cases [OF _ pure_offline sync_dirs(1), consumes 1, case_names failed step])
  case (failed e)
  then show ?thesis by (rule refused)
next
  case a: (step x wa)
  from a(2) show ?thesis
  proof (cases rule: quiet_cases [OF _ pure_safety(2) safety_dirs(2), consumes 1, case_names failed step])
    case (failed e)
    then show ?thesis using a by (intro refused) simp_all
  next
    case b: (step y wb)
    from b(2) show ?thesis
    proof (cases rule: quiet_cases [OF _ pure_safety(1) safety_dirs(1), consumes 1, case_names failed step])
      case (failed e)
      then show ?thesis using a b by (intro refused) simp_all
    next
      case c: (step ds wc)
      have fc: "w_files wc = w_files w" "w_names wc = w_names w" using a b c by simp_all
      from c(2) show ?thesis
      proof (cases rule: guard_io_cases)
        case 1
        then show ?thesis using fc by (intro refused) simp_all
      next
        case 2
        from 2(2) show ?thesis
        proof (cases rule: quiet_cases [OF _ pure_superblock sync_dirs(2), consumes 1, case_names failed step])
          case (failed e)
          then show ?thesis using fc by (intro refused) simp_all
        next
          case d: (step sb wd)
          note sb = read_superblock_ok [OF d(1)]
          have fd: "w_files wd = w_files w" "w_names wd = w_names w" using fc d by simp_all
          have sbe: "sb = parse_superblock (get_bytes 1024 1024 (data_of fs w))" using sb(3) fc by simp
          from d(2) show ?thesis
          proof (cases rule: guard_io_cases)
            case 1
            then show ?thesis using fd by (intro refused) simp_all
          next
            case clean: 2
            from clean(2) show ?thesis
            proof (cases rule: quiet_cases [OF _ pure_gpt(3) sync_dirs(4), consumes 1, case_names failed step])
              case (failed e)
              then show ?thesis using fd by (intro refused) simp_all
            next
              case e: (step t we)
              have fe: "w_files we = w_files w" "w_names we = w_names w" using fd e by simp_all
              from e(2) show ?thesis
              proof (elim guard_io_cases lift_bind_cases, goal_cases)
                case (4 p x)
                obtain nl ns where x: "x = (nl, ns)" by (cases x)
                show ?case
                  using 4 sb(2) clean(1) by (intro checked [OF e(1) fd(1), of p nl ns we]) (simp_all add: x fe sbe [symmetric])
              qed (use refused fe in auto)
            qed
          qed
        qed
      qed
    qed
  qed
qed



end
