(* ===== verification/Fsx_Stage.thy ===== *)
theory Fsx_Stage
  imports Fsx_Relocate Fsx_Partition_Sync
begin

text \<open>
  The device profile of \<^verbatim>\<open>src/io/scheduler.cpp\<close> and the staging of a relocation, second half of
  \<^verbatim>\<open>src/ext4/relocate.cpp\<close>: every move of a plan is copied to its destination, verified and recorded in the
  transaction journal. The copies of a batch run concurrently; a copy is a sequence of steps, one per chunk, and
  the order in which the workers take the steps is an argument.
\<close>

section \<open>Device profile\<close>

datatype device_class = Class_unknown | Class_hdd | Class_ssd | Class_nvme | Class_memory

record io_tuning =
  it_workers :: nat
  it_queue_depth :: nat
  it_large_io_bytes :: nat

record device_profile =
  dp_device_class :: device_class
  dp_tuning :: io_tuning
  dp_rationale :: string

text \<open>\<open>hc\<close> is \<^verbatim>\<open>std::thread::hardware_concurrency()\<close>, which may be 0.\<close>

definition sane_workers :: "nat \<Rightarrow> device_class \<Rightarrow> nat" where
  "sane_workers hc c =
     (let h = max 1 hc in
      case c of Class_hdd \<Rightarrow> 2 | Class_ssd \<Rightarrow> min 8 h | Class_nvme \<Rightarrow> min 16 h | Class_memory \<Rightarrow> min 8 h | Class_unknown \<Rightarrow> min 4 h)"

text \<open>\<open>rot\<close> is the number in \<^verbatim>\<open>queue/rotational\<close>, when \<^verbatim>\<open>fstat\<close> says block device and the file can be read.\<close>

definition linux_sysfs_class :: "int option \<Rightarrow> device_class" where
  "linux_sysfs_class rot = (case rot of None \<Rightarrow> Class_unknown | Some r \<Rightarrow> if r = 1 then Class_hdd else Class_ssd)"

fun contains :: "string \<Rightarrow> string \<Rightarrow> bool" where
  "contains p [] = (p = [])"
| "contains p (c # cs) = (take (length p) (c # cs) = p \<or> contains p cs)"

definition profile_device :: "nat \<Rightarrow> int option \<Rightarrow> block_device \<Rightarrow> device_profile" where
  "profile_device hc rot d =
     (let (c, why) =
        (if \<not> g_is_block_device (bd_geometry d) then (Class_memory, ''regular file or non-block device'')
         else if contains ''nvme'' (bd_path d) \<or> contains ''/nda'' (bd_path d) \<or> contains ''/nvd'' (bd_path d)
         then (Class_nvme, ''NVMe-style device path'')
         else if linux_sysfs_class rot \<noteq> Class_unknown then (linux_sysfs_class rot, ''Linux rotational queue attribute'')
         else (Class_unknown, ''portable conservative fallback''));
        (depth, large) = (case c of Class_hdd \<Rightarrow> (4, 4) | Class_nvme \<Rightarrow> (64, 16) | Class_ssd \<Rightarrow> (32, 8) | _ \<Rightarrow> (16, 4))
      in \<lparr>dp_device_class = c,
          dp_tuning = \<lparr>it_workers = sane_workers hc c, it_queue_depth = depth, it_large_io_bytes = large * 1024 * 1024\<rparr>,
          dp_rationale = why\<rparr>)"

section \<open>Copying and verifying one move\<close>

record copy_result =
  cr_crc :: u32
  cr_bytes :: u64

definition byte_range :: "block_device \<Rightarrow> u64 \<Rightarrow> u64 \<Rightarrow> u64 \<Rightarrow> (u64 \<times> u64) result" where
  "byte_range d block blocks bs =
     (if bs = 0 \<or> blocks = 0 then fail Errc_invalid_argument ''invalid zero-sized relocation range''
      else if block > u64_max div bs \<or> blocks > u64_max div bs then fail Errc_corrupt ''relocation byte geometry overflows''
      else let start = block * bs; len = blocks * bs; sz = g_size_bytes (bd_geometry d)
           in if start > sz \<or> len > sz - start then fail Errc_corrupt ''relocation range lies outside containing device''
              else Inr (start, len))"

text \<open>The rounds of the loop \<^verbatim>\<open>while (done < total)\<close> with a buffer of \<open>size\<close> bytes: offset and length. The buffer is not empty
  because \<^verbatim>\<open>byte_range\<close> refuses a block size of 0.\<close>

function chunk_seq :: "nat \<Rightarrow> nat \<Rightarrow> nat \<Rightarrow> (nat \<times> nat) list" where
  "chunk_seq sz tot pos =
     (if pos < tot \<and> 0 < sz then (pos, min sz (tot - pos)) # chunk_seq sz tot (pos + min sz (tot - pos)) else [])"
  by pat_completeness auto
termination by (relation "measure (\<lambda>(sz, tot, pos). tot - pos)") auto

declare chunk_seq.simps [simp del]

text \<open>A copy in progress: source, destination, total, the rounds to come and the checksum so far.\<close>

datatype copy_state = Copying u64 u64 u64 "(nat \<times> nat) list" u32 | Copied "copy_result result"

definition copy_begin :: "block_device \<Rightarrow> u64 \<Rightarrow> nat \<Rightarrow> owner_move \<Rightarrow> copy_state" where
  "copy_begin d bs chunk m =
     (if om_unwritten m then Copied (Inr \<lparr>cr_crc = 0, cr_bytes = 0\<rparr>)
      else case byte_range d (om_source_block m) (om_block_count m) bs of
        Inl e \<Rightarrow> Copied (Inl e)
      | Inr (src, tot) \<Rightarrow>
          (case byte_range d (om_destination_block m) (om_block_count m) bs of
             Inl e \<Rightarrow> Copied (Inl e)
           | Inr (dst, _) \<Rightarrow> Copying src dst tot (chunk_seq (max (unat bs) chunk) (unat tot) 0) 0xffffffff))"

definition copy_chunk :: "block_device \<Rightarrow> u64 \<Rightarrow> u64 \<Rightarrow> nat \<times> nat \<Rightarrow> u32 \<Rightarrow> u32 io" where
  "copy_chunk d src dst c crc =
     bind_io cancellation_requested (\<lambda>stop.
     if stop then fail_io Errc_unsafe ''relocation cancellation requested''
     else bind_io (read_exact d (src + of_nat (fst c)) (snd c)) (\<lambda>span.
          bind_io (write_exact d (dst + of_nat (fst c)) span) (\<lambda>_.
          return_io (crc32c span crc))))"

fun copy_step :: "block_device \<Rightarrow> copy_state \<Rightarrow> copy_state io" where
  "copy_step d (Copied r) = return_io (Copied r)"
| "copy_step d (Copying src dst tot [] crc) = return_io (Copied (Inr \<lparr>cr_crc = crc XOR 0xffffffff, cr_bytes = tot\<rparr>))"
| "copy_step d (Copying src dst tot (c # cs) crc) =
     bind_io (try_io (copy_chunk d src dst c crc)) (\<lambda>r.
     return_io (case r of Inl e \<Rightarrow> Copied (Inl e) | Inr crc' \<Rightarrow> Copying src dst tot cs crc'))"

text \<open>One worker on its own: the steps to the end of the copy.\<close>

fun copy_finish :: "nat \<Rightarrow> block_device \<Rightarrow> copy_state \<Rightarrow> copy_state io" where
  "copy_finish 0 d st = return_io st"
| "copy_finish (Suc n) d st = bind_io (copy_step d st) (copy_finish n d)"

definition steps_left :: "copy_state \<Rightarrow> nat" where
  "steps_left st = (case st of Copied _ \<Rightarrow> 0 | Copying _ _ _ cs _ \<Rightarrow> Suc (length cs))"

definition copy_result_of :: "copy_state \<Rightarrow> copy_result result" where
  "copy_result_of st = (case st of Copied r \<Rightarrow> r | _ \<Rightarrow> fail Errc_internal [])"

definition copy_one :: "block_device \<Rightarrow> owner_move \<Rightarrow> u64 \<Rightarrow> nat \<Rightarrow> copy_result io" where
  "copy_one d m bs chunk =
     (let st = copy_begin d bs chunk m
      in bind_io (copy_finish (steps_left st) d st) (\<lambda>st'. lift_io (copy_result_of st')))"

fun verify_chunks :: "block_device \<Rightarrow> u64 \<Rightarrow> (nat \<times> nat) list \<Rightarrow> u32 \<Rightarrow> u32 io" where
  "verify_chunks d dst [] crc = return_io crc"
| "verify_chunks d dst (c # cs) crc =
     bind_io (read_exact d (dst + of_nat (fst c)) (snd c)) (\<lambda>span. verify_chunks d dst cs (crc32c span crc))"

definition verify_one :: "block_device \<Rightarrow> owner_move \<Rightarrow> u64 \<Rightarrow> nat \<Rightarrow> u32 io" where
  "verify_one d m bs chunk =
     (if om_unwritten m then return_io 0
      else bind_io (lift_io (byte_range d (om_destination_block m) (om_block_count m) bs)) (\<lambda>(dst, tot).
           bind_io (verify_chunks d dst (chunk_seq (max (unat bs) chunk) (unat tot) 0) 0xffffffff) (\<lambda>crc.
           return_io (crc XOR 0xffffffff))))"

section \<open>The worker pool\<close>

text \<open>The workers take steps of the submitted copies in the order \<open>sched\<close>. A future that is awaited is finished by its worker; copies
  that are still running when an earlier one has failed run to their end before the pool is destroyed.\<close>

fun run_pool :: "block_device \<Rightarrow> nat list \<Rightarrow> copy_state list \<Rightarrow> copy_state list io" where
  "run_pool d [] sts = return_io sts"
| "run_pool d (i # sched) sts =
     (if i < length sts then bind_io (copy_step d (sts ! i)) (\<lambda>st. run_pool d sched (sts[i := st])) else run_pool d sched sts)"

fun drain :: "block_device \<Rightarrow> copy_state list \<Rightarrow> unit io" where
  "drain d [] = return_io ()"
| "drain d (st # sts) = bind_io (copy_finish (steps_left st) d st) (\<lambda>_. drain d sts)"

fun await_copies :: "block_device \<Rightarrow> copy_state list \<Rightarrow> ((error \<times> copy_state list) + copy_result list) io" where
  "await_copies d [] = return_io (Inr [])"
| "await_copies d (st # sts) =
     bind_io (copy_finish (steps_left st) d st) (\<lambda>st'.
     case copy_result_of st' of
       Inl e \<Rightarrow> return_io (Inl (e, sts))
     | Inr c \<Rightarrow> bind_io (await_copies d sts) (\<lambda>q. return_io (case q of Inl x \<Rightarrow> Inl x | Inr cs \<Rightarrow> Inr (c # cs))))"

section \<open>Staging\<close>

record stage_options =
  so_journal_path :: string
  so_allow_block_device :: bool
  so_verify_after_write :: bool
  so_checkpoint_batch :: nat

record stage_report =
  sr_moves_total :: u64
  sr_moves_completed :: u64
  sr_bytes_copied :: u64
  sr_bytes_verified :: u64
  sr_paused :: bool
  sr_complete :: bool

text \<open>What the host decides: the concurrency and the rotational attribute, the process number and random bytes for the journal,
  and the order of the workers' steps in each batch, by the number of moves left.\<close>

record stage_env =
  se_hardware_concurrency :: nat
  se_rotational :: "int option"
  se_pid :: nat
  se_temp_uuid :: bytes
  se_operation_uuid :: bytes
  se_order :: "nat \<Rightarrow> nat list"

fun kind_code :: "relocation_kind \<Rightarrow> u32" where
  "kind_code Data_extent = 1"
| "kind_code Extent_tree_block = 2"

definition move_record :: "journal_record_type \<Rightarrow> u32 \<Rightarrow> owner_move \<Rightarrow> journal_record" where
  "move_record ty crc m =
     \<lparr>jr_type = ty, jr_sequence = 0, jr_transaction_id = om_transaction_id m, jr_source_block = om_source_block m,
      jr_destination_block = om_destination_block m, jr_block_count = om_block_count m, jr_inode = om_inode m,
      jr_aux = om_logical_block m, jr_data_crc32c = crc, jr_state = kind_code (om_kind m)\<rparr>"

definition journal_capacity :: "nat \<Rightarrow> u64 result" where
  "journal_capacity n =
     (let moves = of_nat n; needed = moves * 8 + 4096 in
      if moves > (u64_max - 4096) div 8 then fail Errc_unsupported ''relocation plan is too large for journal accounting''
      else if needed > (u64_max - records_offset) div record_bytes then fail Errc_unsupported ''relocation journal size overflows''
      else Inr (max (push_bit 20 16) (records_offset + needed * record_bytes)))"

text \<open>An error of \<^verbatim>\<open>std::filesystem::exists\<close> is an exception that nothing catches: the process is aborted.\<close>

definition open_stage_journal :: "stage_env \<Rightarrow> block_device \<Rightarrow> string \<Rightarrow> owner_relocation_plan \<Rightarrow> bytes \<Rightarrow> (journal \<times> bool) io" where
  "open_stage_journal env d path plan fu w =
     (case path_exists path w of
        (Inl e, w1) \<Rightarrow> (Inl (Exited 134), w1)
      | (Inr True, w1) \<Rightarrow> bind_io (journal_open path True) (\<lambda>j. return_io (j, True)) w1
      | (Inr False, w1) \<Rightarrow>
          bind_io (lift_io (journal_capacity (length (op_moves plan)))) (\<lambda>cap.
          bind_io (create (se_pid env) (se_temp_uuid env) path
             \<lparr>id_operation_uuid = se_operation_uuid env, id_filesystem_uuid = fu,
              id_device_size = g_size_bytes (bd_geometry d), id_target_size = op_target_bytes plan\<rparr> cap) (\<lambda>j.
          return_io (j, False))) w1)"

definition check_stage_identity :: "block_device \<Rightarrow> owner_relocation_plan \<Rightarrow> bytes \<Rightarrow> journal \<Rightarrow> unit result" where
  "check_stage_identity d plan fu j =
     (let i = js_identity (j_status j) in
      if id_filesystem_uuid i \<noteq> fu then fail Errc_unsafe ''journal filesystem UUID does not match target''
      else if id_device_size i \<noteq> g_size_bytes (bd_geometry d) then fail Errc_unsafe ''journal device size does not match target''
      else if id_target_size i \<noteq> op_target_bytes plan then fail Errc_unsafe ''journal target size does not match plan''
      else Inr ())"

text \<open>The maps \<^verbatim>\<open>intents\<close> and \<^verbatim>\<open>verified_records\<close>: the last record of a transaction counts.\<close>

definition last_record :: "journal_record_type \<Rightarrow> journal_record list \<Rightarrow> u64 \<Rightarrow> journal_record option" where
  "last_record ty rs txn = find (\<lambda>r. jr_type r = ty \<and> jr_transaction_id r = txn) (rev rs)"

definition record_keys :: "journal_record_type \<Rightarrow> journal_record list \<Rightarrow> nat" where
  "record_keys ty rs = length (remdups (map jr_transaction_id (filter (\<lambda>r. jr_type r = ty) rs)))"

fun resume_moves :: "block_device \<Rightarrow> u64 \<Rightarrow> nat \<Rightarrow> journal_record list \<Rightarrow> owner_move list \<Rightarrow> u64 set \<Rightarrow> u64 set io" where
  "resume_moves d bs chunk rs [] v = return_io v"
| "resume_moves d bs chunk rs (m # ms) v =
     (case last_record Rec_relocation_intent rs (om_transaction_id m) of
        None \<Rightarrow> fail_io Errc_unsafe ''resume journal is missing relocation intent''
      | Some r \<Rightarrow>
          if jr_source_block r \<noteq> om_source_block m \<or> jr_destination_block r \<noteq> om_destination_block m
             \<or> jr_block_count r \<noteq> om_block_count m \<or> jr_inode r \<noteq> om_inode m
          then fail_io Errc_unsafe ''resume plan differs from journaled relocation geometry''
          else (case last_record Rec_copy_verified rs (om_transaction_id m) of
                  None \<Rightarrow> resume_moves d bs chunk rs ms v
                | Some vr \<Rightarrow>
                    bind_io (verify_one d m bs chunk) (\<lambda>crc.
                    resume_moves d bs chunk rs ms (if crc = jr_data_crc32c vr then insert (om_transaction_id m) v else v))))"

definition resume_check :: "block_device \<Rightarrow> owner_relocation_plan \<Rightarrow> nat \<Rightarrow> journal \<Rightarrow> u64 set io" where
  "resume_check d plan chunk j =
     (if js_phase (j_status j) \<notin> {Phase_prepared, Phase_relocating, Phase_paused, Phase_staged}
      then fail_io Errc_unsafe ''journal phase is not valid for relocation staging''
      else bind_io (records j) (\<lambda>rs.
        if record_keys Rec_relocation_intent rs \<noteq> length (op_moves plan)
        then fail_io Errc_unsafe ''resume journal relocation count differs from current plan''
        else resume_moves d (op_block_size plan) chunk rs (op_moves plan) {}))"

text \<open>The journal and the transactions that need no copy.\<close>

definition stage_start :: "block_device \<Rightarrow> owner_relocation_plan \<Rightarrow> nat \<Rightarrow> journal \<times> bool \<Rightarrow> (journal \<times> u64 set) io" where
  "stage_start d plan chunk je =
     (case je of (j, existing) \<Rightarrow>
        if existing then bind_io (resume_check d plan chunk j) (\<lambda>v. return_io (j, v))
        else bind_io (on_journal (append_batch (map (move_record Rec_relocation_intent 0) (op_moves plan))) j) (\<lambda>j1.
             bind_io (on_journal (checkpoint Phase_relocating) j1) (\<lambda>j2. return_io (j2, {}))))"

fun take_batch :: "nat \<Rightarrow> u64 set \<Rightarrow> owner_move list \<Rightarrow> owner_move list \<times> owner_move list" where
  "take_batch n v [] = ([], [])"
| "take_batch n v (m # ms) =
     (if n = 0 then ([], m # ms)
      else if om_transaction_id m \<in> v then take_batch n v ms
      else case take_batch (n - 1) v ms of (b, r) \<Rightarrow> (m # b, r))"

fun check_batch :: "block_device \<Rightarrow> bool \<Rightarrow> u64 \<Rightarrow> nat \<Rightarrow> (owner_move \<times> copy_result) list \<Rightarrow> journal_record list io" where
  "check_batch d verify bs chunk [] = return_io []"
| "check_batch d verify bs chunk ((m, c) # mcs) =
     bind_io (if verify then verify_one d m bs chunk else return_io (cr_crc c)) (\<lambda>crc.
     if crc \<noteq> cr_crc c
     then fail_io Errc_io (''relocation verification checksum mismatch for transaction '' @ digits (unat (om_transaction_id m)))
     else bind_io (check_batch d verify bs chunk mcs) (\<lambda>rs. return_io (move_record Rec_copy_verified crc m # rs)))"

definition stage_batch :: "block_device \<Rightarrow> bool \<Rightarrow> u64 \<Rightarrow> nat \<Rightarrow> nat list \<Rightarrow> journal \<Rightarrow> owner_move list \<Rightarrow> (journal \<times> copy_result list) io" where
  "stage_batch d verify bs chunk sched j batch =
     bind_io (run_pool d sched (map (copy_begin d bs chunk) batch)) (\<lambda>sts.
     bind_io (await_copies d sts) (\<lambda>q.
     case q of
       Inl (e, rest) \<Rightarrow>
         bind_io (try_io (on_journal (checkpoint Phase_paused) j)) (\<lambda>_.
         bind_io (drain d rest) (\<lambda>_. throw_io e))
     | Inr cs \<Rightarrow>
         bind_io (flush d) (\<lambda>_.
         bind_io (check_batch d verify bs chunk (zip batch cs)) (\<lambda>rs.
         bind_io (on_journal (append_batch rs) j) (\<lambda>j'. return_io (j', cs))))))"

definition count_copies :: "copy_result list \<Rightarrow> stage_report \<Rightarrow> stage_report" where
  "count_copies cs rep = fold (\<lambda>c r. r\<lparr>sr_moves_completed := sr_moves_completed r + 1,
     sr_bytes_copied := sr_bytes_copied r + cr_bytes c, sr_bytes_verified := sr_bytes_verified r + cr_bytes c\<rparr>) cs rep"

lemma take_batch_shrinks: "length (snd (take_batch n v ms)) \<le> length ms"
  by (induction n v ms rule: take_batch.induct) (auto split: prod.splits)

text \<open>The main loop, on the moves that are left. \<open>workers\<close> is the number the profile gives.\<close>

function stage_loop :: "stage_env \<Rightarrow> block_device \<Rightarrow> bool \<Rightarrow> u64 \<Rightarrow> nat \<Rightarrow> nat \<Rightarrow> journal \<Rightarrow> u64 set \<Rightarrow> stage_report \<Rightarrow> owner_move list
    \<Rightarrow> stage_report io" where
  "stage_loop env d verify bs workers chunk j v rep ms =
     (case dropWhile (\<lambda>m. om_transaction_id m \<in> v) ms of
        [] \<Rightarrow> bind_io (on_journal (checkpoint Phase_staged) j) (\<lambda>_. return_io (rep\<lparr>sr_complete := True\<rparr>))
      | m # ms' \<Rightarrow>
          bind_io cancellation_requested (\<lambda>stop.
          if stop then bind_io (on_journal (checkpoint Phase_paused) j) (\<lambda>_. return_io (rep\<lparr>sr_paused := True\<rparr>))
          else let (batch, rest) = take_batch (max 1 workers) v (m # ms')
               in bind_io (stage_batch d verify bs chunk (se_order env (length (m # ms'))) j batch) (\<lambda>(j', cs).
                  stage_loop env d verify bs workers chunk j' (v \<union> set (map om_transaction_id batch)) (count_copies cs rep) rest)))"
  by pat_completeness auto
termination
proof (relation "measure (\<lambda>(env, d, verify, bs, workers, chunk, j, v, rep, ms). length ms)", goal_cases)
  case (2 env d verify bs workers chunk j v rep ms m ms' stop p batch rest j' cs)
  have len: "length (m # ms') \<le> length ms" unfolding 2(1) [symmetric] by (rule length_dropWhile_le)
  have nin: "om_transaction_id m \<notin> v" using hd_dropWhile [of "\<lambda>m. om_transaction_id m \<in> v" ms] 2(1) by simp
  have "rest = snd (take_batch (max 1 workers) v (m # ms'))" using 2 by (metis snd_conv)
  also have "\<dots> = snd (take_batch (max 1 workers - 1) v ms')" using nin by (simp split: prod.splits)
  finally have "length rest \<le> length ms'" using take_batch_shrinks by simp
  then show ?case using len by simp
qed simp

declare stage_loop.simps [simp del]

definition start_report :: "owner_relocation_plan \<Rightarrow> u64 set \<Rightarrow> stage_report" where
  "start_report plan v =
     (let done_moves = filter (\<lambda>m. om_transaction_id m \<in> v) (op_moves plan);
          bytes = fold (\<lambda>m n. n + (if om_unwritten m then 0 else om_block_count m * op_block_size plan)) done_moves 0
      in \<lparr>sr_moves_total = of_nat (length (op_moves plan)), sr_moves_completed = of_nat (length done_moves),
          sr_bytes_copied = bytes, sr_bytes_verified = bytes, sr_paused = False, sr_complete = False\<rparr>)"

definition stage_ready :: "block_device \<Rightarrow> bytes io" where
  "stage_ready d =
     bind_io (read_superblock d) (\<lambda>sb.
     if sb_state sb \<noteq> 1 then fail_io Errc_unsafe ''filesystem is not marked clean; relocation staging is refused''
     else if sb_feature_incompat sb AND INCOMPAT_RECOVER \<noteq> 0
     then fail_io Errc_unsafe ''filesystem journal requires recovery; replay it before offline staging''
     else bind_io (if sb_feature_ro_compat sb AND RO_COMPAT_METADATA_CSUM \<noteq> 0
                   then bind_io (verify_metadata d False) (\<lambda>integrity.
                        if \<not> mi_clean integrity
                        then fail_io Errc_corrupt ''metadata checksum/count verification failed before staging''
                        else return_io ())
                   else return_io ()) (\<lambda>_.
          lift_io (parse_uuid (sb_uuid sb))))"

definition stage_relocation :: "stage_env \<Rightarrow> block_device \<Rightarrow> owner_relocation_plan \<Rightarrow> stage_options \<Rightarrow> stage_report io" where
  "stage_relocation env d plan opts =
     (if so_journal_path opts = [] then fail_io Errc_invalid_argument ''staging requires --journal=FILE''
      else
      bind_io (require_offline_for_write d) (\<lambda>_.
      bind_io (inspect_device_safety d) (\<lambda>ds.
      if ds_block_device ds \<and> \<not> so_allow_block_device opts
      then fail_io Errc_unsafe ''block-device staging requires explicit --allow-block-device''
      else if op_moves plan = []
      then return_io \<lparr>sr_moves_total = 0, sr_moves_completed = 0, sr_bytes_copied = 0, sr_bytes_verified = 0,
             sr_paused = False, sr_complete = True\<rparr>
      else
      bind_io (stage_ready d) (\<lambda>fu.
      let tuning = dp_tuning (profile_device (se_hardware_concurrency env) (se_rotational env) d);
          chunk = max (unat (op_block_size plan)) (it_large_io_bytes tuning)
      in
      bind_io (open_stage_journal env d (so_journal_path opts) plan fu) (\<lambda>je.
      bind_io (lift_io (check_stage_identity d plan fu (fst je))) (\<lambda>_.
      bind_io (stage_start d plan chunk je) (\<lambda>(j, v).
      stage_loop env d (so_verify_after_write opts) (op_block_size plan) (it_workers tuning) chunk j v
        (start_report plan v) (op_moves plan))))))))"

end
