(* ===== verification/Fsx_Extents_Laws.thy ===== *)
theory Fsx_Extents_Laws
  imports Fsx_Extents
begin

text \<open>
  What the extent parser finds: the trees on disk, as a function of the bytes, and that a scan that
  succeeds returns exactly their leaves and nodes, all of them inside the filesystem and no node twice.
\<close>

section \<open>Extent trees on disk\<close>

type_synonym leaf = "u64 \<times> u64 \<times> u64 \<times> bool"

definition leaf_at :: "bytes \<Rightarrow> nat \<Rightarrow> leaf" where
  "leaf_at node i = (leaf_logical node i, leaf_physical node i, leaf_len node i, leaf_unwritten node i)"

definition node_count :: "bytes \<Rightarrow> nat" where
  "node_count node = unat (read_le16 node 2)"

definition block_at :: "superblock \<Rightarrow> bytes \<Rightarrow> u64 \<Rightarrow> bytes" where
  "block_at sb D b = get_bytes (unat (b * block_size sb)) (unat (block_size sb)) D"

primrec tree_leaves :: "nat \<Rightarrow> (u64 \<Rightarrow> bytes) \<Rightarrow> bytes \<Rightarrow> leaf list" where
  "tree_leaves 0 blk node = map (leaf_at node) [0..<node_count node]"
| "tree_leaves (Suc n) blk node = concat (map (\<lambda>i. tree_leaves n blk (blk (index_child node i))) [0..<node_count node])"

primrec tree_nodes :: "nat \<Rightarrow> (u64 \<Rightarrow> bytes) \<Rightarrow> bytes \<Rightarrow> u64 list" where
  "tree_nodes 0 blk node = []"
| "tree_nodes (Suc n) blk node =
     concat (map (\<lambda>i. index_child node i # tree_nodes n blk (blk (index_child node i))) [0..<node_count node])"

definition view :: "owned_extent \<Rightarrow> leaf" where
  "view e = (oe_logical_block e, oe_physical_block e, oe_length e, oe_unwritten e)"

definition leaf_hi :: "leaf \<Rightarrow> nat" where
  "leaf_hi l = (case l of (_, p, len, _) \<Rightarrow> unat p + unat len)"

definition leaf_ok :: "nat \<Rightarrow> leaf \<Rightarrow> bool" where
  "leaf_ok N l = (case l of (_, p, len, _) \<Rightarrow> p \<noteq> 0 \<and> len \<noteq> 0 \<and> unat p + unat len \<le> N)"

text \<open>What the parser adds to a scan for the leaves \<open>ls\<close> and the nodes \<open>ns\<close>.\<close>

definition adds :: "parse_ctx \<Rightarrow> leaf list \<Rightarrow> u64 list \<Rightarrow> owner_scan \<Rightarrow> owner_scan \<Rightarrow> bool" where
  "adds c ls ns out out' \<longleftrightarrow> (\<exists>es ts. os_extents out' = os_extents out @ es
     \<and> map view es = filter (\<lambda>l. unat (pc_retain_from c) < leaf_hi l) ls \<and> list_all (\<lambda>e. oe_inode e = pc_inode c) es
     \<and> os_tree_blocks out' = os_tree_blocks out @ ts
     \<and> map tb_physical_block ts = filter (\<lambda>b. pc_retain_from c \<le> b) ns \<and> list_all (\<lambda>t. tb_inode t = pc_inode c) ts)
   \<and> os_legacy_blockmap_inodes out' = os_legacy_blockmap_inodes out \<and> os_corrupt_inodes out' = os_corrupt_inodes out
   \<and> list_all (leaf_ok (unat (sb_blocks_count (pc_sb c)))) ls \<and> list_all (\<lambda>b. b \<noteq> 0 \<and> b < sb_blocks_count (pc_sb c)) ns"

lemma adds_refl: "adds c [] [] out out"
  by (simp add: adds_def)

lemma adds_trans:
  assumes "adds c ls ns a b" and "adds c ls' ns' b d"
  shows "adds c (ls @ ls') (ns @ ns') a d"
proof -
  obtain es ts where e: "os_extents b = os_extents a @ es" "map view es = filter (\<lambda>l. unat (pc_retain_from c) < leaf_hi l) ls"
      "list_all (\<lambda>e. oe_inode e = pc_inode c) es" "os_tree_blocks b = os_tree_blocks a @ ts"
      "map tb_physical_block ts = filter (\<lambda>b. pc_retain_from c \<le> b) ns" "list_all (\<lambda>t. tb_inode t = pc_inode c) ts"
    using assms(1) by (auto simp: adds_def)
  obtain es' ts' where f: "os_extents d = os_extents b @ es'" "map view es' = filter (\<lambda>l. unat (pc_retain_from c) < leaf_hi l) ls'"
      "list_all (\<lambda>e. oe_inode e = pc_inode c) es'" "os_tree_blocks d = os_tree_blocks b @ ts'"
      "map tb_physical_block ts' = filter (\<lambda>b. pc_retain_from c \<le> b) ns'" "list_all (\<lambda>t. tb_inode t = pc_inode c) ts'"
    using assms(2) by (auto simp: adds_def)
  have "\<exists>es ts. os_extents d = os_extents a @ es
     \<and> map view es = filter (\<lambda>l. unat (pc_retain_from c) < leaf_hi l) (ls @ ls') \<and> list_all (\<lambda>e. oe_inode e = pc_inode c) es
     \<and> os_tree_blocks d = os_tree_blocks a @ ts
     \<and> map tb_physical_block ts = filter (\<lambda>b. pc_retain_from c \<le> b) (ns @ ns') \<and> list_all (\<lambda>t. tb_inode t = pc_inode c) ts"
    using e f by (intro exI [of _ "es @ es'"] exI [of _ "ts @ ts'"]) simp
  then show ?thesis using assms by (simp add: adds_def)
qed

lemma ucast_16_64_zero: "(ucast (x :: u16) :: u64) = 0 \<longleftrightarrow> x = 0"
proof
  assume "(ucast x :: u64) = 0"
  then have "unat (ucast x :: u64) = 0" by simp
  then show "x = 0" using unat_ucast_up [where 'b = 64, of x] by (simp add: unat_eq_0)
qed simp

lemma leaf_len_pos: "leaf_raw_len node i \<noteq> 0 \<Longrightarrow> leaf_len node i \<noteq> 0"
  by (auto simp: leaf_len_def leaf_unwritten_def ucast_16_64_zero)

lemma leaf_entries_adds:
  "leaf_entries c node cbo cblk kind xs prev out = Inr out' \<Longrightarrow> adds c (map (leaf_at node) xs) [] out out'"
proof (induction xs arbitrary: prev out)
  case (Cons i xs)
  let ?p = "leaf_physical node i" and ?l = "leaf_len node i" and ?n = "sb_blocks_count (pc_sb c)"
  have c: "leaf_raw_len node i \<noteq> 0" "?p \<noteq> 0" "\<not> ?n \<le> ?p" "\<not> ?l > ?n - ?p"
    using Cons.prems by (auto simp: Let_def split: if_split_asm)
  have sub: "unat (?n - ?p) = unat ?n - unat ?p" using c(3) by (simp add: unat_sub_le)
  have le: "unat ?p + unat ?l \<le> unat ?n" using c(3,4) sub by (simp add: word_le_nat_alt word_less_nat_alt not_less not_le)
  have ok: "leaf_ok (unat ?n) (leaf_at node i)"
    using c(1,2) le leaf_len_pos by (simp add: leaf_ok_def leaf_at_def)
  have hi: "unat (?p + ?l) = leaf_hi (leaf_at node i)"
    using le unat_lt_64 [of ?n] by (simp add: leaf_hi_def leaf_at_def unat_add_le)
  obtain out1 where rest: "leaf_entries c node cbo cblk kind xs (Some (leaf_logical node i + ?l)) out1 = Inr out'"
    and step: "adds c [leaf_at node i] [] out out1"
  proof (cases "pc_retain_from c < ?p + ?l")
    case True
    then show ?thesis
      using that Cons.prems c ok hi
      by (fastforce simp: Let_def adds_def view_def leaf_at_def word_less_nat_alt split: if_split_asm option.split_asm)
  next
    case False
    then show ?thesis
      using that Cons.prems c ok hi
      by (fastforce simp: Let_def adds_def word_less_nat_alt split: if_split_asm option.split_asm)
  qed
  from adds_trans [OF step Cons.IH [OF rest]] show ?case by simp
qed (simp add: adds_refl)


lemma check_node_count: "check_node c node k kind = Inr n \<Longrightarrow> n = node_count node"
  by (auto simp: check_node_def node_count_def Let_def split: if_split_asm option.split_asm)

text \<open>What parsing a subtree does to the state.\<close>

definition parsed :: "parse_ctx \<Rightarrow> leaf list \<Rightarrow> u64 list \<Rightarrow> parse_state \<Rightarrow> parse_state \<Rightarrow> bool" where
  "parsed c ls ns st st' \<longleftrightarrow> adds c ls ns (snd st) (snd st')
     \<and> fst st' = fst st \<union> set ns \<and> distinct ns \<and> set ns \<inter> fst st = {}"

lemma parsed_refl: "parsed c [] [] st st"
  by (simp add: parsed_def adds_refl)

lemma parsed_trans: "parsed c ls ns a b \<Longrightarrow> parsed c ls' ns' b d \<Longrightarrow> parsed c (ls @ ls') (ns @ ns') a d"
  by (auto simp: parsed_def intro: adds_trans)

lemma index_entries_parsed:
  assumes "\<And>b cbo cblk kind st. reads F (parsed c (tree_leaves n blk b) (tree_nodes n blk b) st) (sub b cbo cblk kind st)"
    and "blk = block_at (pc_sb c) (f_data (F (bd_fd (pc_dev c))))"
  shows "reads F (parsed c (concat (map (\<lambda>i. tree_leaves n blk (blk (index_child node i))) xs))
      (concat (map (\<lambda>i. index_child node i # tree_nodes n blk (blk (index_child node i))) xs)) st)
    (index_entries sub c node cbo depth xs prev st)"
proof (induction xs arbitrary: prev st)
  case (Cons i xs)
  let ?ch = "index_child node i"
  let ?b = "blk ?ch"
  define out1 where "out1 = (if ?ch \<ge> pc_retain_from c
      then (snd st)\<lparr>os_tree_blocks := os_tree_blocks (snd st) @ [\<lparr>tb_inode = pc_inode c, tb_physical_block = ?ch,
              tb_parent_container_byte_offset = cbo, tb_parent_entry_offset = of_nat (entry_offset i), tb_depth = of_nat (depth - 1)\<rparr>],
            os_retained_tree_blocks := os_retained_tree_blocks (snd st) + 1\<rparr>
      else snd st)"
  have first: "parsed c [] [?ch] st (insert ?ch (fst st), out1)"
    if "?ch \<noteq> 0" "\<not> sb_blocks_count (pc_sb c) \<le> ?ch" "?ch \<notin> fst st"
    using that by (auto simp: parsed_def adds_def out1_def)
  have go: "reads F (parsed c (concat (map (\<lambda>i. tree_leaves n blk (blk (index_child node i))) (i # xs)))
      (concat (map (\<lambda>i. index_child node i # tree_nodes n blk (blk (index_child node i))) (i # xs))) st)
      (index_entries sub c node cbo depth xs prev' st2)"
    if "parsed c [] [?ch] st st1" "parsed c (tree_leaves n blk ?b) (tree_nodes n blk ?b) st1 st2" for prev' st1 st2
    by (rule reads_conseq [OF Cons]) (use parsed_trans [OF parsed_trans [OF that]] in simp)
  have rd: "reads F (\<lambda>b. b = ?b) (read_exact (pc_dev c) (?ch * block_size (pc_sb c)) (unat (block_size (pc_sb c))))"
    by (rule reads_conseq [OF reads_exact]) (simp add: assms(2) block_at_def)
  show ?case
    unfolding index_entries.simps Let_def out1_def [symmetric]
    by (intro reads_if reads_simple(2), rule reads_bind [OF rd], hypsubst, rule reads_bind [OF assms(1)], rule go [OF first])
      simp_all
qed (simp add: reads_intros parsed_refl)

lemma parse_node_parsed:
  assumes "blk = block_at (pc_sb c) (f_data (F (bd_fd (pc_dev c))))"
  shows "reads F (parsed c (tree_leaves n blk node) (tree_nodes n blk node) st) (parse_node n c node cbo cblk kind st)"
proof (induction n arbitrary: node cbo cblk kind st)
  case 0
  show ?case
    unfolding parse_node.simps
    by (intro reads_lift_bind reads_simple(1))
      (auto simp: parsed_def dest: check_node_count leaf_entries_adds)
next
  case (Suc n)
  show ?case
    unfolding parse_node.simps tree_leaves.simps tree_nodes.simps
    by (rule reads_lift_bind, drule check_node_count, hypsubst, rule index_entries_parsed [OF Suc assms])
qed


section \<open>The owner scan\<close>

text \<open>The active inodes with extents, with their number and their bytes.\<close>

definition inode_active :: "bytes \<Rightarrow> bool" where
  "inode_active b \<longleftrightarrow> read_le16 b 0 \<noteq> 0 \<and> read_le16 b 26 \<noteq> 0"

definition inode_extents :: "bytes \<Rightarrow> bool" where
  "inode_extents b \<longleftrightarrow> read_le32 b INODE_FLAGS_OFF AND EXT4_EXTENTS_FL \<noteq> 0"

definition inode_root :: "bytes \<Rightarrow> bytes" where
  "inode_root b = get_bytes INODE_I_BLOCK_OFF INODE_I_BLOCK_LEN b"

definition group_inodes :: "superblock \<Rightarrow> bytes \<Rightarrow> u64 \<Rightarrow> (u64 \<times> bytes) list" where
  "group_inodes sb D g =
     (let gd = desc_of sb D g; isz = unat (sb_inode_size sb); n = group_inode_count sb g;
          ib = get_bytes (unat (gd_inode_bitmap gd * block_size sb)) (unat (block_size sb)) D;
          table = (if n * ucast (sb_inode_size sb) \<noteq> 0
                   then get_bytes (unat (gd_inode_table gd * block_size sb)) (unat (n * ucast (sb_inode_size sb))) D else [])
      in if gd_flags gd AND BG_INODE_UNINIT \<noteq> 0 then []
         else map (\<lambda>i. (first_inode sb g + of_nat i, get_bytes (i * isz) isz table))
                (filter (\<lambda>i. inode_allocated ib (of_nat i) \<and> inode_active (get_bytes (i * isz) isz table)) [0..<unat n]))"

definition owner_leaves :: "superblock \<Rightarrow> bytes \<Rightarrow> u64 \<times> bytes \<Rightarrow> (u64 \<times> leaf) list" where
  "owner_leaves sb D x = (case x of (ino, b) \<Rightarrow>
     map (Pair ino) (if inode_extents b then tree_leaves (unat (read_le16 (inode_root b) 6)) (block_at sb D) (inode_root b) else []))"

definition owner_nodes :: "superblock \<Rightarrow> bytes \<Rightarrow> u64 \<times> bytes \<Rightarrow> (u64 \<times> u64) list" where
  "owner_nodes sb D x = (case x of (ino, b) \<Rightarrow>
     map (Pair ino) (if inode_extents b then tree_nodes (unat (read_le16 (inode_root b) 6)) (block_at sb D) (inode_root b) else []))"

text \<open>What a scan has added after the inodes \<open>xs\<close>.\<close>

definition owned :: "superblock \<Rightarrow> bytes \<Rightarrow> u64 \<Rightarrow> (u64 \<times> bytes) list \<Rightarrow> owner_scan \<Rightarrow> owner_scan \<Rightarrow> bool" where
  "owned sb D k xs out out' \<longleftrightarrow>
     map (\<lambda>e. (oe_inode e, view e)) (os_extents out') = map (\<lambda>e. (oe_inode e, view e)) (os_extents out)
       @ filter (\<lambda>x. unat k < leaf_hi (snd x)) (concat (map (owner_leaves sb D) xs))
     \<and> map (\<lambda>t. (tb_inode t, tb_physical_block t)) (os_tree_blocks out') = map (\<lambda>t. (tb_inode t, tb_physical_block t)) (os_tree_blocks out)
       @ filter (\<lambda>x. k \<le> snd x) (concat (map (owner_nodes sb D) xs))
     \<and> os_legacy_blockmap_inodes out' = os_legacy_blockmap_inodes out + of_nat (length (filter (\<lambda>x. \<not> inode_extents (snd x)) xs))
     \<and> os_corrupt_inodes out' = os_corrupt_inodes out
     \<and> list_all (\<lambda>x. leaf_ok (unat (sb_blocks_count sb)) (snd x)) (concat (map (owner_leaves sb D) xs))
     \<and> list_all (\<lambda>x. snd x \<noteq> 0 \<and> snd x < sb_blocks_count sb) (concat (map (owner_nodes sb D) xs))
     \<and> list_all (\<lambda>x. distinct (owner_nodes sb D x)) xs"

lemma owned_trans: "owned sb D k xs a b \<Longrightarrow> owned sb D k ys b c \<Longrightarrow> owned sb D k (xs @ ys) a c"
  by (simp add: owned_def)

lemma owned_Nil [simp]: "owned sb D k [] out out'
   \<longleftrightarrow> map (\<lambda>e. (oe_inode e, view e)) (os_extents out') = map (\<lambda>e. (oe_inode e, view e)) (os_extents out)
     \<and> map (\<lambda>t. (tb_inode t, tb_physical_block t)) (os_tree_blocks out') = map (\<lambda>t. (tb_inode t, tb_physical_block t)) (os_tree_blocks out)
     \<and> os_legacy_blockmap_inodes out' = os_legacy_blockmap_inodes out \<and> os_corrupt_inodes out' = os_corrupt_inodes out"
  by (simp add: owned_def)

lemma map_pair_const: "list_all (\<lambda>x. f x = k) xs \<Longrightarrow> map (\<lambda>x. (f x, g x)) xs = map (Pair k) (map g xs)"
  by (induction xs) simp_all

lemma adds_owned:
  assumes "adds c ls ns out out'" and "distinct ns" and "pc_sb c = sb" "pc_inode c = ino" "pc_retain_from c = k"
    and "owner_leaves sb D (ino, b) = map (Pair ino) ls" "owner_nodes sb D (ino, b) = map (Pair ino) ns" "inode_extents b"
  shows "owned sb D k [(ino, b)] out out'"
proof -
  obtain es ts where e: "os_extents out' = os_extents out @ es" "map view es = filter (\<lambda>l. unat k < leaf_hi l) ls"
      "list_all (\<lambda>e. oe_inode e = ino) es" "os_tree_blocks out' = os_tree_blocks out @ ts"
      "map tb_physical_block ts = filter (\<lambda>b. k \<le> b) ns" "list_all (\<lambda>t. tb_inode t = ino) ts"
    using assms(1,4,5) by (auto simp: adds_def)
  show ?thesis
    using assms e map_pair_const [OF e(3), of view] map_pair_const [OF e(6), of tb_physical_block]
    by (simp add: owned_def adds_def filter_map comp_def distinct_map list_all_iff inj_on_def)
qed

lemma parse_inode_owned:
  assumes "inode_extents b" and "100 \<le> length b"
  shows "reads F (owned sb (f_data (F (bd_fd d))) k [(ino, b)] out) (parse_inode d sb m k ino ia b out)"
proof -
  have l: "length (get_bytes INODE_I_BLOCK_OFF INODE_I_BLOCK_LEN b) = 60" using assms(2) by (simp add: get_bytes_def)
  show ?thesis
    unfolding parse_inode_def Let_def parse_extent_node_def
    by (rule reads_bind [OF parse_node_parsed [OF refl]], rule reads_simple(1))
      (auto simp: parsed_def owner_leaves_def owner_nodes_def inode_root_def l assms(1) intro!: adds_owned)
qed


lemma scan_inodes_owned:
  assumes isz: "isz = unat (sb_inode_size sb)" "100 \<le> isz" and len: "\<forall>i\<in>set xs. (i + 1) * isz \<le> length table"
  shows "reads F (owned sb (f_data (F (bd_fd d))) k
      (map (\<lambda>i. (first + of_nat i, get_bytes (i * isz) isz table))
         (filter (\<lambda>i. inode_allocated ib (of_nat i) \<and> inode_active (get_bytes (i * isz) isz table)) xs)) out)
    (scan_inodes d sb m k gd ib table first xs out)"
  using len
proof (induction xs arbitrary: out)
  case (Cons i xs)
  let ?b = "get_bytes (i * isz) isz table"
  let ?sel = "\<lambda>xs. map (\<lambda>i. (first + of_nat i, get_bytes (i * isz) isz table))
         (filter (\<lambda>i. inode_allocated ib (of_nat i) \<and> inode_active (get_bytes (i * isz) isz table)) xs)"
  have go: "reads F (owned sb (f_data (F (bd_fd d))) k (?sel (i # xs)) out) (scan_inodes d sb m k gd ib table first xs out')"
    if "owned sb (f_data (F (bd_fd d))) k (?sel [i]) out out'" for out'
  proof -
    have app: "?sel (i # xs) = ?sel [i] @ ?sel xs" by simp
    show ?thesis unfolding app by (rule reads_conseq [OF Cons.IH]) (use Cons.prems in simp, erule owned_trans [OF that])
  qed
  have "isz \<le> length table - i * isz" using Cons.prems by (auto simp: le_diff_conv2)
  then have l: "100 \<le> length ?b" using isz(2) by (simp add: get_bytes_def)
  let ?o1 = "out\<lparr>os_inodes_examined := os_inodes_examined out + 1\<rparr>"
  let ?o2 = "?o1\<lparr>os_allocated_inodes := os_allocated_inodes ?o1 + 1\<rparr>"
  let ?o3 = "?o2\<lparr>os_extent_inodes := os_extent_inodes ?o2 + 1\<rparr>"
  have last: "reads F (owned sb (f_data (F (bd_fd d))) k (?sel [i]) out) (parse_inode d sb m k (first + of_nat i) ia ?b ?o3)"
    if "inode_allocated ib (of_nat i)" "inode_active ?b" "inode_extents ?b" for ia
    by (rule reads_conseq [OF parse_inode_owned [OF that(3) l]]) (use that in \<open>simp add: owned_def\<close>)
  show ?case
    unfolding scan_inodes.simps Let_def isz(1) [symmetric]
  proof (intro reads_if, goal_cases)
    case 1
    then show ?case by (intro go) simp
  next
    case 2
    then show ?case by (intro go) (auto simp: inode_active_def)
  next
    case 3
    then show ?case by (intro go) (simp add: owned_def owner_leaves_def owner_nodes_def inode_active_def inode_extents_def)
  next
    case 4
    then have "inode_allocated ib (of_nat i)" "inode_active ?b" "inode_extents ?b"
      by (simp_all add: inode_active_def inode_extents_def)
    then show ?case by (intro reads_bind [OF last] go)
  qed
qed (simp add: reads_intros)

lemma reads_inode_bitmap:
  "reads F (\<lambda>b. b = get_bytes (unat (gd_inode_bitmap gd * block_size sb)) (unat (block_size sb)) (f_data (F (bd_fd d))))
     (read_inode_bitmap d sb gd)"
  unfolding read_inode_bitmap_def read_bitmap_def Let_def
  by (intro reads_intros reads_conseq [OF reads_exact]) auto

lemma group_inode_table_bytes:
  assumes "sb_ok sb"
  shows "unat (group_inode_count sb g * ucast (sb_inode_size sb)) = unat (group_inode_count sb g) * unat (sb_inode_size sb)"
proof -
  have "group_inode_count sb g \<le> ucast (sb_inodes_per_group sb)" by (simp add: group_inode_count_def Let_def)
  then have "unat (group_inode_count sb g) \<le> unat (sb_inodes_per_group sb)" by (simp add: word_le_nat_alt word_nat)
  also have "\<dots> \<le> 524288" using assms by (simp add: sb_ok_def)
  finally have n: "unat (group_inode_count sb g) \<le> 524288" .
  have s: "unat (sb_inode_size sb) \<le> 65536" using assms by (simp add: sb_ok_def)
  have "unat (group_inode_count sb g) * unat (sb_inode_size sb) \<le> 524288 * 65536" using n s by (rule mult_le_mono)
  then show ?thesis by (simp add: unat_mult_le word_nat)
qed

lemma scan_owner_groups_owned:
  assumes ok: "sb_ok sb"
  shows "reads F (owned sb (f_data (F (bd_fd d))) k (concat (map (group_inodes sb (f_data (F (bd_fd d)))) gs)) out)
    (scan_owner_groups d sb m k gs out)"
proof (induction gs arbitrary: out)
  case (Cons g gs)
  let ?D = "f_data (F (bd_fd d))"
  let ?gd = "desc_of sb ?D g" and ?isz = "unat (sb_inode_size sb)" and ?n = "group_inode_count sb g"
  let ?tb = "?n * ucast (sb_inode_size sb)"
  let ?table = "if ?tb \<noteq> 0 then get_bytes (unat (gd_inode_table ?gd * block_size sb)) (unat ?tb) ?D else []"
  have go: "reads F (owned sb ?D k (concat (map (group_inodes sb ?D) (g # gs))) out) (scan_owner_groups d sb m k gs out')"
    if "owned sb ?D k (group_inodes sb ?D g) out out'" for out'
    by (rule reads_conseq [OF Cons]) (use owned_trans [OF that] in simp)
  have rd: "reads F (\<lambda>t. t = ?table \<and> length t = unat ?tb)
      (if ?tb \<noteq> 0 then read_exact d (gd_inode_table ?gd * block_size sb) (unat ?tb) else return_io [])"
    by (intro reads_if reads_simple(1) reads_conseq [OF reads_exact]) auto
  have isz: "100 \<le> ?isz" using ok by (simp add: sb_ok_def)
  have rows: "\<forall>i\<in>set [0..<unat ?n]. (i + 1) * ?isz \<le> length ?table" if "length ?table = unat ?tb"
  proof
    fix i assume "i \<in> set [0..<unat ?n]"
    then have "(i + 1) * ?isz \<le> unat ?n * ?isz" by (intro mult_le_mono1) simp
    then show "(i + 1) * ?isz \<le> length ?table" using that group_inode_table_bytes [OF ok, of g] by simp
  qed
  show ?case
    unfolding scan_owner_groups.simps Let_def
    apply (rule reads_any [OF pure_cancel], rule reads_if, rule reads_simple(2))
    apply (rule reads_bind [OF reads_group_desc], hypsubst, rule reads_if)
     apply (rule go, simp add: group_inodes_def Let_def)
    apply (rule reads_bind [OF reads_inode_bitmap], hypsubst)
    apply (rule reads_if, rule reads_simple(2), rule reads_bind [OF rd], elim conjE, hypsubst)
    apply (rule reads_bind [OF scan_inodes_owned [OF refl isz rows]])
     apply assumption
    apply (rule go, simp add: group_inodes_def Let_def)
    done
qed (simp add: reads_intros)


definition active_inodes :: "superblock \<Rightarrow> bytes \<Rightarrow> (u64 \<times> bytes) list" where
  "active_inodes sb D = concat (map (group_inodes sb D) (group_list sb))"

lemma scan_owners_owned:
  "reads F (\<lambda>out. let sb = parse_superblock (get_bytes 1024 1024 (f_data (F (bd_fd d)))); D = f_data (F (bd_fd d)) in
      \<exists>out0. owned sb D (min k (sb_blocks_count sb)) (active_inodes sb D) empty_scan out0 \<and> out = out0\<lparr>os_extents := srt (os_extents out0)\<rparr>
        \<and> sb_ok sb)
    (scan_extent_owners srt d k)"
proof -
  have m: "(if k > n then n else k) = min k n" for n :: u64 by (auto simp: min_def)
  show ?thesis
    unfolding scan_extent_owners_def Let_def m
    by (rule reads_bind [OF reads_superblock], rule reads_any [OF pure_ext4(9)], intro reads_if reads_simple(2),
        rule reads_bind [OF scan_owner_groups_owned], simp, rule reads_simple(1)) (auto simp: active_inodes_def)
qed

lemma owned_empty:
  assumes "owned sb D k xs empty_scan out"
  shows "map (\<lambda>e. (oe_inode e, view e)) (os_extents out) = filter (\<lambda>x. unat k < leaf_hi (snd x)) (concat (map (owner_leaves sb D) xs))"
    and "map (\<lambda>t. (tb_inode t, tb_physical_block t)) (os_tree_blocks out) = filter (\<lambda>x. k \<le> snd x) (concat (map (owner_nodes sb D) xs))"
    and "os_legacy_blockmap_inodes out = of_nat (length (filter (\<lambda>x. \<not> inode_extents (snd x)) xs))"
    and "x \<in> set (concat (map (owner_leaves sb D) xs)) \<Longrightarrow> leaf_ok (unat (sb_blocks_count sb)) (snd x)"
    and "y \<in> set (concat (map (owner_nodes sb D) xs)) \<Longrightarrow> snd y \<noteq> 0 \<and> snd y < sb_blocks_count sb"
  using assms unfolding owned_def list_all_iff by (simp_all add: empty_scan_def) blast+

lemma scan_owners_bounds:
  assumes "owned sb D k xs empty_scan out0" and "out = out0\<lparr>os_extents := srt (os_extents out0)\<rparr>" and "\<And>xs. mset (srt xs) = mset xs"
  shows "e \<in> set (os_extents out) \<Longrightarrow> oe_physical_block e \<noteq> 0 \<and> oe_length e \<noteq> 0
      \<and> unat (oe_end e) = unat (oe_physical_block e) + unat (oe_length e) \<and> oe_end e \<le> sb_blocks_count sb"
    and "t \<in> set (os_tree_blocks out) \<Longrightarrow> tb_physical_block t \<noteq> 0 \<and> tb_physical_block t < sb_blocks_count sb"
proof -
  let ?n = "sb_blocks_count sb"
  have s: "set (srt xs) = set xs" for xs using assms(3) [of xs] by (metis set_mset_mset)
  show "oe_physical_block e \<noteq> 0 \<and> oe_length e \<noteq> 0 \<and> unat (oe_end e) = unat (oe_physical_block e) + unat (oe_length e) \<and> oe_end e \<le> ?n"
    if "e \<in> set (os_extents out)"
  proof -
    have "(oe_inode e, view e) \<in> set (map (\<lambda>e. (oe_inode e, view e)) (os_extents out0))" using that by (simp add: assms(2) s)
    then have "(oe_inode e, view e) \<in> set (concat (map (owner_leaves sb D) xs))"
      unfolding owned_empty(1) [OF assms(1)] by (rule filter_is_subset [THEN subsetD])
    from owned_empty(4) [OF assms(1) this] have "leaf_ok (unat ?n) (view e)" by simp
    then have l: "oe_physical_block e \<noteq> 0" "oe_length e \<noteq> 0" "unat (oe_physical_block e) + unat (oe_length e) \<le> unat ?n"
      by (simp_all add: leaf_ok_def view_def)
    then have "unat (oe_end e) = unat (oe_physical_block e) + unat (oe_length e)"
      using unat_lt_64 [of ?n] by (simp add: oe_end_def unat_add_le)
    then show ?thesis using l by (simp add: word_le_nat_alt)
  qed
  show "tb_physical_block t \<noteq> 0 \<and> tb_physical_block t < ?n" if "t \<in> set (os_tree_blocks out)"
  proof -
    have "(tb_inode t, tb_physical_block t) \<in> set (map (\<lambda>t. (tb_inode t, tb_physical_block t)) (os_tree_blocks out0))" using that by (simp add: assms(2))
    then have "(tb_inode t, tb_physical_block t) \<in> set (concat (map (owner_nodes sb D) xs))"
      unfolding owned_empty(2) [OF assms(1)] by (rule filter_is_subset [THEN subsetD])
    from owned_empty(5) [OF assms(1) this] show ?thesis by simp
  qed
qed

text \<open>C26. The owner scan is exact: it returns the leaves of the extent trees of all active inodes that reach
  beyond the block it keeps from, each with its inode, and the nodes at or beyond that block; inodes
  without extents are counted, and nothing is written.\<close>

theorem owner_scan_exact:
  assumes "scan_extent_owners srt d k w = (Inr out, w')" and "\<And>xs. mset (srt xs) = mset xs"
  shows "let D = data_of d w; sb = parse_superblock (get_bytes 1024 1024 D); k' = min k (sb_blocks_count sb) in
      mset (map (\<lambda>e. (oe_inode e, view e)) (os_extents out))
        = mset (filter (\<lambda>x. unat k' < leaf_hi (snd x)) (concat (map (owner_leaves sb D) (active_inodes sb D))))
      \<and> map (\<lambda>t. (tb_inode t, tb_physical_block t)) (os_tree_blocks out)
        = filter (\<lambda>x. k' \<le> snd x) (concat (map (owner_nodes sb D) (active_inodes sb D)))
      \<and> os_legacy_blockmap_inodes out = of_nat (length (filter (\<lambda>x. \<not> inode_extents (snd x)) (active_inodes sb D)))
      \<and> w_files w' = w_files w"
proof -
  from readsD [OF scan_owners_owned refl assms(1)] obtain out0 where
    o: "owned (parse_superblock (get_bytes 1024 1024 (data_of d w))) (data_of d w)
          (min k (sb_blocks_count (parse_superblock (get_bytes 1024 1024 (data_of d w)))))
          (active_inodes (parse_superblock (get_bytes 1024 1024 (data_of d w))) (data_of d w)) empty_scan out0"
    and out: "out = out0\<lparr>os_extents := srt (os_extents out0)\<rparr>" and w: "w_files w' = w_files w"
    by (auto simp: Let_def)
  have "mset (map (\<lambda>e. (oe_inode e, view e)) (os_extents out)) = mset (map (\<lambda>e. (oe_inode e, view e)) (os_extents out0))"
    using assms(2) by (simp add: out mset_map)
  then have "mset (map (\<lambda>e. (oe_inode e, view e)) (os_extents out))
      = mset (filter (\<lambda>x. unat (min k (sb_blocks_count (parse_superblock (get_bytes 1024 1024 (data_of d w))))) < leaf_hi (snd x))
          (concat (map (owner_leaves (parse_superblock (get_bytes 1024 1024 (data_of d w))) (data_of d w))
            (active_inodes (parse_superblock (get_bytes 1024 1024 (data_of d w))) (data_of d w)))))"
    by (simp only: owned_empty(1) [OF o])
  moreover have "os_tree_blocks out = os_tree_blocks out0" "os_legacy_blockmap_inodes out = os_legacy_blockmap_inodes out0"
    by (simp_all add: out)
  ultimately show ?thesis
    unfolding Let_def using owned_empty(2,3) [OF o] w by presburger
qed

text \<open>C27. Every extent and every tree block that the scan returns lies inside the filesystem and after block 0,
  no extent is empty, and no end wraps around.\<close>

theorem owner_scan_in_bounds:
  assumes "scan_extent_owners srt d k w = (Inr out, w')" and "\<And>xs. mset (srt xs) = mset xs"
  shows "let n = sb_blocks_count (parse_superblock (get_bytes 1024 1024 (data_of d w))) in
      list_all (\<lambda>e. oe_physical_block e \<noteq> 0 \<and> oe_length e \<noteq> 0 \<and> unat (oe_end e) = unat (oe_physical_block e) + unat (oe_length e)
        \<and> oe_end e \<le> n) (os_extents out)
      \<and> list_all (\<lambda>t. tb_physical_block t \<noteq> 0 \<and> tb_physical_block t < n) (os_tree_blocks out)"
proof -
  let ?D = "data_of d w"
  let ?sb = "parse_superblock (get_bytes 1024 1024 ?D)"
  from readsD [OF scan_owners_owned refl assms(1)] obtain out0 where
    o: "owned ?sb ?D (min k (sb_blocks_count ?sb)) (active_inodes ?sb ?D) empty_scan out0" and out: "out = out0\<lparr>os_extents := srt (os_extents out0)\<rparr>"
    by (auto simp: Let_def)
  from scan_owners_bounds [OF o out assms(2)] show ?thesis by (simp add: Let_def list_all_iff)
qed


section \<open>Sample\<close>

text \<open>A filesystem with one file: inode 1 owns the blocks 10 and 11.\<close>

definition sample_root :: bytes where
  "sample_root = write_le32 (write_le16 (write_le16 (write_le16 (write_le16 (replicate 60 0) 0 0xf30a) 2 1) 4 4) 16 2) 20 10"

definition sample_inode :: bytes where
  "sample_inode = put_bytes 40 sample_root (write_le32 (write_le16 (write_le16 (replicate 128 0) 0 1) 26 1) 32 0x80000)"

definition owner_image :: bytes where
  "owner_image = put_bytes 5120 sample_inode (put_bytes 4096 [1] (put_bytes 3072 [0x1f, 6] sample_ext4))"

definition owner_world :: world where
  "owner_world = sample_world owner_image []"

lemma sample_root_fields:
  "read_le16 sample_root 0 = 0xf30a" "read_le16 sample_root 2 = 1" "read_le16 sample_root 4 = 4" "read_le16 sample_root 6 = 0"
  "read_le32 sample_root 12 = 0" "read_le16 sample_root 16 = 2" "read_le16 sample_root 18 = 0" "read_le32 sample_root 20 = 10"
  "length sample_root = 60"
  by (simp_all add: sample_root_def buf_simps)

lemma sample_inode_fields:
  "read_le16 sample_inode 0 = 1" "read_le16 sample_inode 26 = 1" "read_le32 sample_inode 32 = 0x80000"
  "get_bytes 40 60 sample_inode = sample_root" "length sample_inode = 128"
  by (simp_all add: sample_inode_def buf_simps sample_root_fields)

lemma owner_image_parts:
  "length owner_image = 65536" "get_bytes 1024 1024 owner_image = sample_super" "get_bytes 2048 32 owner_image = sample_desc"
  "get_bytes 3072 1024 owner_image = [0x1f, 6] @ replicate 1022 0"
  "get_bytes 4096 1024 owner_image = 1 # replicate 1023 0" "get_bytes 5120 1024 owner_image = sample_inode @ replicate 896 0"
proof -
  show "length owner_image = 65536" "get_bytes 1024 1024 owner_image = sample_super" "get_bytes 2048 32 owner_image = sample_desc"
    by (simp_all add: owner_image_def buf_simps sample_image sample_inode_fields)
  have z: "get_bytes k n sample_ext4 = replicate n 0" if "2080 \<le> k" "k + n \<le> 65536" for k n
  proof -
    have "get_bytes k n sample_ext4 = get_bytes k n (replicate 65536 0)"
      using that by (simp add: sample_ext4_def buf_simps sample_super_fields sample_desc_fields)
    then show ?thesis using that by (simp add: get_bytes_def)
  qed
  have sub: "get_bytes k n (put_bytes k b D) = b @ get_bytes (k + length b) (n - length b) D"
    if "length b \<le> n" "k + n \<le> length D" for k n b and D :: bytes
    using that by (auto simp: put_bytes_def get_bytes_def)
  show "get_bytes 3072 1024 owner_image = [0x1f, 6] @ replicate 1022 0"
    "get_bytes 4096 1024 owner_image = 1 # replicate 1023 0" "get_bytes 5120 1024 owner_image = sample_inode @ replicate 896 0"
    by (simp_all add: owner_image_def buf_simps sample_image sample_inode_fields sub z)
qed


lemma owner_world_facts:
  "calm owner_world" "on_file (sample_device 65536) owner_world" "f_data (w_files owner_world f) = owner_image"
  "w_cancel owner_world = []"
  by (simp_all add: owner_world_def sample_world_def sample_device_def calm_def fault_enabled_def on_file_def off_t_max_def owner_image_parts)

lemma owner_read:
  "unat off + n \<le> 65536 \<Longrightarrow>
     read_exact (sample_device 65536) off n owner_world = (Inr (get_bytes (unat off) n owner_image), owner_world)"
  using read_exact_calm [OF owner_world_facts(1,2), of off n] by (simp add: owner_world_facts ext4_world_facts owner_image_parts)

lemma owner_reads:
  defines "gd \<equiv> parse_group_desc sample_sb 32 sample_desc"
  shows "read_superblock (sample_device 65536) owner_world = (Inr sample_sb, owner_world)"
    "\<exists>ctx. load_metadata_context (sample_device 65536) False owner_world = (Inr ctx, owner_world) \<and> \<not> mc_metadata_csum ctx"
    "read_group_desc (sample_device 65536) sample_sb 0 owner_world = (Inr gd, owner_world)"
    "read_inode_bitmap (sample_device 65536) sample_sb gd owner_world = (Inr (1 # replicate 1023 0), owner_world)"
    "gd_flags gd = 0" "gd_block_bitmap gd = 3" "gd_inode_bitmap gd = 4" "gd_inode_table gd = 5"
proof -
  show sb: "read_superblock (sample_device 65536) owner_world = (Inr sample_sb, owner_world)"
    using sample_check owner_read [of 1024 1024]
    by (simp add: read_superblock_def bind_io_def ext4_world_facts sample_sb_def owner_image_parts)
  show "\<exists>ctx. load_metadata_context (sample_device 65536) False owner_world = (Inr ctx, owner_world) \<and> \<not> mc_metadata_csum ctx"
    using owner_read [of 1024 1024] by (simp add: load_metadata_context_def bind_io_def sb sample_sb_fields read_raw_superblock_def)
  show g: "gd_block_bitmap gd = 3" "gd_inode_bitmap gd = 4" "gd_inode_table gd = 5"
    by (simp_all add: gd_def parse_group_desc_def with_hi_def sample_desc_fields Let_def sample_sb_fields)
  show "gd_flags gd = 0" by (simp add: gd_def parse_group_desc_def Let_def) (simp add: sample_desc_def buf_simps)
  have "check_group_desc sample_sb gd = Inr ()"
    using g by (simp add: check_group_desc_def sample_sb_fields inode_table_blocks_def word_le_nat_alt word_less_nat_alt)
  then show "read_group_desc (sample_device 65536) sample_sb 0 owner_world = (Inr gd, owner_world)"
    using owner_read [of 2048 32] by (simp add: read_group_desc_def sample_sb_fields sample_groups bind_io_def word_le_nat_alt
        word_less_nat_alt unat_div unsigned_minus_1_eq_mask mask_eq_exp_minus_1 gd_def owner_image_parts)
  show "read_inode_bitmap (sample_device 65536) sample_sb gd owner_world = (Inr (1 # replicate 1023 0), owner_world)"
    using owner_read [of 4096 1024]
    by (simp add: read_inode_bitmap_def read_bitmap_def g sample_sb_fields owner_image_parts word_le_nat_alt
        word_less_nat_alt unat_div unsigned_minus_1_eq_mask mask_eq_exp_minus_1)
qed

definition sample_extent :: owned_extent where
  "sample_extent = \<lparr>oe_inode = 1, oe_logical_block = 0, oe_physical_block = 10, oe_length = 2, oe_inode_generation = 0, oe_unwritten = False,
     oe_reference = \<lparr>er_kind = Inode_root, er_container_byte_offset = 5160, er_container_block = 0, er_entry_offset = 12, er_tree_depth = 0\<rparr>\<rparr>"

lemma sample_generation: "read_le32 sample_inode 100 = 0"
  by (simp add: sample_inode_def buf_simps sample_root_fields)

lemma sample_parse:
  assumes "\<not> mc_metadata_csum m" and "k < 12"
  shows "\<exists>out'. parse_inode d sample_sb m k 1 5120 sample_inode out w = (Inr out', w) \<and> os_extents out' = os_extents out @ [sample_extent]
    \<and> os_tree_blocks out' = os_tree_blocks out \<and> os_legacy_blockmap_inodes out' = os_legacy_blockmap_inodes out
    \<and> os_corrupt_inodes out' = os_corrupt_inodes out"
proof -
  let ?c = "\<lparr>pc_dev = d, pc_sb = sample_sb, pc_inode = 1, pc_generation = 0, pc_retain_from = k, pc_metadata = Some m\<rparr>"
  have n: "check_node ?c sample_root 0 Inode_root = Inr 1"
    by (simp add: check_node_def Let_def sample_root_fields EXTENT_MAGIC_def)
  have l: "leaf_raw_len sample_root 0 = 2" "leaf_len sample_root 0 = 2" "leaf_physical sample_root 0 = 10" "leaf_logical sample_root 0 = 0"
      "\<not> leaf_unwritten sample_root 0"
    by (simp_all add: leaf_raw_len_def leaf_len_def leaf_physical_def leaf_logical_def leaf_unwritten_def entry_offset_def sample_root_fields
        word_less_nat_alt)
  show ?thesis
    using assms(2)
    by (simp add: parse_inode_def parse_extent_node_def sample_inode_fields sample_generation sample_root_fields n Let_def bind_io_def l
        sample_sb_fields word_le_nat_alt word_less_nat_alt sample_extent_def entry_offset_def)
qed

lemma owner_scan_run:
  assumes "k < 12"
  shows "\<exists>out. scan_extent_owners (\<lambda>xs. xs) (sample_device 65536) k owner_world = (Inr out, owner_world)
    \<and> os_extents out = [sample_extent] \<and> os_tree_blocks out = [] \<and> os_legacy_blockmap_inodes out = 0 \<and> os_corrupt_inodes out = 0"
proof -
  obtain ctx where ctx: "load_metadata_context (sample_device 65536) False owner_world = (Inr ctx, owner_world)" "\<not> mc_metadata_csum ctx"
    using owner_reads(2) by blast
  have bits: "inode_allocated (1 # replicate 1023 0) (of_nat i) = (i = 0)" if "i < 8" for i
  proof -
    have "i \<in> set [0, 1, 2, 3, 4, 5, 6, 7]" using that by auto
    then show ?thesis by (auto simp: inode_allocated_def bit_set_def Let_def)
  qed
  have n: "group_inode_count sample_sb 0 = 8" "first_inode sample_sb 0 = 1"
    by (simp_all add: group_inode_count_def first_inode_def sample_sb_fields Let_def)
  let ?o = "empty_scan\<lparr>os_inodes_examined := 1, os_allocated_inodes := 1, os_extent_inodes := 1\<rparr>"
  obtain o1 where o1: "parse_inode (sample_device 65536) sample_sb ctx k 1 5120 sample_inode ?o owner_world = (Inr o1, owner_world)"
    "os_extents o1 = [sample_extent]" "os_tree_blocks o1 = []" "os_legacy_blockmap_inodes o1 = 0" "os_corrupt_inodes o1 = 0"
    using sample_parse [OF ctx(2) assms, of "sample_device 65536" ?o owner_world] by (auto simp: empty_scan_def)
  have first: "get_bytes 0 128 (sample_inode @ replicate 896 0) = sample_inode" by (simp add: get_bytes_def sample_inode_fields)
  have rest: "\<exists>o2. scan_inodes d sample_sb m kk gd (1 # replicate 1023 0) tb f is out w = (Inr o2, w) \<and> os_extents o2 = os_extents out
      \<and> os_tree_blocks o2 = os_tree_blocks out \<and> os_legacy_blockmap_inodes o2 = os_legacy_blockmap_inodes out \<and> os_corrupt_inodes o2 = os_corrupt_inodes out"
    if "set is \<subseteq> {1..<8}" for d m kk gd tb f "is" out w
    using that
  proof (induction "is" arbitrary: out)
    case (Cons i "is")
    then show ?case using Cons.IH [of "out\<lparr>os_inodes_examined := os_inodes_examined out + 1\<rparr>"] by (auto simp: bits Let_def)
  qed simp
  obtain o2 where o2: "scan_inodes (sample_device 65536) sample_sb ctx k (parse_group_desc sample_sb 32 sample_desc) (1 # replicate 1023 0)
      (sample_inode @ replicate 896 0) 1 [1..<8] o1 owner_world = (Inr o2, owner_world)" "os_extents o2 = [sample_extent]" "os_tree_blocks o2 = []"
      "os_legacy_blockmap_inodes o2 = 0" "os_corrupt_inodes o2 = 0"
    using rest [of "[1..<8]" "sample_device 65536" ctx k _ _ 1 o1 owner_world] o1 by auto
  have up: "[0..<8] = 0 # [1..<8]" by (simp add: upt_conv_Cons)
  have scan: "scan_inodes (sample_device 65536) sample_sb ctx k (parse_group_desc sample_sb 32 sample_desc) (1 # replicate 1023 0)
      (sample_inode @ replicate 896 0) 1 [0..<8] empty_scan owner_world = (Inr o2, owner_world)"
    unfolding up using o1(1) o2(1) bits [of 0]
    by (simp add: Let_def sample_sb_fields first sample_inode_fields EXT4_EXTENTS_FL_def bind_io_def owner_reads(8) empty_scan_def)
  have gl: "group_list sample_sb = [0]" by (simp add: group_list_def sample_groups)
  have cancel: "cancellation_requested owner_world = (Inr False, owner_world)" by (simp add: cancellation_requested_def owner_world_facts)
  have tb: "read_exact (sample_device 65536) 5120 1024 owner_world = (Inr (sample_inode @ replicate 896 0), owner_world)"
    using owner_read [of 5120 1024] by (simp add: owner_image_parts)
  have k: "\<not> 64 < unat k" using assms by (simp add: word_less_nat_alt)
  show ?thesis
    using o2(2-5) k
    by (simp add: scan_extent_owners_def bind_io_def owner_reads ctx(1) sample_sb_fields gl cancel n tb scan word_le_nat_alt word_less_nat_alt
        unsigned_minus_1_eq_mask mask_eq_exp_minus_1)
qed

theorem owner_scan_exact_witness:
  "\<exists>out. scan_extent_owners (\<lambda>xs. xs) (sample_device 65536) 8 owner_world = (Inr out, owner_world) \<and> os_extents out = [sample_extent]
     \<and> (1, view sample_extent) \<in> set (concat (map (owner_leaves sample_sb owner_image) (active_inodes sample_sb owner_image)))"
proof -
  obtain out where o: "scan_extent_owners (\<lambda>xs. xs) (sample_device 65536) 8 owner_world = (Inr out, owner_world)" "os_extents out = [sample_extent]"
    using owner_scan_run [of 8] by auto
  have "mset [(1, view sample_extent)] = mset (filter (\<lambda>x. 8 < leaf_hi (snd x))
      (concat (map (owner_leaves sample_sb owner_image) (active_inodes sample_sb owner_image))))"
    using owner_scan_exact [OF o(1)] o(2)
    by (simp add: Let_def owner_world_facts owner_image_parts sample_sb_def [symmetric] sample_sb_fields min_def word_le_nat_alt)
      (simp add: sample_extent_def)
  then have "(1, view sample_extent) \<in> set (filter (\<lambda>x. 8 < leaf_hi (snd x))
      (concat (map (owner_leaves sample_sb owner_image) (active_inodes sample_sb owner_image))))"
    by (metis list.set_intros(1) set_mset_mset)
  then show ?thesis using o by simp
qed

theorem owner_scan_in_bounds_witness:
  "\<exists>out. scan_extent_owners (\<lambda>xs. xs) (sample_device 65536) 8 owner_world = (Inr out, owner_world)
     \<and> list_all (\<lambda>e. oe_end e \<le> 64) (os_extents out) \<and> os_extents out \<noteq> []"
proof -
  obtain out where o: "scan_extent_owners (\<lambda>xs. xs) (sample_device 65536) 8 owner_world = (Inr out, owner_world)" "os_extents out = [sample_extent]"
    using owner_scan_run [of 8] by auto
  from owner_scan_in_bounds [OF o(1)] o show ?thesis
    by (simp add: Let_def owner_world_facts owner_image_parts sample_sb_def [symmetric] sample_sb_fields)
qed

end
