(* ===== verification/Fsx_Relocate_Laws.thy ===== *)
theory Fsx_Relocate_Laws
  imports Fsx_Relocate Fsx_Extents_Laws
begin

text \<open>
  What the relocation planner promises: best fit finds the tightest slot, the overlap test decides disjointness of the
  owners, and a plan moves disjoint sources to disjoint free blocks below the target.
\<close>

section \<open>Best fit\<close>

definition fits :: "u64 \<Rightarrow> block_extent \<Rightarrow> bool" where
  "fits len s \<longleftrightarrow> len \<le> be_length s"

text \<open>The slot that the loop ends with: it fits, none that fits is smaller, and it is the first of its size.\<close>

definition best_slot :: "block_extent list \<Rightarrow> u64 \<Rightarrow> nat \<Rightarrow> bool" where
  "best_slot ss len i \<longleftrightarrow> i < length ss \<and> fits len (ss ! i)
     \<and> (\<forall>j<length ss. fits len (ss ! j) \<longrightarrow> be_length (ss ! i) \<le> be_length (ss ! j))
     \<and> (\<forall>j<i. fits len (ss ! j) \<longrightarrow> be_length (ss ! i) < be_length (ss ! j))"

lemma best_slot_Cons:
  "best_slot ss len i \<Longrightarrow> \<not> fits len s \<or> be_length (ss ! i) < be_length s \<Longrightarrow> best_slot (s # ss) len (Suc i)"
  by (auto simp: best_slot_def less_Suc_eq_0_disj nth_Cons split: nat.splits)

lemma best_slot_0: "fits len s \<Longrightarrow> (\<And>t. t \<in> set ss \<Longrightarrow> fits len t \<Longrightarrow> be_length s \<le> be_length t) \<Longrightarrow> best_slot (s # ss) len 0"
  by (auto simp: best_slot_def nth_Cons split: nat.splits)

lemma waste_less: "len \<le> (a :: u64) \<Longrightarrow> len \<le> b \<Longrightarrow> a - len < b - len \<longleftrightarrow> a < b"
  by (simp add: word_less_nat_alt word_le_nat_alt unat_sub_le less_diff_iff)

lemma best_fit_spec:
  "(best_fit ss len i best waste = best \<and> (\<forall>s\<in>set ss. fits len s \<longrightarrow> waste \<le> be_length s - len))
    \<or> (\<exists>j. best_fit ss len i best waste = Some (i + j) \<and> best_slot ss len j \<and> be_length (ss ! j) - len < waste)"
proof (induction ss arbitrary: i best waste)
  case (Cons s ss)
  let ?w = "be_length s - len"
  consider "\<not> fits len s" | "fits len s" "?w < waste" "?w = 0" | "fits len s" "?w < waste" "?w \<noteq> 0" | "fits len s" "\<not> ?w < waste" by blast
  then show ?case
  proof cases
    case 1
    then show ?thesis using Cons [of "Suc i" best waste] best_slot_Cons [of ss len _ s]
      by (fastforce simp: fits_def not_le)
  next
    case 2
    then have "best_slot (s # ss) len 0" by (intro best_slot_0) (auto simp: fits_def)
    then show ?thesis using 2 by (auto simp: fits_def not_less)
  next
    case 3
    have e: "best_fit (s # ss) len i best waste = best_fit ss len (Suc i) (Some i) ?w" using 3 by (auto simp: fits_def not_less)
    from Cons [of "Suc i" "Some i" ?w] show ?thesis
    proof (elim disjE conjE exE)
      assume a: "best_fit ss len (Suc i) (Some i) ?w = Some i" "\<forall>t\<in>set ss. fits len t \<longrightarrow> ?w \<le> be_length t - len"
      have "best_slot (s # ss) len 0"
        by (rule best_slot_0 [OF 3(1)]) (use a(2) 3(1) waste_less [of len] in \<open>force simp: fits_def simp flip: not_less\<close>)
      then show ?thesis using a(1) e 3(2) by (intro disjI2 exI [of _ 0]) simp
    next
      fix j assume b: "best_fit ss len (Suc i) (Some i) ?w = Some (Suc i + j)" "best_slot ss len j" "be_length (ss ! j) - len < ?w"
      have "be_length (ss ! j) < be_length s" using b(2,3) 3(1) waste_less [of len] by (simp add: best_slot_def fits_def)
      then show ?thesis using b(1) e best_slot_Cons [OF b(2)] b(3) 3(2) by (intro disjI2 exI [of _ "Suc j"]) auto
    qed
  next
    case 4
    have e: "best_fit (s # ss) len i best waste = best_fit ss len (Suc i) best waste" using 4 by (auto simp: fits_def not_less Let_def)
    from Cons [of "Suc i" best waste] show ?thesis
    proof (elim disjE conjE exE)
      fix j assume b: "best_fit ss len (Suc i) best waste = Some (Suc i + j)" "best_slot ss len j" "be_length (ss ! j) - len < waste"
      have "be_length (ss ! j) - len < ?w" using b(3) 4(2) by simp
      then have "be_length (ss ! j) < be_length s" using b(2) 4(1) waste_less [of len] by (simp add: best_slot_def fits_def)
      then show ?thesis using b(1) e best_slot_Cons [OF b(2)] b(3) by (intro disjI2 exI [of _ "Suc j"]) auto
    qed (use 4 e in auto)
  qed
qed simp

lemma best_fit_None: "len \<noteq> 0 \<Longrightarrow> best_fit ss len 0 None u64_max = None \<longleftrightarrow> (\<forall>s\<in>set ss. \<not> fits len s)"
  and best_fit_Some: "best_fit ss len 0 None u64_max = Some i \<Longrightarrow> best_slot ss len i"
proof -
  assume len: "len \<noteq> 0"
  have big: "\<not> u64_max \<le> be_length s - len" if "fits len s" for s
  proof -
    have "unat (be_length s - len) = unat (be_length s) - unat len" using that by (simp add: fits_def unat_sub_le)
    moreover have "0 < unat len" using len by (simp add: unat_gt_0)
    ultimately show ?thesis using unat_lt_64 [of "be_length s"] by (simp add: word_le_nat_alt unsigned_minus_1_eq_mask mask_eq_exp_minus_1)
  qed
  show "best_fit ss len 0 None u64_max = None \<longleftrightarrow> (\<forall>s\<in>set ss. \<not> fits len s)"
    using best_fit_spec [of ss len 0 None u64_max] big by (auto simp: best_slot_def)
next
  show "best_fit ss len 0 None u64_max = Some i \<Longrightarrow> best_slot ss len i"
    using best_fit_spec [of ss len 0 None u64_max] by auto
qed


text \<open>The blocks of the slots are the range that is handed out and what is left.\<close>

definition below :: "nat \<Rightarrow> block_extent list \<Rightarrow> bool" where
  "below N slots \<longleftrightarrow> (\<forall>s\<in>set slots. ext_hi s \<le> N)"

lemma split_extent:
  assumes "len \<le> be_length s" and "ext_hi s < 2 ^ 64"
  shows "eblocks s = [unat (be_start s)..<unat (be_start s) + unat len] @ eblocks (extent (be_start s + len) (be_length s - len))"
    and "ext_hi (extent (be_start s + len) (be_length s - len)) = ext_hi s"
proof -
  have l: "unat len \<le> unat (be_length s)" "unat (be_length s - len) = unat (be_length s) - unat len"
    using assms(1) by (simp_all add: word_le_nat_alt unat_sub_le)
  have "unat (be_start s + len) = unat (be_start s) + unat len" using assms(2) l(1) by (simp add: ext_hi_def unat_add_le)
  then show "ext_hi (extent (be_start s + len) (be_length s - len)) = ext_hi s"
    "eblocks s = [unat (be_start s)..<unat (be_start s) + unat len] @ eblocks (extent (be_start s + len) (be_length s - len))"
    using l upt_add_eq_append [of "unat (be_start s)" "unat (be_start s) + unat len" "unat (be_length s) - unat len"]
    by (simp_all add: ext_hi_def eblocks_def)
qed

lemma allocate_best_fit_blocks:
  assumes "allocate_best_fit slots len = Some (dest, slots')" and "below N slots" and "N < 2 ^ 64"
  shows "mset (blocks_of slots) = mset [unat dest..<unat dest + unat len] + mset (blocks_of slots')" and "below N slots'"
proof -
  from assms(1) obtain i where i: "best_fit slots len 0 None u64_max = Some i" and d: "dest = be_start (slots ! i)"
    and s': "slots' = (let s' = extent (be_start (slots ! i) + len) (be_length (slots ! i) - len)
        in if be_length s' = 0 then take i slots @ drop (Suc i) slots else slots[i := s'])"
    by (auto simp: allocate_best_fit_def Let_def split: option.splits)
  have b: "i < length slots" "len \<le> be_length (slots ! i)" using best_fit_Some [OF i] by (simp_all add: best_slot_def fits_def)
  define s where "s = slots ! i"
  have s: "slots = take i slots @ s # drop (Suc i) slots" using b(1) by (simp add: s_def id_take_nth_drop [symmetric])
  have hi: "ext_hi s \<le> N" using assms(2) b(1) by (simp add: below_def s_def)
  note sp = split_extent [OF b(2) [folded s_def] le_less_trans [OF hi assms(3)]]
  have z: "eblocks (extent x 0) = []" for x by (simp add: eblocks_def)
  have e: "blocks_of slots' = blocks_of (take i slots) @ eblocks (extent (be_start s + len) (be_length s - len)) @ blocks_of (drop (Suc i) slots)"
    using b(1) by (simp add: s' s_def [symmetric] Let_def z upd_conv_take_nth_drop)
  have "mset (blocks_of slots) = mset (blocks_of (take i slots)) + mset (eblocks s) + mset (blocks_of (drop (Suc i) slots))"
    by (subst s) simp
  then show "mset (blocks_of slots) = mset [unat dest..<unat dest + unat len] + mset (blocks_of slots')"
    by (simp add: e sp(1) d s_def [symmetric])
  have "t \<in> set slots \<or> t = extent (be_start s + len) (be_length s - len)" if "t \<in> set slots'" for t
    using that by (auto simp: s' s_def [symmetric] Let_def dest: in_set_takeD in_set_dropD set_update_subset_insert [THEN subsetD] split: if_splits)
  then show "below N slots'" using assms(2) sp(2) hi unfolding below_def by metis
qed

section \<open>Placing\<close>

definition dest_blocks :: "owner_move \<Rightarrow> nat list" where
  "dest_blocks m = [unat (om_destination_block m)..<unat (om_destination_block m) + unat (om_block_count m)]"

definition source_blocks :: "owner_move \<Rightarrow> nat list" where
  "source_blocks m = [unat (om_source_block m)..<unat (om_source_block m) + unat (om_block_count m)]"

text \<open>What the loops need of the moves they build.\<close>

locale item_placing =
  fixes len :: "'a \<Rightarrow> u64" and mk :: "'a \<Rightarrow> u64 \<Rightarrow> u64 \<Rightarrow> owner_move" and source :: "owner_move \<Rightarrow> 'b" and owner :: "'a \<Rightarrow> 'b"
  assumes mk_fields: "om_destination_block (mk x t d) = d" "om_block_count (mk x t d) = len x" "om_transaction_id (mk x t d) = t"
    and mk_source: "source (mk x t d) = owner x"
begin

lemma place_blocks:
  assumes "place_items len mk xs slots txn = (ms, slots', txn', ok)" and "below N slots" and "N < 2 ^ 64"
  shows "mset (blocks_of slots) = mset (concat (map dest_blocks ms)) + mset (blocks_of slots') \<and> below N slots'"
  using assms(1,2)
proof (induction xs arbitrary: slots txn ms)
  case (Cons x xs)
  show ?case
  proof (cases "allocate_best_fit slots (len x)")
    case (Some a)
    obtain dest slots1 where a: "allocate_best_fit slots (len x) = Some (dest, slots1)" using Some by (cases a) simp
    obtain ms' where r: "place_items len mk xs slots1 (txn + 1) = (ms', slots', txn', ok)" "ms = mk x txn dest # ms'"
      using Cons.prems(1) a by (auto split: prod.splits)
    note b = allocate_best_fit_blocks [OF a Cons.prems(2) assms(3)]
    show ?thesis using Cons.IH [OF r(1) b(2)] b(1) r(2) by (simp add: dest_blocks_def mk_fields)
  qed (use Cons.prems in auto)
qed simp

lemma place_moves:
  assumes "place_items len mk xs slots txn = (ms, slots', txn', ok)"
  shows "map source ms = map owner (take (length ms) xs) \<and> length ms \<le> length xs \<and> (ok \<longleftrightarrow> length ms = length xs)
    \<and> map om_transaction_id ms = map (\<lambda>i. txn + of_nat i) [0..<length ms] \<and> txn' = txn + of_nat (length ms)"
  using assms
proof (induction xs arbitrary: slots txn ms)
  case (Cons x xs)
  show ?case
  proof (cases "allocate_best_fit slots (len x)")
    case (Some a)
    obtain dest slots1 ms' where r: "place_items len mk xs slots1 (txn + 1) = (ms', slots', txn', ok)" "ms = mk x txn dest # ms'"
      using Cons.prems Some by (cases a) (auto split: prod.splits)
    have up: "[0..<Suc n] = 0 # map Suc [0..<n]" for n using upt_conv_Cons [of 0 "Suc n"] by (simp add: map_Suc_upt del: upt_Suc)
    show ?thesis using Cons.IH [OF r(1)] by (simp add: r(2) mk_source mk_fields up comp_def add.assoc del: upt_Suc)
  qed (use Cons.prems in auto)
qed simp

end


text \<open>What a move stands for: the owner of the blocks and where they are.\<close>

type_synonym owner_key = "relocation_kind \<times> u64 \<times> u64 \<times> u64 \<times> u64 \<times> bool"

definition move_source :: "owner_move \<Rightarrow> owner_key" where
  "move_source m = (om_kind m, om_inode m, om_logical_block m, om_source_block m, om_block_count m, om_unwritten m)"

definition leaf_owner :: "u64 \<times> leaf \<Rightarrow> owner_key" where
  "leaf_owner x = (case x of (ino, l, p, n, u) \<Rightarrow> (Data_extent, ino, l, p, n, u))"

definition node_owner :: "u64 \<times> u64 \<Rightarrow> owner_key" where
  "node_owner x = (Extent_tree_block, fst x, 0, snd x, 1, False)"

definition key_blocks :: "owner_key \<Rightarrow> nat list" where
  "key_blocks x = (case x of (_, _, _, p, n, _) \<Rightarrow> [unat p..<unat p + unat n])"

lemma source_blocks_key: "source_blocks m = key_blocks (move_source m)"
  by (simp add: source_blocks_def key_blocks_def move_source_def)

interpretation data: item_placing oe_length data_move move_source "\<lambda>e. leaf_owner (oe_inode e, view e)"
  by unfold_locales (simp_all add: data_move_def move_source_def leaf_owner_def view_def)

interpretation tree: item_placing "\<lambda>_. 1" tree_move move_source "\<lambda>t. node_owner (tb_inode t, tb_physical_block t)"
  by unfold_locales (simp_all add: tree_move_def move_source_def node_owner_def)

lemma place_owners_spec:
  assumes run: "place_owners data trees free = (ms, ts, ok)" and free: "below N free" "N < 2 ^ 64"
  shows "mset (concat (map dest_blocks (ms @ ts))) \<subseteq># mset (blocks_of free)"
    and "mset (map move_source (ms @ ts)) \<subseteq># mset (map (\<lambda>e. leaf_owner (oe_inode e, view e)) data
        @ map (\<lambda>t. node_owner (tb_inode t, tb_physical_block t)) trees)"
    and "ok \<longleftrightarrow> length (ms @ ts) = length data + length trees"
    and "map om_transaction_id (ms @ ts) = map (\<lambda>i. of_nat (Suc i)) [0..<length (ms @ ts)]"
proof -
  obtain ms0 slots txn ok0 where d: "place_items oe_length data_move data free 1 = (ms0, slots, txn, ok0)" by (metis prod_cases4)
  obtain ts0 slots1 txn1 ok1 where t: "place_items (\<lambda>_. 1) tree_move trees slots txn = (ts0, slots1, txn1, ok1)" by (metis prod_cases4)
  have r: "ms = ms0" "ts = (if ok0 then ts0 else [])" "ok = (ok0 \<and> ok1)" using run d t by (auto simp: place_owners_def split: if_splits)
  note db = data.place_blocks [OF d free] and dm = data.place_moves [OF d]
  have tb: "mset (blocks_of slots) = mset (concat (map dest_blocks ts0)) + mset (blocks_of slots1)"
    using tree.place_blocks [OF t conjunct2 [OF db] free(2)] by simp
  note tm = tree.place_moves [OF t]
  show "mset (concat (map dest_blocks (ms @ ts))) \<subseteq># mset (blocks_of free)" using db tb by (simp add: r)
  have sub: "mset (map f (take n xs)) \<subseteq># mset (map f xs)" for f :: "'c \<Rightarrow> owner_key" and n xs
    by (metis mset_subset_eq_add_left append_take_drop_id map_append mset_append)
  have ms: "mset (map move_source ms) \<subseteq># mset (map (\<lambda>e. leaf_owner (oe_inode e, view e)) data)"
    unfolding r(1) conjunct1 [OF dm] by (rule sub)
  have ts: "mset (map move_source ts) \<subseteq># mset (map (\<lambda>t. node_owner (tb_inode t, tb_physical_block t)) trees)"
  proof (cases ok0)
    case True
    have "ts = ts0" using r(2) True by simp
    then show ?thesis by (simp only: conjunct1 [OF tm] sub)
  qed (simp add: r)
  show "mset (map move_source (ms @ ts)) \<subseteq># mset (map (\<lambda>e. leaf_owner (oe_inode e, view e)) data
        @ map (\<lambda>t. node_owner (tb_inode t, tb_physical_block t)) trees)"
    using subset_mset.add_mono [OF ms ts] by simp
  show "ok \<longleftrightarrow> length (ms @ ts) = length data + length trees" using dm tm by (auto simp: r)
  have up: "map (\<lambda>i. 1 + of_nat i) [0..<m + n] = map (\<lambda>i. 1 + of_nat i) [0..<m] @ map (\<lambda>i. 1 + (of_nat m + of_nat i) :: u64) [0..<n]" for m n
    by (induction n) (simp_all add: add.assoc)
  show "map om_transaction_id (ms @ ts) = map (\<lambda>i. of_nat (Suc i)) [0..<length (ms @ ts)]"
    using dm tm by (simp add: r up add.assoc)
qed

section \<open>Disjoint owners\<close>

text \<open>Half-open ranges in lexicographic order.\<close>

type_synonym owner_range = "u64 \<times> u64 \<times> u64 \<times> bool"

definition ends_before :: "owner_range \<Rightarrow> owner_range \<Rightarrow> bool" where
  "ends_before a b \<longleftrightarrow> fst (snd a) \<le> fst b"

interpretation half: range_scan ends_before "(\<le>)" "\<lambda>a. fst a < fst (snd a)"
  by unfold_locales (auto simp: ends_before_def less_eq_prod_def)

lemma owner_overlap_adjacent: "owner_overlap rs = Inr () \<longleftrightarrow> adjacent ends_before rs"
  by (induction rs rule: owner_overlap.induct) (auto simp: ends_before_def)

lemma validate_owner_ranges_apart:
  assumes "\<forall>a\<in>set (owner_ranges sc). fst a < fst (snd a)"
  shows "validate_owner_ranges sc = Inr () \<longleftrightarrow> sorted_wrt half.apart (owner_ranges sc)"
  unfolding validate_owner_ranges_def owner_overlap_adjacent by (rule half.adjacent_decides [OF assms]) simp

definition range_blocks :: "owner_range \<Rightarrow> nat list" where
  "range_blocks a = [unat (fst a)..<unat (fst (snd a))]"

lemma apart_disjoint: "half.apart a b \<Longrightarrow> set (range_blocks a) \<inter> set (range_blocks b) = {}"
  by (auto simp: half.apart_def ends_before_def range_blocks_def word_le_nat_alt)

lemma apart_iff:
  "fst a < fst (snd a) \<Longrightarrow> fst b < fst (snd b) \<Longrightarrow> half.apart a b \<longleftrightarrow> set (range_blocks a) \<inter> set (range_blocks b) = {}"
  by (auto simp: half.apart_def ends_before_def range_blocks_def word_le_nat_alt word_less_nat_alt)

lemma apart_distinct: "\<forall>a\<in>set rs. fst a < fst (snd a) \<Longrightarrow> sorted_wrt half.apart rs \<longleftrightarrow> distinct (concat (map range_blocks rs))"
proof (induction rs)
  case (Cons a rs)
  have "distinct (range_blocks a)" by (simp add: range_blocks_def)
  then show ?case using Cons apart_iff [of a] by (auto simp: disjoint_iff)
qed simp


section \<open>The plan\<close>

definition scan_keys :: "owner_scan \<Rightarrow> owner_key list" where
  "scan_keys sc = map (\<lambda>e. leaf_owner (oe_inode e, view e)) (os_extents sc) @ map (\<lambda>t. node_owner (tb_inode t, tb_physical_block t)) (os_tree_blocks sc)"

lemma scan_keys_blocks:
  assumes "\<And>e. e \<in> set (os_extents sc) \<Longrightarrow> unat (oe_end e) = unat (oe_physical_block e) + unat (oe_length e)"
    and "\<And>t. t \<in> set (os_tree_blocks sc) \<Longrightarrow> tb_physical_block t < n"
  shows "concat (map key_blocks (scan_keys sc)) = concat (map range_blocks (owner_ranges sc))"
proof -
  have "map (\<lambda>e. key_blocks (leaf_owner (oe_inode e, view e))) (os_extents sc)
      = map (\<lambda>e. range_blocks (oe_physical_block e, oe_end e, oe_inode e, False)) (os_extents sc)"
    using assms(1) by (simp add: key_blocks_def leaf_owner_def view_def range_blocks_def)
  moreover have "unat (tb_physical_block t + 1) = unat (tb_physical_block t) + 1" if "t \<in> set (os_tree_blocks sc)" for t
    using assms(2) [OF that] unat_lt_64 [of n] unat_add_le [of "tb_physical_block t" 1] by (simp add: word_less_nat_alt)
  then have "map (\<lambda>t. key_blocks (node_owner (tb_inode t, tb_physical_block t))) (os_tree_blocks sc)
      = map (\<lambda>t. range_blocks (tb_physical_block t, tb_physical_block t + 1, tb_inode t, True)) (os_tree_blocks sc)"
    by (simp add: key_blocks_def node_owner_def range_blocks_def)
  ultimately show ?thesis by (simp add: scan_keys_def owner_ranges_def comp_def cong: map_cong)
qed

lemma mset_concat_map_mono: "mset xs \<subseteq># mset ys \<Longrightarrow> mset (concat (map f xs)) \<subseteq># mset (concat (map f ys))"
proof -
  assume "mset xs \<subseteq># mset ys"
  then obtain M where "mset ys = mset xs + M" by (auto simp: subset_mset.le_iff_add)
  moreover have "mset (concat (map f zs)) = (\<Sum>z\<in>#mset zs. mset (f z))" for zs by (induction zs) simp_all
  ultimately show ?thesis by simp
qed

lemma distinct_mset_mono: "mset xs \<subseteq># mset ys \<Longrightarrow> distinct ys \<Longrightarrow> distinct xs"
  unfolding distinct_count_atmost_1
proof
  fix x assume a: "mset xs \<subseteq># mset ys" and d: "\<forall>a. count (mset ys) a = (if a \<in> set ys then 1 else 0)"
  have "count (mset ys) x \<le> 1" using d [rule_format, of x] by simp
  with mset_subset_eq_count [OF a, of x] have "count (mset xs) x \<le> 1" by (rule le_trans)
  moreover have "count (mset xs) x = 0 \<longleftrightarrow> x \<notin> set xs" by (simp add: count_mset_0_iff)
  ultimately show "count (mset xs) x = (if x \<in> set xs then 1 else 0)" by (cases "count (mset xs) x") auto
qed

lemma pure_graph [pure_intros]: "pure_io (build_allocation_graph d)"
proof -
  have d: "pure_io (read_descs d sb gs)" for sb gs by (induction gs; simp only: read_descs.simps; intro pure_intros; assumption)
  have b: "pure_io (scan_bitmaps d sb gs st)" for sb gs st
  proof (induction gs arbitrary: st)
    case (Cons x gs)
    then show ?case by (cases x) (simp only: scan_bitmaps.simps submit_read_def, intro pure_intros)
  qed (simp only: scan_bitmaps.simps pure_simple)
  show ?thesis unfolding build_allocation_graph_def by (intro pure_intros d b) (auto intro!: pure_intros split: prod.splits)
qed

lemma reads_graph:
  "reads F (\<lambda>gr. let D = f_data (F (bd_fd d)); sb = parse_superblock (get_bytes 1024 1024 D) in
      blocks_of (ag_free gr) = used_blocks (used_map sb D) False \<and> runs (unat (sb_blocks_count sb)) (ag_free gr)
      \<and> blocks_of (ag_allocated gr) = used_blocks (used_map sb D) True \<and> runs (unat (sb_blocks_count sb)) (ag_allocated gr))
    (build_allocation_graph d)" (is "reads F ?Q _")
proof (rule readsI)
  fix w r w' assume w: "w_files w = F" and run: "build_allocation_graph d w = (r, w')"
  have "?Q gr" if r: "r = Inr gr" for gr
  proof -
    obtain sb w1 where s: "read_superblock d w = (Inr sb, w1)"
      and u: "\<And>u. blocks_of (side u gr) = used_blocks (used_map sb (data_of d w)) u \<and> runs (unat (sb_blocks_count sb)) (side u gr)"
      using allocation_graph_spec [OF run [unfolded r]] by blast
    have "sb = parse_superblock (get_bytes 1024 1024 (f_data (F (bd_fd d))))" "data_of d w = f_data (F (bd_fd d))"
      using read_superblock_ok(3) [OF s] w by simp_all
    then show ?thesis using u [of True] u [of False] by (simp add: Let_def side_def)
  qed
  then show "w_files w' = F \<and> (\<forall>gr. r = Inr gr \<longrightarrow> ?Q gr)" using pure_step [OF pure_graph run] w by simp
qed

lemma pure_fixed [pure_intros]: "pure_io (fixed_metadata d sb al t gs acc)"
  by (induction gs arbitrary: acc) (auto intro!: pure_intros)

text \<open>What a plan promises, given the owners and the bits of the block bitmaps.\<close>

definition beyond :: "u64 \<Rightarrow> superblock \<Rightarrow> bytes \<Rightarrow> owner_key list" where
  "beyond t sb D = map leaf_owner (filter (\<lambda>x. unat t < leaf_hi (snd x)) (concat (map (owner_leaves sb D) (active_inodes sb D))))
     @ map node_owner (filter (\<lambda>x. t \<le> snd x) (concat (map (owner_nodes sb D) (active_inodes sb D))))"

definition plan_ok :: "superblock \<Rightarrow> bytes \<Rightarrow> owner_relocation_plan \<Rightarrow> bool" where
  "plan_ok sb D p \<longleftrightarrow>
     distinct (concat (map dest_blocks (op_moves p))) \<and> distinct (concat (map source_blocks (op_moves p)))
     \<and> set (concat (map dest_blocks (op_moves p))) \<subseteq> {b. (b, False) \<in> set (used_map sb D) \<and> b < unat (op_target_blocks p)}
     \<and> mset (map move_source (op_moves p)) \<subseteq># mset (beyond (op_target_blocks p) sb D)
     \<and> (op_destinations_available p \<longleftrightarrow> mset (map move_source (op_moves p)) = mset (beyond (op_target_blocks p) sb D))
     \<and> map om_transaction_id (op_moves p) = map (\<lambda>i. of_nat (Suc i)) [0..<length (op_moves p)]"

lemma scan_keys_beyond:
  assumes "owned sb D (min t (sb_blocks_count sb)) (active_inodes sb D) empty_scan out0"
    and sc: "sc = out0\<lparr>os_extents := srt (os_extents out0)\<rparr>" "\<And>xs. mset (srt xs) = mset xs"
  shows "mset (map (\<lambda>e. leaf_owner (oe_inode e, view e)) (filter (\<lambda>e. oe_end e > t) (os_extents sc))
      @ map (\<lambda>t. node_owner (tb_inode t, tb_physical_block t)) (filter (\<lambda>b. tb_physical_block b \<ge> t) (os_tree_blocks sc))) = mset (beyond t sb D)"
proof -
  let ?k = "min t (sb_blocks_count sb)"
  have en: "oe_end e > t \<longleftrightarrow> unat t < leaf_hi (view e)" if "e \<in> set (os_extents sc)" for e
    using scan_owners_bounds(1) [OF assms(1) sc that] by (simp add: word_less_nat_alt leaf_hi_def view_def)
  have "mset (map (\<lambda>e. leaf_owner (oe_inode e, view e)) (filter (\<lambda>e. oe_end e > t) (os_extents sc)))
      = mset (map (\<lambda>e. leaf_owner (oe_inode e, view e)) (filter (\<lambda>e. unat t < leaf_hi (view e)) (os_extents sc)))"
    using en by (simp cong: filter_cong)
  also have "\<dots> = mset (map (\<lambda>e. leaf_owner (oe_inode e, view e)) (filter (\<lambda>e. unat t < leaf_hi (view e)) (os_extents out0)))"
    by (simp add: sc mset_filter)
  also have "map (\<lambda>e. leaf_owner (oe_inode e, view e)) (filter (\<lambda>e. unat t < leaf_hi (view e)) (os_extents out0))
      = map leaf_owner (filter (\<lambda>x. unat t < leaf_hi (snd x)) (map (\<lambda>e. (oe_inode e, view e)) (os_extents out0)))"
    by (simp add: filter_map comp_def)
  also have "filter (\<lambda>x. unat t < leaf_hi (snd x)) (map (\<lambda>e. (oe_inode e, view e)) (os_extents out0))
      = filter (\<lambda>x. unat t < leaf_hi (snd x)) (concat (map (owner_leaves sb D) (active_inodes sb D)))"
    unfolding owned_empty(1) [OF assms(1)] filter_filter by (rule filter_cong) (auto simp: min_def word_le_nat_alt)
  finally have l: "mset (map (\<lambda>e. leaf_owner (oe_inode e, view e)) (filter (\<lambda>e. oe_end e > t) (os_extents sc)))
      = mset (map leaf_owner (filter (\<lambda>x. unat t < leaf_hi (snd x)) (concat (map (owner_leaves sb D) (active_inodes sb D)))))" .
  have "map (\<lambda>t. node_owner (tb_inode t, tb_physical_block t)) (filter (\<lambda>b. tb_physical_block b \<ge> t) (os_tree_blocks sc))
      = map node_owner (filter (\<lambda>x. t \<le> snd x) (map (\<lambda>t. (tb_inode t, tb_physical_block t)) (os_tree_blocks out0)))"
    by (simp add: filter_map comp_def sc)
  also have "filter (\<lambda>x. t \<le> snd x) (map (\<lambda>t. (tb_inode t, tb_physical_block t)) (os_tree_blocks out0))
      = filter (\<lambda>x. t \<le> snd x) (concat (map (owner_nodes sb D) (active_inodes sb D)))"
    unfolding owned_empty(2) [OF assms(1)] filter_filter by (rule filter_cong) (auto intro: min.coboundedI1)
  finally show ?thesis using l by (simp add: beyond_def)
qed


lemma plan_core:
  assumes own: "owned sb D (min t (sb_blocks_count sb)) (active_inodes sb D) empty_scan out0"
    and sc: "sc = out0\<lparr>os_extents := srt (os_extents out0)\<rparr>" "\<And>xs. mset (srt xs) = mset xs"
    and val: "validate_owner_ranges sc = Inr ()"
    and run: "place_owners data (filter (\<lambda>b. tb_physical_block b \<ge> t) (os_tree_blocks sc)) slots = (ms, ts, ok)"
    and sf: "mset slots = mset (dest_extents fr t)" and sd: "mset data = mset (filter (\<lambda>e. oe_end e > t) (os_extents sc))"
    and free: "runs (unat (sb_blocks_count sb)) fr" "blocks_of fr = used_blocks (used_map sb D) False"
    and p: "op_moves p = ms @ ts" "op_target_blocks p = t" "op_destinations_available p = ok"
  shows "plan_ok sb D p"
proof -
  let ?N = "unat (sb_blocks_count sb)"
  let ?trees = "filter (\<lambda>b. tb_physical_block b \<ge> t) (os_tree_blocks sc)"
  let ?key = "\<lambda>e. leaf_owner (oe_inode e, view e)" and ?node = "\<lambda>t. node_owner (tb_inode t, tb_physical_block t)"
  have N: "?N < 2 ^ 64" using unat_lt_64 [of "sb_blocks_count sb"] by simp
  note de = dest_extents_blocks [OF free(1) N, of t]
  have "set slots = set (dest_extents fr t)" using sf by (metis set_mset_mset)
  then have "below ?N slots" using de(2) by (simp add: below_def)
  note pl = place_owners_spec [OF run this N]
  have blocks: "mset (blocks_of slots) = mset (filter (\<lambda>b. b < unat t) (used_blocks (used_map sb D) False))"
    unfolding mset_blocks_of sf by (simp only: mset_blocks_of [symmetric] de(1) free(2))
  have dist: "distinct (filter (\<lambda>b. b < unat t) (used_blocks (used_map sb D) False))" using runs_blocks(1) [OF free(1)] free(2) by simp
  have dests: "mset (concat (map dest_blocks (ms @ ts))) \<subseteq># mset (filter (\<lambda>b. b < unat t) (used_blocks (used_map sb D) False))"
    using pl(1) by (simp only: blocks)
  have set: "set (concat (map dest_blocks (ms @ ts))) \<subseteq> {b. (b, False) \<in> set (used_map sb D) \<and> b < unat t}"
    using set_mset_mono [OF dests] by (auto simp: used_blocks_def)
  have keys: "mset (map ?key data @ map ?node ?trees) = mset (beyond t sb D)"
    using scan_keys_beyond [OF own sc] sd by simp
  have src: "mset (map move_source (ms @ ts)) \<subseteq># mset (beyond t sb D)" using pl(2) by (simp only: keys)
  have len: "length (beyond t sb D) = length data + length ?trees" using mset_eq_length [OF keys] by simp
  have all: "ok \<longleftrightarrow> mset (map move_source (ms @ ts)) = mset (beyond t sb D)"
  proof
    assume ok
    then have "size (mset (map move_source (ms @ ts))) = size (mset (beyond t sb D))" using pl(3) len by simp
    then show "mset (map move_source (ms @ ts)) = mset (beyond t sb D)" using src by (metis mset_subset_size nless_le subset_mset.le_less)
  next
    assume "mset (map move_source (ms @ ts)) = mset (beyond t sb D)"
    from arg_cong [OF this, of size] show ok using pl(3) len by simp
  qed
  note bd = scan_owners_bounds [OF own sc]
  have wf: "\<forall>a\<in>set (owner_ranges sc). fst a < fst (snd a)"
  proof -
    have "oe_physical_block e < oe_end e" if "e \<in> set (os_extents sc)" for e
      using bd(1) [OF that] by (simp add: word_less_nat_alt unat_gt_0)
    moreover have "tb_physical_block b < tb_physical_block b + 1" if "b \<in> set (os_tree_blocks sc)" for b
      using bd(2) [OF that] unat_lt_64 [of "sb_blocks_count sb"] unat_add_le [of "tb_physical_block b" 1] by (simp add: word_less_nat_alt)
    ultimately show ?thesis by (auto simp: owner_ranges_def)
  qed
  have "distinct (concat (map key_blocks (scan_keys sc)))"
    using val validate_owner_ranges_apart [OF wf] apart_distinct [OF wf] scan_keys_blocks [of sc "sb_blocks_count sb"] bd by simp
  moreover have "mset (map move_source (ms @ ts)) \<subseteq># mset (scan_keys sc)"
    using pl(2) by (rule subset_mset.order_trans) (simp add: scan_keys_def sd subset_mset.add_mono image_mset_subseteq_mono)
  ultimately have "distinct (concat (map source_blocks (ms @ ts)))"
    using distinct_mset_mono [OF mset_concat_map_mono [of "map move_source (ms @ ts)" "scan_keys sc" key_blocks]]
    by (simp only: source_blocks_key [abs_def] map_map comp_def)
  then show ?thesis
    unfolding plan_ok_def p using distinct_mset_mono [OF dests dist] set src all pl(4) by blast
qed

lemma plan_ok_build:
  assumes "\<And>xs. mset (ps_scan srt xs) = mset xs" "\<And>xs. mset (ps_free srt xs) = mset xs" "\<And>xs. mset (ps_data srt xs) = mset xs"
  shows "reads F (\<lambda>p. plan_ok (parse_superblock (get_bytes 1024 1024 (f_data (F (bd_fd d))))) (f_data (F (bd_fd d))) p
      \<and> sb_ok (parse_superblock (get_bytes 1024 1024 (f_data (F (bd_fd d)))))
      \<and> op_block_size p = block_size (parse_superblock (get_bytes 1024 1024 (f_data (F (bd_fd d))))))
    (build_owner_relocation_plan srt d tb)"
  unfolding build_owner_relocation_plan_def Let_def
proof (rule reads_bind [OF reads_superblock], intro reads_if reads_simple(2), rule reads_bind [OF reads_graph],
    rule reads_bind [OF scan_owners_owned], rule reads_lift_bind, rule reads_any [OF pure_fixed],
    (split prod.split, intro allI impI)+, rule reads_simple(1), unfold Let_def, elim exE conjE, hypsubst, goal_cases)
  case (1 sb graph owners u fixed ms ts ok out0)
  show ?case
    by (intro conjI, rule plan_core [OF 1(6) refl assms(1) _ 1(4) assms(2,3)]) (use 1 in simp_all)
qed


section \<open>Sample\<close>

lemma owner_bits:
  assumes "i < 63"
  shows "bit_set (0x1f # 6 # replicate 1022 0) (of_nat i) \<longleftrightarrow> i \<in> {0, 1, 2, 3, 4, 9, 10}"
proof -
  have "i \<in> set [0..<63]" using assms by simp
  then show ?thesis by (simp add: upt_rec) (elim disjE; simp add: bit_set_def Let_def nth_append)
qed

lemma scan_run:
  "fold (\<lambda>i. scan_block (s + l + of_nat i) v) [0..<n] (Some (v, s, l), g)
    = (Some (v, s, l + of_nat n), if v then g\<lparr>ag_allocated_blocks := ag_allocated_blocks g + of_nat n\<rparr>
        else g\<lparr>ag_free_blocks := ag_free_blocks g + of_nat n\<rparr>)"
  by (induction n) (auto simp: scan_block_def ac_simps)

lemma scan_stretch:
  assumes "\<And>i. a \<le> i \<Longrightarrow> i < b \<Longrightarrow> P i = v" and "a < b" and "case r of None \<Rightarrow> True | Some (v', _) \<Rightarrow> v' \<noteq> v"
  shows "fold (\<lambda>i. scan_block (k + of_nat i) (P i)) [a..<b] (r, g)
    = (Some (v, k + of_nat a, of_nat (b - a)), let g = flush_run r g in if v then g\<lparr>ag_allocated_blocks := ag_allocated_blocks g + of_nat (b - a)\<rparr>
        else g\<lparr>ag_free_blocks := ag_free_blocks g + of_nat (b - a)\<rparr>)"
proof -
  let ?g = "let g = flush_run r g in if v then g\<lparr>ag_allocated_blocks := ag_allocated_blocks g + 1\<rparr> else g\<lparr>ag_free_blocks := ag_free_blocks g + 1\<rparr>"
  have one: "scan_block (k + of_nat a) (P a) (r, g) = (Some (v, k + of_nat a, 1), ?g)"
    using assms by (auto simp: scan_block_def Let_def flush_run_def split: option.splits)
  have up: "[Suc a..<b] = map (\<lambda>i. Suc a + i) [0..<b - Suc a]" using assms(2) map_add_upt [of "Suc a" "b - Suc a"] by (simp add: add.commute)
  have "fold (\<lambda>i. scan_block (k + of_nat i) (P i)) [Suc a..<b] st = fold (\<lambda>i. scan_block (k + of_nat a + 1 + of_nat i) v) [0..<b - Suc a] st" for st
    unfolding up fold_map comp_def by (rule fold_cong) (use assms(1) in \<open>auto simp: ac_simps\<close>)
  then have r: "fold (\<lambda>i. scan_block (k + of_nat i) (P i)) [a..<b] (r, g)
      = fold (\<lambda>i. scan_block (k + of_nat a + 1 + of_nat i) v) [0..<b - Suc a] (Some (v, k + of_nat a, 1), ?g)"
    using one assms(2) by (simp add: upt_conv_Cons)
  have "(1 :: u64) + of_nat (b - Suc a) = of_nat (Suc (b - Suc a))" by simp
  then have n: "(1 :: u64) + of_nat (b - Suc a) = of_nat (b - a)" using assms(2) by (simp only: Suc_diff_Suc)
  then have "x + 1 + of_nat (b - Suc a) = x + of_nat (b - a)" for x :: u64 by (simp add: add.assoc)
  then show ?thesis using n by (simp add: r scan_run Let_def)
qed

lemma owner_group_run:
  "(case scan_group sample_sb 0 (0x1f # 6 # replicate 1022 0) (None, empty_graph sample_sb) of (r, g) \<Rightarrow> flush_run r g)
    = \<lparr>ag_block_size = 1024, ag_total_blocks = 64, ag_allocated_blocks = 7, ag_free_blocks = 56,
       ag_allocated = [extent 1 5, extent 10 2], ag_free = [extent 6 4, extent 12 52]\<rparr>"
proof -
  have c: "unat (group_block_count sample_sb 0) = 63" "group_start_block sample_sb 0 = 1"
    by (simp_all add: group_block_count_def group_start_block_def sample_sb_fields)
  have up: "[0..<63] = [0..<5] @ [5..<9] @ [9..<11] @ [11..<63]"
    using upt_add_eq_append [of 0 5 58] upt_add_eq_append [of 5 9 54] upt_add_eq_append [of 9 11 52] by simp
  let ?f = "\<lambda>i. scan_block (1 + of_nat i) (bit_set (0x1f # 6 # replicate 1022 0) (of_nat i))" and ?e = "empty_graph sample_sb"
  have z: "scan_group sample_sb 0 (0x1f # 6 # replicate 1022 0) (None, ?e) = fold ?f [11..<63] (fold ?f [9..<11] (fold ?f [5..<9] (fold ?f [0..<5] (None, ?e))))"
    unfolding scan_group_def c up fold_append comp_def ..
  note ev = owner_bits flush_run_def append_run_def empty_graph_def sample_sb_fields be_end_def Let_def
  have 1: "fold ?f [0..<5] (None, ?e) = (Some (True, 1, 5), ?e\<lparr>ag_allocated_blocks := 5\<rparr>)"
    by (subst scan_stretch [where v = True]) (auto simp: ev)
  have 2: "fold ?f [5..<9] (Some (True, 1, 5), ?e\<lparr>ag_allocated_blocks := 5\<rparr>)
      = (Some (False, 6, 4), ?e\<lparr>ag_allocated_blocks := 5, ag_allocated := [extent 1 5], ag_free_blocks := 4\<rparr>)"
    by (subst scan_stretch [where v = False]) (auto simp: ev)
  have 3: "fold ?f [9..<11] (Some (False, 6, 4), ?e\<lparr>ag_allocated_blocks := 5, ag_allocated := [extent 1 5], ag_free_blocks := 4\<rparr>)
      = (Some (True, 10, 2), ?e\<lparr>ag_allocated_blocks := 7, ag_allocated := [extent 1 5], ag_free_blocks := 4, ag_free := [extent 6 4]\<rparr>)"
    by (subst scan_stretch [where v = True]) (auto simp: ev)
  have 4: "fold ?f [11..<63] (Some (True, 10, 2), ?e\<lparr>ag_allocated_blocks := 7, ag_allocated := [extent 1 5], ag_free_blocks := 4, ag_free := [extent 6 4]\<rparr>)
      = (Some (False, 12, 52), ?e\<lparr>ag_allocated_blocks := 7, ag_allocated := [extent 1 5, extent 10 2], ag_free_blocks := 56, ag_free := [extent 6 4]\<rparr>)"
    by (subst scan_stretch [where v = False]) (auto simp: ev)
  show ?thesis unfolding z 1 2 3 4 by (simp add: ev)
qed


lemma owner_graph:
  "build_allocation_graph (sample_device 65536) owner_world = (Inr \<lparr>ag_block_size = 1024, ag_total_blocks = 64, ag_allocated_blocks = 7,
     ag_free_blocks = 56, ag_allocated = [extent 1 5, extent 10 2], ag_free = [extent 6 4, extent 12 52]\<rparr>, owner_world)"
proof -
  let ?d = "sample_device 65536" and ?gd = "parse_group_desc sample_sb 32 sample_desc"
  have gl: "group_list sample_sb = [0]" by (simp add: group_list_def sample_groups)
  have c: "cancellation_requested owner_world = (Inr False, owner_world)" by (simp add: cancellation_requested_def owner_world_facts)
  have "submit_read ?d 3072 1024 owner_world = (Inr (0x1f # 6 # replicate 1022 0), owner_world)"
    using owner_read [of 3072 1024] by (simp add: submit_read_def c bind_io_def owner_image_parts)
  then have sc: "scan_bitmaps ?d sample_sb [(0, ?gd)] (None, empty_graph sample_sb) owner_world
      = (Inr (scan_group sample_sb 0 (0x1f # 6 # replicate 1022 0) (None, empty_graph sample_sb)), owner_world)"
    by (simp add: bind_io_def c owner_reads(6) sample_sb_fields word_le_nat_alt)
  have ds: "read_descs ?d sample_sb [0] owner_world = (Inr [?gd], owner_world)"
    by (simp add: bind_io_def owner_reads(3,5))
  show ?thesis
    unfolding owner_group_run [symmetric]
    by (simp add: build_allocation_graph_def bind_io_def owner_reads(1) sample_sb_fields gl ds sc split: prod.splits del: read_descs.simps scan_bitmaps.simps)
qed

definition sample_sorts :: plan_sorts where
  "sample_sorts = \<lparr>ps_scan = \<lambda>xs. xs, ps_free = \<lambda>xs. xs, ps_data = \<lambda>xs. xs\<rparr>"

lemma owner_plan:
  "\<exists>p. build_owner_relocation_plan sample_sorts (sample_device 65536) 8192 owner_world = (Inr p, owner_world)
     \<and> op_moves p = [data_move sample_extent 1 6] \<and> op_target_blocks p = 8 \<and> op_destinations_available p \<and> op_complete_owner_coverage p"
proof -
  let ?d = "sample_device 65536" and ?gd = "parse_group_desc sample_sb 32 sample_desc"
  obtain sc where sc: "scan_extent_owners (\<lambda>xs. xs) ?d 8 owner_world = (Inr sc, owner_world)"
    "os_extents sc = [sample_extent]" "os_tree_blocks sc = []" "os_legacy_blockmap_inodes sc = 0" "os_corrupt_inodes sc = 0"
    using owner_scan_run [of 8] by auto
  have val: "validate_owner_ranges sc = Inr ()" by (simp add: validate_owner_ranges_def owner_ranges_def sc)
  have fa: "fixed_allocated [extent 1 5, extent 10 2] sample_sb ?gd"
    by (simp add: fixed_allocated_def owner_reads(6-8) sample_sb_fields range_fully_allocated_def be_end_def Let_def word_le_nat_alt word_less_nat_alt
        unsigned_minus_1_eq_mask mask_eq_exp_minus_1)
  have ga: "group_metadata_above sample_sb 8 ?gd = 0"
    by (simp add: group_metadata_above_def owner_reads(6-8) sample_sb_fields Let_def word_le_nat_alt word_less_nat_alt)
  have fm: "fixed_metadata ?d sample_sb [extent 1 5, extent 10 2] 8 [0] 0 owner_world = (Inr 0, owner_world)"
    by (simp add: bind_io_def owner_reads(3) fa ga)
  have gl: "group_list sample_sb = [0]" by (simp add: group_list_def sample_groups)
  have de: "dest_extents [extent 6 4, extent 12 52] 8 = [extent 6 2]"
    by (simp add: dest_extents_def be_end_def min_def word_le_nat_alt word_less_nat_alt)
  have e: "oe_end sample_extent = 12" "oe_length sample_extent = 2" "oe_physical_block sample_extent = 10"
    by (simp_all add: oe_end_def sample_extent_def)
  have pl: "place_owners [sample_extent] [] [extent 6 2] = ([data_move sample_extent 1 6], [], True)"
    by (simp add: place_owners_def e allocate_best_fit_def word_less_nat_alt unsigned_minus_1_eq_mask mask_eq_exp_minus_1)
  have sum: "sum_tail_overlap [sample_extent] 8 = 2" "allocated_above [extent 1 5, extent 10 2] 8 = 2"
    by (simp_all add: sum_tail_overlap_def allocated_above_def e be_end_def word_le_nat_alt word_less_nat_alt max_def)
  show ?thesis
    by (simp add: build_owner_relocation_plan_def Let_def bind_io_def owner_reads(1) sample_sb_fields size_bytes_def owner_graph sample_sorts_def
        sc val fm gl de pl sum e word_le_nat_alt word_less_nat_alt del: fixed_metadata.simps)
qed

section \<open>Properties\<close>

text \<open>Best fit always succeeds when it can: a range is handed out exactly when some slot is long enough, it is the start of the
  first of the shortest such slots, and the blocks of the slots are the range that was handed out and the blocks
  that are left.\<close>

theorem best_fit_minimal:
  assumes "len \<noteq> 0" and "\<forall>s\<in>set slots. ext_hi s < 2 ^ 64"
  shows "case allocate_best_fit slots len of
      None \<Rightarrow> \<forall>s\<in>set slots. be_length s < len
    | Some (dest, slots') \<Rightarrow> (\<exists>i. best_slot slots len i \<and> dest = be_start (slots ! i))
        \<and> mset (blocks_of slots) = mset [unat dest..<unat dest + unat len] + mset (blocks_of slots')"
proof (cases "allocate_best_fit slots len")
  case None
  then have "best_fit slots len 0 None u64_max = None" by (simp add: allocate_best_fit_def Let_def split: option.splits)
  then show ?thesis using None best_fit_None [OF assms(1)] by (simp add: fits_def not_le)
next
  case (Some a)
  obtain dest slots' where a: "allocate_best_fit slots len = Some (dest, slots')" using Some by (cases a) simp
  then obtain i where i: "best_fit slots len 0 None u64_max = Some i" "dest = be_start (slots ! i)"
    by (auto simp: allocate_best_fit_def Let_def split: option.splits)
  have "below (2 ^ 64 - 1) slots" using assms(2) by (auto simp: below_def)
  from allocate_best_fit_blocks(1) [OF a this] show ?thesis using a i best_fit_Some by auto
qed

theorem best_fit_minimal_witness:
  "\<exists>dest slots'. allocate_best_fit [extent 2 9, extent 20 4, extent 40 4] 3 = Some (dest, slots') \<and> dest = 20
     \<and> mset (blocks_of [extent 2 9, extent 20 4, extent 40 4]) = mset [20..<23] + mset (blocks_of slots')"
proof -
  have "allocate_best_fit [extent 2 9, extent 20 4, extent 40 4] 3 = Some (20, [extent 2 9, extent 23 1, extent 40 4])"
    by (simp add: allocate_best_fit_def Let_def word_less_nat_alt unsigned_minus_1_eq_mask mask_eq_exp_minus_1)
  then show ?thesis using best_fit_minimal [of 3 "[extent 2 9, extent 20 4, extent 40 4]"] by (simp add: ext_hi_def del: upt_rec_numeral)
qed

text \<open>C28. A relocation plan is safe: the destination ranges of its moves are pairwise disjoint, below the target and marked free in
  the block bitmaps, the source ranges are pairwise disjoint, the moves belong to extents and tree nodes of inodes in use
  that reach beyond the target, each at most once, and to all of them exactly when the plan says that destinations are
  available; the transactions are numbered from 1, and planning writes nothing.\<close>

theorem relocation_plan_safe:
  assumes "build_owner_relocation_plan srt d target_bytes w = (Inr p, w')"
    and "\<And>xs. mset (ps_scan srt xs) = mset xs" "\<And>xs. mset (ps_free srt xs) = mset xs" "\<And>xs. mset (ps_data srt xs) = mset xs"
  shows "plan_ok (parse_superblock (get_bytes 1024 1024 (data_of d w))) (data_of d w) p \<and> w_files w' = w_files w"
  using readsD(1) [OF plan_ok_build [OF assms(2-4)] refl assms(1)] readsD(2) [OF plan_ok_build [OF assms(2-4)] refl assms(1) refl] by simp

theorem relocation_plan_safe_witness:
  "\<exists>p. build_owner_relocation_plan sample_sorts (sample_device 65536) 8192 owner_world = (Inr p, owner_world)
     \<and> op_moves p = [data_move sample_extent 1 6] \<and> plan_ok sample_sb owner_image p"
proof -
  obtain p where p: "build_owner_relocation_plan sample_sorts (sample_device 65536) 8192 owner_world = (Inr p, owner_world)"
    "op_moves p = [data_move sample_extent 1 6]"
    using owner_plan by blast
  from relocation_plan_safe [OF p(1)] p show ?thesis
    by (auto simp: sample_sorts_def owner_world_facts owner_image_parts sample_sb_def [symmetric])
qed

end
