(* ===== verification/Fsx_Copy_Laws.thy ===== *)
theory Fsx_Copy_Laws
  imports Fsx_Stage Fsx_Relocate_Laws
begin

text \<open>
  The copies of a batch: each copy keeps a prefix of its source at its destination, whatever the other copies do and in
  which order the workers take their steps.
\<close>

section \<open>Ranges and rounds\<close>

lemma byte_range_spec:
  assumes "byte_range d b n bs = Inr (start, len)"
  shows "unat start = unat b * unat bs" "unat len = unat n * unat bs" "unat start + unat len \<le> unat (g_size_bytes (bd_geometry d))"
    and "0 < unat len" "0 < unat bs"
proof -
  let ?s = "g_size_bytes (bd_geometry d)"
  have c: "bs \<noteq> 0" "n \<noteq> 0" "b \<le> u64_max div bs" "n \<le> u64_max div bs" "start = b * bs" "len = n * bs"
    "start \<le> ?s" "len \<le> ?s - start"
    using assms by (auto simp: byte_range_def Let_def not_less split: if_split_asm)
  have fit: "unat x * unat bs < 2 ^ 64" if "x \<le> u64_max div bs" for x
  proof -
    have "unat x \<le> (2 ^ 64 - 1) div unat bs"
      using that by (simp add: word_le_nat_alt unat_div unsigned_minus_1_eq_mask mask_eq_exp_minus_1)
    then have "unat x * unat bs \<le> (2 ^ 64 - 1) div unat bs * unat bs" by (rule mult_le_mono1)
    also have "\<dots> \<le> 2 ^ 64 - 1" by (rule div_times_less_eq_dividend)
    finally show ?thesis by simp
  qed
  show st: "unat start = unat b * unat bs" "unat len = unat n * unat bs"
    using fit [OF c(3)] fit [OF c(4)] c(5,6) by (simp_all add: unat_mult_le)
  show "0 < unat bs" "0 < unat len" using c(1,2) st(2) by (simp_all add: unat_gt_0)
  have "unat (?s - start) = unat ?s - unat start" using c(7) by (rule unat_sub_le)
  then show "unat start + unat len \<le> unat ?s" using c(7,8) by (simp add: word_le_nat_alt)
qed

text \<open>The rounds cover the range from \<open>pos\<close> to its end without a gap.\<close>

fun contiguous :: "nat \<Rightarrow> (nat \<times> nat) list \<Rightarrow> nat \<Rightarrow> bool" where
  "contiguous pos [] tot = (pos = tot)"
| "contiguous pos (c # cs) tot = (fst c = pos \<and> pos + snd c \<le> tot \<and> contiguous (pos + snd c) cs tot)"

lemma chunk_seq_contiguous: "0 < sz \<Longrightarrow> pos \<le> tot \<Longrightarrow> contiguous pos (chunk_seq sz tot pos) tot"
proof (induction sz tot pos rule: chunk_seq.induct)
  case (1 sz tot pos)
  show ?case
  proof (cases "pos < tot")
    case True
    then show ?thesis using 1 by (simp add: chunk_seq.simps [of sz tot pos])
  next
    case False
    then show ?thesis using 1 by (subst chunk_seq.simps) simp
  qed
qed

lemma crc32c_append: "crc32c (a @ b) c = crc32c b (crc32c a c)"
  by (simp add: crc32c_ref crc_ref_append)

section \<open>One copy\<close>

text \<open>The byte ranges of a move.\<close>

definition src_off :: "u64 \<Rightarrow> owner_move \<Rightarrow> nat" where "src_off bs m = unat (om_source_block m) * unat bs"
definition dst_off :: "u64 \<Rightarrow> owner_move \<Rightarrow> nat" where "dst_off bs m = unat (om_destination_block m) * unat bs"
definition move_len :: "u64 \<Rightarrow> owner_move \<Rightarrow> nat" where "move_len bs m = unat (om_block_count m) * unat bs"

definition src_data :: "u64 \<Rightarrow> bytes \<Rightarrow> owner_move \<Rightarrow> bytes" where
  "src_data bs D m = get_bytes (src_off bs m) (move_len bs m) D"

definition dst_data :: "u64 \<Rightarrow> bytes \<Rightarrow> owner_move \<Rightarrow> bytes" where
  "dst_data bs D m = get_bytes (dst_off bs m) (move_len bs m) D"

definition data_crc :: "bytes \<Rightarrow> u32" where
  "data_crc b = crc32c b 0xffffffff XOR 0xffffffff"

text \<open>The state of a copy of \<open>m\<close>: its ranges lie on the device, and when the source has been \<open>S\<close> all along (\<open>sep\<close>), a prefix
  of it has arrived.\<close>

definition copy_ok :: "block_device \<Rightarrow> u64 \<Rightarrow> bool \<Rightarrow> bytes \<Rightarrow> owner_move \<Rightarrow> copy_state \<Rightarrow> bytes \<Rightarrow> bool" where
  "copy_ok d bs sep S m st D \<longleftrightarrow>
     (case st of
        Copying src dst tot cs crc \<Rightarrow> \<exists>pos. \<not> om_unwritten m \<and> contiguous pos cs (move_len bs m) \<and> pos \<le> move_len bs m
          \<and> unat src = src_off bs m \<and> unat dst = dst_off bs m \<and> unat tot = move_len bs m
          \<and> src_off bs m + move_len bs m \<le> unat (g_size_bytes (bd_geometry d))
          \<and> dst_off bs m + move_len bs m \<le> unat (g_size_bytes (bd_geometry d))
          \<and> (sep \<longrightarrow> get_bytes (dst_off bs m) pos D = take pos S \<and> crc = crc32c (take pos S) 0xffffffff)
      | Copied (Inr r) \<Rightarrow> om_unwritten m \<or> (sep \<longrightarrow> dst_data bs D m = S \<and> cr_crc r = data_crc S)
      | Copied (Inl e) \<Rightarrow> True)"

lemma copy_begin_ok: "copy_ok d bs sep S m (copy_begin d bs chunk m) D"
proof (cases "om_unwritten m")
  case False
  show ?thesis
  proof (cases "byte_range d (om_source_block m) (om_block_count m) bs")
    case s: (Inr x)
    obtain src tot where x: "x = (src, tot)" by (cases x)
    note sr = byte_range_spec [OF s [unfolded x]]
    show ?thesis
    proof (cases "byte_range d (om_destination_block m) (om_block_count m) bs")
      case t: (Inr y)
      obtain dst tot' where y: "y = (dst, tot')" by (cases y)
      note ds = byte_range_spec [OF t [unfolded y]]
      have "contiguous 0 (chunk_seq (max (unat bs) chunk) (unat tot) 0) (unat tot)"
        using sr(5) by (intro chunk_seq_contiguous) auto
      moreover have "crc32c [] 0xffffffff = 0xffffffff" by (simp add: crc32c_ref crc_ref_def)
      ultimately show ?thesis
        using False s x t y sr ds
        by (auto simp: copy_begin_def copy_ok_def src_off_def dst_off_def move_len_def get_bytes_def intro!: exI [of _ 0])
    qed (use False s x in \<open>simp add: copy_begin_def copy_ok_def\<close>)
  qed (use False in \<open>simp add: copy_begin_def copy_ok_def\<close>)
qed (simp add: copy_begin_def copy_ok_def)

lemma get_put_extend:
  assumes "off + pos + length b \<le> length D"
  shows "get_bytes off (pos + length b) (put_bytes (off + pos) b D) = get_bytes off pos D @ b"
  using assms by (intro nth_equalityI) (auto simp: nth_get_bytes nth_put_bytes nth_append)

lemma offset_nat: "unat (x :: u64) + k \<le> unat (n :: u64) \<Longrightarrow> unat (x + of_nat k) = unat x + k"
  using unat_lt_64 [of n] by (simp add: unat_add_le unat_of_nat take_bit_nat_eq_self)

text \<open>A property of the bytes that a copy keeps: no write into the destination breaks it, and it fixes the source.\<close>

definition copy_frame :: "block_device \<Rightarrow> u64 \<Rightarrow> bool \<Rightarrow> bytes \<Rightarrow> owner_move \<Rightarrow> (bytes \<Rightarrow> bytes \<Rightarrow> bool) \<Rightarrow> bool" where
  "copy_frame d bs sep S m K \<longleftrightarrow>
     (\<forall>D U off b. K D U \<longrightarrow> \<not> om_unwritten m \<longrightarrow> dst_off bs m \<le> off \<longrightarrow> off + length b \<le> dst_off bs m + move_len bs m
        \<longrightarrow> off + length b \<le> length D \<longrightarrow> K (put_bytes off b D) U)
     \<and> (\<forall>D U. K D U \<longrightarrow> length D = unat (g_size_bytes (bd_geometry d)) \<and> (sep \<longrightarrow> \<not> om_unwritten m \<longrightarrow> src_data bs D m = S))"

lemma copy_frameD:
  assumes "copy_frame d bs sep S m K" and "K D U"
  shows "\<not> om_unwritten m \<Longrightarrow> dst_off bs m \<le> off \<Longrightarrow> off + length b \<le> dst_off bs m + move_len bs m \<Longrightarrow> off + length b \<le> length D
      \<Longrightarrow> K (put_bytes off b D) U"
    and "length D = unat (g_size_bytes (bd_geometry d))" and "sep \<Longrightarrow> \<not> om_unwritten m \<Longrightarrow> src_data bs D m = S"
  using assms unfolding copy_frame_def by blast+

lemma copy_chunk_ok:
  assumes fr: "copy_frame d bs sep S m K"
  shows "triple (bytes_are d (\<lambda>D U. K D U \<and> copy_ok d bs sep S m (Copying src dst tot (c # cs) crc) D)) (copy_chunk d src dst c crc)
    (\<lambda>crc'. bytes_are d (\<lambda>D U. K D U \<and> copy_ok d bs sep S m (Copying src dst tot cs crc') D)) (bytes_are d K)"
proof -
  let ?A = "\<not> om_unwritten m \<and> contiguous (fst c + snd c) cs (move_len bs m) \<and> fst c + snd c \<le> move_len bs m
      \<and> unat src = src_off bs m \<and> unat dst = dst_off bs m \<and> unat tot = move_len bs m
      \<and> src_off bs m + move_len bs m \<le> unat (g_size_bytes (bd_geometry d))
      \<and> dst_off bs m + move_len bs m \<le> unat (g_size_bytes (bd_geometry d))"
  show ?thesis
  proof (rule triple_static [where A = ?A], goal_cases)
  case (1 D U)
  then show ?case by (auto simp: copy_ok_def)
next
  case 2
  let ?N = "unat (g_size_bytes (bd_geometry d))" and ?pos = "fst c" and ?n = "snd c"
  have so: "unat (src + of_nat ?pos) = src_off bs m + ?pos" and do: "unat (dst + of_nat ?pos) = dst_off bs m + ?pos"
    using 2 offset_nat [of src ?pos "g_size_bytes (bd_geometry d)"] offset_nat [of dst ?pos "g_size_bytes (bd_geometry d)"] by auto
  define J where "J D U \<longleftrightarrow> K D U \<and> (sep \<longrightarrow> get_bytes (dst_off bs m) ?pos D = take ?pos S \<and> crc = crc32c (take ?pos S) 0xffffffff)" for D U
  have pre: "K D U \<and> copy_ok d bs sep S m (Copying src dst tot (c # cs) crc) D \<longleftrightarrow> J D U" for D U
    using 2 by (auto simp: copy_ok_def J_def)
  have len: "length D = ?N" if "J D U" for D U using that copy_frameD(2) [OF fr] unfolding J_def by blast
  have keep: "K (put_bytes (dst_off bs m + ?pos) b D) U" if "J D U" "length b \<le> ?n" for D U b
    using copy_frameD(1) [OF fr, of D U "dst_off bs m + ?pos" b] that 2 len [OF that(1)] by (simp add: J_def)
  have post: "K (put_bytes (dst_off bs m + ?pos) out D) U \<and>
      copy_ok d bs sep S m (Copying src dst tot cs (crc32c out crc)) (put_bytes (dst_off bs m + ?pos) out D)"
    if j: "J D U" and out: "out = get_bytes (src_off bs m + ?pos) ?n D" "length out = ?n" for D U out
  proof -
    have "get_bytes (dst_off bs m) (?pos + ?n) (put_bytes (dst_off bs m + ?pos) out D) = take (?pos + ?n) S
        \<and> crc32c out crc = crc32c (take (?pos + ?n) S) 0xffffffff" if sep
    proof -
      have S: "S = src_data bs D m" using copy_frameD(3) [OF fr _ that] j 2 unfolding J_def by blast
      have "?n \<le> move_len bs m - ?pos" using 2 by linarith
      then have "out = take ?n (drop ?pos S)"
        by (simp add: out(1) S src_data_def get_bytes_def drop_take min_def add.commute)
      then have t: "take ?pos S @ out = take (?pos + ?n) S" by (simp add: take_add)
      show ?thesis
        using get_put_extend [of "dst_off bs m" ?pos out D] out(2) j that 2 len [OF j]
        by (simp add: J_def t [symmetric] crc32c_append)
    qed
    then show ?thesis using keep [OF j, of out] out(2) 2 by (auto simp: copy_ok_def intro!: exI [of _ "?pos + ?n"])
  qed
  have wr: "triple (bytes_are d (\<lambda>D U. J D U \<and> out = get_bytes (src_off bs m + ?pos) ?n D \<and> length out = ?n)) (write_exact d (dst + of_nat ?pos) out)
      (\<lambda>_. bytes_are d (\<lambda>D U. K D U \<and> copy_ok d bs sep S m (Copying src dst tot cs (crc32c out crc)) D)) (bytes_are d K)" for out
  proof (rule triple_write, unfold do, goal_cases)
    case (1 D U)
    then have "length D = ?N" "length out = ?n" using len by blast+
    then show ?case using 2 by simp
  next
    case (2 D U k)
    then show ?case using keep [of D U "take k out"] by auto
  next
    case (3 D U)
    then show ?case using post by blast
  qed
  show ?case
    unfolding pre copy_chunk_def
  proof (rule triple_pure_bind [OF pure_cancel], goal_cases)
    case (2 stop)
    show ?case
    proof (rule triple_if, goal_cases)
      case 1
      show ?case by (rule triple_fail) (simp add: bytes_are_def J_def)
    next
      case 2
      show ?case
      proof (rule triple_bind, rule triple_read [where Q = "\<lambda>out D U. J D U \<and> out = get_bytes (src_off bs m + ?pos) ?n D \<and> length out = ?n"],
          goal_cases)
        case (3 out)
        show ?case by (rule triple_bind [OF wr], rule triple_return, assumption)
      qed (auto simp: J_def so)
    qed
  qed (simp add: J_def)
  qed
qed


lemma copy_step_ok:
  assumes fr: "copy_frame d bs sep S m K"
  shows "triple (bytes_are d (\<lambda>D U. K D U \<and> copy_ok d bs sep S m st D)) (copy_step d st)
    (\<lambda>st'. bytes_are d (\<lambda>D U. K D U \<and> copy_ok d bs sep S m st' D)) (bytes_are d K)"
proof (cases "(d, st)" rule: copy_step.cases)
  case (1 d r)
  then show ?thesis by (auto intro: triple_return)
next
  case (2 d' src dst tot crc)
  have "copy_ok d bs sep S m (Copied (Inr \<lparr>cr_crc = crc XOR 0xffffffff, cr_bytes = tot\<rparr>)) D"
    if k: "K D U" and ok: "copy_ok d bs sep S m (Copying src dst tot [] crc) D" for D U
  proof -
    have "length S = move_len bs m" if sep
      using copy_frameD(2,3) [OF fr k] ok that by (auto simp: copy_ok_def src_data_def)
    then show ?thesis using ok by (auto simp: copy_ok_def dst_data_def data_crc_def)
  qed
  then show ?thesis using 2 by (auto simp: bytes_are_def intro!: triple_return)
next
  case (3 d' src dst tot c cs crc)
  have "triple (bytes_are d (\<lambda>D U. K D U \<and> copy_ok d bs sep S m (Copying src dst tot (c # cs) crc) D))
      (bind_io (try_io (copy_chunk d src dst c crc)) (\<lambda>r. return_io (case r of Inl e \<Rightarrow> Copied (Inl e) | Inr crc' \<Rightarrow> Copying src dst tot cs crc')))
      (\<lambda>st'. bytes_are d (\<lambda>D U. K D U \<and> copy_ok d bs sep S m st' D)) (bytes_are d K)"
    by (rule triple_bind [OF triple_try [OF copy_chunk_ok [OF fr]]], rule triple_return)
      (auto simp: copy_ok_def [of d bs sep S m "Copied (Inl _)"] split: sum.splits)
  then show ?thesis using 3 by simp
qed

lemma copy_finish_ok:
  assumes fr: "copy_frame d bs sep S m K"
  shows "triple (bytes_are d (\<lambda>D U. K D U \<and> copy_ok d bs sep S m st D)) (copy_finish n d st)
    (\<lambda>st'. bytes_are d (\<lambda>D U. K D U \<and> copy_ok d bs sep S m st' D)) (bytes_are d K)"
proof (induction n arbitrary: st)
  case (Suc n)
  show ?case unfolding copy_finish.simps by (rule triple_bind [OF copy_step_ok [OF fr] Suc])
qed (simp add: triple_return)

lemma copy_step_left: "copy_step d st w = (Inr st', w') \<Longrightarrow> steps_left st' \<le> steps_left st - 1"
  by (cases "(d, st)" rule: copy_step.cases) (auto simp: steps_left_def split: sum.splits elim!: bind_io_OkE)

lemma copy_finish_left: "copy_finish n d st w = (Inr st', w') \<Longrightarrow> steps_left st \<le> n \<Longrightarrow> \<exists>r. st' = Copied r"
proof (induction n arbitrary: st w)
  case 0
  then show ?case by (cases st) (auto simp: steps_left_def)
next
  case (Suc n)
  from Suc.prems(1) obtain st1 w1 where "copy_step d st w = (Inr st1, w1)" "copy_finish n d st1 w1 = (Inr st', w')"
    by (auto elim!: bind_io_OkE)
  then show ?case using Suc.IH [of st1 w1] copy_step_left [of d st w st1 w1] Suc.prems(2) by simp
qed

section \<open>A batch of copies\<close>

definition in_range :: "nat \<Rightarrow> nat \<Rightarrow> nat \<Rightarrow> bool" where
  "in_range off len i \<longleftrightarrow> off \<le> i \<and> i < off + len"

definition ranges_apart :: "nat \<Rightarrow> nat \<Rightarrow> nat \<Rightarrow> nat \<Rightarrow> bool" where
  "ranges_apart a n b k \<longleftrightarrow> n = 0 \<or> k = 0 \<or> a + n \<le> b \<or> b + k \<le> a"

lemma ranges_apart_sub: "ranges_apart a n b k \<Longrightarrow> b \<le> off \<Longrightarrow> off + l \<le> b + k \<Longrightarrow> ranges_apart a n off l"
  by (auto simp: ranges_apart_def)

lemma get_put_apart:
  assumes "off + length b \<le> length D" and "ranges_apart a n off (length b)"
  shows "get_bytes a n (put_bytes off b D) = get_bytes a n D"
proof (rule nth_equalityI)
  show "length (get_bytes a n (put_bytes off b D)) = length (get_bytes a n D)" using assms(1) by (simp add: get_bytes_def)
  fix i assume i: "i < length (get_bytes a n (put_bytes off b D))"
  then have "a + i < length D" "i < n" using assms(1) by (auto simp: get_bytes_def)
  then show "get_bytes a n (put_bytes off b D) ! i = get_bytes a n D ! i"
    using assms by (auto simp: get_bytes_def nth_put_bytes ranges_apart_def)
qed

lemma copy_ok_put:
  assumes "copy_ok d bs sep S m st D" and "off + length b \<le> length D"
    and "sep \<Longrightarrow> \<not> om_unwritten m \<Longrightarrow> ranges_apart (dst_off bs m) (move_len bs m) off (length b)"
  shows "copy_ok d bs sep S m st (put_bytes off b D)"
proof -
  have "get_bytes (dst_off bs m) pos (put_bytes off b D) = get_bytes (dst_off bs m) pos D"
    if "pos \<le> move_len bs m" "sep" "\<not> om_unwritten m" for pos
    using assms(3) [OF that(2,3)] that(1) by (intro get_put_apart [OF assms(2)]) (auto simp: ranges_apart_def)
  then show ?thesis
    using assms(1) by (fastforce simp: copy_ok_def dst_data_def split: copy_state.splits sum.splits)
qed


definition apart_moves :: "u64 \<Rightarrow> owner_move \<Rightarrow> owner_move \<Rightarrow> bool" where
  "apart_moves bs m m' \<longleftrightarrow> om_unwritten m \<or> om_unwritten m' \<or> ranges_apart (dst_off bs m) (move_len bs m) (dst_off bs m') (move_len bs m')"

definition dsts_apart :: "u64 \<Rightarrow> owner_move list \<Rightarrow> bool" where
  "dsts_apart bs ms \<longleftrightarrow> sorted_wrt (apart_moves bs) ms"

lemma apart_moves_sym: "apart_moves bs m m' \<Longrightarrow> apart_moves bs m' m"
  by (auto simp: apart_moves_def ranges_apart_def)

lemma dsts_apart_nth: "dsts_apart bs ms \<Longrightarrow> i < length ms \<Longrightarrow> j < length ms \<Longrightarrow> i \<noteq> j \<Longrightarrow> apart_moves bs (ms ! i) (ms ! j)"
  using apart_moves_sym by (cases "i < j") (auto simp: dsts_apart_def sorted_wrt_iff_nth_less)

lemma dsts_apart_mem: "dsts_apart bs ms \<Longrightarrow> m \<in> set ms \<Longrightarrow> m' \<in> set ms \<Longrightarrow> m \<noteq> m' \<Longrightarrow> apart_moves bs m m'"
  by (metis dsts_apart_nth in_set_conv_nth)

definition batch_frame :: "block_device \<Rightarrow> u64 \<Rightarrow> bool \<Rightarrow> bytes \<Rightarrow> owner_move list \<Rightarrow> (bytes \<Rightarrow> bytes \<Rightarrow> bool) \<Rightarrow> bool" where
  "batch_frame d bs sep D0 ms K \<longleftrightarrow> (\<forall>m\<in>set ms. copy_frame d bs sep (src_data bs D0 m) m K) \<and> (sep \<longrightarrow> dsts_apart bs ms)"

definition batch_ok :: "block_device \<Rightarrow> u64 \<Rightarrow> bool \<Rightarrow> bytes \<Rightarrow> owner_move list \<Rightarrow> copy_state list \<Rightarrow> bytes \<Rightarrow> bool" where
  "batch_ok d bs sep D0 ms sts D \<longleftrightarrow> length sts = length ms
     \<and> (\<forall>i<length ms. copy_ok d bs sep (src_data bs D0 (ms ! i)) (ms ! i) (sts ! i) D)"

lemma batch_step:
  assumes fr: "batch_frame d bs sep D0 ms K" and i: "i < length ms"
    and step: "\<And>K. copy_frame d bs sep (src_data bs D0 (ms ! i)) (ms ! i) K \<Longrightarrow>
      triple (bytes_are d (\<lambda>D U. K D U \<and> copy_ok d bs sep (src_data bs D0 (ms ! i)) (ms ! i) (sts ! i) D)) prog
        (\<lambda>st'. bytes_are d (\<lambda>D U. K D U \<and> copy_ok d bs sep (src_data bs D0 (ms ! i)) (ms ! i) st' D)) (bytes_are d K)"
  shows "triple (bytes_are d (\<lambda>D U. K D U \<and> batch_ok d bs sep D0 ms sts D)) prog
    (\<lambda>st'. bytes_are d (\<lambda>D U. K D U \<and> batch_ok d bs sep D0 ms (sts[i := st']) D)) (bytes_are d K)"
proof -
  let ?ok = "\<lambda>j st D. copy_ok d bs sep (src_data bs D0 (ms ! j)) (ms ! j) st D"
  let ?K = "\<lambda>D U. K D U \<and> length sts = length ms \<and> (\<forall>j<length ms. j \<noteq> i \<longrightarrow> ?ok j (sts ! j) D)"
  have f: "copy_frame d bs sep (src_data bs D0 (ms ! i)) (ms ! i) K" using fr i by (simp add: batch_frame_def)
  have others: "?ok j (sts ! j) (put_bytes off b D)"
    if "?ok j (sts ! j) D" "j < length ms" "j \<noteq> i" "\<not> om_unwritten (ms ! i)" "dst_off bs (ms ! i) \<le> off"
      "off + length b \<le> dst_off bs (ms ! i) + move_len bs (ms ! i)" "off + length b \<le> length D" for j off b D
  proof (rule copy_ok_put [OF that(1,7)])
    assume "sep" "\<not> om_unwritten (ms ! j)"
    then have "ranges_apart (dst_off bs (ms ! j)) (move_len bs (ms ! j)) (dst_off bs (ms ! i)) (move_len bs (ms ! i))"
      using fr that i dsts_apart_nth [of bs ms j i] by (simp add: batch_frame_def apart_moves_def)
    then show "ranges_apart (dst_off bs (ms ! j)) (move_len bs (ms ! j)) off (length b)" using that(5,6) by (rule ranges_apart_sub)
  qed
  have "copy_frame d bs sep (src_data bs D0 (ms ! i)) (ms ! i) ?K"
    unfolding copy_frame_def
  proof (intro conjI allI impI, goal_cases)
    case (1 D U off b)
    then show ?case using copy_frameD(1) [OF f] by blast
  next
    case (3 D U off b j)
    then show ?case using others by blast
  qed (use copy_frameD(2,3) [OF f] in blast)+
  from step [OF this] show ?thesis
    by (rule triple_conseq) (use i in \<open>auto simp: bytes_are_def batch_ok_def nth_list_update\<close>)
qed

lemma run_pool_ok:
  assumes fr: "batch_frame d bs sep D0 ms K"
  shows "triple (bytes_are d (\<lambda>D U. K D U \<and> batch_ok d bs sep D0 ms sts D)) (run_pool d sched sts)
    (\<lambda>sts'. bytes_are d (\<lambda>D U. K D U \<and> batch_ok d bs sep D0 ms sts' D)) (bytes_are d K)"
proof (induction sched arbitrary: sts)
  case (Cons i sched)
  show ?case
  proof (cases "i < length sts")
    case True
    show ?thesis
    proof (cases "length sts = length ms")
      case eq: True
      show ?thesis
        using True eq by (simp only: run_pool.simps if_True) (rule triple_bind [OF batch_step [OF fr _ copy_step_ok] Cons], simp)
    next
      case False
      show ?thesis by (rule triple_static [where A = False]) (use False in \<open>simp_all add: batch_ok_def\<close>)
    qed
  qed (use Cons in simp)
qed (simp add: triple_return)


lemma copy_ok_static: "copy_ok d bs sep S m st D \<Longrightarrow> copy_ok d bs False S' m st D'"
  by (auto simp: copy_ok_def split: copy_state.splits sum.splits)

lemma copy_frame_static: "copy_frame d bs sep S m K \<Longrightarrow> copy_frame d bs False S' m K"
  unfolding copy_frame_def by blast

lemma drain_ok:
  assumes "\<forall>m\<in>set ms. copy_frame d bs False [] m K" and "list_all2 (\<lambda>m st. copy_ok d bs False [] m st []) ms sts"
  shows "triple (bytes_are d K) (drain d sts) (\<lambda>_. bytes_are d K) (bytes_are d K)"
  using assms(2,1)
proof (induction ms sts rule: list_all2_induct)
  case (Cons m ms st sts)
  have "triple (bytes_are d K) (copy_finish (steps_left st) d st) (\<lambda>_. bytes_are d K) (bytes_are d K)"
    by (rule triple_conseq [OF copy_finish_ok [of d bs False "[]" m K st "steps_left st"]])
      (use Cons.prems Cons.hyps(1) copy_ok_static in \<open>auto simp: bytes_are_def\<close>)
  from triple_bind [OF this] Cons show ?case by simp
qed (simp add: triple_return)

lemma await_copies_ok:
  assumes fr: "batch_frame d bs sep D0 ms K" and "length sts \<le> length ms"
  shows "triple (bytes_are d (\<lambda>D U. K D U \<and> batch_ok d bs sep D0 ms (fin @ sts) D)) (await_copies d sts)
    (\<lambda>q. bytes_are d (\<lambda>D U. K D U \<and> (case q of
        Inl (e, rest) \<Rightarrow> \<exists>ms'. set ms' \<subseteq> set ms \<and> list_all2 (\<lambda>m st. copy_ok d bs False [] m st []) ms' rest
      | Inr cs \<Rightarrow> batch_ok d bs sep D0 ms (fin @ map (\<lambda>c. Copied (Inr c)) cs) D))) (bytes_are d K)"
  using assms(2)
proof (induction sts arbitrary: fin)
  case (Cons st sts)
  let ?i = "length fin"
  show ?case
  proof (cases "length (fin @ st # sts) = length ms")
    case len: True
    have i: "?i < length ms" using len by simp
    have up: "(fin @ st # sts)[?i := st'] = fin @ st' # sts" for st' by simp
    have nth: "(fin @ st # sts) ! ?i = st" by simp
    have "triple (bytes_are d (\<lambda>D U. K D U \<and> batch_ok d bs sep D0 ms (fin @ st # sts) D)) (copy_finish (steps_left st) d st)
        (\<lambda>st'. bytes_are d (\<lambda>D U. K D U \<and> batch_ok d bs sep D0 ms ((fin @ st # sts)[?i := st']) D)) (bytes_are d K)"
      by (rule batch_step [OF fr i]) (use copy_finish_ok in \<open>simp only: nth\<close>)
    from triple_result [OF this, of "\<lambda>st'. \<exists>r. st' = Copied r"]
    have run: "triple (bytes_are d (\<lambda>D U. K D U \<and> batch_ok d bs sep D0 ms (fin @ st # sts) D)) (copy_finish (steps_left st) d st)
        (\<lambda>st'. bytes_are d (\<lambda>D U. (K D U \<and> batch_ok d bs sep D0 ms (fin @ st' # sts) D) \<and> (\<exists>r. st' = Copied r))) (bytes_are d K)"
      using copy_finish_left by (force simp only: up)
    let ?Q = "\<lambda>q. bytes_are d (\<lambda>D U. K D U \<and> (case q of
        Inl (e, rest) \<Rightarrow> \<exists>ms'. set ms' \<subseteq> set ms \<and> list_all2 (\<lambda>m st. copy_ok d bs False [] m st []) ms' rest
      | Inr cs \<Rightarrow> batch_ok d bs sep D0 ms (fin @ map (\<lambda>c. Copied (Inr c)) cs) D))"
    have "triple (bytes_are d (\<lambda>D U. K D U \<and> batch_ok d bs sep D0 ms (fin @ st' # sts) D))
        (case copy_result_of st' of Inl e \<Rightarrow> return_io (Inl (e, sts))
         | Inr c \<Rightarrow> bind_io (await_copies d sts) (\<lambda>q. return_io (case q of Inl x \<Rightarrow> Inl x | Inr cs \<Rightarrow> Inr (c # cs)))) ?Q (bytes_are d K)"
      if ex: "\<exists>r. st' = Copied r" for st'
    proof -
      obtain r where r: "st' = Copied r" using ex by blast
      show ?thesis
      proof (cases r)
        case (Inl e)
        have "list_all2 (\<lambda>m st. copy_ok d bs False [] m st []) (drop (Suc ?i) ms) sts"
          if "batch_ok d bs sep D0 ms (fin @ st' # sts) D" for D
        proof (rule list_all2_all_nthI)
          show "length (drop (Suc ?i) ms) = length sts" using len by simp
          fix k assume "k < length (drop (Suc ?i) ms)"
          then have "Suc ?i + k < length ms" by simp
          then have "copy_ok d bs sep (src_data bs D0 (ms ! (Suc ?i + k))) (ms ! (Suc ?i + k)) ((fin @ st' # sts) ! (Suc ?i + k)) D"
            using that unfolding batch_ok_def by blast
          then show "copy_ok d bs False [] (drop (Suc ?i) ms ! k) (sts ! k) []"
            using \<open>Suc ?i + k < length ms\<close> by (auto simp: nth_append intro: copy_ok_static)
        qed
        then show ?thesis
          using Inl r by (auto simp: copy_result_of_def bytes_are_def intro!: triple_return exI [of _ "drop (Suc ?i) ms"] dest: in_set_dropD)
      next
        case (Inr c)
        have "triple (bytes_are d (\<lambda>D U. K D U \<and> batch_ok d bs sep D0 ms (fin @ st' # sts) D))
          (bind_io (await_copies d sts) (\<lambda>q. return_io (case q of Inl x \<Rightarrow> Inl x | Inr cs \<Rightarrow> Inr (c # cs)))) ?Q (bytes_are d K)"
        proof (rule triple_bind [OF _ triple_return])
          show "triple (bytes_are d (\<lambda>D U. K D U \<and> batch_ok d bs sep D0 ms (fin @ st' # sts) D)) (await_copies d sts)
            (\<lambda>q. bytes_are d (\<lambda>D U. K D U \<and> (case q of
                Inl (e, rest) \<Rightarrow> \<exists>ms'. set ms' \<subseteq> set ms \<and> list_all2 (\<lambda>m st. copy_ok d bs False [] m st []) ms' rest
              | Inr cs \<Rightarrow> batch_ok d bs sep D0 ms ((fin @ [st']) @ map (\<lambda>c. Copied (Inr c)) cs) D))) (bytes_are d K)"
            using Cons.IH [of "fin @ [st']"] len by simp
        qed (use r Inr in \<open>auto simp: bytes_are_def split: sum.splits\<close>)
        then show ?thesis using Inr r by (simp add: copy_result_of_def)
      qed
    qed
    note each = this
    show ?thesis
      unfolding await_copies.simps
    proof (rule triple_bind [OF run], rule triple_static)
      fix st' assume "\<exists>r. st' = Copied r"
      from each [OF this] show "triple (bytes_are d (\<lambda>D U. (K D U \<and> batch_ok d bs sep D0 ms (fin @ st' # sts) D) \<and> (\<exists>r. st' = Copied r)))
        (case copy_result_of st' of Inl e \<Rightarrow> return_io (Inl (e, sts))
         | Inr c \<Rightarrow> bind_io (await_copies d sts) (\<lambda>q. return_io (case q of Inl x \<Rightarrow> Inl x | Inr cs \<Rightarrow> Inr (c # cs)))) ?Q (bytes_are d K)"
        by (rule triple_conseq) (simp_all add: bytes_are_def)
    qed simp
  next
    case False
    show ?thesis by (rule triple_static [where A = False]) (use False in \<open>simp_all add: batch_ok_def\<close>)
  qed
qed (simp add: triple_return)

end
