(* ===== verification/Fsx_Stage_Laws.thy ===== *)
theory Fsx_Stage_Laws
  imports Fsx_Copy_Laws
begin

text \<open>
  Staging as a whole: the batches with their journal records, the main loop and its invariant, resuming from a journal, and
  the composition with the planner.
\<close>

section \<open>Batches and the journal\<close>

lemma journal_elsewhere:
  assumes "bd_fd (j_device j) \<noteq> f" and "g = append_batch rs \<or> g = checkpoint ph" and "on_journal g j w = (q, w')"
  shows "w_files w' f = w_files w f \<and> (\<forall>j'. q = Inr j' \<longrightarrow> bd_fd (j_device j') \<noteq> f)"
proof -
  obtain x j1 w1 where r: "g j w = (x, j1, w1)" by (metis prod_cases3)
  then have "others_kept (bd_fd (j_device j)) w w1 \<and> j_device j1 = j_device j"
    using assms(2) append_others checkpoint_others by blast
  then show ?thesis using assms(1,3) r others_keptD [OF _ assms(1), of w w1] by (cases x) (auto simp: on_journal_def)
qed

lemma triple_journal:
  assumes "bd_fd (j_device j) \<noteq> bd_fd d" and "g = append_batch rs \<or> g = checkpoint ph"
  shows "triple (bytes_are d J) (on_journal g j) (\<lambda>j'. bytes_are d (\<lambda>D U. J D U \<and> bd_fd (j_device j') \<noteq> bd_fd d)) (bytes_are d J)"
  using journal_elsewhere [OF assms] by (intro triple_result [OF triple_elsewhere]) blast+

lemma pure_verify [pure_intros]: "pure_io (verify_one d m bs chunk)" "pure_io (check_batch d v bs chunk mcs)"
proof -
  have c: "pure_io (verify_chunks d dst cs crc)" for dst cs crc
    by (induction cs arbitrary: crc) (simp_all only: verify_chunks.simps, (intro pure_intros | assumption)+)
  show v: "pure_io (verify_one d m bs chunk)" for m
    unfolding verify_one_def by (intro pure_intros) (auto intro!: pure_intros c split: prod.splits)
  show "pure_io (check_batch d v bs chunk mcs)"
  proof (induction mcs)
    case (Cons mc mcs)
    then show ?case by (cases mc) (simp only: check_batch.simps, intro pure_intros v)
  qed (simp only: check_batch.simps pure_simple)
qed

lemma stage_batch_ok:
  assumes fr: "batch_frame d bs sep D0 ms K" and fl: "\<And>D U. K D U \<Longrightarrow> K D D" and j: "bd_fd (j_device j) \<noteq> bd_fd d"
  shows "triple (bytes_are d K) (stage_batch d verify bs chunk sched j ms)
    (\<lambda>jc. bytes_are d (\<lambda>D U. K D U \<and> bd_fd (j_device (fst jc)) \<noteq> bd_fd d \<and> length (snd jc) = length ms
       \<and> (\<forall>m\<in>set ms. om_unwritten m \<or> (sep \<longrightarrow> dst_data bs D m = src_data bs D0 m \<and> dst_data bs U m = src_data bs D0 m)))) (bytes_are d K)"
proof -
  define J where "J cs D U \<longleftrightarrow> K D U \<and> batch_ok d bs sep D0 ms (map (\<lambda>c. Copied (Inr c)) cs) D" for cs D U
  have J: "J cs D U \<Longrightarrow> K D U \<and> length cs = length ms
      \<and> (\<forall>m\<in>set ms. om_unwritten m \<or> (sep \<longrightarrow> dst_data bs D m = src_data bs D0 m))" for cs D U
    by (fastforce simp: J_def batch_ok_def copy_ok_def in_set_conv_nth)
  let ?F = "\<lambda>cs D U. K D U \<and> length cs = length ms
      \<and> (\<forall>m\<in>set ms. om_unwritten m \<or> (sep \<longrightarrow> dst_data bs D m = src_data bs D0 m \<and> dst_data bs U m = src_data bs D0 m))"
  have init: "batch_ok d bs sep D0 ms (map (copy_begin d bs chunk) ms) D" for D by (simp add: batch_ok_def copy_begin_ok)
  have static: "\<forall>m\<in>set ms. copy_frame d bs False [] m K" using fr by (auto simp: batch_frame_def intro: copy_frame_static)
  have err: "triple (bytes_are d K) (bind_io (try_io (on_journal (checkpoint Phase_paused) j)) (\<lambda>_. bind_io (drain d rest) (\<lambda>_. throw_io e))) Q (bytes_are d K)"
    if "set ms' \<subseteq> set ms" "list_all2 (\<lambda>m st. copy_ok d bs False [] m st []) ms' rest" for ms' rest e Q
  proof (rule triple_bind)
    show "triple (bytes_are d K) (try_io (on_journal (checkpoint Phase_paused) j)) (\<lambda>_. bytes_are d K) (bytes_are d K)"
      by (rule triple_conseq [OF triple_try [OF triple_journal [OF j disjI2 [OF refl]]]]) (auto simp: bytes_are_def split: sum.splits)
    show "triple (bytes_are d K) (bind_io (drain d rest) (\<lambda>_. throw_io e)) Q (bytes_are d K)"
      using drain_ok [OF _ that(2)] static that(1) by (intro triple_bind [where R = "\<lambda>_. bytes_are d K"]) (auto simp: triple_def throw_io_def)
  qed
  show ?thesis
    unfolding stage_batch_def
  proof (rule triple_bind [where R = "\<lambda>sts. bytes_are d (\<lambda>D U. K D U \<and> batch_ok d bs sep D0 ms sts D)"], goal_cases)
    case 1
    show ?case by (rule triple_conseq [OF run_pool_ok [OF fr, of "map (copy_begin d bs chunk) ms"]]) (auto simp: bytes_are_def init)
  next
    case (2 sts)
    let ?aw = "\<lambda>q D U. K D U \<and> (case q of
        Inl (e, rest) \<Rightarrow> \<exists>ms'. set ms' \<subseteq> set ms \<and> list_all2 (\<lambda>m st. copy_ok d bs False [] m st []) ms' rest
      | Inr cs \<Rightarrow> batch_ok d bs sep D0 ms ([] @ map (\<lambda>c. Copied (Inr c)) cs) D)"
    show ?case
    proof (rule triple_bind [where R = "\<lambda>q. bytes_are d (?aw q)"], goal_cases)
      case 1
      show ?case
      proof (rule triple_static [where A = "length sts \<le> length ms"], goal_cases)
        case 2
        then show ?case using await_copies_ok [OF fr, of sts "[]"] by simp
      qed (simp add: batch_ok_def)
    next
      case (2 q)
      show ?case
      proof (cases q)
        case (Inl x)
        obtain e rest where x: "x = (e, rest)" by (cases x)
        show ?thesis
          unfolding Inl x sum.case prod.case
        proof (rule triple_static [where A = "\<exists>ms'. set ms' \<subseteq> set ms \<and> list_all2 (\<lambda>m st. copy_ok d bs False [] m st []) ms' rest"], goal_cases)
          case 2
          then show ?case by (elim exE conjE) (rule triple_conseq [OF err], auto simp: bytes_are_def)
        qed simp
      next
        case (Inr cs)
        show ?thesis
          unfolding Inr sum.case append_Nil J_def [symmetric]
        proof (rule triple_bind [where R = "\<lambda>_. bytes_are d (?F cs)"], goal_cases)
          case 1
          show ?case by (rule triple_flush) (use J fl in blast)+
        next
          case 2
          have chk: "triple (bytes_are d (?F cs)) (check_batch d verify bs chunk (zip ms cs)) (\<lambda>_. bytes_are d (?F cs)) (bytes_are d K)"
            by (rule triple_conseq [OF triple_pure [OF pure_verify(2), where J = "?F cs"]]) (auto simp: bytes_are_def)
          have app: "triple (bytes_are d (?F cs)) (on_journal (append_batch rs) j)
              (\<lambda>j'. bytes_are d (\<lambda>D U. ?F cs D U \<and> bd_fd (j_device j') \<noteq> bd_fd d)) (bytes_are d K)" for rs
            by (rule triple_conseq [OF triple_journal [OF j disjI1 [OF refl], where J = "?F cs"]]) (auto simp: bytes_are_def)
          show ?case by (rule triple_bind [OF chk], rule triple_bind [OF app], rule triple_return) (auto simp: bytes_are_def)
        qed
      qed
    qed
  qed
qed


section \<open>The main loop\<close>

definition separate :: "u64 \<Rightarrow> owner_move list \<Rightarrow> bool" where
  "separate bs ms \<longleftrightarrow> distinct (map om_transaction_id ms) \<and> dsts_apart bs ms
     \<and> (\<forall>m\<in>set ms. \<forall>m'\<in>set ms. om_unwritten m \<or> om_unwritten m'
          \<or> ranges_apart (src_off bs m) (move_len bs m) (dst_off bs m') (move_len bs m'))"

definition untouched :: "u64 \<Rightarrow> owner_move list \<Rightarrow> bytes \<Rightarrow> bytes \<Rightarrow> bool" where
  "untouched bs ms D0 D \<longleftrightarrow> length D = length D0
     \<and> (\<forall>i<length D0. (\<forall>m\<in>set ms. om_unwritten m \<or> \<not> in_range (dst_off bs m) (move_len bs m) i) \<longrightarrow> D ! i = D0 ! i)"

definition settled :: "u64 \<Rightarrow> bytes \<Rightarrow> u64 set \<Rightarrow> owner_move \<Rightarrow> bytes \<Rightarrow> bytes \<Rightarrow> bool" where
  "settled bs D0 V0 m D U \<longleftrightarrow> om_unwritten m
     \<or> (dst_data bs D m = src_data bs D0 m \<and> dst_data bs U m = src_data bs D0 m)
     \<or> (om_transaction_id m \<in> V0 \<and> dst_data bs D m = dst_data bs D0 m)"

definition loop_inv :: "block_device \<Rightarrow> u64 \<Rightarrow> bytes \<Rightarrow> owner_move list \<Rightarrow> u64 set \<Rightarrow> u64 set \<Rightarrow> bytes \<Rightarrow> bytes \<Rightarrow> bool" where
  "loop_inv d bs D0 all V0 v D U \<longleftrightarrow> length D0 = unat (g_size_bytes (bd_geometry d)) \<and> untouched bs all D0 D
     \<and> (separate bs all \<longrightarrow> (\<forall>m\<in>set all. om_transaction_id m \<in> v \<longrightarrow> settled bs D0 V0 m D U))"

lemma source_kept:
  assumes "untouched bs all D0 D" "separate bs all" "m \<in> set all" "\<not> om_unwritten m"
  shows "src_data bs D m = src_data bs D0 m"
proof (rule nth_equalityI)
  have len: "length D = length D0" using assms(1) by (simp add: untouched_def)
  then show "length (src_data bs D m) = length (src_data bs D0 m)" by (simp add: src_data_def get_bytes_def)
  fix i assume "i < length (src_data bs D m)"
  then have i: "i < move_len bs m" "src_off bs m + i < length D0" using len by (auto simp: src_data_def get_bytes_def)
  have "\<forall>m'\<in>set all. om_unwritten m' \<or> \<not> in_range (dst_off bs m') (move_len bs m') (src_off bs m + i)"
    using assms(2-4) i(1) by (fastforce simp: separate_def ranges_apart_def in_range_def)
  then have "D ! (src_off bs m + i) = D0 ! (src_off bs m + i)" using assms(1) i(2) unfolding untouched_def by blast
  then show "src_data bs D m ! i = src_data bs D0 m ! i" using i len by (simp add: src_data_def get_bytes_def)
qed

lemma untouched_put:
  assumes "untouched bs all D0 D" "m \<in> set all" "\<not> om_unwritten m" "dst_off bs m \<le> off"
    "off + length b \<le> dst_off bs m + move_len bs m" "off + length b \<le> length D"
  shows "untouched bs all D0 (put_bytes off b D)"
  unfolding untouched_def
proof (intro conjI allI impI)
  show "length (put_bytes off b D) = length D0" using assms(1,6) by (simp add: untouched_def)
  fix i assume i: "i < length D0" and out: "\<forall>m\<in>set all. om_unwritten m \<or> \<not> in_range (dst_off bs m) (move_len bs m) i"
  have "\<not> in_range (dst_off bs m) (move_len bs m) i" using out assms(2,3) by blast
  moreover have "D ! i = D0 ! i" "i < length D" using assms(1) i out unfolding untouched_def by auto
  ultimately show "put_bytes off b D ! i = D0 ! i" using assms(4-6) by (auto simp: nth_put_bytes in_range_def)
qed

lemma loop_frame:
  assumes "set ms \<subseteq> set all" and "\<forall>m\<in>set ms. om_transaction_id m \<notin> v" and "separate bs all \<Longrightarrow> dsts_apart bs ms"
  shows "batch_frame d bs (separate bs all) D0 ms (loop_inv d bs D0 all V0 v)"
  unfolding batch_frame_def copy_frame_def
proof (intro conjI ballI allI impI, goal_cases)
  case (1 m D U off b)
  have m: "m \<in> set all" using 1(1) assms(1) by blast
  have "settled bs D0 V0 m' (put_bytes off b D) U" if "separate bs all" "m' \<in> set all" "om_transaction_id m' \<in> v" for m'
  proof -
    have s: "settled bs D0 V0 m' D U" using 1(2) that unfolding loop_inv_def by blast
    have "m' \<noteq> m" using assms(2) 1(1) that(3) by auto
    then have "apart_moves bs m' m" using that m dsts_apart_mem by (auto simp: separate_def)
    then have "dst_data bs (put_bytes off b D) m' = dst_data bs D m'" if "\<not> om_unwritten m'"
    proof -
      have "ranges_apart (dst_off bs m') (move_len bs m') (dst_off bs m) (move_len bs m)"
        using \<open>apart_moves bs m' m\<close> that 1(3) by (simp add: apart_moves_def)
      from ranges_apart_sub [OF this 1(4,5)] show ?thesis unfolding dst_data_def by (rule get_put_apart [OF 1(6)])
    qed
    then show ?thesis using s by (auto simp: settled_def)
  qed
  then show ?case using 1 untouched_put [OF _ m] unfolding loop_inv_def by blast
next
  case (2 m D U)
  then show ?case by (simp add: loop_inv_def untouched_def)
next
  case (3 m D U)
  then show ?case using assms(1) source_kept [of bs all D0 D m] unfolding loop_inv_def by blast
next
  case 4
  then show ?case using assms(3) by blast
qed

lemma loop_inv_flush: "loop_inv d bs D0 all V0 v D U \<Longrightarrow> loop_inv d bs D0 all V0 v D D"
  unfolding loop_inv_def settled_def by blast

lemma take_batch_sub:
  assumes "take_batch n v ms = (b, r)"
  shows "set b \<subseteq> set ms" "set r \<subseteq> set ms" "\<forall>m\<in>set b. om_transaction_id m \<notin> v"
    "\<forall>m\<in>set ms. om_transaction_id m \<in> v \<or> m \<in> set b \<or> m \<in> set r" "sorted_wrt P ms \<Longrightarrow> sorted_wrt P b \<and> sorted_wrt P r"
proof -
  have "set b \<subseteq> set ms \<and> set r \<subseteq> set ms \<and> (\<forall>m\<in>set b. om_transaction_id m \<notin> v)
    \<and> (\<forall>m\<in>set ms. om_transaction_id m \<in> v \<or> m \<in> set b \<or> m \<in> set r) \<and> (sorted_wrt P ms \<longrightarrow> sorted_wrt P b \<and> sorted_wrt P r)"
    using assms
  proof (induction n v ms arbitrary: b r rule: take_batch.induct)
    case (2 n v m ms)
    consider "n = 0" | "n \<noteq> 0" "om_transaction_id m \<in> v" | "n \<noteq> 0" "om_transaction_id m \<notin> v" by blast
    then show ?case
    proof cases
      case 1
      then show ?thesis using 2(3) by simp
    next
      case c: 2
      then show ?thesis using 2(1) [OF c] 2(3) by auto
    next
      case c: 3
      obtain b' where b': "take_batch (n - 1) v ms = (b', r)" "b = m # b'" using 2(3) c by (auto split: prod.splits)
      show ?thesis using 2(2) [OF c b'(1)] c(2) by (auto simp: b'(2))
    qed
  qed simp
  then show "set b \<subseteq> set ms" "set r \<subseteq> set ms" "\<forall>m\<in>set b. om_transaction_id m \<notin> v"
    "\<forall>m\<in>set ms. om_transaction_id m \<in> v \<or> m \<in> set b \<or> m \<in> set r" "sorted_wrt P ms \<Longrightarrow> sorted_wrt P b \<and> sorted_wrt P r" by auto
qed


lemma dropWhile_facts:
  "dropWhile P ms = ms' \<Longrightarrow> set ms' \<subseteq> set ms \<and> (\<forall>m\<in>set ms. P m \<or> m \<in> set ms') \<and> (sorted_wrt R ms \<longrightarrow> sorted_wrt R ms')"
  by (induction ms) (auto split: if_splits)

lemma stage_loop_ok:
  assumes "set ms \<subseteq> set all" "\<forall>m\<in>set all. om_transaction_id m \<in> v \<or> m \<in> set ms" "separate bs all \<Longrightarrow> dsts_apart bs ms"
    and "\<not> sr_complete rep" "bd_fd (j_device j) \<noteq> bd_fd d"
  shows "triple (bytes_are d (loop_inv d bs D0 all V0 v)) (stage_loop env d verify bs workers chunk j v rep ms)
    (\<lambda>rep'. bytes_are d (\<lambda>D U. untouched bs all D0 D \<and>
       (sr_complete rep' \<longrightarrow> separate bs all \<longrightarrow> (\<forall>m\<in>set all. settled bs D0 V0 m D U)))) (bytes_are d (\<lambda>D U. untouched bs all D0 D))"
  using assms
proof (induction env d verify bs workers chunk j v rep ms rule: stage_loop.induct)
  case (1 env d verify bs workers chunk j v rep ms)
  let ?E = "bytes_are d (\<lambda>D U. untouched bs all D0 D)"
  let ?Q = "\<lambda>rep'. bytes_are d (\<lambda>D U. untouched bs all D0 D \<and>
       (sr_complete rep' \<longrightarrow> separate bs all \<longrightarrow> (\<forall>m\<in>set all. settled bs D0 V0 m D U)))"
  let ?K = "loop_inv d bs D0 all V0 v"
  have ck: "triple (bytes_are d ?K) (on_journal (checkpoint ph) j) (\<lambda>_. bytes_are d ?K) ?E" for ph
    by (rule triple_conseq [OF triple_journal [OF 1(6) disjI2 [OF refl], where J = ?K]]) (auto simp: bytes_are_def loop_inv_def)
  show ?case
  proof (cases "dropWhile (\<lambda>m. om_transaction_id m \<in> v) ms")
    case Nil
    have "\<forall>m\<in>set all. om_transaction_id m \<in> v" using dropWhile_facts [OF Nil, of "\<lambda>_ _. True"] 1(3) by auto
    then have fin: "?K D U \<Longrightarrow> untouched bs all D0 D \<and> (separate bs all \<longrightarrow> (\<forall>m\<in>set all. settled bs D0 V0 m D U))" for D U
      unfolding loop_inv_def by blast
    show ?thesis
      unfolding stage_loop.simps [of env d verify bs workers chunk j v rep ms] Nil list.case
      by (rule triple_bind [OF ck], rule triple_return) (use fin in \<open>auto simp: bytes_are_def\<close>)
  next
    case (Cons m ms')
    note dw = dropWhile_facts [OF Cons, of "apart_moves bs"]
    obtain batch rest where tb: "take_batch (max 1 workers) v (m # ms') = (batch, rest)" by fastforce
    note sub = take_batch_sub [OF tb]
    have all: "set batch \<subseteq> set all" "set rest \<subseteq> set all" using sub(1,2) dw 1(2) by auto
    have sep: "dsts_apart bs batch" "dsts_apart bs rest" if "separate bs all"
      using dw sub(5) 1(4) [OF that] by (auto simp: dsts_apart_def)
    let ?v = "v \<union> set (map om_transaction_id batch)"
    have cover: "\<forall>m\<in>set all. om_transaction_id m \<in> ?v \<or> m \<in> set rest" using 1(3) dw sub(4) by fastforce
    have paused: "triple (bytes_are d ?K) (bind_io (on_journal (checkpoint Phase_paused) j) (\<lambda>_. return_io (rep\<lparr>sr_paused := True\<rparr>))) ?Q ?E"
      by (rule triple_bind [OF ck], rule triple_return) (use 1(5) in \<open>auto simp: bytes_are_def loop_inv_def\<close>)
    have bt: "triple (bytes_are d ?K) (stage_batch d verify bs chunk (se_order env (length (m # ms'))) j batch)
        (\<lambda>jc. bytes_are d (\<lambda>D U. loop_inv d bs D0 all V0 ?v D U \<and> bd_fd (j_device (fst jc)) \<noteq> bd_fd d)) ?E"
    proof (rule triple_conseq [OF stage_batch_ok [OF loop_frame [OF all(1) sub(3) sep(1), of d D0 V0] loop_inv_flush 1(6)]])
      have "settled bs D0 V0 m D U"
        if hyp: "separate bs all" "m \<in> set all" "om_transaction_id m \<in> ?v" "?K D U"
          "\<forall>m\<in>set batch. om_unwritten m \<or> (separate bs all \<longrightarrow> dst_data bs D m = src_data bs D0 m \<and> dst_data bs U m = src_data bs D0 m)" for m D U
      proof (cases "om_transaction_id m \<in> v")
        case False
        then obtain m' where m': "m' \<in> set batch" "om_transaction_id m' = om_transaction_id m" using hyp(3) by auto
        have "m' = m" using hyp(1,2) m' all(1) by (auto simp: separate_def distinct_map inj_on_def)
        then show ?thesis using hyp m'(1) by (auto simp: settled_def)
      qed (use hyp in \<open>auto simp: loop_inv_def\<close>)
      then show "bytes_are d (\<lambda>D U. loop_inv d bs D0 all V0 ?v D U \<and> bd_fd (j_device (fst jc)) \<noteq> bd_fd d) w"
        if "bytes_are d (\<lambda>D U. ?K D U \<and> bd_fd (j_device (fst jc)) \<noteq> bd_fd d \<and> length (snd jc) = length batch
          \<and> (\<forall>m\<in>set batch. om_unwritten m \<or> (separate bs all \<longrightarrow> dst_data bs D m = src_data bs D0 m \<and> dst_data bs U m = src_data bs D0 m))) w" for jc w
        using that unfolding bytes_are_def loop_inv_def by blast
    qed (auto simp: bytes_are_def loop_inv_def)
    show ?thesis
      unfolding stage_loop.simps [of env d verify bs workers chunk j v rep ms] Cons list.case tb Let_def prod.case
    proof (rule triple_pure_bind [OF pure_cancel], goal_cases)
      case (2 stop)
      show ?case
      proof (rule triple_if, goal_cases)
        case 1
        show ?case by (rule paused)
      next
        case ns: 2
        show ?case
        proof (rule triple_bind [OF bt])
          fix jc
          show "triple (bytes_are d (\<lambda>D U. loop_inv d bs D0 all V0 ?v D U \<and> bd_fd (j_device (fst jc)) \<noteq> bd_fd d))
            (case jc of (j', cs) \<Rightarrow> stage_loop env d verify bs workers chunk j' ?v (count_copies cs rep) rest) ?Q ?E"
          proof (rule triple_static [where A = "bd_fd (j_device (fst jc)) \<noteq> bd_fd d"], goal_cases)
          case 2
          obtain j' cs where jc: "jc = (j', cs)" by (cases jc)
          have "\<not> sr_complete (count_copies cs rep)"
          proof -
            have "sr_complete (count_copies cs r) = sr_complete r" for r by (induction cs arbitrary: r) (simp_all add: count_copies_def)
            then show ?thesis using 1(5) by simp
          qed
          then show ?case
            unfolding jc prod.case
            by (intro triple_conseq [OF 1(1) [OF Cons ns tb [symmetric] refl all(2) cover sep(2)]]) (use 2 jc in \<open>auto simp: bytes_are_def\<close>)
          qed auto
        qed
      qed
    qed (simp add: loop_inv_def)
  qed
qed


section \<open>Resuming\<close>

lemma reads_verify_chunks:
  assumes "contiguous pos cs tot" "pos \<le> tot" "unat dst + tot \<le> unat (n :: u64)"
  shows "reads F (\<lambda>c. c = crc32c (get_bytes (unat dst + pos) (tot - pos) (f_data (F (bd_fd d)))) crc) (verify_chunks d dst cs crc)"
  using assms
proof (induction cs arbitrary: pos crc)
  case Nil
  then have "crc = crc32c (get_bytes (unat dst + pos) (tot - pos) (f_data (F (bd_fd d)))) crc"
    by (simp add: get_bytes_def crc32c_ref crc_ref_def)
  then show ?case unfolding verify_chunks.simps by (rule reads_simple(1))
next
  case (Cons c cs)
  let ?D = "f_data (F (bd_fd d))"
  have c: "fst c = pos" "pos + snd c \<le> tot" "contiguous (pos + snd c) cs tot" using Cons.prems(1) by auto
  have off: "unat (dst + of_nat pos) = unat dst + pos" using Cons.prems(2,3) by (intro offset_nat [of _ _ n]) simp
  have split: "get_bytes (unat dst + pos) (tot - pos) ?D
      = get_bytes (unat dst + pos) (snd c) ?D @ get_bytes (unat dst + (pos + snd c)) (tot - (pos + snd c)) ?D"
    using get_bytes_append [of "unat dst + pos" "snd c" ?D "tot - (pos + snd c)"] c(2) by (simp add: add.assoc)
  show ?case
    unfolding verify_chunks.simps
    by (rule reads_bind [OF reads_exact]) (use Cons.IH [OF c(3,2) Cons.prems(3)] in \<open>simp add: off c(1) split crc32c_append\<close>)
qed

lemma reads_verify_one:
  "reads F (\<lambda>crc. om_unwritten m \<or> crc = data_crc (dst_data bs (f_data (F (bd_fd d))) m)) (verify_one d m bs chunk)"
proof (cases "om_unwritten m")
  case False
  show ?thesis
    unfolding verify_one_def using False
  proof (simp only: if_False, intro reads_lift_bind, goal_cases)
    case (1 x)
    obtain dst tot where x: "x = (dst, tot)" by (cases x)
    have "byte_range d (om_destination_block m) (om_block_count m) bs = Inr (dst, tot)" using 1 x by simp
    note br = byte_range_spec [OF this]
    have "contiguous 0 (chunk_seq (max (unat bs) chunk) (unat tot) 0) (unat tot)" using br(5) by (intro chunk_seq_contiguous) auto
    from reads_verify_chunks [OF this _ br(3)] show ?case
      unfolding x prod.case
      by (intro reads_bind [where P = "\<lambda>c. c = crc32c (dst_data bs (f_data (F (bd_fd d))) m) 0xffffffff"] reads_simple(1))
        (simp_all add: dst_data_def dst_off_def move_len_def br data_crc_def)
  qed
qed (simp only: verify_one_def if_True, rule reads_simple(1), simp)

lemma reads_resume_moves:
  "reads F (\<lambda>v'. \<forall>t\<in>v'. t \<in> v \<or> (\<exists>m\<in>set ms. om_transaction_id m = t \<and> (\<exists>vr. last_record Rec_copy_verified rs t = Some vr
      \<and> (om_unwritten m \<or> data_crc (dst_data bs (f_data (F (bd_fd d))) m) = jr_data_crc32c vr)))) (resume_moves d bs chunk rs ms v)"
proof (induction ms arbitrary: v)
  case (Cons m ms)
  let ?P = "\<lambda>m t. om_transaction_id m = t \<and> (\<exists>vr. last_record Rec_copy_verified rs t = Some vr
      \<and> (om_unwritten m \<or> data_crc (dst_data bs (f_data (F (bd_fd d))) m) = jr_data_crc32c vr))"
  have go: "reads F (\<lambda>v'. \<forall>t\<in>v'. t \<in> v \<or> (\<exists>m\<in>set (m # ms). ?P m t)) (resume_moves d bs chunk rs ms v1)"
    if "\<forall>t\<in>v1. t \<in> v \<or> ?P m t" for v1
    by (rule reads_conseq [OF Cons]) (use that in fastforce)
  show ?case
  proof (cases "last_record Rec_relocation_intent rs (om_transaction_id m)")
    case (Some r)
    show ?thesis
    proof (cases "last_record Rec_copy_verified rs (om_transaction_id m)")
      case None
      show ?thesis
        unfolding resume_moves.simps Some None option.case by (intro reads_if reads_simple(2) go) simp
    next
      case vr: (Some vr)
      show ?thesis
        unfolding resume_moves.simps Some vr option.case
        by (intro reads_if reads_simple(2) reads_bind [OF reads_verify_one] go) (use vr in auto)
    qed
  next
    case None
    show ?thesis unfolding resume_moves.simps None option.case by (rule reads_simple(2))
  qed
qed (unfold resume_moves.simps, rule reads_simple(1), simp)

text \<open>A copy that was verified before: the journal has a record of it, and the destination has its checksum.\<close>

definition resumed_copy :: "(nat \<Rightarrow> file_obj) \<Rightarrow> block_device \<Rightarrow> u64 \<Rightarrow> journal \<Rightarrow> owner_move \<Rightarrow> bool" where
  "resumed_copy F d bs j m \<longleftrightarrow> (\<exists>w1 w2 rs vr. w_files w1 = F \<and> records j w1 = (Inr rs, w2)
     \<and> last_record Rec_copy_verified rs (om_transaction_id m) = Some vr
     \<and> data_crc (dst_data bs (f_data (F (bd_fd d))) m) = jr_data_crc32c vr)"

lemma pure_records [pure_intros]: "pure_io (records j)"
proof -
  have "pure_io (read_records n d i)" for n d i by (induction n arbitrary: i) (auto intro!: pure_intros)
  then show ?thesis unfolding records_def Let_def by (intro pure_intros)
qed

lemma reads_run: "pure_io m \<Longrightarrow> reads F (\<lambda>x. \<exists>w w'. w_files w = F \<and> m w = (Inr x, w')) m"
  by (rule readsI) (auto simp: pure_step)

lemma reads_resume_check:
  assumes "distinct (map om_transaction_id (op_moves plan))"
  shows "reads F (\<lambda>v. \<forall>m\<in>set (op_moves plan). om_transaction_id m \<in> v \<longrightarrow> om_unwritten m \<or> resumed_copy F d (op_block_size plan) j m)
    (resume_check d plan chunk j)"
  unfolding resume_check_def
proof (intro reads_if reads_simple(2) reads_bind [OF reads_run [OF pure_records]], goal_cases)
  case (1 rs)
  show ?case
  proof (rule reads_conseq [OF reads_resume_moves], intro ballI impI, goal_cases)
    case (1 v m)
    then obtain m' vr where m': "m' \<in> set (op_moves plan)" "om_transaction_id m' = om_transaction_id m"
      "last_record Rec_copy_verified rs (om_transaction_id m) = Some vr"
      "om_unwritten m' \<or> data_crc (dst_data (op_block_size plan) (f_data (F (bd_fd d))) m') = jr_data_crc32c vr" by blast
    have "m' = m" using assms m'(1,2) 1(2) by (auto simp: distinct_map inj_on_def)
    then show ?case using m' \<open>\<exists>w w'. w_files w = F \<and> records j w = (Inr rs, w')\<close> unfolding resumed_copy_def by blast
  qed
qed


section \<open>Before the loop\<close>

lemma create_spec:
  assumes "create pid u path i cap w = (r, w')"
  shows "others_kept (w_next w) w w' \<and> (\<forall>j. r = Inr j \<longrightarrow> bd_fd (j_device j) = w_next w)"
proof -
  let ?temp = "journal_temp_name path pid u"
  let ?j = "\<lambda>d. \<lparr>j_device = d, j_status = empty_status\<lparr>js_identity := i, js_phase := Phase_prepared,
                                  js_header_sequence := 1, js_records_valid := True\<rparr>, j_writable = True\<rparr>"
  let ?fill = "\<lambda>d. bind_io (write_header (?j d) 0 1 Phase_prepared 0) (\<lambda>_. bind_io (write_header (?j d) 1 0 Phase_prepared 0) (\<lambda>_. flush d))"
  let ?in = "bind_io (create_file ?temp cap) (\<lambda>d. bind_io (?fill d) (\<lambda>_.
      bind_io (publish_file_noreplace ?temp path ''transaction journal'') (\<lambda>_. return_io (?j d))))"
  have inner: "others_kept (w_next v) v v' \<and> (\<forall>j. q = Inr j \<longrightarrow> w_names v' path = Some (w_next v))" if "?in v = (q, v')" for v q v'
    using that
  proof (cases rule: bind_io_cases)
    case (failed e)
    then show ?thesis using create_file_spec(1) by blast
  next
    case (step d v1)
    note c = create_file_spec(2) [OF step(1) refl] and o1 = create_file_spec(1) [OF step(1)]
    have t: "touches (bd_fd d) (?fill d)" using touches_header [of "?j d"] by (intro touch_intros) simp_all
    have dd: "same_dirs (?fill d)" unfolding write_header_def by (intro dirs_intros)
    from step(2) show ?thesis
    proof (cases rule: bind_io_cases)
      case (failed e)
      then show ?thesis using touchesD [OF t failed(1)] o1 c by (auto intro: others_kept_trans)
    next
      case (step x v2)
      have o2: "others_kept (w_next v) v v2" using touchesD [OF t step(1)] o1 c by (auto intro: others_kept_trans)
      have n: "w_names v2 ?temp = Some (w_next v)" using same_dirsD [OF dd step(1)] c by (simp add: dirs_def)
      from step(2) obtain y v3 where p: "publish_file_noreplace ?temp path ''transaction journal'' v2 = (y, v3)" "v' = v3"
        "\<forall>j. q = Inr j \<longrightarrow> y = Inr ()"
        by (cases rule: bind_io_cases) auto
      note pub = publish_file_spec [OF p(1) n temp_name_neq]
      show ?thesis using pub(1,3) p(2,3) o2 by (auto simp: others_kept_def)
    qed
  qed
  obtain x w1 where x: "path_exists path w = (x, w1)" by fastforce
  have w1: "w_files w1 = w_files w" "w_next w1 = w_next w"
    using x by (auto simp: path_exists_def dest!: next_event_names split: prod.splits sysev.splits)
  have same: "others_kept (w_next w) w w1" using w1(1) by (rule others_kept_refl)
  show ?thesis
  proof (cases "cap < records_offset + record_bytes * 16 \<or> x \<noteq> Inr False")
    case True
    then consider "cap < records_offset + record_bytes * 16" | e where "\<not> cap < records_offset + record_bytes * 16" "x = Inl e"
      | "\<not> cap < records_offset + record_bytes * 16" "x = Inr True" by (cases x) auto
    then show ?thesis using assms x same by cases (auto simp: create_def others_kept_refl)
  next
    case False
    obtain q v where q: "?in w1 = (q, v)" by fastforce
    have run: "bind_io (with_cleanup ?temp ?in) (\<lambda>j. bind_io (open_write path) (\<lambda>d. return_io (j\<lparr>j_device := d,
           j_status := (j_status j)\<lparr>js_header_a_valid := True, js_header_b_valid := True\<rparr>\<rparr>))) w1 = (r, w')"
      using assms x False by (simp add: create_def Let_def bind_io_assoc)
    have i: "others_kept (w_next w) w1 v" "\<forall>j. q = Inr j \<longrightarrow> w_names v path = Some (w_next w)" using inner [OF q] w1(2) by auto
    from run show ?thesis
    proof (cases rule: bind_io_cases)
      case (failed e)
      have "w_files w' = w_files v" using failed(1) q by (auto simp: with_cleanup_def unlink_files split: sum.splits failure.splits)
      then show ?thesis using i(1) same failed(2) by (auto simp: others_kept_def)
    next
      case (step j v1)
      have v: "v1 = v" "q = Inr j" using step(1) q by (auto simp: with_cleanup_def split: sum.splits failure.splits)
      from step(2) obtain y v2 where y: "open_write path v = (y, v2)" "w' = v2" "\<forall>j. r = Inr j \<longrightarrow> y = Inr (j_device j)"
        unfolding v(1) by (cases rule: bind_io_cases) auto
      show ?thesis using open_write_spec [OF y(1)] y(2,3) i v(2) same by (auto simp: others_kept_def)
    qed
  qed
qed

lemma ext4_dirs [dirs_intros]:
  "same_dirs (read_group_desc d sb g)" "same_dirs (read_block_bitmap d sb gd)"
  "same_dirs (read_inode_bitmap d sb gd)" "same_dirs (read_raw_superblock d)" "same_dirs (read_group_descriptor_raw d ctx g)"
  "same_dirs (inode_offset d ctx ino)" "same_dirs (read_inode_raw d ctx ino)" "same_dirs (load_metadata_context d tol)"
  "same_dirs cancellation_requested"
proof -
  show g: "same_dirs (read_group_desc d sb g)" for sb g unfolding read_group_desc_def Let_def by (intro dirs_intros)
  show "same_dirs (read_block_bitmap d sb gd)" "same_dirs (read_inode_bitmap d sb gd)"
    unfolding read_block_bitmap_def read_inode_bitmap_def read_bitmap_def Let_def by (intro dirs_intros)+
  show r: "same_dirs (read_raw_superblock d)" unfolding read_raw_superblock_def by (intro dirs_intros)
  show "same_dirs (read_group_descriptor_raw d ctx g)" unfolding read_group_descriptor_raw_def Let_def by (intro dirs_intros)
  show o: "same_dirs (inode_offset d ctx ino)" unfolding inode_offset_def Let_def by (intro dirs_intros g)
  show "same_dirs (read_inode_raw d ctx ino)" unfolding read_inode_raw_def by (intro dirs_intros o)
  show "same_dirs (load_metadata_context d tol)" unfolding load_metadata_context_def Let_def by (intro dirs_intros r)
  show "same_dirs cancellation_requested" by (auto simp: same_dirs_def dirs_def cancellation_requested_def split: list.splits)
qed

lemma check_dirs: "same_dirs (check_inodes d ctx first ib xs rep)" "same_dirs (check_metadata_groups d ctx scan gs rep)"
proof -
  show i: "same_dirs (check_inodes d ctx first ib xs rep)" for first ib xs rep
    by (induction xs arbitrary: rep) (simp_all only: check_inodes.simps Let_def, (intro dirs_intros | assumption)+)
  show "same_dirs (check_metadata_groups d ctx scan gs rep)"
    by (induction gs arbitrary: rep) (simp_all only: check_metadata_groups.simps Let_def, (intro dirs_intros i | assumption)+)
qed

lemma pure_check_groups: "pure_io (check_metadata_groups d ctx scan gs rep)"
  by (induction gs arbitrary: rep) (simp_all only: check_metadata_groups.simps Let_def, (intro pure_intros | assumption)+)

lemma stage_ready_quiet: "pure_io (stage_ready d)" "same_dirs (stage_ready d)"
proof -
  have v: "pure_io (verify_metadata d s)" "same_dirs (verify_metadata d s)" for s
    unfolding verify_metadata_def Let_def by (intro pure_intros pure_check_groups dirs_intros check_dirs)+
  show "pure_io (stage_ready d)" unfolding stage_ready_def by (intro pure_intros v)
  show "same_dirs (stage_ready d)" unfolding stage_ready_def by (intro dirs_intros v)
qed


lemma open_stage_journal_spec:
  assumes "open_stage_journal env d path plan fu w = (q, w')" and "w_names w path \<noteq> Some f" and "f < w_next w"
  shows "w_files w' f = w_files w f \<and> (\<forall>j ex. q = Inr (j, ex) \<longrightarrow> bd_fd (j_device j) \<noteq> f
    \<and> (ex \<longrightarrow> w_names w path = Some (bd_fd (j_device j)) \<and> w_files w' = w_files w))"
proof -
  obtain x w1 where x: "path_exists path w = (x, w1)" by fastforce
  have w1: "w_files w1 = w_files w" "w_next w1 = w_next w" "w_names w1 = w_names w"
    using x by (auto simp: path_exists_def dest!: next_event_names split: prod.splits sysev.splits)
  consider e where "x = Inl e" | "x = Inr True" | "x = Inr False" by (cases x) auto
  then show ?thesis
  proof cases
    case 1
    then show ?thesis using assms(1) x w1 by (auto simp: open_stage_journal_def)
  next
    case 2
    have "bind_io (journal_open path True) (\<lambda>j. return_io (j, True)) w1 = (q, w')" using assms(1) x 2 by (simp add: open_stage_journal_def)
    then obtain y where y: "journal_open path True w1 = (y, w')" "\<forall>j ex. q = Inr (j, ex) \<longrightarrow> y = Inr j"
      by (cases rule: bind_io_cases) auto
    show ?thesis using journal_open_spec [OF y(1)] y(2) w1 assms(2) by auto
  next
    case 3
    let ?i = "\<lparr>id_operation_uuid = se_operation_uuid env, id_filesystem_uuid = fu,
              id_device_size = g_size_bytes (bd_geometry d), id_target_size = op_target_bytes plan\<rparr>"
    have "bind_io (lift_io (journal_capacity (length (op_moves plan)))) (\<lambda>cap.
        bind_io (create (se_pid env) (se_temp_uuid env) path ?i cap) (\<lambda>j. return_io (j, False))) w1 = (q, w')"
      using assms(1) x 3 by (simp add: open_stage_journal_def)
    then show ?thesis
    proof (cases rule: lift_bind_cases)
      case (1 e)
      then show ?thesis using w1 by simp
    next
      case (2 cap)
      from 2(2) obtain y where y: "create (se_pid env) (se_temp_uuid env) path ?i cap w1 = (y, w')" "\<forall>j ex. q = Inr (j, ex) \<longrightarrow> y = Inr j \<and> \<not> ex"
        by (cases rule: bind_io_cases) auto
      have "w_files w' f = w_files w1 f" by (rule others_keptD [OF conjunct1 [OF create_spec [OF y(1)]]]) (use assms(3) w1 in simp)
      moreover have "\<forall>j. y = Inr j \<longrightarrow> bd_fd (j_device j) \<noteq> f" using conjunct2 [OF create_spec [OF y(1)]] w1(2) assms(3) by simp
      ultimately show ?thesis using y(2) w1(1) by (simp; blast)
    qed
  qed
qed

lemma stage_start_spec:
  assumes "stage_start d plan chunk (j, ex) w = (q, w')" and "bd_fd (j_device j) \<noteq> bd_fd d"
  shows "w_files w' (bd_fd d) = w_files w (bd_fd d) \<and> (\<forall>j' v. q = Inr (j', v) \<longrightarrow> bd_fd (j_device j') \<noteq> bd_fd d
    \<and> (distinct (map om_transaction_id (op_moves plan)) \<longrightarrow> (\<forall>m\<in>set (op_moves plan). om_transaction_id m \<in> v
         \<longrightarrow> om_unwritten m \<or> (ex \<and> resumed_copy (w_files w) d (op_block_size plan) j m))))"
proof (cases ex)
  case True
  have "bind_io (resume_check d plan chunk j) (\<lambda>v. return_io (j, v)) w = (q, w')" using assms(1) True by (simp add: stage_start_def)
  then obtain y where y: "resume_check d plan chunk j w = (y, w')" "\<forall>j' v. q = Inr (j', v) \<longrightarrow> y = Inr v \<and> j' = j"
    by (cases rule: bind_io_cases) auto
  have p: "pure_io (resume_check d plan chunk j)"
  proof -
    have "pure_io (resume_moves d bs chunk rs ms v)" for bs rs ms v
    proof (induction ms arbitrary: v)
      case (Cons m ms)
      then show ?case unfolding resume_moves.simps by (intro pure_option pure_intros)
    qed (unfold resume_moves.simps, rule pure_simple)
    then show ?thesis unfolding resume_check_def by (intro pure_intros)
  qed
  show ?thesis
    using pure_step [OF p y(1)] readsD(2) [OF reads_resume_check refl y(1)] y(2) assms(2) True by auto
next
  case False
  let ?a = "on_journal (append_batch (map (move_record Rec_relocation_intent 0) (op_moves plan))) j"
  have "bind_io ?a (\<lambda>j1. bind_io (on_journal (checkpoint Phase_relocating) j1) (\<lambda>j2. return_io (j2, {}))) w = (q, w')"
    using assms(1) False by (simp add: stage_start_def)
  then show ?thesis
  proof (cases rule: bind_io_cases)
    case (failed e)
    then show ?thesis using journal_elsewhere [OF assms(2) disjI1 [OF refl] failed(1)] by simp
  next
    case (step j1 w1)
    note a = journal_elsewhere [OF assms(2) disjI1 [OF refl] step(1)]
    then have fd: "bd_fd (j_device j1) \<noteq> bd_fd d" by simp
    from step(2) obtain y where "on_journal (checkpoint Phase_relocating) j1 w1 = (y, w')" "\<forall>j' v. q = Inr (j', v) \<longrightarrow> y = Inr j' \<and> v = {}"
      by (cases rule: bind_io_cases) auto
    then show ?thesis using journal_elsewhere [OF fd disjI2 [OF refl]] a by fastforce
  qed
qed




lemma stage_run_spec:
  assumes run: "stage_loop env d verify (op_block_size plan) wk chunk j v (start_report plan v) (op_moves plan) w1 = (r, w')"
    and on: "on_file d w" and w1: "w_files w1 (bd_fd d) = w_files w (bd_fd d)" and j: "bd_fd (j_device j) \<noteq> bd_fd d"
  shows "untouched (op_block_size plan) (op_moves plan) (data_of d w) (data_of d w')
    \<and> (\<forall>rep. r = Inr rep \<longrightarrow> sr_complete rep \<longrightarrow> separate (op_block_size plan) (op_moves plan) \<longrightarrow>
        (\<forall>m\<in>set (op_moves plan). settled (op_block_size plan) (data_of d w) v m (data_of d w') (f_durable (w_files w' (bd_fd d)))))"
proof -
  let ?bs = "op_block_size plan" and ?ms = "op_moves plan"
  have c: "\<not> sr_complete (start_report plan v)" by (simp add: start_report_def Let_def)
  have t: "triple (bytes_are d (loop_inv d ?bs (data_of d w) ?ms v v)) (stage_loop env d verify ?bs wk chunk j v (start_report plan v) ?ms)
    (\<lambda>rep'. bytes_are d (\<lambda>D U. untouched ?bs ?ms (data_of d w) D \<and>
       (sr_complete rep' \<longrightarrow> separate ?bs ?ms \<longrightarrow> (\<forall>m\<in>set ?ms. settled ?bs (data_of d w) v m D U))))
    (bytes_are d (\<lambda>D U. untouched ?bs ?ms (data_of d w) D))"
    by (rule stage_loop_ok) (use c j in \<open>auto simp: separate_def\<close>)
  have pre: "bytes_are d (loop_inv d ?bs (data_of d w) ?ms v v) w1"
    using on w1 by (simp add: bytes_are_def loop_inv_def untouched_def settled_def on_file_def)
  show ?thesis
  proof (cases r)
    case (Inl e)
    then show ?thesis using triple_Inl [OF t pre] run by (simp add: bytes_are_def)
  next
    case (Inr rep)
    then show ?thesis using triple_Inr [OF t pre] run by (simp add: bytes_are_def)
  qed
qed

text \<open>The run up to the journal.\<close>

lemma stage_cases:
  assumes run: "stage_relocation env d plan opts w = (r, w')"
    and names: "w_names w (so_journal_path opts) \<noteq> Some (bd_fd d)" and fd: "bd_fd d < w_next w"
  obtains (quiet) "w_files w' (bd_fd d) = w_files w (bd_fd d)" "\<forall>rep. r = Inr rep \<longrightarrow> op_moves plan = []"
  | (staged) j0 chunk j v verify wk w2 where "bd_fd (j_device j) \<noteq> bd_fd d" "w_files w2 (bd_fd d) = w_files w (bd_fd d)"
      "distinct (map om_transaction_id (op_moves plan)) \<longrightarrow> (\<forall>m\<in>set (op_moves plan). om_transaction_id m \<in> v
         \<longrightarrow> om_unwritten m \<or> (w_names w (so_journal_path opts) = Some (bd_fd (j_device j0))
           \<and> resumed_copy (w_files w) d (op_block_size plan) j0 m))"
      "stage_loop env d verify (op_block_size plan) wk chunk j v (start_report plan v) (op_moves plan) w2 = (r, w')"
proof -
  let ?tuning = "dp_tuning (profile_device (se_hardware_concurrency env) (se_rotational env) d)"
  let ?chunk = "max (unat (op_block_size plan)) (it_large_io_bytes ?tuning)"
  have err: "thesis" if "w_files w' (bd_fd d) = w_files w (bd_fd d)" "r = Inl e" for e using quiet that by simp
  show ?thesis
  proof (cases "so_journal_path opts = []")
    case True
    then show ?thesis using run err by (auto simp: stage_relocation_def)
  next
    case False
    note r0 = run [unfolded stage_relocation_def if_not_P [OF False]]
    from r0 show ?thesis
    proof (cases rule: bind_io_cases)
      case (failed e)
      then show ?thesis using pure_step [OF pure_offline failed(1)] err by simp
    next
      case (step u w1)
      have f1: "w_files w1 = w_files w" "dirs w1 = dirs w"
        using pure_step [OF pure_offline step(1)] same_dirsD [OF sync_dirs(1) step(1)] by simp_all
      from step(2) show ?thesis
      proof (cases rule: bind_io_cases)
        case (failed e)
        then show ?thesis using pure_step [OF pure_safety(1) failed(1)] f1 err by simp
      next
        case (step ds w2)
        have f2: "w_files w2 = w_files w" "dirs w2 = dirs w"
          using pure_step [OF pure_safety(1) step(1)] same_dirsD [OF safety_dirs(1) step(1)] f1 by simp_all
        show ?thesis
        proof (cases "ds_block_device ds \<and> \<not> so_allow_block_device opts \<or> op_moves plan = []")
          case True
          then show ?thesis using step(2) f2 quiet by (auto split: if_splits)
        next
          case False
          from step(2) False have "bind_io (stage_ready d) (\<lambda>fu.
            bind_io (open_stage_journal env d (so_journal_path opts) plan fu) (\<lambda>je.
            bind_io (lift_io (check_stage_identity d plan fu (fst je))) (\<lambda>_.
            bind_io (stage_start d plan ?chunk je) (\<lambda>(j, v).
            stage_loop env d (so_verify_after_write opts) (op_block_size plan) (it_workers ?tuning) ?chunk j v
              (start_report plan v) (op_moves plan))))) w2 = (r, w')"
            by (simp only: Let_def split: if_split_asm) auto
          then show ?thesis
          proof (cases rule: bind_io_cases)
            case (failed e)
            then show ?thesis using pure_step [OF stage_ready_quiet(1) failed(1)] f2 err by simp
          next
            case a: (step fu w3)
            have n: "w_names w3 (so_journal_path opts) \<noteq> Some (bd_fd d)" "bd_fd d < w_next w3" and w3: "w_files w3 = w_files w" "w_names w3 = w_names w"
              using pure_step [OF stage_ready_quiet(1) a(1)] same_dirsD [OF stage_ready_quiet(2) a(1)] f2 names fd by (auto simp: dirs_def)
            from a(2) show ?thesis
            proof (cases rule: bind_io_cases)
              case (failed e)
              then show ?thesis using open_stage_journal_spec [OF failed(1) n] w3 err by simp
            next
              case b: (step je w4)
              obtain j0 ex where je: "je = (j0, ex)" by (cases je)
              note os = open_stage_journal_spec [OF b(1) n]
              have w4: "w_files w4 (bd_fd d) = w_files w (bd_fd d)" "bd_fd (j_device j0) \<noteq> bd_fd d"
                  "ex \<Longrightarrow> w_names w (so_journal_path opts) = Some (bd_fd (j_device j0)) \<and> w_files w4 = w_files w"
                using os je w3 by auto
              from b(2) show ?thesis
              proof (cases rule: lift_bind_cases)
                case (1 e)
                then show ?thesis using w4 err by simp
              next
                case c: (2 x)
                from c(2) show ?thesis
                proof (cases rule: bind_io_cases)
                  case (failed e)
                  then show ?thesis using stage_start_spec [OF failed(1) [unfolded je] w4(2)] w4(1) err by simp
                next
                  case s: (step jv w5)
                  obtain j v where jv: "jv = (j, v)" by (cases jv)
                  note ss = stage_start_spec [OF s(1) [unfolded je] w4(2)]
                  show ?thesis
                  proof (rule staged)
                    show "bd_fd (j_device j) \<noteq> bd_fd d" "w_files w5 (bd_fd d) = w_files w (bd_fd d)" using ss jv w4(1) by simp_all
                    show "distinct (map om_transaction_id (op_moves plan)) \<longrightarrow> (\<forall>m\<in>set (op_moves plan). om_transaction_id m \<in> v
                       \<longrightarrow> om_unwritten m \<or> (w_names w (so_journal_path opts) = Some (bd_fd (j_device j0))
                         \<and> resumed_copy (w_files w) d (op_block_size plan) j0 m))"
                      using ss jv w4(3) je by fastforce
                  qed (use s(2) jv in simp)
                qed
              qed
            qed
          qed
        qed
      qed
    qed
  qed
qed

lemma stage_relocation_spec:
  assumes run: "stage_relocation env d plan opts w = (r, w')" and on: "on_file d w"
    and names: "w_names w (so_journal_path opts) \<noteq> Some (bd_fd d)" and fd: "bd_fd d < w_next w"
  shows "untouched (op_block_size plan) (op_moves plan) (data_of d w) (data_of d w')
    \<and> (\<forall>rep. r = Inr rep \<longrightarrow> sr_complete rep \<longrightarrow> separate (op_block_size plan) (op_moves plan) \<longrightarrow>
        (\<forall>m\<in>set (op_moves plan). om_unwritten m
           \<or> (dst_data (op_block_size plan) (data_of d w') m = src_data (op_block_size plan) (data_of d w) m
              \<and> dst_data (op_block_size plan) (f_durable (w_files w' (bd_fd d))) m = src_data (op_block_size plan) (data_of d w) m)
           \<or> (\<exists>j. w_names w (so_journal_path opts) = Some (bd_fd (j_device j)) \<and> resumed_copy (w_files w) d (op_block_size plan) j m
              \<and> dst_data (op_block_size plan) (data_of d w') m = dst_data (op_block_size plan) (data_of d w) m)))"
    (is "?safe w' \<and> ?done r w'")
proof -
  let ?bs = "op_block_size plan" and ?ms = "op_moves plan" and ?path = "so_journal_path opts"
  from run names fd show ?thesis
  proof (cases rule: stage_cases)
    case quiet
    then show ?thesis by (auto simp: untouched_def)
  next
    case (staged j0 chunk j v verify wk w2)
    have s: "om_unwritten m
           \<or> (dst_data ?bs (data_of d w') m = src_data ?bs (data_of d w) m \<and> dst_data ?bs (f_durable (w_files w' (bd_fd d))) m = src_data ?bs (data_of d w) m)
           \<or> (\<exists>j. w_names w ?path = Some (bd_fd (j_device j)) \<and> resumed_copy (w_files w) d ?bs j m \<and> dst_data ?bs (data_of d w') m = dst_data ?bs (data_of d w) m)"
      if "separate ?bs ?ms" "m \<in> set ?ms" "settled ?bs (data_of d w) v m (data_of d w') (f_durable (w_files w' (bd_fd d)))" for m
      using that staged(3) unfolding settled_def separate_def by blast
    show ?thesis using stage_run_spec [OF staged(4) on staged(2,1)] s by blast
  qed
qed

section \<open>Properties\<close>

text \<open>C29. Staging a relocation is safe, in any order of the workers' steps and whatever fails, crashes or is cancelled: no byte of the
  device outside the destination ranges of the plan changes. When staging reports that it is complete and
  the plan is separate (different transactions, destinations apart from each other and from the sources), every move has
  the bytes of its source at its destination, also after a power loss, or it is an unwritten extent, or an
  earlier run had verified it and its destination still has the checksum that the journal recorded.\<close>

theorem stage_relocation_safe:
  assumes run: "stage_relocation env d plan opts w = (r, w')" and on: "on_file d w"
    and names: "w_names w (so_journal_path opts) \<noteq> Some (bd_fd d)" and fd: "bd_fd d < w_next w"
  shows "untouched (op_block_size plan) (op_moves plan) (data_of d w) (data_of d w')
    \<and> (\<forall>rep. r = Inr rep \<longrightarrow> sr_complete rep \<longrightarrow> separate (op_block_size plan) (op_moves plan) \<longrightarrow>
        (\<forall>m\<in>set (op_moves plan). om_unwritten m
           \<or> (dst_data (op_block_size plan) (data_of d w') m = src_data (op_block_size plan) (data_of d w) m
              \<and> dst_data (op_block_size plan) (f_durable (w_files w' (bd_fd d))) m = src_data (op_block_size plan) (data_of d w) m)
           \<or> (\<exists>j. w_names w (so_journal_path opts) = Some (bd_fd (j_device j)) \<and> resumed_copy (w_files w) d (op_block_size plan) j m
              \<and> dst_data (op_block_size plan) (data_of d w') m = dst_data (op_block_size plan) (data_of d w) m)))"
  using stage_relocation_spec [OF assms] .


definition sample_env :: stage_env where
  "sample_env = \<lparr>se_hardware_concurrency = 4, se_rotational = None, se_pid = 7, se_temp_uuid = replicate 16 1,
     se_operation_uuid = replicate 16 2, se_order = (\<lambda>_. [0, 0])\<rparr>"

definition sample_options :: stage_options where
  "sample_options = \<lparr>so_journal_path = ''j'', so_allow_block_device = False, so_verify_after_write = True, so_checkpoint_batch = 64\<rparr>"

lemma sample_host:
  "on_file (sample_device 65536) owner_world" "w_names owner_world (so_journal_path sample_options) \<noteq> Some (bd_fd (sample_device 65536))"
  "bd_fd (sample_device 65536) < w_next owner_world"
  using owner_world_facts(2) by (simp_all add: owner_world_def sample_world_def sample_device_def sample_options_def)

theorem stage_relocation_safe_witness:
  "\<exists>p. op_moves p = [data_move sample_extent 1 6] \<and> op_block_size p = 1024
     \<and> (\<forall>i<65536. i \<notin> {6144..<8192} \<longrightarrow>
          data_of (sample_device 65536) (snd (stage_relocation sample_env (sample_device 65536) p sample_options owner_world)) ! i = owner_image ! i)"
proof -
  let ?p = "\<lparr>op_block_size = 1024, op_target_blocks = 8, op_target_bytes = 8192, op_data_blocks_to_move = 2, op_tree_blocks_to_move = 0,
     op_unknown_allocated_blocks_above_target = 0, op_fixed_metadata_blocks_above_target = 0, op_legacy_blockmap_inodes = 0,
     op_allocated_inodes = 1, op_extent_inodes = 1, op_complete_owner_coverage = True, op_destinations_available = True,
     op_moves = [data_move sample_extent 1 6]\<rparr>"
  obtain r w' where run: "stage_relocation sample_env (sample_device 65536) ?p sample_options owner_world = (r, w')" by fastforce
  have "untouched 1024 [data_move sample_extent 1 6] owner_image (data_of (sample_device 65536) w')"
    using stage_relocation_safe [OF run sample_host] by (simp add: owner_world_facts)
  then have "\<forall>i<65536. i \<notin> {6144..<8192} \<longrightarrow> data_of (sample_device 65536) w' ! i = owner_image ! i"
    by (simp add: untouched_def owner_image_parts in_range_def dst_off_def move_len_def data_move_def sample_extent_def)
  then show ?thesis using run by (intro exI [of _ ?p]) simp
qed

text \<open>A planned staging: destinations are blocks that the bitmaps mark free, so no block in use changes.\<close>

lemma blocks_bytes_apart:
  assumes "set [a..<a + n] \<inter> set [b..<b + k] = {}"
  shows "ranges_apart (a * s) (n * s) (b * s) (k * s)"
proof (cases "n = 0 \<or> k = 0")
  case False
  then have "a + n \<le> b \<or> b + k \<le> a" using assms by (cases "a \<le> b") (auto simp: disjoint_iff)
  then have "(a + n) * s \<le> b * s \<or> (b + k) * s \<le> a * s" by auto
  then show ?thesis by (simp add: ranges_apart_def add_mult_distrib)
qed (auto simp: ranges_apart_def)

lemma byte_block: "0 < s \<Longrightarrow> in_range (b * s) (k * s) i \<Longrightarrow> i div s \<in> set [b..<b + k]"
  by (auto simp: in_range_def less_mult_imp_div_less add_mult_distrib [symmetric] div_le_mono dest: div_le_mono [of "b * s" i s])

lemma fst_used_map: "sb_ok sb \<Longrightarrow> map fst (used_map sb D) = [unat (sb_first_data_block sb)..<unat (sb_blocks_count sb)]"
  using groups_tile [of sb] by (simp add: used_map_def disk_bits_def map_concat comp_def fst_group_bits)

lemma plan_separate:
  assumes p: "plan_ok sb D p" and bits: "distinct (map fst (used_map sb D))" and few: "length (op_moves p) < 2 ^ 64"
    and src: "\<forall>m\<in>set (op_moves p). \<forall>b\<in>set (source_blocks m). (b, True) \<in> set (used_map sb D)"
  shows "separate bs (op_moves p)"
proof -
  let ?ms = "op_moves p"
  have one: "\<not> ((b, True) \<in> set (used_map sb D) \<and> (b, False) \<in> set (used_map sb D))" for b
    using bits unfolding distinct_map inj_on_def by (metis fst_conv snd_conv)
  have dest: "(b, False) \<in> set (used_map sb D)" if "m \<in> set ?ms" "b \<in> set (dest_blocks m)" for m b
    using p that by (auto simp: plan_ok_def)
  have ids: "distinct (map om_transaction_id ?ms)"
  proof -
    have "distinct (map (\<lambda>i. of_nat (Suc i) :: u64) [0..<length ?ms])"
    proof (subst distinct_map, intro conjI inj_onI)
      fix x y assume xy: "x \<in> set [0..<length ?ms]" "y \<in> set [0..<length ?ms]" "(of_nat (Suc x) :: u64) = of_nat (Suc y)"
      have u: "unat (of_nat k :: u64) = k" if "k < 2 ^ 64" for k using that by (simp add: unat_of_nat take_bit_nat_eq_self)
      have "Suc x < 2 ^ 64" "Suc y < 2 ^ 64" using xy(1,2) few by simp_all
      then have "Suc x = Suc y" using arg_cong [OF xy(3), of unat] by (simp only: u)
      then show "x = y" by simp
    qed simp
    then show ?thesis using p by (simp add: plan_ok_def)
  qed
  have dd: "distinct (concat (map dest_blocks ?ms))" using p by (simp add: plan_ok_def)
  have "sorted_wrt (apart_moves bs) ms" if "distinct (concat (map dest_blocks ms))" for ms
    using that
  proof (induction ms)
    case (Cons m ms)
    have "apart_moves bs m m'" if "m' \<in> set ms" for m'
    proof -
      have "set (dest_blocks m) \<inter> set (dest_blocks m') = {}" using Cons.prems that by auto
      from blocks_bytes_apart [OF this [unfolded dest_blocks_def]] show ?thesis by (simp add: apart_moves_def dst_off_def move_len_def)
    qed
    then show ?case using Cons by simp
  qed simp
  with dd have "dsts_apart bs ?ms" by (simp add: dsts_apart_def)
  moreover have "ranges_apart (src_off bs m) (move_len bs m) (dst_off bs m') (move_len bs m')" if "m \<in> set ?ms" "m' \<in> set ?ms" for m m'
  proof -
    have "set (source_blocks m) \<inter> set (dest_blocks m') = {}" using one src dest that by blast
    from blocks_bytes_apart [OF this [unfolded dest_blocks_def source_blocks_def]] show ?thesis by (simp add: src_off_def dst_off_def move_len_def)
  qed
  ultimately show ?thesis using ids by (simp add: separate_def)
qed




end
