(* ===== verification/Fsx_Commit.thy ===== *)
theory Fsx_Commit
  imports Fsx_Stage
begin

text \<open>
  The metadata commit, \<^verbatim>\<open>src/ext4/mutate.cpp\<close>: the verified copies of a staged relocation become the
  authoritative blocks. For every move the destination is marked allocated, the owner's entry in the extent tree is
  switched, the source is marked free, and each of these steps is recorded in the transaction journal.
  Progress reports are left out; \<^verbatim>\<open>std::sort\<close> inside the owner scan is the argument \<open>srt\<close>.
\<close>

section \<open>Allocation bitmaps\<close>

record range_state =
  ra_all_set :: bool
  ra_all_clear :: bool

definition set_desc_free_blocks :: "bytes \<Rightarrow> u32 \<Rightarrow> bytes" where
  "set_desc_free_blocks gd v =
     (let gd1 = write_le16 gd 12 (ucast v) in if length gd \<ge> 46 then write_le16 gd1 44 (ucast (drop_bit 16 v)) else gd1)"

definition set_bitmap_bit :: "bytes \<Rightarrow> u64 \<Rightarrow> bool \<Rightarrow> bytes" where
  "set_bitmap_bit bm k v =
     (let by = unat (drop_bit 3 k); mask = push_bit (unat (k AND 7)) 1; old = bm ! by
      in bm[by := if v then old OR mask else old AND NOT mask])"

text \<open>The part of a range that lies in the group of its first block: group, index in the group, number of blocks.\<close>

definition group_part :: "superblock \<Rightarrow> u64 \<Rightarrow> u64 \<Rightarrow> u64 \<times> u64 \<times> u64" where
  "group_part sb pos left =
     (let grp = (pos - ucast (sb_first_data_block sb)) div ucast (sb_blocks_per_group sb);
          idx = pos - group_start_block sb grp
      in (grp, idx, min left (group_block_count sb grp - idx)))"

definition note_bits :: "bytes \<Rightarrow> u64 \<Rightarrow> u64 \<Rightarrow> range_state \<Rightarrow> range_state" where
  "note_bits bm idx n out = fold (\<lambda>i s. let set = bit_set bm (idx + of_nat i)
     in s\<lparr>ra_all_set := (ra_all_set s \<and> set), ra_all_clear := (ra_all_clear s \<and> \<not> set)\<rparr>) [0..<unat n] out"

lemma group_part_le: "group_part sb pos left = (grp, idx, n) \<Longrightarrow> n \<le> left"
  by (auto simp: group_part_def Let_def)

lemma left_shrinks: "(n :: u64) \<noteq> 0 \<Longrightarrow> n \<le> left \<Longrightarrow> unat (left - n) < unat left"
  by (simp add: unat_sub_le word_le_nat_alt unat_gt_0 [symmetric])

text \<open>The loops over the groups of a range. A round that advances by no block would be repeated for ever.\<close>

function allocation_loop :: "block_device \<Rightarrow> superblock \<Rightarrow> u64 \<Rightarrow> u64 \<Rightarrow> range_state \<Rightarrow> range_state io" where
  "allocation_loop d sb pos left out =
     (if left = 0 then return_io out
      else if pos < ucast (sb_first_data_block sb)
      then fail_io Errc_unsafe ''allocation range reaches reserved pre-data blocks''
      else case group_part sb pos left of (grp, idx, n) \<Rightarrow>
        bind_io (read_group_desc d sb grp) (\<lambda>gd.
        bind_io (read_block_bitmap d sb gd) (\<lambda>bm.
        if n = 0 then (\<lambda>w. (Inl Diverged, w))
        else allocation_loop d sb (pos + n) (left - n) (note_bits bm idx n out))))"
  by pat_completeness auto

termination
  by (relation "measure (\<lambda>(d, sb, pos, left, out). unat left)")
    (auto intro!: left_shrinks dest: group_part_le [OF sym])

declare allocation_loop.simps [simp del]

definition allocation_state :: "block_device \<Rightarrow> metadata_context \<Rightarrow> u64 \<Rightarrow> u64 \<Rightarrow> range_state io" where
  "allocation_state d ctx start len =
     (let n = sb_blocks_count (mc_sb ctx)
      in if len = 0 \<or> start \<ge> n \<or> len > n - start
         then fail_io Errc_invalid_argument ''allocation range lies outside filesystem''
         else allocation_loop d (mc_sb ctx) start len \<lparr>ra_all_set = True, ra_all_clear = True\<rparr>)"

text \<open>The new bitmap and descriptor of a group.\<close>

definition set_bits :: "bytes \<Rightarrow> u64 \<Rightarrow> u64 \<Rightarrow> bool \<Rightarrow> bytes" where
  "set_bits bm first cnt v = fold (\<lambda>i b. set_bitmap_bit b (first + of_nat i) v) [0..<unat cnt] bm"

definition rewrite_group_bitmap :: "block_device \<Rightarrow> metadata_context \<Rightarrow> u64 \<Rightarrow> u64 \<Rightarrow> u64 \<Rightarrow> bool \<Rightarrow> unit io" where
  "rewrite_group_bitmap d ctx grp first cnt allocate =
     (let sb = mc_sb ctx in
      bind_io (read_group_desc d sb grp) (\<lambda>gd.
      bind_io (read_group_descriptor_raw d ctx grp) (\<lambda>gd_raw.
      bind_io (lift_io (verify_group_descriptor_checksum ctx grp gd_raw)) (\<lambda>gd_ok.
      if \<not> gd_ok then fail_io Errc_corrupt ''group descriptor checksum mismatch before allocation update''
      else
      bind_io (read_block_bitmap d sb gd) (\<lambda>bm.
      bind_io (lift_io (verify_block_bitmap_checksum ctx gd_raw bm)) (\<lambda>bm_ok.
      if \<not> bm_ok then fail_io Errc_corrupt ''block bitmap checksum mismatch before allocation update''
      else
      let valid = group_block_count sb grp in
      if first > valid \<or> cnt > valid - first then fail_io Errc_corrupt ''bitmap update exceeds valid group blocks''
      else
      let bm1 = set_bits bm first cnt allocate; free = valid - count_set bm1 valid in
      if free > 0xffffffff then fail_io Errc_internal ''group free count overflow''
      else
      bind_io (lift_io (update_block_bitmap_checksum ctx (set_desc_free_blocks gd_raw (ucast free)) bm1)) (\<lambda>gd1.
      bind_io (lift_io (update_group_descriptor_checksum ctx grp gd1)) (\<lambda>gd2.
      bind_io (write_exact d (gd_block_bitmap gd * block_size sb) bm1) (\<lambda>_.
      write_group_descriptor_raw d ctx grp gd2)))))))))"

function allocation_update :: "block_device \<Rightarrow> metadata_context \<Rightarrow> u64 \<Rightarrow> u64 \<Rightarrow> bool \<Rightarrow> unit io" where
  "allocation_update d ctx pos left allocate =
     (if left = 0 then flush d
      else if pos < ucast (sb_first_data_block (mc_sb ctx))
      then fail_io Errc_unsafe ''allocation update reaches reserved pre-data blocks''
      else case group_part (mc_sb ctx) pos left of (grp, idx, n) \<Rightarrow>
        bind_io (rewrite_group_bitmap d ctx grp idx n allocate) (\<lambda>_.
        if n = 0 then (\<lambda>w. (Inl Diverged, w))
        else allocation_update d ctx (pos + n) (left - n) allocate))"
  by pat_completeness auto

termination
  by (relation "measure (\<lambda>(d, ctx, pos, left, allocate). unat left)")
    (auto intro!: left_shrinks dest: group_part_le [OF sym])

declare allocation_update.simps [simp del]

definition set_allocation_range :: "block_device \<Rightarrow> metadata_context \<Rightarrow> u64 \<Rightarrow> u64 \<Rightarrow> bool \<Rightarrow> unit io" where
  "set_allocation_range d ctx start len allocate =
     (if len = 0 then return_io () else allocation_update d ctx start len allocate)"

section \<open>Checksum of the copy and state of the filesystem\<close>

definition extent_crc :: "block_device \<Rightarrow> u64 \<Rightarrow> u64 \<Rightarrow> u64 \<Rightarrow> u32 io" where
  "extent_crc d block cnt bs =
     (if bs = 0 then fail_io Errc_corrupt ''zero block size while checksumming extent''
      else if cnt = 0 then return_io (crc32c [] 0xffffffff XOR 0xffffffff)
      else if cnt > u64_max div bs \<or> block > u64_max div bs then fail_io Errc_corrupt ''extent byte geometry overflows''
      else let tot = cnt * bs; start = block * bs; sz = g_size_bytes (bd_geometry d)
           in if start > sz \<or> tot > sz - start then fail_io Errc_corrupt ''extent lies outside containing device''
              else if tot = 0 then fail_io Errc_internal ''invalid zero-sized extent checksum buffer''
              else bind_io (verify_chunks d start (chunk_seq (min (4 * 1024 * 1024) (unat tot)) (unat tot) 0) 0xffffffff) (\<lambda>crc.
                   return_io (crc XOR 0xffffffff)))"

definition mark_filesystem_state :: "block_device \<Rightarrow> bool \<Rightarrow> unit io" where
  "mark_filesystem_state d clean =
     bind_io (read_raw_superblock d) (\<lambda>raw.
     let state = read_le16 raw 0x3a; state' = (if clean then state OR 1 else state AND NOT 1)
     in bind_io (lift_io (update_superblock_checksum (write_le16 raw 0x3a state'))) (\<lambda>raw'.
        bind_io (write_raw_superblock d raw') (\<lambda>_. flush d)))"

section \<open>Owners\<close>

abbreviation EXTENT_START_HI :: nat where "EXTENT_START_HI \<equiv> 6"
abbreviation EXTENT_START_LO :: nat where "EXTENT_START_LO \<equiv> 8"
abbreviation INDEX_LEAF_LO :: nat where "INDEX_LEAF_LO \<equiv> 4"
abbreviation INDEX_LEAF_HI :: nat where "INDEX_LEAF_HI \<equiv> 8"

type_synonym extent_order = "owned_extent list \<Rightarrow> owned_extent list"

text \<open>The two writes that put a block number into the entry at \<open>off\<close> of a leaf or of an index node.\<close>

definition put_leaf_block :: "bytes \<Rightarrow> nat \<Rightarrow> u64 \<Rightarrow> bytes" where
  "put_leaf_block b off nb =
     write_le32 (write_le16 b (off + EXTENT_START_HI) (ucast (drop_bit 32 nb))) (off + EXTENT_START_LO) (ucast nb)"

definition put_index_block :: "bytes \<Rightarrow> nat \<Rightarrow> u64 \<Rightarrow> bytes" where
  "put_index_block b off nb =
     write_le16 (write_le32 b (off + INDEX_LEAF_LO) (ucast nb)) (off + INDEX_LEAF_HI) (ucast (drop_bit 32 nb))"

definition update_data_owner :: "extent_order \<Rightarrow> block_device \<Rightarrow> metadata_context \<Rightarrow> owner_move \<Rightarrow> u64 \<Rightarrow> unit io" where
  "update_data_owner srt d ctx m nb =
     bind_io (find_inode_extent srt d (om_inode m) (om_logical_block m)) (\<lambda>e.
     let ref = oe_reference e; bs = block_size (mc_sb ctx); at = er_container_block ref * bs in
     if oe_logical_block e \<noteq> om_logical_block m \<or> oe_length e \<noteq> om_block_count m
     then fail_io Errc_unsafe ''extent geometry changed since relocation plan''
     else if oe_physical_block e = nb then return_io ()
     else if oe_physical_block e \<noteq> om_source_block m
     then fail_io Errc_unsafe ''extent owner points to neither source nor destination''
     else bind_io
       (if er_kind ref = Inode_root
        then bind_io (read_inode_raw d ctx (om_inode m)) (\<lambda>inode.
             let off = INODE_I_BLOCK_OFF + unat (er_entry_offset ref)
             in if off + 12 > length inode then fail_io Errc_corrupt ''extent entry exceeds inode''
                else bind_io (lift_io (update_inode_checksum ctx (om_inode m) (put_leaf_block inode off nb))) (\<lambda>inode'.
                     write_inode_raw d ctx (om_inode m) inode'))
        else bind_io (read_exact d at (unat bs)) (\<lambda>block.
             bind_io (lift_io (verify_extent_block_checksum ctx (om_inode m) (oe_inode_generation e) block)) (\<lambda>ok.
             let off = unat (er_entry_offset ref)
             in if \<not> ok then fail_io Errc_corrupt ''extent block checksum mismatch before owner switch''
                else if off + 12 > length block then fail_io Errc_corrupt ''extent entry exceeds extent block''
                else bind_io (lift_io (update_extent_block_checksum ctx (om_inode m) (oe_inode_generation e)
                                 (put_leaf_block block off nb))) (\<lambda>block'.
                     write_exact d at block'))))
       (\<lambda>_. flush d))"

definition current_data_owner :: "extent_order \<Rightarrow> block_device \<Rightarrow> owner_move \<Rightarrow> u64 io" where
  "current_data_owner srt d m =
     bind_io (find_inode_extent srt d (om_inode m) (om_logical_block m)) (\<lambda>e.
     if oe_logical_block e \<noteq> om_logical_block m \<or> oe_length e \<noteq> om_block_count m
     then fail_io Errc_unsafe ''extent geometry changed since plan''
     else return_io (oe_physical_block e))"

record tree_location =
  tl_ref :: extent_tree_block
  tl_generation :: u32

definition find_tree_location :: "extent_order \<Rightarrow> block_device \<Rightarrow> metadata_context \<Rightarrow> owner_move \<Rightarrow> tree_location io" where
  "find_tree_location srt d ctx m =
     bind_io (scan_inode_extent_tree srt d (om_inode m) 0) (\<lambda>scan.
     case find (\<lambda>t. tb_physical_block t = om_source_block m \<or> tb_physical_block t = om_destination_block m) (os_tree_blocks scan) of
       Some t \<Rightarrow> bind_io (read_inode_raw d ctx (om_inode m)) (\<lambda>inode.
         return_io \<lparr>tl_ref = t, tl_generation = read_le32 inode 0x64\<rparr>)
     | None \<Rightarrow> fail_io Errc_not_found ''extent tree block is not reachable from inode'')"

definition update_tree_parent :: "extent_order \<Rightarrow> block_device \<Rightarrow> metadata_context \<Rightarrow> owner_move \<Rightarrow> u64 \<Rightarrow> unit io" where
  "update_tree_parent srt d ctx m nb =
     bind_io (find_tree_location srt d ctx m) (\<lambda>loc.
     let t = tl_ref loc; bs = block_size (mc_sb ctx); parent = tb_parent_container_byte_offset t in
     if tb_physical_block t = nb then return_io ()
     else if tb_physical_block t \<noteq> om_source_block m
     then fail_io Errc_unsafe ''tree owner points to neither source nor destination''
     else bind_io
       (if parent mod bs = 0
        then bind_io (read_exact d parent (unat bs)) (\<lambda>block.
             bind_io (lift_io (verify_extent_block_checksum ctx (om_inode m) (tl_generation loc) block)) (\<lambda>ok.
             let off = unat (tb_parent_entry_offset t)
             in if \<not> ok then fail_io Errc_corrupt ''parent extent block checksum mismatch''
                else if off + 12 > length block then fail_io Errc_corrupt ''extent index exceeds parent block''
                else bind_io (lift_io (update_extent_block_checksum ctx (om_inode m) (tl_generation loc)
                                 (put_index_block block off nb))) (\<lambda>block'.
                     write_exact d (parent div bs * bs) block')))
        else bind_io (read_inode_raw d ctx (om_inode m)) (\<lambda>inode.
             let off = INODE_I_BLOCK_OFF + unat (tb_parent_entry_offset t)
             in if off + 12 > length inode then fail_io Errc_corrupt ''extent index exceeds inode root''
                else bind_io (lift_io (update_inode_checksum ctx (om_inode m) (put_index_block inode off nb))) (\<lambda>inode'.
                     write_inode_raw d ctx (om_inode m) inode')))
       (\<lambda>_. flush d))"

definition current_tree_owner :: "extent_order \<Rightarrow> block_device \<Rightarrow> metadata_context \<Rightarrow> owner_move \<Rightarrow> u64 io" where
  "current_tree_owner srt d ctx m =
     bind_io (find_tree_location srt d ctx m) (\<lambda>loc. return_io (tb_physical_block (tl_ref loc)))"

definition refresh_tree_copy :: "block_device \<Rightarrow> metadata_context \<Rightarrow> owner_move \<Rightarrow> unit io" where
  "refresh_tree_copy d ctx m =
     (let bs = block_size (mc_sb ctx); to = om_destination_block m * bs in
      bind_io (read_exact d (om_source_block m * bs) (unat bs)) (\<lambda>b.
      bind_io (read_inode_raw d ctx (om_inode m)) (\<lambda>inode.
      bind_io (lift_io (verify_extent_block_checksum ctx (om_inode m) (read_le32 inode 0x64) b)) (\<lambda>ok.
      if \<not> ok then fail_io Errc_corrupt ''source extent tree block checksum mismatch''
      else
      bind_io (write_exact d to b) (\<lambda>_.
      bind_io (flush d) (\<lambda>_.
      bind_io (read_exact d to (length b)) (\<lambda>v.
      if v \<noteq> b then fail_io Errc_io ''extent tree block verification mismatch'' else return_io ())))))))"

section \<open>The commit\<close>

record commit_options =
  co_journal_path :: string
  co_allow_block_device :: bool
  co_verify_metadata_after :: bool
  co_leave_filesystem_dirty :: bool

record commit_report =
  cm_moves_total :: u64
  cm_destinations_reserved :: u64
  cm_owners_switched :: u64
  cm_sources_released :: u64
  cm_moves_committed :: u64
  cm_bytes_relocated :: u64
  cm_paused :: bool
  cm_complete :: bool
  cm_filesystem_clean :: bool

definition commit_record :: "journal_record_type \<Rightarrow> owner_move \<Rightarrow> journal_record" where
  "commit_record ty m = move_record ty 0 m"

definition no_move :: owner_move where
  "no_move = \<lparr>om_kind = Data_extent, om_transaction_id = 0, om_inode = 0, om_logical_block = 0, om_source_block = 0,
     om_destination_block = 0, om_block_count = 0, om_unwritten = False, om_tree_depth = 0\<rparr>"

text \<open>The order of the moves: data first by transaction, then tree blocks by depth; the sort is stable.\<close>

definition commit_key :: "owner_move \<Rightarrow> nat" where
  "commit_key m = (if om_kind m = Data_extent then unat (om_transaction_id m) else 2 ^ 64 + unat (om_tree_depth m))"

text \<open>The three steps of a move, each with its journal record.\<close>

definition reserve_destination :: "block_device \<Rightarrow> metadata_context \<Rightarrow> owner_move \<Rightarrow> range_state \<Rightarrow> journal \<Rightarrow> journal io" where
  "reserve_destination d ctx m dst j =
     (if \<not> ra_all_set dst
      then if \<not> ra_all_clear dst then fail_io Errc_corrupt ''destination allocation range is partially allocated''
           else bind_io (set_allocation_range d ctx (om_destination_block m) (om_block_count m) True) (\<lambda>_.
                on_journal (journal_append (commit_record Rec_destination_reserved m)) j)
      else return_io j)"

definition switch_owner :: "extent_order \<Rightarrow> block_device \<Rightarrow> metadata_context \<Rightarrow> u64 \<Rightarrow> journal_record list \<Rightarrow> owner_move \<Rightarrow> u64
    \<Rightarrow> journal \<Rightarrow> journal io" where
  "switch_owner srt d ctx bs rs m owner j =
     (if owner = om_source_block m
      then bind_io
        (if om_kind m = Data_extent
         then bind_io
           (if \<not> om_unwritten m
            then bind_io (extent_crc d (om_destination_block m) (om_block_count m) bs) (\<lambda>crc.
                 if Some crc \<noteq> map_option jr_data_crc32c (last_record Rec_copy_verified rs (om_transaction_id m))
                 then fail_io Errc_io ''staged destination checksum changed before metadata commit''
                 else return_io ())
            else return_io ())
           (\<lambda>_. update_data_owner srt d ctx m (om_destination_block m))
         else bind_io (refresh_tree_copy d ctx m) (\<lambda>_. update_tree_parent srt d ctx m (om_destination_block m)))
        (\<lambda>_. on_journal (journal_append (commit_record Rec_owner_switched m)) j)
      else return_io j)"

definition release_source :: "block_device \<Rightarrow> metadata_context \<Rightarrow> owner_move \<Rightarrow> journal \<Rightarrow> journal io" where
  "release_source d ctx m j =
     bind_io (allocation_state d ctx (om_source_block m) (om_block_count m)) (\<lambda>src.
     if \<not> ra_all_clear src
     then if \<not> ra_all_set src then fail_io Errc_corrupt ''source allocation range is partially released''
          else bind_io (set_allocation_range d ctx (om_source_block m) (om_block_count m) False) (\<lambda>_.
               on_journal (journal_append (commit_record Rec_source_released m)) j)
     else return_io j)"

definition check_owner :: "owner_move \<Rightarrow> u64 \<Rightarrow> range_state \<Rightarrow> range_state \<Rightarrow> unit result" where
  "check_owner m owner src dst =
     (if owner \<noteq> om_source_block m \<and> owner \<noteq> om_destination_block m
      then fail Errc_unsafe ''owner mapping is inconsistent with relocation journal''
      else if owner = om_source_block m \<and> \<not> ra_all_set src
      then fail Errc_corrupt ''authoritative source extent is not fully allocated''
      else if owner = om_destination_block m \<and> \<not> ra_all_set dst
      then fail Errc_corrupt ''authoritative destination extent is not fully allocated''
      else Inr ())"

definition commit_move :: "extent_order \<Rightarrow> block_device \<Rightarrow> metadata_context \<Rightarrow> u64 \<Rightarrow> journal_record list \<Rightarrow> owner_move
    \<Rightarrow> journal \<Rightarrow> journal io" where
  "commit_move srt d ctx bs rs m j =
     bind_io (allocation_state d ctx (om_source_block m) (om_block_count m)) (\<lambda>src.
     bind_io (allocation_state d ctx (om_destination_block m) (om_block_count m)) (\<lambda>dst.
     bind_io (if om_kind m = Data_extent then current_data_owner srt d m else current_tree_owner srt d ctx m) (\<lambda>owner.
     bind_io (lift_io (check_owner m owner src dst)) (\<lambda>_.
     bind_io (reserve_destination d ctx m dst j) (\<lambda>j1.
     bind_io (switch_owner srt d ctx bs rs m owner j1) (\<lambda>j2.
     bind_io (release_source d ctx m j2) (\<lambda>j3.
     on_journal (journal_append (commit_record Rec_metadata_committed m)) j3)))))))"

definition count_move :: "u64 \<Rightarrow> owner_move \<Rightarrow> commit_report \<Rightarrow> commit_report" where
  "count_move bs m rep = rep\<lparr>cm_destinations_reserved := cm_destinations_reserved rep + 1,
     cm_owners_switched := cm_owners_switched rep + 1, cm_sources_released := cm_sources_released rep + 1,
     cm_moves_committed := cm_moves_committed rep + 1, cm_bytes_relocated := cm_bytes_relocated rep + om_block_count m * bs\<rparr>"

fun commit_moves :: "extent_order \<Rightarrow> block_device \<Rightarrow> metadata_context \<Rightarrow> u64 \<Rightarrow> journal_record list \<Rightarrow> owner_move list
    \<Rightarrow> journal \<Rightarrow> commit_report \<Rightarrow> (journal \<times> commit_report) io" where
  "commit_moves srt d ctx bs rs [] j rep = return_io (j, rep)"
| "commit_moves srt d ctx bs rs (m # ms) j rep =
     bind_io cancellation_requested (\<lambda>stop.
     if stop then bind_io (on_journal (checkpoint Phase_metadata_paused) j) (\<lambda>j'. return_io (j', rep\<lparr>cm_paused := True\<rparr>))
     else bind_io (commit_move srt d ctx bs rs m j) (\<lambda>j'. commit_moves srt d ctx bs rs ms j' (count_move bs m rep)))"

definition commit_ready :: "block_device \<Rightarrow> commit_options \<Rightarrow> metadata_context io" where
  "commit_ready d opts =
     (if co_journal_path opts = [] then fail_io Errc_invalid_argument ''commit requires --journal=FILE''
      else
      bind_io (require_offline_for_write d) (\<lambda>_.
      bind_io (inspect_device_safety d) (\<lambda>ds.
      if ds_block_device ds \<and> \<not> co_allow_block_device opts
      then fail_io Errc_unsafe ''block-device metadata commit requires explicit --allow-block-device''
      else
      bind_io (load_metadata_context d False) (\<lambda>ctx.
      let sb = mc_sb ctx in
      if sb_feature_ro_compat sb AND RO_COMPAT_BIGALLOC \<noteq> 0 then fail_io Errc_unsupported ''bigalloc metadata mutation is not supported''
      else if sb_feature_incompat sb AND INCOMPAT_META_BG \<noteq> 0 then fail_io Errc_unsupported ''meta_bg metadata mutation is not supported''
      else if sb_feature_incompat sb AND INCOMPAT_RECOVER \<noteq> 0
      then fail_io Errc_unsafe ''filesystem journal recovery is required before metadata commit''
      else return_io ctx))))"

text \<open>An error of \<^verbatim>\<open>std::filesystem::exists\<close> is an exception that nothing catches: the process is aborted.\<close>

definition open_commit_journal :: "string \<Rightarrow> journal io" where
  "open_commit_journal path w =
     (case path_exists path w of
        (Inl e, w1) \<Rightarrow> (Inl (Exited 134), w1)
      | (Inr False, w1) \<Rightarrow> fail_io Errc_not_found ''relocation journal does not exist'' w1
      | (Inr True, w1) \<Rightarrow> journal_open path True w1)"

definition check_commit_journal :: "block_device \<Rightarrow> owner_relocation_plan \<Rightarrow> bytes \<Rightarrow> journal_status \<Rightarrow> unit result" where
  "check_commit_journal d plan fu s =
     (let i = js_identity s in
      if id_filesystem_uuid i \<noteq> fu then fail Errc_unsafe ''journal filesystem UUID does not match target''
      else if id_device_size i \<noteq> g_size_bytes (bd_geometry d) then fail Errc_unsafe ''journal device size does not match target''
      else if id_target_size i \<noteq> op_target_bytes plan then fail Errc_unsafe ''journal target differs from current plan''
      else if js_phase s \<notin> {Phase_staged, Phase_metadata_finalize, Phase_metadata_paused, Phase_compacted}
      then fail Errc_unsafe ''journal is not in a metadata-commit compatible phase''
      else Inr ())"

definition check_verified :: "owner_relocation_plan \<Rightarrow> journal_record list \<Rightarrow> unit result" where
  "check_verified plan rs =
     (if record_keys Rec_copy_verified rs < length (op_moves plan)
      then fail Errc_unsafe ''not every relocation has a durable verified-copy record''
      else if list_all (\<lambda>m. case last_record Rec_copy_verified rs (om_transaction_id m) of
             None \<Rightarrow> False
           | Some r \<Rightarrow> jr_source_block r = om_source_block m \<and> jr_destination_block r = om_destination_block m
               \<and> jr_block_count r = om_block_count m \<and> jr_inode r = om_inode m) (op_moves plan)
      then Inr ()
      else fail Errc_unsafe ''journal relocation geometry differs from current plan'')"

definition empty_commit :: "owner_relocation_plan \<Rightarrow> commit_report" where
  "empty_commit plan = \<lparr>cm_moves_total = of_nat (length (op_moves plan)), cm_destinations_reserved = 0, cm_owners_switched = 0,
     cm_sources_released = 0, cm_moves_committed = 0, cm_bytes_relocated = 0, cm_paused = False, cm_complete = False,
     cm_filesystem_clean = False\<rparr>"

definition compacted_report :: "owner_relocation_plan \<Rightarrow> superblock \<Rightarrow> commit_report" where
  "compacted_report plan sb =
     (let n = of_nat (length (op_moves plan)) in
      \<lparr>cm_moves_total = n, cm_destinations_reserved = n, cm_owners_switched = n, cm_sources_released = n, cm_moves_committed = n,
       cm_bytes_relocated = fold (\<lambda>m s. s + om_block_count m * op_block_size plan) (op_moves plan) 0,
       cm_paused = False, cm_complete = True, cm_filesystem_clean = (sb_state sb AND 1 \<noteq> 0)\<rparr>)"

definition commit_begin :: "block_device \<Rightarrow> metadata_context \<Rightarrow> journal \<Rightarrow> journal io" where
  "commit_begin d ctx j =
     bind_io (if sb_state (mc_sb ctx) AND 1 \<noteq> 0
              then bind_io (mark_filesystem_state d False) (\<lambda>_.
                   on_journal (journal_append (commit_record Rec_filesystem_marked_dirty no_move)) j)
              else return_io j) (\<lambda>j1.
     on_journal (checkpoint Phase_metadata_finalize) j1)"

definition commit_finish :: "block_device \<Rightarrow> commit_options \<Rightarrow> journal \<Rightarrow> commit_report \<Rightarrow> commit_report io" where
  "commit_finish d opts j rep =
     bind_io (if co_verify_metadata_after opts
              then bind_io (verify_metadata d False) (\<lambda>v.
                   if \<not> mi_clean v
                   then fail_io Errc_corrupt ''post-commit metadata verification failed; filesystem intentionally left unclean''
                   else return_io ())
              else return_io ()) (\<lambda>_.
     bind_io (if \<not> co_leave_filesystem_dirty opts
              then bind_io (mark_filesystem_state d True) (\<lambda>_.
                   bind_io (on_journal (journal_append (commit_record Rec_filesystem_marked_clean no_move)) j) (\<lambda>j1.
                   return_io (j1, rep\<lparr>cm_filesystem_clean := True\<rparr>)))
              else return_io (j, rep)) (\<lambda>(j1, rep1).
     bind_io (on_journal (checkpoint Phase_compacted) j1) (\<lambda>_. return_io (rep1\<lparr>cm_complete := True\<rparr>))))"

text \<open>What follows the checks.\<close>

definition commit_apply :: "extent_order \<Rightarrow> block_device \<Rightarrow> metadata_context \<Rightarrow> owner_relocation_plan \<Rightarrow> commit_options
    \<Rightarrow> journal_record list \<Rightarrow> journal \<Rightarrow> commit_report io" where
  "commit_apply srt d ctx plan opts rs j =
     bind_io (commit_begin d ctx j) (\<lambda>j1.
     bind_io (commit_moves srt d ctx (op_block_size plan) rs (sort_key commit_key (op_moves plan)) j1 (empty_commit plan)) (\<lambda>(j2, rep).
     if cm_paused rep then return_io rep else commit_finish d opts j2 rep))"

definition commit_staged_relocation :: "extent_order \<Rightarrow> block_device \<Rightarrow> owner_relocation_plan \<Rightarrow> commit_options \<Rightarrow> commit_report io" where
  "commit_staged_relocation srt d plan opts =
     bind_io (commit_ready d opts) (\<lambda>ctx.
     bind_io (open_commit_journal (co_journal_path opts)) (\<lambda>j.
     bind_io (lift_io (parse_uuid (sb_uuid (mc_sb ctx)))) (\<lambda>fu.
     bind_io (lift_io (check_commit_journal d plan fu (j_status j))) (\<lambda>_.
     bind_io (records j) (\<lambda>rs.
     bind_io (lift_io (check_verified plan rs)) (\<lambda>_.
     if js_phase (j_status j) = Phase_compacted then return_io (compacted_report plan (mc_sb ctx))
     else commit_apply srt d ctx plan opts rs j))))))"

end
