(* ===== verification/Fsx_Resize.thy ===== *)
theory Fsx_Resize
  imports Fsx_Commit
begin

text \<open>
  The change of the filesystem's size, \<^verbatim>\<open>src/ext4/resize.cpp\<close>: copies of superblock and descriptors in the groups
  that hold backups, the analysis whether a filesystem can be shrunk by metadata alone, the shrink itself with its
  journal, and growth inside the last block group. Progress reports are left out.
\<close>

section \<open>Backups\<close>

definition COMPAT_SPARSE_SUPER2 :: u32 where "COMPAT_SPARSE_SUPER2 = 0x0200"
definition RO_SPARSE_SUPER :: u32 where "RO_SPARSE_SUPER = 0x0001"

text \<open>The division loop of \<^verbatim>\<open>is_power\<close>; its callers have \<open>n > 0\<close> and a base of at least 3.\<close>

function divide_out :: "u64 \<Rightarrow> u64 \<Rightarrow> u64" where
  "divide_out n base = (if n mod base = 0 \<and> 0 < n \<and> 1 < base then divide_out (n div base) base else n)"
  by pat_completeness auto
termination
proof (relation "measure (\<lambda>(n, base). unat n)", goal_cases)
  case (2 n base)
  then show ?case by (simp add: unat_div word_less_nat_alt)
qed simp

declare divide_out.simps [simp del]

definition is_power :: "u64 \<Rightarrow> u64 \<Rightarrow> bool" where
  "is_power n base = (if n < 1 then False else divide_out n base = 1)"

definition group_has_super :: "bytes \<Rightarrow> u64 \<Rightarrow> bool" where
  "group_has_super sb grp =
     (if grp = 0 then True
      else if read_le32 sb 0x5c AND COMPAT_SPARSE_SUPER2 \<noteq> 0
      then grp = ucast (read_le32 sb 0x24c) \<or> grp = ucast (read_le32 sb 0x250)
      else if read_le32 sb 0x64 AND RO_SPARSE_SUPER = 0 then True
      else if grp = 1 then True
      else is_power grp 3 \<or> is_power grp 5 \<or> is_power grp 7)"

definition set_tail_bit :: "bytes \<Rightarrow> u64 \<Rightarrow> bytes" where
  "set_tail_bit bm k = (let by = unat (drop_bit 3 k); sh = unat (k AND 7) in bm[by := bm ! by OR push_bit sh 1])"

definition clear_tail_bit :: "bytes \<Rightarrow> u64 \<Rightarrow> bytes" where
  "clear_tail_bit bm k = (let by = unat (drop_bit 3 k); sh = unat (k AND 7) in bm[by := bm ! by AND NOT (push_bit sh 1)])"

definition desc_free :: "bytes \<Rightarrow> u32" where
  "desc_free gd = ucast (read_le16 gd 12) OR (if length gd \<ge> 46 then push_bit 16 (ucast (read_le16 gd 44)) else 0)"

definition set_desc_free :: "bytes \<Rightarrow> u32 \<Rightarrow> bytes" where
  "set_desc_free gd v =
     (let gd1 = write_le16 gd 12 (ucast v) in if length gd \<ge> 46 then write_le16 gd1 44 (ucast (drop_bit 16 v)) else gd1)"

definition set_u64_lohi :: "bytes \<Rightarrow> nat \<Rightarrow> nat \<Rightarrow> u64 \<Rightarrow> bytes" where
  "set_u64_lohi b lo hi v = write_le32 (write_le32 b lo (ucast v)) hi (ucast (drop_bit 32 v))"

text \<open>The loops over the groups from 1 on.\<close>

definition later_groups :: "superblock \<Rightarrow> u64 list" where
  "later_groups sb = map of_nat [1..<unat (groups_count sb)]"

fun copy_supers :: "block_device \<Rightarrow> superblock \<Rightarrow> bytes \<Rightarrow> u64 list \<Rightarrow> unit io" where
  "copy_supers d sb p [] = flush d"
| "copy_supers d sb p (g # gs) =
     (if \<not> group_has_super p g then copy_supers d sb p gs
      else
      let start = group_start_block sb g; bs = block_size sb in
      if start \<ge> sb_blocks_count sb \<or> start > u64_max div bs
      then fail_io Errc_corrupt ''backup superblock address is outside filesystem''
      else
      bind_io (lift_io (update_superblock_checksum (write_le16 p 0x5a (ucast g)))) (\<lambda>copy.
      bind_io (write_exact d (start * bs) copy) (\<lambda>_. copy_supers d sb p gs)))"

definition write_super_copies :: "block_device \<Rightarrow> metadata_context \<Rightarrow> bytes \<Rightarrow> unit io" where
  "write_super_copies d ctx primary =
     (if block_size (mc_sb ctx) = 0 then fail_io Errc_corrupt ''invalid ext4 block size while updating backup superblocks''
      else
      bind_io (write_raw_superblock d primary) (\<lambda>_. copy_supers d (mc_sb ctx) primary (later_groups (mc_sb ctx))))"

fun copy_descs :: "block_device \<Rightarrow> superblock \<Rightarrow> bytes \<Rightarrow> u64 \<Rightarrow> bytes \<Rightarrow> u64 list \<Rightarrow> unit io" where
  "copy_descs d sb super desc_off desc [] = return_io ()"
| "copy_descs d sb super desc_off desc (g # gs) =
     (if \<not> group_has_super super g then copy_descs d sb super desc_off desc gs
      else
      let start = group_start_block sb g; bs = block_size sb; base = (start + 1) * bs in
      if start \<ge> sb_blocks_count sb - 1 \<or> start + 1 > u64_max div bs
      then fail_io Errc_corrupt ''backup descriptor table address is outside filesystem''
      else if desc_off > u64_max - base then fail_io Errc_corrupt ''backup descriptor address overflows''
      else
      bind_io (write_exact d (base + desc_off) desc) (\<lambda>_. copy_descs d sb super desc_off desc gs))"

definition write_group_desc_backups :: "block_device \<Rightarrow> metadata_context \<Rightarrow> bytes \<Rightarrow> u64 \<Rightarrow> bytes \<Rightarrow> unit io" where
  "write_group_desc_backups d ctx super desc_group desc =
     (let sb = mc_sb ctx; bs = block_size sb; ds = desc_bytes sb in
      if bs = 0 \<or> ds = 0 \<or> ds > bs then fail_io Errc_corrupt ''invalid ext4 group descriptor geometry''
      else if desc_group > u64_max div ds then fail_io Errc_corrupt ''backup descriptor offset overflows''
      else copy_descs d sb super (desc_group * ds) desc (later_groups sb))"

section \<open>Readiness\<close>

record shrink_readiness =
  sr_current_blocks :: u64
  sr_target_blocks :: u64
  sr_current_groups :: u64
  sr_target_groups :: u64
  sr_allocated_tail_blocks :: u64
  sr_allocated_inodes_in_removed_groups :: u64
  sr_fixed_metadata_tail_blocks :: u64
  sr_requires_inode_relocation :: bool
  sr_metadata_only_finalize_possible :: bool
  sr_blockers :: "string list"

text \<open>The number of groups of a filesystem with a given number of blocks.\<close>

definition target_groups_of :: "superblock \<Rightarrow> u64 \<Rightarrow> u64" where
  "target_groups_of sb target_blocks =
     (let first = ucast (sb_first_data_block sb); bpg = ucast (sb_blocks_per_group sb);
          data = (if target_blocks > first then target_blocks - first else 0)
      in if sb_blocks_per_group sb \<noteq> 0 then (data + bpg - 1) div bpg else 0)"

fun removed_inodes :: "block_device \<Rightarrow> superblock \<Rightarrow> u64 list \<Rightarrow> u64 \<Rightarrow> u64 io" where
  "removed_inodes d sb [] acc = return_io acc"
| "removed_inodes d sb (g # gs) acc =
     bind_io (read_group_desc d sb g) (\<lambda>gd.
     if gd_flags gd AND BG_INODE_UNINIT \<noteq> 0 then removed_inodes d sb gs acc
     else
     bind_io (read_inode_bitmap d sb gd) (\<lambda>ib.
     let ipg = ucast (sb_inodes_per_group sb); base = g * ipg + 1;
         remain = (if sb_inodes_count sb \<ge> base then sb_inodes_count sb - base + 1 else 0)
     in removed_inodes d sb gs (acc + count_set ib (min ipg remain))))"

definition tail_blocks :: "u64 \<Rightarrow> block_extent list \<Rightarrow> u64" where
  "tail_blocks target es = fold (\<lambda>e s. if be_end e > target then s + (be_end e - max (be_start e) target) else s) es 0"

fun fixed_tail :: "block_device \<Rightarrow> superblock \<Rightarrow> u64 \<Rightarrow> u64 list \<Rightarrow> u64 \<Rightarrow> u64 io" where
  "fixed_tail d sb target [] acc = return_io acc"
| "fixed_tail d sb target (g # gs) acc =
     bind_io (read_group_desc d sb g) (\<lambda>gd.
     let bs = block_size sb;
         mark = (\<lambda>b n. if b \<ge> target \<and> b < sb_blocks_count sb then n + 1 else n);
         acc1 = mark (gd_inode_bitmap gd) (mark (gd_block_bitmap gd) acc);
         it = (ucast (sb_inodes_per_group sb) * ucast (sb_inode_size sb) + bs - 1) div bs;
         a = max (gd_inode_table gd) target; z = min (gd_inode_table gd + it) (sb_blocks_count sb)
     in fixed_tail d sb target gs (if z > a then acc1 + (z - a) else acc1))"

definition analyze_shrink_readiness :: "block_device \<Rightarrow> u64 \<Rightarrow> shrink_readiness io" where
  "analyze_shrink_readiness d target_bytes =
     bind_io (read_superblock d) (\<lambda>sb.
     if target_bytes \<ge> size_bytes sb then fail_io Errc_invalid_argument ''target is not smaller than filesystem''
     else if target_bytes mod block_size sb \<noteq> 0
     then fail_io Errc_invalid_argument ''target must be aligned to filesystem block size''
     else
     let target = target_bytes div block_size sb; cg = groups_count sb; tg = target_groups_of sb target in
     bind_io (if tg < cg then removed_inodes d sb (map of_nat [unat tg..<unat cg]) 0 else return_io 0) (\<lambda>inodes.
     bind_io (build_allocation_graph d) (\<lambda>graph.
     bind_io (fixed_tail d sb target (group_list sb) 0) (\<lambda>fixed.
     let tail = tail_blocks target (ag_allocated graph);
         blockers =
           (if tg < cg
            then if inodes \<noteq> 0
                 then [digits (unat inodes) @ '' allocated inodes must be renumbered out of removed block groups'']
                 else [''target removes block groups; inode-table/group removal engine is not enabled yet'']
            else [])
           @ (if tail \<noteq> 0 then [digits (unat tail) @ '' allocated blocks remain at or above target''] else [])
           @ (if fixed \<noteq> 0 then [digits (unat fixed) @ '' fixed metadata blocks remain at or above target''] else [])
     in return_io \<lparr>sr_current_blocks = sb_blocks_count sb, sr_target_blocks = target, sr_current_groups = cg,
          sr_target_groups = tg, sr_allocated_tail_blocks = tail, sr_allocated_inodes_in_removed_groups = inodes,
          sr_fixed_metadata_tail_blocks = fixed, sr_requires_inode_relocation = (tg < cg),
          sr_metadata_only_finalize_possible = (tg = cg \<and> tail = 0 \<and> fixed = 0), sr_blockers = blockers\<rparr>))))"

section \<open>Shrinking\<close>

record finalize_options =
  fo_journal_path :: string
  fo_allow_block_device :: bool

definition plain_record :: "journal_record_type \<Rightarrow> journal_record" where
  "plain_record ty = \<lparr>jr_type = ty, jr_sequence = 0, jr_transaction_id = 0, jr_source_block = 0, jr_destination_block = 0,
     jr_block_count = 0, jr_inode = 0, jr_aux = 0, jr_data_crc32c = 0, jr_state = 0\<rparr>"

text \<open>The tail of the last group is marked used; a block of it that is used already is an error.\<close>

fun mark_tail :: "u64 \<Rightarrow> u64 list \<Rightarrow> bytes \<Rightarrow> bytes result" where
  "mark_tail gs [] bm = Inr bm"
| "mark_tail gs (b # bs) bm =
     (if b < gs then mark_tail gs bs bm
      else if bit_set bm (b - gs) then fail Errc_corrupt ''tail block became allocated after shrink readiness check''
      else mark_tail gs bs (set_tail_bit bm (b - gs)))"

definition block_range :: "u64 \<Rightarrow> u64 \<Rightarrow> u64 list" where
  "block_range a z = map of_nat [unat a..<unat z]"

text \<open>A superblock with a state, and with its checksum.\<close>

definition with_state :: "bytes \<Rightarrow> u16 \<Rightarrow> bytes result" where
  "with_state raw state = update_superblock_checksum (write_le16 raw 0x3a state)"

text \<open>The checks; the journal must be at \<open>compacted\<close> or \<open>staged\<close>.\<close>

definition finalize_ready :: "block_device \<Rightarrow> u64 \<Rightarrow> finalize_options \<Rightarrow> (metadata_context \<times> journal) io" where
  "finalize_ready d target_bytes opts =
     (if fo_journal_path opts = [] then fail_io Errc_invalid_argument ''shrink finalization requires --journal=FILE''
      else
      bind_io (require_offline_for_write d) (\<lambda>_.
      bind_io (inspect_device_safety d) (\<lambda>ds.
      if ds_block_device ds \<and> \<not> fo_allow_block_device opts
      then fail_io Errc_unsafe ''block-device shrink requires --allow-block-device''
      else
      bind_io (analyze_shrink_readiness d target_bytes) (\<lambda>ready.
      if \<not> sr_metadata_only_finalize_possible ready
      then fail_io Errc_unsupported (if sr_blockers ready = [] then ''target requires unsupported block-group relocation''
                                     else hd (sr_blockers ready))
      else
      bind_io (load_metadata_context d False) (\<lambda>ctx.
      if sb_feature_incompat (mc_sb ctx) AND INCOMPAT_META_BG \<noteq> 0 \<or> sb_feature_ro_compat (mc_sb ctx) AND RO_COMPAT_BIGALLOC \<noteq> 0
      then fail_io Errc_unsupported ''metadata-only shrink refuses meta_bg and bigalloc''
      else
      bind_io (journal_open (fo_journal_path opts) True) (\<lambda>j.
      bind_io (lift_io (parse_uuid (sb_uuid (mc_sb ctx)))) (\<lambda>fu.
      if id_filesystem_uuid (js_identity (j_status j)) \<noteq> fu \<or> id_target_size (js_identity (j_status j)) \<noteq> target_bytes
      then fail_io Errc_unsafe ''journal identity does not match shrink target''
      else if js_phase (j_status j) \<noteq> Phase_compacted \<and> js_phase (j_status j) \<noteq> Phase_staged
      then fail_io Errc_unsafe ''journal is not ready for filesystem-size finalization''
      else return_io (ctx, j))))))))"

text \<open>The bitmap and the descriptor of the last group; returned are the bytes of the descriptor.\<close>

definition shrink_last_group :: "block_device \<Rightarrow> metadata_context \<Rightarrow> u64 \<Rightarrow> bytes \<Rightarrow> unit io" where
  "shrink_last_group d ctx target sbraw =
     (let sb = mc_sb ctx; removed = sb_blocks_count sb - target; grp = groups_count sb - 1 in
      bind_io (read_group_desc d sb grp) (\<lambda>gd.
      bind_io (read_group_descriptor_raw d ctx grp) (\<lambda>gdr.
      bind_io (read_block_bitmap d sb gd) (\<lambda>bm.
      bind_io (lift_io (mark_tail (group_start_block sb grp) (block_range target (sb_blocks_count sb)) bm)) (\<lambda>bm1.
      let oldfree = desc_free gdr in
      if removed > ucast oldfree then fail_io Errc_corrupt ''last group free count is smaller than removed tail''
      else
      bind_io (lift_io (update_block_bitmap_checksum ctx (set_desc_free gdr (ucast (ucast oldfree - removed))) bm1)) (\<lambda>gd1.
      bind_io (lift_io (update_group_descriptor_checksum ctx grp gd1)) (\<lambda>gd2.
      bind_io (write_exact d (gd_block_bitmap gd * block_size sb) bm1) (\<lambda>_.
      bind_io (write_group_descriptor_raw d ctx grp gd2) (\<lambda>_.
      bind_io (write_group_desc_backups d ctx sbraw grp gd2) (\<lambda>_. flush d))))))))))"

text \<open>The superblock of the smaller filesystem, not yet marked clean.\<close>

definition shrunk_super :: "metadata_context \<Rightarrow> u64 \<Rightarrow> bytes \<Rightarrow> u16 \<Rightarrow> bytes result" where
  "shrunk_super ctx target sbraw state =
     (let sb = mc_sb ctx; removed = sb_blocks_count sb - target;
          reserved = (if sb_reserved_blocks sb > target then target div 20 else sb_reserved_blocks sb);
          s1 = set_u64_lohi sbraw 0x04 0x150 target;
          s2 = set_u64_lohi s1 0x0c 0x158 (sb_free_blocks sb - removed);
          s3 = set_u64_lohi s2 0x08 0x154 reserved
      in if removed > sb_free_blocks sb then fail Errc_corrupt ''superblock free count smaller than shrink tail''
         else with_state s3 (state AND NOT 1))"

text \<open>The steps after the new superblock is on the disk: verification, and only then the clean state.\<close>

definition finalize_verified :: "block_device \<Rightarrow> metadata_context \<Rightarrow> bytes \<Rightarrow> u16 \<Rightarrow> journal \<Rightarrow> journal io" where
  "finalize_verified d ctx small state j =
     bind_io (verify_metadata d False) (\<lambda>v.
     if \<not> mi_clean v
     then fail_io Errc_corrupt ''post-shrink metadata verification failed; filesystem intentionally left unclean''
     else
     bind_io (lift_io (with_state small (state OR 1))) (\<lambda>clean.
     bind_io (write_super_copies d ctx clean) (\<lambda>_.
     bind_io (on_journal (journal_append (plain_record Rec_filesystem_marked_clean)) j) (\<lambda>j1.
     on_journal (checkpoint Phase_filesystem_shrunk) j1))))"

definition finalize_marked :: "block_device \<Rightarrow> metadata_context \<Rightarrow> u64 \<Rightarrow> bytes \<Rightarrow> u16 \<Rightarrow> journal \<Rightarrow> journal io" where
  "finalize_marked d ctx target dirty state j =
     bind_io (shrink_last_group d ctx target dirty) (\<lambda>_.
     bind_io (lift_io (shrunk_super ctx target dirty state)) (\<lambda>small.
     bind_io (write_super_copies d ctx small) (\<lambda>_. finalize_verified d ctx small state j)))"

definition finalize_apply :: "block_device \<Rightarrow> u64 \<Rightarrow> metadata_context \<Rightarrow> journal \<Rightarrow> journal io" where
  "finalize_apply d target_bytes ctx j =
     bind_io (read_raw_superblock d) (\<lambda>sbraw.
     let state = read_le16 sbraw 0x3a in
     bind_io (lift_io (with_state sbraw (state AND NOT 1))) (\<lambda>dirty.
     bind_io (write_super_copies d ctx dirty) (\<lambda>_.
     bind_io (on_journal (journal_append (plain_record Rec_filesystem_marked_dirty)) j) (\<lambda>j1.
     bind_io (on_journal (checkpoint Phase_metadata_finalize) j1) (\<lambda>j2.
     finalize_marked d ctx (target_bytes div block_size (mc_sb ctx)) dirty state j2)))))"

definition finalize_metadata_only_shrink :: "block_device \<Rightarrow> u64 \<Rightarrow> finalize_options \<Rightarrow> unit io" where
  "finalize_metadata_only_shrink d target_bytes opts =
     bind_io (finalize_ready d target_bytes opts) (\<lambda>(ctx, j).
     bind_io (finalize_apply d target_bytes ctx j) (\<lambda>_. return_io ()))"

section \<open>Growing\<close>

record grow_options =
  go_allow_block_device :: bool
  go_verify_after :: bool

record grow_report =
  gr_old_blocks :: u64
  gr_new_blocks :: u64
  gr_blocks_added :: u64
  gr_free_blocks_after :: u64
  gr_verified :: bool

definition grow_ready :: "block_device \<Rightarrow> u64 \<Rightarrow> grow_options \<Rightarrow> metadata_context io" where
  "grow_ready d target_bytes opts =
     bind_io (require_offline_for_write d) (\<lambda>_.
     bind_io (inspect_device_safety d) (\<lambda>ds.
     if ds_block_device ds \<and> \<not> go_allow_block_device opts
     then fail_io Errc_unsafe ''block-device grow requires --allow-block-device''
     else
     bind_io (load_metadata_context d False) (\<lambda>ctx.
     let sb = mc_sb ctx; bs = block_size sb; target = target_bytes div bs in
     if sb_feature_incompat sb AND INCOMPAT_META_BG \<noteq> 0 then fail_io Errc_unsupported ''same-group grow refuses meta_bg''
     else if sb_feature_ro_compat sb AND RO_COMPAT_BIGALLOC \<noteq> 0
     then fail_io Errc_unsupported ''same-group grow refuses bigalloc''
     else if sb_feature_incompat sb AND INCOMPAT_RECOVER \<noteq> 0
     then fail_io Errc_unsafe ''filesystem journal recovery is required before grow''
     else if sb_state sb AND 1 = 0 then fail_io Errc_unsafe ''filesystem is not marked clean; run a check before grow''
     else if target_bytes \<le> size_bytes sb then fail_io Errc_invalid_argument ''grow target must be larger than filesystem''
     else if target_bytes > g_size_bytes (bd_geometry d)
     then fail_io Errc_invalid_argument ''grow target exceeds containing device''
     else if target_bytes mod bs \<noteq> 0
     then fail_io Errc_invalid_argument ''grow target must be aligned to filesystem block size''
     else if target_groups_of sb target \<noteq> groups_count sb
     then fail_io Errc_unsupported ''grow would add ext4 block groups; this release only grows within the existing last group''
     else if target > group_start_block sb (groups_count sb - 1) + ucast (sb_blocks_per_group sb)
     then fail_io Errc_invalid_argument ''grow target exceeds existing last block group''
     else return_io ctx)))"

fun check_new_blocks :: "superblock \<Rightarrow> group_desc \<Rightarrow> u64 \<Rightarrow> bytes \<Rightarrow> u64 list \<Rightarrow> unit result" where
  "check_new_blocks sb gd gs bm [] = Inr ()"
| "check_new_blocks sb gd gs bm (b # bs) =
     (let itb = (ucast (sb_inodes_per_group sb) * ucast (sb_inode_size sb) + block_size sb - 1) div block_size sb in
      if b < gs then fail Errc_corrupt ''grow range precedes last block group''
      else if b = gd_block_bitmap gd \<or> b = gd_inode_bitmap gd \<or> (b \<ge> gd_inode_table gd \<and> b < gd_inode_table gd + itb)
      then fail Errc_unsafe ''grow range intersects fixed ext4 metadata''
      else if \<not> bit_set bm (b - gs)
      then fail Errc_corrupt ''block beyond current filesystem is not marked unavailable in last-group bitmap''
      else check_new_blocks sb gd gs bm bs)"

text \<open>The bitmap and the descriptor of the last group with the new blocks free.\<close>

definition grow_last_group :: "block_device \<Rightarrow> metadata_context \<Rightarrow> u64 \<Rightarrow> bytes \<Rightarrow> group_desc \<Rightarrow> bytes \<Rightarrow> bytes \<Rightarrow> unit io" where
  "grow_last_group d ctx target sbraw gd gdr bm =
     (let sb = mc_sb ctx; grp = groups_count sb - 1; gs = group_start_block sb grp; added = target - sb_blocks_count sb;
          old = (ucast (desc_free gdr) :: u64)
      in if old + added > 0xffffffff then fail_io Errc_corrupt ''group free-block counter would overflow''
         else
         let bm1 = fold (\<lambda>b m. clear_tail_bit m (b - gs)) (block_range (sb_blocks_count sb) target) bm in
         bind_io (lift_io (update_block_bitmap_checksum ctx (set_desc_free gdr (ucast (old + added))) bm1)) (\<lambda>gd1.
         bind_io (lift_io (update_group_descriptor_checksum ctx grp gd1)) (\<lambda>gd2.
         bind_io (write_exact d (gd_block_bitmap gd * block_size sb) bm1) (\<lambda>_.
         bind_io (write_group_descriptor_raw d ctx grp gd2) (\<lambda>_.
         bind_io (write_group_desc_backups d ctx sbraw grp gd2) (\<lambda>_. flush d))))))"

definition grown_super :: "metadata_context \<Rightarrow> u64 \<Rightarrow> bytes \<Rightarrow> u16 \<Rightarrow> bytes result" where
  "grown_super ctx target sbraw state =
     (let sb = mc_sb ctx; added = target - sb_blocks_count sb;
          s1 = set_u64_lohi sbraw 0x04 0x150 target;
          s2 = set_u64_lohi s1 0x0c 0x158 (sb_free_blocks sb + added)
      in if sb_free_blocks sb > u64_max - added then fail Errc_corrupt ''superblock free-block counter would overflow''
         else with_state s2 (state AND NOT 1))"

definition grow_within_last_group :: "block_device \<Rightarrow> u64 \<Rightarrow> grow_options \<Rightarrow> grow_report io" where
  "grow_within_last_group d target_bytes opts =
     bind_io (grow_ready d target_bytes opts) (\<lambda>ctx.
     let sb = mc_sb ctx; target = target_bytes div block_size sb; grp = groups_count sb - 1; gs = group_start_block sb grp;
         added = target - sb_blocks_count sb in
     bind_io (read_group_desc d sb grp) (\<lambda>gd.
     bind_io (read_group_descriptor_raw d ctx grp) (\<lambda>gdr.
     bind_io (read_block_bitmap d sb gd) (\<lambda>bm.
     bind_io (lift_io (check_new_blocks sb gd gs bm (block_range (sb_blocks_count sb) target))) (\<lambda>_.
     bind_io (read_raw_superblock d) (\<lambda>sbraw.
     let state = read_le16 sbraw 0x3a in
     bind_io (lift_io (with_state sbraw (state AND NOT 1))) (\<lambda>dirty.
     bind_io (write_super_copies d ctx dirty) (\<lambda>_.
     bind_io (grow_last_group d ctx target dirty gd gdr bm) (\<lambda>_.
     bind_io (lift_io (grown_super ctx target dirty state)) (\<lambda>big.
     bind_io (write_super_copies d ctx big) (\<lambda>_.
     bind_io (if go_verify_after opts
              then bind_io (verify_metadata d False) (\<lambda>v.
                   if \<not> mi_clean v
                   then fail_io Errc_corrupt ''post-grow metadata verification failed; filesystem intentionally left unclean''
                   else return_io True)
              else return_io False) (\<lambda>verified.
     bind_io (lift_io (with_state big (state OR 1))) (\<lambda>clean.
     bind_io (write_super_copies d ctx clean) (\<lambda>_.
     return_io \<lparr>gr_old_blocks = sb_blocks_count sb, gr_new_blocks = target, gr_blocks_added = added,
       gr_free_blocks_after = sb_free_blocks sb + added, gr_verified = verified\<rparr>))))))))))))))"

end
