(* ===== verification/Fsx_Commit_Laws.thy ===== *)
theory Fsx_Commit_Laws
  imports Fsx_Commit Fsx_Journal_Validate Fsx_Stage_Laws
begin

text \<open>
  What the metadata commit does to its files: which operations only read, which write the device only, and which records
  the commit adds to its journal, as triples on a journal in use.
\<close>

section \<open>Records without their numbers\<close>

definition unnumbered :: "journal_record list \<Rightarrow> journal_record list" where
  "unnumbered rs = map (\<lambda>r. r\<lparr>jr_sequence := 0\<rparr>) rs"

lemma unnumbered_simps [simp]:
  "unnumbered [] = []" "unnumbered (r # rs) = r\<lparr>jr_sequence := 0\<rparr> # unnumbered rs"
  "unnumbered (rs @ qs) = unnumbered rs @ unnumbered qs" "length (unnumbered rs) = length rs"
  by (simp_all add: unnumbered_def)

lemma unnumbered_number [simp]: "unnumbered (number_from i rs) = unnumbered rs"
  by (induction rs arbitrary: i) simp_all

lemma unnumbered_take: "unnumbered (take n rs) = take n (unnumbered rs)"
  by (simp add: unnumbered_def take_map)

lemma seen_unnumbered: "seen (unnumbered rs) ty t = seen rs ty t"
  by (simp add: seen_def unnumbered_def)

lemma first_intent_unnumbered: "first_intent (unnumbered rs) t = map_option (\<lambda>r. r\<lparr>jr_sequence := 0\<rparr>) (first_intent rs t)"
  by (induction rs) (simp_all add: first_intent_def)

lemma legal_at_unnumbered: "legal_at (unnumbered rs) (r\<lparr>jr_sequence := 0\<rparr>) = legal_at rs r"
  by (cases "first_intent rs (jr_transaction_id r)")
    (simp_all add: legal_at_def seen_unnumbered first_intent_unnumbered same_move_def split: journal_record_type.splits)

lemma legal_unnumbered: "legal (unnumbered rs) = legal rs"
proof (induction rs rule: rev_induct)
  case (snoc r rs)
  then show ?case using legal_at_unnumbered [of rs r] by (simp add: legal_snoc)
qed simp

lemma dirty_unnumbered: "dirty_after (unnumbered rs) = dirty_after rs"
  by (induction rs rule: rev_induct) (simp_all add: dirty_after_snoc)

section \<open>A journal in use\<close>

text \<open>Journal \<open>j\<close> holds \<open>rs\<close>, apart from the numbers, and has room for \<open>k\<close> more header writes before its sequence number
  wraps around.\<close>

definition logs :: "nat \<Rightarrow> journal \<Rightarrow> journal_record list \<Rightarrow> world \<Rightarrow> bool" where
  "logs k j rs w \<longleftrightarrow> j_writable j \<and> on_file (j_device j) w \<and> unat (js_header_sequence (j_status j)) + k < 2 ^ 64
     \<and> (\<exists>full. unnumbered full = unnumbered rs \<and> journal_inv (j_status j) full (data_of (j_device j) w))"

lemma logs_less: "logs k j rs w \<Longrightarrow> k' \<le> k \<Longrightarrow> logs k' j rs w"
  by (auto simp: logs_def)

lemma logs_room: "logs (Suc k) j rs w \<Longrightarrow> js_header_sequence (j_status j) \<noteq> - 1
    \<and> unat (js_header_sequence (j_status j) + 1) = Suc (unat (js_header_sequence (j_status j)))"
  using unat_Suc [of "js_header_sequence (j_status j)"]
  by (auto simp: logs_def unsigned_minus_1_eq_mask mask_eq_exp_minus_1)

lemma logs_load:
  assumes "logs k j rs w"
  obtains h full where "load_image (data_of (j_device j) w) = Inr (h, full)" "same_content h (j_status j)" "unnumbered full = unnumbered rs"
  using assms journal_inv_load unfolding logs_def by metis

text \<open>The same device and what is promised of the journal.\<close>

definition logged :: "nat \<Rightarrow> block_device \<Rightarrow> journal_record list \<Rightarrow> journal \<Rightarrow> world \<Rightarrow> bool" where
  "logged k d rs j w \<longleftrightarrow> logs k j rs w \<and> j_device j = d"

lemma triple_append:
  "triple (logged (Suc k) d rs j) (on_journal (journal_append r) j) (logged k d (rs @ [r])) (\<lambda>_. True)"
proof (rule tripleI)
  fix w q w' assume l: "logged (Suc k) d rs j w" and run: "on_journal (journal_append r) j w = (q, w')"
  obtain x j1 w1 where a: "append_batch [r] j w = (x, j1, w1)" by (metis prod_cases3)
  obtain full where full: "unnumbered full = unnumbered rs" "journal_inv (j_status j) full (data_of (j_device j) w)"
    and j: "j_writable j" "on_file (j_device j) w" "j_device j = d" "unat (js_header_sequence (j_status j)) + Suc k < 2 ^ 64"
    using l by (auto simp: logged_def logs_def)
  have room: "js_header_sequence (j_status j) \<noteq> - 1" "unat (js_header_sequence (j_status j) + 1) = Suc (unat (js_header_sequence (j_status j)))"
    using l logs_room by (auto simp: logged_def)
  note out = append_batch_outcomes [OF a j(1) _ j(2) full(2) room(1)]
  show "case q of Inl _ \<Rightarrow> True | Inr j' \<Rightarrow> logged k d (rs @ [r]) j' w'"
  proof (cases x)
    case (Inl e)
    then have "q = Inl e" using run a by (simp add: on_journal_def journal_append_def)
    then show ?thesis by simp
  next
    case (Inr u)
    then have j1: "j1 = j\<lparr>j_status := batch_status [r] (j_status j)\<rparr>"
      "journal_inv (j_status j1) (full @ number_from (js_record_count (j_status j)) [r]) (data_of (j_device j) w1)" "on_file (j_device j) w1"
      using out by auto
    have "logged k d (rs @ [r]) j1 w1" unfolding logged_def logs_def
    proof (intro conjI exI [of _ "full @ number_from (js_record_count (j_status j)) [r]"])
      show "journal_inv (j_status j1) (full @ number_from (js_record_count (j_status j)) [r]) (data_of (j_device j1) w1)"
        using j1 by simp
      show "unat (js_header_sequence (j_status j1)) + k < 2 ^ 64" using j1(1) room(2) j(4) by simp
    qed (use full(1) j1 j in simp_all)
    then show ?thesis using run a Inr by (auto simp: on_journal_def journal_append_def)
  qed
qed

lemma triple_checkpoint:
  "triple (logged (Suc (Suc k)) d rs j) (on_journal (checkpoint ph) j)
     (\<lambda>j' w. logged k d (rs @ [checkpoint_record ph (j_status j)]) j' w \<and> js_phase (j_status j') = ph) (\<lambda>_. True)"
proof (rule tripleI)
  fix w q w' assume l: "logged (Suc (Suc k)) d rs j w" and run: "on_journal (checkpoint ph) j w = (q, w')"
  obtain x j1 w1 where a: "checkpoint ph j w = (x, j1, w1)" by (metis prod_cases3)
  obtain full where full: "unnumbered full = unnumbered rs" "journal_inv (j_status j) full (data_of (j_device j) w)"
    and j: "j_writable j" "on_file (j_device j) w" "j_device j = d" "unat (js_header_sequence (j_status j)) + Suc (Suc k) < 2 ^ 64"
    using l by (auto simp: logged_def logs_def)
  let ?s = "js_header_sequence (j_status j)"
  have room: "?s \<noteq> - 1" "unat (?s + 1) = Suc (unat ?s)"
    using l logs_room by (auto simp: logged_def)
  have room2: "?s + 1 \<noteq> - 1" "unat (?s + 1 + 1) = Suc (Suc (unat ?s))"
    using room(2) j(4) unat_Suc [of "?s + 1"] by (auto simp: unsigned_minus_1_eq_mask mask_eq_exp_minus_1)
  note out = checkpoint_outcomes [OF a j(1,2) full(2) room(1) room2(1) refl refl refl]
  show "case q of Inl _ \<Rightarrow> True
      | Inr j' \<Rightarrow> logged k d (rs @ [checkpoint_record ph (j_status j)]) j' w' \<and> js_phase (j_status j') = ph"
  proof (cases x)
    case (Inl e)
    then have "q = Inl e" using run a by (simp add: on_journal_def)
    then show ?thesis by simp
  next
    case (Inr u)
    let ?full = "full @ [(checkpoint_record ph (j_status j))\<lparr>jr_sequence := js_record_count (j_status j) + 1\<rparr>]"
    have j1: "journal_inv (j_status j1) ?full (data_of (j_device j) w1)" "on_file (j_device j) w1"
      "j_device j1 = d" "j_writable j1" "js_phase (j_status j1) = ph" "js_header_sequence (j_status j1) = ?s + 1 + 1"
      using out Inr j by auto
    have "logged k d (rs @ [checkpoint_record ph (j_status j)]) j1 w1" unfolding logged_def logs_def
      using j1 j full(1) room2(2) by (intro conjI exI [of _ ?full]) simp_all
    then show ?thesis using run a Inr j1(5) by (auto simp: on_journal_def)
  qed
qed

lemma triple_touch:
  assumes "touches f m" and "f \<noteq> bd_fd d"
  shows "triple (logged k d rs j) m (\<lambda>_. logged k d rs j) (\<lambda>_. True)"
proof (rule tripleI)
  fix w r w' assume l: "logged k d rs j w" and run: "m w = (r, w')"
  have "w_files w' (bd_fd d) = w_files w (bd_fd d)" using others_keptD [OF touchesD [OF assms(1) run] assms(2)] .
  then have "logged k d rs j w'" using l by (auto simp: logged_def logs_def on_file_def)
  then show "case r of Inl _ \<Rightarrow> True | Inr x \<Rightarrow> logged k d rs j w'" by (simp split: sum.splits)
qed

section \<open>The records of a move\<close>

text \<open>The records that one move adds; the flags say whether the destination was reserved, the owner switched and the source
  released in this run.\<close>

definition move_trace :: "owner_move \<Rightarrow> bool \<times> bool \<times> bool \<Rightarrow> journal_record list" where
  "move_trace m st = (case st of (res, sw, rel) \<Rightarrow>
     (if res then [commit_record Rec_destination_reserved m] else []) @ (if sw then [commit_record Rec_owner_switched m] else [])
     @ (if rel then [commit_record Rec_source_released m] else []) @ [commit_record Rec_metadata_committed m])"

text \<open>The journal announces the move and has its verified copy.\<close>

definition announced :: "journal_record list \<Rightarrow> owner_move \<Rightarrow> bool" where
  "announced rs m \<longleftrightarrow> om_transaction_id m \<noteq> 0 \<and> seen rs Rec_copy_verified (om_transaction_id m)
     \<and> (\<exists>q. first_intent rs (om_transaction_id m) = Some q \<and> same_move q (commit_record Rec_copy_verified m))"

lemma commit_record_fields [simp]:
  "jr_type (commit_record ty m) = ty" "jr_transaction_id (commit_record ty m) = om_transaction_id m"
  "same_move q (commit_record ty m) \<longleftrightarrow> jr_source_block q = om_source_block m \<and> jr_destination_block q = om_destination_block m
     \<and> jr_block_count q = om_block_count m \<and> jr_inode q = om_inode m"
  by (simp_all add: commit_record_def move_record_def same_move_def)

lemma announced_append: "announced rs m \<Longrightarrow> announced (rs @ qs) m"
  by (auto simp: announced_def seen_def first_intent_def find_append)

lemma seen_append: "seen (rs @ qs) ty t \<longleftrightarrow> seen rs ty t \<or> seen qs ty t"
  by (auto simp: seen_def)

lemma legal_move_record:
  assumes "announced rs m" and "ty \<in> {Rec_destination_reserved, Rec_owner_switched, Rec_source_released, Rec_metadata_committed}"
  shows "legal_at rs (commit_record ty m) \<longleftrightarrow> (ty = Rec_source_released \<longrightarrow> seen rs Rec_owner_switched (om_transaction_id m))"
  using assms by (auto simp: legal_at_def announced_def)

lemma legal_move_trace:
  assumes "announced rs m"
  shows "legal (rs @ move_trace m (res, sw, rel)) \<longleftrightarrow> legal rs \<and> (rel \<longrightarrow> sw \<or> seen rs Rec_owner_switched (om_transaction_id m))"
proof -
  let ?r = "if res then [commit_record Rec_destination_reserved m] else []" and ?s = "if sw then [commit_record Rec_owner_switched m] else []"
    and ?l = "if rel then [commit_record Rec_source_released m] else []"
  have 1: "legal (rs @ ?r) = legal rs"
    using legal_move_record [OF assms, of Rec_destination_reserved] by (simp add: legal_snoc)
  have 2: "legal ((rs @ ?r) @ ?s) = legal rs"
    using legal_move_record [OF announced_append [OF assms, of ?r], of Rec_owner_switched] 1 by (simp add: legal_snoc del: append_assoc)
  have 3: "legal (((rs @ ?r) @ ?s) @ ?l) \<longleftrightarrow> legal rs \<and> (rel \<longrightarrow> sw \<or> seen rs Rec_owner_switched (om_transaction_id m))"
    using legal_move_record [OF announced_append [OF announced_append [OF assms, of ?r], of ?s], of Rec_source_released] 2
    by (auto simp: legal_snoc seen_append seen_def simp del: append_assoc)
  have 4: "legal ((((rs @ ?r) @ ?s) @ ?l) @ [commit_record Rec_metadata_committed m]) = legal (((rs @ ?r) @ ?s) @ ?l)"
    using legal_move_record [OF announced_append [OF announced_append [OF announced_append [OF assms, of ?r], of ?s], of ?l], of Rec_metadata_committed]
    unfolding legal_snoc by simp
  show ?thesis using 3 4 by (simp add: move_trace_def)
qed

definition traces :: "owner_move list \<Rightarrow> (bool \<times> bool \<times> bool) list \<Rightarrow> journal_record list" where
  "traces ms sts = concat (map2 move_trace ms sts)"

lemma traces_simps [simp]: "traces [] sts = []" "traces (m # ms) (st # sts) = move_trace m st @ traces ms sts"
  by (simp_all add: traces_def)

lemma traces_seen:
  "length sts = length ms \<Longrightarrow> t \<notin> om_transaction_id ` set ms \<Longrightarrow> \<not> seen (traces ms sts) ty t"
  by (induction sts ms rule: list_induct2) (auto simp: seen_append move_trace_def seen_def split: prod.splits if_splits)

text \<open>The validator accepts the records of a run exactly when every source that was released had its owner switched, in this
  run or on record from an earlier one.\<close>

definition switched_first :: "journal_record list \<Rightarrow> owner_move \<Rightarrow> bool \<times> bool \<times> bool \<Rightarrow> bool" where
  "switched_first rs m st = (case st of (res, sw, rel) \<Rightarrow> rel \<longrightarrow> sw \<or> seen rs Rec_owner_switched (om_transaction_id m))"

lemma legal_traces:
  assumes "length sts = length ms" and "distinct (map om_transaction_id ms)" and "\<forall>m\<in>set ms. announced rs m"
  shows "legal (rs @ traces ms sts) \<longleftrightarrow> legal rs \<and> list_all2 (switched_first rs) ms sts"
  using assms
proof (induction sts ms arbitrary: rs rule: list_induct2)
  case (Cons st sts m ms)
  obtain res sw rel where st: "st = (res, sw, rel)" by (cases st)
  have ann: "\<forall>m'\<in>set ms. announced (rs @ move_trace m st) m'" using Cons.prems announced_append by auto
  have same: "switched_first (rs @ move_trace m st) m' = switched_first rs m'" if "m' \<in> set ms" for m'
  proof -
    have "om_transaction_id m \<notin> om_transaction_id ` set ms" using Cons.prems(1) by simp
    then have "om_transaction_id m' \<noteq> om_transaction_id m" by (metis that imageI)
    then have "\<not> seen (move_trace m st) Rec_owner_switched (om_transaction_id m')" by (auto simp: st move_trace_def seen_def)
    then show ?thesis by (auto simp: fun_eq_iff switched_first_def seen_append)
  qed
  have "list_all2 (switched_first (rs @ move_trace m st)) ms sts = list_all2 (switched_first rs) ms sts"
    using same by (auto simp: list_all2_conv_all_nth)
  moreover have "legal (rs @ move_trace m st) \<longleftrightarrow> legal rs \<and> switched_first rs m st"
    using legal_move_trace [of rs m res sw rel] Cons.prems(2) by (simp add: st switched_first_def)
  moreover have "legal ((rs @ move_trace m st) @ traces ms sts) \<longleftrightarrow>
      legal (rs @ move_trace m st) \<and> list_all2 (switched_first (rs @ move_trace m st)) ms sts"
    using Cons.IH [OF _ ann] Cons.prems(1) by simp
  ultimately show ?case by simp
qed simp

section \<open>The commit writes the journal and the device\<close>

lemma touches_const [touch_intros]:
  "touches f (return_io x)" "touches f (fail_io c m)" "touches f (lift_io r)" "touches f (read_exact d off n)" "touches f (\<lambda>w. (Inl e, w))"
  by (auto intro!: touches_pure pure_intros simp: pure_io_def)

lemma pure_cond: "(b \<Longrightarrow> pure_io m) \<Longrightarrow> (\<not> b \<Longrightarrow> pure_io m') \<Longrightarrow> pure_io (if b then m else m')"
  by simp

lemma touches_cond: "(b \<Longrightarrow> touches f m) \<Longrightarrow> (\<not> b \<Longrightarrow> touches f m') \<Longrightarrow> touches f (if b then m else m')"
  by simp

lemma pure_tree: "pure_io (parse_node n c node cbo cblk kind st)"
proof (induction n arbitrary: node cbo cblk kind st)
  case (Suc n)
  have "pure_io (index_entries (parse_node n c) c node cbo k xs prev st)" for k xs prev st
  proof (induction xs arbitrary: prev st)
    case (Cons i xs)
    show ?case unfolding index_entries.simps Let_def by (intro pure_intros Suc Cons)
  qed (simp only: index_entries.simps pure_simple)
  then show ?case unfolding parse_node.simps by (intro pure_intros)
qed (simp only: parse_node.simps, intro pure_intros)

lemma pure_scan [pure_intros]: "pure_io (scan_inode_extent_tree srt d ino k)" "pure_io (find_inode_extent srt d ino l)"
  "pure_io (find_tree_location srt d ctx m)" "pure_io (current_data_owner srt d m)" "pure_io (current_tree_owner srt d ctx m)"
proof -
  show s: "pure_io (scan_inode_extent_tree srt d ino k)" for ino k
    unfolding scan_inode_extent_tree_def scan_specific_inode_def parse_inode_def parse_extent_node_def Let_def
    by (intro pure_intros pure_tree)
  show f: "pure_io (find_inode_extent srt d ino l)" for ino l
    unfolding find_inode_extent_def by (intro pure_intros s pure_option)
  show t: "pure_io (find_tree_location srt d ctx m)"
    unfolding find_tree_location_def by (intro pure_intros s pure_option)
  show "pure_io (current_data_owner srt d m)" "pure_io (current_tree_owner srt d ctx m)"
    unfolding current_data_owner_def current_tree_owner_def by (intro pure_intros f t)+
qed

lemma pure_allocation_loop: "pure_io (allocation_loop d sb pos left out)"
proof (induction d sb pos left out rule: allocation_loop.induct)
  case (1 d sb pos left out)
  obtain grp idx n where g: "group_part sb pos left = (grp, idx, n)" by (cases "group_part sb pos left")
  have div: "pure_io (\<lambda>w. (Inl Diverged, w))" by (simp add: pure_io_def)
  show ?case
    unfolding allocation_loop.simps [of d sb pos left out] g prod.case
    by (intro pure_cond pure_bind pure_ext4 pure_simple div "1" [OF _ _ g [symmetric] refl])
qed

lemma pure_commit [pure_intros]: "pure_io (allocation_state d ctx pos len)" "pure_io (extent_crc d b n bs)" "pure_io (verify_metadata d s)"
proof -
  have c: "pure_io (verify_chunks d dst cs crc)" for dst cs crc
    by (induction cs arbitrary: crc) (simp_all only: verify_chunks.simps, (intro pure_intros | assumption)+)
  show "pure_io (extent_crc d b n bs)" unfolding extent_crc_def Let_def by (intro pure_intros c)
  show "pure_io (allocation_state d ctx pos len)"
    unfolding allocation_state_def Let_def by (intro pure_intros pure_allocation_loop)
  show "pure_io (verify_metadata d s)" unfolding verify_metadata_def Let_def by (intro pure_intros pure_check_groups)
qed

lemma touches_rewrite: "touches (bd_fd d) (rewrite_group_bitmap d ctx g i n a)"
  unfolding rewrite_group_bitmap_def write_group_descriptor_raw_def Let_def
  by (intro touch_intros touches_pure [OF pure_ext4(2)] touches_pure [OF pure_ext4(3)] touches_pure [OF pure_ext4(6)])

lemma touches_update: "touches (bd_fd d) (allocation_update d ctx pos left a)"
proof (induction d ctx pos left a rule: allocation_update.induct)
  case (1 d ctx pos left a)
  obtain grp idx n where g: "group_part (mc_sb ctx) pos left = (grp, idx, n)" by (cases "group_part (mc_sb ctx) pos left")
  show ?case
    unfolding allocation_update.simps [of d ctx pos left a] g prod.case
    by (intro touches_cond touches_bind touches_rewrite touches_const touches_device "1" [OF _ _ g [symmetric] refl])
qed

lemma touches_commit [touch_intros]: "touches (bd_fd d) (set_allocation_range d ctx pos len a)" "touches (bd_fd d) (mark_filesystem_state d c)"
  "touches (bd_fd d) (update_data_owner srt d ctx m nb)" "touches (bd_fd d) (update_tree_parent srt d ctx m nb)"
  "touches (bd_fd d) (refresh_tree_copy d ctx m)"
proof -
  note p = touches_pure [OF pure_ext4(5)] touches_pure [OF pure_ext4(7)] touches_pure [OF pure_ext4(8)] touches_pure [OF pure_scan(2)]
    touches_pure [OF pure_scan(3)]
  show "touches (bd_fd d) (set_allocation_range d ctx pos len a)"
    unfolding set_allocation_range_def by (intro touch_intros touches_update)
  show "touches (bd_fd d) (mark_filesystem_state d c)"
    unfolding mark_filesystem_state_def write_raw_superblock_def Let_def by (intro touch_intros p)
  show "touches (bd_fd d) (update_data_owner srt d ctx m nb)"
    unfolding update_data_owner_def write_inode_raw_def Let_def by (intro touch_intros p)
  show "touches (bd_fd d) (update_tree_parent srt d ctx m nb)"
    unfolding update_tree_parent_def write_inode_raw_def Let_def by (intro touch_intros p)
  show "touches (bd_fd d) (refresh_tree_copy d ctx m)"
    unfolding refresh_tree_copy_def Let_def by (intro touch_intros p)
qed

section \<open>What the commit writes to the journal\<close>

lemma logged_less: "logged (Suc k) d rs j w \<Longrightarrow> logged k d rs j w"
  using logs_less by (auto simp: logged_def)

lemma triple_keep: "triple (logged (Suc k) jd rs j) (return_io j) (logged k jd (rs @ (if False then x else []))) (\<lambda>_. True)"
  by (rule triple_return) (simp add: logged_less)

lemma triple_logged_bind:
  assumes "touches f m" and "f \<noteq> bd_fd jd" and "\<And>x. triple (logged k jd rs j) (g x) Q (\<lambda>_. True)"
  shows "triple (logged k jd rs j) (bind_io m g) Q (\<lambda>_. True)"
  by (rule triple_bind [OF triple_touch [OF assms(1,2)] assms(3)])

lemma triple_ex: "(\<And>x. triple (P x) m Q E) \<Longrightarrow> triple (\<lambda>w. \<exists>x. P x w) m Q E"
  unfolding triple_def by blast

lemma triple_True: "triple P (fail_io c m) Q (\<lambda>_. True)"
  by (rule triple_fail) simp

lemma reserve_logged:
  assumes "bd_fd d \<noteq> bd_fd jd"
  shows "triple (logged (Suc k) jd rs j) (reserve_destination d ctx m dst j)
    (logged k jd (rs @ (if \<not> ra_all_set dst then [commit_record Rec_destination_reserved m] else []))) (\<lambda>_. True)"
proof (cases "ra_all_set dst")
  case True
  then show ?thesis using triple_keep by (simp add: reserve_destination_def)
next
  case False
  show ?thesis unfolding reserve_destination_def using False
    by (simp only: simp_thms if_True, intro triple_if triple_True)
      (rule triple_logged_bind [OF touches_commit(1) assms triple_append])
qed

lemma switch_logged:
  assumes "bd_fd d \<noteq> bd_fd jd"
  shows "triple (logged (Suc k) jd rs j) (switch_owner srt d ctx bs vs m owner j)
    (logged k jd (rs @ (if owner = om_source_block m then [commit_record Rec_owner_switched m] else []))) (\<lambda>_. True)"
proof (cases "owner = om_source_block m")
  case True
  have t: "touches (bd_fd d) (if om_kind m = Data_extent
         then bind_io
           (if \<not> om_unwritten m
            then bind_io (extent_crc d (om_destination_block m) (om_block_count m) bs) (\<lambda>crc.
                 if Some crc \<noteq> map_option jr_data_crc32c (last_record Rec_copy_verified vs (om_transaction_id m))
                 then fail_io Errc_io ''staged destination checksum changed before metadata commit''
                 else return_io ())
            else return_io ())
           (\<lambda>_. update_data_owner srt d ctx m (om_destination_block m))
         else bind_io (refresh_tree_copy d ctx m) (\<lambda>_. update_tree_parent srt d ctx m (om_destination_block m)))"
    by (intro touch_intros touches_pure [OF pure_commit(2)])
  show ?thesis unfolding switch_owner_def using True
    by (simp only: if_True simp_thms) (rule triple_logged_bind [OF t assms triple_append])
next
  case False
  then show ?thesis using triple_keep by (simp add: switch_owner_def)
qed

lemma release_logged:
  assumes "bd_fd d \<noteq> bd_fd jd"
  shows "triple (logged (Suc k) jd rs j) (release_source d ctx m j)
    (\<lambda>j' w. \<exists>rel. logged k jd (rs @ (if rel then [commit_record Rec_source_released m] else [])) j' w) (\<lambda>_. True)"
proof -
  have keep: "triple (logged (Suc k) jd rs j) (return_io j)
      (\<lambda>j' w. \<exists>rel. logged k jd (rs @ (if rel then [commit_record Rec_source_released m] else [])) j' w) (\<lambda>_. True)"
    by (rule triple_return, rule exI [of _ False]) (simp add: logged_less)
  have app: "triple (logged (Suc k) jd rs j) (on_journal (journal_append (commit_record Rec_source_released m)) j)
      (\<lambda>j' w. \<exists>rel. logged k jd (rs @ (if rel then [commit_record Rec_source_released m] else [])) j' w) (\<lambda>_. True)"
    by (rule triple_conseq [OF triple_append], assumption, rule exI [of _ True]) simp_all
  show ?thesis unfolding release_source_def
    by (rule triple_logged_bind [OF touches_pure [OF pure_commit(1)] assms], intro triple_if triple_True keep)
      (rule triple_logged_bind [OF touches_commit(1) assms app])
qed

lemma commit_move_logged:
  assumes "bd_fd d \<noteq> bd_fd jd"
  shows "triple (logged (k + 4) jd rs j) (commit_move srt d ctx bs vs m j)
    (\<lambda>j' w. \<exists>st. logged k jd (rs @ move_trace m st) j' w) (\<lambda>_. True)"
proof -
  have k4: "k + 4 = Suc (Suc (Suc (Suc k)))" by simp
  have fin: "triple (\<lambda>w. \<exists>rel. logged (Suc k) jd (rs1 @ (if rel then [commit_record Rec_source_released m] else [])) j3 w)
      (on_journal (journal_append (commit_record Rec_metadata_committed m)) j3)
      (\<lambda>j' w. \<exists>st. logged k jd (rs @ move_trace m st) j' w) (\<lambda>_. True)"
    if "rs1 = rs @ (if res then [commit_record Rec_destination_reserved m] else []) @ (if sw then [commit_record Rec_owner_switched m] else [])"
    for rs1 j3 res sw
    by (rule triple_ex, rule triple_conseq [OF triple_append], assumption, rule exI [of _ "(res, sw, _)"])
      (simp_all add: move_trace_def that)
  show ?thesis
    unfolding commit_move_def k4
    by (rule triple_logged_bind [OF touches_pure [OF pure_commit(1)] assms],
       rule triple_logged_bind [OF touches_pure [OF pure_commit(1)] assms],
       rule triple_logged_bind [OF touches_pure [OF pure_if [OF pure_scan(4,5)]] assms],
       rule triple_logged_bind [OF touches_pure [OF pure_simple(4)] assms],
       rule triple_bind [OF reserve_logged [OF assms]], rule triple_bind [OF switch_logged [OF assms]],
       rule triple_bind [OF release_logged [OF assms]], rule fin, simp)
qed

text \<open>A run over the moves: all of them, or a prefix and the pause.\<close>

definition moved :: "nat \<Rightarrow> block_device \<Rightarrow> journal_record list \<Rightarrow> owner_move list \<Rightarrow> commit_report \<Rightarrow> journal \<Rightarrow> world \<Rightarrow> bool" where
  "moved k jd rs ms rep j w \<longleftrightarrow>
     (if cm_paused rep
      then \<exists>n sts s. n \<le> length ms \<and> length sts = n \<and> js_phase (j_status j) = Phase_metadata_paused
        \<and> logged k jd (rs @ traces (take n ms) sts @ [checkpoint_record Phase_metadata_paused s]) j w
      else \<exists>sts. length sts = length ms \<and> logged (k + 2) jd (rs @ traces ms sts) j w)"

lemma moved_Cons: "moved k jd (rs @ move_trace m st) ms rep j w \<Longrightarrow> moved k jd rs (m # ms) rep j w"
proof (cases "cm_paused rep")
  case True
  assume "moved k jd (rs @ move_trace m st) ms rep j w"
  then obtain n sts s where "n \<le> length ms" "length sts = n" "js_phase (j_status j) = Phase_metadata_paused"
      "logged k jd ((rs @ move_trace m st) @ traces (take n ms) sts @ [checkpoint_record Phase_metadata_paused s]) j w"
    using True by (auto simp: moved_def)
  then show ?thesis using True by (auto simp: moved_def intro!: exI [of _ "Suc n"] exI [of _ "st # sts"] exI [of _ s])
next
  case False
  assume "moved k jd (rs @ move_trace m st) ms rep j w"
  then obtain sts where "length sts = length ms" "logged (k + 2) jd ((rs @ move_trace m st) @ traces ms sts) j w"
    using False by (auto simp: moved_def)
  then show ?thesis using False by (auto simp: moved_def intro!: exI [of _ "st # sts"])
qed

lemma commit_moves_logged:
  assumes "bd_fd d \<noteq> bd_fd jd" and "\<not> cm_paused rep"
  shows "triple (logged (k + 4 * length ms + 2) jd rs j) (commit_moves srt d ctx bs vs ms j rep)
    (\<lambda>(j', rep') w. moved k jd rs ms rep' j' w \<and> cm_complete rep' = cm_complete rep) (\<lambda>_. True)"
  using assms(2)
proof (induction ms arbitrary: rs j rep)
  case Nil
  show ?case unfolding commit_moves.simps
    by (rule triple_return) (use Nil in \<open>auto simp: moved_def intro!: exI [of _ "[]"]\<close>)
next
  case (Cons m ms)
  let ?Q = "\<lambda>(j', rep') w. moved k jd rs (m # ms) rep' j' w \<and> cm_complete rep' = cm_complete rep"
  have pre: "k + 4 * length (m # ms) + 2 = (k + 4 * length ms + 2) + 4" by simp
  have paused: "moved k jd rs (m # ms) (rep\<lparr>cm_paused := True\<rparr>) j' w"
    if "logged k jd (rs @ [checkpoint_record Phase_metadata_paused (j_status j)]) j' w" "js_phase (j_status j') = Phase_metadata_paused" for j' w
    using that by (auto simp: moved_def intro!: exI [of _ 0])
  have two: "logged (k + 4 * length (m # ms) + 2) jd rs j w \<Longrightarrow> logged (Suc (Suc k)) jd rs j w" for w
    using logs_less by (auto simp: logged_def)
  have pause: "triple (logged (k + 4 * length (m # ms) + 2) jd rs j)
      (bind_io (on_journal (checkpoint Phase_metadata_paused) j) (\<lambda>j'. return_io (j', rep\<lparr>cm_paused := True\<rparr>))) ?Q (\<lambda>_. True)"
    by (rule triple_bind [OF triple_conseq [OF triple_checkpoint two]], assumption, assumption, simp, rule triple_return)
      (auto intro: paused)
  have step: "triple (\<lambda>w. \<exists>st. logged (k + 4 * length ms + 2) jd (rs @ move_trace m st) j' w)
      (commit_moves srt d ctx bs vs ms j' (count_move bs m rep)) ?Q (\<lambda>_. True)" for j'
    by (rule triple_ex, rule triple_conseq [OF Cons.IH])
      (use Cons.prems moved_Cons in \<open>auto simp: count_move_def\<close>)
  show ?case unfolding commit_moves.simps
    by (rule triple_logged_bind [OF touches_pure [OF pure_cancel] assms(1)], rule triple_if, rule pause)
      (unfold pre, rule triple_bind [OF commit_move_logged [OF assms(1)] step])
qed

text \<open>The records before and after the moves.\<close>

definition prologue :: "metadata_context \<Rightarrow> journal_status \<Rightarrow> journal_record list" where
  "prologue ctx s = (if sb_state (mc_sb ctx) AND 1 \<noteq> 0 then [commit_record Rec_filesystem_marked_dirty no_move] else [])
     @ [checkpoint_record Phase_metadata_finalize s]"

definition epilogue :: "commit_options \<Rightarrow> bool \<Rightarrow> journal_status \<Rightarrow> journal_record list" where
  "epilogue opts paused s =
     (if paused then [checkpoint_record Phase_metadata_paused s]
      else (if \<not> co_leave_filesystem_dirty opts then [commit_record Rec_filesystem_marked_clean no_move] else [])
        @ [checkpoint_record Phase_compacted s])"

lemma commit_begin_logged:
  assumes "bd_fd d \<noteq> bd_fd jd"
  shows "triple (logged (k + 3) jd rs j) (commit_begin d ctx j) (\<lambda>j' w. \<exists>s. logged k jd (rs @ prologue ctx s) j' w) (\<lambda>_. True)"
proof -
  have k3: "k + 3 = Suc (Suc (Suc k))" by simp
  have cp: "triple (logged (Suc (Suc k)) jd (rs @ b) j1) (on_journal (checkpoint Phase_metadata_finalize) j1)
      (\<lambda>j' w. \<exists>s. logged k jd (rs @ b @ [checkpoint_record Phase_metadata_finalize s]) j' w) (\<lambda>_. True)" for b j1
    by (rule triple_conseq [OF triple_checkpoint]) auto
  have app: "triple (logged (Suc (Suc (Suc k))) jd rs j)
      (if sb_state (mc_sb ctx) AND 1 \<noteq> 0
       then bind_io (mark_filesystem_state d False) (\<lambda>_. on_journal (journal_append (commit_record Rec_filesystem_marked_dirty no_move)) j)
       else return_io j)
      (logged (Suc (Suc k)) jd (rs @ (if sb_state (mc_sb ctx) AND 1 \<noteq> 0 then [commit_record Rec_filesystem_marked_dirty no_move] else [])))
      (\<lambda>_. True)"
  proof (cases "sb_state (mc_sb ctx) AND 1 \<noteq> 0")
    case True
    then show ?thesis by (simp only: if_True simp_thms) (rule triple_logged_bind [OF touches_commit(2) assms triple_append])
  next
    case False
    then show ?thesis using triple_keep by simp
  qed
  show ?thesis unfolding commit_begin_def prologue_def k3 by (rule triple_bind [OF app cp])
qed

lemma commit_finish_logged:
  assumes "bd_fd d \<noteq> bd_fd jd"
  shows "triple (logged (k + 3) jd rs j) (commit_finish d opts j rep)
    (\<lambda>rep' w. (\<exists>j' s. logged k jd (rs @ epilogue opts False s) j' w \<and> js_phase (j_status j') = Phase_compacted)
       \<and> cm_paused rep' = cm_paused rep \<and> cm_complete rep') (\<lambda>_. True)"
proof -
  have k3: "k + 3 = Suc (Suc (Suc k))" by simp
  let ?mark = "if \<not> co_leave_filesystem_dirty opts then [commit_record Rec_filesystem_marked_clean no_move] else []"
  have cp: "triple (\<lambda>w. logged (Suc (Suc k)) jd (rs @ ?mark) (fst jr) w \<and> cm_paused (snd jr) = cm_paused rep)
      (case jr of (j1, rep1) \<Rightarrow> bind_io (on_journal (checkpoint Phase_compacted) j1) (\<lambda>_. return_io (rep1\<lparr>cm_complete := True\<rparr>)))
      (\<lambda>rep' w. (\<exists>j' s. logged k jd (rs @ epilogue opts False s) j' w \<and> js_phase (j_status j') = Phase_compacted)
         \<and> cm_paused rep' = cm_paused rep \<and> cm_complete rep') (\<lambda>_. True)" for jr
  proof (cases jr)
    case (Pair j1 rep1)
    show ?thesis
    proof (cases "cm_paused rep1 = cm_paused rep")
      case True
      have "triple (logged (Suc (Suc k)) jd (rs @ ?mark) j1)
        (bind_io (on_journal (checkpoint Phase_compacted) j1) (\<lambda>_. return_io (rep1\<lparr>cm_complete := True\<rparr>)))
        (\<lambda>rep' w. (\<exists>j' s. logged k jd (rs @ epilogue opts False s) j' w \<and> js_phase (j_status j') = Phase_compacted)
         \<and> cm_paused rep' = cm_paused rep \<and> cm_complete rep') (\<lambda>_. True)"
        by (rule triple_bind [OF triple_checkpoint], rule triple_return) (use True in \<open>fastforce simp: epilogue_def\<close>)
      then show ?thesis using True by (simp add: Pair)
    qed (simp add: Pair triple_def)
  qed
  have app: "triple (logged (Suc (Suc (Suc k))) jd rs j)
      (if \<not> co_leave_filesystem_dirty opts
       then bind_io (mark_filesystem_state d True) (\<lambda>_.
            bind_io (on_journal (journal_append (commit_record Rec_filesystem_marked_clean no_move)) j) (\<lambda>j1.
            return_io (j1, rep\<lparr>cm_filesystem_clean := True\<rparr>)))
       else return_io (j, rep))
      (\<lambda>jr w. logged (Suc (Suc k)) jd (rs @ ?mark) (fst jr) w \<and> cm_paused (snd jr) = cm_paused rep) (\<lambda>_. True)"
  proof (cases "co_leave_filesystem_dirty opts")
    case False
    then show ?thesis
      by (simp only: if_True simp_thms)
        (rule triple_logged_bind [OF touches_commit(2) assms], rule triple_bind [OF triple_append], rule triple_return, simp)
  next
    case True
    then show ?thesis by (simp only: if_False simp_thms) (rule triple_return, simp add: logged_less)
  qed
  have chk: "touches (bd_fd d) (if co_verify_metadata_after opts
              then bind_io (verify_metadata d False) (\<lambda>v.
                   if \<not> mi_clean v
                   then fail_io Errc_corrupt ''post-commit metadata verification failed; filesystem intentionally left unclean''
                   else return_io ())
              else return_io ())"
    by (intro touches_pure pure_intros)
  show ?thesis unfolding commit_finish_def k3
    by (rule triple_logged_bind [OF chk assms], rule triple_bind [OF app cp])
qed

lemma commit_apply_logged:
  assumes "bd_fd d \<noteq> bd_fd jd" and ms_def: "ms = sort_key commit_key (op_moves plan)"
  shows "triple (logged (4 * length (op_moves plan) + 6) jd rs j) (commit_apply srt d ctx plan opts vs j)
    (\<lambda>rep w. \<exists>j' s s' n sts. logged 0 jd (rs @ prologue ctx s @ traces (take n ms) sts @ epilogue opts (cm_paused rep) s') j' w
       \<and> n \<le> length ms \<and> length sts = n \<and> (\<not> cm_paused rep \<longrightarrow> n = length ms) \<and> cm_complete rep = (\<not> cm_paused rep)
       \<and> js_phase (j_status j') = (if cm_paused rep then Phase_metadata_paused else Phase_compacted)) (\<lambda>_. True)"
    (is "triple _ _ ?Q _")
proof -
  have len: "length ms = length (op_moves plan)" by (simp add: ms_def)
  have k: "4 * length (op_moves plan) + 6 = (1 + 4 * length ms + 2) + 3" by (simp add: len)
  have rest: "triple (\<lambda>w. moved 1 jd (rs @ prologue ctx s) ms (snd jr) (fst jr) w \<and> cm_complete (snd jr) = cm_complete (empty_commit plan))
      (case jr of (j2, rep) \<Rightarrow> if cm_paused rep then return_io rep else commit_finish d opts j2 rep) ?Q (\<lambda>_. True)" for jr s
  proof (cases jr)
    case (Pair j2 rep)
    show ?thesis
    proof (cases "cm_paused rep")
      case True
      have "?Q rep w" if p: "moved 1 jd (rs @ prologue ctx s) ms rep j2 w" "\<not> cm_complete rep" for w
      proof -
        obtain n sts s' where q: "n \<le> length ms" "length sts = n" "js_phase (j_status j2) = Phase_metadata_paused"
          "logged 1 jd ((rs @ prologue ctx s) @ traces (take n ms) sts @ [checkpoint_record Phase_metadata_paused s']) j2 w"
          using p(1) True by (auto simp: moved_def)
        have "logged 0 jd (rs @ prologue ctx s @ traces (take n ms) sts @ epilogue opts (cm_paused rep) s') j2 w"
          using logged_less [of 0] q(4) True by (simp add: epilogue_def)
        then show ?thesis using q(1-3) True p(2) by (intro exI [of _ j2] exI [of _ s] exI [of _ s'] exI [of _ n] exI [of _ sts]) simp
      qed
      then show ?thesis using True by (simp add: Pair) (rule triple_return, simp add: empty_commit_def)
    next
      case False
      have "triple (\<lambda>w. \<exists>sts. length sts = length ms \<and> logged 3 jd ((rs @ prologue ctx s) @ traces ms sts) j2 w) (commit_finish d opts j2 rep) ?Q (\<lambda>_. True)"
      proof (rule triple_ex)
        fix sts
        show "triple (\<lambda>w. length sts = length ms \<and> logged 3 jd ((rs @ prologue ctx s) @ traces ms sts) j2 w) (commit_finish d opts j2 rep) ?Q (\<lambda>_. True)"
        proof (cases "length sts = length ms")
          case eq: True
          have "triple (logged (0 + 3) jd ((rs @ prologue ctx s) @ traces ms sts) j2) (commit_finish d opts j2 rep) ?Q (\<lambda>_. True)"
          proof (rule triple_conseq [OF commit_finish_logged [OF assms(1)]], assumption)
            fix rep' :: commit_report and w
            assume "(\<exists>j' s'. logged 0 jd (((rs @ prologue ctx s) @ traces ms sts) @ epilogue opts False s') j' w
                \<and> js_phase (j_status j') = Phase_compacted) \<and> cm_paused rep' = cm_paused rep \<and> cm_complete rep'"
            then obtain j' s' where "logged 0 jd (rs @ prologue ctx s @ traces (take (length ms) ms) sts @ epilogue opts (cm_paused rep') s') j' w"
              "js_phase (j_status j') = Phase_compacted" "\<not> cm_paused rep'" "cm_complete rep'"
              using False by auto
            then show "?Q rep' w" using eq
              by (intro exI [of _ j'] exI [of _ s] exI [of _ s'] exI [of _ "length ms"] exI [of _ sts]) simp
          qed simp
          then show ?thesis using eq by simp
        qed (simp add: triple_def)
      qed
      then have "triple (\<lambda>w. moved 1 jd (rs @ prologue ctx s) ms rep j2 w) (commit_finish d opts j2 rep) ?Q (\<lambda>_. True)"
        using False by (simp add: moved_def numeral_3_eq_3)
      then show ?thesis using False by (simp add: Pair) (erule triple_conseq, auto)
    qed
  qed
  have mv: "triple (\<lambda>w. \<exists>s. logged (1 + 4 * length ms + 2) jd (rs @ prologue ctx s) j1 w)
      (bind_io (commit_moves srt d ctx (op_block_size plan) vs ms j1 (empty_commit plan))
        (\<lambda>(j2, rep). if cm_paused rep then return_io rep else commit_finish d opts j2 rep)) ?Q (\<lambda>_. True)" for j1
    by (rule triple_ex, rule triple_bind [OF triple_conseq [OF commit_moves_logged [OF assms(1)]] rest])
      (auto simp: empty_commit_def split: prod.splits)
  show ?thesis unfolding commit_apply_def ms_def [symmetric] k
    by (rule triple_bind [OF commit_begin_logged [OF assms(1)] mv])
qed

end
