(* ===== verification/Fsx_Commit_Bitmap.thy ===== *)
theory Fsx_Commit_Bitmap
  imports Fsx_Commit_Laws
begin

text \<open>
  The allocation bitmaps under the metadata commit. A block is used when its bit in the bitmap of its group says so;
  \<^verbatim>\<open>set_allocation_range\<close> and \<^verbatim>\<open>allocation_state\<close> (\<^verbatim>\<open>src/ext4/mutate.cpp\<close>), which walk over the groups of a range, are a
  set and a query of this function. The laws cover interrupted runs: every bit is then as before or, inside the
  range, has its new value, and no byte outside bitmaps and descriptors changes.
\<close>

section \<open>Bits\<close>

lemma byte_bit: "n < 8 \<Longrightarrow> drop_bit n (x :: u8) AND 1 \<noteq> 0 \<longleftrightarrow> bit x n"
  by (auto simp: and_one_eq mod2_eq_if bit_iff_odd drop_bit_eq_div)

lemma split_index: "unat (drop_bit 3 (k :: u64)) = unat k div 8" "unat (k AND 7) = unat k mod 8"
proof -
  show "unat (drop_bit 3 k) = unat k div 8" by (simp add: drop_bit_eq_div unat_div)
  have "(7 :: u64) = mask 3" by (simp add: mask_eq_exp_minus_1)
  then have "k AND 7 = take_bit 3 k" by (simp only: take_bit_eq_mask)
  then show "unat (k AND 7) = unat k mod 8" by (simp only: unsigned_take_bit_eq) (simp add: take_bit_eq_mod)
qed

lemma bit_set_nat: "bit_set bm k \<longleftrightarrow> unat k div 8 < length bm \<and> bit (bm ! (unat k div 8)) (unat k mod 8)"
  by (simp add: bit_set_def Let_def split_index byte_bit)

lemma bit_set_update:
  assumes "unat k < 8 * length bm"
  shows "bit_set (set_bitmap_bit bm k v) k' = (if k' = k then v else bit_set bm k')" "length (set_bitmap_bit bm k v) = length bm"
proof -
  have by8: "unat k div 8 < length bm" using assms by auto
  have eq: "k' = k \<longleftrightarrow> unat k' div 8 = unat k div 8 \<and> unat k' mod 8 = unat k mod 8"
    by (metis div_mult_mod_eq word_unat_eq_iff)
  have m: "bit (x OR 2 ^ s) n = (n = s \<or> bit x n)" "bit (x AND NOT (2 ^ s)) n = (n \<noteq> s \<and> bit x n)" if "s < 8" "n < 8" for x :: u8 and s n
    using that by (auto simp: bit_simps)
  show "length (set_bitmap_bit bm k v) = length bm" by (simp add: set_bitmap_bit_def Let_def)
  show "bit_set (set_bitmap_bit bm k v) k' = (if k' = k then v else bit_set bm k')"
    using by8 by (auto simp: bit_set_nat set_bitmap_bit_def Let_def split_index nth_list_update eq m)
qed

lemma set_bits_spec:
  assumes "unat f + unat n \<le> 8 * length bm" and "length bm < 2 ^ 32"
  shows "length (set_bits bm f n v) = length bm"
    and "bit_set (set_bits bm f n v) k = (if unat f \<le> unat k \<and> unat k < unat f + unat n then v else bit_set bm k)"
proof -
  have idx: "unat (f + of_nat i) = unat f + i" if "i < unat n" for i
    using that assms by (subst unat_add_le) (simp_all add: unat_of_nat take_bit_nat_eq_self)
  have "length (fold (\<lambda>i b. set_bitmap_bit b (f + of_nat i) v) [0..<m] bm) = length bm
    \<and> (\<forall>k. bit_set (fold (\<lambda>i b. set_bitmap_bit b (f + of_nat i) v) [0..<m] bm) k
         = (if unat f \<le> unat k \<and> unat k < unat f + m then v else bit_set bm k))" if "m \<le> unat n" for m
    using that
  proof (induction m)
    case (Suc m)
    let ?b = "fold (\<lambda>i b. set_bitmap_bit b (f + of_nat i) v) [0..<m] bm"
    have ih: "length ?b = length bm" "\<And>k. bit_set ?b k = (if unat f \<le> unat k \<and> unat k < unat f + m then v else bit_set bm k)"
      using Suc by simp_all
    have "unat (f + of_nat m) < 8 * length ?b" using Suc.prems assms(1) ih(1) by (simp add: idx)
    note u = bit_set_update [OF this]
    have "k = f + of_nat m \<longleftrightarrow> unat k = unat f + m" for k using idx [of m] Suc.prems by (auto simp: word_unat_eq_iff)
    then show ?case using u ih by auto
  qed auto
  from this [of "unat n"] show "length (set_bits bm f n v) = length bm"
    "bit_set (set_bits bm f n v) k = (if unat f \<le> unat k \<and> unat k < unat f + unat n then v else bit_set bm k)"
    by (simp_all add: set_bits_def)
qed


section \<open>Blocks\<close>

text \<open>Whether a block is in use, as the disk says it.\<close>

definition block_used :: "superblock \<Rightarrow> bytes \<Rightarrow> nat \<Rightarrow> bool" where
  "block_used sb D b =
     (let i = b - unat (sb_first_data_block sb); k = unat (sb_blocks_per_group sb)
      in bit_set (bitmap_of sb D (of_nat (i div k))) (of_nat (i mod k)))"

lemma group_of_block:
  assumes ok: "sb_ok sb" and b: "unat (sb_first_data_block sb) \<le> b" "b < unat (sb_blocks_count sb)"
  defines "i \<equiv> b - unat (sb_first_data_block sb)" and "k \<equiv> unat (sb_blocks_per_group sb)"
  shows "unat (of_nat (i div k) :: u64) = i div k" and "unat (of_nat (i mod k) :: u64) = i mod k"
    and "(of_nat (i div k) :: u64) < groups_count sb"
    and "unat (group_start_block sb (of_nat (i div k))) + i mod k = b"
    and "i mod k < unat (group_block_count sb (of_nat (i div k)))"
proof -
  have k: "0 < k" using ok by (simp add: sb_ok_def k_def)
  have N: "unat (sb_blocks_count sb) < 2 ^ 64" using unat_lt_64 [of "sb_blocks_count sb"] by simp
  have i: "i < 2 ^ 64" "i div k \<le> i" "i mod k \<le> i" using b N by (simp_all add: i_def)
  then have lt: "i div k < 2 ^ 64" "i mod k < 2 ^ 64" by linarith+
  then show u: "unat (of_nat (i div k) :: u64) = i div k" "unat (of_nat (i mod k) :: u64) = i mod k"
    by (simp_all add: unat_of_nat take_bit_nat_eq_self)
  have "i < data_blocks sb" using b by (simp add: i_def data_blocks_def)
  then have "i div k < (data_blocks sb + k - 1) div k"
  proof -
    have "(i div k + 1) * k \<le> i + k" by simp
    also have "\<dots> \<le> data_blocks sb + k - 1" using \<open>i < data_blocks sb\<close> k by simp
    finally show ?thesis using k by (simp add: less_eq_div_iff_mult_less_eq Suc_le_eq [symmetric])
  qed
  then show g: "(of_nat (i div k) :: u64) < groups_count sb"
    using u groups_count_nat [OF ok] by (simp add: word_less_nat_alt k_def)
  show s: "unat (group_start_block sb (of_nat (i div k))) + i mod k = b"
    using group_start_nat(1) [OF ok g] u b(1) by (simp add: k_def [symmetric]) (simp add: i_def)
  have "i mod k < k" using k by simp
  then show "i mod k < unat (group_block_count sb (of_nat (i div k)))"
    using group_count_nat [OF ok g] s b(2) by (simp add: k_def)
qed

lemma block_of_group:
  assumes ok: "sb_ok sb" and g: "g < groups_count sb" and i: "i < unat (group_block_count sb g)"
  defines "b \<equiv> unat (group_start_block sb g) + i"
  shows "block_used sb D b = bit_set (bitmap_of sb D g) (of_nat i)"
    and "unat (sb_first_data_block sb) \<le> b" and "b < unat (sb_blocks_count sb)"
proof -
  let ?k = "unat (sb_blocks_per_group sb)"
  have k: "i < ?k" "b < unat (sb_blocks_count sb)" using i group_count_nat [OF ok g] by (auto simp: b_def)
  have "b - unat (sb_first_data_block sb) = unat g * ?k + i" using group_start_nat(1) [OF ok g] by (simp add: b_def)
  then show "block_used sb D b = bit_set (bitmap_of sb D g) (of_nat i)"
    using k(1) by (simp add: block_used_def Let_def)
  show "unat (sb_first_data_block sb) \<le> b" "b < unat (sb_blocks_count sb)"
    using k(2) group_start_nat(1) [OF ok g] by (simp_all add: b_def)
qed

text \<open>The map of used blocks is the graph of this function.\<close>

lemma used_map_blocks:
  assumes ok: "sb_ok sb"
  shows "used_map sb D = map (\<lambda>b. (b, block_used sb D b)) [unat (sb_first_data_block sb)..<unat (sb_blocks_count sb)]"
proof -
  have bits: "group_bits sb g (bitmap_of sb D g) = map (\<lambda>b. (b, block_used sb D b)) (group_blocks sb g)" if "g \<in> set (group_list sb)" for g
  proof -
    have g: "g < groups_count sb" using that by (simp add: group_list_nth)
    have "group_blocks sb g = map (\<lambda>i. unat (group_start_block sb g) + i) [0..<unat (group_block_count sb g)]"
      using fst_group_bits [of sb g "[]"] by (simp add: group_bits_def comp_def)
    then show ?thesis using block_of_group(1) [OF ok g] by (simp add: group_bits_def)
  qed
  have "used_map sb D = concat (map (\<lambda>g. group_bits sb g (bitmap_of sb D g)) (group_list sb))"
    by (simp add: used_map_def disk_bits_def bitmap_of_def comp_def)
  also have "\<dots> = concat (map (\<lambda>g. map (\<lambda>b. (b, block_used sb D b)) (group_blocks sb g)) (group_list sb))"
    using bits by (intro arg_cong [of _ _ concat] map_cong refl)
  also have "\<dots> = map (\<lambda>b. (b, block_used sb D b)) (concat (map (group_blocks sb) (group_list sb)))"
    by (simp add: map_concat comp_def)
  finally show ?thesis by (simp add: groups_tile [OF ok])
qed

text \<open>The part of a range in the group of its first block.\<close>

lemma group_part_nat:
  assumes ok: "sb_ok sb" and gp: "group_part sb pos left = (grp, idx, n)"
    and pos: "unat (sb_first_data_block sb) \<le> unat pos" "unat pos + unat left \<le> unat (sb_blocks_count sb)" "left \<noteq> 0"
  shows "grp < groups_count sb" and "unat (group_start_block sb grp) + unat idx = unat pos" and "0 < unat n" and "unat n \<le> unat left"
    and "unat idx + unat n \<le> unat (group_block_count sb grp)"
proof -
  let ?f = "unat (sb_first_data_block sb)" and ?k = "unat (sb_blocks_per_group sb)"
  have l0: "0 < unat left" using pos(3) by (simp add: unat_gt_0)
  then have lt: "unat pos < unat (sb_blocks_count sb)" using pos(2) by linarith
  note gb = group_of_block [OF ok pos(1) lt]
  have "unat (pos - ucast (sb_first_data_block sb)) = unat pos - ?f" using pos(1) by (simp add: word_nat word_le_nat_alt)
  then have "unat ((pos - ucast (sb_first_data_block sb)) div ucast (sb_blocks_per_group sb)) = (unat pos - ?f) div ?k"
    by (simp add: unat_div word_nat)
  then have grp: "grp = of_nat ((unat pos - ?f) div ?k)"
    using gp gb(1) by (auto simp: group_part_def Let_def word_unat_eq_iff)
  show g: "grp < groups_count sb" using gb(3) grp by simp
  have st: "unat (group_start_block sb grp) + (unat pos - ?f) mod ?k = unat pos" using gb(4) grp by simp
  then have le: "group_start_block sb grp \<le> pos" unfolding word_le_nat_alt by linarith
  have idx: "idx = pos - group_start_block sb grp" and n: "n = min left (group_block_count sb grp - idx)"
    using gp by (auto simp: group_part_def Let_def)
  then have ui: "unat idx = (unat pos - ?f) mod ?k" using st le by (simp add: unat_sub_le)
  then show "unat (group_start_block sb grp) + unat idx = unat pos" using st by simp
  have lt2: "unat idx < unat (group_block_count sb grp)" using gb(5) grp ui by simp
  then have un: "unat n = min (unat left) (unat (group_block_count sb grp) - unat idx)"
    by (auto simp: n min_def word_le_nat_alt unat_sub_le)
  then show "0 < unat n" "unat n \<le> unat left" "unat idx + unat n \<le> unat (group_block_count sb grp)"
    using l0 lt2 by simp_all
qed


lemma part_step:
  assumes "sb_ok sb" and "group_part sb pos left = (grp, idx, n)"
    and "unat (sb_first_data_block sb) \<le> unat pos" and "unat pos + unat left \<le> unat (sb_blocks_count sb)" and "left \<noteq> 0"
  shows "n \<noteq> 0" and "\<not> pos < ucast (sb_first_data_block sb)" and "unat (pos + n) = unat pos + unat n"
    and "unat (left - n) = unat left - unat n"
proof -
  note gp = group_part_nat [OF assms]
  show "n \<noteq> 0" using gp(3) by auto
  show "\<not> pos < ucast (sb_first_data_block sb)" using assms(3) by (simp add: word_less_nat_alt word_nat not_less)
  show "unat (pos + n) = unat pos + unat n"
    using gp(4) assms(4) unat_lt_64 [of "sb_blocks_count sb"] by (intro unat_add_le) simp
  show "unat (left - n) = unat left - unat n" using gp(4) by (simp add: unat_sub_le word_le_nat_alt)
qed

section \<open>Layout\<close>

definition table_start :: "superblock \<Rightarrow> nat" where
  "table_start sb = (if block_size sb = 1024 then 2 else 1) * unat (block_size sb)"

definition desc_at :: "superblock \<Rightarrow> u64 \<Rightarrow> nat" where
  "desc_at sb g = table_start sb + unat g * unat (desc_bytes sb)"

definition table_end :: "superblock \<Rightarrow> nat" where
  "table_end sb = desc_at sb (groups_count sb)"

definition bitmap_at :: "superblock \<Rightarrow> bytes \<Rightarrow> u64 \<Rightarrow> nat" where
  "bitmap_at sb D g = unat (gd_block_bitmap (desc_of sb D g)) * unat (block_size sb)"

text \<open>The block bitmaps of the groups lie in the filesystem, outside the descriptor table, and in blocks of their own.\<close>

definition bitmaps_apart :: "superblock \<Rightarrow> bytes \<Rightarrow> bool" where
  "bitmaps_apart sb D \<longleftrightarrow> table_end sb \<le> length D \<and> unat (sb_blocks_count sb) * unat (block_size sb) \<le> length D
     \<and> (\<forall>g < groups_count sb. gd_block_bitmap (desc_of sb D g) < sb_blocks_count sb
          \<and> (bitmap_at sb D g + unat (block_size sb) \<le> table_start sb \<or> table_end sb \<le> bitmap_at sb D g)
          \<and> (\<forall>h < groups_count sb. gd_block_bitmap (desc_of sb D h) = gd_block_bitmap (desc_of sb D g) \<longrightarrow> h = g))"

definition in_bitmaps :: "superblock \<Rightarrow> bytes \<Rightarrow> nat \<Rightarrow> bool" where
  "in_bitmaps sb D k \<longleftrightarrow> table_start sb \<le> k \<and> k < table_end sb
     \<or> (\<exists>g < groups_count sb. bitmap_at sb D g \<le> k \<and> k < bitmap_at sb D g + unat (block_size sb))"

lemma desc_of_raw: "desc_of sb D g = parse_group_desc sb (if sb_desc_size sb \<ge> 32 then sb_desc_size sb else 32) (desc_raw sb D g)"
  by (simp add: desc_of_def desc_raw_def desc_bytes_def Let_def word_nat)

lemma desc_slot: "g < groups_count sb \<Longrightarrow> desc_at sb g + unat (desc_bytes sb) \<le> table_end sb"
  using mult_le_mono1 [of "unat g + 1" "unat (groups_count sb)" "unat (desc_bytes sb)"]
  by (simp add: word_less_nat_alt table_end_def desc_at_def)

lemma slots_apart: "i \<noteq> j \<Longrightarrow> i * k + k \<le> j * k \<or> j * k + k \<le> i * (k :: nat)"
proof -
  assume "i \<noteq> j"
  then consider "Suc i \<le> j" | "Suc j \<le> i" by linarith
  then show ?thesis by cases (auto dest: mult_le_mono1 [of _ _ k])
qed

lemma desc_slots_apart:
  "h \<noteq> g \<Longrightarrow> desc_at sb h + unat (desc_bytes sb) \<le> desc_at sb g \<or> desc_at sb g + unat (desc_bytes sb) \<le> desc_at sb h"
  using slots_apart [of "unat h" "unat g" "unat (desc_bytes sb)"] by (auto simp: desc_at_def word_unat_eq_iff)

lemma desc_raw_at:
  assumes "g < groups_count sb" and "table_end sb \<le> length D" and "length D < 2 ^ 64"
  shows "unat ((if block_size sb = 1024 then 2 else 1) * block_size sb + g * desc_bytes sb) = desc_at sb g"
    and "desc_raw sb D g = get_bytes (desc_at sb g) (unat (desc_bytes sb)) D"
proof -
  have le: "table_start sb + unat g * unat (desc_bytes sb) < 2 ^ 64"
    using desc_slot [OF assms(1)] assms(2,3) by (simp add: desc_at_def)
  have t: "unat ((if block_size sb = 1024 then 2 else 1) * block_size sb) = table_start sb"
    using block_size_le [of sb] by (auto simp: table_start_def unat_mult_le)
  have m: "unat (g * desc_bytes sb) = unat g * unat (desc_bytes sb)" using le by (intro unat_mult_le) simp
  show "unat ((if block_size sb = 1024 then 2 else 1) * block_size sb + g * desc_bytes sb) = desc_at sb g"
    using le t m by (subst unat_add_le) (simp_all add: desc_at_def)
  then show "desc_raw sb D g = get_bytes (desc_at sb g) (unat (desc_bytes sb)) D" by (simp add: desc_raw_def)
qed

lemma bitmap_of_at:
  assumes "bitmaps_apart sb D" and "g < groups_count sb" and "sb_ok sb" and "length D < 2 ^ 64"
  shows "unat (gd_block_bitmap (desc_of sb D g) * block_size sb) = bitmap_at sb D g"
    and "bitmap_of sb D g = get_bytes (bitmap_at sb D g) (unat (block_size sb)) D"
    and "bitmap_at sb D g + unat (block_size sb) \<le> length D"
proof -
  have b: "gd_block_bitmap (desc_of sb D g) < sb_blocks_count sb" and n: "unat (sb_blocks_count sb) * unat (block_size sb) \<le> length D"
    using assms(1,2) by (simp_all add: bitmaps_apart_def)
  show u: "unat (gd_block_bitmap (desc_of sb D g) * block_size sb) = bitmap_at sb D g"
    using block_offset(1) [OF assms(3) n assms(4) b] by (simp add: bitmap_at_def)
  show "bitmap_of sb D g = get_bytes (bitmap_at sb D g) (unat (block_size sb)) D" by (simp add: bitmap_of_def u)
  show "bitmap_at sb D g + unat (block_size sb) \<le> length D"
    using block_offset(2) [OF assms(3) n assms(4) b] by (simp add: bitmap_at_def)
qed

lemma bitmaps_disjoint:
  assumes "bitmaps_apart sb D" and "g < groups_count sb" and "h < groups_count sb" and "h \<noteq> g"
  shows "bitmap_at sb D h + unat (block_size sb) \<le> bitmap_at sb D g \<or> bitmap_at sb D g + unat (block_size sb) \<le> bitmap_at sb D h"
proof -
  have "gd_block_bitmap (desc_of sb D h) \<noteq> gd_block_bitmap (desc_of sb D g)" using assms unfolding bitmaps_apart_def by blast
  then have "unat (gd_block_bitmap (desc_of sb D h)) \<noteq> unat (gd_block_bitmap (desc_of sb D g))" by (simp add: word_unat_eq_iff)
  from slots_apart [OF this] show ?thesis unfolding bitmap_at_def .
qed

text \<open>Two disks with the same layout.\<close>

definition same_layout :: "superblock \<Rightarrow> bytes \<Rightarrow> bytes \<Rightarrow> bool" where
  "same_layout sb D D' \<longleftrightarrow> length D' = length D
     \<and> (\<forall>g < groups_count sb. gd_block_bitmap (desc_of sb D' g) = gd_block_bitmap (desc_of sb D g))"

lemma same_layout_facts:
  assumes "same_layout sb D D'"
  shows "g < groups_count sb \<Longrightarrow> bitmap_at sb D' g = bitmap_at sb D g"
    and "bitmaps_apart sb D' \<longleftrightarrow> bitmaps_apart sb D" and "in_bitmaps sb D' k \<longleftrightarrow> in_bitmaps sb D k"
  using assms by (auto simp: same_layout_def bitmap_at_def bitmaps_apart_def in_bitmaps_def)

lemma same_layout_refl [simp]: "same_layout sb D D"
  by (simp add: same_layout_def)

lemma same_layout_trans: "same_layout sb D D1 \<Longrightarrow> same_layout sb D1 D2 \<Longrightarrow> same_layout sb D D2"
  by (simp add: same_layout_def)


text \<open>Writing into a bitmap, and into a descriptor without changing the place of the bitmap.\<close>

lemma put_bitmap:
  assumes a: "bitmaps_apart sb D" and g: "g < groups_count sb" and ok: "sb_ok sb" and len: "length D < 2 ^ 64"
    and s: "length s \<le> unat (block_size sb)"
  defines "D' \<equiv> put_bytes (bitmap_at sb D g) s D"
  shows "h < groups_count sb \<Longrightarrow> desc_raw sb D' h = desc_raw sb D h" and "same_layout sb D D'"
    and "h < groups_count sb \<Longrightarrow> bitmap_of sb D' h = (if h = g then put_bytes 0 s (bitmap_of sb D g) else bitmap_of sb D h)"
    and "k < length D \<Longrightarrow> \<not> in_bitmaps sb D k \<Longrightarrow> D' ! k = D ! k"
proof -
  note bg = bitmap_of_at [OF a g ok len]
  have in_D: "bitmap_at sb D g + length s \<le> length D" using bg(3) s by simp
  have lD: "length D' = length D" using in_D by (simp add: D'_def)
  have t: "table_end sb \<le> length D" and ag: "bitmap_at sb D g + unat (block_size sb) \<le> table_start sb \<or> table_end sb \<le> bitmap_at sb D g"
    using a g by (simp_all add: bitmaps_apart_def)
  show raw: "desc_raw sb D' h = desc_raw sb D h" if h: "h < groups_count sb" for h
  proof -
    have "table_start sb \<le> desc_at sb h" by (simp add: desc_at_def)
    then show ?thesis
      using desc_slot [OF h] ag s t in_D lD len unfolding D'_def [symmetric]
      by (simp add: desc_raw_at(2) [OF h]) (auto simp: D'_def intro!: get_put_other)
  qed
  then show lay: "same_layout sb D D'" using lD by (simp add: same_layout_def desc_of_raw)
  show "bitmap_of sb D' h = (if h = g then put_bytes 0 s (bitmap_of sb D g) else bitmap_of sb D h)" if h: "h < groups_count sb" for h
  proof -
    have a': "bitmaps_apart sb D'" using same_layout_facts(2) [OF lay] a by simp
    have bh: "bitmap_of sb D' h = get_bytes (bitmap_at sb D h) (unat (block_size sb)) D'"
      using bitmap_of_at(2) [OF a' h ok] lD len same_layout_facts(1) [OF lay h] by simp
    show ?thesis
    proof (cases "h = g")
      case True
      then show ?thesis using bh bg(2) get_put_inside [OF s bg(3)] by (simp add: D'_def)
    next
      case False
      have "get_bytes (bitmap_at sb D h) (unat (block_size sb)) D' = get_bytes (bitmap_at sb D h) (unat (block_size sb)) D"
        unfolding D'_def using bitmaps_disjoint [OF a g h False] bitmap_of_at(3) [OF a h ok len] in_D s
        by (intro get_put_other) auto
      then show ?thesis using False bh bitmap_of_at(2) [OF a h ok len] by simp
    qed
  qed
  show "D' ! k = D ! k" if "k < length D" "\<not> in_bitmaps sb D k"
    using that in_D s g by (auto simp: D'_def nth_put_bytes in_bitmaps_def)
qed

lemma put_desc:
  assumes a: "bitmaps_apart sb D" and g: "g < groups_count sb" and ok: "sb_ok sb" and len: "length D < 2 ^ 64"
    and s: "length s \<le> unat (desc_bytes sb)"
    and keep: "gd_block_bitmap (parse_group_desc sb (if sb_desc_size sb \<ge> 32 then sb_desc_size sb else 32) (put_bytes 0 s (desc_raw sb D g)))
      = gd_block_bitmap (desc_of sb D g)"
  defines "D' \<equiv> put_bytes (desc_at sb g) s D"
  shows "h < groups_count sb \<Longrightarrow> desc_raw sb D' h = (if h = g then put_bytes 0 s (desc_raw sb D g) else desc_raw sb D h)"
    and "same_layout sb D D'" and "h < groups_count sb \<Longrightarrow> bitmap_of sb D' h = bitmap_of sb D h"
    and "k < length D \<Longrightarrow> \<not> in_bitmaps sb D k \<Longrightarrow> D' ! k = D ! k"
proof -
  have t: "table_end sb \<le> length D" using a by (simp add: bitmaps_apart_def)
  have in_D: "desc_at sb g + unat (desc_bytes sb) \<le> length D" using desc_slot [OF g] t by simp
  have lD: "length D' = length D" using in_D s by (simp add: D'_def)
  show raw: "desc_raw sb D' h = (if h = g then put_bytes 0 s (desc_raw sb D g) else desc_raw sb D h)" if h: "h < groups_count sb" for h
  proof -
    have r: "desc_raw sb D' h = get_bytes (desc_at sb h) (unat (desc_bytes sb)) D'" using desc_raw_at(2) [OF h] t lD len by simp
    show ?thesis
    proof (cases "h = g")
      case True
      then show ?thesis using r desc_raw_at(2) [OF g t len] get_put_inside [OF s in_D] by (simp add: D'_def)
    next
      case False
      have "get_bytes (desc_at sb h) (unat (desc_bytes sb)) D' = get_bytes (desc_at sb h) (unat (desc_bytes sb)) D"
        unfolding D'_def using desc_slots_apart [OF False, of sb] desc_slot [OF h] in_D s t by (intro get_put_other) auto
      then show ?thesis using False r desc_raw_at(2) [OF h t len] by simp
    qed
  qed
  then show lay: "same_layout sb D D'" using lD keep by (auto simp: same_layout_def desc_of_raw)
  show "bitmap_of sb D' h = bitmap_of sb D h" if h: "h < groups_count sb" for h
  proof -
    have a': "bitmaps_apart sb D'" using same_layout_facts(2) [OF lay] a by simp
    have "table_start sb \<le> desc_at sb g" by (simp add: desc_at_def)
    moreover have "bitmap_at sb D h + unat (block_size sb) \<le> table_start sb \<or> table_end sb \<le> bitmap_at sb D h"
      using a h by (simp add: bitmaps_apart_def)
    ultimately have "get_bytes (bitmap_at sb D h) (unat (block_size sb)) D' = get_bytes (bitmap_at sb D h) (unat (block_size sb)) D"
      unfolding D'_def using bitmap_of_at(3) [OF a h ok len] in_D s desc_slot [OF g] by (intro get_put_other) auto
    then show ?thesis
      using bitmap_of_at(2) [OF a h ok len] bitmap_of_at(2) [OF a' h ok] lD len same_layout_facts(1) [OF lay h] by simp
  qed
  have "table_start sb \<le> desc_at sb g" by (simp add: desc_at_def)
  then show "D' ! k = D ! k" if "k < length D" "\<not> in_bitmaps sb D k"
    using that in_D s desc_slot [OF g] by (auto simp: D'_def nth_put_bytes in_bitmaps_def)
qed


section \<open>The new descriptor\<close>

lemma nth_write_le16: "off + 2 \<le> length b \<Longrightarrow> k < off \<or> off + 2 \<le> k \<Longrightarrow> write_le16 b off v ! k = b ! k"
  by (auto simp: write_le16_def nth_write_le_loop)

lemma desc_bytes_nat: "32 \<le> unat (desc_bytes sb)" "unat (desc_bytes sb) = unat (if sb_desc_size sb \<ge> 32 then sb_desc_size sb else 32)"
  by (auto simp: desc_bytes_def word_nat word_le_nat_alt)

definition counters_fit :: "superblock \<Rightarrow> bool" where
  "counters_fit sb \<longleftrightarrow> unat (sb_blocks_per_group sb) < 2 ^ 16
     \<or> sb_feature_incompat sb AND INCOMPAT_64BIT \<noteq> 0 \<and> 64 \<le> unat (sb_desc_size sb)"

lemma new_desc:
  assumes bc: "update_block_bitmap_checksum ctx (set_desc_free_blocks raw v) bm = Inr gd1"
    and gc: "update_group_descriptor_checksum ctx g gd1 = Inr gd2" and len: "length raw = unat (desc_bytes (mc_sb ctx))"
  shows "length gd2 = length raw" and "verify_block_bitmap_checksum ctx gd2 bm = Inr True"
    and "verify_group_descriptor_checksum ctx g gd2 = Inr True"
    and "k < 4 \<or> 32 \<le> k \<and> k < 36 \<Longrightarrow> k < length raw \<Longrightarrow> gd2 ! k = raw ! k"
    and "read_le16 gd2 12 = ucast v" and "46 \<le> length raw \<Longrightarrow> read_le16 gd2 44 = ucast (drop_bit 16 v)"
proof -
  have l32: "32 \<le> length raw" using desc_bytes_nat(1) len by simp
  let ?f = "set_desc_free_blocks raw v"
  have lf: "length ?f = length raw" by (simp add: set_desc_free_blocks_def Let_def)
  note b = bitmap_checksum_stored [OF bc [unfolded update_block_bitmap_checksum_def]]
  note g = group_checksum_stored [OF gc]
  show l2: "length gd2 = length raw" using b(2) g(2) lf l32 by simp
  show "verify_block_bitmap_checksum ctx gd2 bm = Inr True" "verify_group_descriptor_checksum ctx g gd2 = Inr True"
    using b(1) g(1,3) lf l32 by (simp_all add: verify_block_bitmap_checksum_def)
  have l1: "length gd1 = length raw" using b(2) lf l32 by simp
  have e1: "gd1 = (if mc_metadata_csum ctx
      then let c = bitmap_checksum ctx bm (bitmap_bytes (sb_blocks_per_group (mc_sb ctx))); x = write_le16 ?f GD_BLOCK_CSUM_LO (ucast c)
           in if length ?f \<ge> GD_BLOCK_CSUM_HI + 2 then write_le16 x GD_BLOCK_CSUM_HI (ucast (drop_bit 16 c)) else x
      else ?f)"
    using bc by (auto simp: update_block_bitmap_checksum_def update_bitmap_checksum_def Let_def)
  have e2: "gd2 = (if mc_gdt_csum ctx then write_le16 (write_le16 gd1 GD_CHECKSUM 0) GD_CHECKSUM
      (group_desc_checksum ctx g (write_le16 gd1 GD_CHECKSUM 0)) else gd1)"
    using gc by (auto simp: update_group_descriptor_checksum_def Let_def split: if_split_asm)
  show "gd2 ! k = raw ! k" if "k < 4 \<or> 32 \<le> k \<and> k < 36" "k < length raw"
  proof -
    have "gd2 ! k = gd1 ! k" using that l1 l32 by (auto simp: e2 nth_write_le16)
    also have "\<dots> = ?f ! k" using that l32 lf by (auto simp: e1 Let_def nth_write_le16)
    also have "\<dots> = raw ! k" using that l32 by (auto simp: set_desc_free_blocks_def Let_def nth_write_le16)
    finally show ?thesis .
  qed
  have r: "read_le16 gd2 12 = read_le16 ?f 12" "46 \<le> length raw \<Longrightarrow> read_le16 gd2 44 = read_le16 ?f 44"
    using l1 l32 lf by (auto simp: e2 e1 Let_def buf_simps)
  then show "read_le16 gd2 12 = ucast v" using l32 by (auto simp: set_desc_free_blocks_def Let_def buf_simps)
  show "read_le16 gd2 44 = ucast (drop_bit 16 v)" if "46 \<le> length raw"
    using r that by (simp add: set_desc_free_blocks_def Let_def buf_simps)
qed

lemma torn_desc_keeps:
  assumes "length gd2 = length raw" and "length raw = unat (desc_bytes sb)"
    and "\<And>k. k < 4 \<or> 32 \<le> k \<and> k < 36 \<Longrightarrow> k < length raw \<Longrightarrow> gd2 ! k = raw ! k"
  shows "gd_block_bitmap (parse_group_desc sb (if sb_desc_size sb \<ge> 32 then sb_desc_size sb else 32) (put_bytes 0 (take m gd2) raw))
    = gd_block_bitmap (parse_group_desc sb (if sb_desc_size sb \<ge> 32 then sb_desc_size sb else 32) raw)"
proof -
  let ?t = "put_bytes 0 (take m gd2) raw" and ?ds = "if sb_desc_size sb \<ge> 32 then sb_desc_size sb else 32"
  have k: "?t ! k = raw ! k" if "k < 4 \<or> 32 \<le> k \<and> k < 36" "k < length raw" for k
    using that assms by (auto simp: nth_put_bytes)
  have r: "read_le32 ?t 0 = read_le32 raw 0" "36 \<le> length raw \<Longrightarrow> read_le32 ?t 32 = read_le32 raw 32"
    unfolding read_le32_def using desc_bytes_nat(1) [of sb] assms(2)
    by (intro arg_cong [of _ _ ucast] read_le_wide_cong, simp, intro k, auto)+
  have "36 \<le> length raw" if "64 \<le> ?ds" using that assms(2) desc_bytes_nat(2) [of sb] by (simp only: word_le_nat_alt) simp
  then show ?thesis using r by (simp add: parse_group_desc_def Let_def with_hi_def)
qed

lemma halves32: "ucast (ucast v :: u16) OR push_bit 16 (ucast (ucast (drop_bit 16 v) :: u16)) = (v :: u32)"
  by (rule bit_word_eqI) (auto simp: bit_simps)

lemma low32: "unat (v :: u32) < 2 ^ 16 \<Longrightarrow> ucast (ucast v :: u16) = v"
  by (simp add: word_unat_eq_iff unsigned_ucast_eq unsigned_take_bit_eq take_bit_nat_eq_self)

lemma new_desc_free:
  assumes "read_le16 gd2 12 = ucast v" and "46 \<le> length gd2 \<Longrightarrow> read_le16 gd2 44 = ucast (drop_bit 16 v)"
    and "length gd2 = unat (desc_bytes sb)" and "counters_fit sb" and "unat v \<le> unat (sb_blocks_per_group sb)"
  shows "gd_free_blocks (parse_group_desc sb (if sb_desc_size sb \<ge> 32 then sb_desc_size sb else 32) gd2) = v"
proof (cases "64 \<le> sb_desc_size sb \<and> sb_feature_incompat sb AND INCOMPAT_64BIT \<noteq> 0")
  case True
  then have "46 \<le> length gd2" using assms(3) desc_bytes_nat(2) [of sb] by (auto simp: word_le_nat_alt)
  moreover have "32 \<le> sb_desc_size sb" using True by (auto simp: word_le_nat_alt)
  ultimately show ?thesis using True assms(1,2) by (simp add: parse_group_desc_def Let_def halves32)
next
  case False
  then have "unat v < 2 ^ 16" using assms(4,5) by (auto simp: counters_fit_def word_le_nat_alt)
  moreover have "\<not> (64 \<le> (if sb_desc_size sb \<ge> 32 then sb_desc_size sb else 32) \<and> sb_feature_incompat sb AND INCOMPAT_64BIT \<noteq> 0)"
    using False by (auto split: if_splits)
  ultimately show ?thesis using assms(1) by (auto simp: parse_group_desc_def Let_def low32)
qed


section \<open>Rewriting the bitmap of a group\<close>

lemma triple_reads_bind:
  assumes "reads F P m" and "\<And>x. P x \<Longrightarrow> triple (\<lambda>w. w_files w = F) (f x) Q E" and "\<And>w. w_files w = F \<Longrightarrow> E w"
  shows "triple (\<lambda>w. w_files w = F) (bind_io m f) Q E"
proof (rule tripleI)
  fix w r w' assume w: "w_files w = F" and run: "bind_io m f w = (r, w')"
  from run show "case r of Inr x \<Rightarrow> Q x w' | Inl _ \<Rightarrow> E w'"
  proof (cases rule: bind_io_cases)
    case (failed e)
    then show ?thesis using readsD(1) [OF assms(1) w failed(1)] assms(3) by simp
  next
    case (step x w1)
    have "P x" by (rule readsD(2) [OF assms(1) w step(1) refl])
    from assms(2) [OF this] readsD(1) [OF assms(1) w step(1)] step(2) show ?thesis by (auto simp: triple_def)
  qed
qed

lemma triple_lift_bind:
  assumes "\<And>x. v = Inr x \<Longrightarrow> triple P (f x) Q E" and "\<And>w. P w \<Longrightarrow> E w"
  shows "triple P (bind_io (lift_io v) f) Q E"
  using assms by (cases v) (auto simp: triple_def bind_io_def)

text \<open>The bits of a range move towards a value; everything outside bitmaps and descriptors stays.\<close>

definition bits_moved :: "superblock \<Rightarrow> nat set \<Rightarrow> bool \<Rightarrow> bytes \<Rightarrow> bytes \<Rightarrow> bool" where
  "bits_moved sb R v D D' \<longleftrightarrow> same_layout sb D D'
     \<and> (\<forall>b. unat (sb_first_data_block sb) \<le> b \<and> b < unat (sb_blocks_count sb) \<longrightarrow>
          block_used sb D' b = block_used sb D b \<or> b \<in> R \<and> block_used sb D' b = v)
     \<and> (\<forall>k < length D. \<not> in_bitmaps sb D k \<longrightarrow> D' ! k = D ! k)"

lemma bits_moved_refl: "bits_moved sb R v D D"
  by (simp add: bits_moved_def)

lemma bits_moved_trans:
  assumes "bits_moved sb R v D D1" and "bits_moved sb R' v D1 D2"
  shows "bits_moved sb (R \<union> R') v D D2"
proof -
  have l: "same_layout sb D D1" using assms(1) by (simp add: bits_moved_def)
  show ?thesis
    unfolding bits_moved_def
  proof (intro conjI allI impI)
    show "same_layout sb D D2" using assms same_layout_trans by (auto simp: bits_moved_def)
    show "block_used sb D2 b = block_used sb D b \<or> b \<in> R \<union> R' \<and> block_used sb D2 b = v"
      if "unat (sb_first_data_block sb) \<le> b \<and> b < unat (sb_blocks_count sb)" for b
      using assms that by (fastforce simp: bits_moved_def)
    show "D2 ! k = D ! k" if "k < length D" "\<not> in_bitmaps sb D k" for k
      using assms that same_layout_facts(3) [OF l] l by (auto simp: bits_moved_def same_layout_def)
  qed
qed

lemma bitmap_bits_moved:
  assumes ok: "sb_ok sb" and lay: "same_layout sb D D'"
    and oth: "\<And>h. h < groups_count sb \<Longrightarrow> h \<noteq> g \<Longrightarrow> bitmap_of sb D' h = bitmap_of sb D h"
    and bits: "\<And>i. i < unat (group_block_count sb g) \<Longrightarrow>
      bit_set (bitmap_of sb D' g) (of_nat i) = bit_set (bitmap_of sb D g) (of_nat i) \<or> i \<in> I \<and> bit_set (bitmap_of sb D' g) (of_nat i) = v"
    and frame: "\<And>k. k < length D \<Longrightarrow> \<not> in_bitmaps sb D k \<Longrightarrow> D' ! k = D ! k"
  shows "bits_moved sb ((\<lambda>i. unat (group_start_block sb g) + i) ` I) v D D'"
  unfolding bits_moved_def
proof (intro conjI allI impI lay)
  fix b assume b: "unat (sb_first_data_block sb) \<le> b \<and> b < unat (sb_blocks_count sb)"
  let ?i = "b - unat (sb_first_data_block sb)" and ?k = "unat (sb_blocks_per_group sb)"
  let ?g = "of_nat (?i div ?k) :: u64"
  note gb = group_of_block [OF ok conjunct1 [OF b] conjunct2 [OF b]]
  have u: "block_used sb X b = bit_set (bitmap_of sb X ?g) (of_nat (?i mod ?k))" for X
    by (simp add: block_used_def Let_def)
  show "block_used sb D' b = block_used sb D b \<or> b \<in> (\<lambda>i. unat (group_start_block sb g) + i) ` I \<and> block_used sb D' b = v"
  proof (cases "?g = g")
    case True
    have "b \<in> (\<lambda>i. unat (group_start_block sb g) + i) ` I" if "?i mod ?k \<in> I"
      using gb(4) True that by (intro image_eqI [of _ _ "?i mod ?k"]) simp_all
    moreover have "?i mod ?k < unat (group_block_count sb g)" using gb(5) True by simp
    ultimately show ?thesis using bits [of "?i mod ?k"] u [of D] u [of D'] True by auto
  next
    case False
    then show ?thesis using oth [OF gb(3)] u by simp
  qed
qed (rule frame, auto)


lemma put_prefix_bits:
  assumes "length bm1 = length bm"
  shows "bit_set (put_bytes 0 (take m bm1) bm) k = bit_set bm k \<or> bit_set (put_bytes 0 (take m bm1) bm) k = bit_set bm1 k"
    and "length bm1 \<le> m \<Longrightarrow> put_bytes 0 (take m bm1) bm = bm1"
proof -
  show "length bm1 \<le> m \<Longrightarrow> put_bytes 0 (take m bm1) bm = bm1" using assms by (simp add: put_bytes_def)
  show "bit_set (put_bytes 0 (take m bm1) bm) k = bit_set bm k \<or> bit_set (put_bytes 0 (take m bm1) bm) k = bit_set bm1 k"
    using assms by (auto simp: bit_set_nat nth_put_bytes split: if_splits)
qed

text \<open>The outcome of the two writes: a prefix of the new bitmap, then a prefix of the new descriptor.\<close>

lemma rewrite_outcomes:
  assumes ok: "sb_ok sb" and sb: "sb = mc_sb ctx" and a: "bitmaps_apart sb D" and len: "length D < 2 ^ 64" and fit: "counters_fit sb"
    and g: "g < groups_count sb" and n: "unat first + unat cnt \<le> unat (group_block_count sb g)"
    and bm1: "bm1 = set_bits (bitmap_of sb D g) first cnt v"
    and bc: "update_block_bitmap_checksum ctx
        (set_desc_free_blocks (desc_raw sb D g) (ucast (group_block_count sb g - count_set bm1 (group_block_count sb g)))) bm1 = Inr gd1"
    and gc: "update_group_descriptor_checksum ctx g gd1 = Inr gd2"
    and rl: "length (desc_raw sb D g) = unat (desc_bytes sb)"
    and D': "D' = put_bytes (desc_at sb g) (take m gd2) (put_bytes (bitmap_at sb D g) (take k bm1) D)"
  defines "I \<equiv> {unat first..<unat first + unat cnt}"
  shows "bits_moved sb ((\<lambda>i. unat (group_start_block sb g) + i) ` I) v D D'"
    and "h < groups_count sb \<Longrightarrow> h \<noteq> g \<Longrightarrow> group_agrees ctx D' h = group_agrees ctx D h"
    and "length bm1 \<le> k \<Longrightarrow> length gd2 \<le> m \<Longrightarrow>
      group_agrees ctx D' g \<and> (\<forall>b \<in> (\<lambda>i. unat (group_start_block sb g) + i) ` I. block_used sb D' b = v)"
proof -
  let ?bm = "bitmap_of sb D g" and ?gb = "unat (group_block_count sb g)"
  note bg = bitmap_of_at [OF a g ok len]
  have lbm: "length ?bm = unat (block_size sb)" using bg(2,3) by simp
  have bpg: "unat (sb_blocks_per_group sb) \<le> 8 * unat (block_size sb)" using ok by (simp add: sb_ok_def)
  have gbl: "?gb \<le> unat (sb_blocks_per_group sb)" using group_count_nat [OF ok g] by simp
  have set: "length bm1 = length ?bm" "bit_set bm1 i = (if unat first \<le> unat i \<and> unat i < unat first + unat cnt then v else bit_set ?bm i)" for i
    using set_bits_spec [of first cnt ?bm v] n gbl bpg lbm block_size_le [of sb] unfolding bm1 by simp_all
  have small: "unat (of_nat i :: u64) = i" if "i < ?gb" for i
    using that unat_lt_64 [of "group_block_count sb g"] by (simp add: unat_of_nat take_bit_nat_eq_self)
  let ?D1 = "put_bytes (bitmap_at sb D g) (take k bm1) D"
  have ks: "length (take k bm1) \<le> unat (block_size sb)" using set(1) lbm by simp
  note p1 = put_bitmap [OF a g ok len ks]
  have a1: "bitmaps_apart sb ?D1" and len1: "length ?D1 < 2 ^ 64"
    using same_layout_facts(2) [OF p1(2)] a p1(2) len by (simp_all add: same_layout_def)
  note nd = new_desc [OF bc gc, unfolded sb [symmetric], OF rl]
  have ms: "length (take m gd2) \<le> unat (desc_bytes sb)" using nd(1) rl by simp
  have keep: "gd_block_bitmap (parse_group_desc sb (if sb_desc_size sb \<ge> 32 then sb_desc_size sb else 32) (put_bytes 0 (take m gd2) (desc_raw sb ?D1 g)))
      = gd_block_bitmap (desc_of sb ?D1 g)"
    unfolding p1(1) [OF g] desc_of_raw using torn_desc_keeps [OF nd(1) rl nd(4)] by simp
  note p2 = put_desc [OF a1 g ok len1 ms keep, folded D']
  have lay: "same_layout sb D D'" using p1(2) p2(2) by (rule same_layout_trans)
  have oth: "bitmap_of sb D' h = bitmap_of sb D h" "desc_raw sb D' h = desc_raw sb D h" if "h < groups_count sb" "h \<noteq> g" for h
    using that p1(1,3) p2(1,3) by simp_all
  have own: "bitmap_of sb D' g = put_bytes 0 (take k bm1) ?bm" using p1(3) p2(3) g by simp
  show "bits_moved sb ((\<lambda>i. unat (group_start_block sb g) + i) ` I) v D D'"
  proof (rule bitmap_bits_moved [OF ok lay])
    fix i assume i: "i < unat (group_block_count sb g)"
    show "bit_set (bitmap_of sb D' g) (of_nat i) = bit_set ?bm (of_nat i) \<or> i \<in> I \<and> bit_set (bitmap_of sb D' g) (of_nat i) = v"
      using put_prefix_bits(1) [OF set(1), of k "of_nat i"] set(2) [of "of_nat i"] small [OF i] by (auto simp: own I_def split: if_splits)
  next
    show "D' ! j = D ! j" if "j < length D" "\<not> in_bitmaps sb D j" for j
      using that p1(4) p2(4) same_layout_facts(3) [OF p1(2)] p1(2) by (simp add: same_layout_def)
  qed (use oth in simp)
  show "group_agrees ctx D' h = group_agrees ctx D h" if "h < groups_count sb" "h \<noteq> g"
    using oth [OF that] by (simp add: group_agrees_def sb [symmetric] desc_of_raw)
  assume full: "length bm1 \<le> k" "length gd2 \<le> m"
  have b1: "bitmap_of sb D' g = bm1" using own put_prefix_bits(2) [OF set(1) full(1)] by simp
  have d1: "desc_raw sb D' g = gd2"
    using p2(1) [OF g] p1(1) [OF g] full(2) nd(1) by (simp add: put_bytes_def)
  have pc: "unat (popcount_bitmap bm1 (group_block_count sb g)) \<le> ?gb"
    using length_filter_le [of "\<lambda>i. bit_set bm1 (of_nat i)" "[0..<?gb]"] by (simp add: popcount_nat)
  let ?v = "group_block_count sb g - popcount_bitmap bm1 (group_block_count sb g)"
  have v: "unat ?v \<le> ?gb" using pc by (simp add: unat_sub_le word_le_nat_alt)
  have v32: "unat ?v < 2 ^ 32" using v gbl bpg block_size_le [of sb] by simp
  have cs: "count_set bm1 (group_block_count sb g) = popcount_bitmap bm1 (group_block_count sb g)"
    by (simp add: count_set_def popcount_bitmap_def)
  have uv: "unat (ucast ?v :: u32) = unat ?v" "(ucast (ucast ?v :: u32) :: u64) = ?v"
    using v32 by (simp_all add: word_unat_eq_iff unsigned_ucast_eq unsigned_take_bit_eq take_bit_nat_eq_self)
  have "gd_free_blocks (desc_of sb D' g) = ucast ?v"
    unfolding desc_of_raw d1 using nd(5,6) nd(1) rl fit v gbl uv(1) cs
    by (intro new_desc_free) simp_all
  then have "group_agrees ctx D' g"
    using nd(2,3) uv(2) by (simp add: group_agrees_def Let_def sb [symmetric] b1 d1)
  moreover have "block_used sb D' b = v" if "b \<in> (\<lambda>i. unat (group_start_block sb g) + i) ` I" for b
  proof -
    from \<open>b \<in> _\<close> obtain i where i: "b = unat (group_start_block sb g) + i" "i \<in> I" by (rule imageE)
    then have i': "unat first \<le> i" "i < unat first + unat cnt" "i < ?gb" using n by (simp_all add: I_def)
    then show ?thesis using block_of_group(1) [OF ok g i'(3), of D'] set(2) [of "of_nat i"] small [OF i'(3)] i(1) b1 by simp
  qed
  ultimately show "group_agrees ctx D' g \<and> (\<forall>b \<in> (\<lambda>i. unat (group_start_block sb g) + i) ` I. block_used sb D' b = v)" by blast
qed


section \<open>The update of a range\<close>

lemma put_bytes_Nil: "put_bytes off [] b = b"
  by (simp add: put_bytes_def)

lemma length_set_bits: "length (set_bits bm f n v) = length bm"
proof -
  have "length (fold (\<lambda>i b. set_bitmap_bit b (f + of_nat i) v) xs bm) = length bm" for xs :: "nat list"
    by (induction xs arbitrary: bm) (simp_all add: set_bitmap_bit_def Let_def)
  then show ?thesis by (simp add: set_bits_def)
qed

lemma group_member:
  assumes "sb_ok sb" and "g < groups_count sb" and "b \<in> set (group_blocks sb g)"
  shows "(b - unat (sb_first_data_block sb)) div unat (sb_blocks_per_group sb) = unat g"
proof -
  let ?k = "unat (sb_blocks_per_group sb)"
  have "b - unat (sb_first_data_block sb) = unat g * ?k + (b - unat (group_start_block sb g))" "b - unat (group_start_block sb g) < ?k"
    using assms(3) group_start_nat(1) [OF assms(1,2)] group_count_nat [OF assms(1,2)] by (auto simp: group_blocks_def)
  then show ?thesis by simp
qed

lemma image_shift: "(\<lambda>i. a + i) ` {m..<m + n} = {a + m..<a + m + (n :: nat)}"
  by (simp add: image_add_atLeastLessThan add.assoc add.commute add.left_commute)

text \<open>The disk while a range is being set: \<open>D0\<close> at the start, \<open>R\<close> the blocks reached so far.\<close>

definition setting :: "metadata_context \<Rightarrow> bytes \<Rightarrow> nat set \<Rightarrow> bool \<Rightarrow> bytes \<Rightarrow> bool" where
  "setting ctx D0 R v D \<longleftrightarrow> bits_moved (mc_sb ctx) R v D0 D
     \<and> (\<forall>b \<in> R. block_used (mc_sb ctx) D b = v)
     \<and> (\<forall>g < groups_count (mc_sb ctx). group_agrees ctx D0 g \<or> set (group_blocks (mc_sb ctx) g) \<inter> R \<noteq> {} \<longrightarrow> group_agrees ctx D g)"

lemma bits_moved_mono: "bits_moved sb R v D D' \<Longrightarrow> R \<subseteq> R' \<Longrightarrow> bits_moved sb R' v D D'"
  unfolding bits_moved_def by blast

text \<open>One group: whatever part of the two writes took place, and when both are complete.\<close>

lemma setting_step:
  assumes ok: "sb_ok (mc_sb ctx)" and a: "bitmaps_apart (mc_sb ctx) D" and len: "length D < 2 ^ 64" and fit: "counters_fit (mc_sb ctx)"
    and part: "group_part (mc_sb ctx) pos left = (g, idx, n)"
    and pos: "unat (sb_first_data_block (mc_sb ctx)) \<le> unat pos" "unat pos + unat left \<le> unat (sb_blocks_count (mc_sb ctx))" "left \<noteq> 0"
    and s: "s \<le> unat pos" "unat (sb_first_data_block (mc_sb ctx)) \<le> s" and RR: "{s..<unat pos + unat n} \<subseteq> RR"
    and S: "setting ctx D0 {s..<unat pos} v D" and b: "b = set_bits (bitmap_of (mc_sb ctx) D g) idx n v"
    and bc: "update_block_bitmap_checksum ctx (set_desc_free_blocks (desc_raw (mc_sb ctx) D g)
        (ucast (group_block_count (mc_sb ctx) g - count_set b (group_block_count (mc_sb ctx) g)))) b = Inr gd1"
    and gc: "update_group_descriptor_checksum ctx g gd1 = Inr gd2" and rl: "length (desc_raw (mc_sb ctx) D g) = unat (desc_bytes (mc_sb ctx))"
  defines "out \<equiv> \<lambda>m k. put_bytes (desc_at (mc_sb ctx) g) (take m gd2) (put_bytes (bitmap_at (mc_sb ctx) D g) (take k b) D)"
  shows "bits_moved (mc_sb ctx) RR v D0 (out m k)" and "setting ctx D0 {s..<unat pos + unat n} v (out (length gd2) (length b))"
proof -
  let ?sb = "mc_sb ctx" and ?I = "{unat pos..<unat pos + unat n}" and ?D2 = "out (length gd2) (length b)"
  note gp = group_part_nat [OF ok part pos]
  have mv: "bits_moved ?sb {s..<unat pos} v D0 D" using S by (simp add: setting_def)
  note ro = rewrite_outcomes [OF ok refl a len fit gp(1,5) b bc gc rl refl, unfolded image_shift gp(2), folded out_def]
  have un: "{s..<unat pos} \<union> ?I = {s..<unat pos + unat n}" using s by auto
  show "bits_moved ?sb RR v D0 (out m k)"
    using bits_moved_mono [OF bits_moved_trans [OF mv ro(1), unfolded un] RR] by (simp add: out_def)
  have mem: "x \<in> set (group_blocks ?sb g)" if "x \<in> ?I" for x using that gp(2,5) by (auto simp: group_blocks_def)
  have blocks: "set (group_blocks ?sb h) \<inter> ?I = {}" if "h < groups_count ?sb" "h \<noteq> g" for h
    using that(2) group_member [OF ok that(1)] group_member [OF ok gp(1)] mem by (fastforce simp: word_unat_eq_iff)
  note r1 = ro(1) [where m = "length gd2" and k = "length b"] and r2 = ro(2) [where m = "length gd2" and k = "length b"]
    and r3 = ro(3) [where m = "length gd2" and k = "length b", OF order_refl order_refl]
  show "setting ctx D0 {s..<unat pos + unat n} v ?D2"
    unfolding setting_def
  proof (intro conjI allI impI ballI)
    show "bits_moved ?sb {s..<unat pos + unat n} v D0 ?D2" using bits_moved_trans [OF mv r1, unfolded un] by (simp add: out_def)
    show "block_used ?sb ?D2 x = v" if x: "x \<in> {s..<unat pos + unat n}" for x
    proof (cases "x \<in> ?I")
      case True
      then show ?thesis using r3 unfolding out_def by blast
    next
      case False
      then have "x \<in> {s..<unat pos}" "unat (sb_first_data_block ?sb) \<le> x \<and> x < unat (sb_blocks_count ?sb)" using x s pos by auto
      then show ?thesis using S r1 False unfolding setting_def bits_moved_def out_def by blast
    qed
    show "group_agrees ctx ?D2 h"
      if h: "h < groups_count ?sb" "group_agrees ctx D0 h \<or> set (group_blocks ?sb h) \<inter> {s..<unat pos + unat n} \<noteq> {}" for h
    proof (cases "h = g")
      case True
      then show ?thesis using r3 unfolding out_def by blast
    next
      case False
      have "group_agrees ctx D h" using S h un blocks [OF h(1) False] unfolding setting_def by blast
      then show ?thesis using r2 [OF h(1) False] by (simp add: out_def)
    qed
  qed
qed

text \<open>The two writes: a prefix of the bitmap, or the whole bitmap and a prefix of the descriptor.\<close>

lemma two_writes:
  assumes start: "\<And>w. w_files w = F \<Longrightarrow> bytes_are d (\<lambda>D U. D = D0 \<and> K U) w"
    and g: "g < groups_count (mc_sb ctx)" and te: "table_end (mc_sb ctx) \<le> length D0" "length D0 < 2 ^ 64"
    and off: "unat boff = at" and b: "at + length b \<le> length D0" and lg: "length gd = unat (desc_bytes (mc_sb ctx))"
    and torn: "\<And>m k. A (put_bytes (desc_at (mc_sb ctx) g) (take m gd) (put_bytes at (take k b) D0))"
    and full: "B (put_bytes (desc_at (mc_sb ctx) g) (take (length gd) gd) (put_bytes at (take (length b) b) D0))"
  shows "triple (\<lambda>w. w_files w = F) (bind_io (write_exact d boff b) (\<lambda>_. write_group_descriptor_raw d ctx g gd))
    (\<lambda>_. bytes_are d (\<lambda>D U. B D \<and> K U)) (bytes_are d (\<lambda>D U. A D \<and> K U))"
proof -
  let ?D1 = "put_bytes at b D0"
  have w1: "triple (\<lambda>w. w_files w = F) (write_exact d boff b) (\<lambda>_. bytes_are d (\<lambda>D U. D = ?D1 \<and> K U)) (bytes_are d (\<lambda>D U. A D \<and> K U))"
  proof (rule triple_conseq [OF triple_write [where J = "\<lambda>D U. D = D0 \<and> K U" and Q = "\<lambda>D U. D = ?D1 \<and> K U" and E = "\<lambda>D U. A D \<and> K U"]])
    show "A (put_bytes (unat boff) (take k b) D) \<and> K U" if "D = D0 \<and> K U" for D U k using torn [of 0 k] that off by (simp add: put_bytes_Nil)
  qed (use start b off in auto)
  have E1: "bytes_are d (\<lambda>D U. A D \<and> K U) w" if "bytes_are d (\<lambda>D U. D = ?D1 \<and> K U) w" for w
    using that torn [of 0 "length b"] by (auto simp: bytes_are_def put_bytes_Nil)
  have w2: "triple (bytes_are d (\<lambda>D U. D = ?D1 \<and> K U)) (write_exact d off gd) (\<lambda>_. bytes_are d (\<lambda>D U. B D \<and> K U)) (bytes_are d (\<lambda>D U. A D \<and> K U))"
    if "desc_address msg (mc_sb ctx) g = Inr off" for msg off
  proof -
    have o: "unat off = desc_at (mc_sb ctx) g" using desc_address_Inr [OF that] desc_raw_at(1) [OF g te] by simp
    have l: "desc_at (mc_sb ctx) g + length gd \<le> length ?D1" using desc_slot [OF g] te lg b by simp
    show ?thesis
    proof (rule triple_write)
      show "A (put_bytes (unat off) (take k gd) D) \<and> K U" if "D = ?D1 \<and> K U" for D U k using torn [of k "length b"] that o by simp
      show "B (put_bytes (unat off) gd D) \<and> K U" if "D = ?D1 \<and> K U" for D U using full that o by simp
    qed (use l o in simp)
  qed
  show ?thesis
    unfolding write_group_descriptor_raw_def Let_def
    by (rule triple_bind [OF w1], rule triple_if, rule triple_fail [OF E1], assumption, rule triple_if,
        rule triple_fail [OF E1], assumption, rule triple_if, rule triple_fail [OF E1], assumption,
        rule triple_lift_bind [OF _ E1], rule w2)
qed

lemma rewrite_triple:
  assumes ok: "sb_ok (mc_sb ctx)" and a: "bitmaps_apart (mc_sb ctx) D0" and len: "length D0 < 2 ^ 64" and fit: "counters_fit (mc_sb ctx)"
    and part: "group_part (mc_sb ctx) pos left = (g, idx, n)"
    and pos: "unat (sb_first_data_block (mc_sb ctx)) \<le> unat pos" "unat pos + unat left \<le> unat (sb_blocks_count (mc_sb ctx))" "left \<noteq> 0"
    and s: "s \<le> unat pos" "unat (sb_first_data_block (mc_sb ctx)) \<le> s" and RR: "{s..<unat pos + unat n} \<subseteq> RR"
  shows "triple (bytes_are d (\<lambda>D U. setting ctx D0 {s..<unat pos} v D)) (rewrite_group_bitmap d ctx g idx n v)
    (\<lambda>_. bytes_are d (\<lambda>D U. setting ctx D0 {s..<unat pos + unat n} v D)) (bytes_are d (\<lambda>D U. bits_moved (mc_sb ctx) RR v D0 D))"
  (is "triple ?P ?m ?Q ?E")
proof -
  let ?sb = "mc_sb ctx"
  note gp = group_part_nat [OF ok part pos]
  have "triple (\<lambda>w. w_files w = F) ?m ?Q ?E" if on: "\<And>w. w_files w = F \<Longrightarrow> on_file d w"
    and S: "setting ctx D0 {s..<unat pos} v (f_data (F (bd_fd d)))" for F
  proof -
    let ?D = "f_data (F (bd_fd d))"
    have lay: "same_layout ?sb D0 ?D" using S by (simp add: setting_def bits_moved_def)
    have aD: "bitmaps_apart ?sb ?D" "length ?D < 2 ^ 64" using same_layout_facts(2) [OF lay] lay a len by (simp_all add: same_layout_def)
    have start: "bytes_are d (\<lambda>D U. D = ?D) w" if "w_files w = F" for w
      using on [OF that] that by (simp add: bytes_are_def)
    have "{s..<unat pos} \<subseteq> RR" using RR by auto
    then have E0: "?E w" if "w_files w = F" for w
      using start [OF that] S bits_moved_mono unfolding bytes_are_def setting_def by auto
    show ?thesis
      unfolding rewrite_group_bitmap_def Let_def
    proof (rule triple_reads_bind [OF reads_group_desc _ E0], rule triple_reads_bind [OF reads_desc_raw _ E0],
        rule triple_lift_bind [OF _ E0], rule triple_if, rule triple_fail [OF E0], assumption,
        rule triple_reads_bind [OF reads_block_bitmap _ E0], rule triple_lift_bind [OF _ E0], rule triple_if,
        rule triple_fail [OF E0], assumption, rule triple_if, rule triple_fail [OF E0], assumption, rule triple_if,
        rule triple_fail [OF E0], assumption, rule triple_lift_bind [OF _ E0], rule triple_lift_bind [OF _ E0])
      fix gd raw gok bm bok gd1 gd2
      let ?b = "set_bits bm idx n v"
      assume gd: "gd = desc_of ?sb ?D g" and raw: "raw = desc_raw ?sb ?D g \<and> length raw = unat (desc_bytes ?sb)"
        and bm: "bm = get_bytes (unat (gd_block_bitmap gd * block_size ?sb)) (unat (block_size ?sb)) ?D"
        and bc: "update_block_bitmap_checksum ctx
            (set_desc_free_blocks raw (ucast (group_block_count ?sb g - count_set ?b (group_block_count ?sb g)))) ?b = Inr gd1"
        and gc: "update_group_descriptor_checksum ctx g gd1 = Inr gd2"
      have bm': "?b = set_bits (bitmap_of ?sb ?D g) idx n v" using bm gd by (simp add: bitmap_of_def)
      have rl: "length (desc_raw ?sb ?D g) = unat (desc_bytes ?sb)" using raw by metis
      note step = setting_step [OF ok aD fit part pos s RR S bm' bc [unfolded conjunct1 [OF raw]] gc rl]
      show "triple (\<lambda>w. w_files w = F) (bind_io (write_exact d (gd_block_bitmap gd * block_size ?sb) ?b)
          (\<lambda>_. write_group_descriptor_raw d ctx g gd2)) ?Q ?E"
      proof (rule two_writes [where K = "\<lambda>_. True", simplified, OF start])
        show "unat (gd_block_bitmap gd * block_size ?sb) = bitmap_at ?sb ?D g"
          using bitmap_of_at(1) [OF aD(1) gp(1) ok aD(2)] gd by simp
        show "bitmap_at ?sb ?D g + length ?b \<le> length ?D"
          using bm' bitmap_of_at(2,3) [OF aD(1) gp(1) ok aD(2)] by (simp add: length_set_bits)
        show "length gd2 = unat (desc_bytes ?sb)" using new_desc(1) [OF bc gc conjunct2 [OF raw]] conjunct2 [OF raw] by (rule trans)
      qed (use step gp(1) aD in \<open>simp_all add: bitmaps_apart_def\<close>)
    qed
  qed
  then show ?thesis unfolding triple_def bytes_are_def on_file_def by metis
qed

lemma update_triple:
  assumes a: "bitmaps_apart (mc_sb ctx) D0" and len: "length D0 < 2 ^ 64" and fit: "counters_fit (mc_sb ctx)"
    and ok: "sb_ok (mc_sb ctx)" and e: "e \<le> unat (sb_blocks_count (mc_sb ctx))" and s: "unat (sb_first_data_block (mc_sb ctx)) \<le> s"
    and "s \<le> unat pos" and "unat pos + unat left = e"
  shows "triple (bytes_are d (\<lambda>D U. setting ctx D0 {s..<unat pos} v D)) (allocation_update d ctx pos left v)
    (\<lambda>_. bytes_are d (\<lambda>D U. U = D \<and> setting ctx D0 {s..<e} v D)) (bytes_are d (\<lambda>D U. bits_moved (mc_sb ctx) {s..<e} v D0 D))"
  using assms
proof (induction d ctx pos left v rule: allocation_update.induct)
  case (1 d ctx pos left v)
  note h = "1.prems"
  have weak: "bits_moved (mc_sb ctx) {s..<e} v D0 D" if "setting ctx D0 {s..<p} v D" "p \<le> e" for D p
  proof -
    have "{s..<p} \<subseteq> {s..<e}" using that(2) by auto
    then show ?thesis using that(1) unfolding setting_def bits_moved_def by blast
  qed
  show ?case
  proof (cases "left = 0")
    case True
    have "triple (bytes_are d (\<lambda>D U. setting ctx D0 {s..<unat pos} v D)) (flush d)
        (\<lambda>_. bytes_are d (\<lambda>D U. U = D \<and> setting ctx D0 {s..<e} v D)) (bytes_are d (\<lambda>D U. bits_moved (mc_sb ctx) {s..<e} v D0 D))"
      using weak h(8) True by (intro triple_flush) auto
    then show ?thesis using True by (simp add: allocation_update.simps [of d ctx pos])
  next
    case False
    obtain g idx n where part: "group_part (mc_sb ctx) pos left = (g, idx, n)" by (cases "group_part (mc_sb ctx) pos left")
    have first: "unat (sb_first_data_block (mc_sb ctx)) \<le> unat pos" using h(6,7) by linarith
    have in_fs: "unat pos + unat left \<le> unat (sb_blocks_count (mc_sb ctx))" using h(5,8) by simp
    note gp = group_part_nat [OF h(4) part first in_fs False]
    note ps = part_step [OF h(4) part first in_fs False]
    have le: "unat pos + unat n \<le> e" using gp(4) h(8) by simp
    then have sub: "{s..<unat pos + unat n} \<subseteq> {s..<e}" by auto
    have s': "s \<le> unat (pos + n)" "unat (pos + n) + unat (left - n) = e" using ps(3,4) gp(4) h(7,8) by simp_all
    note step = rewrite_triple [OF h(4,1,2,3) part first in_fs False h(7,6) sub, of d v]
    note rest = "1.IH" [OF False ps(2) part [symmetric] refl ps(1) h(1-6) s', unfolded ps(3)]
    show ?thesis
      unfolding allocation_update.simps [of d ctx pos left v] part prod.case
      using False ps(1,2) triple_bind [OF step rest] by simp
  qed
qed

section \<open>Calls that end\<close>

definition ends :: "'a io \<Rightarrow> bool" where
  "ends m \<longleftrightarrow> (\<forall>w. fst (m w) \<noteq> Inl Diverged)"

named_theorems ends_intros \<open>programs that end\<close>

lemma ends_bind [ends_intros]: "ends m \<Longrightarrow> (\<And>x. ends (f x)) \<Longrightarrow> ends (bind_io m f)"
  unfolding ends_def
proof (intro allI notI)
  fix w assume m: "\<forall>w. fst (m w) \<noteq> Inl Diverged" "\<And>x. \<forall>w. fst (f x w) \<noteq> Inl Diverged" "fst (bind_io m f w) = Inl Diverged"
  then show False
    by (cases "m w" rule: prod.exhaust; cases "fst (m w)") (auto simp: bind_io_def dest: spec [of _ w])
qed

lemma ends_simple [ends_intros]:
  "ends (return_io x)" "ends (fail_io c msg)" "ends (lift_io r)" "ends p \<Longrightarrow> ends q \<Longrightarrow> ends (if b then p else q)"
  by (auto simp: ends_def lift_io_def split: sum.splits)

lemma ends_fault: "ends (fault_hook op t)"
  by (auto simp: ends_def fault_hook_def fault_point_def Let_def)

lemma ends_loops: "fst (read_loop fd off n acc w) \<noteq> Inl Diverged" "fst (write_loop fd off b k w) \<noteq> Inl Diverged"
proof -
  show "fst (read_loop fd off n acc w) \<noteq> Inl Diverged"
    by (induction fd off n acc w rule: read_loop.induct)
      (subst read_loop.simps, auto split: prod.splits sum.splits)
  show "fst (write_loop fd off b k w) \<noteq> Inl Diverged"
    by (induction fd off b k w rule: write_loop.induct)
      (subst write_loop.simps, auto split: prod.splits sum.splits)
qed

lemma ends_device [ends_intros]: "ends (read_exact d off n)" "ends (write_exact d off b)" "ends (flush d)"
proof -
  have l: "ends (read_loop fd o' n [])" "ends (write_loop fd o' b 0)" for fd o' by (simp_all add: ends_def ends_loops)
  show "ends (read_exact d off n)" unfolding read_exact_def by (intro ends_intros ends_fault l)
  show "ends (write_exact d off b)" unfolding write_exact_def by (intro ends_intros ends_fault l)
  have "ends (\<lambda>w. case sys_fsync (bd_fd d) w of (Inl e, w') \<Rightarrow> throw_io (h e w') w' | (Inr _, w') \<Rightarrow> fault_hook Op_flush After w')" for h
    using ends_fault [of Op_flush After] by (auto simp: ends_def split: prod.splits sum.splits)
  then show "ends (flush d)" unfolding flush_def by (intro ends_intros ends_fault)
qed

lemma ends_ext4 [ends_intros]:
  "ends (read_group_desc d sb g)" "ends (read_group_descriptor_raw d ctx g)" "ends (read_block_bitmap d sb gd)"
  "ends (write_group_descriptor_raw d ctx g raw)" "ends (rewrite_group_bitmap d ctx g i n v)"
proof -
  show r: "ends (read_group_desc d sb g)" "ends (read_group_descriptor_raw d ctx g)" "ends (read_block_bitmap d sb gd)"
    "ends (write_group_descriptor_raw d ctx g raw)" for sb gd raw
    unfolding read_group_desc_def read_group_descriptor_raw_def read_block_bitmap_def read_bitmap_def write_group_descriptor_raw_def Let_def
    by (intro ends_intros)+
  show "ends (rewrite_group_bitmap d ctx g i n v)" unfolding rewrite_group_bitmap_def Let_def by (intro ends_intros r)
qed

lemma update_ends:
  assumes "sb_ok (mc_sb ctx)" and "unat (sb_first_data_block (mc_sb ctx)) \<le> unat pos" and "unat pos + unat left \<le> unat (sb_blocks_count (mc_sb ctx))"
  shows "ends (allocation_update d ctx pos left v)"
  using assms
proof (induction d ctx pos left v rule: allocation_update.induct)
  case (1 d ctx pos left v)
  note h = "1.prems"
  show ?case
  proof (cases "left = 0")
    case False
    obtain g idx n where part: "group_part (mc_sb ctx) pos left = (g, idx, n)" by (cases "group_part (mc_sb ctx) pos left")
    note ps = part_step [OF h(1) part h(2,3) False] and gp = group_part_nat [OF h(1) part h(2,3) False]
    have p: "unat (sb_first_data_block (mc_sb ctx)) \<le> unat (pos + n)" "unat (pos + n) + unat (left - n) \<le> unat (sb_blocks_count (mc_sb ctx))"
      using h(2,3) gp(4) ps(3,4) by simp_all
    show ?thesis
      unfolding allocation_update.simps [of d ctx pos left v] part prod.case
      using ends_bind [OF ends_ext4(5) "1.IH" [OF False ps(2) part [symmetric] refl ps(1) h(1) p]] False ps(1,2) by simp
  qed (simp add: allocation_update.simps [of d ctx pos] ends_intros)
qed

lemma loop_ends:
  assumes "sb_ok sb" and "unat (sb_first_data_block sb) \<le> unat pos" and "unat pos + unat left \<le> unat (sb_blocks_count sb)"
  shows "ends (allocation_loop d sb pos left st)"
  using assms
proof (induction d sb pos left st rule: allocation_loop.induct)
  case (1 d sb pos left st)
  note h = "1.prems"
  show ?case
  proof (cases "left = 0")
    case False
    obtain g idx n where part: "group_part sb pos left = (g, idx, n)" by (cases "group_part sb pos left")
    note ps = part_step [OF h(1) part h(2,3) False] and gp = group_part_nat [OF h(1) part h(2,3) False]
    have p: "unat (sb_first_data_block sb) \<le> unat (pos + n)" "unat (pos + n) + unat (left - n) \<le> unat (sb_blocks_count sb)"
      using h(2,3) gp(4) ps(3,4) by simp_all
    note ih = "1.IH" [OF False ps(2) part [symmetric] refl ps(1) h(1) p]
    show ?thesis
      unfolding allocation_loop.simps [of d sb pos left st] part prod.case
      using ends_bind [OF ends_ext4(1) ends_bind [OF ends_ext4(3) ih]] False ps(1,2) by simp
  qed (simp add: allocation_loop.simps [of d sb pos] ends_simple(1) [unfolded return_io_def])
qed

section \<open>Reading the state of a range\<close>

lemma note_bits_spec:
  "ra_all_set (note_bits bm idx n st) \<longleftrightarrow> ra_all_set st \<and> (\<forall>i < unat n. bit_set bm (idx + of_nat i))"
  "ra_all_clear (note_bits bm idx n st) \<longleftrightarrow> ra_all_clear st \<and> (\<forall>i < unat n. \<not> bit_set bm (idx + of_nat i))"
proof -
  let ?f = "\<lambda>i s. let set = bit_set bm (idx + of_nat i)
     in s\<lparr>ra_all_set := (ra_all_set s \<and> set), ra_all_clear := (ra_all_clear s \<and> \<not> set)\<rparr>"
  have "ra_all_set (fold ?f xs s) = (ra_all_set s \<and> (\<forall>i\<in>set xs. bit_set bm (idx + of_nat i)))"
    "ra_all_clear (fold ?f xs s) = (ra_all_clear s \<and> (\<forall>i\<in>set xs. \<not> bit_set bm (idx + of_nat i)))" for xs :: "nat list" and s
    by (induction xs arbitrary: s) (auto simp: Let_def)
  from this [of "[0..<unat n]" st] show "ra_all_set (note_bits bm idx n st) \<longleftrightarrow> ra_all_set st \<and> (\<forall>i < unat n. bit_set bm (idx + of_nat i))"
    "ra_all_clear (note_bits bm idx n st) \<longleftrightarrow> ra_all_clear st \<and> (\<forall>i < unat n. \<not> bit_set bm (idx + of_nat i))"
    by (simp_all only: note_bits_def) auto
qed

text \<open>What a range state says of the blocks up to a position.\<close>

definition noted :: "superblock \<Rightarrow> bytes \<Rightarrow> nat \<Rightarrow> nat \<Rightarrow> range_state \<Rightarrow> bool" where
  "noted sb D s e st \<longleftrightarrow> (ra_all_set st \<longleftrightarrow> (\<forall>b \<in> {s..<e}. block_used sb D b)) \<and> (ra_all_clear st \<longleftrightarrow> (\<forall>b \<in> {s..<e}. \<not> block_used sb D b))"

lemma noted_part:
  assumes ok: "sb_ok sb" and part: "group_part sb pos left = (g, idx, n)" and s: "s \<le> unat pos"
    and pos: "unat (sb_first_data_block sb) \<le> unat pos" "unat pos + unat left \<le> unat (sb_blocks_count sb)" "left \<noteq> 0"
    and st: "noted sb D s (unat pos) st"
  shows "noted sb D s (unat pos + unat n) (note_bits (bitmap_of sb D g) idx n st)"
proof -
  note gp = group_part_nat [OF ok part pos]
  have u: "block_used sb D (unat pos + i) = bit_set (bitmap_of sb D g) (idx + of_nat i)" if "i < unat n" for i
  proof -
    have "unat idx + i < unat (group_block_count sb g)" using that gp(5) by simp
    from block_of_group(1) [OF ok gp(1) this, of D] show ?thesis using gp(2) by (simp add: add.assoc [symmetric])
  qed
  have split: "{s..<unat pos + unat n} = {s..<unat pos} \<union> (\<lambda>i. unat pos + i) ` {0..<unat n}"
    using s image_shift [of "unat pos" 0 "unat n"] by auto
  have im: "(\<forall>b \<in> (\<lambda>i. unat pos + i) ` {0..<unat n}. P b) \<longleftrightarrow> (\<forall>i < unat n. P (unat pos + i))" for P
    by (simp only: ball_simps) auto
  show ?thesis using st by (simp only: noted_def split note_bits_spec ball_Un im) (simp add: u)
qed

lemma reads_allocation_loop:
  assumes "sb_ok sb" and "s \<le> unat pos" and "unat (sb_first_data_block sb) \<le> s" and "unat pos + unat left = e"
    and "e \<le> unat (sb_blocks_count sb)" and "noted sb (f_data (F (bd_fd d))) s (unat pos) st"
  shows "reads F (noted sb (f_data (F (bd_fd d))) s e) (allocation_loop d sb pos left st)"
  using assms
proof (induction d sb pos left st rule: allocation_loop.induct)
  case (1 d sb pos left st)
  note h = "1.prems"
  show ?case
  proof (cases "left = 0")
    case True
    then show ?thesis using h(4,6) by (simp add: allocation_loop.simps [of d sb pos] reads_simple(1) [unfolded return_io_def])
  next
    case False
    obtain g idx n where part: "group_part sb pos left = (g, idx, n)" by (cases "group_part sb pos left")
    have pos: "unat (sb_first_data_block sb) \<le> unat pos" "unat pos + unat left \<le> unat (sb_blocks_count sb)" using h by simp_all
    note ps = part_step [OF h(1) part pos False] and gp = group_part_nat [OF h(1) part pos False]
    have s': "s \<le> unat (pos + n)" "unat (pos + n) + unat (left - n) = e" using ps(3,4) gp(4) h(2,4) by simp_all
    let ?D = "f_data (F (bd_fd d))"
    have next_st: "noted sb ?D s (unat (pos + n)) (note_bits bm idx n st)" if "bm = bitmap_of sb ?D g" for bm
      unfolding that ps(3) by (rule noted_part [OF h(1) part h(2) pos False h(6)])
    note ih = "1.IH" [OF False ps(2) part [symmetric] refl ps(1) h(1) s'(1) h(3) s'(2) h(5) next_st]
    have "reads F (noted sb ?D s e) (bind_io (read_group_desc d sb g) (\<lambda>gd. bind_io (read_block_bitmap d sb gd) (\<lambda>bm.
        allocation_loop d sb (pos + n) (left - n) (note_bits bm idx n st))))"
      by (rule reads_bind [OF reads_group_desc], rule reads_bind [OF reads_block_bitmap], rule ih) (simp add: bitmap_of_def)
    then show ?thesis
      unfolding allocation_loop.simps [of d sb pos left st] part prod.case using False ps(1,2) by simp
  qed
qed

end
