(* ===== verification/Fsx_Commit_Journal.thy ===== *)
theory Fsx_Commit_Journal
  imports Fsx_Commit_Laws
begin

text \<open>
  The journal of the metadata commit against the validator: the records that a run leaves, and the resumed run whose
  journal the validator rejects; with a sample filesystem and journal on which both runs are carried out.
\<close>

section \<open>Properties\<close>

lemma phase_code_range: "1 \<le> phase_code ph \<and> phase_code ph \<le> 11"
  by (cases ph) simp_all

lemma legal_checkpoint: "legal_at rs (checkpoint_record ph s)"
  using phase_code_range [of ph] by (cases ph) (simp_all add: legal_at_def checkpoint_record_def)

lemma legal_mark: "legal_at rs (commit_record Rec_filesystem_marked_dirty m)" "legal_at rs (commit_record Rec_filesystem_marked_clean m)"
  by (simp_all add: legal_at_def)

lemma legal_prologue: "legal (rs @ prologue ctx s) = legal rs"
  using legal_snoc [of "rs @ [commit_record Rec_filesystem_marked_dirty no_move]" "checkpoint_record Phase_metadata_finalize s"]
  by (auto simp: prologue_def legal_snoc legal_checkpoint legal_mark)

lemma legal_epilogue: "legal (rs @ epilogue opts p s) = legal rs"
  using legal_snoc [of "rs @ [commit_record Rec_filesystem_marked_clean no_move]" "checkpoint_record Phase_compacted s"]
  by (auto simp: epilogue_def legal_snoc legal_checkpoint legal_mark)

lemma seen_prologue: "\<not> seen (prologue ctx s) Rec_owner_switched t"
  by (auto simp: prologue_def seen_def checkpoint_record_def)

lemma switched_prologue: "switched_first (rs @ prologue ctx s) = switched_first rs"
  by (simp add: fun_eq_iff switched_first_def seen_append seen_prologue)

lemma legal_run:
  assumes "length sts = length ms" and "distinct (map om_transaction_id ms)" and "\<forall>m\<in>set ms. announced rs m"
  shows "legal (rs @ prologue ctx s @ traces ms sts @ epilogue opts p s') \<longleftrightarrow> legal rs \<and> list_all2 (switched_first rs) ms sts"
proof -
  have "\<forall>m\<in>set ms. announced (rs @ prologue ctx s) m" using assms(3) announced_append by blast
  from legal_traces [OF assms(1,2) this] legal_epilogue [of "(rs @ prologue ctx s) @ traces ms sts" opts p s']
  show ?thesis by (simp add: legal_prologue switched_prologue)
qed


text \<open>C32. A resumed commit can leave a journal that the validator rejects. The commit was interrupted after the owner of a
  move had been switched on disk and before the record of the switch was durable. The next run finds the owner at the
  destination and writes no owner-switched record; it finds the source still allocated, releases it and records that. The
  finished journal says that the source was released without an owner switch.\<close>

theorem resumed_release_rejected:
  assumes run: "commit_move srt d ctx bs vs m j w = (Inr j', w')" and fd: "bd_fd d \<noteq> bd_fd (j_device j)"
    and owner: "(if om_kind m = Data_extent then current_data_owner srt d m else current_tree_owner srt d ctx m) w
      = (Inr (om_destination_block m), w)" "om_source_block m \<noteq> om_destination_block m"
    and src: "allocation_state d ctx (om_source_block m) (om_block_count m) w = (Inr s, w)" "\<not> ra_all_clear s"
    and dst: "allocation_state d ctx (om_destination_block m) (om_block_count m) w = (Inr t, w)"
    and held: "logs 2 j rs w" and rs: "announced rs m" "\<not> seen rs Rec_owner_switched (om_transaction_id m)"
  shows "\<exists>h full. load_image (data_of (j_device j) w') = Inr (h, full)
    \<and> unnumbered full = unnumbered (rs @ [commit_record Rec_source_released m, commit_record Rec_metadata_committed m])
    \<and> \<not> vr_clean (validate_records walk (dh_phase h) full)"
proof -
  have ok: "check_owner m (om_destination_block m) s t = Inr ()"
    using run owner src dst by (cases "check_owner m (om_destination_block m) s t") (simp_all add: commit_move_def bind_io_def)
  then have set: "ra_all_set t" by (auto simp: check_owner_def fail_def split: if_splits)
  have res: "reserve_destination d ctx m t j = return_io j" using set by (simp add: reserve_destination_def)
  have sw: "switch_owner srt d ctx bs vs m (om_destination_block m) j = return_io j" using owner(2) by (simp add: switch_owner_def)
  have tail: "bind_io (release_source d ctx m j) (\<lambda>j3. on_journal (journal_append (commit_record Rec_metadata_committed m)) j3) w = (Inr j', w')"
    using run unfolding commit_move_def by (simp add: bind_io_def owner(1) src(1) dst ok res [unfolded fun_eq_iff] sw [unfolded fun_eq_iff])
  then have rel: "bind_io (bind_io (set_allocation_range d ctx (om_source_block m) (om_block_count m) False) (\<lambda>_.
        on_journal (journal_append (commit_record Rec_source_released m)) j))
      (\<lambda>j3. on_journal (journal_append (commit_record Rec_metadata_committed m)) j3) w = (Inr j', w')"
    using src by (cases "ra_all_set s") (simp_all add: release_source_def bind_io_def)
  have "triple (logged (Suc (Suc 0)) (j_device j) rs j)
     (bind_io (bind_io (set_allocation_range d ctx (om_source_block m) (om_block_count m) False) (\<lambda>_.
        on_journal (journal_append (commit_record Rec_source_released m)) j))
      (\<lambda>j3. on_journal (journal_append (commit_record Rec_metadata_committed m)) j3))
     (logged 0 (j_device j) ((rs @ [commit_record Rec_source_released m]) @ [commit_record Rec_metadata_committed m])) (\<lambda>_. True)"
    by (rule triple_bind [OF triple_logged_bind [OF touches_commit(1) fd triple_append] triple_append])
  from triple_Inr [OF this _ rel]
  have l: "logs 0 j' (rs @ move_trace m (False, False, True)) w'" "j_device j' = j_device j"
    using held by (auto simp: logged_def numeral_2_eq_2 move_trace_def)
  from l(1) obtain h full where h: "load_image (data_of (j_device j') w') = Inr (h, full)"
    "unnumbered full = unnumbered (rs @ move_trace m (False, False, True))"
    by (rule logs_load)
  have "\<not> legal (rs @ move_trace m (False, False, True))" using legal_move_trace [OF rs(1)] rs(2) by simp
  then have "\<not> legal full" using legal_unnumbered [of full] legal_unnumbered [of "rs @ move_trace m (False, False, True)"] h(2) by simp
  then show ?thesis using h l(2) by (auto simp: validate_clean move_trace_def)
qed

section \<open>A sample run\<close>

text \<open>On a quiet host a journal with room takes every record.\<close>

definition quiet :: "nat \<Rightarrow> block_device \<Rightarrow> world \<Rightarrow> world \<Rightarrow> bool" where
  "quiet f d w w' \<longleftrightarrow> calm w' \<and> on_file d w' \<and> length (data_of d w') = length (data_of d w) \<and> others_kept f w w' \<and> w_cancel w' = w_cancel w"

lemma quiet_trans: "quiet f d w w1 \<Longrightarrow> quiet f d w1 w2 \<Longrightarrow> quiet f d w w2"
  by (auto simp: quiet_def others_kept_def)

lemma quiet_write:
  assumes "calm w" "on_file d w" "bd_writable d" "unat off + length b \<le> length (data_of d w)"
  obtains w' where "write_exact d off b w = (Inr (), w')" "quiet (bd_fd d) d w w'" "data_of d w' = put_bytes (unat off) b (data_of d w)"
proof
  show "write_exact d off b w = (Inr (), set_data (bd_fd d) (put_bytes (unat off) b (data_of d w)) w)" using assms by (rule write_exact_calm)
  show "quiet (bd_fd d) d w (set_data (bd_fd d) (put_bytes (unat off) b (data_of d w)) w)"
    using assms by (simp add: quiet_def others_kept_def) (simp add: set_data_def)
qed simp

lemma quiet_flush:
  assumes "calm w" "on_file d w"
  obtains w' where "flush d w = (Inr (), w')" "quiet (bd_fd d) d w w'" "data_of d w' = data_of d w"
proof
  show "flush d w = (Inr (), set_durable (bd_fd d) (data_of d w) w)" using assms(1) by (rule flush_calm)
  show "quiet (bd_fd d) d w (set_durable (bd_fd d) (data_of d w) w)"
    using assms by (simp add: quiet_def others_kept_def) (simp add: set_durable_def)
qed simp

lemma quiet_records:
  assumes "calm w" "on_file d w" "bd_writable d" "8192 + (unat i + length rs) * 128 \<le> length (data_of d w)"
  obtains w' where "write_records d i rs w = (Inr (), w')" "quiet (bd_fd d) d w w'"
  using assms
proof (induction rs arbitrary: i w thesis)
  case Nil
  show ?case by (rule Nil.prems(1) [of w]) (use Nil.prems in \<open>simp_all add: quiet_def others_kept_def\<close>)
next
  case (Cons r rs)
  have big: "length (data_of d w) < 2 ^ 63" using Cons.prems(3) by (simp add: on_file_def off_t_max_def)
  have addr: "unat (records_offset + i * record_bytes) = 8192 + unat i * 128" using Cons.prems(5) big by (intro record_address) simp
  have suc: "unat (i + 1) = Suc (unat i)" using Cons.prems(5) big by (intro unat_Suc) simp
  obtain w1 where w1: "write_exact d (records_offset + i * record_bytes) (encode_record (r\<lparr>jr_sequence := i + 1\<rparr>)) w = (Inr (), w1)"
    "quiet (bd_fd d) d w w1"
    using quiet_write [OF Cons.prems(2-4), of "records_offset + i * record_bytes" "encode_record (r\<lparr>jr_sequence := i + 1\<rparr>)"] Cons.prems(5)
    by (auto simp: addr)
  obtain w2 where w2: "write_records d (i + 1) rs w1 = (Inr (), w2)" "quiet (bd_fd d) d w1 w2"
    using Cons.IH [where w = w1 and i = "i + 1"] w1(2) Cons.prems(4,5) suc by (auto simp: quiet_def)
  show ?case
    by (rule Cons.prems(1) [of w2]) (use w1 w2 quiet_trans in \<open>auto simp: bind_io_def\<close>)
qed

lemma quiet_append:
  assumes w: "calm w" "on_file (j_device j) w" and j: "bd_writable (j_device j)" "j_writable j" "identity_ok (js_identity (j_status j))"
    and room: "unat (js_record_count (j_status j)) + length new \<le> unat (capacity_records (j_device j))"
    and new: "length new < 2 ^ 64" "new \<noteq> []"
  obtains j' w' where "append_batch new j w = (Inr (), j', w')" "quiet (bd_fd (j_device j)) (j_device j) w w'"
    "j' = j\<lparr>j_status := batch_status new (j_status j)\<rparr>"
proof -
  let ?d = "j_device j" and ?s = "j_status j"
  have un: "unat (of_nat (length new) :: u64) = length new" using new(1) by (simp add: unat_of_nat take_bit_nat_eq_self)
  have fits: "\<not> (capacity_records ?d < js_record_count ?s \<or> capacity_records ?d - js_record_count ?s < of_nat (length new))"
    using room by (auto simp: word_less_nat_alt un unat_sub_le word_le_nat_alt)
  have "unat (capacity_records ?d) \<noteq> 0" using room new(2) by (cases new) auto
  then have big: "records_offset < g_size_bytes (bd_geometry ?d)" by (auto simp: capacity_records_def Let_def split: if_splits)
  have len: "8192 + (unat (js_record_count ?s) + length new) * 128 \<le> length (data_of ?d w)"
    using capacity_fits [OF w(2) _ big, of "js_record_count ?s + of_nat (length new)"] room unat_lt_64 [of "capacity_records ?d"]
    by (simp add: unat_add_le un)
  obtain w1 where w1: "write_records ?d (js_record_count ?s) new w = (Inr (), w1)" "quiet (bd_fd ?d) ?d w w1"
    using quiet_records [OF w j(1) len] .
  obtain w2 where w2: "flush ?d w1 = (Inr (), w2)" "quiet (bd_fd ?d) ?d w1 w2"
    using quiet_flush [of w1 ?d] w1(2) unfolding quiet_def by blast
  have l2: "length (data_of ?d w2) = length (data_of ?d w)" "calm w2" "on_file ?d w2" using w1(2) w2(2) by (simp_all add: quiet_def)
  let ?seq = "js_header_sequence ?s + 1"
  let ?hdr = "encode_header (js_identity ?s) ?seq (js_phase ?s) (js_record_count ?s + of_nat (length new))"
  have rng: "unat ((?seq AND 1) * header_bytes) + length ?hdr \<le> length (data_of ?d w2)"
    using slot_cases [of ?seq] j(3) len by (auto simp: slot_address l2)
  obtain w3 where w3: "write_exact ?d ((?seq AND 1) * header_bytes) ?hdr w2 = (Inr (), w3)" "quiet (bd_fd ?d) ?d w2 w3"
    using quiet_write [OF l2(2,3) j(1) rng] by blast
  obtain w4 where w4: "flush ?d w3 = (Inr (), w4)" "quiet (bd_fd ?d) ?d w3 w4"
    using quiet_flush [of w3 ?d] w3(2) unfolding quiet_def by blast
  have "append_writes j new w = (Inr (), w4)"
    using w1 w2 w3 w4 j(2) by (simp add: append_writes_def bind_io_def write_header_def Let_def)
  then have "append_batch new j w = (Inr (), j\<lparr>j_status := batch_status new ?s\<rparr>, w4)"
    using j(2) new(2) fits by (simp add: append_batch_def Let_def batch_status_def)
  moreover have "quiet (bd_fd ?d) ?d w w4" by (rule quiet_trans [OF quiet_trans [OF quiet_trans [OF w1(2) w2(2)] w3(2)] w4(2)])
  ultimately show thesis by (rule that) simp
qed

text \<open>The sample filesystem with a file at the blocks 10 and 11, and two more blocks in use.\<close>

abbreviation fs_device :: block_device where "fs_device \<equiv> sample_device 65536"

definition fs_bitmap :: bytes where "fs_bitmap = [0x1f, 6, 0x18] @ replicate 1021 0"

definition resumed_disk :: "world \<Rightarrow> bool" where
  "resumed_disk w \<longleftrightarrow> calm w \<and> on_file fs_device w \<and> w_cancel w = [] \<and> (let D = data_of fs_device w in length D = 65536
     \<and> get_bytes 1024 1024 D = sample_super \<and> get_bytes 2048 32 D = sample_desc \<and> get_bytes 3072 1024 D = fs_bitmap
     \<and> get_bytes 4096 1024 D = 1 # replicate 1023 0 \<and> get_bytes 5120 128 D = sample_inode)"

lemma disk_read:
  "resumed_disk w \<Longrightarrow> unat off + n \<le> 65536 \<Longrightarrow> read_exact fs_device off n w = (Inr (get_bytes (unat off) n (data_of fs_device w)), w)"
  by (rule read_exact_calm) (auto simp: resumed_disk_def Let_def)

definition sample_context :: metadata_context where
  "sample_context = \<lparr>mc_sb = sample_sb\<lparr>sb_state := 0\<rparr>, mc_uuid = replicate 16 0, mc_checksum_seed = 0, mc_metadata_csum = False, mc_gdt_csum = False,
     mc_csum_seed_feature = False\<rparr>"

lemma state_irrelevant [simp]:
  "block_size (sb\<lparr>sb_state := x\<rparr>) = block_size sb" "groups_count (sb\<lparr>sb_state := x\<rparr>) = groups_count sb"
  "read_group_desc d (sb\<lparr>sb_state := x\<rparr>) = read_group_desc d sb" "read_block_bitmap d (sb\<lparr>sb_state := x\<rparr>) = read_block_bitmap d sb"
  "group_start_block (sb\<lparr>sb_state := x\<rparr>) = group_start_block sb" "group_block_count (sb\<lparr>sb_state := x\<rparr>) = group_block_count sb"
  "group_part (sb\<lparr>sb_state := x\<rparr>) = group_part sb"
proof -
  show b: "block_size (sb\<lparr>sb_state := x\<rparr>) = block_size sb" "groups_count (sb\<lparr>sb_state := x\<rparr>) = groups_count sb"
    by (simp_all add: block_size_def groups_count_def Let_def)
  show "read_group_desc d (sb\<lparr>sb_state := x\<rparr>) = read_group_desc d sb"
    by (simp add: fun_eq_iff read_group_desc_def b parse_group_desc_def check_group_desc_def inode_table_blocks_def Let_def cong: if_cong)
  show "read_block_bitmap d (sb\<lparr>sb_state := x\<rparr>) = read_block_bitmap d sb"
    by (simp add: fun_eq_iff read_block_bitmap_def read_bitmap_def b Let_def)
  show g: "group_start_block (sb\<lparr>sb_state := x\<rparr>) = group_start_block sb"
    by (simp add: fun_eq_iff group_start_block_def Let_def)
  then show c: "group_block_count (sb\<lparr>sb_state := x\<rparr>) = group_block_count sb"
    by (simp add: fun_eq_iff group_block_count_def Let_def)
  show "group_part (sb\<lparr>sb_state := x\<rparr>) = group_part sb" by (simp add: fun_eq_iff group_part_def g c Let_def)
qed

definition sample_gd :: group_desc where "sample_gd = parse_group_desc sample_sb 32 sample_desc"

lemma sample_gd_fields: "gd_flags sample_gd = 0" "gd_block_bitmap sample_gd = 3" "gd_inode_bitmap sample_gd = 4" "gd_inode_table sample_gd = 5"
  using owner_reads(5-8) by (simp_all add: sample_gd_def)

lemmas disk_eval = sample_sb_fields sample_groups bind_io_def word_le_nat_alt word_less_nat_alt unat_div unsigned_minus_1_eq_mask
  mask_eq_exp_minus_1 sample_gd_fields ext4_world_facts(4,5)

lemma disk_reads:
  assumes "resumed_disk w"
  shows "read_superblock fs_device w = (Inr sample_sb, w)"
    "\<exists>ctx. load_metadata_context fs_device False w = (Inr ctx, w) \<and> \<not> mc_metadata_csum ctx"
    "read_group_desc fs_device sample_sb 0 w = (Inr sample_gd, w)"
    "read_inode_bitmap fs_device sample_sb sample_gd w = (Inr (1 # replicate 1023 0), w)"
    "read_block_bitmap fs_device sample_sb sample_gd w = (Inr fs_bitmap, w)"
    "read_exact fs_device 5120 128 w = (Inr sample_inode, w)"
    "read_group_descriptor_raw fs_device sample_context 0 w = (Inr sample_desc, w)"
proof -
  have D: "get_bytes 1024 1024 (data_of fs_device w) = sample_super" "get_bytes 2048 32 (data_of fs_device w) = sample_desc"
    "get_bytes 3072 1024 (data_of fs_device w) = fs_bitmap" "get_bytes 4096 1024 (data_of fs_device w) = 1 # replicate 1023 0"
    "get_bytes 5120 128 (data_of fs_device w) = sample_inode"
    using assms by (simp_all add: resumed_disk_def Let_def)
  note D = D [unfolded ext4_world_facts(4)] and rd = disk_read [OF assms, unfolded ext4_world_facts(4)]
  show sb: "read_superblock fs_device w = (Inr sample_sb, w)"
    using sample_check rd [of 1024 1024] by (simp add: read_superblock_def bind_io_def ext4_world_facts sample_sb_def D)
  show "\<exists>ctx. load_metadata_context fs_device False w = (Inr ctx, w) \<and> \<not> mc_metadata_csum ctx"
    using rd [of 1024 1024] by (simp add: load_metadata_context_def bind_io_def sb sample_sb_fields read_raw_superblock_def)
  have "check_group_desc sample_sb sample_gd = Inr ()"
    by (simp add: check_group_desc_def disk_eval inode_table_blocks_def)
  then show "read_group_desc fs_device sample_sb 0 w = (Inr sample_gd, w)"
    using rd [of 2048 32] by (simp add: read_group_desc_def disk_eval D) (simp add: sample_gd_def)
  show "read_inode_bitmap fs_device sample_sb sample_gd w = (Inr (1 # replicate 1023 0), w)"
    using rd [of 4096 1024] by (simp add: read_inode_bitmap_def read_bitmap_def disk_eval D)
  show "read_block_bitmap fs_device sample_sb sample_gd w = (Inr fs_bitmap, w)"
    using rd [of 3072 1024] by (simp add: read_block_bitmap_def read_bitmap_def disk_eval D)
  show "read_exact fs_device 5120 128 w = (Inr sample_inode, w)" using rd [of 5120 128] by (simp add: D)
  show "read_group_descriptor_raw fs_device sample_context 0 w = (Inr sample_desc, w)"
    using rd [of 2048 32]
    by (simp add: read_group_descriptor_raw_def desc_address_def desc_bytes_def sample_context_def disk_eval D)
qed

lemma disk_owner:
  assumes "resumed_disk w"
  shows "find_inode_extent (\<lambda>xs. xs) fs_device 1 0 w = (Inr sample_extent, w)"
proof -
  obtain ctx where ctx: "load_metadata_context fs_device False w = (Inr ctx, w)" "\<not> mc_metadata_csum ctx"
    using disk_reads(2) [OF assms] by blast
  let ?o = "empty_scan\<lparr>os_inodes_examined := 1, os_allocated_inodes := 1, os_extent_inodes := 1\<rparr>"
  have "(0 :: u64) < 12" by simp
  from sample_parse [OF ctx(2) this, of fs_device ?o w]
  obtain o1 where o1: "parse_inode fs_device sample_sb ctx 0 1 5120 sample_inode ?o w = (Inr o1, w)" "os_extents o1 = [sample_extent]"
    by (auto simp: empty_scan_def)
  have bit0: "inode_allocated (1 # replicate 1023 0) 0" by (simp add: inode_allocated_def bit_set_def)
  have "scan_inode_extent_tree (\<lambda>xs. xs) fs_device 1 0 w = (Inr o1, w)"
    using o1 disk_reads [OF assms] ctx(1) bit0
    by (simp add: scan_inode_extent_tree_def scan_specific_inode_def disk_eval sample_inode_fields EXT4_EXTENTS_FL_def Let_def)
  then show ?thesis using o1(2) by (simp add: find_inode_extent_def bind_io_def sample_extent_def)
qed

lemma sample_parts: "group_start_block sample_sb 0 = 1" "group_block_count sample_sb 0 = 63"
  "group_part sample_sb 20 2 = (0, 19, 2)" "group_part sample_sb 10 2 = (0, 9, 2)"
proof -
  show g: "group_start_block sample_sb 0 = 1" by (simp add: group_start_block_def sample_sb_fields)
  then show c: "group_block_count sample_sb 0 = 63" by (simp add: group_block_count_def sample_sb_fields)
  show "group_part sample_sb 20 2 = (0, 19, 2)" "group_part sample_sb 10 2 = (0, 9, 2)"
    by (simp_all add: group_part_def Let_def sample_sb_fields g c)
qed

lemma disk_alloc:
  assumes "resumed_disk w" and "b = 10 \<or> b = 20"
  shows "allocation_state fs_device sample_context b 2 w = (Inr \<lparr>ra_all_set = True, ra_all_clear = False\<rparr>, w)"
proof -
  have bits: "bit_set fs_bitmap 9" "bit_set fs_bitmap 10" "bit_set fs_bitmap 19" "bit_set fs_bitmap 20"
    by (simp_all add: fs_bitmap_def bit_set_def Let_def)
  have up: "[0..<2] = [0, 1 :: nat]" by (simp add: upt_rec)
  have n: "note_bits fs_bitmap 9 2 \<lparr>ra_all_set = True, ra_all_clear = True\<rparr> = \<lparr>ra_all_set = True, ra_all_clear = False\<rparr>"
    "note_bits fs_bitmap 19 2 \<lparr>ra_all_set = True, ra_all_clear = True\<rparr> = \<lparr>ra_all_set = True, ra_all_clear = False\<rparr>"
    by (simp_all add: note_bits_def up bits)
  show ?thesis
    using assms(2) disk_reads(3,5) [OF assms(1)]
    by (auto simp: allocation_state_def sample_context_def sample_sb_fields allocation_loop.simps [of _ _ "10"]
        allocation_loop.simps [of _ _ "20"] allocation_loop.simps [of _ _ _ "0"] sample_parts bind_io_def n)
qed

lemma disk_release:
  assumes w: "resumed_disk w"
  obtains w' where "set_allocation_range fs_device sample_context 20 2 False w = (Inr (), w')" "quiet 0 fs_device w w'"
proof -
  have bw: "bd_writable fs_device" "bd_fd fs_device = 0" by (simp_all add: sample_device_def)
  have c: "calm w" "on_file fs_device w" "length (f_data (w_files w 0)) = 65536" using w by (simp_all add: resumed_disk_def Let_def bw)
  let ?bm = "set_bits fs_bitmap 19 2 False"
  let ?gd = "set_desc_free_blocks sample_desc (ucast (63 - count_set ?bm 63))"
  have len: "length (set_bits b f n v) = length b" for b f n v
  proof -
    have "length (fold (\<lambda>i b. set_bitmap_bit b (f + of_nat i) v) xs b) = length b" for xs
      by (induction xs arbitrary: b) (simp_all add: set_bitmap_bit_def Let_def)
    then show ?thesis by (simp add: set_bits_def)
  qed
  have lb: "length ?bm = 1024" by (simp add: len fs_bitmap_def)
  have lg: "length ?gd = 32" by (simp add: set_desc_free_blocks_def sample_desc_fields Let_def)
  obtain w1 where w1: "write_exact fs_device 3072 ?bm w = (Inr (), w1)" "quiet 0 fs_device w w1"
    using quiet_write [OF c(1,2) bw(1), of 3072 ?bm] by (auto simp: c(3) lb bw(2))
  have c1: "calm w1" "on_file fs_device w1" "length (f_data (w_files w1 0)) = 65536" using w1(2) c(3) by (simp_all add: quiet_def bw)
  obtain w2 where w2: "write_exact fs_device 2048 ?gd w1 = (Inr (), w2)" "quiet 0 fs_device w1 w2"
    using quiet_write [OF c1(1,2) bw(1), of 2048 ?gd] by (auto simp: c1(3) lg bw(2))
  have c2: "calm w2" "on_file fs_device w2" using w2(2) by (simp_all add: quiet_def)
  obtain w3 where w3: "flush fs_device w2 = (Inr (), w3)" "quiet 0 fs_device w2 w3"
    using quiet_flush [OF c2] by (auto simp: bw(2))
  have free: "\<not> 63 - count_set ?bm 63 > 0xffffffff"
  proof -
    have "length (filter P [0..<63]) \<le> 63" for P using length_filter_le [of P "[0..<63]"] by simp
    then have "unat (count_set ?bm 63) \<le> 63" by (simp add: count_set_def unat_of_nat take_bit_nat_def) (rule le_trans [OF mod_less_eq_dividend])
    then have "unat (63 - count_set ?bm 63) \<le> 63" by (simp add: unat_sub_le word_le_nat_alt)
    then show ?thesis by (simp add: word_less_nat_alt)
  qed
  have wg: "write_group_descriptor_raw fs_device sample_context 0 ?gd w1 = (Inr (), w2)"
    using w2(1) lg by (simp add: write_group_descriptor_raw_def desc_address_def desc_bytes_def sample_context_def disk_eval)
  have nocsum: "verify_group_descriptor_checksum sample_context g x = Inr True" "verify_block_bitmap_checksum sample_context x y = Inr True"
      "update_group_descriptor_checksum sample_context g x = Inr x" "update_block_bitmap_checksum sample_context x y = Inr x"
      "mc_sb sample_context = sample_sb\<lparr>sb_state := 0\<rparr>" for g x y
    by (simp_all add: verify_group_descriptor_checksum_def verify_block_bitmap_checksum_def verify_bitmap_checksum_def
        update_group_descriptor_checksum_def update_block_bitmap_checksum_def update_bitmap_checksum_def sample_context_def)
  have rw: "rewrite_group_bitmap fs_device sample_context 0 19 2 False w = (Inr (), w2)"
    using disk_reads(3,5,7) [OF w] w1(1) wg free
    by (simp add: rewrite_group_bitmap_def nocsum bind_io_def sample_parts Let_def sample_gd_fields sample_sb_fields)
  have "set_allocation_range fs_device sample_context 20 2 False w = (Inr (), w3)"
    using rw w3(1)
    by (simp add: set_allocation_range_def allocation_update.simps [of _ _ "20"] allocation_update.simps [of _ _ _ "0"] nocsum sample_parts
        sample_sb_fields bind_io_def)
  moreover have "quiet 0 fs_device w w3" by (rule quiet_trans [OF quiet_trans [OF w1(2) w2(2)] w3(2)])
  ultimately show thesis by (rule that)
qed

text \<open>The move whose owner is at its destination, and its journal in a file of its own.\<close>

definition resumed_move :: owner_move where
  "resumed_move = \<lparr>om_kind = Data_extent, om_transaction_id = 1, om_inode = 1, om_logical_block = 0, om_source_block = 20,
     om_destination_block = 10, om_block_count = 2, om_unwritten = False, om_tree_depth = 0\<rparr>"

definition resumed_records :: "journal_record list" where
  "resumed_records = [commit_record Rec_relocation_intent resumed_move, commit_record Rec_copy_verified resumed_move]"

definition resumed_journal :: journal where
  "resumed_journal = \<lparr>j_device = (sample_device 16384)\<lparr>bd_fd := 1\<rparr>, j_status = created_status sample_identity, j_writable = True\<rparr>"

definition resumed_image :: bytes where
  "resumed_image = put_bytes 3072 [0x1f, 6, 0x18] owner_image"

definition resumed_world :: world where
  "resumed_world = (sample_world resumed_image [])\<lparr>w_files := (w_files (sample_world resumed_image []))
     (1 := w_files (sample_world (created_image sample_identity 8192) []) 1)\<rparr>"

lemma resumed_world_disk: "resumed_disk resumed_world"
proof -
  have sub: "get_bytes 3072 1024 resumed_image = [0x1f, 6, 0x18] @ get_bytes 3075 1021 owner_image"
    using owner_image_parts(1) by (auto simp: resumed_image_def put_bytes_def get_bytes_def)
  have "get_bytes 3075 1021 owner_image = drop 3 (get_bytes 3072 1024 owner_image)" by (simp add: get_bytes_def drop_take)
  also have "\<dots> = replicate 1021 0" unfolding owner_image_parts(4) by (simp add: numeral_eq_Suc)
  finally have bm: "get_bytes 3072 1024 resumed_image = fs_bitmap" using sub by (simp add: fs_bitmap_def)
  have ino: "get_bytes 5120 128 resumed_image = sample_inode"
  proof -
    have "get_bytes 5120 128 owner_image = take 128 (get_bytes 5120 1024 owner_image)" by (simp add: get_bytes_def)
    then show ?thesis by (simp add: resumed_image_def buf_simps owner_image_parts sample_inode_fields)
  qed
  show ?thesis
    using bm ino
    by (simp add: resumed_disk_def resumed_world_def sample_world_def sample_device_def calm_def fault_enabled_def on_file_def off_t_max_def)
      (simp add: resumed_image_def buf_simps owner_image_parts)
qed

lemma resumed_journal_start:
  obtains j w where "resumed_disk w" "logs 20 j resumed_records w" "j_device j = (sample_device 16384)\<lparr>bd_fd := 1\<rparr>"
    "js_record_count (j_status j) = 2" "js_identity (j_status j) = sample_identity"
proof -
  let ?j = resumed_journal and ?w = resumed_world
  have dev: "j_device ?j = (sample_device 16384)\<lparr>bd_fd := 1\<rparr>" "bd_fd (j_device ?j) = 1" "bd_writable (j_device ?j)" "j_writable ?j"
    by (simp_all add: resumed_journal_def sample_device_def)
  have on: "on_file (j_device ?j) ?w" "data_of (j_device ?j) ?w = created_image sample_identity 8192" "calm ?w"
    using resumed_world_disk
    by (simp_all add: resumed_journal_def resumed_world_def sample_world_def sample_device_def on_file_def off_t_max_def created_image_def resumed_disk_def)
  have inv: "journal_inv (j_status ?j) [] (data_of (j_device ?j) ?w)" using created_inv [OF sample_identity_ok] on(2) by (simp add: resumed_journal_def)
  have st: "identity_ok (js_identity (j_status ?j))" "js_record_count (j_status ?j) = 0" "js_header_sequence (j_status ?j) = 1"
    by (simp_all add: resumed_journal_def created_status_def empty_status_def)
  have cap: "unat (capacity_records (j_device ?j)) = 64"
    by (simp add: capacity_records_def resumed_journal_def sample_device_def records_offset_def record_bytes_def header_bytes_def)
  obtain j w where a: "append_batch resumed_records ?j ?w = (Inr (), j, w)" "quiet 1 (j_device ?j) ?w w"
      "j = ?j\<lparr>j_status := batch_status resumed_records (j_status ?j)\<rparr>"
    using quiet_append [OF on(3,1) dev(3,4) st(1), of resumed_records] by (auto simp: cap st(2) dev(2) resumed_records_def)
  have out: "journal_inv (j_status j) ([] @ number_from (js_record_count (j_status ?j)) resumed_records) (data_of (j_device ?j) w)" "on_file (j_device ?j) w"
    using append_batch_outcomes [OF a(1) dev(4) _ on(1) inv] st(3) by (auto simp: resumed_records_def)
  have "resumed_disk w"
  proof -
    have "w_files w 0 = w_files ?w 0" "calm w" "w_cancel w = w_cancel ?w" using a(2) by (simp_all add: quiet_def others_kept_def)
    then show ?thesis using resumed_world_disk by (simp add: resumed_disk_def on_file_def sample_device_def)
  qed
  moreover have "logs 20 j resumed_records w"
    unfolding logs_def using out a(3) dev st by (intro conjI exI [of _ "number_from 0 resumed_records"]) simp_all
  ultimately show thesis using a(3) dev(1) st by (intro that [of w j]) (simp_all add: resumed_records_def resumed_journal_def created_status_def empty_status_def)
qed

lemma resumed_announced: "announced resumed_records resumed_move" "\<not> seen resumed_records Rec_owner_switched 1" "legal resumed_records"
proof -
  show "announced resumed_records resumed_move" "\<not> seen resumed_records Rec_owner_switched 1"
    by (simp_all add: announced_def resumed_records_def resumed_move_def seen_def first_intent_def commit_record_def move_record_def same_move_def)
  show "legal resumed_records"
    using legal_snoc [of "[]" "commit_record Rec_relocation_intent resumed_move"]
      legal_snoc [of "[commit_record Rec_relocation_intent resumed_move]" "commit_record Rec_copy_verified resumed_move"]
    by (simp add: resumed_records_def legal_def [of "[]"] legal_at_def first_intent_def same_move_def)
      (simp add: resumed_move_def commit_record_def move_record_def same_move_def)
qed

definition resumed_plan :: owner_relocation_plan where
  "resumed_plan = \<lparr>op_block_size = 1024, op_target_blocks = 16, op_target_bytes = 16384, op_data_blocks_to_move = 2, op_tree_blocks_to_move = 0,
     op_unknown_allocated_blocks_above_target = 0, op_fixed_metadata_blocks_above_target = 0, op_legacy_blockmap_inodes = 0,
     op_allocated_inodes = 1, op_extent_inodes = 1, op_complete_owner_coverage = True, op_destinations_available = True,
     op_moves = [resumed_move]\<rparr>"

definition resumed_options :: commit_options where
  "resumed_options = \<lparr>co_journal_path = ''journal'', co_allow_block_device = False, co_verify_metadata_after = False,
     co_leave_filesystem_dirty = True\<rparr>"

abbreviation journal_device :: block_device where "journal_device \<equiv> (sample_device 16384)\<lparr>bd_fd := 1\<rparr>"

text \<open>A journal that has room for \<open>n\<close> more records.\<close>

definition roomy :: "nat \<Rightarrow> journal \<Rightarrow> world \<Rightarrow> bool" where
  "roomy n j w \<longleftrightarrow> calm w \<and> on_file journal_device w \<and> j_device j = journal_device \<and> j_writable j \<and> js_identity (j_status j) = sample_identity
     \<and> unat (js_record_count (j_status j)) + n \<le> 64"

lemma journal_device_facts: "unat (capacity_records journal_device) = 64" "bd_fd journal_device = 1" "bd_writable journal_device"
  by (simp_all add: capacity_records_def sample_device_def records_offset_def record_bytes_def header_bytes_def)

lemma roomy_quiet: "roomy n j w \<Longrightarrow> quiet 0 fs_device w w' \<Longrightarrow> roomy n j w'"
  by (auto simp: roomy_def quiet_def others_kept_def on_file_def)

lemma roomy_append:
  assumes "roomy (Suc n) j w"
  obtains j' w' where "on_journal (journal_append r) j w = (Inr j', w')" "roomy n j' w'" "w_files w' 0 = w_files w 0" "w_cancel w' = w_cancel w"
proof -
  obtain j' w' where a: "append_batch [r] j w = (Inr (), j', w')" "quiet (bd_fd (j_device j)) (j_device j) w w'"
      "j' = j\<lparr>j_status := batch_status [r] (j_status j)\<rparr>"
    using assms journal_device_facts quiet_append [of w j "[r]"] by (auto simp: roomy_def)
  have "unat (js_record_count (j_status j) + 1) = Suc (unat (js_record_count (j_status j)))"
    using assms by (intro unat_Suc) (simp add: roomy_def)
  then have "roomy n j' w'" "w_files w' 0 = w_files w 0" "w_cancel w' = w_cancel w"
    using a(2,3) assms by (auto simp: roomy_def quiet_def others_kept_def)
  then show thesis using a(1) by (intro that [of j' w']) (simp_all add: on_journal_def journal_append_def)
qed

lemma roomy_checkpoint:
  assumes "roomy (Suc n) j w"
  obtains j' w' where "on_journal (checkpoint ph) j w = (Inr j', w')" "roomy n j' w'" "w_files w' 0 = w_files w 0" "w_cancel w' = w_cancel w"
proof -
  obtain j1 w1 where j1: "on_journal (journal_append (checkpoint_record ph (j_status j))) j w = (Inr j1, w1)" "roomy n j1 w1"
    "w_files w1 0 = w_files w 0" "w_cancel w1 = w_cancel w"
    using roomy_append [OF assms] .
  then have a: "journal_append (checkpoint_record ph (j_status j)) j w = (Inr (), j1, w1)" by (auto simp: on_journal_def split: prod.splits sum.splits)
  let ?seq = "js_header_sequence (j_status j1) + 1" and ?d = "journal_device"
  let ?hdr = "encode_header (js_identity (j_status j1)) ?seq ph (js_record_count (j_status j1))"
  have c: "calm w1" "on_file ?d w1" "j_device j1 = ?d" "j_writable j1" using j1(2) by (simp_all add: roomy_def)
  have "length (data_of ?d w1) = 16384" using c(2) by (simp add: on_file_def sample_device_def)
  then have rng: "unat ((?seq AND 1) * header_bytes) + length ?hdr \<le> length (data_of ?d w1)"
    using slot_cases [of ?seq] j1(2) by (auto simp: slot_address roomy_def)
  obtain w2 where w2: "write_exact ?d ((?seq AND 1) * header_bytes) ?hdr w1 = (Inr (), w2)" "quiet (bd_fd ?d) ?d w1 w2"
    using quiet_write [OF c(1,2) journal_device_facts(3) rng] by blast
  obtain w3 where w3: "flush ?d w2 = (Inr (), w3)" "quiet (bd_fd ?d) ?d w2 w3"
    using quiet_flush [of w2 ?d] w2(2) unfolding quiet_def by blast
  have "on_journal (checkpoint ph) j w = (Inr (j1\<lparr>j_status := (j_status j1)\<lparr>js_header_sequence := ?seq, js_phase := ph\<rparr>\<rparr>), w3)"
    using assms a c w2(1) w3(1) by (simp add: on_journal_def checkpoint_def roomy_def bind_io_def write_header_def Let_def)
  moreover have "quiet (bd_fd ?d) ?d w1 w3" using w2(2) w3(2) by (rule quiet_trans)
  ultimately show thesis using j1(2-4) by (intro that [of _ w3]) (auto simp: roomy_def quiet_def others_kept_def)
qed

lemma disk_kept: "resumed_disk w \<Longrightarrow> w_files w' 0 = w_files w 0 \<Longrightarrow> w_cancel w' = w_cancel w \<Longrightarrow> calm w' \<Longrightarrow> resumed_disk w'"
  by (simp add: resumed_disk_def on_file_def sample_device_def)

lemma resumed_steps:
  assumes "resumed_disk w"
  shows "current_data_owner (\<lambda>xs. xs) fs_device resumed_move w = (Inr 10, w)"
    "allocation_state fs_device sample_context 20 2 w = (Inr \<lparr>ra_all_set = True, ra_all_clear = False\<rparr>, w)"
    "allocation_state fs_device sample_context 10 2 w = (Inr \<lparr>ra_all_set = True, ra_all_clear = False\<rparr>, w)"
proof -
  show "current_data_owner (\<lambda>xs. xs) fs_device resumed_move w = (Inr 10, w)"
    using disk_owner [OF assms] by (simp add: current_data_owner_def bind_io_def resumed_move_def sample_extent_def)
qed (use disk_alloc [OF assms] in simp_all)

lemma resumed_commit:
  assumes "resumed_disk w" "roomy (Suc (Suc n)) j w"
  obtains j' w' where "commit_move (\<lambda>xs. xs) fs_device sample_context 1024 vs resumed_move j w = (Inr j', w')" "roomy n j' w'" "w_cancel w' = []"
proof -
  note m = resumed_steps [OF assms(1)]
  obtain w1 where w1: "set_allocation_range fs_device sample_context 20 2 False w = (Inr (), w1)" "quiet 0 fs_device w w1"
    using disk_release [OF assms(1)] .
  obtain j2 w2 where j2: "on_journal (journal_append (commit_record Rec_source_released resumed_move)) j w1 = (Inr j2, w2)" "roomy (Suc n) j2 w2"
      "w_cancel w2 = w_cancel w1"
    using roomy_append [OF roomy_quiet [OF assms(2) w1(2)]] .
  obtain j3 w3 where j3: "on_journal (journal_append (commit_record Rec_metadata_committed resumed_move)) j2 w2 = (Inr j3, w3)" "roomy n j3 w3"
      "w_cancel w3 = w_cancel w2"
    using roomy_append [OF j2(2)] .
  have f: "om_kind resumed_move = Data_extent" "om_source_block resumed_move = 20" "om_destination_block resumed_move = 10" "om_block_count resumed_move = 2"
    by (simp_all add: resumed_move_def)
  have "commit_move (\<lambda>xs. xs) fs_device sample_context 1024 vs resumed_move j w = (Inr j3, w3)"
    using m w1(1) j2(1) j3(1)
    by (simp add: commit_move_def bind_io_def f check_owner_def reserve_destination_def switch_owner_def release_source_def)
  then show thesis using j3(2,3) j2(3) w1(2) assms(1) by (intro that) (simp_all add: quiet_def resumed_disk_def)
qed

lemma resumed_start:
  obtains j w where "resumed_disk w" "logs 20 j resumed_records w" "roomy 8 j w"
proof -
  obtain j w where j: "resumed_disk w" "logs 20 j resumed_records w" "j_device j = journal_device"
    "js_record_count (j_status j) = 2" "js_identity (j_status j) = sample_identity"
    using resumed_journal_start .
  then have "roomy 8 j w" by (auto simp: roomy_def logs_def resumed_disk_def)
  with j show thesis by (intro that)
qed

theorem resumed_release_rejected_witness:
  "\<exists>j w j' w' h full. resumed_disk w \<and> commit_move (\<lambda>xs. xs) fs_device sample_context 1024 resumed_records resumed_move j w = (Inr j', w')
     \<and> load_image (data_of (j_device j) w') = Inr (h, full)
     \<and> map jr_type full = [Rec_relocation_intent, Rec_copy_verified, Rec_source_released, Rec_metadata_committed]
     \<and> \<not> vr_clean (validate_records (\<lambda>_. []) (dh_phase h) full)"
proof -
  obtain j w where j: "resumed_disk w" "logs 20 j resumed_records w" "roomy 8 j w" by (rule resumed_start)
  have "roomy (Suc (Suc 6)) j w" using j(3) by (simp add: numeral_eq_Suc)
  then obtain j' w' where run: "commit_move (\<lambda>xs. xs) fs_device sample_context 1024 resumed_records resumed_move j w = (Inr j', w')"
    by (rule resumed_commit [OF j(1)])
  have fd: "bd_fd fs_device \<noteq> bd_fd (j_device j)" using j(3) by (simp add: roomy_def sample_device_def)
  have held: "logs 2 j resumed_records w" using j(2) by (rule logs_less) simp
  have f: "om_kind resumed_move = Data_extent" "om_source_block resumed_move = 20" "om_destination_block resumed_move = 10"
    "om_block_count resumed_move = 2" "om_transaction_id resumed_move = 1"
    by (simp_all add: resumed_move_def)
  obtain h full where h: "load_image (data_of (j_device j) w') = Inr (h, full)"
      "unnumbered full = unnumbered (resumed_records @ [commit_record Rec_source_released resumed_move, commit_record Rec_metadata_committed resumed_move])"
      "\<not> vr_clean (validate_records (\<lambda>_. []) (dh_phase h) full)"
    using resumed_release_rejected [OF run fd _ _ _ _ _ held resumed_announced(1), where s = "\<lparr>ra_all_set = True, ra_all_clear = False\<rparr>"
        and t = "\<lparr>ra_all_set = True, ra_all_clear = False\<rparr>" and walk = "\<lambda>_. []"] resumed_steps [OF j(1)] resumed_announced(2)
    unfolding f by auto
  have "map jr_type (unnumbered full) = map jr_type full" by (simp add: unnumbered_def)
  then show ?thesis using j(1) run h
    by (intro exI [of _ j] exI [of _ w] exI [of _ j'] exI [of _ w'] exI [of _ h] exI [of _ full]) (simp add: resumed_records_def)
qed

lemma resumed_apply:
  assumes "resumed_disk w" "roomy 8 j w"
  obtains rep w' where "commit_apply (\<lambda>xs. xs) fs_device sample_context resumed_plan resumed_options vs j w = (Inr rep, w')" "\<not> cm_paused rep"
proof -
  have r: "roomy (Suc 7) j w" using assms(2) by simp
  obtain j1 w1 where j1: "on_journal (checkpoint Phase_metadata_finalize) j w = (Inr j1, w1)" "roomy 7 j1 w1" "w_files w1 0 = w_files w 0"
    "w_cancel w1 = w_cancel w"
    by (rule roomy_checkpoint [OF r])
  have d1: "resumed_disk w1" using j1(2-4) by (intro disk_kept [OF assms(1)]) (simp_all add: roomy_def)
  have "roomy (Suc (Suc 5)) j1 w1" using j1(2) by simp
  then obtain j2 w2 where j2: "commit_move (\<lambda>xs. xs) fs_device sample_context 1024 vs resumed_move j1 w1 = (Inr j2, w2)" "roomy 5 j2 w2" "w_cancel w2 = []"
    by (rule resumed_commit [OF d1])
  have "roomy (Suc 4) j2 w2" using j2(2) by simp
  then obtain j3 w3 where j3: "on_journal (checkpoint Phase_compacted) j2 w2 = (Inr j3, w3)"
    by (rule roomy_checkpoint)
  have c: "cancellation_requested w1 = (Inr False, w1)" using d1 by (simp add: cancellation_requested_def resumed_disk_def)
  have st: "sb_state (mc_sb sample_context) = 0" by (simp add: sample_context_def)
  have "commit_apply (\<lambda>xs. xs) fs_device sample_context resumed_plan resumed_options vs j w
      = (Inr ((count_move 1024 resumed_move (empty_commit resumed_plan))\<lparr>cm_complete := True\<rparr>), w3)"
    using j1(1) j2(1) j3(1) c
    by (simp add: commit_apply_def commit_begin_def commit_finish_def bind_io_def st resumed_plan_def resumed_options_def count_move_def empty_commit_def)
  then show thesis by (rule that) (simp add: count_move_def empty_commit_def)
qed


end
