(* ===== verification/Fsx_Commit_Allocation.thy ===== *)
theory Fsx_Commit_Allocation
  imports Fsx_Commit_Bitmap Fsx_Commit_Journal
begin

text \<open>The claims about the allocation bitmaps under the metadata commit, with the sample filesystem as their witness.\<close>

lemma used_map_range:
  assumes "sb_ok sb" and "unat (sb_first_data_block sb) \<le> s" and "e \<le> unat (sb_blocks_count sb)"
  shows "(\<forall>(b, u) \<in> set (used_map sb D). b \<in> {s..<e} \<longrightarrow> P u) \<longleftrightarrow> (\<forall>b \<in> {s..<e}. P (block_used sb D b))"
  using assms(2,3) by (auto simp: used_map_blocks [OF assms(1)])


text \<open>C34. The query of a range is exact: it always ends and writes nothing, and when it returns a state, the range is a nonempty
  part of the blocks of the filesystem, all of which are used (free) exactly when the state says so.\<close>

theorem allocation_state_exact:
  assumes "sb_ok (mc_sb ctx)" and "allocation_state d ctx start len w = (r, w')"
  shows "let used = used_map (mc_sb ctx) (data_of d w); R = {unat start..<unat start + unat len} in
      r \<noteq> Inl Diverged \<and> w_files w' = w_files w
      \<and> (\<forall>st. r = Inr st \<longrightarrow> R \<noteq> {} \<and> R \<subseteq> fst ` set used
           \<and> (ra_all_set st \<longleftrightarrow> (\<forall>(b, u) \<in> set used. b \<in> R \<longrightarrow> u)) \<and> (ra_all_clear st \<longleftrightarrow> (\<forall>(b, u) \<in> set used. b \<in> R \<longrightarrow> \<not> u)))"
proof -
  let ?sb = "mc_sb ctx" and ?N = "unat (sb_blocks_count (mc_sb ctx))" and ?f = "unat (sb_first_data_block (mc_sb ctx))"
  have fl: "w_files w' = w_files w" by (rule pure_step [OF pure_commit(1) assms(2)])
  show ?thesis
  proof (cases "len = 0 \<or> start \<ge> sb_blocks_count ?sb \<or> len > sb_blocks_count ?sb - start \<or> unat start < ?f")
    case True
    then have "\<exists>e. r = Inl (Failed e)"
      using assms(2) allocation_loop.simps [of d ?sb start len]
      by (auto simp: allocation_state_def Let_def word_less_nat_alt word_nat split: if_split_asm)
    then show ?thesis using fl by auto
  next
    case False
    then have c: "len \<noteq> 0" "start < sb_blocks_count ?sb" "len \<le> sb_blocks_count ?sb - start" "?f \<le> unat start" by auto
    have e: "unat start + unat len \<le> ?N" using c(2,3) by (simp add: word_le_nat_alt word_less_nat_alt unat_sub_le)
    have run: "allocation_loop d ?sb start len \<lparr>ra_all_set = True, ra_all_clear = True\<rparr> w = (r, w')"
      using assms(2) c by (simp add: allocation_state_def Let_def not_le [symmetric])
    have "r \<noteq> Inl Diverged" using loop_ends [OF assms(1) c(4) e, of d] run by (auto simp: ends_def) (metis fst_conv)
    moreover have "noted ?sb (data_of d w) (unat start) (unat start + unat len) st" if "r = Inr st" for st
      using readsD(2) [OF reads_allocation_loop [OF assms(1) order_refl c(4) refl e, where F = "w_files w" and d = d] refl run that]
      by (simp add: noted_def)
    moreover have "0 < unat len" using c(1) by (simp add: unat_gt_0)
    ultimately show ?thesis
      using fl c(4) e used_map_range [OF assms(1) c(4) e, of "data_of d w" "\<lambda>u. u"] used_map_range [OF assms(1) c(4) e, of "data_of d w" Not]
      by (auto simp: Let_def noted_def used_map_blocks [OF assms(1)] image_iff)
  qed
qed


text \<open>The sample filesystem: one group, its descriptor at byte 2048 and its block bitmap in block 3.\<close>

lemma sample_context_sb: "mc_sb sample_context = sample_sb\<lparr>sb_state := 0\<rparr>"
  by (simp add: sample_context_def)

lemma sample_sb_ok: "sb_ok sample_sb" "sb_ok (sample_sb\<lparr>sb_state := 0\<rparr>)"
  using check_superblock_ok(1) [OF sample_check] by (simp_all add: sb_ok_def)

lemma resumed_bitmaps:
  defines "D \<equiv> data_of fs_device resumed_world"
  shows "bitmaps_apart (mc_sb sample_context) D" and "counters_fit (mc_sb sample_context)" and "on_file fs_device resumed_world"
    and "length D < 2 ^ 64"
proof -
  have disk: "length D = 65536" "get_bytes 2048 32 D = sample_desc" and on: "on_file fs_device resumed_world"
    using resumed_world_disk by (simp_all add: resumed_disk_def D_def Let_def)
  show "on_file fs_device resumed_world" "length D < 2 ^ 64" using on disk(1) by simp_all
  have one: "g < 1 \<longleftrightarrow> g = 0" for g :: u64 by (simp add: word_less_nat_alt word_unat_eq_iff)
  have "desc_of (sample_sb\<lparr>sb_state := 0\<rparr>) D 0 = sample_gd"
    by (simp add: desc_of_def disk_eval disk(2) sample_gd_def parse_group_desc_def)
  then show "bitmaps_apart (mc_sb sample_context) D"
    by (simp add: sample_context_sb bitmaps_apart_def one sample_groups table_end_def table_start_def desc_at_def desc_bytes_def bitmap_at_def
        disk(1) sample_sb_fields sample_gd_fields)
  show "counters_fit (mc_sb sample_context)" by (simp add: sample_context_sb counters_fit_def sample_sb_fields)
qed


theorem allocation_state_exact_witness:
  "allocation_state fs_device sample_context 20 2 resumed_world = (Inr \<lparr>ra_all_set = True, ra_all_clear = False\<rparr>, resumed_world)
     \<and> filter (\<lambda>(b, u). b \<in> {20..<22} \<and> \<not> u) (used_map (mc_sb sample_context) (data_of fs_device resumed_world)) = []"
proof -
  have run: "allocation_state fs_device sample_context 20 2 resumed_world = (Inr \<lparr>ra_all_set = True, ra_all_clear = False\<rparr>, resumed_world)"
    using disk_alloc [OF resumed_world_disk] by simp
  have "{unat (20 :: u64)..<unat (20 :: u64) + unat (2 :: u64)} = {20..<22 :: nat}" by simp
  with run allocation_state_exact [OF sample_sb_ok(2) [folded sample_context_sb] run] show ?thesis
    by (auto simp: Let_def filter_empty_conv)
qed

end
