(* ===== verification/Fsx_Resize_Writes.thy ===== *)
theory Fsx_Resize_Writes
  imports Fsx_Resize Fsx_Commit_Allocation
begin

text \<open>
  What the two kinds of writes of a resize leave on the disk, finished or interrupted: the superblock with its backups
  (\<^verbatim>\<open>write_super_copies\<close>), and bitmap, descriptor and descriptor copies of the last block group. The laws name the
  area that a write may touch; everything outside is unchanged.
\<close>

section \<open>Powers\<close>

lemma divide_out_power:
  assumes "0 < unat n" and "1 < unat base"
  shows "divide_out n base = 1 \<longleftrightarrow> (\<exists>k. unat n = unat base ^ k)"
  using assms
proof (induction n base rule: divide_out.induct)
  case (1 n base)
  have pos: "0 < n" "1 < base" using "1.prems" by (simp_all add: word_less_nat_alt)
  show ?case
  proof (cases "n mod base = 0")
    case True
    have m: "unat n = unat (n div base) * unat base"
      using True by (metis div_mult_mod_eq add.right_neutral unat_0 unat_div unat_mod)
    then have q: "0 < unat (n div base)" using "1.prems" by (cases "unat (n div base)") auto
    have "divide_out n base = 1 \<longleftrightarrow> (\<exists>k. unat (n div base) = unat base ^ k)"
      using "1.IH" [OF _ q "1.prems"(2)] True pos by (simp add: divide_out.simps [of n])
    also have "\<dots> \<longleftrightarrow> (\<exists>k. unat n = unat base ^ Suc k)" using m "1.prems"(2) by (auto simp: mult.commute)
    also have "\<dots> \<longleftrightarrow> (\<exists>k. unat n = unat base ^ k)"
    proof -
      have "unat n \<noteq> 1"
      proof
        assume "unat n = 1"
        then have "unat base = 1" using m q by (metis nat_mult_eq_1_iff)
        then show False using "1.prems"(2) by simp
      qed
      then show ?thesis by (metis not0_implies_Suc power_0)
    qed
    finally show ?thesis .
  next
    case False
    have "unat n mod unat base \<noteq> 0" using False by (metis unat_0 unat_mod word_unat_eq_iff)
    then have "unat n = unat base ^ k \<Longrightarrow> k = 0" for k by (cases k) auto
    then have "(\<exists>k. unat n = unat base ^ k) \<longleftrightarrow> unat n = 1" by (metis power_0)
    then show ?thesis using False by (simp add: divide_out.simps [of n] word_unat_eq_iff)
  qed
qed

lemma is_power_iff: "1 < unat base \<Longrightarrow> is_power n base \<longleftrightarrow> (\<exists>k. unat n = unat base ^ k)"
  using divide_out_power [of n base] by (auto simp: is_power_def word_less_nat_alt)

section \<open>Areas of the disk\<close>

definition unchanged_outside :: "(nat \<Rightarrow> bool) \<Rightarrow> bytes \<Rightarrow> bytes \<Rightarrow> bool" where
  "unchanged_outside A D D' \<longleftrightarrow> length D' = length D \<and> (\<forall>k < length D. \<not> A k \<longrightarrow> D' ! k = D ! k)"

lemma unchanged_refl [simp]: "unchanged_outside A D D"
  by (simp add: unchanged_outside_def)

lemma unchanged_trans: "unchanged_outside A D D1 \<Longrightarrow> unchanged_outside A D1 D2 \<Longrightarrow> unchanged_outside A D D2"
  by (simp add: unchanged_outside_def)

lemma unchanged_mono: "unchanged_outside A D D' \<Longrightarrow> (\<And>k. A k \<Longrightarrow> B k) \<Longrightarrow> unchanged_outside B D D'"
  by (auto simp: unchanged_outside_def)

lemma unchanged_put:
  assumes "off + length s \<le> length D" and "\<And>k. off \<le> k \<Longrightarrow> k < off + length s \<Longrightarrow> A k"
  shows "unchanged_outside A D (put_bytes off s D)"
  using assms by (auto simp: unchanged_outside_def nth_put_bytes)

lemma unchanged_get:
  assumes "unchanged_outside A D D'" and "\<And>k. off \<le> k \<Longrightarrow> k < off + n \<Longrightarrow> \<not> A k" and "off + n \<le> length D"
  shows "get_bytes off n D' = get_bytes off n D"
  using assms by (intro nth_equalityI) (auto simp: unchanged_outside_def nth_get_bytes)

abbreviation super_of :: "bytes \<Rightarrow> bytes" where "super_of D \<equiv> get_bytes 1024 1024 D"

definition backup_at :: "superblock \<Rightarrow> u64 \<Rightarrow> nat" where
  "backup_at sb g = unat (group_start_block sb g) * unat (block_size sb)"

definition super_area :: "(u64 \<Rightarrow> bool) \<Rightarrow> superblock \<Rightarrow> nat \<Rightarrow> bool" where
  "super_area H sb k \<longleftrightarrow> 1024 \<le> k \<and> k < 2048
     \<or> (\<exists>g. 0 < g \<and> g < groups_count sb \<and> H g \<and> backup_at sb g \<le> k \<and> k < backup_at sb g + 1024)"

abbreviation last_group :: "superblock \<Rightarrow> u64" where "last_group sb \<equiv> groups_count sb - 1"

definition desc_copy_at :: "superblock \<Rightarrow> u64 \<Rightarrow> nat" where
  "desc_copy_at sb g = (unat (group_start_block sb g) + 1) * unat (block_size sb) + unat (last_group sb) * unat (desc_bytes sb)"

definition group_area :: "(u64 \<Rightarrow> bool) \<Rightarrow> superblock \<Rightarrow> bytes \<Rightarrow> nat \<Rightarrow> bool" where
  "group_area H sb D k \<longleftrightarrow> bitmap_at sb D (last_group sb) \<le> k \<and> k < bitmap_at sb D (last_group sb) + unat (block_size sb)
     \<or> desc_at sb (last_group sb) \<le> k \<and> k < desc_at sb (last_group sb) + unat (desc_bytes sb)
     \<or> (\<exists>g. 0 < g \<and> g < groups_count sb \<and> H g \<and> desc_copy_at sb g \<le> k \<and> k < desc_copy_at sb g + unat (desc_bytes sb))"

text \<open>The superblock lies before the first backup.\<close>

definition super_first :: "superblock \<Rightarrow> bool" where
  "super_first sb \<longleftrightarrow> 2048 \<le> (unat (sb_first_data_block sb) + unat (sb_blocks_per_group sb)) * unat (block_size sb)"

lemma later_groups_iff: "g \<in> set (later_groups sb) \<longleftrightarrow> 0 < g \<and> g < groups_count sb"
proof -
  have u: "unat (of_nat i :: u64) = i" if "i < unat (groups_count sb)" for i
    using that unat_lt_64 [of "groups_count sb"] by (simp add: unat_of_nat take_bit_nat_eq_self)
  show ?thesis
    using u by (auto simp: later_groups_def word_less_nat_alt image_iff intro!: bexI [of _ "unat g"])
qed

lemma backup_after_super:
  assumes "sb_ok sb" and "super_first sb" and "0 < g" and "g < groups_count sb"
  shows "2048 \<le> backup_at sb g"
proof -
  have "unat (sb_first_data_block sb) + unat (sb_blocks_per_group sb) \<le> unat (group_start_block sb g)"
    using group_start_nat(1) [OF assms(1,4)] assms(3) mult_le_mono1 [of 1 "unat g" "unat (sb_blocks_per_group sb)"]
    by (simp add: word_less_nat_alt)
  from assms(2) [unfolded super_first_def] mult_le_mono1 [OF this, of "unat (block_size sb)"] show ?thesis
    unfolding backup_at_def by (rule order_trans)
qed

section \<open>Writing the copies of the superblock\<close>

text \<open>What may be on the disk while a superblock \<open>p\<close> is written: a prefix of it, or all of it.\<close>

definition super_torn :: "(u64 \<Rightarrow> bool) \<Rightarrow> superblock \<Rightarrow> bytes \<Rightarrow> bytes \<Rightarrow> bytes \<Rightarrow> bool" where
  "super_torn H sb p D D' \<longleftrightarrow> unchanged_outside (super_area H sb) D D'
     \<and> ((\<exists>k. D' = put_bytes 1024 (take k p) D) \<or> super_of D' = p)"

definition super_done :: "(u64 \<Rightarrow> bool) \<Rightarrow> superblock \<Rightarrow> bytes \<Rightarrow> bytes \<Rightarrow> bytes \<Rightarrow> bool" where
  "super_done H sb p D D' \<longleftrightarrow> unchanged_outside (super_area H sb) D D' \<and> super_of D' = p"

lemma super_done_torn: "super_done H sb p D D' \<Longrightarrow> super_torn H sb p D D'"
  by (simp add: super_done_def super_torn_def)

lemma copy_supers_triple:
  assumes ok: "sb_ok sb" and first: "super_first sb" and fits: "\<And>D U. J D U \<Longrightarrow> unat (sb_blocks_count sb) * unat (block_size sb) \<le> length D \<and> length D < 2 ^ 64"
    and p: "length p = 1024" and hp: "\<And>g. group_has_super p g \<Longrightarrow> H g" and gs: "\<forall>g \<in> set gs. 0 < g \<and> g < groups_count sb"
  shows "triple (bytes_are d (\<lambda>D U. \<exists>D1. J D1 U \<and> super_done H sb p D1 D)) (copy_supers d sb p gs)
    (\<lambda>_. bytes_are d (\<lambda>D U. U = D \<and> (\<exists>D1 U1. J D1 U1 \<and> super_done H sb p D1 D)))
    (bytes_are d (\<lambda>D U. \<exists>D1 U1. J D1 U1 \<and> super_torn H sb p D1 D \<and> (U = U1 \<or> U = D)))"
  (is "triple ?P _ ?Q ?E")
  using gs
proof (induction gs)
  case Nil
  show ?case unfolding copy_supers.simps by (rule triple_flush) (blast dest: super_done_torn)+
next
  case (Cons g gs)
  have PE: "?E w" if "?P w" for w using that super_done_torn unfolding bytes_are_def by blast
  have w: "triple ?P (write_exact d (group_start_block sb g * block_size sb) copy) (\<lambda>_. ?P) ?E" if has: "group_has_super p g" and l: "length copy = 1024" for copy
  proof -
    have g: "0 < g" "g < groups_count sb" "H g" using Cons.prems hp [OF has] by simp_all
    note at = backup_after_super [OF ok first g(1,2)]
    have st: "group_start_block sb g < sb_blocks_count sb" using group_start_nat(2) [OF ok g(2)] by (simp add: word_less_nat_alt)
    have step: "backup_at sb g + 1024 \<le> length D \<and> unat (group_start_block sb g * block_size sb) = backup_at sb g
        \<and> super_done H sb p D1 (put_bytes (backup_at sb g) (take k copy) D)"
      if "J D1 U" "super_done H sb p D1 D" for D1 U D k
    proof -
      have f: "unat (sb_blocks_count sb) * unat (block_size sb) \<le> length D1" "length D1 < 2 ^ 64" using fits [OF that(1)] by simp_all
      have lD: "length D = length D1" using that(2) by (simp add: super_done_def unchanged_outside_def)
      note bo = block_offset [OF ok f(1) f(2) st]
      have b: "1024 \<le> unat (block_size sb)" using ok by (simp add: sb_ok_def)
      have in_D: "backup_at sb g + 1024 \<le> length D" using bo(2) b lD by (simp add: backup_at_def)
      have "unchanged_outside (super_area H sb) D (put_bytes (backup_at sb g) (take k copy) D)"
        using in_D l g by (intro unchanged_put) (auto simp: super_area_def)
      moreover have "super_of (put_bytes (backup_at sb g) (take k copy) D) = super_of D"
        using at in_D l by (intro get_put_other) auto
      ultimately show ?thesis using that(2) in_D bo(1) unchanged_trans by (auto simp: super_done_def backup_at_def)
    qed
    show ?thesis
    proof (rule triple_write)
      fix D U assume "\<exists>D1. J D1 U \<and> super_done H sb p D1 D"
      then obtain D1 where D1: "J D1 U" "super_done H sb p D1 D" by blast
      note s = step [OF D1]
      show "unat (group_start_block sb g * block_size sb) + length copy \<le> length D" using s l by auto
      show "\<exists>D1. J D1 U \<and> super_done H sb p D1 (put_bytes (unat (group_start_block sb g * block_size sb)) copy D)"
        using s [of 1024] D1(1) l by auto
      show "\<exists>D1 U1. J D1 U1 \<and> super_torn H sb p D1 (put_bytes (unat (group_start_block sb g * block_size sb)) (take k copy) D)
          \<and> (U = U1 \<or> U = put_bytes (unat (group_start_block sb g * block_size sb)) (take k copy) D)" for k
        using s [of k] D1(1) super_done_torn by metis
    qed
  qed
  have lc: "length copy = 1024" if "update_superblock_checksum (write_le16 p 0x5a x) = Inr copy" for x copy
    using that p by (auto simp: update_superblock_checksum_def split: if_split_asm)
  show ?case
    unfolding copy_supers.simps Let_def
  proof (rule triple_if)
    show "triple ?P (copy_supers d sb p gs) ?Q ?E" using Cons by simp
    assume "\<not> \<not> group_has_super p g"
    then have has: "group_has_super p g" by simp
    show "triple ?P (if sb_blocks_count sb \<le> group_start_block sb g \<or> group_start_block sb g > u64_max div block_size sb
        then fail_io Errc_corrupt ''backup superblock address is outside filesystem''
        else bind_io (lift_io (update_superblock_checksum (write_le16 p 0x5a (ucast g)))) (\<lambda>copy.
          bind_io (write_exact d (group_start_block sb g * block_size sb) copy) (\<lambda>_. copy_supers d sb p gs))) ?Q ?E"
      by (rule triple_if, rule triple_fail [OF PE], assumption, rule triple_lift_bind [OF _ PE], rule triple_bind [OF w [OF has lc]], assumption)
        (use Cons in simp_all)
  qed
qed

lemma super_copies_triple:
  assumes ok: "sb_ok (mc_sb ctx)" and first: "super_first (mc_sb ctx)"
    and fits: "\<And>D U. J D U \<Longrightarrow> unat (sb_blocks_count (mc_sb ctx)) * unat (block_size (mc_sb ctx)) \<le> length D \<and> length D < 2 ^ 64 \<and> 2048 \<le> length D"
    and p: "length p = 1024" and hp: "\<And>g. group_has_super p g \<Longrightarrow> H g"
  shows "triple (bytes_are d J) (write_super_copies d ctx p)
    (\<lambda>_. bytes_are d (\<lambda>D U. U = D \<and> (\<exists>D1 U1. J D1 U1 \<and> super_done H (mc_sb ctx) p D1 D)))
    (bytes_are d (\<lambda>D U. \<exists>D1 U1. J D1 U1 \<and> super_torn H (mc_sb ctx) p D1 D \<and> (U = U1 \<or> U = D)))"
  (is "triple ?P _ ?Q ?E")
proof -
  let ?sb = "mc_sb ctx"
  have torn: "super_torn H ?sb p D (put_bytes 1024 (take k p) D)" if "J D U" for D U k
    using fits [OF that] p by (auto simp: super_torn_def super_area_def intro!: unchanged_put)
  have whole: "super_done H ?sb p D (put_bytes 1024 p D)" if "J D U" for D U
    using fits [OF that] p by (auto simp: super_done_def super_area_def get_put_same intro!: unchanged_put)
  have PE: "?E w" if "?P w" for w
    using that torn [of _ _ 0] unfolding bytes_are_def by (fastforce simp: put_bytes_Nil)
  have w: "triple ?P (write_exact d 1024 p) (\<lambda>_. bytes_are d (\<lambda>D U. \<exists>D1. J D1 U \<and> super_done H ?sb p D1 D)) ?E"
  proof (rule triple_write)
    show "unat (1024 :: u64) + length p \<le> length D" if "J D U" for D U using fits [OF that] p by simp
    show "\<exists>D1 U1. J D1 U1 \<and> super_torn H ?sb p D1 (put_bytes (unat (1024 :: u64)) (take k p) D)
        \<and> (U = U1 \<or> U = put_bytes (unat (1024 :: u64)) (take k p) D)" if "J D U" for D U k
      using torn [OF that, of k] that by auto
    show "\<exists>D1. J D1 U \<and> super_done H ?sb p D1 (put_bytes (unat (1024 :: u64)) p D)" if "J D U" for D U
      using whole [OF that] that by auto
  qed
  have c: "triple (bytes_are d (\<lambda>D U. \<exists>D1. J D1 U \<and> super_done H ?sb p D1 D)) (copy_supers d ?sb p (later_groups ?sb)) ?Q ?E"
    by (rule copy_supers_triple [OF ok first _ p hp]) (use fits later_groups_iff in blast)+
  show ?thesis
    unfolding write_super_copies_def write_raw_superblock_def
    by (rule triple_if, rule triple_fail [OF PE], assumption, rule triple_bind [OF _ c], simp add: p, rule w)
qed


section \<open>The last group\<close>

text \<open>A write that does not fit the device fails and changes nothing.\<close>

lemma write_outside:
  assumes "write_exact d off b w = (r, w')" and "on_file d w" and "length (data_of d w) < unat off + length b"
  shows "w_files w' = w_files w \<and> r \<noteq> Inr ()"
  using assms(1) unfolding write_exact_def
proof (cases rule: bind_io_cases)
  case (failed e)
  then show ?thesis using fault_hook_files [OF failed(1)] by simp
next
  case (step u w1)
  have "unat (g_size_bytes (bd_geometry d)) < unat off \<or> unat (g_size_bytes (bd_geometry d)) - unat off < length b"
    using assms(2,3) by (auto simp: on_file_def)
  then show ?thesis using step(2) fault_hook_files [OF step(1)] by (auto split: if_split_asm)
qed

lemma triple_write_any:
  assumes "\<And>D U. J D U \<Longrightarrow> E D U"
    and "\<And>D U k. J D U \<Longrightarrow> unat off + length b \<le> length D \<Longrightarrow> E (put_bytes (unat off) (take k b) D) U"
    and "\<And>D U. J D U \<Longrightarrow> unat off + length b \<le> length D \<Longrightarrow> Q (put_bytes (unat off) b D) U"
  shows "triple (bytes_are d J) (write_exact d off b) (\<lambda>_. bytes_are d Q) (bytes_are d E)"
proof (rule tripleI)
  fix w r w' assume j: "bytes_are d J w" and run: "write_exact d off b w = (r, w')"
  have on: "on_file d w" and J: "J (data_of d w) (f_durable (w_files w (bd_fd d)))" using j by (simp_all add: bytes_are_def)
  show "case r of Inr x \<Rightarrow> bytes_are d Q w' | Inl _ \<Rightarrow> bytes_are d E w'"
  proof (cases "unat off + length b \<le> length (data_of d w)")
    case True
    let ?K = "\<lambda>D U. J D U \<and> unat off + length b \<le> length D"
    have "triple (bytes_are d ?K) (write_exact d off b) (\<lambda>_. bytes_are d Q) (bytes_are d E)"
      by (rule triple_write) (use assms in blast)+
    then show ?thesis using j True run unfolding triple_def bytes_are_def by blast
  next
    case False
    then have "w_files w' = w_files w" "r \<noteq> Inr ()" using write_outside [OF run on] by simp_all
    then show ?thesis using J assms(1) on on_file_files [of w' w d] by (cases r) (auto simp: bytes_are_def)
  qed
qed

definition copies_area :: "(u64 \<Rightarrow> bool) \<Rightarrow> superblock \<Rightarrow> nat \<Rightarrow> bool" where
  "copies_area H sb k \<longleftrightarrow> super_area H sb k
     \<or> (\<exists>g. 0 < g \<and> g < groups_count sb \<and> H g \<and> desc_copy_at sb g \<le> k \<and> k < desc_copy_at sb g + unat (desc_bytes sb))"

text \<open>A sane layout: superblock, its backups and the copies of the last descriptor are apart from bitmaps and descriptors.\<close>

definition resize_layout :: "(u64 \<Rightarrow> bool) \<Rightarrow> superblock \<Rightarrow> bytes \<Rightarrow> bool" where
  "resize_layout H sb D \<longleftrightarrow> bitmaps_apart sb D \<and> super_first sb \<and> 2048 \<le> length D \<and> (\<forall>k. copies_area H sb k \<longrightarrow> \<not> in_bitmaps sb D k)"

lemma unchanged_bitmaps:
  assumes ok: "sb_ok sb" and a: "bitmaps_apart sb D" and len: "length D < 2 ^ 64"
    and u: "unchanged_outside A D D'" and A: "\<And>k. A k \<Longrightarrow> \<not> in_bitmaps sb D k" and h: "h < groups_count sb"
  shows "desc_raw sb D' h = desc_raw sb D h" and "bitmap_of sb D' h = bitmap_of sb D h"
proof -
  have t: "table_end sb \<le> length D" using a by (simp add: bitmaps_apart_def)
  have lD: "length D' = length D" using u by (simp add: unchanged_outside_def)
  have "get_bytes (desc_at sb h) (unat (desc_bytes sb)) D' = get_bytes (desc_at sb h) (unat (desc_bytes sb)) D"
  proof (rule unchanged_get [OF u])
    show "\<not> A k" if "desc_at sb h \<le> k" "k < desc_at sb h + unat (desc_bytes sb)" for k
    proof -
      have "in_bitmaps sb D k" using that desc_slot [OF h] by (auto simp: in_bitmaps_def desc_at_def)
      then show ?thesis using A by blast
    qed
  qed (use desc_slot [OF h] t in simp)
  then show raw: "desc_raw sb D' h = desc_raw sb D h" using desc_raw_at(2) [OF h] t lD len by simp
  have "bitmap_of sb D' h = get_bytes (bitmap_at sb D h) (unat (block_size sb)) D'"
    using bitmap_of_at(1) [OF a h ok len] by (simp add: bitmap_of_def desc_of_raw raw)
  also have "\<dots> = get_bytes (bitmap_at sb D h) (unat (block_size sb)) D"
  proof (rule unchanged_get [OF u])
    show "\<not> A k" if "bitmap_at sb D h \<le> k" "k < bitmap_at sb D h + unat (block_size sb)" for k
    proof -
      have "in_bitmaps sb D k" using that h by (auto simp: in_bitmaps_def)
      then show ?thesis using A by blast
    qed
  qed (rule bitmap_of_at(3) [OF a h ok len])
  finally show "bitmap_of sb D' h = bitmap_of sb D h" using bitmap_of_at(2) [OF a h ok len] by simp
qed

lemma desc_copies_triple:
  assumes ok: "sb_ok sb" and fits: "\<And>D U. J D U \<Longrightarrow> unat (sb_blocks_count sb) * unat (block_size sb) \<le> length D \<and> length D < 2 ^ 64"
    and off: "unat desc_off = unat (last_group sb) * unat (desc_bytes sb)" and l: "length desc = unat (desc_bytes sb)"
    and hp: "\<And>g. group_has_super super g \<Longrightarrow> H g" and gs: "\<forall>g \<in> set gs. 0 < g \<and> g < groups_count sb"
    and C: "C = (\<lambda>k. \<exists>g. 0 < g \<and> g < groups_count sb \<and> H g \<and> desc_copy_at sb g \<le> k \<and> k < desc_copy_at sb g + unat (desc_bytes sb))"
  shows "triple (bytes_are d (\<lambda>D U. \<exists>D1. J D1 U \<and> unchanged_outside C D1 D)) (copy_descs d sb super desc_off desc gs)
    (\<lambda>_. bytes_are d (\<lambda>D U. \<exists>D1. J D1 U \<and> unchanged_outside C D1 D)) (bytes_are d (\<lambda>D U. \<exists>D1. J D1 U \<and> unchanged_outside C D1 D))"
  (is "triple ?P _ ?Q ?E")
  using gs
proof (induction gs)
  case Nil
  show ?case by (simp add: triple_def return_io_def)
next
  case (Cons g gs)
  have ih: "triple ?P (copy_descs d sb super desc_off desc gs) ?Q ?E" using Cons by simp
  have g: "0 < g" "g < groups_count sb" using Cons.prems by simp_all
  let ?s = "group_start_block sb g" and ?bs = "block_size sb"
  have w: "triple ?P (write_exact d ((?s + 1) * ?bs + desc_off) desc) ?Q ?E"
    if has: "\<not> \<not> group_has_super super g" and c: "\<not> (sb_blocks_count sb - 1 \<le> ?s \<or> u64_max div ?bs < ?s + 1)" "\<not> u64_max - (?s + 1) * ?bs < desc_off"
  proof -
    have N: "unat (sb_blocks_count sb - 1) = unat (sb_blocks_count sb) - 1"
      using ok by (simp add: sb_ok_def unat_sub_le word_le_nat_alt)
    have s1: "unat (?s + 1) = unat ?s + 1" "?s + 1 < sb_blocks_count sb"
      using c(1) N unat_lt_64 [of "sb_blocks_count sb"] by (auto simp: word_le_nat_alt word_less_nat_alt not_le unat_add_le)
    have at: "unat ((?s + 1) * ?bs + desc_off) = desc_copy_at sb g" if "J D1 U" for D1 U
    proof -
      have f: "unat (sb_blocks_count sb) * unat ?bs \<le> length D1" "length D1 < 2 ^ 64" using fits [OF that] by simp_all
      have m: "unat ((?s + 1) * ?bs) = (unat ?s + 1) * unat ?bs" using block_offset(1) [OF ok f s1(2)] s1(1) by simp
      have "unat ((?s + 1) * ?bs) + unat desc_off < 2 ^ 64"
        using c(2) unat_lt_64 [of "(?s + 1) * ?bs"]
        by (simp add: word_less_nat_alt unat_sub_le word_le_nat_alt unsigned_minus_1_eq_mask mask_eq_exp_minus_1)
      then show ?thesis using m off by (simp add: unat_add_le desc_copy_at_def)
    qed
    have frame: "unchanged_outside C D1 (put_bytes (unat ((?s + 1) * ?bs + desc_off)) (take k desc) D)"
      if "J D1 U" "unchanged_outside C D1 D" "unat ((?s + 1) * ?bs + desc_off) + length desc \<le> length D" for D1 U D k
    proof (rule unchanged_trans [OF that(2)], rule unchanged_put)
      show "C j" if j: "unat ((?s + 1) * ?bs + desc_off) \<le> j" "j < unat ((?s + 1) * ?bs + desc_off) + length (take k desc)" for j
        unfolding C using j at [OF \<open>J D1 U\<close>] l g hp has by (intro exI [of _ g]) auto
    qed (use that(3) in simp)
    show ?thesis
    proof (rule triple_write_any)
      show "\<exists>D1. J D1 U \<and> unchanged_outside C D1 (put_bytes (unat ((?s + 1) * ?bs + desc_off)) desc D)"
        if "\<exists>D1. J D1 U \<and> unchanged_outside C D1 D" "unat ((?s + 1) * ?bs + desc_off) + length desc \<le> length D" for D U
        using that frame [of _ U D "length desc"] by auto
    qed (use frame in blast)+
  qed
  show ?case
    unfolding copy_descs.simps Let_def
    by (rule triple_if, rule ih, rule triple_if, rule triple_fail, assumption, rule triple_if, rule triple_fail, assumption,
        rule triple_bind [OF w ih], assumption+)
qed


text \<open>The update of the last group: bitmap, descriptor, copies of the descriptor, flush.\<close>

definition group_updated :: "(u64 \<Rightarrow> bool) \<Rightarrow> superblock \<Rightarrow> bytes \<Rightarrow> bytes \<Rightarrow> bytes \<Rightarrow> bytes \<Rightarrow> bool" where
  "group_updated H sb bm gd D D' \<longleftrightarrow> unchanged_outside (group_area H sb D) D D' \<and> same_layout sb D D'
     \<and> (\<forall>h < groups_count sb. bitmap_of sb D' h = (if h = last_group sb then bm else bitmap_of sb D h)
          \<and> desc_raw sb D' h = (if h = last_group sb then gd else desc_raw sb D h))"

lemma last_group_less: "sb_ok sb \<Longrightarrow> last_group sb < groups_count sb"
proof -
  assume ok: "sb_ok sb"
  have f: "unat (sb_first_data_block sb) < unat (sb_blocks_count sb)" using ok by (simp add: sb_ok_def)
  have "(0 :: u64) < groups_count sb"
    using group_of_block(3) [OF ok order_refl f] by (simp add: word_less_nat_alt)
  then show ?thesis by (simp add: word_less_nat_alt unat_sub_le word_le_nat_alt)
qed

lemma group_update_triple:
  assumes ok: "sb_ok (mc_sb ctx)" and lay: "resize_layout H (mc_sb ctx) D1" and len: "length D1 < 2 ^ 64"
    and start: "\<And>w. w_files w = F \<Longrightarrow> bytes_are d (\<lambda>D U. D = D1 \<and> U = U1) w"
    and boff: "unat boff = bitmap_at (mc_sb ctx) D1 (last_group (mc_sb ctx))"
    and lb: "length bm = unat (block_size (mc_sb ctx))" and lg: "length gd = unat (desc_bytes (mc_sb ctx))"
    and keep: "\<And>m. gd_block_bitmap (parse_group_desc (mc_sb ctx) (if sb_desc_size (mc_sb ctx) \<ge> 32 then sb_desc_size (mc_sb ctx) else 32)
        (put_bytes 0 (take m gd) (desc_raw (mc_sb ctx) D1 (last_group (mc_sb ctx))))) = gd_block_bitmap (desc_of (mc_sb ctx) D1 (last_group (mc_sb ctx)))"
    and rl: "length (desc_raw (mc_sb ctx) D1 (last_group (mc_sb ctx))) = unat (desc_bytes (mc_sb ctx))"
    and hp: "\<And>g. group_has_super super g \<Longrightarrow> H g"
  shows "triple (\<lambda>w. w_files w = F) (bind_io (write_exact d boff bm) (\<lambda>_. bind_io (write_group_descriptor_raw d ctx (last_group (mc_sb ctx)) gd)
      (\<lambda>_. bind_io (write_group_desc_backups d ctx super (last_group (mc_sb ctx)) gd) (\<lambda>_. flush d))))
    (\<lambda>_. bytes_are d (\<lambda>D U. U = D \<and> group_updated H (mc_sb ctx) bm gd D1 D))
    (bytes_are d (\<lambda>D U. unchanged_outside (group_area H (mc_sb ctx) D1) D1 D \<and> (U = U1 \<or> U = D)))"
  (is "triple ?P _ ?Q ?E")
proof -
  let ?sb = "mc_sb ctx" and ?l = "last_group (mc_sb ctx)"
  let ?C = "\<lambda>k. \<exists>g. 0 < g \<and> g < groups_count ?sb \<and> H g \<and> desc_copy_at ?sb g \<le> k \<and> k < desc_copy_at ?sb g + unat (desc_bytes ?sb)"
  have l: "?l < groups_count ?sb" by (rule last_group_less [OF ok])
  have a: "bitmaps_apart ?sb D1" and apart: "\<And>k. copies_area H ?sb k \<Longrightarrow> \<not> in_bitmaps ?sb D1 k" using lay by (simp_all add: resize_layout_def)
  have te: "table_end ?sb \<le> length D1" and fs: "unat (sb_blocks_count ?sb) * unat (block_size ?sb) \<le> length D1"
    using a by (simp_all add: bitmaps_apart_def)
  let ?out = "\<lambda>m k. put_bytes (desc_at ?sb ?l) (take m gd) (put_bytes (bitmap_at ?sb D1 ?l) (take k bm) D1)"
  let ?B = "\<lambda>k. put_bytes (bitmap_at ?sb D1 ?l) (take k bm) D1"
  note bl = bitmap_of_at [OF a l ok len]
  have s1: "length (take k bm) \<le> unat (block_size ?sb)" for k using lb by simp
  note p1 = put_bitmap [OF a l ok len s1]
  have u1: "unchanged_outside (group_area H ?sb D1) D1 (?B k)" for k
    using bl(3) lb by (intro unchanged_put) (auto simp: group_area_def)
  have lB: "length (?B k) = length D1" for k using u1 by (simp add: unchanged_outside_def)
  have a1: "bitmaps_apart ?sb (?B k)" "length (?B k) < 2 ^ 64" for k using same_layout_facts(2) [OF p1(2)] a lB len by simp_all
  have s2: "length (take m gd) \<le> unat (desc_bytes ?sb)" for m using lg by simp
  have keep': "gd_block_bitmap (parse_group_desc ?sb (if sb_desc_size ?sb \<ge> 32 then sb_desc_size ?sb else 32)
        (put_bytes 0 (take m gd) (desc_raw ?sb (?B k) ?l))) = gd_block_bitmap (desc_of ?sb (?B k) ?l)" for m k
    using keep p1(1) [OF l] by (simp add: desc_of_raw)
  note p2 = put_desc [OF a1(1) l ok a1(2) s2 keep']
  have torn: "unchanged_outside (group_area H ?sb D1) D1 (?out m k)" for m k
    by (rule unchanged_trans [OF u1 [of k]], rule unchanged_put) (use desc_slot [OF l] te lB [of k] lg in \<open>auto simp: group_area_def\<close>)
  have full: "group_updated H ?sb bm gd D1 (?out (length gd) (length bm))"
    unfolding group_updated_def
  proof (intro conjI allI impI torn)
    show "same_layout ?sb D1 (?out (length gd) (length bm))" using p1(2) p2(2) by (rule same_layout_trans)
    show "bitmap_of ?sb (?out (length gd) (length bm)) h = (if h = ?l then bm else bitmap_of ?sb D1 h)" if "h < groups_count ?sb" for h
      using p1(3) [OF that, of "length bm"] p2(3) [OF that, of "length gd" "length bm"] lb bl(2,3) put_prefix_bits(2) [of bm "bitmap_of ?sb D1 ?l" "length bm"] by simp
    show "desc_raw ?sb (?out (length gd) (length bm)) h = (if h = ?l then gd else desc_raw ?sb D1 h)" if "h < groups_count ?sb" for h
      using p1(1) [OF that, of "length bm"] p1(1) [OF l, of "length bm"] p2(1) [OF that, of "length gd" "length bm"] lg rl
      by (simp add: put_bytes_def)
  qed
  have step1: "triple ?P (bind_io (write_exact d boff bm) (\<lambda>_. write_group_descriptor_raw d ctx ?l gd))
      (\<lambda>_. bytes_are d (\<lambda>D U. group_updated H ?sb bm gd D1 D \<and> U = U1)) (bytes_are d (\<lambda>D U. unchanged_outside (group_area H ?sb D1) D1 D \<and> U = U1))"
    by (rule two_writes [where K = "\<lambda>U. U = U1" and A = "unchanged_outside (group_area H ?sb D1) D1" and B = "group_updated H ?sb bm gd D1",
          OF start l te len boff _ lg torn full])
      (use bl(3) lb in simp_all)
  have copied: "group_updated H ?sb bm gd D1 D'" if "group_updated H ?sb bm gd D1 D" "unchanged_outside ?C D D'" for D D'
  proof -
    have ly: "same_layout ?sb D1 D" using that(1) by (simp add: group_updated_def)
    have aD: "bitmaps_apart ?sb D" "length D < 2 ^ 64" using same_layout_facts(2) [OF ly] a ly len by (simp_all add: same_layout_def)
    have C: "\<not> in_bitmaps ?sb D k" if "?C k" for k
      using apart [of k] that same_layout_facts(3) [OF ly] by (auto simp: copies_area_def)
    note ub = unchanged_bitmaps [OF ok aD that(2) C]
    have "unchanged_outside (group_area H ?sb D1) D D'" using that(2) by (rule unchanged_mono) (auto simp: group_area_def)
    moreover have "same_layout ?sb D D'" using that(2) ub(1) by (simp add: same_layout_def desc_of_raw unchanged_outside_def)
    ultimately show ?thesis using that(1) ub unchanged_trans same_layout_trans unfolding group_updated_def by fastforce
  qed
  let ?J = "\<lambda>D U. group_updated H ?sb bm gd D1 D \<and> U = U1"
  have off: "unat (?l * desc_bytes ?sb) = unat ?l * unat (desc_bytes ?sb)"
    using desc_slot [OF l] te len by (intro unat_mult_le) (simp add: desc_at_def)
  have c: "triple (bytes_are d (\<lambda>D U. \<exists>D2. ?J D2 U \<and> unchanged_outside ?C D2 D)) (copy_descs d ?sb super (?l * desc_bytes ?sb) gd (later_groups ?sb))
      (\<lambda>_. bytes_are d (\<lambda>D U. \<exists>D2. ?J D2 U \<and> unchanged_outside ?C D2 D)) (bytes_are d (\<lambda>D U. \<exists>D2. ?J D2 U \<and> unchanged_outside ?C D2 D))"
  proof (rule desc_copies_triple [OF ok _ off lg hp _ refl])
    show "unat (sb_blocks_count ?sb) * unat (block_size ?sb) \<le> length D \<and> length D < 2 ^ 64" if "?J D U" for D U
      using that fs len by (simp add: group_updated_def unchanged_outside_def)
  qed (simp_all add: later_groups_iff)
  have QE: "bytes_are d (\<lambda>D U. unchanged_outside (group_area H ?sb D1) D1 D \<and> (U = U1 \<or> U = D)) w" if "bytes_are d ?J w" for w
    using that by (auto simp: bytes_are_def group_updated_def)
  have c': "triple (bytes_are d ?J) (copy_descs d ?sb super (?l * desc_bytes ?sb) gd (later_groups ?sb)) (\<lambda>_. bytes_are d ?J) ?E"
  proof (rule triple_conseq [OF c])
    show home: "bytes_are d ?J w" if "bytes_are d (\<lambda>D U. \<exists>D2. ?J D2 U \<and> unchanged_outside ?C D2 D) w" for w
      using that copied unfolding bytes_are_def by blast
    then show "?E w" if "bytes_are d (\<lambda>D U. \<exists>D2. ?J D2 U \<and> unchanged_outside ?C D2 D) w" for w using that QE by blast
    show "bytes_are d (\<lambda>D U. \<exists>D2. ?J D2 U \<and> unchanged_outside ?C D2 D) w" if "bytes_are d ?J w" for w
      using that unchanged_refl unfolding bytes_are_def by blast
  qed
  have b: "triple (bytes_are d ?J) (write_group_desc_backups d ctx super ?l gd) (\<lambda>_. bytes_are d ?J) ?E"
    unfolding write_group_desc_backups_def Let_def
    by (rule triple_if, rule triple_fail [OF QE], assumption, rule triple_if, rule triple_fail [OF QE], assumption, rule c')
  have f: "triple (bytes_are d ?J) (flush d) ?Q ?E"
    by (rule triple_flush) (auto simp: group_updated_def)
  have s1': "triple ?P (bind_io (write_exact d boff bm) (\<lambda>_. write_group_descriptor_raw d ctx ?l gd)) (\<lambda>_. bytes_are d ?J) ?E"
    by (rule triple_conseq [OF step1]) (auto simp: bytes_are_def)
  show ?thesis
    using triple_bind [OF s1' triple_bind [OF b f]] unfolding bind_io_assoc by simp
qed

end
