(* ===== verification/Fsx_Resize_Laws.thy ===== *)
theory Fsx_Resize_Laws
  imports Fsx_Resize_Writes
begin

text \<open>
  The steps of a shrink on the disk: the superblock of the smaller filesystem and its fields, the marked tail of the last
  block group, the states that an interrupted shrink may leave (\<open>shrink_safe\<close>), and the filesystem that a finished one
  leaves (\<open>shrink_done\<close>), for \<^verbatim>\<open>finalize_metadata_only_shrink\<close> after its checks.
\<close>

section \<open>The state of the superblock\<close>

definition marked_clean :: "bytes \<Rightarrow> bool" where
  "marked_clean D \<longleftrightarrow> sb_state (parse_superblock (super_of D)) AND 1 \<noteq> 0"

lemma state_byte: "0x3b < length p \<Longrightarrow> read_le16 p 0x3a AND 1 \<noteq> 0 \<longleftrightarrow> bit (p ! 0x3a) 0"
proof -
  have "read_le16 p 0x3a AND 1 \<noteq> 0 \<longleftrightarrow> bit (read_le16 p 0x3a) 0" by (simp add: and_one_eq mod2_eq_if bit_0)
  also have "\<dots> \<longleftrightarrow> bit (read_le_wide 2 p 0x3a) 0" by (simp add: read_le16_def bit_simps)
  also have "\<dots> \<longleftrightarrow> bit (p ! 0x3a) 0" by (simp add: bit_read_le_wide)
  finally show ?thesis .
qed

lemma marked_clean_byte: "2048 \<le> length D \<Longrightarrow> marked_clean D \<longleftrightarrow> bit (D ! (1024 + 0x3a)) 0"
  using state_byte [of "super_of D"] nth_get_bytes [of 1024 1024 D "0x3a"]
  by (simp add: marked_clean_def parse_superblock_def Let_def)

lemma with_state_fields:
  assumes "with_state p s = Inr q" and "length p = 1024"
  shows "length q = 1024" and "i < 0x3a \<Longrightarrow> q ! i = p ! i" and "read_le16 q 0x3a = s" and "verify_superblock_checksum q"
    and "\<And>off n. off + n \<le> 0x3fc \<Longrightarrow> off + n \<le> 0x3a \<or> 0x3c \<le> off \<Longrightarrow> get_bytes off n q = get_bytes off n p"
proof -
  let ?w = "write_le16 p 0x3a s"
  have q: "q = ?w \<or> q = write_le32 ?w 0x3fc (crc32c (take 0x3fc ?w) 0xffffffff)"
    using assms by (auto simp: with_state_def update_superblock_checksum_def split: if_split_asm)
  show "length q = 1024" using q assms(2) by auto
  show "q ! i = p ! i" if "i < 0x3a" using q assms(2) that by (auto simp: write_le16_def write_le32_def nth_write_le_loop)
  show "read_le16 q 0x3a = s" using q assms(2) by (auto simp: buf_simps)
  show "verify_superblock_checksum q"
    using assms by (auto simp: with_state_def update_superblock_checksum_def verify_superblock_checksum_def buf_simps split: if_split_asm)
  show "get_bytes off n q = get_bytes off n p" if "off + n \<le> 0x3fc" "off + n \<le> 0x3a \<or> 0x3c \<le> off" for off n
    using q assms(2) that by (auto simp: buf_simps)
qed


text \<open>Superblocks as records.\<close>

lemma parse_with_state:
  assumes "with_state p s = Inr q" and "length p = 1024"
  shows "parse_superblock q = (parse_superblock p)\<lparr>sb_state := s\<rparr>"
proof -
  let ?w = "write_le16 p 0x3a s"
  have q: "q = ?w \<or> q = write_le32 ?w 0x3fc (crc32c (take 0x3fc ?w) 0xffffffff)"
    using assms by (auto simp: with_state_def update_superblock_checksum_def split: if_split_asm)
  have r32: "read_le32 q off = read_le32 p off" if "off + 4 \<le> 0x3fc" "off + 4 \<le> 0x3a \<or> 0x3c \<le> off" for off
    using q assms(2) that by (auto simp: buf_simps)
  have r16: "read_le16 q off = read_le16 p off" if "off + 2 \<le> 0x3fc" "off + 2 \<le> 0x3a \<or> 0x3c \<le> off" for off
    using q assms(2) that by (auto simp: buf_simps)
  show ?thesis
    using with_state_fields(3,5) [OF assms] by (simp add: parse_superblock_def Let_def with_hi_def r32 r16)
qed

text \<open>Which groups hold a copy is the same for all superblocks that the operation writes.\<close>

lemma with_state_has:
  assumes "with_state p s = Inr q" and "length p = 1024"
  shows "group_has_super q = group_has_super p"
proof -
  have "read_le32 q off = read_le32 p off" if "off + 4 \<le> 0x3fc" "0x3c \<le> off" for off
    using assms that by (auto simp: with_state_def update_superblock_checksum_def buf_simps split: if_split_asm)
  then show ?thesis by (simp add: group_has_super_def fun_eq_iff)
qed

lemma lohi_value:
  assumes "wide \<or> unat v < 2 ^ 32"
  shows "ucast (ucast v :: u32) OR push_bit 32 (if wide then ucast (ucast (drop_bit 32 v) :: u32) else 0) = (v :: u64)"
proof (cases wide)
  case True
  show ?thesis using True by (intro bit_word_eqI) (auto simp: bit_simps)
next
  case False
  then have "unat v < 2 ^ 32" using assms by simp
  then have "ucast (ucast v :: u32) = v" by (simp add: word_unat_eq_iff unsigned_ucast_eq unsigned_take_bit_eq take_bit_nat_eq_self)
  then show ?thesis using False by simp
qed

abbreviation wide_super :: "bytes \<Rightarrow> bool" where "wide_super b \<equiv> read_le32 b 0x60 AND INCOMPAT_64BIT \<noteq> 0"

lemma parse_set_lohi:
  assumes "length b = 1024" and "wide_super b \<or> unat v < 2 ^ 32"
  shows "parse_superblock (set_u64_lohi b 0x04 0x150 v) = (parse_superblock b)\<lparr>sb_blocks_count := v\<rparr>"
    and "parse_superblock (set_u64_lohi b 0x0c 0x158 v) = (parse_superblock b)\<lparr>sb_free_blocks := v\<rparr>"
    and "parse_superblock (set_u64_lohi b 0x08 0x154 v) = (parse_superblock b)\<lparr>sb_reserved_blocks := v\<rparr>"
    and "length (set_u64_lohi b 0x04 0x150 v) = 1024" "wide_super (set_u64_lohi b 0x04 0x150 v) = wide_super b"
    and "length (set_u64_lohi b 0x0c 0x158 v) = 1024" "wide_super (set_u64_lohi b 0x0c 0x158 v) = wide_super b"
    and "length (set_u64_lohi b 0x08 0x154 v) = 1024" "wide_super (set_u64_lohi b 0x08 0x154 v) = wide_super b"
  using assms lohi_value [of "wide_super b" v]
  by (simp_all add: parse_superblock_def Let_def with_hi_def set_u64_lohi_def buf_simps split: if_split_asm)

lemma wide_super_parse: "wide_super b \<longleftrightarrow> sb_feature_incompat (parse_superblock b) AND INCOMPAT_64BIT \<noteq> 0"
  by (simp add: parse_superblock_def Let_def)

lemma narrow_counts:
  assumes "\<not> wide_super b"
  shows "unat (sb_blocks_count (parse_superblock b)) < 2 ^ 32" and "unat (sb_free_blocks (parse_superblock b)) < 2 ^ 32"
    and "unat (sb_reserved_blocks (parse_superblock b)) < 2 ^ 32"
proof -
  have "unat (ucast (x :: u32) :: u64) < 2 ^ 32" for x using unsigned_less [of x, where 'a = nat] by (simp add: word_nat)
  then show "unat (sb_blocks_count (parse_superblock b)) < 2 ^ 32" "unat (sb_free_blocks (parse_superblock b)) < 2 ^ 32"
    "unat (sb_reserved_blocks (parse_superblock b)) < 2 ^ 32"
    using assms by (simp_all add: parse_superblock_def Let_def with_hi_def)
qed

text \<open>The superblock of the smaller filesystem, unclean and clean.\<close>

definition small_sb :: "superblock \<Rightarrow> u64 \<Rightarrow> superblock" where
  "small_sb sb target = sb\<lparr>sb_blocks_count := target, sb_free_blocks := sb_free_blocks sb - (sb_blocks_count sb - target),
     sb_reserved_blocks := (if sb_reserved_blocks sb > target then target div 20 else sb_reserved_blocks sb)\<rparr>"

lemma shrunk_super_parse:
  assumes p: "length p = 1024" "mc_sb ctx = parse_superblock p" and dirty: "with_state p s0 = Inr dirty"
    and small: "shrunk_super ctx target dirty state = Inr small" and clean: "with_state small (state OR 1) = Inr clean"
    and le: "target \<le> sb_blocks_count (mc_sb ctx)"
  shows "parse_superblock small = (small_sb (mc_sb ctx) target)\<lparr>sb_state := state AND NOT 1\<rparr>"
    and "parse_superblock clean = (small_sb (mc_sb ctx) target)\<lparr>sb_state := state OR 1\<rparr>"
    and "length small = 1024" "length clean = 1024" "length dirty = 1024" "verify_superblock_checksum clean"
    and "sb_blocks_count (mc_sb ctx) - target \<le> sb_free_blocks (mc_sb ctx)"
proof -
  let ?sb = "mc_sb ctx"
  let ?f = "sb_free_blocks ?sb - (sb_blocks_count ?sb - target)"
  let ?r = "if sb_reserved_blocks ?sb > target then target div 20 else sb_reserved_blocks ?sb"
  have enough: "sb_blocks_count ?sb - target \<le> sb_free_blocks ?sb"
    using small by (simp add: shrunk_super_def Let_def not_less split: if_split_asm)
  then show "sb_blocks_count ?sb - target \<le> sb_free_blocks ?sb" .
  note d = with_state_fields [OF dirty p(1)] and dp = parse_with_state [OF dirty p(1)]
  have w: "wide_super dirty = wide_super p" unfolding wide_super_parse dp by simp
  have fit: "wide_super dirty \<or> unat target < 2 ^ 32" "wide_super dirty \<or> unat ?f < 2 ^ 32" "wide_super dirty \<or> unat ?r < 2 ^ 32"
  proof -
    have t: "unat target < 2 ^ 32" if "\<not> wide_super p" using le narrow_counts(1) [OF that] p(2) by (simp add: word_le_nat_alt)
    then show "wide_super dirty \<or> unat target < 2 ^ 32" using w by blast
    have "unat ?f \<le> unat (sb_free_blocks ?sb)" using enough by (simp add: unat_sub_le)
    then show "wide_super dirty \<or> unat ?f < 2 ^ 32" using w narrow_counts(2) [of p] p(2) by fastforce
    have "unat (target div 20) \<le> unat target" by (simp add: unat_div)
    then show "wide_super dirty \<or> unat ?r < 2 ^ 32" using w t narrow_counts(3) [of p] unfolding p(2) by (auto intro: order.strict_trans1)
  qed
  let ?s1 = "set_u64_lohi dirty 0x04 0x150 target" let ?s2 = "set_u64_lohi ?s1 0x0c 0x158 ?f" let ?s3 = "set_u64_lohi ?s2 0x08 0x154 ?r"
  note l1 = parse_set_lohi [OF d(1) fit(1)]
  note l2 = parse_set_lohi [OF l1(4) fit(2) [folded l1(5)]]
  have fit3: "wide_super ?s2 \<or> unat ?r < 2 ^ 32" using fit(3) unfolding l2(7) l1(5) .
  note l3 = parse_set_lohi [OF l2(6) fit3]
  have ws: "with_state ?s3 (state AND NOT 1) = Inr small" using small enough by (simp add: shrunk_super_def Let_def not_less)
  show ps: "parse_superblock small = (small_sb ?sb target)\<lparr>sb_state := state AND NOT 1\<rparr>"
    using parse_with_state [OF ws l3(8)] l1(1) l2(2) l3(3) dp p(2) by (simp add: small_sb_def)
  note sm = with_state_fields [OF ws l3(8)]
  show "parse_superblock clean = (small_sb ?sb target)\<lparr>sb_state := state OR 1\<rparr>"
    using parse_with_state [OF clean sm(1)] ps by simp
  show "length small = 1024" "length clean = 1024" "length dirty = 1024" "verify_superblock_checksum clean"
    using sm(1) d(1) with_state_fields(1,4) [OF clean sm(1)] by simp_all
qed


section \<open>Shrinking the last group\<close>

lemma tail_bits: "set_tail_bit bm k = set_bitmap_bit bm k True" "clear_tail_bit bm k = set_bitmap_bit bm k False"
  by (simp_all add: set_tail_bit_def clear_tail_bit_def set_bitmap_bit_def Let_def)

lemma set_desc_free_eq: "set_desc_free = set_desc_free_blocks"
  by (simp add: fun_eq_iff set_desc_free_def set_desc_free_blocks_def)

lemma mark_tail_spec:
  assumes "mark_tail gs (map of_nat [a..<z]) bm = Inr bm'" and "unat gs \<le> a" and "z - unat gs \<le> 8 * length bm" and "z < 2 ^ 64"
  shows "length bm' = length bm \<and> (\<forall>k. bit_set bm' k \<longleftrightarrow> bit_set bm k \<or> a \<le> unat gs + unat k \<and> unat gs + unat k < z)
    \<and> (\<forall>k. a \<le> unat gs + unat k \<and> unat gs + unat k < z \<longrightarrow> \<not> bit_set bm k)"
  using assms
proof (induction "z - a" arbitrary: a bm)
  case 0
  then show ?case by auto
next
  case (Suc n)
  then have lt: "a < z" and cons: "[a..<z] = a # [Suc a..<z]" by (simp_all add: upt_conv_Cons)
  have ua: "unat (of_nat a :: u64) = a" using lt Suc.prems(4) by (simp add: unat_of_nat take_bit_nat_eq_self)
  let ?k = "of_nat a - gs :: u64"
  have le: "gs \<le> of_nat a" using ua Suc.prems(2) by (simp add: word_le_nat_alt)
  have uk: "unat ?k = a - unat gs" using unat_sub_le [OF le] ua by simp
  have b: "\<not> bit_set bm ?k" and rest: "mark_tail gs (map of_nat [Suc a..<z]) (set_tail_bit bm ?k) = Inr bm'"
    using Suc.prems(1) le by (auto simp: cons not_less [symmetric] split: if_split_asm)
  have "unat ?k < 8 * length bm" using uk lt Suc.prems(2,3) by linarith
  note up = bit_set_update [OF this, of True, folded tail_bits]
  have ih: "length bm' = length (set_tail_bit bm ?k)
      \<and> (\<forall>k. bit_set bm' k \<longleftrightarrow> bit_set (set_tail_bit bm ?k) k \<or> Suc a \<le> unat gs + unat k \<and> unat gs + unat k < z)
      \<and> (\<forall>k. Suc a \<le> unat gs + unat k \<and> unat gs + unat k < z \<longrightarrow> \<not> bit_set (set_tail_bit bm ?k) k)"
    using Suc.hyps Suc.prems up(2) rest by (intro Suc.hyps(1)) simp_all
  have eq: "k = ?k \<longleftrightarrow> unat gs + unat k = a" for k using uk Suc.prems(2) by (auto simp: word_unat_eq_iff)
  have sp: "a \<le> x \<longleftrightarrow> x = a \<or> Suc a \<le> x" for x by auto
  show ?case
  proof (intro conjI allI impI)
    show "length bm' = length bm" using ih up(2) by simp
    show "bit_set bm' k \<longleftrightarrow> bit_set bm k \<or> a \<le> unat gs + unat k \<and> unat gs + unat k < z" for k
      using ih up(1) [of k] eq [of k] lt unfolding sp by auto
    show "\<not> bit_set bm k" if "a \<le> unat gs + unat k \<and> unat gs + unat k < z" for k
      using that ih up(1) [of k] eq [of k] b unfolding sp by (metis Suc_n_not_le_n)
  qed
qed

lemma last_group_tail:
  assumes ok: "sb_ok sb"
  shows "unat (sb_blocks_count sb) - unat (group_start_block sb (last_group sb)) \<le> unat (sb_blocks_per_group sb)"
proof -
  let ?k = "unat (sb_blocks_per_group sb)"
  have k: "0 < ?k" using ok by (simp add: sb_ok_def)
  have l: "last_group sb < groups_count sb" by (rule last_group_less [OF ok])
  have "data_blocks sb + ?k - 1 < ?k * ((data_blocks sb + ?k - 1) div ?k) + ?k" using dividend_less_times_div [OF k] by (simp add: add.commute)
  then have d: "data_blocks sb \<le> unat (groups_count sb) * ?k" using k by (simp add: groups_count_nat [OF ok] mult.commute)
  have "unat (groups_count sb) = unat (last_group sb) + 1"
    using l by (simp add: word_less_nat_alt unat_sub_le word_le_nat_alt)
  then have "unat (groups_count sb) * ?k = unat (last_group sb) * ?k + ?k" by simp
  then show ?thesis using d group_start_nat(1) [OF ok l] by (simp add: data_blocks_def)
qed

text \<open>What the update of the last group leaves in bitmap and descriptor.\<close>

definition tail_marked :: "(u64 \<Rightarrow> bool) \<Rightarrow> metadata_context \<Rightarrow> u64 \<Rightarrow> bytes \<Rightarrow> bytes \<Rightarrow> bool" where
  "tail_marked H ctx target D D' \<longleftrightarrow> (\<exists>bm gd. group_updated H (mc_sb ctx) bm gd D D'
     \<and> mark_tail (group_start_block (mc_sb ctx) (last_group (mc_sb ctx))) (block_range target (sb_blocks_count (mc_sb ctx)))
         (bitmap_of (mc_sb ctx) D (last_group (mc_sb ctx))) = Inr bm)"

text \<open>Programs that start from known bytes.\<close>

lemma triple_files:
  assumes "\<And>F. (\<And>w. w_files w = F \<Longrightarrow> on_file d w) \<Longrightarrow> f_data (F (bd_fd d)) = D1 \<Longrightarrow> f_durable (F (bd_fd d)) = U1 \<Longrightarrow>
    triple (\<lambda>w. w_files w = F) m Q E"
  shows "triple (bytes_are d (\<lambda>D U. D = D1 \<and> U = U1)) m Q E"
  using assms unfolding triple_def bytes_are_def on_file_def by metis

lemma triple_point:
  assumes "\<And>D1 U1. J D1 U1 \<Longrightarrow> triple (bytes_are d (\<lambda>D U. D = D1 \<and> U = U1)) m Q E"
  shows "triple (bytes_are d J) m Q E"
  using assms unfolding triple_def bytes_are_def by metis

lemma shrink_group_triple:
  assumes ok: "sb_ok (mc_sb ctx)" and lay: "resize_layout H (mc_sb ctx) D1" and len: "length D1 < 2 ^ 64"
    and tgt: "group_start_block (mc_sb ctx) (last_group (mc_sb ctx)) \<le> target" and hp: "\<And>g. group_has_super super g \<Longrightarrow> H g"
  shows "triple (bytes_are d (\<lambda>D U. D = D1 \<and> U = U1)) (shrink_last_group d ctx target super)
    (\<lambda>_. bytes_are d (\<lambda>D U. U = D \<and> tail_marked H ctx target D1 D))
    (bytes_are d (\<lambda>D U. unchanged_outside (group_area H (mc_sb ctx) D1) D1 D \<and> (U = U1 \<or> U = D)))"
  (is "triple ?P ?m ?Q ?E")
proof -
  let ?sb = "mc_sb ctx" and ?l = "last_group (mc_sb ctx)"
  have l: "?l < groups_count ?sb" by (rule last_group_less [OF ok])
  have a: "bitmaps_apart ?sb D1" using lay by (simp add: resize_layout_def)
  note bl = bitmap_of_at [OF a l ok len]
  have "triple (\<lambda>w. w_files w = F) ?m ?Q ?E" if on: "\<And>w. w_files w = F \<Longrightarrow> on_file d w"
    and F: "f_data (F (bd_fd d)) = D1" "f_durable (F (bd_fd d)) = U1" for F
  proof -
    have start: "bytes_are d (\<lambda>D U. D = D1 \<and> U = U1) w" if "w_files w = F" for w
      using on [OF that] that F by (simp add: bytes_are_def)
    have E0: "?E w" if "w_files w = F" for w using start [OF that] by (auto simp: bytes_are_def)
    show ?thesis
      unfolding shrink_last_group_def Let_def
    proof (rule triple_reads_bind [OF reads_group_desc _ E0], rule triple_reads_bind [OF reads_desc_raw _ E0],
        rule triple_reads_bind [OF reads_block_bitmap _ E0], rule triple_lift_bind [OF _ E0], rule triple_if,
        rule triple_fail [OF E0], assumption, rule triple_lift_bind [OF _ E0], rule triple_lift_bind [OF _ E0])
      fix gd raw bm bm1 gd1 gd2
      assume gd: "gd = desc_of ?sb (f_data (F (bd_fd d))) ?l"
        and raw: "raw = desc_raw ?sb (f_data (F (bd_fd d))) ?l \<and> length raw = unat (desc_bytes ?sb)"
        and bm: "bm = get_bytes (unat (gd_block_bitmap gd * block_size ?sb)) (unat (block_size ?sb)) (f_data (F (bd_fd d)))"
        and mt: "mark_tail (group_start_block ?sb ?l) (block_range target (sb_blocks_count ?sb)) bm = Inr bm1"
        and bc: "update_block_bitmap_checksum ctx (set_desc_free raw (ucast (ucast (desc_free raw) - (sb_blocks_count ?sb - target)))) bm1 = Inr gd1"
        and gc: "update_group_descriptor_checksum ctx ?l gd1 = Inr gd2"
      have bm': "bm = bitmap_of ?sb D1 ?l" using bm gd F by (simp add: bitmap_of_def)
      have raw': "raw = desc_raw ?sb D1 ?l" using conjunct1 [OF raw] F by simp
      note lr = conjunct2 [OF raw]
      note nd = new_desc [OF bc [unfolded set_desc_free_eq] gc lr]
      have "unat (group_start_block ?sb ?l) \<le> unat target" "unat (sb_blocks_count ?sb) - unat (group_start_block ?sb ?l) \<le> 8 * length bm"
      proof -
        show "unat (group_start_block ?sb ?l) \<le> unat target" using tgt by (simp add: word_le_nat_alt)
        have "unat (sb_blocks_count ?sb) - unat (group_start_block ?sb ?l) \<le> unat (sb_blocks_per_group ?sb)"
          by (rule last_group_tail [OF ok])
        then show "unat (sb_blocks_count ?sb) - unat (group_start_block ?sb ?l) \<le> 8 * length bm" 
          using ok bl(2,3) bm' by (simp add: sb_ok_def)
      qed
      then have lb: "length bm1 = unat (block_size ?sb)"
        using mark_tail_spec [OF mt [unfolded block_range_def]] unat_lt_64 [of "sb_blocks_count ?sb"] bm' bl(2,3) by simp
      have keep: "gd_block_bitmap (parse_group_desc ?sb (if sb_desc_size ?sb \<ge> 32 then sb_desc_size ?sb else 32) (put_bytes 0 (take m gd2) (desc_raw ?sb D1 ?l)))
          = gd_block_bitmap (desc_of ?sb D1 ?l)" for m
        using torn_desc_keeps [OF nd(1) lr nd(4)] raw' by (simp add: desc_of_raw)
      have at: "unat (gd_block_bitmap gd * block_size ?sb) = bitmap_at ?sb D1 ?l" using bl(1) gd F by simp
      have lg: "length gd2 = unat (desc_bytes ?sb)" using nd(1) lr by simp
      have rl: "length (desc_raw ?sb D1 ?l) = unat (desc_bytes ?sb)" using lr unfolding raw' .
      show "triple (\<lambda>w. w_files w = F) (bind_io (write_exact d (gd_block_bitmap gd * block_size ?sb) bm1) (\<lambda>_.
          bind_io (write_group_descriptor_raw d ctx ?l gd2) (\<lambda>_. bind_io (write_group_desc_backups d ctx super ?l gd2) (\<lambda>_. flush d)))) ?Q ?E"
        by (rule triple_conseq [OF group_update_triple [OF ok lay len start at lb lg keep rl hp]])
          (use mt bm' in \<open>auto simp: bytes_are_def tail_marked_def\<close>)
    qed
  qed
  then show ?thesis by (rule triple_files)
qed


section \<open>The disk during a shrink\<close>

definition resize_area :: "(u64 \<Rightarrow> bool) \<Rightarrow> superblock \<Rightarrow> bytes \<Rightarrow> nat \<Rightarrow> bool" where
  "resize_area H sb D k \<longleftrightarrow> super_area H sb k \<or> group_area H sb D k"

lemma layout_kept: "resize_layout H sb D \<Longrightarrow> same_layout sb D D' \<Longrightarrow> resize_layout H sb D'"
  using same_layout_facts(2,3) [of sb D D'] by (auto simp: resize_layout_def same_layout_def)

lemma area_kept: "same_layout sb D D' \<Longrightarrow> last_group sb < groups_count sb \<Longrightarrow> group_area H sb D' k \<longleftrightarrow> group_area H sb D k"
  using same_layout_facts(1) [of sb D D' "last_group sb"] by (simp add: group_area_def)

lemma group_area_away:
  assumes ok: "sb_ok sb" and lay: "resize_layout H sb D" and "group_area H sb D k"
  shows "\<not> (1024 \<le> k \<and> k < 2048)"
proof -
  have l: "last_group sb < groups_count sb" by (rule last_group_less [OF ok])
  have "in_bitmaps sb D k \<or> (\<exists>g. 0 < g \<and> g < groups_count sb \<and> desc_copy_at sb g \<le> k)"
    using assms(3) l desc_slot [OF l] by (auto simp: group_area_def in_bitmaps_def desc_at_def)
  then show ?thesis
  proof
    assume "in_bitmaps sb D k"
    then show ?thesis using lay by (auto simp: resize_layout_def copies_area_def super_area_def)
  next
    assume "\<exists>g. 0 < g \<and> g < groups_count sb \<and> desc_copy_at sb g \<le> k"
    then obtain g where g: "0 < g" "g < groups_count sb" "desc_copy_at sb g \<le> k" by blast
    have "2048 \<le> backup_at sb g" using lay by (intro backup_after_super [OF ok _ g(1,2)]) (simp add: resize_layout_def)
    then show ?thesis using g(3) by (simp add: backup_at_def desc_copy_at_def)
  qed
qed

lemma super_done_layout:
  assumes ok: "sb_ok sb" and lay: "resize_layout H sb D" and len: "length D < 2 ^ 64" and d: "unchanged_outside (super_area H sb) D D'"
  shows "same_layout sb D D'" and "h < groups_count sb \<Longrightarrow> bitmap_of sb D' h = bitmap_of sb D h"
    and "h < groups_count sb \<Longrightarrow> desc_raw sb D' h = desc_raw sb D h"
proof -
  have a: "bitmaps_apart sb D" and c: "\<And>k. super_area H sb k \<Longrightarrow> \<not> in_bitmaps sb D k" using lay by (auto simp: resize_layout_def copies_area_def)
  note ub = unchanged_bitmaps [OF ok a len d c]
  show "same_layout sb D D'" using d ub(1) by (simp add: same_layout_def desc_of_raw unchanged_outside_def)
  show "h < groups_count sb \<Longrightarrow> bitmap_of sb D' h = bitmap_of sb D h" "h < groups_count sb \<Longrightarrow> desc_raw sb D' h = desc_raw sb D h"
    using ub by blast+
qed


definition sound_disk :: "bytes \<Rightarrow> bool" where
  "sound_disk D \<longleftrightarrow> (let sb = parse_superblock (super_of D) in
     length (used_blocks (used_map sb D) True) = unat (sb_blocks_count sb - sb_free_blocks sb)
     \<and> list_all (group_agrees (context_of (super_of D)) D) (group_list sb))"

text \<open>A state in which an interrupted shrink may leave the disk: the old contents, an unclean filesystem, or a filesystem
  whose new metadata passed verification while it was unclean.\<close>

definition shrink_safe :: "(u64 \<Rightarrow> bool) \<Rightarrow> superblock \<Rightarrow> bytes \<Rightarrow> bytes \<Rightarrow> bool" where
  "shrink_safe H sb D X \<longleftrightarrow> unchanged_outside (resize_area H sb D) D X
     \<and> (X = D \<or> \<not> marked_clean X \<or> (\<exists>V. sound_disk V \<and> \<not> marked_clean V \<and> unchanged_outside (super_area H sb) V X))"

lemma with_state_bit:
  assumes "with_state p s = Inr q" and "length p = 1024"
  shows "bit (q ! 0x3a) 0 \<longleftrightarrow> s AND 1 \<noteq> 0"
  using state_byte [of q] with_state_fields(1,3) [OF assms] by simp

lemma put_super_byte:
  assumes "length q = 1024" and "2048 \<le> length D"
  shows "put_bytes 1024 (take k q) D ! (1024 + 0x3a) = (if 0x3a < k then q ! 0x3a else D ! (1024 + 0x3a))"
  using assms by (auto simp: nth_put_bytes)

lemma super_of_byte: "2048 \<le> length D \<Longrightarrow> D ! (1024 + 0x3a) = super_of D ! 0x3a"
  by (simp add: nth_get_bytes)

lemma torn_dirty:
  assumes q: "with_state p s = Inr q" and p: "length p = 1024" "p = super_of D" "2048 \<le> length D" and s: "s AND 1 = 0"
    and t: "super_torn H sb q D X"
  shows "X = D \<or> \<not> marked_clean X"
proof -
  note f = with_state_fields [OF q p(1)]
  have lX: "length X = length D" using t by (simp add: super_torn_def unchanged_outside_def)
  have b: "\<not> bit (q ! 0x3a) 0" using with_state_bit [OF q p(1)] s by simp
  show ?thesis
  proof (cases "super_of X = q")
    case True
    then show ?thesis using b marked_clean_byte [of X] super_of_byte [of X] lX p(3) by simp
  next
    case False
    then obtain k where X: "X = put_bytes 1024 (take k q) D" using t by (auto simp: super_torn_def)
    show ?thesis
    proof (cases "0x3a < k")
      case True
      then show ?thesis using X put_super_byte [OF f(1) p(3), of k] b marked_clean_byte [of X] lX p(3) by simp
    next
      case False
      have "take k q = take k p" using f(1,2) p(1) False by (intro nth_equalityI) auto
      then have "X = D" using X p(2,3) by (intro nth_equalityI) (auto simp: nth_put_bytes nth_get_bytes)
      then show ?thesis by simp
    qed
  qed
qed

lemma torn_unclean:
  assumes q: "length q = 1024" "\<not> bit (q ! 0x3a) 0" and D: "2048 \<le> length D" "\<not> marked_clean D" and t: "super_torn H sb q D X"
  shows "\<not> marked_clean X"
proof -
  have lX: "length X = length D" using t by (simp add: super_torn_def unchanged_outside_def)
  have "\<not> bit (X ! (1024 + 0x3a)) 0"
  proof (cases "super_of X = q")
    case True
    then show ?thesis using q super_of_byte [of X] lX D(1) by simp
  next
    case False
    then obtain k where "X = put_bytes 1024 (take k q) D" using t by (auto simp: super_torn_def)
    then show ?thesis using put_super_byte [OF q(1) D(1), of k] q(2) D marked_clean_byte [of D] by auto
  qed
  then show ?thesis using marked_clean_byte [of X] lX D(1) by simp
qed


section \<open>The blocks of the smaller filesystem\<close>

lemma tail_marked_blocks:
  assumes ok: "sb_ok (mc_sb ctx)" and a: "bitmaps_apart (mc_sb ctx) D" and len: "length D < 2 ^ 64" and tm: "tail_marked H ctx target D D'"
    and tgt: "group_start_block (mc_sb ctx) (last_group (mc_sb ctx)) \<le> target"
    and b: "unat (sb_first_data_block (mc_sb ctx)) \<le> b" "b < unat (sb_blocks_count (mc_sb ctx))"
  shows "block_used (mc_sb ctx) D' b \<longleftrightarrow> block_used (mc_sb ctx) D b \<or> unat target \<le> b" and "unat target \<le> b \<Longrightarrow> \<not> block_used (mc_sb ctx) D b"
proof -
  let ?sb = "mc_sb ctx" and ?l = "last_group (mc_sb ctx)" and ?i = "b - unat (sb_first_data_block (mc_sb ctx))"
  let ?k = "unat (sb_blocks_per_group ?sb)" and ?s = "unat (group_start_block (mc_sb ctx) (last_group (mc_sb ctx)))"
  let ?g = "of_nat (?i div ?k) :: u64"
  have l: "?l < groups_count ?sb" by (rule last_group_less [OF ok])
  obtain bm gd where u: "group_updated H ?sb bm gd D D'"
    and mt: "mark_tail (group_start_block ?sb ?l) (block_range target (sb_blocks_count ?sb)) (bitmap_of ?sb D ?l) = Inr bm"
    using tm by (auto simp: tail_marked_def)
  note bl = bitmap_of_at [OF a l ok len]
  have sl: "?s \<le> unat target" using tgt by (simp add: word_le_nat_alt)
  have cap: "unat (sb_blocks_count ?sb) - ?s \<le> 8 * length (bitmap_of ?sb D ?l)"
    using last_group_tail [OF ok] ok bl(2,3) by (simp add: sb_ok_def)
  have "unat (sb_blocks_count ?sb) < 2 ^ 64" using unat_lt_64 [of "sb_blocks_count ?sb"] by simp
  note sp = mark_tail_spec [OF mt [unfolded block_range_def] sl cap this]
  note gb = group_of_block [OF ok b]
  have bu: "block_used ?sb X b = bit_set (bitmap_of ?sb X ?g) (of_nat (?i mod ?k))" for X by (simp add: block_used_def Let_def)
  have "(block_used ?sb D' b \<longleftrightarrow> block_used ?sb D b \<or> unat target \<le> b) \<and> (unat target \<le> b \<longrightarrow> \<not> block_used ?sb D b)"
  proof (cases "?g = ?l")
    case True
    have at: "?s + unat (of_nat (?i mod ?k) :: u64) = b" using gb(2,4) True by simp
    have "bitmap_of ?sb D' ?g = bm" using u gb(3) True by (simp add: group_updated_def)
    then show ?thesis using sp at b(2) bu [of D] bu [of D'] True by auto
  next
    case False
    then have same: "bitmap_of ?sb D' ?g = bitmap_of ?sb D ?g" using u gb(3) by (simp add: group_updated_def)
    have "unat ?g < unat ?l"
    proof -
      have "unat ?g < unat ?l + 1" using gb(3) l by (simp add: word_less_nat_alt unat_sub_le word_le_nat_alt)
      then show ?thesis using False by (simp add: word_unat_eq_iff)
    qed
    then have "unat ?g * ?k + ?k \<le> unat ?l * ?k" using mult_le_mono1 [of "unat ?g + 1" "unat ?l" ?k] by simp
    moreover have "?i mod ?k < ?k" using ok by (simp add: sb_ok_def)
    ultimately have "b < ?s" using gb(4) group_start_nat(1) [OF ok gb(3)] group_start_nat(1) [OF ok l] by linarith
    then show ?thesis using same bu sl by simp
  qed
  then show "block_used ?sb D' b \<longleftrightarrow> block_used ?sb D b \<or> unat target \<le> b" "unat target \<le> b \<Longrightarrow> \<not> block_used ?sb D b" by blast+
qed

lemma small_geometry:
  assumes ok: "sb_ok sb" and lt: "group_start_block sb (last_group sb) < target" and le: "target \<le> sb_blocks_count sb"
  shows "sb_ok (small_sb sb target)" and "groups_count (small_sb sb target) = groups_count sb" and "block_size (small_sb sb target) = block_size sb"
    and "desc_raw (small_sb sb target) = desc_raw sb" and "bitmap_of (small_sb sb target) = bitmap_of sb"
    and "block_used (small_sb sb target) = block_used sb"
proof -
  let ?s = "small_sb sb target" and ?k = "unat (sb_blocks_per_group sb)" and ?f = "unat (sb_first_data_block sb)"
  have l: "last_group sb < groups_count sb" by (rule last_group_less [OF ok])
  have st: "?f + unat (last_group sb) * ?k < unat target" using group_start_nat(1) [OF ok l] lt by (simp add: word_less_nat_alt)
  show bs: "block_size ?s = block_size sb" by (simp add: small_sb_def block_size_def)
  show ok': "sb_ok ?s" using ok st bs by (simp add: sb_ok_def) (simp add: small_sb_def)
  have db: "data_blocks ?s = unat target - ?f" by (simp add: data_blocks_def small_sb_def)
  have k: "0 < ?k" using ok by (simp add: sb_ok_def)
  have one: "unat (groups_count sb) = unat (last_group sb) + 1" using l by (simp add: word_less_nat_alt unat_sub_le word_le_nat_alt)
  have hi: "unat target - ?f \<le> (unat (last_group sb) + 1) * ?k"
    using last_group_tail [OF ok] group_start_nat(1) [OF ok l] le by (simp add: word_le_nat_alt)
  have "(unat target - ?f + ?k - 1) div ?k = unat (last_group sb) + 1"
  proof (rule div_nat_eqI)
    show "?k * (unat (last_group sb) + 1) \<le> unat target - ?f + ?k - 1" using st k by (simp add: algebra_simps)
    show "unat target - ?f + ?k - 1 < ?k * Suc (unat (last_group sb) + 1)" using hi k by (simp add: algebra_simps)
  qed
  then have "unat (groups_count ?s) = unat (groups_count sb)"
    using groups_count_nat [OF ok'] db one by (simp add: small_sb_def)
  then show "groups_count ?s = groups_count sb" by (simp add: word_unat_eq_iff)
  show dr: "desc_raw ?s = desc_raw sb" by (simp add: fun_eq_iff desc_raw_def bs) (simp add: desc_bytes_def small_sb_def)
  have de: "desc_of ?s = desc_of sb"
    by (simp add: fun_eq_iff desc_of_raw dr) (simp add: small_sb_def parse_group_desc_def)
  show bo: "bitmap_of ?s = bitmap_of sb" by (simp add: fun_eq_iff bitmap_of_def de bs)
  show "block_used ?s = block_used sb" by (simp add: fun_eq_iff block_used_def bo Let_def) (simp add: small_sb_def)
qed


section \<open>The whole shrink\<close>

definition shrink_done :: "(u64 \<Rightarrow> bool) \<Rightarrow> superblock \<Rightarrow> u64 \<Rightarrow> bytes \<Rightarrow> bytes \<Rightarrow> bool" where
  "shrink_done H sb target D X \<longleftrightarrow> (let sb' = parse_superblock (super_of X) in unchanged_outside (resize_area H sb D) D X
     \<and> sb' = (small_sb sb target)\<lparr>sb_state := sb_state sb OR 1\<rparr> \<and> verify_superblock_checksum (super_of X)
     \<and> list_all (group_agrees (context_of (super_of X)) X) (group_list sb')
     \<and> used_blocks (used_map sb' X) True = used_blocks (used_map sb D) True)"

lemma triple_journal_bind:
  assumes "bd_fd (j_device j) \<noteq> bd_fd d" and "g = append_batch rs \<or> g = checkpoint ph"
    and "\<And>j'. bd_fd (j_device j') \<noteq> bd_fd d \<Longrightarrow> triple (bytes_are d J) (f j') Q (bytes_are d E)" and "\<And>D U. J D U \<Longrightarrow> E D U"
  shows "triple (bytes_are d J) (bind_io (on_journal g j) f) Q (bytes_are d E)"
proof (rule triple_bind)
  show "triple (bytes_are d J) (on_journal g j) (\<lambda>j'. bytes_are d (\<lambda>D U. J D U \<and> bd_fd (j_device j') \<noteq> bd_fd d)) (bytes_are d E)"
    by (rule triple_conseq [OF triple_journal [OF assms(1,2), of J]]) (use assms(4) in \<open>auto simp: bytes_are_def\<close>)
  show "triple (bytes_are d (\<lambda>D U. J D U \<and> bd_fd (j_device j') \<noteq> bd_fd d)) (f j') Q (bytes_are d E)" for j'
    by (rule triple_static [of _ "bd_fd (j_device j') \<noteq> bd_fd d"], simp, rule triple_conseq [OF assms(3)]) (auto simp: bytes_are_def)
qed

text \<open>The context of a superblock whose state changed, and what a group needs of it.\<close>

lemma context_with_state:
  assumes "with_state p s = Inr q" and "length p = 1024"
  shows "context_of q = (context_of p)\<lparr>mc_sb := (parse_superblock p)\<lparr>sb_state := s\<rparr>\<rparr>"
proof -
  have u: "get_bytes 0x68 16 q = get_bytes 0x68 16 p" using with_state_fields(5) [OF assms, of "0x68" 16] by simp
  have r: "read_le32 q 0x60 = read_le32 p 0x60" "read_le32 q 0x270 = read_le32 p 0x270"
    using assms by (auto simp: with_state_def update_superblock_checksum_def buf_simps split: if_split_asm)
  then have "metadata_seed q = metadata_seed p" using u by (simp add: metadata_seed_def)
  then show ?thesis using u by (simp add: context_of_def Let_def parse_with_state [OF assms])
qed

lemma state_keeps:
  "desc_raw (sb\<lparr>sb_state := s\<rparr>) = desc_raw sb" "desc_of (sb\<lparr>sb_state := s\<rparr>) = desc_of sb" "bitmap_of (sb\<lparr>sb_state := s\<rparr>) = bitmap_of sb"
  "block_used (sb\<lparr>sb_state := s\<rparr>) = block_used sb"
proof -
  show r: "desc_raw (sb\<lparr>sb_state := s\<rparr>) = desc_raw sb" by (simp add: fun_eq_iff desc_raw_def desc_bytes_def)
  show d: "desc_of (sb\<lparr>sb_state := s\<rparr>) = desc_of sb" by (simp add: fun_eq_iff desc_of_raw r parse_group_desc_def)
  show b: "bitmap_of (sb\<lparr>sb_state := s\<rparr>) = bitmap_of sb" by (simp add: fun_eq_iff bitmap_of_def d)
  show "block_used (sb\<lparr>sb_state := s\<rparr>) = block_used sb" by (simp add: fun_eq_iff block_used_def b)
qed

lemma group_agrees_state: "group_agrees (c\<lparr>mc_sb := (mc_sb c)\<lparr>sb_state := s\<rparr>\<rparr>) D g \<longleftrightarrow> group_agrees c D g"
proof -
  let ?c = "c\<lparr>mc_sb := (mc_sb c)\<lparr>sb_state := s\<rparr>\<rparr>"
  have v: "verify_group_descriptor_checksum ?c g x = verify_group_descriptor_checksum c g x"
    "verify_block_bitmap_checksum ?c x y = verify_block_bitmap_checksum c x y" for x y
    by (simp_all add: verify_group_descriptor_checksum_def group_desc_checksum_def verify_block_bitmap_checksum_def verify_bitmap_checksum_def
        bitmap_checksum_def Let_def)
  show ?thesis by (simp add: group_agrees_def state_keeps v Let_def)
qed

lemma group_agrees_cong:
  "desc_raw (mc_sb c) D' g = desc_raw (mc_sb c) D g \<Longrightarrow> bitmap_of (mc_sb c) D' g = bitmap_of (mc_sb c) D g \<Longrightarrow>
   group_agrees c D' g \<longleftrightarrow> group_agrees c D g"
  by (simp add: group_agrees_def desc_of_raw)


lemma used_filter:
  assumes "sb_ok sb"
  shows "used_blocks (used_map sb D) True = filter (block_used sb D) [unat (sb_first_data_block sb)..<unat (sb_blocks_count sb)]"
  by (simp add: used_map_blocks [OF assms] used_blocks_def filter_map comp_def)

lemma shrunk_used:
  assumes ok: "sb_ok sb" and lt: "group_start_block sb (last_group sb) < target" and le: "target \<le> sb_blocks_count sb"
    and b: "\<And>b. unat (sb_first_data_block sb) \<le> b \<Longrightarrow> b < unat target \<Longrightarrow> block_used sb X b = block_used sb D b"
    and t: "\<And>b. unat target \<le> b \<Longrightarrow> b < unat (sb_blocks_count sb) \<Longrightarrow> \<not> block_used sb D b"
    and sb': "sb' = (small_sb sb target)\<lparr>sb_state := s\<rparr>"
  shows "used_blocks (used_map sb' X) True = used_blocks (used_map sb D) True"
proof -
  note g = small_geometry [OF ok lt le]
  let ?f = "unat (sb_first_data_block sb)" and ?N = "unat (sb_blocks_count sb)"
  have ok': "sb_ok sb'" using g(1) by (simp add: sb' sb_ok_def)
  have bu: "block_used sb' = block_used sb" using g(6) by (simp add: sb' state_keeps)
  have ft: "?f \<le> unat target" "unat target \<le> ?N"
    using lt le group_start_nat(1) [OF ok last_group_less [OF ok]] by (simp_all add: word_less_nat_alt word_le_nat_alt)
  have "used_blocks (used_map sb' X) True = filter (block_used sb X) [?f..<unat target]"
    using used_filter [OF ok'] bu by (simp add: sb' small_sb_def)
  also have "\<dots> = filter (block_used sb D) [?f..<unat target]" using b by (intro filter_cong) auto
  also have "\<dots> = filter (block_used sb D) ([?f..<unat target] @ [unat target..<?N])" using t by (simp add: filter_empty_conv)
  also have "[?f..<unat target] @ [unat target..<?N] = [?f..<?N]" using ft by (metis le_add_diff_inverse upt_add_eq_append)
  finally show ?thesis by (simp add: used_filter [OF ok])
qed

lemma shrink_final:
  assumes ok: "sb_ok (mc_sb ctx)" and sb: "mc_sb ctx = parse_superblock (super_of D0)" and lay: "resize_layout H (mc_sb ctx) D0"
    and len: "length D0 < 2 ^ 64" and lt: "group_start_block (mc_sb ctx) (last_group (mc_sb ctx)) < target" and le: "target \<le> sb_blocks_count (mc_sb ctx)"
    and dirty: "with_state (super_of D0) s0 = Inr dirty" and d1: "super_done H (mc_sb ctx) dirty D0 D1" and d2: "tail_marked H ctx target D1 D2"
    and small: "shrunk_super ctx target dirty (sb_state (mc_sb ctx)) = Inr small" and d3: "super_done H (mc_sb ctx) small D2 D3"
    and sound: "sound_disk D3" and clean: "with_state small (sb_state (mc_sb ctx) OR 1) = Inr clean" and d4: "super_done H (mc_sb ctx) clean D3 D4"
  shows "shrink_done H (mc_sb ctx) target D0 D4"
proof -
  let ?sb = "mc_sb ctx"
  have p: "length (super_of D0) = 1024" using lay by (simp add: resize_layout_def)
  note sp = shrunk_super_parse [OF p sb dirty small clean le] and g = small_geometry [OF ok lt le]
  have uo: "unchanged_outside (super_area H ?sb) D0 D1" "unchanged_outside (super_area H ?sb) D2 D3" "unchanged_outside (super_area H ?sb) D3 D4"
    and so: "super_of D3 = small" "super_of D4 = clean" using d1 d3 d4 by (simp_all add: super_done_def)
  note k1 = super_done_layout [OF ok lay len uo(1)]
  have u2: "unchanged_outside (group_area H ?sb D1) D1 D2" and s2: "same_layout ?sb D1 D2" using d2 by (auto simp: tail_marked_def group_updated_def)
  have l1: "resize_layout H ?sb D1" "length D1 < 2 ^ 64" and l2: "resize_layout H ?sb D2" "length D2 < 2 ^ 64"
    using layout_kept [OF lay k1(1)] layout_kept [OF _ s2] k1(1) s2 len by (simp_all add: same_layout_def)
  note k3 = super_done_layout [OF ok l2 uo(2)]
  have l3: "resize_layout H ?sb D3" "length D3 < 2 ^ 64" using layout_kept [OF l2(1) k3(1)] k3(1) l2(2) by (simp_all add: same_layout_def)
  note k4 = super_done_layout [OF ok l3 uo(3)]
  have ga: "group_area H ?sb D1 k \<longleftrightarrow> group_area H ?sb D0 k" for k by (rule area_kept [OF k1(1) last_group_less [OF ok]])
  have frame: "unchanged_outside (resize_area H ?sb D0) D0 D4"
    using uo u2 by (auto simp: unchanged_outside_def resize_area_def ga)
  have same: "block_used ?sb D1 b = block_used ?sb D0 b" "block_used ?sb D4 b = block_used ?sb D2 b"
    if "unat (sb_first_data_block ?sb) \<le> b" "b < unat (sb_blocks_count ?sb)" for b
    using group_of_block(3) [OF ok that] k1(2) k3(2) k4(2) by (simp_all add: block_used_def Let_def)
  have a1: "bitmaps_apart ?sb D1" using l1(1) by (simp add: resize_layout_def)
  have tg: "group_start_block ?sb (last_group ?sb) \<le> target" using lt by simp
  note tb = tail_marked_blocks [OF ok a1 l1(2) d2 tg]
  have used: "used_blocks (used_map (parse_superblock clean) D4) True = used_blocks (used_map ?sb D0) True"
  proof (rule shrunk_used [OF ok lt le _ _ sp(2)])
    show "block_used ?sb D4 b = block_used ?sb D0 b" if "unat (sb_first_data_block ?sb) \<le> b" "b < unat target" for b
      using that le same tb(1) by (simp add: word_le_nat_alt)
    show "\<not> block_used ?sb D0 b" if "unat target \<le> b" "b < unat (sb_blocks_count ?sb)" for b
    proof -
      have "unat (sb_first_data_block ?sb) \<le> b"
        using that(1) lt group_start_nat(1) [OF ok last_group_less [OF ok]] by (simp add: word_less_nat_alt)
      then show ?thesis using that same(1) tb(2) by simp
    qed
  qed
  have agrees: "group_agrees (context_of clean) D4 h" if h: "h \<in> set (group_list (parse_superblock clean))" for h
  proof -
    have gl: "group_list (parse_superblock clean) = group_list (parse_superblock small)" by (simp add: sp(1,2) group_list_def)
    then have "group_agrees (context_of small) D3 h" using sound h so(1) by (simp add: sound_disk_def Let_def list_all_iff)
    moreover have "h < groups_count ?sb" using h gl g(2) by (simp add: group_list_nth sp(1))
    then have "desc_raw (parse_superblock small) D4 h = desc_raw (parse_superblock small) D3 h"
      "bitmap_of (parse_superblock small) D4 h = bitmap_of (parse_superblock small) D3 h"
      using k4(2,3) by (simp_all add: sp(1) state_keeps g(4,5))
    ultimately have "group_agrees (context_of small) D4 h" using group_agrees_cong [of "context_of small" D4 h D3] by simp
    then show ?thesis unfolding context_with_state [OF clean sp(3)] using group_agrees_state [where c = "context_of small"] by simp
  qed
  show ?thesis
    using frame sp(2,6) so(2) used agrees by (simp add: shrink_done_def list_all_iff sb)
qed


lemma safe_unclean: "unchanged_outside (resize_area H sb D) D X \<Longrightarrow> \<not> marked_clean X \<Longrightarrow> shrink_safe H sb D X"
  and safe_refl: "shrink_safe H sb D D"
  by (simp_all add: shrink_safe_def)

lemma area_super: "unchanged_outside (resize_area H sb D) D Y \<Longrightarrow> unchanged_outside (super_area H sb) Y X \<Longrightarrow> unchanged_outside (resize_area H sb D) D X"
  by (auto simp: unchanged_outside_def resize_area_def)

lemma layout_fits:
  "resize_layout H sb D \<Longrightarrow> length D < 2 ^ 64 \<Longrightarrow> unat (sb_blocks_count sb) * unat (block_size sb) \<le> length D \<and> length D < 2 ^ 64 \<and> 2048 \<le> length D"
  by (simp add: resize_layout_def bitmaps_apart_def)

text \<open>Superblock and backups, from known bytes, with an outcome for every way to stop.\<close>

lemma super_copies_bind:
  assumes ok: "sb_ok (mc_sb ctx)" and lay: "resize_layout H (mc_sb ctx) D1" and len: "length D1 < 2 ^ 64" and p: "length p = 1024"
    and hp: "\<And>g. group_has_super p g \<Longrightarrow> H g" and torn: "\<And>X. super_torn H (mc_sb ctx) p D1 X \<Longrightarrow> S X" and old: "S U1"
    and cont: "\<And>D2. super_done H (mc_sb ctx) p D1 D2 \<Longrightarrow>
      triple (bytes_are d (\<lambda>D U. D = D2 \<and> U = D2)) (f ()) Q (bytes_are d (\<lambda>D U. S D \<and> S U))"
  shows "triple (bytes_are d (\<lambda>D U. D = D1 \<and> U = U1)) (bind_io (write_super_copies d ctx p) f) Q (bytes_are d (\<lambda>D U. S D \<and> S U))"
proof (rule triple_bind)
  have first: "super_first (mc_sb ctx)" using lay by (simp add: resize_layout_def)
  show "triple (bytes_are d (\<lambda>D U. D = D1 \<and> U = U1)) (write_super_copies d ctx p)
      (\<lambda>_. bytes_are d (\<lambda>D U. U = D \<and> super_done H (mc_sb ctx) p D1 D)) (bytes_are d (\<lambda>D U. S D \<and> S U))"
    by (rule triple_conseq [OF super_copies_triple [OF ok first _ p hp, where J = "\<lambda>D U. D = D1 \<and> U = U1"]])
      (use layout_fits [OF lay len] torn old in \<open>auto simp: bytes_are_def\<close>)
  show "triple (bytes_are d (\<lambda>D U. U = D \<and> super_done H (mc_sb ctx) p D1 D)) (f x) Q (bytes_are d (\<lambda>D U. S D \<and> S U))" for x
    by (rule triple_point) (use cont in \<open>simp add: conj_commute\<close>)
qed


lemma length_lohi [simp]: "length (set_u64_lohi b lo hi v) = length b"
  by (simp add: set_u64_lohi_def)

lemma shrunk_super_unclean:
  assumes "shrunk_super ctx target p st = Inr small" and "length p = 1024"
  shows "length small = 1024" and "\<not> bit (small ! 0x3a) 0"
proof -
  obtain q where q: "with_state q (st AND NOT 1) = Inr small" "length q = 1024"
    using assms by (auto simp: shrunk_super_def Let_def split: if_split_asm)
  show "length small = 1024" by (rule with_state_fields(1) [OF q])
  show "\<not> bit (small ! 0x3a) 0" using with_state_bit [OF q] by (simp add: and.assoc)
qed

lemma lohi_has:
  "length b = 1024 \<Longrightarrow> group_has_super (set_u64_lohi b 0x04 0x150 v) = group_has_super b"
  "length b = 1024 \<Longrightarrow> group_has_super (set_u64_lohi b 0x0c 0x158 v) = group_has_super b"
  "length b = 1024 \<Longrightarrow> group_has_super (set_u64_lohi b 0x08 0x154 v) = group_has_super b"
  by (simp_all add: group_has_super_def set_u64_lohi_def buf_simps fun_eq_iff)

lemma shrunk_super_has:
  assumes "shrunk_super ctx target p st = Inr small" and "length p = 1024"
  shows "group_has_super small = group_has_super p"
proof -
  obtain q where q: "with_state q (st AND NOT 1) = Inr small" "length q = 1024" "group_has_super q = group_has_super p"
    using assms by (auto simp: shrunk_super_def Let_def lohi_has split: if_split_asm)
  show ?thesis using with_state_has [OF q(1,2)] q(3) by simp
qed

lemma super_unclean:
  assumes "super_of D = q" and "\<not> bit (q ! 0x3a) 0" and "2048 \<le> length D"
  shows "\<not> marked_clean D"
  using assms marked_clean_byte [of D] super_of_byte [of D] by simp

text \<open>From the verification on: the smaller filesystem, still unclean, is on the disk.\<close>

lemma shrink_finish:
  assumes ok: "sb_ok (mc_sb ctx)" and lay: "resize_layout H (mc_sb ctx) D3" and len: "length D3 < 2 ^ 64"
    and frame: "unchanged_outside (resize_area H (mc_sb ctx) D0) D0 D3" and unclean: "\<not> marked_clean D3"
    and small: "length small = 1024" and hp: "\<And>g. group_has_super small g \<Longrightarrow> H g" and fd: "bd_fd (j_device j) \<noteq> bd_fd d"
  shows "triple (bytes_are d (\<lambda>D U. D = D3 \<and> U = D3))
    (finalize_verified d ctx small state j)
    (\<lambda>_. bytes_are d (\<lambda>D U. U = D \<and> sound_disk D3 \<and> (\<exists>clean. with_state small (state OR 1) = Inr clean \<and> super_done H (mc_sb ctx) clean D3 D)))
    (bytes_are d (\<lambda>D U. shrink_safe H (mc_sb ctx) D0 D \<and> shrink_safe H (mc_sb ctx) D0 U))"
  (is "triple _ ?m ?Q ?E")
proof (rule triple_files)
  fix F assume on: "\<And>w. w_files w = F \<Longrightarrow> on_file d w" and F: "f_data (F (bd_fd d)) = D3" "f_durable (F (bd_fd d)) = D3"
  have s3: "shrink_safe H (mc_sb ctx) D0 D3" by (rule safe_unclean [OF frame unclean])
  have E0: "?E w" if "w_files w = F" for w using on [OF that] that F s3 by (simp add: bytes_are_def)
  have at: "bytes_are d (\<lambda>D U. D = D3 \<and> U = D3) w" if "w_files w = F" for w using on [OF that] that F by (simp add: bytes_are_def)
  show "triple (\<lambda>w. w_files w = F) ?m ?Q ?E"
    unfolding finalize_verified_def
  proof (rule triple_reads_bind [OF verify_metadata_verdict _ E0], rule triple_if, rule triple_fail [OF E0], assumption, rule triple_lift_bind [OF _ E0])
    fix v clean
    assume v: "meta_verdict (parse_superblock (super_of (f_data (F (bd_fd d))))) (f_data (F (bd_fd d))) v" "\<not> \<not> mi_clean v"
      and clean: "with_state small (state OR 1) = Inr clean"
    have sound: "sound_disk D3" using v F by (simp add: meta_verdict_def sound_disk_def Let_def)
    have safe: "shrink_safe H (mc_sb ctx) D0 X" if "unchanged_outside (super_area H (mc_sb ctx)) D3 X" for X
      using sound unclean that area_super [OF frame that] by (auto simp: shrink_safe_def)
    show "triple (\<lambda>w. w_files w = F) (bind_io (write_super_copies d ctx clean) (\<lambda>_.
        bind_io (on_journal (journal_append (plain_record Rec_filesystem_marked_clean)) j) (\<lambda>j3. on_journal (checkpoint Phase_filesystem_shrunk) j3))) ?Q ?E"
    proof (rule triple_conseq [OF super_copies_bind [where ?U1.0 = D3 and S = "shrink_safe H (mc_sb ctx) D0" and Q = ?Q, OF ok lay len with_state_fields(1) [OF clean small]]])
      show "H g" if "group_has_super clean g" for g using that hp with_state_has [OF clean small] by simp
      fix D4 assume d4: "super_done H (mc_sb ctx) clean D3 D4"
      then have s4: "shrink_safe H (mc_sb ctx) D0 D4" using safe by (simp add: super_done_def)
      show "triple (bytes_are d (\<lambda>D U. D = D4 \<and> U = D4)) (bind_io (on_journal (journal_append (plain_record Rec_filesystem_marked_clean)) j) (\<lambda>j3.
          on_journal (checkpoint Phase_filesystem_shrunk) j3)) ?Q ?E"
        unfolding journal_append_def
      proof (rule triple_journal_bind [OF fd])
        fix j' :: journal assume fd': "bd_fd (j_device j') \<noteq> bd_fd d"
        show "triple (bytes_are d (\<lambda>D U. D = D4 \<and> U = D4)) (on_journal (checkpoint Phase_filesystem_shrunk) j') ?Q ?E"
          by (rule triple_conseq [OF triple_journal [OF fd', of _ "[]" Phase_filesystem_shrunk "\<lambda>D U. D = D4 \<and> U = D4"]])
            (use s4 d4 sound clean in \<open>auto simp: bytes_are_def\<close>)
      qed (use s4 in auto)
    qed (use s3 safe at in \<open>auto simp: super_torn_def\<close>)
  qed
qed


text \<open>What holds while the filesystem is unclean and its layout is the old one.\<close>

definition shrink_mid :: "(u64 \<Rightarrow> bool) \<Rightarrow> superblock \<Rightarrow> bytes \<Rightarrow> bytes \<Rightarrow> bool" where
  "shrink_mid H sb D0 X \<longleftrightarrow> resize_layout H sb X \<and> length X < 2 ^ 64 \<and> same_layout sb D0 X \<and> unchanged_outside (resize_area H sb D0) D0 X \<and> \<not> marked_clean X"

lemma mid_safe: "shrink_mid H sb D0 X \<Longrightarrow> shrink_safe H sb D0 X"
  by (simp add: shrink_mid_def safe_unclean)

lemma unclean_kept:
  assumes "\<not> marked_clean D" and "unchanged_outside A D X" and "\<And>k. A k \<Longrightarrow> \<not> (1024 \<le> k \<and> k < 2048)" and "2048 \<le> length D"
  shows "\<not> marked_clean X"
proof -
  have "X ! (1024 + 0x3a) = D ! (1024 + 0x3a)" "length X = length D"
    using assms(2) assms(3) [of "1024 + 0x3a"] assms(4) by (auto simp: unchanged_outside_def elim!: allE [of _ 1082])
  then show ?thesis using assms(1,4) marked_clean_byte [of X] marked_clean_byte [of D] by simp
qed

lemma mid_group:
  assumes ok: "sb_ok sb" and m: "shrink_mid H sb D0 D1" and u: "unchanged_outside (group_area H sb D1) D1 X"
  shows "shrink_safe H sb D0 X" and "same_layout sb D1 X \<Longrightarrow> shrink_mid H sb D0 X"
proof -
  have lay: "resize_layout H sb D1" and s1: "same_layout sb D0 D1" and f: "unchanged_outside (resize_area H sb D0) D0 D1" and len: "length D1 < 2 ^ 64"
    and c: "\<not> marked_clean D1" using m by (simp_all add: shrink_mid_def)
  have ga: "group_area H sb D1 k \<longleftrightarrow> group_area H sb D0 k" for k by (rule area_kept [OF s1 last_group_less [OF ok]])
  have u': "unchanged_outside (resize_area H sb D0) D0 X" using f u by (auto simp: unchanged_outside_def resize_area_def ga)
  have c': "\<not> marked_clean X" by (rule unclean_kept [OF c u group_area_away [OF ok lay]]) (use lay in \<open>simp_all add: resize_layout_def\<close>)
  show "shrink_safe H sb D0 X" by (rule safe_unclean [OF u' c'])
  show "shrink_mid H sb D0 X" if s: "same_layout sb D1 X"
    using layout_kept [OF lay s] s s1 len u' c' by (auto simp: shrink_mid_def same_layout_def)
qed

lemma mid_super:
  assumes ok: "sb_ok sb" and m: "shrink_mid H sb D0 D1" and q: "length q = 1024" "\<not> bit (q ! 0x3a) 0" and t: "super_torn H sb q D1 X"
  shows "shrink_mid H sb D0 X"
proof -
  have lay: "resize_layout H sb D1" and s1: "same_layout sb D0 D1" and f: "unchanged_outside (resize_area H sb D0) D0 D1" and len: "length D1 < 2 ^ 64"
    and c: "\<not> marked_clean D1" using m by (simp_all add: shrink_mid_def)
  have u: "unchanged_outside (super_area H sb) D1 X" using t by (simp add: super_torn_def)
  note s = super_done_layout(1) [OF ok lay len u]
  have "\<not> marked_clean X" by (rule torn_unclean [OF q _ c t]) (use lay in \<open>simp add: resize_layout_def\<close>)
  then show ?thesis using layout_kept [OF lay s] s s1 len area_super [OF f u] by (auto simp: shrink_mid_def same_layout_def)
qed

lemma shrink_middle:
  assumes ok: "sb_ok (mc_sb ctx)" and m: "shrink_mid H (mc_sb ctx) D0 D1" and tgt: "group_start_block (mc_sb ctx) (last_group (mc_sb ctx)) \<le> target"
    and dirty: "length dirty = 1024" and hp: "\<And>g. group_has_super dirty g \<Longrightarrow> H g" and fd: "bd_fd (j_device j) \<noteq> bd_fd d"
  shows "triple (bytes_are d (\<lambda>D U. D = D1 \<and> U = D1))
    (finalize_marked d ctx target dirty state j)
    (\<lambda>_. bytes_are d (\<lambda>D U. U = D \<and> (\<exists>D2 small D3 clean. tail_marked H ctx target D1 D2 \<and> shrunk_super ctx target dirty state = Inr small
      \<and> super_done H (mc_sb ctx) small D2 D3 \<and> sound_disk D3 \<and> with_state small (state OR 1) = Inr clean \<and> super_done H (mc_sb ctx) clean D3 D)))
    (bytes_are d (\<lambda>D U. shrink_safe H (mc_sb ctx) D0 D \<and> shrink_safe H (mc_sb ctx) D0 U))"
  (is "triple _ _ ?Q ?E")
  unfolding finalize_marked_def
proof (rule triple_bind)
  let ?sb = "mc_sb ctx"
  have lay: "resize_layout H ?sb D1" and len: "length D1 < 2 ^ 64" using m by (simp_all add: shrink_mid_def)
  show "triple (bytes_are d (\<lambda>D U. D = D1 \<and> U = D1)) (shrink_last_group d ctx target dirty)
      (\<lambda>_. bytes_are d (\<lambda>D U. U = D \<and> tail_marked H ctx target D1 D)) ?E"
    by (rule triple_conseq [OF shrink_group_triple [OF ok lay len tgt hp, where d = d and ?U1.0 = D1]])
      (use mid_group(1) [OF ok m] mid_safe [OF m] in \<open>auto simp: bytes_are_def\<close>)
  show "triple (bytes_are d (\<lambda>D U. U = D \<and> tail_marked H ctx target D1 D)) (bind_io (lift_io (shrunk_super ctx target dirty state)) (\<lambda>small.
      bind_io (write_super_copies d ctx small) (\<lambda>_. finalize_verified d ctx small state j))) ?Q ?E" for x
  proof (rule triple_point, rule triple_lift_bind)
    fix D2 U2 small assume a: "U2 = D2 \<and> tail_marked H ctx target D1 D2"
    have m2: "shrink_mid H ?sb D0 D2" using a by (auto simp: tail_marked_def group_updated_def intro: mid_group(2) [OF ok m])
    then show "?E w" if "bytes_are d (\<lambda>D U. D = D2 \<and> U = U2) w" for w using that a mid_safe [OF m2] by (simp add: bytes_are_def)
    have lay2: "resize_layout H ?sb D2" and len2: "length D2 < 2 ^ 64" using m2 by (simp_all add: shrink_mid_def)
    assume sm: "shrunk_super ctx target dirty state = Inr small"
    note un = shrunk_super_unclean [OF sm dirty]
    have hs: "H g" if "group_has_super small g" for g using that hp shrunk_super_has [OF sm dirty] by simp
    show "triple (bytes_are d (\<lambda>D U. D = D2 \<and> U = U2)) (bind_io (write_super_copies d ctx small) (\<lambda>_. finalize_verified d ctx small state j)) ?Q ?E"
    proof (rule super_copies_bind [OF ok lay2 len2 un(1) hs])
      fix D3 assume d3: "super_done H ?sb small D2 D3"
      have m3: "shrink_mid H ?sb D0 D3" by (rule mid_super [OF ok m2 un super_done_torn [OF d3]])
      show "triple (bytes_are d (\<lambda>D U. D = D3 \<and> U = D3)) (finalize_verified d ctx small state j) ?Q ?E"
        by (rule triple_conseq [OF shrink_finish [OF ok _ _ _ _ un(1) hs fd, where ?D3.0 = D3 and ?D0.0 = D0 and state = state]])
          (use m3 a sm d3 in \<open>auto simp: shrink_mid_def bytes_are_def\<close>)
    qed (use a mid_safe [OF m2] mid_safe [OF mid_super [OF ok m2 un]] in auto)
  qed
qed


lemma finalize_apply_triple:
  assumes ok: "sb_ok (mc_sb ctx)" and sb: "mc_sb ctx = parse_superblock (super_of D0)" and lay: "resize_layout H (mc_sb ctx) D0"
    and hp: "\<And>g. group_has_super (super_of D0) g \<Longrightarrow> H g" and len: "length D0 < 2 ^ 64" and fd: "bd_fd (j_device j) \<noteq> bd_fd d"
    and tgt: "target = target_bytes div block_size (mc_sb ctx)" "group_start_block (mc_sb ctx) (last_group (mc_sb ctx)) < target"
      "target \<le> sb_blocks_count (mc_sb ctx)"
  shows "triple (bytes_are d (\<lambda>D U. D = D0 \<and> U = D0)) (finalize_apply d target_bytes ctx j)
    (\<lambda>_. bytes_are d (\<lambda>D U. U = D \<and> shrink_done H (mc_sb ctx) target D0 D))
    (bytes_are d (\<lambda>D U. shrink_safe H (mc_sb ctx) D0 D \<and> shrink_safe H (mc_sb ctx) D0 U))"
  (is "triple _ ?m ?Q ?E")
proof (rule triple_files)
  let ?sb = "mc_sb ctx" and ?st = "sb_state (mc_sb ctx)"
  fix F assume on: "\<And>w. w_files w = F \<Longrightarrow> on_file d w" and F: "f_data (F (bd_fd d)) = D0" "f_durable (F (bd_fd d)) = D0"
  have E0: "?E w" if "w_files w = F" for w using on [OF that] that F safe_refl by (simp add: bytes_are_def)
  have at: "bytes_are d (\<lambda>D U. D = D0 \<and> U = D0) w" if "w_files w = F" for w using on [OF that] that F by (simp add: bytes_are_def)
  have big: "2048 \<le> length D0" using lay by (simp add: resize_layout_def)
  show "triple (\<lambda>w. w_files w = F) ?m ?Q ?E"
    unfolding finalize_apply_def Let_def
  proof (rule triple_reads_bind [OF reads_raw_superblock _ E0], rule triple_lift_bind [OF _ E0])
    fix raw dirty
    assume raw: "raw = super_of (f_data (F (bd_fd d))) \<and> length raw = 1024" and ws: "with_state raw (read_le16 raw 0x3a AND NOT 1) = Inr dirty"
    have r: "raw = super_of D0" "length raw = 1024" using conjunct1 [OF raw] conjunct2 [OF raw] F by simp_all
    have st: "read_le16 raw 0x3a = ?st" by (simp add: sb r(1) parse_superblock_def Let_def)
    note ws' = ws [unfolded st]
    have even: "(?st AND NOT 1) AND 1 = 0" by (simp add: and.assoc)
    note dl = with_state_fields(1) [OF ws' r(2)]
    have hd: "H g" if "group_has_super dirty g" for g using that hp with_state_has [OF ws' r(2)] r(1) by simp
    have nb: "\<not> bit (dirty ! 0x3a) 0" using with_state_bit [OF ws' r(2)] even by simp
    have torn: "shrink_safe H ?sb D0 X" if t: "super_torn H ?sb dirty D0 X" for X
    proof -
      have "unchanged_outside (resize_area H ?sb D0) D0 X" by (rule area_super [OF unchanged_refl]) (use t in \<open>simp add: super_torn_def\<close>)
      then show ?thesis using torn_dirty [OF ws' r(2,1) big even t] by (auto simp: shrink_safe_def)
    qed
    have middle: "triple (bytes_are d (\<lambda>D U. D = D1 \<and> U = D1)) (finalize_marked d ctx (target_bytes div block_size ?sb) dirty (read_le16 raw 0x3a) j2) ?Q ?E"
      if d1: "super_done H ?sb dirty D0 D1" and fd2: "bd_fd (j_device j2) \<noteq> bd_fd d" for D1 j2
    proof -
      have u: "unchanged_outside (super_area H ?sb) D0 D1" and so: "super_of D1 = dirty" using d1 by (simp_all add: super_done_def)
      note s = super_done_layout(1) [OF ok lay len u]
      have "\<not> marked_clean D1" by (rule super_unclean [OF so nb]) (use big s in \<open>simp add: same_layout_def\<close>)
      then have m: "shrink_mid H ?sb D0 D1"
        using layout_kept [OF lay s] s len area_super [OF unchanged_refl u] by (simp add: shrink_mid_def same_layout_def)
      have le: "group_start_block ?sb (last_group ?sb) \<le> target" using tgt(2) by simp
      show ?thesis
        unfolding st tgt(1) [symmetric]
        by (rule triple_conseq [OF shrink_middle [OF ok m le dl hd fd2]])
          (auto simp: bytes_are_def intro: shrink_final [OF ok sb lay len tgt(2,3) ws' [unfolded r(1)] d1])
    qed
    show "triple (\<lambda>w. w_files w = F) (bind_io (write_super_copies d ctx dirty) (\<lambda>_.
        bind_io (on_journal (journal_append (plain_record Rec_filesystem_marked_dirty)) j) (\<lambda>j1.
        bind_io (on_journal (checkpoint Phase_metadata_finalize) j1) (\<lambda>j2.
        finalize_marked d ctx (target_bytes div block_size ?sb) dirty (read_le16 raw 0x3a) j2)))) ?Q ?E"
    proof (rule triple_conseq [OF super_copies_bind [where ?U1.0 = D0 and S = "shrink_safe H ?sb D0" and Q = ?Q, OF ok lay len dl hd torn safe_refl]])
      fix D1 assume d1: "super_done H ?sb dirty D0 D1"
      have s1: "shrink_safe H ?sb D0 D1" by (rule torn [OF super_done_torn [OF d1]])
      show "triple (bytes_are d (\<lambda>D U. D = D1 \<and> U = D1)) (bind_io (on_journal (journal_append (plain_record Rec_filesystem_marked_dirty)) j) (\<lambda>j1.
        bind_io (on_journal (checkpoint Phase_metadata_finalize) j1) (\<lambda>j2.
        finalize_marked d ctx (target_bytes div block_size ?sb) dirty (read_le16 raw 0x3a) j2))) ?Q ?E"
        unfolding journal_append_def
        by (rule triple_journal_bind [OF fd disjI1 [OF refl]], rule triple_journal_bind [OF _ disjI2 [OF refl]], assumption,
            rule middle [OF d1]) (use s1 in auto)
    qed (use at in auto)
  qed
qed

end
