(* ===== verification/Fsx_Resize_Shrink.thy ===== *)
theory Fsx_Resize_Shrink
  imports Fsx_Resize_Laws
begin

text \<open>
  The shrink as a whole, \<^verbatim>\<open>finalize_metadata_only_shrink\<close>: what its checks guarantee, that they change no file, and the
  outcome of every run, finished or not.
\<close>

section \<open>The checks before a shrink\<close>

lemma target_in_last_group:
  assumes ok: "sb_ok sb" and g: "target_groups_of sb target = groups_count sb" and t: "target \<le> sb_blocks_count sb"
    and small: "unat (sb_blocks_count sb) \<le> 2 ^ 54"
  shows "group_start_block sb (last_group sb) < target"
proof (rule ccontr)
  let ?f = "ucast (sb_first_data_block sb) :: u64" and ?k = "ucast (sb_blocks_per_group sb) :: u64"
  assume "\<not> ?thesis"
  then have le: "unat target \<le> unat (group_start_block sb (last_group sb))" by (simp add: word_less_nat_alt)
  have l: "last_group sb < groups_count sb" by (rule last_group_less [OF ok])
  have u: "unat ?f = unat (sb_first_data_block sb)" "unat ?k = unat (sb_blocks_per_group sb)" by (simp_all add: word_nat)
  have k: "0 < unat ?k" "unat ?k < 2 ^ 32" "sb_blocks_per_group sb \<noteq> 0" using ok u by (auto simp: sb_ok_def)
  define data where "data = (if target > ?f then target - ?f else 0)"
  have d: "unat data = unat target - unat ?f" by (auto simp: data_def word_less_nat_alt unat_sub_le word_le_nat_alt)
  have "unat data \<le> 2 ^ 54" using d t small by (simp add: word_le_nat_alt)
  then have s: "unat (data + ?k) = unat data + unat ?k" using k(2) by (simp add: unat_add_le)
  then have "unat (data + ?k - 1) = unat data + unat ?k - 1" using k(1) by (simp add: unat_sub_le word_le_nat_alt)
  then have tg: "unat (target_groups_of sb target) = (unat data + unat ?k - 1) div unat ?k"
    using k(3) by (simp add: target_groups_of_def data_def Let_def unat_div)
  have "unat data \<le> unat (last_group sb) * unat ?k" using le d group_start_nat(1) [OF ok l] u by simp
  then have "unat data + unat ?k - 1 < (unat (last_group sb) + 1) * unat ?k" using k(1) by simp
  then have "(unat data + unat ?k - 1) div unat ?k < unat (last_group sb) + 1" by (simp add: less_mult_imp_div_less)
  moreover have "unat (groups_count sb) = unat (last_group sb) + 1" using l by (simp add: word_less_nat_alt unat_sub_le word_le_nat_alt)
  ultimately show False using tg g by simp
qed

lemma pure_readiness [pure_intros]: "pure_io (removed_inodes d sb gs acc)" "pure_io (fixed_tail d sb t gs acc)"
  by (induction gs arbitrary: acc; simp only: removed_inodes.simps fixed_tail.simps Let_def; (intro pure_intros | assumption)+)+

lemma readiness_dirs [dirs_intros]: "same_dirs (removed_inodes d sb gs acc)" "same_dirs (fixed_tail d sb t gs acc)"
    "same_dirs (build_allocation_graph d)"
proof -
  show "same_dirs (removed_inodes d sb gs acc)" "same_dirs (fixed_tail d sb t gs acc)"
    by (induction gs arbitrary: acc; simp only: removed_inodes.simps fixed_tail.simps Let_def; (intro dirs_intros | assumption)+)+
  have r: "same_dirs (read_descs d sb gs)" for sb gs by (induction gs; simp only: read_descs.simps; (intro dirs_intros | assumption)+)
  have b: "same_dirs (scan_bitmaps d sb gs st)" for sb gs st
  proof (induction gs arbitrary: st)
    case (Cons x gs)
    then show ?case by (cases x) (simp only: scan_bitmaps.simps submit_read_def, (intro dirs_intros | assumption)+)
  qed (simp only: scan_bitmaps.simps, intro dirs_intros)
  show "same_dirs (build_allocation_graph d)"
    unfolding build_allocation_graph_def by (intro dirs_intros r b) (auto intro!: dirs_intros split: prod.splits)
qed

lemma readiness_dirs_all [dirs_intros]: "same_dirs (analyze_shrink_readiness d t)"
  unfolding analyze_shrink_readiness_def Let_def by (intro dirs_intros)

lemma reads_readiness:
  "reads F (\<lambda>r. let sb = parse_superblock (super_of (f_data (F (bd_fd d)))) in
     (sr_metadata_only_finalize_possible r \<longrightarrow> target_groups_of sb (t div block_size sb) = groups_count sb) \<and> t < size_bytes sb)
   (analyze_shrink_readiness d t)"
  unfolding analyze_shrink_readiness_def Let_def
  by (rule reads_bind [OF reads_superblock], rule reads_if, rule reads_simple(2), rule reads_if, rule reads_simple(2),
      rule reads_any, (intro pure_intros)[1], rule reads_any [OF pure_graph], rule reads_any [OF pure_readiness(2)], rule reads_simple(1)) auto


text \<open>Programs that only read, started with known files and names.\<close>

definition reads_named :: "(nat \<Rightarrow> file_obj) \<Rightarrow> (string \<Rightarrow> nat option) \<Rightarrow> ('a \<Rightarrow> bool) \<Rightarrow> 'a io \<Rightarrow> bool" where
  "reads_named F N Q m \<longleftrightarrow> (\<forall>w r w'. w_files w = F \<longrightarrow> w_names w = N \<longrightarrow> m w = (r, w') \<longrightarrow> w_files w' = F \<and> (\<forall>x. r = Inr x \<longrightarrow> Q x))"

lemma reads_named_step:
  assumes "reads F P m" and "same_dirs m" and "\<And>x. P x \<Longrightarrow> reads_named F N Q (f x)"
  shows "reads_named F N Q (bind_io m f)"
  unfolding reads_named_def
proof (intro allI impI)
  fix w r w' assume w: "w_files w = F" "w_names w = N" and run: "bind_io m f w = (r, w')"
  from run show "w_files w' = F \<and> (\<forall>x. r = Inr x \<longrightarrow> Q x)"
  proof (cases rule: bind_io_cases)
    case (failed e)
    then show ?thesis using readsD(1) [OF assms(1) w(1) failed(1)] by simp
  next
    case (step x w1)
    have "P x" by (rule readsD(2) [OF assms(1) w(1) step(1) refl])
    then have "reads_named F N Q (f x)" by (rule assms(3))
    moreover have "w_names w1 = N" using same_dirsD [OF assms(2) step(1)] w(2) by (simp add: dirs_def)
    ultimately show ?thesis using step(2) readsD(1) [OF assms(1) w(1) step(1)] unfolding reads_named_def by blast
  qed
qed

lemma reads_named_any:
  "pure_io m \<Longrightarrow> same_dirs m \<Longrightarrow> (\<And>x. reads_named F N Q (f x)) \<Longrightarrow> reads_named F N Q (bind_io m f)"
  by (rule reads_named_step [OF reads_pure])

lemma reads_named_if: "(b \<Longrightarrow> reads_named F N Q m) \<Longrightarrow> (\<not> b \<Longrightarrow> reads_named F N Q m') \<Longrightarrow> reads_named F N Q (if b then m else m')"
  by simp

lemma reads_named_fail: "reads_named F N Q (fail_io c e)"
  using reads_simple(2) [of F Q c e] unfolding reads_named_def reads_def by blast

lemma reads_named_journal:
  assumes "\<And>j. N path = Some (bd_fd (j_device j)) \<Longrightarrow> reads F Q (f j)"
  shows "reads_named F N Q (bind_io (journal_open path True) f)"
  unfolding reads_named_def
proof (intro allI impI)
  fix w r w' assume w: "w_files w = F" "w_names w = N" and run: "bind_io (journal_open path True) f w = (r, w')"
  from run show "w_files w' = F \<and> (\<forall>x. r = Inr x \<longrightarrow> Q x)"
  proof (cases rule: bind_io_cases)
    case (failed e)
    then show ?thesis using journal_open_spec [OF failed(1)] w by simp
  next
    case (step j w1)
    have j: "w_files w1 = F" "N path = Some (bd_fd (j_device j))" using journal_open_spec [OF step(1)] w by simp_all
    from readsD [OF assms [OF j(2)] j(1) step(2)] show ?thesis by blast
  qed
qed

lemma finalize_ready_spec:
  "reads_named F N (\<lambda>(ctx, j). let D = f_data (F (bd_fd d)); sb = parse_superblock (super_of D) in
     ctx = context_of (super_of D) \<and> sb_ok sb \<and> N (fo_journal_path opts) = Some (bd_fd (j_device j))
     \<and> target_groups_of sb (t div block_size sb) = groups_count sb \<and> t < size_bytes sb) (finalize_ready d t opts)"
  unfolding finalize_ready_def
  by (rule reads_named_if, rule reads_named_fail, rule reads_named_any [OF pure_offline sync_dirs(1)],
      rule reads_named_any [OF pure_safety(1) safety_dirs(1)], rule reads_named_if, rule reads_named_fail,
      rule reads_named_step [OF reads_readiness readiness_dirs_all], rule reads_named_if, rule reads_named_fail,
      rule reads_named_step [OF reads_context ext4_dirs(8)], rule reads_named_if, rule reads_named_fail,
      rule reads_named_journal, rule reads_lift_bind, rule reads_if, rule reads_simple(2), rule reads_if, rule reads_simple(2), rule reads_simple(1))
    (auto simp: Let_def context_of_sb)


lemma target_inside:
  assumes ok: "sb_ok sb" and fits: "unat (sb_blocks_count sb) * unat (block_size sb) \<le> L" "L < 2 ^ 64"
    and t: "t < size_bytes sb" and g: "target_groups_of sb (t div block_size sb) = groups_count sb"
  shows "group_start_block sb (last_group sb) < t div block_size sb" and "t div block_size sb \<le> sb_blocks_count sb"
proof -
  let ?N = "unat (sb_blocks_count sb)" and ?b = "unat (block_size sb)"
  have b: "1024 \<le> ?b" using ok by (simp add: sb_ok_def)
  have lt: "?N * ?b < 2 ^ 64" using fits by simp
  then have "?N \<le> (2 ^ 64 - 1) div ?b" using b by (simp add: less_eq_div_iff_mult_less_eq)
  then have "\<not> (block_size sb = 0 \<or> u64_max div block_size sb < sb_blocks_count sb)"
    using b by (auto simp: word_less_nat_alt unat_div unsigned_minus_1_eq_mask mask_eq_exp_minus_1)
  then have "unat (size_bytes sb) = ?N * ?b" using lt by (simp add: size_bytes_def Let_def unat_mult_le)
  then have "unat t < ?N * ?b" using t by (simp add: word_less_nat_alt)
  then have "unat t div ?b < ?N" by (simp add: less_mult_imp_div_less)
  then show le: "t div block_size sb \<le> sb_blocks_count sb" by (simp add: word_le_nat_alt unat_div)
  have "?N * 1024 \<le> ?N * ?b" by (rule mult_le_mono2 [OF b])
  then have "?N * 1024 < 2 ^ 64" using lt by (rule order.strict_trans1)
  then have "?N \<le> 2 ^ 54" by simp
  then show "group_start_block sb (last_group sb) < t div block_size sb" by (rule target_in_last_group [OF ok g le])
qed

lemma shrink_outcomes:
  assumes on: "on_file d w" and synced: "f_durable (w_files w (bd_fd d)) = data_of d w"
    and H: "H = group_has_super (super_of (data_of d w))"
    and sb: "sb = parse_superblock (super_of (data_of d w))" and lay: "resize_layout H sb (data_of d w)"
    and name: "w_names w (fo_journal_path opts) \<noteq> Some (bd_fd d)"
    and run: "finalize_metadata_only_shrink d t opts w = (r, w')"
  shows "case r of
      Inr _ \<Rightarrow> shrink_done H sb (t div block_size sb) (data_of d w) (data_of d w') \<and> f_durable (w_files w' (bd_fd d)) = data_of d w'
    | Inl _ \<Rightarrow> shrink_safe H sb (data_of d w) (data_of d w') \<and> shrink_safe H sb (data_of d w) (f_durable (w_files w' (bd_fd d)))"
proof -
  let ?D = "data_of d w"
  have len: "length ?D < 2 ^ 64" using on by (simp add: on_file_def off_t_max_def)
  note spec = finalize_ready_spec [of "w_files w" "w_names w" d opts t, unfolded reads_named_def Let_def, folded sb]
  from run show ?thesis
    unfolding finalize_metadata_only_shrink_def
  proof (cases rule: bind_io_cases)
    case (failed e)
    then have "w_files w' = w_files w" using spec by blast
    then show ?thesis using failed(2) synced by (simp add: safe_refl)
  next
    case (step x w1)
    obtain ctx j where x: "x = (ctx, j)" by (cases x)
    have w1: "w_files w1 = w_files w" and c: "ctx = context_of (super_of ?D)" "sb_ok sb" "w_names w (fo_journal_path opts) = Some (bd_fd (j_device j))"
      "target_groups_of sb (t div block_size sb) = groups_count sb" "t < size_bytes sb"
      using spec [rule_format, OF refl refl step(1)] x by simp_all
    have s: "mc_sb ctx = sb" using c(1) sb by (simp add: context_of_sb)
    have fits: "unat (sb_blocks_count sb) * unat (block_size sb) \<le> length ?D" using lay by (simp add: resize_layout_def bitmaps_apart_def)
    note ti = target_inside [OF c(2) fits len c(5,4)]
    have fd: "bd_fd (j_device j) \<noteq> bd_fd d" using c(3) name by auto
    have hp: "H g" if "group_has_super (super_of ?D) g" for g using that H by simp
    note tr = finalize_apply_triple [where ctx = ctx, unfolded s, OF c(2) sb lay hp len fd refl ti]
    have pre: "bytes_are d (\<lambda>D U. D = ?D \<and> U = ?D) w1" using on w1 synced on_file_files [of w1 w d] by (simp add: bytes_are_def)
    have "bind_io (finalize_apply d t ctx j) (\<lambda>_. return_io ()) w1 = (r, w')" using step(2) x by simp
    then show ?thesis
    proof (cases rule: bind_io_cases)
      case (failed e)
      then show ?thesis using triple_Inl [OF tr pre failed(1)] by (simp add: bytes_are_def)
    next
      case (step y w2)
      then show ?thesis using triple_Inr [OF tr pre step(1)] by (auto simp: bytes_are_def)
    qed
  qed
qed



section \<open>Sample\<close>

lemma offline_calm:
  assumes "calm w" and "\<not> f_is_blk (w_files w (bd_fd d))"
  shows "require_offline_for_write d w = (Inr (), w)" "\<exists>s. inspect_device_safety d w = (Inr s, w) \<and> \<not> ds_block_device s"
proof -
  show "\<exists>s. inspect_device_safety d w = (Inr s, w) \<and> \<not> ds_block_device s"
    using assms by (simp add: inspect_device_safety_def next_event_calm Let_def)
  show "require_offline_for_write d w = (Inr (), w)"
    using assms by (simp add: require_offline_for_write_def inspect_device_safety_def next_event_calm Let_def bind_io_def)
qed

lemma meta_layout: "resize_layout H (meta_sb 0 64) (data_of fs_device (meta_world 0 64))"
proof -
  let ?D = "data_of fs_device (meta_world 0 64)" and ?sb = "meta_sb 0 64"
  have one: "g < 1 \<longleftrightarrow> g = 0" for g :: u64 by (simp add: word_less_nat_alt word_unat_eq_iff)
  have g1: "groups_count ?sb = 1" using meta_reads(1) [of 0 64] by simp
  have gd: "gd_block_bitmap (desc_of ?sb ?D 0) = 3"
    by (simp add: desc_of_raw desc_raw_def meta_sb_fields meta_world_facts desc_bytes_def parse_group_desc_def with_hi_def meta_desc_fields)
  have none: "\<not> (0 < g \<and> g < 1)" for g :: u64 using one [of g] by auto
  have area: "copies_area H ?sb k \<longleftrightarrow> 1024 \<le> k \<and> k < 2048" for k by (auto simp: copies_area_def super_area_def g1 none)
  show ?thesis
    by (simp add: resize_layout_def bitmaps_apart_def g1 one table_end_def table_start_def desc_at_def desc_bytes_def bitmap_at_def
        in_bitmaps_def area meta_sb_fields meta_world_facts super_first_def gd [unfolded meta_world_facts(3)])
qed


end
