(* ===== verification/Fsx_Threads.thy ===== *)
theory Fsx_Threads
  imports Fsx_Prelude "HOL-Library.Multiset"
begin

text \<open>
  Threads that share a mutex and condition variables. A critical section is one step; a thread that waits for a condition is
  asleep until it is notified or, as the standard allows, wakes up without reason.
\<close>

section \<open>Condition variables\<close>

text \<open>\<^verbatim>\<open>notify_one\<close> wakes one of the sleeping threads, which one is the host's choice, or none when nobody sleeps.\<close>

definition notify_one :: "('p \<Rightarrow> bool) \<Rightarrow> ('p \<Rightarrow> 'p) \<Rightarrow> nat option \<Rightarrow> 'p list \<Rightarrow> 'p list option" where
  "notify_one asleep wake k ps =
     (case k of
        None \<Rightarrow> if list_ex asleep ps then None else Some ps
      | Some i \<Rightarrow> if i < length ps \<and> asleep (ps ! i) then Some (ps[i := wake (ps ! i)]) else None)"

definition notify_all :: "('p \<Rightarrow> bool) \<Rightarrow> ('p \<Rightarrow> 'p) \<Rightarrow> 'p list \<Rightarrow> 'p list" where
  "notify_all asleep wake ps = map (\<lambda>p. if asleep p then wake p else p) ps"

lemma notify_one_possible: "\<exists>k ps'. notify_one asleep wake k ps = Some ps'"
proof (cases "list_ex asleep ps")
  case True
  then obtain i where "i < length ps" "asleep (ps ! i)" by (auto simp: list_ex_length)
  then show ?thesis by (intro exI [of _ "Some i"]) (simp add: notify_one_def)
next
  case False
  then show ?thesis by (intro exI [of _ None]) (simp add: notify_one_def)
qed

lemma notify_one_cases:
  assumes "notify_one asleep wake k ps = Some ps'"
  obtains (nobody) "\<not> list_ex asleep ps" "ps' = ps"
  | (somebody) i where "i < length ps" "asleep (ps ! i)" "ps' = ps[i := wake (ps ! i)]"
proof (cases k)
  case None
  then show ?thesis using assms nobody by (simp add: notify_one_def split: if_split_asm)
next
  case (Some i)
  then show ?thesis using assms somebody [of i] by (simp add: notify_one_def split: if_split_asm)
qed

lemma notify_length [simp]:
  "notify_one asleep wake k ps = Some ps' \<Longrightarrow> length ps' = length ps" "length (notify_all asleep wake ps) = length ps"
  by (auto simp: notify_all_def elim: notify_one_cases)

section \<open>Sums over threads\<close>

definition weigh :: "('p \<Rightarrow> nat) \<Rightarrow> 'p list \<Rightarrow> nat" where
  "weigh f ps = sum_list (map f ps)"

abbreviation number :: "('p \<Rightarrow> bool) \<Rightarrow> 'p list \<Rightarrow> nat" where
  "number P \<equiv> weigh (\<lambda>p. if P p then 1 else 0)"

lemma sum_update:
  fixes f :: "'p \<Rightarrow> 'm :: comm_monoid_add"
  shows "i < length ps \<Longrightarrow> sum_list (map f (ps[i := x])) + f (ps ! i) = sum_list (map f ps) + f x"
proof (induction ps arbitrary: i)
  case (Cons p ps)
  then show ?case by (cases i) (auto simp: ac_simps)
qed simp

lemma weigh_update: "i < length ps \<Longrightarrow> weigh f (ps[i := x]) + f (ps ! i) = weigh f ps + f x"
  unfolding weigh_def by (rule sum_update)

lemma weigh_pick: "p \<in> set ps \<Longrightarrow> f p \<le> weigh f ps"
  by (auto simp: weigh_def intro: member_le_sum_list)

lemma number_zero: "number P ps = 0 \<longleftrightarrow> \<not> list_ex P ps"
  by (auto simp: weigh_def list_ex_iff split: if_splits)

lemma notify_one_weigh:
  assumes "notify_one asleep wake k ps = Some ps'" and "\<And>p. asleep p \<Longrightarrow> f (wake p) \<le> f p + c"
  shows "weigh f ps' \<le> weigh f ps + c"
  using assms(1)
proof (cases rule: notify_one_cases)
  case (somebody i)
  then show ?thesis using weigh_update [OF somebody(1), of f "wake (ps ! i)"] assms(2) [OF somebody(2)] by simp
qed simp

lemma notify_all_weigh:
  assumes "\<And>p. asleep p \<Longrightarrow> f (wake p) \<le> f p + c"
  shows "weigh f (notify_all asleep wake ps) \<le> weigh f ps + c * length ps"
  using assms by (induction ps) (fastforce simp: weigh_def notify_all_def)+

section \<open>Runs that end\<close>

text \<open>A system whose steps keep an invariant and make a weight smaller, and which has a step unless it is finished.\<close>

locale ending_system =
  fixes step :: "'s \<Rightarrow> 's \<Rightarrow> bool" and inv :: "'s \<Rightarrow> bool" and weight :: "'s \<Rightarrow> nat" and finished :: "'s \<Rightarrow> bool"
  assumes keeps: "inv s \<Longrightarrow> step s s' \<Longrightarrow> inv s'"
    and lighter: "inv s \<Longrightarrow> step s s' \<Longrightarrow> weight s' < weight s"
    and progress: "inv s \<Longrightarrow> \<not> finished s \<Longrightarrow> \<exists>s'. step s s'"
begin

lemma run_bounded: "(step ^^ n) s s' \<Longrightarrow> inv s \<Longrightarrow> inv s' \<and> weight s' + n \<le> weight s"
proof (induction n arbitrary: s')
  case (Suc n)
  then obtain s1 where "(step ^^ n) s s1" "step s1 s'" by auto
  then show ?case using Suc keeps [of s1 s'] lighter [of s1 s'] by fastforce
qed simp

lemma run_ends:
  assumes "inv s"
  shows "(step ^^ n) s s' \<Longrightarrow> n \<le> weight s" and "step\<^sup>*\<^sup>* s s' \<Longrightarrow> \<exists>s''. step\<^sup>*\<^sup>* s' s'' \<and> finished s''"
    and "step\<^sup>*\<^sup>* s s' \<Longrightarrow> \<not> finished s' \<Longrightarrow> \<exists>s''. step s' s''"
proof -
  show "(step ^^ n) s s' \<Longrightarrow> n \<le> weight s" using run_bounded [OF _ assms] by fastforce
  have i: "inv s'" if "step\<^sup>*\<^sup>* s s'" for s'
    using run_bounded [OF _ assms] that by (auto simp: rtranclp_power)
  then show "step\<^sup>*\<^sup>* s s' \<Longrightarrow> \<not> finished s' \<Longrightarrow> \<exists>s''. step s' s''" using progress by blast
  have e: "inv x \<Longrightarrow> \<exists>s''. step\<^sup>*\<^sup>* x s'' \<and> finished s''" for x
  proof (induction "weight x" arbitrary: x rule: less_induct)
    case less
    show ?case
    proof (cases "finished x")
      case False
      then obtain y where "step x y" using progress [OF less.prems] by blast
      moreover from this obtain z where "step\<^sup>*\<^sup>* y z" "finished z"
        using less.hyps [OF lighter [OF less.prems] keeps [OF less.prems]] by blast
      ultimately show ?thesis by (meson converse_rtranclp_into_rtranclp)
    qed blast
  qed
  then show "step\<^sup>*\<^sup>* s s' \<Longrightarrow> \<exists>s''. step\<^sup>*\<^sup>* s' s'' \<and> finished s''" using i by blast
qed

end

end
