(* ===== verification/Fsx_Task_Pool.thy ===== *)
theory Fsx_Task_Pool
  imports Fsx_Threads
begin

text \<open>
  The worker pool \<^verbatim>\<open>TaskPool\<close> of \<^verbatim>\<open>include/fsx/task_pool.hpp\<close> as a machine whose steps are the critical sections, the
  notifications and the tasks themselves. Clients are threads that submit tasks one after the other; the owner is the thread
  that destroys the pool.
\<close>

section \<open>The machine\<close>

datatype 't worker = W_wait | W_asleep | W_popped 't | W_running 't | W_exited

datatype client_at = C_ready | C_asleep | C_notify

record 't client =
  c_at :: client_at
  c_todo :: "'t list"

datatype owner = O_idle | O_work | O_space | O_join | O_gone

text \<open>The last four fields are a protocol of what happened: tasks in the order they were queued, taken, run and refused.\<close>

record 't pool =
  tp_limit :: nat
  tp_queue :: "'t list"
  tp_stopping :: bool
  tp_workers :: "'t worker list"
  tp_clients :: "'t client list"
  tp_owner :: owner
  tp_accepted :: "'t list"
  tp_started :: "'t list"
  tp_ran :: "'t list"
  tp_refused :: "'t list"

definition pool_new :: "nat \<Rightarrow> nat \<Rightarrow> 't list list \<Rightarrow> 't pool" where
  "pool_new workers queue_limit jobs =
     \<lparr>tp_limit = (if queue_limit \<noteq> 0 then queue_limit else if workers \<noteq> 0 then workers * 4 else 4), tp_queue = [], tp_stopping = False,
      tp_workers = replicate (if workers = 0 then 1 else workers) W_wait,
      tp_clients = map (\<lambda>ts. \<lparr>c_at = C_ready, c_todo = ts\<rparr>) jobs, tp_owner = O_idle,
      tp_accepted = [], tp_started = [], tp_ran = [], tp_refused = []\<rparr>"

definition worker_asleep :: "'t worker \<Rightarrow> bool" where "worker_asleep w \<longleftrightarrow> w = W_asleep"
definition worker_awake :: "'t worker \<Rightarrow> 't worker" where "worker_awake w = W_wait"
definition client_asleep :: "'t client \<Rightarrow> bool" where "client_asleep c \<longleftrightarrow> c_at c = C_asleep"
definition client_awake :: "'t client \<Rightarrow> 't client" where "client_awake c = c\<lparr>c_at := C_ready\<rparr>"

text \<open>One round of \<^verbatim>\<open>worker_loop\<close>: the critical section, the notification of waiting clients, the task.\<close>

definition worker_step :: "nat \<Rightarrow> nat option \<Rightarrow> 't pool \<Rightarrow> 't pool option" where
  "worker_step i k s =
     (case tp_workers s ! i of
        W_wait \<Rightarrow>
          (case tp_queue s of
             [] \<Rightarrow> Some (s\<lparr>tp_workers := (tp_workers s)[i := if tp_stopping s then W_exited else W_asleep]\<rparr>)
           | t # q \<Rightarrow> Some (s\<lparr>tp_queue := q, tp_started := tp_started s @ [t], tp_workers := (tp_workers s)[i := W_popped t]\<rparr>))
      | W_popped t \<Rightarrow> map_option (\<lambda>cs. s\<lparr>tp_clients := cs, tp_workers := (tp_workers s)[i := W_running t]\<rparr>)
            (notify_one client_asleep client_awake k (tp_clients s))
      | W_running t \<Rightarrow> Some (s\<lparr>tp_ran := tp_ran s @ [t], tp_workers := (tp_workers s)[i := W_wait]\<rparr>)
      | _ \<Rightarrow> None)"

text \<open>\<^verbatim>\<open>submit\<close>: the critical section and the notification of a worker.\<close>

definition client_step :: "nat \<Rightarrow> nat option \<Rightarrow> 't pool \<Rightarrow> 't pool option" where
  "client_step j k s =
     (let c = tp_clients s ! j in
      case c_at c of
        C_ready \<Rightarrow>
          (case c_todo c of
             [] \<Rightarrow> None
           | t # ts \<Rightarrow>
               if \<not> tp_stopping s \<and> \<not> length (tp_queue s) < tp_limit s
               then Some (s\<lparr>tp_clients := (tp_clients s)[j := c\<lparr>c_at := C_asleep\<rparr>]\<rparr>)
               else if tp_stopping s
               then Some (s\<lparr>tp_refused := tp_refused s @ [t], tp_clients := (tp_clients s)[j := c\<lparr>c_todo := ts\<rparr>]\<rparr>)
               else Some (s\<lparr>tp_queue := tp_queue s @ [t], tp_accepted := tp_accepted s @ [t],
                       tp_clients := (tp_clients s)[j := \<lparr>c_at = C_notify, c_todo = ts\<rparr>]\<rparr>))
      | C_asleep \<Rightarrow> None
      | C_notify \<Rightarrow> map_option (\<lambda>ws. s\<lparr>tp_workers := ws, tp_clients := (tp_clients s)[j := c\<lparr>c_at := C_ready\<rparr>]\<rparr>)
            (notify_one worker_asleep worker_awake k (tp_workers s)))"

text \<open>The destructor.\<close>

definition owner_step :: "'t pool \<Rightarrow> 't pool option" where
  "owner_step s =
     (case tp_owner s of
        O_idle \<Rightarrow> Some (s\<lparr>tp_stopping := True, tp_owner := O_work\<rparr>)
      | O_work \<Rightarrow> Some (s\<lparr>tp_workers := notify_all worker_asleep worker_awake (tp_workers s), tp_owner := O_space\<rparr>)
      | O_space \<Rightarrow> Some (s\<lparr>tp_clients := notify_all client_asleep client_awake (tp_clients s), tp_owner := O_join\<rparr>)
      | O_join \<Rightarrow> if list_all (\<lambda>w. w = W_exited) (tp_workers s) then Some (s\<lparr>tp_owner := O_gone\<rparr>) else None
      | O_gone \<Rightarrow> None)"

datatype action = Worker nat "nat option" | Client nat "nat option" | Owner | Wake_worker nat | Wake_client nat

fun pool_next :: "action \<Rightarrow> 't pool \<Rightarrow> 't pool option" where
  "pool_next (Worker i k) s = (if i < length (tp_workers s) then worker_step i k s else None)"
| "pool_next (Client j k) s = (if j < length (tp_clients s) then client_step j k s else None)"
| "pool_next Owner s = owner_step s"
| "pool_next (Wake_worker i) s =
     (if i < length (tp_workers s) \<and> worker_asleep (tp_workers s ! i)
      then Some (s\<lparr>tp_workers := (tp_workers s)[i := worker_awake (tp_workers s ! i)]\<rparr>) else None)"
| "pool_next (Wake_client j) s =
     (if j < length (tp_clients s) \<and> client_asleep (tp_clients s ! j)
      then Some (s\<lparr>tp_clients := (tp_clients s)[j := client_awake (tp_clients s ! j)]\<rparr>) else None)"

inductive pool_reach :: "'t pool \<Rightarrow> 't pool \<Rightarrow> bool" for s0 where
  reach_start: "pool_reach s0 s0"
| reach_next: "pool_reach s0 s \<Longrightarrow> pool_next a s = Some s' \<Longrightarrow> pool_reach s0 s'"

text \<open>The steps that the threads owe: everything but wake-ups without reason and the decision to destroy the pool.\<close>

fun owed :: "action \<Rightarrow> 't pool \<Rightarrow> bool" where
  "owed (Worker i k) s = True"
| "owed (Client j k) s = True"
| "owed Owner s = (tp_owner s \<noteq> O_idle)"
| "owed _ s = False"

definition pool_step :: "'t pool \<Rightarrow> 't pool \<Rightarrow> bool" where
  "pool_step s s' \<longleftrightarrow> (\<exists>a. owed a s \<and> pool_next a s = Some s')"

definition pool_finished :: "'t pool \<Rightarrow> bool" where
  "pool_finished s \<longleftrightarrow> (\<forall>c \<in> set (tp_clients s). c_at c = C_ready \<and> c_todo c = []) \<and> tp_queue s = []
     \<and> mset (tp_ran s) = mset (tp_accepted s)
     \<and> (if tp_stopping s then tp_owner s = O_gone \<and> (\<forall>w \<in> set (tp_workers s). w = W_exited)
        else (\<forall>w \<in> set (tp_workers s). w = W_asleep) \<and> tp_refused s = [])"

section \<open>Invariant\<close>

fun held :: "'t worker \<Rightarrow> 't multiset" where
  "held (W_popped t) = {#t#}"
| "held (W_running t) = {#t#}"
| "held _ = {#}"

abbreviation in_hand :: "'t pool \<Rightarrow> 't multiset" where
  "in_hand s \<equiv> sum_list (map held (tp_workers s))"

abbreviation waiting_worker :: "'t worker \<Rightarrow> bool" where "waiting_worker w \<equiv> w = W_wait"
abbreviation popped_worker :: "'t worker \<Rightarrow> bool" where "popped_worker w \<equiv> (\<exists>t. w = W_popped t)"
abbreviation waiting_client :: "'t client \<Rightarrow> bool" where "waiting_client c \<equiv> c_at c = C_ready \<and> c_todo c \<noteq> []"
abbreviation notifying_client :: "'t client \<Rightarrow> bool" where "notifying_client c \<equiv> c_at c = C_notify"

definition pool_books :: "'t pool \<Rightarrow> bool" where
  "pool_books s \<longleftrightarrow> 0 < tp_limit s \<and> tp_workers s \<noteq> [] \<and> length (tp_queue s) \<le> tp_limit s \<and> (tp_stopping s \<longleftrightarrow> tp_owner s \<noteq> O_idle)
     \<and> tp_accepted s = tp_started s @ tp_queue s \<and> mset (tp_started s) = mset (tp_ran s) + in_hand s
     \<and> (tp_refused s \<noteq> [] \<longrightarrow> tp_stopping s)"

definition pool_threads :: "'t pool \<Rightarrow> bool" where
  "pool_threads s \<longleftrightarrow>
     (\<forall>c \<in> set (tp_clients s). client_asleep c \<longrightarrow> c_todo c \<noteq> [] \<and> tp_owner s \<notin> {O_join, O_gone})
     \<and> (\<forall>w \<in> set (tp_workers s). (worker_asleep w \<longrightarrow> tp_owner s \<in> {O_idle, O_work}) \<and> (w = W_exited \<longrightarrow> tp_stopping s \<and> tp_queue s = []))
     \<and> (tp_owner s = O_gone \<longrightarrow> (\<forall>w \<in> set (tp_workers s). w = W_exited))"

text \<open>No wake-up is lost: while a worker sleeps, every queued task has a worker or a notification on its way, and while a client
  sleeps, every free place of the queue has one.\<close>

definition work_wakeups :: "'t pool \<Rightarrow> bool" where
  "work_wakeups s \<longleftrightarrow> (\<not> tp_stopping s \<longrightarrow> list_ex worker_asleep (tp_workers s) \<longrightarrow>
     length (tp_queue s) \<le> number notifying_client (tp_clients s) + number waiting_worker (tp_workers s))"

definition space_wakeups :: "'t pool \<Rightarrow> bool" where
  "space_wakeups s \<longleftrightarrow> (\<not> tp_stopping s \<longrightarrow> list_ex client_asleep (tp_clients s) \<longrightarrow>
     tp_limit s \<le> length (tp_queue s) + number popped_worker (tp_workers s) + number waiting_client (tp_clients s))"

definition pool_inv :: "'t pool \<Rightarrow> bool" where
  "pool_inv s \<longleftrightarrow> pool_books s \<and> pool_threads s \<and> work_wakeups s \<and> space_wakeups s"

lemmas pool_inv_defs = pool_inv_def pool_books_def pool_threads_def work_wakeups_def space_wakeups_def

lemma pool_invI: "pool_books s \<Longrightarrow> pool_threads s \<Longrightarrow> work_wakeups s \<Longrightarrow> space_wakeups s \<Longrightarrow> pool_inv s"
  by (simp add: pool_inv_def)

lemmas held_update = sum_update [where f = held]

lemma in_update: "y \<in> set (xs[i := x]) \<Longrightarrow> y = x \<or> y \<in> set xs"
  using set_update_subset_insert [of xs i x] by auto

lemma ex_update: "list_ex P (xs[i := x]) \<Longrightarrow> P x \<or> list_ex P xs"
  by (auto simp: list_ex_iff dest!: in_update)

lemma notify_client:
  assumes "notify_one client_asleep client_awake k cs = Some cs'" and "\<forall>c \<in> set cs. client_asleep c \<longrightarrow> c_todo c \<noteq> []"
  shows "\<forall>c \<in> set cs'. client_asleep c \<longrightarrow> c \<in> set cs" and "number notifying_client cs' = number notifying_client cs"
    and "list_ex client_asleep cs' \<Longrightarrow> list_ex client_asleep cs \<and> number waiting_client cs' = number waiting_client cs + 1"
proof -
  have "(\<forall>c \<in> set cs'. client_asleep c \<longrightarrow> c \<in> set cs) \<and> number notifying_client cs' = number notifying_client cs
      \<and> (list_ex client_asleep cs' \<longrightarrow> list_ex client_asleep cs \<and> number waiting_client cs' = number waiting_client cs + 1)"
    using assms(1)
  proof (cases rule: notify_one_cases)
    case (somebody i)
    have c: "c_at (cs ! i) = C_asleep" "c_todo (cs ! i) \<noteq> []" using somebody assms(2) by (auto simp: client_asleep_def)
    have n: "number notifying_client cs' = number notifying_client cs" "number waiting_client cs' = number waiting_client cs + 1"
      using weigh_update [OF somebody(1), of "\<lambda>p. if notifying_client p then 1 else 0" "client_awake (cs ! i)"]
        weigh_update [OF somebody(1), of "\<lambda>p. if waiting_client p then 1 else 0" "client_awake (cs ! i)"] c somebody(3)
      by (simp_all add: client_awake_def)
    moreover have "\<forall>c \<in> set cs'. client_asleep c \<longrightarrow> c \<in> set cs"
      using somebody(3) by (auto dest!: in_update simp: client_asleep_def client_awake_def)
    ultimately show ?thesis by (auto simp: list_ex_iff)
  qed auto
  then show "\<forall>c \<in> set cs'. client_asleep c \<longrightarrow> c \<in> set cs" "number notifying_client cs' = number notifying_client cs"
    "list_ex client_asleep cs' \<Longrightarrow> list_ex client_asleep cs \<and> number waiting_client cs' = number waiting_client cs + 1" by blast+
qed

lemma notify_worker:
  assumes "notify_one worker_asleep worker_awake k ws = Some ws'"
  shows "\<forall>w \<in> set ws'. worker_asleep w \<or> w = W_exited \<longrightarrow> w \<in> set ws" and "number popped_worker ws' = number popped_worker ws"
    and "sum_list (map held ws') = sum_list (map held ws)" and "(\<forall>w \<in> set ws. w = W_exited) \<Longrightarrow> \<forall>w \<in> set ws'. w = W_exited"
    and "list_ex worker_asleep ws' \<Longrightarrow> list_ex worker_asleep ws \<and> number waiting_worker ws' = number waiting_worker ws + 1"
proof -
  have "(\<forall>w \<in> set ws'. worker_asleep w \<or> w = W_exited \<longrightarrow> w \<in> set ws) \<and> number popped_worker ws' = number popped_worker ws
      \<and> sum_list (map held ws') = sum_list (map held ws) \<and> ((\<forall>w \<in> set ws. w = W_exited) \<longrightarrow> (\<forall>w \<in> set ws'. w = W_exited))
      \<and> (list_ex worker_asleep ws' \<longrightarrow> list_ex worker_asleep ws \<and> number waiting_worker ws' = number waiting_worker ws + 1)"
    using assms(1)
  proof (cases rule: notify_one_cases)
    case (somebody i)
    have w: "ws ! i = W_asleep" and ws': "ws' = ws[i := W_wait]" using somebody by (simp_all add: worker_asleep_def worker_awake_def)
    have n: "number popped_worker ws' = number popped_worker ws" "number waiting_worker ws' = number waiting_worker ws + 1"
        "sum_list (map held ws') = sum_list (map held ws)"
      using weigh_update [OF somebody(1), of "\<lambda>p. if popped_worker p then 1 else 0" W_wait] held_update [OF somebody(1), of W_wait]
        weigh_update [OF somebody(1), of "\<lambda>p. if waiting_worker p then 1 else 0" W_wait] w ws' by simp_all
    moreover have "\<forall>w \<in> set ws'. worker_asleep w \<or> w = W_exited \<longrightarrow> w \<in> set ws" using ws' by (auto dest!: in_update simp: worker_asleep_def)
    moreover have "\<not> (\<forall>w \<in> set ws. w = W_exited)" using w somebody(1) by (metis nth_mem worker.distinct(13))
    ultimately show ?thesis by (auto simp: list_ex_iff)
  qed auto
  then show "\<forall>w \<in> set ws'. worker_asleep w \<or> w = W_exited \<longrightarrow> w \<in> set ws" "number popped_worker ws' = number popped_worker ws"
    "sum_list (map held ws') = sum_list (map held ws)" "(\<forall>w \<in> set ws. w = W_exited) \<Longrightarrow> \<forall>w \<in> set ws'. w = W_exited"
    "list_ex worker_asleep ws' \<Longrightarrow> list_ex worker_asleep ws \<and> number waiting_worker ws' = number waiting_worker ws + 1" by blast+
qed


lemma none_held: "sum_list (replicate n {#}) = {#}"
  by (induction n) auto

lemma new_inv: "pool_inv (pool_new n m jobs)"
  by (auto simp: none_held pool_inv_defs pool_new_def client_asleep_def worker_asleep_def list_ex_iff)

lemma worker_step_cases:
  assumes run: "worker_step i k s = Some s'"
  obtains (rest) "tp_workers s ! i = W_wait" "tp_queue s = []"
      "s' = s\<lparr>tp_workers := (tp_workers s)[i := if tp_stopping s then W_exited else W_asleep]\<rparr>"
  | (take) t q where "tp_workers s ! i = W_wait" "tp_queue s = t # q"
      "s' = s\<lparr>tp_queue := q, tp_started := tp_started s @ [t], tp_workers := (tp_workers s)[i := W_popped t]\<rparr>"
  | (tell) t cs where "tp_workers s ! i = W_popped t" "notify_one client_asleep client_awake k (tp_clients s) = Some cs"
      "s' = s\<lparr>tp_clients := cs, tp_workers := (tp_workers s)[i := W_running t]\<rparr>"
  | (finish) t where "tp_workers s ! i = W_running t" "s' = s\<lparr>tp_ran := tp_ran s @ [t], tp_workers := (tp_workers s)[i := W_wait]\<rparr>"
proof (cases "tp_workers s ! i")
  case W_wait
  then show ?thesis using run rest take by (cases "tp_queue s") (simp_all add: worker_step_def)
next
  case (W_popped t)
  then show ?thesis using run tell by (auto simp: worker_step_def)
next
  case (W_running t)
  then show ?thesis using run finish by (simp add: worker_step_def)
qed (use run in \<open>simp_all add: worker_step_def\<close>)

lemma client_step_cases:
  assumes run: "client_step j k s = Some s'"
  obtains (sleep) t ts where "c_at (tp_clients s ! j) = C_ready" "c_todo (tp_clients s ! j) = t # ts" "\<not> tp_stopping s" "tp_limit s \<le> length (tp_queue s)"
      "s' = s\<lparr>tp_clients := (tp_clients s)[j := (tp_clients s ! j)\<lparr>c_at := C_asleep\<rparr>]\<rparr>"
  | (refuse) t ts where "c_at (tp_clients s ! j) = C_ready" "c_todo (tp_clients s ! j) = t # ts" "tp_stopping s"
      "s' = s\<lparr>tp_refused := tp_refused s @ [t], tp_clients := (tp_clients s)[j := (tp_clients s ! j)\<lparr>c_todo := ts\<rparr>]\<rparr>"
  | (push) t ts where "c_at (tp_clients s ! j) = C_ready" "c_todo (tp_clients s ! j) = t # ts" "\<not> tp_stopping s" "length (tp_queue s) < tp_limit s"
      "s' = s\<lparr>tp_queue := tp_queue s @ [t], tp_accepted := tp_accepted s @ [t], tp_clients := (tp_clients s)[j := \<lparr>c_at = C_notify, c_todo = ts\<rparr>]\<rparr>"
  | (tell) ws where "c_at (tp_clients s ! j) = C_notify" "notify_one worker_asleep worker_awake k (tp_workers s) = Some ws"
      "s' = s\<lparr>tp_workers := ws, tp_clients := (tp_clients s)[j := (tp_clients s ! j)\<lparr>c_at := C_ready\<rparr>]\<rparr>"
proof (cases "c_at (tp_clients s ! j)")
  case C_ready
  then obtain t ts where t: "c_todo (tp_clients s ! j) = t # ts" using run by (cases "c_todo (tp_clients s ! j)") (simp_all add: client_step_def)
  consider "tp_stopping s" | "\<not> tp_stopping s" "tp_limit s \<le> length (tp_queue s)" | "\<not> tp_stopping s" "length (tp_queue s) < tp_limit s" by linarith
  then show ?thesis
  proof cases
    case 1
    then show ?thesis using run C_ready t refuse by (simp add: client_step_def)
  next
    case 2
    then show ?thesis using run C_ready t sleep by (simp add: client_step_def)
  next
    case 3
    then show ?thesis using run C_ready t push by (simp add: client_step_def)
  qed
next
  case C_notify
  then show ?thesis using run tell by (auto simp: client_step_def Let_def)
qed (use run in \<open>simp add: client_step_def\<close>)

lemma worker_inv:
  assumes inv: "pool_inv s" and run: "worker_step i k s = Some s'" and i: "i < length (tp_workers s)"
  shows "pool_inv s'"
proof -
  let ?ws = "tp_workers s" and ?cs = "tp_clients s"
  have w: "?ws ! i \<in> set ?ws" using i by simp
  have b: "pool_books s" and th: "pool_threads s" and ww: "work_wakeups s" and sw: "space_wakeups s" using inv by (simp_all add: pool_inv_def)
  note np = weigh_update [OF i, of "\<lambda>p. if popped_worker p then 1 else 0"] and nw = weigh_update [OF i, of "\<lambda>p. if waiting_worker p then 1 else 0"]
    and hd = held_update [OF i]
  from run show ?thesis
  proof (cases rule: worker_step_cases)
    case rest
    let ?x = "if tp_stopping s then W_exited else W_asleep"
    note s' = rest(3)
    show ?thesis
    proof (rule pool_invI)
      show "pool_books s'" using b hd [of ?x] rest by (auto simp: s' pool_books_def)
      show "pool_threads s'" using th b w rest by (auto simp: s' pool_threads_def pool_books_def worker_asleep_def dest!: in_update)
      show "work_wakeups s'" using rest by (simp add: s' work_wakeups_def)
      show "space_wakeups s'" using sw np [of ?x] rest by (auto simp: s' space_wakeups_def)
    qed
  next
    case (take t q)
    note s' = take(3)
    show ?thesis
    proof (rule pool_invI)
      show "pool_books s'" using b hd [of "W_popped t"] take by (auto simp: s' pool_books_def)
      show "pool_threads s'" using th w take by (auto simp: s' pool_threads_def worker_asleep_def dest!: in_update)
      show "work_wakeups s'" using ww nw [of "W_popped t"] take by (auto simp: s' work_wakeups_def worker_asleep_def dest!: ex_update)
      show "space_wakeups s'" using sw np [of "W_popped t"] take by (auto simp: s' space_wakeups_def)
    qed
  next
    case (tell t cs)
    note cs = tell(2) and s' = tell(3)
    have "\<forall>c \<in> set ?cs. client_asleep c \<longrightarrow> c_todo c \<noteq> []" using th by (auto simp: pool_threads_def)
    note nc = notify_client [OF cs this]
    show ?thesis
    proof (rule pool_invI)
      show "pool_books s'" using b hd [of "W_running t"] tell by (auto simp: s' pool_books_def)
      show "pool_threads s'" using th w tell nc(1) by (auto simp: s' pool_threads_def worker_asleep_def dest!: in_update)
      show "work_wakeups s'" using ww nw [of "W_running t"] tell nc(2) by (auto simp: s' work_wakeups_def worker_asleep_def dest!: ex_update)
      show "space_wakeups s'" using sw np [of "W_running t"] tell nc(3) by (auto simp: s' space_wakeups_def)
    qed
  next
    case (finish t)
    note s' = finish(2)
    show ?thesis
    proof (rule pool_invI)
      show "pool_books s'" using b hd [of W_wait] finish by (auto simp: s' pool_books_def)
      show "pool_threads s'" using th w finish by (auto simp: s' pool_threads_def worker_asleep_def dest!: in_update)
      show "work_wakeups s'" using ww nw [of W_wait] finish by (auto simp: s' work_wakeups_def worker_asleep_def dest!: ex_update)
      show "space_wakeups s'" using sw np [of W_wait] finish by (auto simp: s' space_wakeups_def)
    qed
  qed
qed

lemma client_inv:
  assumes inv: "pool_inv s" and run: "client_step j k s = Some s'" and j: "j < length (tp_clients s)"
  shows "pool_inv s'"
proof -
  let ?ws = "tp_workers s" and ?cs = "tp_clients s" and ?c = "tp_clients s ! j"
  have c: "?c \<in> set ?cs" using j by simp
  have b: "pool_books s" and th: "pool_threads s" and ww: "work_wakeups s" and sw: "space_wakeups s" using inv by (simp_all add: pool_inv_def)
  note nn = weigh_update [OF j, of "\<lambda>p. if notifying_client p then 1 else 0"] and nc = weigh_update [OF j, of "\<lambda>p. if waiting_client p then 1 else 0"]
  from run show ?thesis
  proof (cases rule: client_step_cases)
    case (sleep t ts)
    let ?n = "?c\<lparr>c_at := C_asleep\<rparr>"
    note s' = sleep(5)
    show ?thesis
    proof (rule pool_invI)
      show "pool_books s'" using b by (auto simp: s' pool_books_def)
      show "pool_threads s'" using th sleep b by (auto simp: s' pool_threads_def pool_books_def client_asleep_def dest!: in_update)
      show "work_wakeups s'" using ww nn [of ?n] sleep by (auto simp: s' work_wakeups_def)
      show "space_wakeups s'" using sleep by (simp add: s' space_wakeups_def)
    qed
  next
    case (refuse t ts)
    note s' = refuse(4)
    show ?thesis
    proof (rule pool_invI)
      show "pool_books s'" using b refuse by (auto simp: s' pool_books_def)
      show "pool_threads s'" using th refuse by (auto simp: s' pool_threads_def client_asleep_def dest!: in_update)
    qed (use refuse in \<open>simp_all add: s' work_wakeups_def space_wakeups_def\<close>)
  next
    case (push t ts)
    let ?n = "\<lparr>c_at = C_notify, c_todo = ts\<rparr>"
    note s' = push(5)
    show ?thesis
    proof (rule pool_invI)
      show "pool_books s'" using b push by (auto simp: s' pool_books_def)
      show "pool_threads s'" using th push by (auto simp: s' pool_threads_def client_asleep_def dest!: in_update)
      show "work_wakeups s'" using ww nn [of ?n] push by (auto simp: s' work_wakeups_def)
      show "space_wakeups s'" using sw nc [of ?n] push by (auto simp: s' space_wakeups_def client_asleep_def dest!: ex_update)
    qed
  next
    case (tell ws)
    let ?n = "?c\<lparr>c_at := C_ready\<rparr>"
    note ws = tell(2) and s' = tell(3)
    note nt = notify_worker [OF ws]
    show ?thesis
    proof (rule pool_invI)
      have "ws \<noteq> []" using b notify_length(1) [OF ws] by (auto simp: pool_books_def)
      then show "pool_books s'" using b nt(3) by (auto simp: s' pool_books_def)
      have "\<forall>x \<in> set (?cs[j := ?n]). client_asleep x \<longrightarrow> x \<in> set ?cs" by (auto simp: client_asleep_def dest!: in_update)
      then show "pool_threads s'" using th nt(1,4) by (simp add: s' pool_threads_def) blast
      show "work_wakeups s'" using ww nn [of ?n] nt(5) tell by (auto simp: s' work_wakeups_def)
      have "list_ex client_asleep (?cs[j := ?n]) \<Longrightarrow> list_ex client_asleep ?cs" by (auto simp: client_asleep_def dest!: ex_update)
      then show "space_wakeups s'" using sw nc [of ?n] nt(2) tell by (auto simp: s' space_wakeups_def)
    qed
  qed
qed


lemma all_awake:
  "\<not> list_ex worker_asleep (notify_all worker_asleep worker_awake ws)" "\<not> list_ex client_asleep (notify_all client_asleep client_awake cs)"
  "sum_list (map held (notify_all worker_asleep worker_awake ws)) = sum_list (map held ws)" "notify_all worker_asleep worker_awake ws = [] \<longleftrightarrow> ws = []"
proof -
  show "notify_all worker_asleep worker_awake ws = [] \<longleftrightarrow> ws = []" by (simp add: notify_all_def)
  show "\<not> list_ex worker_asleep (notify_all worker_asleep worker_awake ws)" "\<not> list_ex client_asleep (notify_all client_asleep client_awake cs)"
    by (auto simp: notify_all_def list_ex_iff worker_asleep_def worker_awake_def client_asleep_def client_awake_def)
  show "sum_list (map held (notify_all worker_asleep worker_awake ws)) = sum_list (map held ws)"
    by (induction ws) (auto simp: notify_all_def worker_asleep_def worker_awake_def)
qed

lemma notify_all_set:
  "w \<in> set (notify_all worker_asleep worker_awake ws) \<Longrightarrow> w = W_exited \<Longrightarrow> w \<in> set ws"
  by (auto simp: notify_all_def worker_awake_def split: if_split_asm)

lemma owner_inv:
  assumes inv: "pool_inv s" and run: "owner_step s = Some s'"
  shows "pool_inv s'"
proof -
  have b: "pool_books s" and th: "pool_threads s" using inv by (simp_all add: pool_inv_def)
  have "pool_books s' \<and> pool_threads s' \<and> tp_stopping s'"
  proof (cases "tp_owner s")
    case O_idle
    then have "s' = s\<lparr>tp_stopping := True, tp_owner := O_work\<rparr>" using run by (simp add: owner_step_def)
    then show ?thesis using b th O_idle by (auto simp: pool_books_def pool_threads_def)
  next
    case O_work
    then have "s' = s\<lparr>tp_workers := notify_all worker_asleep worker_awake (tp_workers s), tp_owner := O_space\<rparr>" using run by (simp add: owner_step_def)
    moreover have "\<forall>w \<in> set (notify_all worker_asleep worker_awake (tp_workers s)). \<not> worker_asleep w" using all_awake(1) by (auto simp: list_ex_iff)
    ultimately show ?thesis using b th O_work by (auto simp: pool_books_def pool_threads_def all_awake(3,4) dest: notify_all_set)
  next
    case O_space
    then have "s' = s\<lparr>tp_clients := notify_all client_asleep client_awake (tp_clients s), tp_owner := O_join\<rparr>" using run by (simp add: owner_step_def)
    moreover have "\<forall>c \<in> set (notify_all client_asleep client_awake (tp_clients s)). \<not> client_asleep c" using all_awake(2) by (auto simp: list_ex_iff)
    ultimately show ?thesis using b th O_space by (auto simp: pool_books_def pool_threads_def)
  next
    case O_join
    then have "s' = s\<lparr>tp_owner := O_gone\<rparr>" "list_all (\<lambda>w. w = W_exited) (tp_workers s)" using run by (auto simp: owner_step_def split: if_split_asm)
    then show ?thesis using b th O_join by (auto simp: pool_books_def pool_threads_def list_all_iff worker_asleep_def)
  qed (use run in \<open>simp add: owner_step_def\<close>)
  then show ?thesis by (intro pool_invI) (simp_all add: work_wakeups_def space_wakeups_def)
qed

lemma woken_worker_inv:
  assumes inv: "pool_inv s" and ws: "notify_one worker_asleep worker_awake k (tp_workers s) = Some ws"
  shows "pool_inv (s\<lparr>tp_workers := ws\<rparr>)"
proof (rule pool_invI)
  have b: "pool_books s" and th: "pool_threads s" and ww: "work_wakeups s" and sw: "space_wakeups s" using inv by (simp_all add: pool_inv_def)
  note nt = notify_worker [OF ws]
  have "ws \<noteq> []" using b notify_length(1) [OF ws] by (auto simp: pool_books_def)
  then show "pool_books (s\<lparr>tp_workers := ws\<rparr>)" using b nt(3) by (auto simp: pool_books_def)
  show "pool_threads (s\<lparr>tp_workers := ws\<rparr>)" using th nt(1,4) by (simp add: pool_threads_def) blast
  show "work_wakeups (s\<lparr>tp_workers := ws\<rparr>)" using ww nt(5) by (auto simp: work_wakeups_def)
  show "space_wakeups (s\<lparr>tp_workers := ws\<rparr>)" using sw nt(2) by (simp add: space_wakeups_def)
qed

lemma woken_client_inv:
  assumes inv: "pool_inv s" and cs: "notify_one client_asleep client_awake k (tp_clients s) = Some cs"
  shows "pool_inv (s\<lparr>tp_clients := cs\<rparr>)"
proof (rule pool_invI)
  have b: "pool_books s" and th: "pool_threads s" and ww: "work_wakeups s" and sw: "space_wakeups s" using inv by (simp_all add: pool_inv_def)
  have "\<forall>c \<in> set (tp_clients s). client_asleep c \<longrightarrow> c_todo c \<noteq> []" using th by (auto simp: pool_threads_def)
  note nt = notify_client [OF cs this]
  show "pool_books (s\<lparr>tp_clients := cs\<rparr>)" using b by (auto simp: pool_books_def)
  show "pool_threads (s\<lparr>tp_clients := cs\<rparr>)" using th nt(1) by (simp add: pool_threads_def) blast
  show "work_wakeups (s\<lparr>tp_clients := cs\<rparr>)" using ww nt(2) by (simp add: work_wakeups_def)
  show "space_wakeups (s\<lparr>tp_clients := cs\<rparr>)" using sw nt(3) by (auto simp: space_wakeups_def)
qed

lemma pool_next_inv:
  assumes inv: "pool_inv s" and run: "pool_next a s = Some s'"
  shows "pool_inv s'"
proof (cases a)
  case (Wake_worker i)
  then show ?thesis using run woken_worker_inv [OF inv, of "Some i"] by (auto simp: notify_one_def split: if_split_asm)
next
  case (Wake_client i)
  then show ?thesis using run woken_client_inv [OF inv, of "Some i"] by (auto simp: notify_one_def split: if_split_asm)
qed (use run in \<open>auto split: if_split_asm intro: worker_inv [OF inv] client_inv [OF inv] owner_inv [OF inv]\<close>)

lemma pool_reach_inv: "pool_reach (pool_new n m jobs) s \<Longrightarrow> pool_inv s"
  by (induction rule: pool_reach.induct) (auto intro: new_inv pool_next_inv)

section \<open>Every run ends\<close>

fun worker_weight :: "'t worker \<Rightarrow> nat" where
  "worker_weight W_wait = 1"
| "worker_weight (W_popped t) = 4"
| "worker_weight (W_running t) = 2"
| "worker_weight _ = 0"

definition client_weight :: "'t client \<Rightarrow> nat" where
  "client_weight c = 8 * length (c_todo c) + (case c_at c of C_ready \<Rightarrow> 1 | C_asleep \<Rightarrow> 0 | C_notify \<Rightarrow> 3)"

fun owner_weight :: "nat \<Rightarrow> nat \<Rightarrow> owner \<Rightarrow> nat" where
  "owner_weight n m O_idle = 0"
| "owner_weight n m O_work = 3 + n + m"
| "owner_weight n m O_space = 2 + m"
| "owner_weight n m O_join = 1"
| "owner_weight n m O_gone = 0"

definition pool_weight :: "'t pool \<Rightarrow> nat" where
  "pool_weight s = weigh worker_weight (tp_workers s) + weigh client_weight (tp_clients s) + 4 * length (tp_queue s)
     + owner_weight (length (tp_workers s)) (length (tp_clients s)) (tp_owner s)"

lemma pool_lighter:
  assumes "pool_step s s'"
  shows "pool_weight s' < pool_weight s"
proof -
  obtain a where o: "owed a s" and run: "pool_next a s = Some s'" using assms by (auto simp: pool_step_def)
  show ?thesis
  proof (cases a)
    case (Worker i k)
    have i: "i < length (tp_workers s)" and st: "worker_step i k s = Some s'" using run by (auto simp: Worker split: if_split_asm)
    note u = weigh_update [OF i, of worker_weight]
    from st show ?thesis
    proof (cases rule: worker_step_cases)
      case rest
      then show ?thesis using u [of "if tp_stopping s then W_exited else W_asleep"] by (auto simp: pool_weight_def)
    next
      case (take t q)
      then show ?thesis using u [of "W_popped t"] by (simp add: pool_weight_def)
    next
      case (tell t cs)
      have "weigh client_weight cs \<le> weigh client_weight (tp_clients s) + 1" "length cs = length (tp_clients s)"
        using notify_one_weigh [OF tell(2), of client_weight 1] notify_length(1) [OF tell(2)]
        by (simp_all add: client_asleep_def client_awake_def client_weight_def)
      then show ?thesis using tell u [of "W_running t"] by (simp add: pool_weight_def)
    next
      case (finish t)
      then show ?thesis using u [of W_wait] by (simp add: pool_weight_def)
    qed
  next
    case (Client j k)
    have j: "j < length (tp_clients s)" and st: "client_step j k s = Some s'" using run by (auto simp: Client split: if_split_asm)
    note u = weigh_update [OF j, of client_weight]
    from st show ?thesis
    proof (cases rule: client_step_cases)
      case (sleep t ts)
      then show ?thesis using u [of "(tp_clients s ! j)\<lparr>c_at := C_asleep\<rparr>"] by (simp add: pool_weight_def client_weight_def)
    next
      case (refuse t ts)
      then show ?thesis using u [of "(tp_clients s ! j)\<lparr>c_todo := ts\<rparr>"] by (simp add: pool_weight_def client_weight_def)
    next
      case (push t ts)
      then show ?thesis using u [of "\<lparr>c_at = C_notify, c_todo = ts\<rparr>"] by (simp add: pool_weight_def client_weight_def)
    next
      case (tell ws)
      have "weigh worker_weight ws \<le> weigh worker_weight (tp_workers s) + 1" "length ws = length (tp_workers s)"
        using notify_one_weigh [OF tell(2), of worker_weight 1] notify_length(1) [OF tell(2)]
        by (simp_all add: worker_asleep_def worker_awake_def)
      then show ?thesis using tell u [of "(tp_clients s ! j)\<lparr>c_at := C_ready\<rparr>"] by (simp add: pool_weight_def client_weight_def)
    qed
  next
    case Owner
    have w: "weigh worker_weight (notify_all worker_asleep worker_awake ws) \<le> weigh worker_weight ws + 1 * length ws" for ws :: "'a worker list"
      by (rule notify_all_weigh) (simp add: worker_asleep_def worker_awake_def)
    have c: "weigh client_weight (notify_all client_asleep client_awake cs) \<le> weigh client_weight cs + 1 * length cs" for cs :: "'a client list"
      by (rule notify_all_weigh) (simp add: client_asleep_def client_awake_def client_weight_def)
    show ?thesis
      using run o w [of "tp_workers s"] c [of "tp_clients s"]
      by (cases "tp_owner s") (auto simp: Owner owner_step_def pool_weight_def split: if_split_asm)
  qed (use o in auto)
qed


lemma stepI: "owed a s \<Longrightarrow> pool_next a s = Some s' \<Longrightarrow> \<exists>s'. pool_step s s'"
  by (auto simp: pool_step_def)

lemma worker_can_step:
  assumes "w \<in> set (tp_workers s)" and "w \<noteq> W_asleep" and "w \<noteq> W_exited"
  shows "\<exists>s'. pool_step s s'"
proof -
  obtain i where i: "i < length (tp_workers s)" "tp_workers s ! i = w" using assms(1) by (auto simp: in_set_conv_nth)
  obtain k cs where n: "notify_one client_asleep client_awake k (tp_clients s) = Some cs" using notify_one_possible by blast
  have "\<exists>s'. worker_step i k s = Some s'" using i(2) assms(2,3) n by (cases w; cases "tp_queue s") (simp_all add: worker_step_def)
  then show ?thesis using i(1) by (auto intro: stepI [of "Worker i k"])
qed

lemma client_can_step:
  assumes "c \<in> set (tp_clients s)" and "\<not> client_asleep c" and "c_at c \<noteq> C_ready \<or> c_todo c \<noteq> []"
  shows "\<exists>s'. pool_step s s'"
proof -
  obtain j where j: "j < length (tp_clients s)" "tp_clients s ! j = c" using assms(1) by (auto simp: in_set_conv_nth)
  obtain k ws where n: "notify_one worker_asleep worker_awake k (tp_workers s) = Some ws" using notify_one_possible by blast
  have "\<exists>s'. client_step j k s = Some s'"
    using j(2) assms(2,3) n by (cases "c_at c"; cases "c_todo c") (auto simp: client_step_def client_asleep_def Let_def)
  then show ?thesis using j(1) by (auto intro: stepI [of "Client j k"])
qed

lemma idle_hands: "\<forall>w \<in> set ws. w = W_asleep \<or> w = W_exited \<Longrightarrow> sum_list (map held ws) = {#}"
  by (induction ws) auto

lemma pool_progress:
  assumes inv: "pool_inv s" and stuck: "\<nexists>s'. pool_step s s'"
  shows "pool_finished s"
proof -
  have b: "pool_books s" and th: "pool_threads s" and ww: "work_wakeups s" and sw: "space_wakeups s" using inv by (simp_all add: pool_inv_def)
  have ws: "\<forall>w \<in> set (tp_workers s). w = W_asleep \<or> w = W_exited" using worker_can_step [of _ s] stuck by blast
  have cs: "\<forall>c \<in> set (tp_clients s). client_asleep c \<or> c_at c = C_ready \<and> c_todo c = []" using client_can_step [of _ s] stuck by blast
  have nobody: "number notifying_client (tp_clients s) = 0" "number waiting_client (tp_clients s) = 0"
    "number popped_worker (tp_workers s) = 0" "number waiting_worker (tp_workers s) = 0"
    unfolding number_zero using ws cs by (auto simp: list_ex_iff client_asleep_def)
  have "in_hand s = {#}" by (rule idle_hands [OF ws])
  then have ran: "mset (tp_started s) = mset (tp_ran s)" using b by (simp add: pool_books_def)
  show ?thesis
  proof (cases "tp_stopping s")
    case False
    have all: "\<forall>w \<in> set (tp_workers s). w = W_asleep" using ws th False by (auto simp: pool_threads_def)
    then have "list_ex worker_asleep (tp_workers s)" using b by (auto simp: list_ex_iff worker_asleep_def pool_books_def neq_Nil_conv)
    then have q: "tp_queue s = []" using ww False nobody by (simp add: work_wakeups_def)
    then have "\<not> list_ex client_asleep (tp_clients s)" using sw False nobody b by (auto simp: space_wakeups_def pool_books_def)
    then show ?thesis using False all q cs ran b by (auto simp: pool_finished_def list_ex_iff pool_books_def)
  next
    case True
    have "tp_owner s \<noteq> O_idle" using True b by (simp add: pool_books_def)
    then have none: "owner_step s = None" using stuck stepI [of Owner s] by (cases "owner_step s") auto
    then have o: "tp_owner s = O_join \<or> tp_owner s = O_gone" using \<open>tp_owner s \<noteq> O_idle\<close> by (cases "tp_owner s") (auto simp: owner_step_def)
    then have ex: "\<forall>w \<in> set (tp_workers s). w = W_exited" using ws th by (auto simp: pool_threads_def worker_asleep_def)
    then have "tp_owner s = O_gone" using none o by (auto simp: owner_step_def list_all_iff)
    moreover have "tp_queue s = []" using ex th b by (auto simp: pool_threads_def pool_books_def neq_Nil_conv)
    moreover have "\<forall>c \<in> set (tp_clients s). c_at c = C_ready \<and> c_todo c = []" using cs th o by (auto simp: pool_threads_def)
    ultimately show ?thesis using True ex ran b by (simp add: pool_finished_def pool_books_def)
  qed
qed

interpretation pool: ending_system pool_step pool_inv pool_weight pool_finished
  by unfold_locales (auto simp: pool_step_def intro: pool_next_inv pool_lighter [unfolded pool_step_def] dest: pool_progress [unfolded pool_step_def])


section \<open>Where the tasks go\<close>

abbreviation pending :: "'t client list \<Rightarrow> 't multiset" where
  "pending cs \<equiv> sum_list (map (\<lambda>c. mset (c_todo c)) cs)"

lemmas pending_update = sum_update [where f = "\<lambda>c. mset (c_todo c)"]

lemma pending_awake:
  "notify_one client_asleep client_awake k cs = Some cs' \<Longrightarrow> pending cs' = pending cs" "pending (notify_all client_asleep client_awake cs) = pending cs"
proof -
  show "pending cs' = pending cs" if "notify_one client_asleep client_awake k cs = Some cs'"
    using that
  proof (cases rule: notify_one_cases)
    case (somebody i)
    then show ?thesis using pending_update [OF somebody(1), of "client_awake (cs ! i)"] by (simp add: client_awake_def)
  qed simp
  show "pending (notify_all client_asleep client_awake cs) = pending cs"
    by (induction cs) (auto simp: notify_all_def client_awake_def)
qed

lemma pool_next_conserves:
  assumes "pool_next a s = Some s'"
  shows "mset (tp_accepted s') + mset (tp_refused s') + pending (tp_clients s') = mset (tp_accepted s) + mset (tp_refused s) + pending (tp_clients s)"
proof (cases a)
  case (Worker i k)
  then have "worker_step i k s = Some s'" using assms by (simp split: if_split_asm)
  then show ?thesis by (cases rule: worker_step_cases) (auto simp: pending_awake)
next
  case (Client j k)
  then have j: "j < length (tp_clients s)" and "client_step j k s = Some s'" using assms by (simp_all split: if_split_asm)
  note u = pending_update [OF j]
  from \<open>client_step j k s = Some s'\<close> show ?thesis
  proof (cases rule: client_step_cases)
    case (sleep t ts)
    then show ?thesis using u [of "(tp_clients s ! j)\<lparr>c_at := C_asleep\<rparr>"] by simp
  next
    case (refuse t ts)
    then show ?thesis using u [of "(tp_clients s ! j)\<lparr>c_todo := ts\<rparr>"] by simp
  next
    case (push t ts)
    then show ?thesis using u [of "\<lparr>c_at = C_notify, c_todo = ts\<rparr>"] by simp
  next
    case (tell ws)
    then show ?thesis using u [of "(tp_clients s ! j)\<lparr>c_at := C_ready\<rparr>"] by simp
  qed
next
  case (Wake_client j)
  then show ?thesis using assms pending_awake(1) [of "Some j" "tp_clients s"] by (auto simp: notify_one_def split: if_split_asm)
qed (use assms in \<open>auto simp: owner_step_def pending_awake split: owner.splits if_split_asm\<close>)

lemma pool_reach_conserves:
  "pool_reach (pool_new n m jobs) s \<Longrightarrow> mset (tp_accepted s) + mset (tp_refused s) + pending (tp_clients s) = mset (concat jobs)"
proof (induction rule: pool_reach.induct)
  case reach_start
  show ?case by (induction jobs) (simp_all add: pool_new_def)
next
  case (reach_next s a s')
  then show ?case using pool_next_conserves by metis
qed

text \<open>C37. The pool loses no task and runs none twice: in every state that any interleaving of workers, submitting threads and the
  destructor can reach, with any choice of the threads that a notification wakes and with wake-ups without reason, tasks were
  started exactly in the order they were queued, each started task has run or is in the hands of one worker, the queue is
  not longer than its limit, and every task of the clients was queued, was refused because the pool is being destroyed, or is
  still to be submitted.\<close>

theorem pool_each_task_once:
  assumes "pool_reach (pool_new workers queue_limit jobs) s"
  shows "tp_accepted s = tp_started s @ tp_queue s \<and> mset (tp_started s) = mset (tp_ran s) + sum_list (map held (tp_workers s))
    \<and> length (tp_queue s) \<le> tp_limit s \<and> (tp_refused s = [] \<or> tp_stopping s)
    \<and> mset (concat jobs) = mset (tp_accepted s) + mset (tp_refused s) + sum_list (map (\<lambda>c. mset (c_todo c)) (tp_clients s))"
  using pool_reach_inv [OF assms] pool_reach_conserves [OF assms] by (auto simp: pool_inv_def pool_books_def)

text \<open>C36. The pool cannot hang: from every reachable state, if each task returns, the steps that the threads owe come to an end after
  a bounded number, without relying on wake-ups without reason, and they can only stop in a finished state. There all calls of
  \<^verbatim>\<open>submit\<close> have returned, the queue is empty and every accepted task has run; when the pool is being destroyed all workers have
  left and the destructor has returned.\<close>

theorem pool_always_finishes:
  assumes "pool_reach (pool_new workers queue_limit jobs) s"
  shows "(\<forall>k s'. (pool_step ^^ k) s s' \<longrightarrow> k \<le> pool_weight s)
    \<and> (\<forall>s'. pool_step\<^sup>*\<^sup>* s s' \<longrightarrow> pool_finished s' \<or> (\<exists>s''. pool_step s' s''))
    \<and> (\<exists>s'. pool_step\<^sup>*\<^sup>* s s' \<and> pool_finished s')"
  using pool.run_ends [OF pool_reach_inv [OF assms]] by blast

section \<open>Sample\<close>

fun pool_run :: "action list \<Rightarrow> 't pool \<Rightarrow> 't pool option" where
  "pool_run [] s = Some s"
| "pool_run (a # as) s = (case pool_next a s of None \<Rightarrow> None | Some s' \<Rightarrow> pool_run as s')"

lemma pool_run_reach: "pool_run as s = Some s' \<Longrightarrow> pool_reach s0 s \<Longrightarrow> pool_reach s0 s'"
  by (induction as arbitrary: s) (auto split: option.splits intro: reach_next)

text \<open>One worker, a queue for one task, two clients: the worker sleeps, a client queues a task and wakes it, the other client finds the
  queue full and sleeps, and the worker takes the task.\<close>

definition pool_sample :: "nat pool" where
  "pool_sample = \<lparr>tp_limit = 1, tp_queue = [], tp_stopping = False, tp_workers = [W_popped 7],
     tp_clients = [\<lparr>c_at = C_ready, c_todo = []\<rparr>, \<lparr>c_at = C_asleep, c_todo = [8]\<rparr>], tp_owner = O_idle,
     tp_accepted = [7], tp_started = [7], tp_ran = [], tp_refused = []\<rparr>"

lemma pool_sample_reach: "pool_reach (pool_new 1 1 [[7], [8]]) pool_sample"
proof (rule pool_run_reach [OF _ reach_start])
  show "pool_run [Worker 0 None, Client 0 None, Client 1 None, Client 0 (Some 0), Worker 0 None] (pool_new 1 1 [[7], [8]]) = Some pool_sample"
    by (simp add: pool_new_def pool_sample_def worker_step_def client_step_def notify_one_def worker_asleep_def worker_awake_def)
qed

theorem pool_each_task_once_witness:
  "pool_reach (pool_new 1 1 [[7], [8]]) pool_sample
    \<and> mset (tp_started pool_sample) = mset (tp_ran pool_sample) + sum_list (map held (tp_workers pool_sample))"
  using pool_sample_reach pool_each_task_once [OF pool_sample_reach] by blast

theorem pool_always_finishes_witness:
  "\<exists>s'. pool_step\<^sup>*\<^sup>* pool_sample s' \<and> pool_finished s' \<and> pool_weight pool_sample = 13"
proof -
  have "pool_weight pool_sample = 13" by (simp add: pool_sample_def pool_weight_def weigh_def client_weight_def)
  then show ?thesis using pool_always_finishes [OF pool_sample_reach] by blast
qed

end
