(* ===== verification/Fsx_Io_Scheduler.thy ===== *)
theory Fsx_Io_Scheduler
  imports Fsx_Task_Pool Fsx_Allocation
begin

text \<open>
  The threads of \<^verbatim>\<open>AsyncIoScheduler\<close>, \<^verbatim>\<open>src/io/scheduler.cpp\<close>: workers that count themselves active, callers of
  \<^verbatim>\<open>submit_read\<close> and \<^verbatim>\<open>submit_write\<close>, callers of \<^verbatim>\<open>drain\<close>, and \<^verbatim>\<open>stop\<close>. Here the notifications are sent with the mutex held, so that a
  critical section and its notification are one step. Callers and the stopping thread have the points of the task pool.
\<close>

section \<open>The tasks\<close>

text \<open>The tasks of \<^verbatim>\<open>submit_read\<close> and \<^verbatim>\<open>submit_write\<close> with the counters that \<^verbatim>\<open>stats\<close> returns.\<close>

record io_stats =
  st_read_ops :: u64
  st_write_ops :: u64
  st_bytes_read :: u64
  st_bytes_written :: u64

definition read_task :: "block_device \<Rightarrow> u64 \<Rightarrow> nat \<Rightarrow> io_stats \<Rightarrow> (bytes \<times> io_stats) io" where
  "read_task d off n st =
     bind_io (submit_read d off n) (\<lambda>b.
     return_io (b, st\<lparr>st_read_ops := st_read_ops st + 1, st_bytes_read := st_bytes_read st + of_nat n\<rparr>))"

definition write_task :: "block_device \<Rightarrow> u64 \<Rightarrow> bytes \<Rightarrow> io_stats \<Rightarrow> io_stats io" where
  "write_task d off b st =
     bind_io cancellation_requested (\<lambda>c.
     if c then fail_io Errc_unsafe ''operation cancelled''
     else
     bind_io (write_exact d off b) (\<lambda>_.
     return_io (st\<lparr>st_write_ops := st_write_ops st + 1, st_bytes_written := st_bytes_written st + of_nat (length b)\<rparr>)))"

section \<open>The machine\<close>

datatype 't io_worker = A_wait | A_asleep | A_running 't | A_finish | A_exited

datatype drainer = D_wait | D_asleep | D_done

record 't scheduler =
  as_depth :: nat
  as_queue :: "'t list"
  as_stopping :: bool
  as_active :: nat
  as_workers :: "'t io_worker list"
  as_clients :: "'t client list"
  as_drains :: "drainer list"
  as_owner :: owner
  as_accepted :: "'t list"
  as_started :: "'t list"
  as_ran :: "'t list"
  as_refused :: "'t list"

definition sched_new :: "nat \<Rightarrow> nat \<Rightarrow> 't list list \<Rightarrow> nat \<Rightarrow> 't scheduler" where
  "sched_new workers queue_depth jobs drains =
     (let n = (if workers = 0 then 1 else workers) in
      \<lparr>as_depth = (if queue_depth < n then n else queue_depth), as_queue = [], as_stopping = False, as_active = 0,
       as_workers = replicate n A_wait, as_clients = map (\<lambda>ts. \<lparr>c_at = C_ready, c_todo = ts\<rparr>) jobs, as_drains = replicate drains D_wait,
       as_owner = O_idle, as_accepted = [], as_started = [], as_ran = [], as_refused = []\<rparr>)"

definition io_asleep :: "'t io_worker \<Rightarrow> bool" where "io_asleep w \<longleftrightarrow> w = A_asleep"
definition io_awake :: "'t io_worker \<Rightarrow> 't io_worker" where "io_awake w = A_wait"
definition drain_asleep :: "drainer \<Rightarrow> bool" where "drain_asleep x \<longleftrightarrow> x = D_asleep"
definition drain_awake :: "drainer \<Rightarrow> drainer" where "drain_awake x = D_wait"

text \<open>One round of \<^verbatim>\<open>worker_loop\<close>: take a task, run it, count down.\<close>

definition io_worker_step :: "nat \<Rightarrow> nat option \<Rightarrow> 't scheduler \<Rightarrow> 't scheduler option" where
  "io_worker_step i k s =
     (case as_workers s ! i of
        A_wait \<Rightarrow>
          (case as_queue s of
             [] \<Rightarrow> Some (s\<lparr>as_workers := (as_workers s)[i := if as_stopping s then A_exited else A_asleep]\<rparr>)
           | t # q \<Rightarrow> map_option (\<lambda>cs. s\<lparr>as_queue := q, as_active := as_active s + 1, as_started := as_started s @ [t], as_clients := cs,
                 as_workers := (as_workers s)[i := A_running t]\<rparr>) (notify_one client_asleep client_awake k (as_clients s)))
      | A_running t \<Rightarrow> Some (s\<lparr>as_ran := as_ran s @ [t], as_workers := (as_workers s)[i := A_finish]\<rparr>)
      | A_finish \<Rightarrow> Some (s\<lparr>as_active := as_active s - 1, as_workers := (as_workers s)[i := A_wait],
            as_drains := (if as_queue s = [] \<and> as_active s - 1 = 0 then notify_all drain_asleep drain_awake (as_drains s) else as_drains s)\<rparr>)
      | _ \<Rightarrow> None)"

text \<open>\<^verbatim>\<open>enqueue\<close>; a refused submission returns a future that holds an error.\<close>

definition io_client_step :: "nat \<Rightarrow> nat option \<Rightarrow> 't scheduler \<Rightarrow> 't scheduler option" where
  "io_client_step j k s =
     (let c = as_clients s ! j in
      case (c_at c, c_todo c) of
        (C_ready, t # ts) \<Rightarrow>
          if \<not> as_stopping s \<and> \<not> length (as_queue s) < as_depth s
          then Some (s\<lparr>as_clients := (as_clients s)[j := c\<lparr>c_at := C_asleep\<rparr>]\<rparr>)
          else if as_stopping s
          then Some (s\<lparr>as_refused := as_refused s @ [t], as_clients := (as_clients s)[j := c\<lparr>c_todo := ts\<rparr>]\<rparr>)
          else map_option (\<lambda>ws. s\<lparr>as_queue := as_queue s @ [t], as_accepted := as_accepted s @ [t], as_workers := ws,
                 as_clients := (as_clients s)[j := c\<lparr>c_todo := ts\<rparr>]\<rparr>) (notify_one io_asleep io_awake k (as_workers s))
      | _ \<Rightarrow> None)"

definition drain_step :: "nat \<Rightarrow> 't scheduler \<Rightarrow> 't scheduler option" where
  "drain_step i s =
     (if as_drains s ! i = D_wait
      then Some (s\<lparr>as_drains := (as_drains s)[i := if as_queue s = [] \<and> as_active s = 0 then D_done else D_asleep]\<rparr>)
      else None)"

definition stop_step :: "'t scheduler \<Rightarrow> 't scheduler option" where
  "stop_step s =
     (case as_owner s of
        O_idle \<Rightarrow> Some (s\<lparr>as_stopping := True, as_owner := O_work\<rparr>)
      | O_work \<Rightarrow> Some (s\<lparr>as_workers := notify_all io_asleep io_awake (as_workers s), as_owner := O_space\<rparr>)
      | O_space \<Rightarrow> Some (s\<lparr>as_clients := notify_all client_asleep client_awake (as_clients s), as_owner := O_join\<rparr>)
      | O_join \<Rightarrow> if list_all (\<lambda>w. w = A_exited) (as_workers s) then Some (s\<lparr>as_owner := O_gone\<rparr>) else None
      | O_gone \<Rightarrow> None)"

datatype io_action = Io_worker nat "nat option" | Io_client nat "nat option" | Io_drain nat | Io_stop
  | Io_wake_worker nat | Io_wake_client nat | Io_wake_drain nat

fun sched_next :: "io_action \<Rightarrow> 't scheduler \<Rightarrow> 't scheduler option" where
  "sched_next (Io_worker i k) s = (if i < length (as_workers s) then io_worker_step i k s else None)"
| "sched_next (Io_client j k) s = (if j < length (as_clients s) then io_client_step j k s else None)"
| "sched_next (Io_drain i) s = (if i < length (as_drains s) then drain_step i s else None)"
| "sched_next Io_stop s = stop_step s"
| "sched_next (Io_wake_worker i) s = map_option (\<lambda>ws. s\<lparr>as_workers := ws\<rparr>) (notify_one io_asleep io_awake (Some i) (as_workers s))"
| "sched_next (Io_wake_client i) s = map_option (\<lambda>cs. s\<lparr>as_clients := cs\<rparr>) (notify_one client_asleep client_awake (Some i) (as_clients s))"
| "sched_next (Io_wake_drain i) s = map_option (\<lambda>ds. s\<lparr>as_drains := ds\<rparr>) (notify_one drain_asleep drain_awake (Some i) (as_drains s))"

inductive sched_reach :: "'t scheduler \<Rightarrow> 't scheduler \<Rightarrow> bool" for s0 where
  sched_start: "sched_reach s0 s0"
| sched_more: "sched_reach s0 s \<Longrightarrow> sched_next a s = Some s' \<Longrightarrow> sched_reach s0 s'"

fun io_owed :: "io_action \<Rightarrow> 't scheduler \<Rightarrow> bool" where
  "io_owed (Io_worker i k) s = True"
| "io_owed (Io_client j k) s = True"
| "io_owed (Io_drain i) s = True"
| "io_owed Io_stop s = (as_owner s \<noteq> O_idle)"
| "io_owed _ s = False"

definition sched_step :: "'t scheduler \<Rightarrow> 't scheduler \<Rightarrow> bool" where
  "sched_step s s' \<longleftrightarrow> (\<exists>a. io_owed a s \<and> sched_next a s = Some s')"

definition sched_finished :: "'t scheduler \<Rightarrow> bool" where
  "sched_finished s \<longleftrightarrow> (\<forall>c \<in> set (as_clients s). c_at c = C_ready \<and> c_todo c = []) \<and> (\<forall>x \<in> set (as_drains s). x = D_done)
     \<and> as_queue s = [] \<and> as_active s = 0 \<and> mset (as_ran s) = mset (as_accepted s)
     \<and> (if as_stopping s then as_owner s = O_gone \<and> (\<forall>w \<in> set (as_workers s). w = A_exited)
        else (\<forall>w \<in> set (as_workers s). w = A_asleep) \<and> as_refused s = [])"

section \<open>Invariant\<close>

fun io_held :: "'t io_worker \<Rightarrow> 't multiset" where
  "io_held (A_running t) = {#t#}"
| "io_held _ = {#}"

fun io_busy :: "'t io_worker \<Rightarrow> bool" where
  "io_busy (A_running t) = True"
| "io_busy A_finish = True"
| "io_busy _ = False"

abbreviation io_waiting :: "'t io_worker \<Rightarrow> bool" where "io_waiting w \<equiv> w = A_wait"

definition sched_books :: "'t scheduler \<Rightarrow> bool" where
  "sched_books s \<longleftrightarrow> 0 < as_depth s \<and> as_workers s \<noteq> [] \<and> length (as_queue s) \<le> as_depth s \<and> (as_stopping s \<longleftrightarrow> as_owner s \<noteq> O_idle)
     \<and> as_accepted s = as_started s @ as_queue s \<and> mset (as_started s) = mset (as_ran s) + sum_list (map io_held (as_workers s))
     \<and> as_active s = number io_busy (as_workers s) \<and> (as_refused s \<noteq> [] \<longrightarrow> as_stopping s)"

definition sched_threads :: "'t scheduler \<Rightarrow> bool" where
  "sched_threads s \<longleftrightarrow>
     (\<forall>c \<in> set (as_clients s). c_at c \<noteq> C_notify \<and> (client_asleep c \<longrightarrow> c_todo c \<noteq> [] \<and> as_owner s \<notin> {O_join, O_gone}))
     \<and> (\<forall>w \<in> set (as_workers s). (io_asleep w \<longrightarrow> as_owner s \<in> {O_idle, O_work}) \<and> (w = A_exited \<longrightarrow> as_stopping s \<and> as_queue s = []))
     \<and> (as_owner s = O_gone \<longrightarrow> (\<forall>w \<in> set (as_workers s). w = A_exited))
     \<and> (list_ex drain_asleep (as_drains s) \<longrightarrow> as_queue s \<noteq> [] \<or> as_active s \<noteq> 0)"

definition io_work_wakeups :: "'t scheduler \<Rightarrow> bool" where
  "io_work_wakeups s \<longleftrightarrow> (\<not> as_stopping s \<longrightarrow> list_ex io_asleep (as_workers s) \<longrightarrow> length (as_queue s) \<le> number io_waiting (as_workers s))"

definition io_space_wakeups :: "'t scheduler \<Rightarrow> bool" where
  "io_space_wakeups s \<longleftrightarrow> (\<not> as_stopping s \<longrightarrow> list_ex client_asleep (as_clients s) \<longrightarrow>
     as_depth s \<le> length (as_queue s) + number waiting_client (as_clients s))"

definition sched_inv :: "'t scheduler \<Rightarrow> bool" where
  "sched_inv s \<longleftrightarrow> sched_books s \<and> sched_threads s \<and> io_work_wakeups s \<and> io_space_wakeups s"

lemma sched_invI: "sched_books s \<Longrightarrow> sched_threads s \<Longrightarrow> io_work_wakeups s \<Longrightarrow> io_space_wakeups s \<Longrightarrow> sched_inv s"
  by (simp add: sched_inv_def)


lemma sched_new_inv: "sched_inv (sched_new n m jobs k)"
proof -
  have "number io_busy [A_wait] = 0" by (simp add: weigh_def)
  moreover have "number io_busy (replicate r A_wait) = 0" for r by (induction r) (simp_all add: weigh_def)
  ultimately show ?thesis
    by (auto simp: none_held sched_inv_def sched_books_def sched_threads_def io_work_wakeups_def io_space_wakeups_def sched_new_def
        client_asleep_def io_asleep_def drain_asleep_def list_ex_iff Let_def)
qed

lemmas io_held_update = sum_update [where f = io_held]

lemma notify_io:
  assumes "notify_one io_asleep io_awake k ws = Some ws'"
  shows "\<forall>w \<in> set ws'. io_asleep w \<or> w = A_exited \<longrightarrow> w \<in> set ws" and "number io_busy ws' = number io_busy ws"
    and "sum_list (map io_held ws') = sum_list (map io_held ws)" and "(\<forall>w \<in> set ws. w = A_exited) \<Longrightarrow> \<forall>w \<in> set ws'. w = A_exited"
    and "list_ex io_asleep ws' \<Longrightarrow> list_ex io_asleep ws \<and> number io_waiting ws' = number io_waiting ws + 1"
proof -
  have "(\<forall>w \<in> set ws'. io_asleep w \<or> w = A_exited \<longrightarrow> w \<in> set ws) \<and> number io_busy ws' = number io_busy ws
      \<and> sum_list (map io_held ws') = sum_list (map io_held ws) \<and> ((\<forall>w \<in> set ws. w = A_exited) \<longrightarrow> (\<forall>w \<in> set ws'. w = A_exited))
      \<and> (list_ex io_asleep ws' \<longrightarrow> list_ex io_asleep ws \<and> number io_waiting ws' = number io_waiting ws + 1)"
    using assms(1)
  proof (cases rule: notify_one_cases)
    case (somebody i)
    have w: "ws ! i = A_asleep" and ws': "ws' = ws[i := A_wait]" using somebody by (simp_all add: io_asleep_def io_awake_def)
    have n: "number io_busy ws' = number io_busy ws" "number io_waiting ws' = number io_waiting ws + 1"
        "sum_list (map io_held ws') = sum_list (map io_held ws)"
      using weigh_update [OF somebody(1), of "\<lambda>p. if io_busy p then 1 else 0" A_wait] io_held_update [OF somebody(1), of A_wait]
        weigh_update [OF somebody(1), of "\<lambda>p. if io_waiting p then 1 else 0" A_wait] w ws' by simp_all
    moreover have "\<forall>w \<in> set ws'. io_asleep w \<or> w = A_exited \<longrightarrow> w \<in> set ws" using ws' by (auto dest!: in_update simp: io_asleep_def)
    moreover have "A_asleep \<in> set ws" using w somebody(1) nth_mem by metis
    ultimately show ?thesis by (auto simp: list_ex_iff)
  qed auto
  then show "\<forall>w \<in> set ws'. io_asleep w \<or> w = A_exited \<longrightarrow> w \<in> set ws" "number io_busy ws' = number io_busy ws"
    "sum_list (map io_held ws') = sum_list (map io_held ws)" "(\<forall>w \<in> set ws. w = A_exited) \<Longrightarrow> \<forall>w \<in> set ws'. w = A_exited"
    "list_ex io_asleep ws' \<Longrightarrow> list_ex io_asleep ws \<and> number io_waiting ws' = number io_waiting ws + 1" by blast+
qed

lemma notify_io_client:
  "notify_one client_asleep client_awake k cs = Some cs' \<Longrightarrow> \<forall>c \<in> set cs. c_at c \<noteq> C_notify \<Longrightarrow> \<forall>c \<in> set cs'. c_at c \<noteq> C_notify"
  by (erule notify_one_cases) (auto simp: client_awake_def dest!: in_update)

lemma io_worker_cases:
  assumes run: "io_worker_step i k s = Some s'"
  obtains (rest) "as_workers s ! i = A_wait" "as_queue s = []"
      "s' = s\<lparr>as_workers := (as_workers s)[i := if as_stopping s then A_exited else A_asleep]\<rparr>"
  | (take) t q cs where "as_workers s ! i = A_wait" "as_queue s = t # q" "notify_one client_asleep client_awake k (as_clients s) = Some cs"
      "s' = s\<lparr>as_queue := q, as_active := as_active s + 1, as_started := as_started s @ [t], as_clients := cs,
         as_workers := (as_workers s)[i := A_running t]\<rparr>"
  | (ran) t where "as_workers s ! i = A_running t" "s' = s\<lparr>as_ran := as_ran s @ [t], as_workers := (as_workers s)[i := A_finish]\<rparr>"
  | (idle) "as_workers s ! i = A_finish" "s' = s\<lparr>as_active := as_active s - 1, as_workers := (as_workers s)[i := A_wait],
        as_drains := (if as_queue s = [] \<and> as_active s - 1 = 0 then notify_all drain_asleep drain_awake (as_drains s) else as_drains s)\<rparr>"
proof (cases "as_workers s ! i")
  case A_wait
  then show ?thesis using run rest take by (cases "as_queue s") (auto simp: io_worker_step_def)
next
  case (A_running t)
  then show ?thesis using run ran by (simp add: io_worker_step_def)
next
  case A_finish
  then show ?thesis using run idle by (simp add: io_worker_step_def)
qed (use run in \<open>simp_all add: io_worker_step_def\<close>)

lemma io_client_cases:
  assumes run: "io_client_step j k s = Some s'"
  obtains (sleep) t ts where "c_at (as_clients s ! j) = C_ready" "c_todo (as_clients s ! j) = t # ts" "\<not> as_stopping s" "as_depth s \<le> length (as_queue s)"
      "s' = s\<lparr>as_clients := (as_clients s)[j := (as_clients s ! j)\<lparr>c_at := C_asleep\<rparr>]\<rparr>"
  | (refuse) t ts where "c_at (as_clients s ! j) = C_ready" "c_todo (as_clients s ! j) = t # ts" "as_stopping s"
      "s' = s\<lparr>as_refused := as_refused s @ [t], as_clients := (as_clients s)[j := (as_clients s ! j)\<lparr>c_todo := ts\<rparr>]\<rparr>"
  | (push) t ts ws where "c_at (as_clients s ! j) = C_ready" "c_todo (as_clients s ! j) = t # ts" "\<not> as_stopping s" "length (as_queue s) < as_depth s"
      "notify_one io_asleep io_awake k (as_workers s) = Some ws"
      "s' = s\<lparr>as_queue := as_queue s @ [t], as_accepted := as_accepted s @ [t], as_workers := ws,
         as_clients := (as_clients s)[j := (as_clients s ! j)\<lparr>c_todo := ts\<rparr>]\<rparr>"
proof -
  obtain t ts where t: "c_at (as_clients s ! j) = C_ready" "c_todo (as_clients s ! j) = t # ts"
    using run by (auto simp: io_client_step_def Let_def split: client_at.splits list.splits)
  consider "as_stopping s" | "\<not> as_stopping s" "as_depth s \<le> length (as_queue s)" | "\<not> as_stopping s" "length (as_queue s) < as_depth s" by linarith
  then show ?thesis
  proof cases
    case 1
    then show ?thesis using run t refuse by (simp add: io_client_step_def)
  next
    case 2
    then show ?thesis using run t sleep by (simp add: io_client_step_def)
  next
    case 3
    then show ?thesis using run t push by (auto simp: io_client_step_def)
  qed
qed

lemma drains_awake: "\<not> list_ex drain_asleep (notify_all drain_asleep drain_awake ds)"
  by (auto simp: notify_all_def list_ex_iff drain_asleep_def drain_awake_def)

lemma io_worker_inv:
  assumes inv: "sched_inv s" and run: "io_worker_step i k s = Some s'" and i: "i < length (as_workers s)"
  shows "sched_inv s'"
proof -
  let ?ws = "as_workers s" and ?cs = "as_clients s"
  have w: "?ws ! i \<in> set ?ws" using i by simp
  have b: "sched_books s" and th: "sched_threads s" and ww: "io_work_wakeups s" and sw: "io_space_wakeups s" using inv by (simp_all add: sched_inv_def)
  note nb = weigh_update [OF i, of "\<lambda>p. if io_busy p then 1 else 0"] and nw = weigh_update [OF i, of "\<lambda>p. if io_waiting p then 1 else 0"]
    and hd = io_held_update [OF i]
  from run show ?thesis
  proof (cases rule: io_worker_cases)
    case rest
    let ?x = "if as_stopping s then A_exited else A_asleep"
    note s' = rest(3)
    show ?thesis
    proof (rule sched_invI)
      show "sched_books s'" using b hd [of ?x] nb [of ?x] rest by (auto simp: s' sched_books_def)
      show "sched_threads s'" using th b w rest by (auto simp: s' sched_threads_def sched_books_def io_asleep_def dest!: in_update)
      show "io_work_wakeups s'" using rest by (simp add: s' io_work_wakeups_def)
      show "io_space_wakeups s'" using sw by (simp add: s' io_space_wakeups_def)
    qed
  next
    case (take t q cs)
    note s' = take(4)
    have "\<forall>c \<in> set ?cs. client_asleep c \<longrightarrow> c_todo c \<noteq> []" and cn: "\<forall>c \<in> set ?cs. c_at c \<noteq> C_notify" using th by (auto simp: sched_threads_def)
    note nc = notify_client [OF take(3) this(1)] and cn' = notify_io_client [OF take(3) cn]
    show ?thesis
    proof (rule sched_invI)
      show "sched_books s'" using b hd [of "A_running t"] nb [of "A_running t"] take by (auto simp: s' sched_books_def)
      have "\<forall>x \<in> set (?ws[i := A_running t]). (io_asleep x \<or> x = A_exited) \<longrightarrow> x \<in> set ?ws" by (auto simp: io_asleep_def dest!: in_update)
      then show "sched_threads s'" using th w take(1,2) nc(1) cn' by (simp add: s' sched_threads_def) blast
      show "io_work_wakeups s'" using ww nw [of "A_running t"] take by (auto simp: s' io_work_wakeups_def io_asleep_def dest!: ex_update)
      show "io_space_wakeups s'" using sw take nc(3) by (auto simp: s' io_space_wakeups_def)
    qed
  next
    case (ran t)
    note s' = ran(2)
    show ?thesis
    proof (rule sched_invI)
      show "sched_books s'" using b hd [of A_finish] nb [of A_finish] ran by (auto simp: s' sched_books_def)
      show "sched_threads s'" using th w ran by (auto simp: s' sched_threads_def io_asleep_def dest!: in_update)
      show "io_work_wakeups s'" using ww nw [of A_finish] ran by (auto simp: s' io_work_wakeups_def io_asleep_def dest!: ex_update)
      show "io_space_wakeups s'" using sw by (simp add: s' io_space_wakeups_def)
    qed
  next
    case idle
    note s' = idle(2)
    show ?thesis
    proof (rule sched_invI)
      show "sched_books s'" using b hd [of A_wait] nb [of A_wait] idle by (auto simp: s' sched_books_def)
      show "sched_threads s'" using th w idle drains_awake by (auto simp: s' sched_threads_def io_asleep_def dest!: in_update)
      show "io_work_wakeups s'" using ww nw [of A_wait] idle by (auto simp: s' io_work_wakeups_def io_asleep_def dest!: ex_update)
      show "io_space_wakeups s'" using sw by (simp add: s' io_space_wakeups_def)
    qed
  qed
qed

lemma io_client_inv:
  assumes inv: "sched_inv s" and run: "io_client_step j k s = Some s'" and j: "j < length (as_clients s)"
  shows "sched_inv s'"
proof -
  let ?ws = "as_workers s" and ?cs = "as_clients s" and ?c = "as_clients s ! j"
  have c: "?c \<in> set ?cs" using j by simp
  have b: "sched_books s" and th: "sched_threads s" and ww: "io_work_wakeups s" and sw: "io_space_wakeups s" using inv by (simp_all add: sched_inv_def)
  note nc = weigh_update [OF j, of "\<lambda>p. if waiting_client p then 1 else 0"]
  from run show ?thesis
  proof (cases rule: io_client_cases)
    case (sleep t ts)
    note s' = sleep(5)
    show ?thesis
    proof (rule sched_invI)
      show "sched_books s'" using b by (auto simp: s' sched_books_def)
      show "sched_threads s'" using th sleep b by (auto simp: s' sched_threads_def sched_books_def client_asleep_def dest!: in_update)
      show "io_work_wakeups s'" using ww by (simp add: s' io_work_wakeups_def)
      show "io_space_wakeups s'" using sleep by (simp add: s' io_space_wakeups_def)
    qed
  next
    case (refuse t ts)
    note s' = refuse(4)
    show ?thesis
    proof (rule sched_invI)
      show "sched_books s'" using b refuse by (auto simp: s' sched_books_def)
      show "sched_threads s'" using th refuse by (auto simp: s' sched_threads_def client_asleep_def dest!: in_update)
    qed (use refuse in \<open>simp_all add: s' io_work_wakeups_def io_space_wakeups_def\<close>)
  next
    case (push t ts ws)
    let ?n = "?c\<lparr>c_todo := ts\<rparr>"
    note s' = push(6) and nt = notify_io [OF push(5)]
    show ?thesis
    proof (rule sched_invI)
      have "ws \<noteq> []" using b notify_length(1) [OF push(5)] by (auto simp: sched_books_def)
      then show "sched_books s'" using b push nt(2,3) by (auto simp: s' sched_books_def)
      have "as_owner s = O_idle" using b push(3) by (simp add: sched_books_def)
      moreover have "\<forall>x \<in> set ws. x \<noteq> A_exited" using th nt(1) push(3) by (fastforce simp: sched_threads_def)
      moreover have "\<forall>x \<in> set (?cs[j := ?n]). c_at x \<noteq> C_notify \<and> (client_asleep x \<longrightarrow> c_todo x \<noteq> [])"
        using th push(1) by (auto simp: sched_threads_def client_asleep_def dest!: in_update)
      ultimately show "sched_threads s'" by (auto simp: s' sched_threads_def)
      show "io_work_wakeups s'" using ww nt(5) push by (auto simp: s' io_work_wakeups_def)
      show "io_space_wakeups s'" using sw nc [of ?n] push by (auto simp: s' io_space_wakeups_def client_asleep_def dest!: ex_update split: if_split_asm)
    qed
  qed
qed


lemma io_all_awake:
  "\<forall>w \<in> set (notify_all io_asleep io_awake ws). \<not> io_asleep w" "notify_all io_asleep io_awake ws = [] \<longleftrightarrow> ws = []"
  "sum_list (map io_held (notify_all io_asleep io_awake ws)) = sum_list (map io_held ws)"
  "number io_busy (notify_all io_asleep io_awake ws) = number io_busy ws" "A_exited \<in> set (notify_all io_asleep io_awake ws) \<Longrightarrow> A_exited \<in> set ws"
  "\<forall>c \<in> set cs. c_at c \<noteq> C_notify \<Longrightarrow> \<forall>c \<in> set (notify_all client_asleep client_awake cs). c_at c \<noteq> C_notify \<and> \<not> client_asleep c"
proof -
  show "sum_list (map io_held (notify_all io_asleep io_awake ws)) = sum_list (map io_held ws)"
    "number io_busy (notify_all io_asleep io_awake ws) = number io_busy ws"
    by (induction ws) (auto simp: notify_all_def io_asleep_def io_awake_def weigh_def)
qed (auto simp: notify_all_def io_asleep_def io_awake_def client_asleep_def client_awake_def split: if_split_asm)

lemma stop_inv:
  assumes inv: "sched_inv s" and run: "stop_step s = Some s'"
  shows "sched_inv s'"
proof -
  have b: "sched_books s" and th: "sched_threads s" using inv by (simp_all add: sched_inv_def)
  have "sched_books s' \<and> sched_threads s' \<and> as_stopping s'"
  proof (cases "as_owner s")
    case O_idle
    then have "s' = s\<lparr>as_stopping := True, as_owner := O_work\<rparr>" using run by (simp add: stop_step_def)
    then show ?thesis using b th O_idle by (auto simp: sched_books_def sched_threads_def)
  next
    case O_work
    then have "s' = s\<lparr>as_workers := notify_all io_asleep io_awake (as_workers s), as_owner := O_space\<rparr>" using run by (simp add: stop_step_def)
    then show ?thesis using b th O_work io_all_awake(1,5) [of "as_workers s"] by (auto simp: sched_books_def sched_threads_def io_all_awake(2,3,4))
  next
    case O_space
    then have s': "s' = s\<lparr>as_clients := notify_all client_asleep client_awake (as_clients s), as_owner := O_join\<rparr>" using run by (simp add: stop_step_def)
    have "\<forall>c \<in> set (as_clients s). c_at c \<noteq> C_notify" using th by (simp add: sched_threads_def)
    from io_all_awake(6) [OF this] show ?thesis using b th O_space by (auto simp: s' sched_books_def sched_threads_def)
  next
    case O_join
    then have "s' = s\<lparr>as_owner := O_gone\<rparr>" "list_all (\<lambda>w. w = A_exited) (as_workers s)" using run by (auto simp: stop_step_def split: if_split_asm)
    then show ?thesis using b th O_join by (auto simp: sched_books_def sched_threads_def list_all_iff io_asleep_def)
  qed (use run in \<open>simp add: stop_step_def\<close>)
  then show ?thesis by (intro sched_invI) (simp_all add: io_work_wakeups_def io_space_wakeups_def)
qed

lemma drain_inv:
  assumes inv: "sched_inv s" and run: "drain_step i s = Some s'"
  shows "sched_inv s'"
proof -
  let ?x = "if as_queue s = [] \<and> as_active s = 0 then D_done else D_asleep"
  have s': "s' = s\<lparr>as_drains := (as_drains s)[i := ?x]\<rparr>" using run by (auto simp: drain_step_def split: if_split_asm)
  have "list_ex drain_asleep ((as_drains s)[i := ?x]) \<Longrightarrow> as_queue s \<noteq> [] \<or> as_active s \<noteq> 0"
    using inv by (auto simp: sched_inv_def sched_threads_def drain_asleep_def dest!: ex_update split: if_split_asm)
  then show ?thesis
    using inv by (auto simp: s' sched_inv_def sched_books_def sched_threads_def io_work_wakeups_def io_space_wakeups_def simp del: list_ex_iff)
qed

lemma io_wake_inv:
  assumes inv: "sched_inv s"
  shows "notify_one io_asleep io_awake k (as_workers s) = Some ws \<Longrightarrow> sched_inv (s\<lparr>as_workers := ws\<rparr>)"
    and "notify_one client_asleep client_awake k (as_clients s) = Some cs \<Longrightarrow> sched_inv (s\<lparr>as_clients := cs\<rparr>)"
    and "notify_one drain_asleep drain_awake k (as_drains s) = Some ds \<Longrightarrow> sched_inv (s\<lparr>as_drains := ds\<rparr>)"
proof -
  have b: "sched_books s" and th: "sched_threads s" and ww: "io_work_wakeups s" and sw: "io_space_wakeups s" using inv by (simp_all add: sched_inv_def)
  show "sched_inv (s\<lparr>as_workers := ws\<rparr>)" if ws: "notify_one io_asleep io_awake k (as_workers s) = Some ws"
  proof (rule sched_invI)
    note nt = notify_io [OF ws]
    have "ws \<noteq> []" using b notify_length(1) [OF ws] by (auto simp: sched_books_def)
    then show "sched_books (s\<lparr>as_workers := ws\<rparr>)" using b nt(2,3) by (auto simp: sched_books_def)
    show "sched_threads (s\<lparr>as_workers := ws\<rparr>)" using th nt(1,4) by (simp add: sched_threads_def) blast
    show "io_work_wakeups (s\<lparr>as_workers := ws\<rparr>)" using ww nt(5) by (auto simp: io_work_wakeups_def)
    show "io_space_wakeups (s\<lparr>as_workers := ws\<rparr>)" using sw by (simp add: io_space_wakeups_def)
  qed
  show "sched_inv (s\<lparr>as_clients := cs\<rparr>)" if cs: "notify_one client_asleep client_awake k (as_clients s) = Some cs"
  proof (rule sched_invI)
    have "\<forall>c \<in> set (as_clients s). client_asleep c \<longrightarrow> c_todo c \<noteq> []" and cn: "\<forall>c \<in> set (as_clients s). c_at c \<noteq> C_notify"
      using th by (auto simp: sched_threads_def)
    note nt = notify_client [OF cs this(1)] and cn' = notify_io_client [OF cs cn]
    show "sched_books (s\<lparr>as_clients := cs\<rparr>)" using b by (auto simp: sched_books_def)
    show "sched_threads (s\<lparr>as_clients := cs\<rparr>)" using th nt(1) cn' by (simp add: sched_threads_def) blast
    show "io_work_wakeups (s\<lparr>as_clients := cs\<rparr>)" using ww by (simp add: io_work_wakeups_def)
    show "io_space_wakeups (s\<lparr>as_clients := cs\<rparr>)" using sw nt(3) by (auto simp: io_space_wakeups_def)
  qed
  show "sched_inv (s\<lparr>as_drains := ds\<rparr>)" if ds: "notify_one drain_asleep drain_awake k (as_drains s) = Some ds"
  proof -
    have "list_ex drain_asleep ds \<Longrightarrow> list_ex drain_asleep (as_drains s)"
      using ds by (cases rule: notify_one_cases) (auto simp: drain_asleep_def drain_awake_def dest!: ex_update)
    then show ?thesis
      using b th ww sw by (auto simp: sched_inv_def sched_books_def sched_threads_def io_work_wakeups_def io_space_wakeups_def simp del: list_ex_iff)
  qed
qed

lemma sched_next_inv: "sched_inv s \<Longrightarrow> sched_next a s = Some s' \<Longrightarrow> sched_inv s'"
  by (cases a) (auto split: if_split_asm intro: io_worker_inv io_client_inv stop_inv drain_inv io_wake_inv)

lemma sched_reach_inv: "sched_reach (sched_new n m jobs k) s \<Longrightarrow> sched_inv s"
  by (induction rule: sched_reach.induct) (auto intro: sched_new_inv sched_next_inv)


section \<open>Every run ends\<close>

text \<open>Weights, with the number of callers of \<^verbatim>\<open>drain\<close> as parameter.\<close>

fun io_worker_weight :: "nat \<Rightarrow> 't io_worker \<Rightarrow> nat" where
  "io_worker_weight m A_wait = 1"
| "io_worker_weight m (A_running t) = 3 + m"
| "io_worker_weight m A_finish = 2 + m"
| "io_worker_weight m _ = 0"

definition io_client_weight :: "nat \<Rightarrow> 't client \<Rightarrow> nat" where
  "io_client_weight m c = (6 + m) * length (c_todo c) + (if c_at c = C_ready then 1 else 0)"

abbreviation drain_weight :: "drainer \<Rightarrow> nat" where "drain_weight x \<equiv> (if x = D_wait then 1 else 0)"

definition sched_weight :: "'t scheduler \<Rightarrow> nat" where
  "sched_weight s = (let m = length (as_drains s) in
     weigh (io_worker_weight m) (as_workers s) + weigh (io_client_weight m) (as_clients s) + weigh drain_weight (as_drains s)
     + (4 + m) * length (as_queue s) + owner_weight (length (as_workers s)) (length (as_clients s)) (as_owner s))"

lemma io_worker_lighter:
  assumes st: "io_worker_step i k s = Some s'" and i: "i < length (as_workers s)"
  shows "sched_weight s' < sched_weight s"
proof -
  note u = weigh_update [OF i, of "io_worker_weight (length (as_drains s))"]
  from st show ?thesis
  proof (cases rule: io_worker_cases)
    case rest
    then show ?thesis using u [of "if as_stopping s then A_exited else A_asleep"] by (auto simp: sched_weight_def Let_def)
  next
    case (take t q cs)
    have "weigh (io_client_weight (length (as_drains s))) cs \<le> weigh (io_client_weight (length (as_drains s))) (as_clients s) + 1" "length cs = length (as_clients s)"
      using notify_one_weigh [OF take(3), of "io_client_weight (length (as_drains s))" 1] notify_length(1) [OF take(3)]
      by (simp_all add: client_asleep_def client_awake_def io_client_weight_def)
    then show ?thesis using take u [of "A_running t"] by (simp add: sched_weight_def Let_def)
  next
    case (ran t)
    then show ?thesis using u [of A_finish] by (simp add: sched_weight_def Let_def)
  next
    case idle
    have n: "weigh drain_weight (notify_all drain_asleep drain_awake (as_drains s)) \<le> weigh drain_weight (as_drains s) + 1 * length (as_drains s)"
      by (rule notify_all_weigh) (simp add: drain_asleep_def drain_awake_def)
    show ?thesis using idle u [of A_wait] n by (auto simp: sched_weight_def Let_def)
  qed
qed

lemma io_client_lighter:
  assumes st: "io_client_step j k s = Some s'" and j: "j < length (as_clients s)"
  shows "sched_weight s' < sched_weight s"
proof -
  let ?m = "length (as_drains s)"
  note u = weigh_update [OF j, of "io_client_weight (length (as_drains s))"]
  from st show ?thesis
  proof (cases rule: io_client_cases)
    case (sleep t ts)
    then show ?thesis using u [of "(as_clients s ! j)\<lparr>c_at := C_asleep\<rparr>"] by (simp add: sched_weight_def io_client_weight_def Let_def)
  next
    case (refuse t ts)
    then show ?thesis using u [of "(as_clients s ! j)\<lparr>c_todo := ts\<rparr>"] by (simp add: sched_weight_def io_client_weight_def Let_def)
  next
    case (push t ts ws)
    have "weigh (io_worker_weight ?m) ws \<le> weigh (io_worker_weight ?m) (as_workers s) + 1" "length ws = length (as_workers s)"
      using notify_one_weigh [OF push(5), of "io_worker_weight ?m" 1] notify_length(1) [OF push(5)]
      by (simp_all add: io_asleep_def io_awake_def)
    then show ?thesis using push u [of "(as_clients s ! j)\<lparr>c_todo := ts\<rparr>"] by (simp add: sched_weight_def io_client_weight_def Let_def)
  qed
qed

lemma sched_lighter:
  assumes "sched_step s s'"
  shows "sched_weight s' < sched_weight s"
proof -
  obtain a where o: "io_owed a s" and run: "sched_next a s = Some s'" using assms by (auto simp: sched_step_def)
  show ?thesis
  proof (cases a)
    case (Io_worker i k)
    then show ?thesis using run io_worker_lighter by (auto split: if_split_asm)
  next
    case (Io_client j k)
    then show ?thesis using run io_client_lighter by (auto split: if_split_asm)
  next
    case (Io_drain i)
    have d: "i < length (as_drains s)" "drain_step i s = Some s'" using run by (simp_all add: Io_drain split: if_split_asm)
    have wait: "as_drains s ! i = D_wait" using d(2) by (cases "as_drains s ! i") (simp_all add: drain_step_def)
    define x where "x = (if as_queue s = [] \<and> as_active s = 0 then D_done else D_asleep)"
    have "x \<noteq> D_wait" by (simp add: x_def)
    then have "weigh drain_weight ((as_drains s)[i := x]) + 1 = weigh drain_weight (as_drains s)"
      using weigh_update [OF d(1), of drain_weight x] wait by simp
    moreover have "s' = s\<lparr>as_drains := (as_drains s)[i := x]\<rparr>" using d(2) wait by (simp add: drain_step_def x_def)
    ultimately show ?thesis by (simp add: sched_weight_def Let_def)
  next
    case Io_stop
    have w: "weigh (io_worker_weight m) (notify_all io_asleep io_awake ws) \<le> weigh (io_worker_weight m) ws + 1 * length ws" for m and ws :: "'a io_worker list"
      by (rule notify_all_weigh) (simp add: io_asleep_def io_awake_def)
    have c: "weigh (io_client_weight m) (notify_all client_asleep client_awake cs) \<le> weigh (io_client_weight m) cs + 1 * length cs" for m and cs :: "'a client list"
      by (rule notify_all_weigh) (simp add: client_asleep_def client_awake_def io_client_weight_def)
    show ?thesis
      using run o w [of "length (as_drains s)" "as_workers s"] c [of "length (as_drains s)" "as_clients s"]
      by (cases "as_owner s") (auto simp: Io_stop stop_step_def sched_weight_def Let_def split: if_split_asm)
  qed (use o in auto)
qed

lemma io_stepI: "io_owed a s \<Longrightarrow> sched_next a s = Some s' \<Longrightarrow> \<exists>s'. sched_step s s'"
  by (auto simp: sched_step_def)

lemma io_worker_can_step:
  assumes "w \<in> set (as_workers s)" and "w \<noteq> A_asleep" and "w \<noteq> A_exited"
  shows "\<exists>s'. sched_step s s'"
proof -
  obtain i where i: "i < length (as_workers s)" "as_workers s ! i = w" using assms(1) by (auto simp: in_set_conv_nth)
  obtain k cs where n: "notify_one client_asleep client_awake k (as_clients s) = Some cs" using notify_one_possible by blast
  have "\<exists>s'. io_worker_step i k s = Some s'" using i(2) assms(2,3) n by (cases w; cases "as_queue s") (simp_all add: io_worker_step_def)
  then show ?thesis using i(1) by (auto intro: io_stepI [of "Io_worker i k"])
qed

lemma io_client_can_step:
  assumes "c \<in> set (as_clients s)" and "c_at c = C_ready" and "c_todo c \<noteq> []"
  shows "\<exists>s'. sched_step s s'"
proof -
  obtain j where j: "j < length (as_clients s)" "as_clients s ! j = c" using assms(1) by (auto simp: in_set_conv_nth)
  obtain k ws where n: "notify_one io_asleep io_awake k (as_workers s) = Some ws" using notify_one_possible by blast
  have "\<exists>s'. io_client_step j k s = Some s'" using j(2) assms(2,3) n by (cases "c_todo c") (auto simp: io_client_step_def Let_def)
  then show ?thesis using j(1) by (auto intro: io_stepI [of "Io_client j k"])
qed

lemma drain_can_step:
  assumes "D_wait \<in> set (as_drains s)"
  shows "\<exists>s'. sched_step s s'"
proof -
  obtain i where "i < length (as_drains s)" "as_drains s ! i = D_wait" using assms by (auto simp: in_set_conv_nth)
  then show ?thesis using io_stepI [of "Io_drain i" s] by (simp add: drain_step_def)
qed

lemma io_idle_hands: "\<forall>w \<in> set ws. w = A_asleep \<or> w = A_exited \<Longrightarrow> sum_list (map io_held ws) = {#}"
  by (induction ws) auto

lemma sched_progress:
  assumes inv: "sched_inv s" and stuck: "\<nexists>s'. sched_step s s'"
  shows "sched_finished s"
proof -
  have b: "sched_books s" and th: "sched_threads s" and ww: "io_work_wakeups s" and sw: "io_space_wakeups s" using inv by (simp_all add: sched_inv_def)
  have ws: "\<forall>w \<in> set (as_workers s). w = A_asleep \<or> w = A_exited" using io_worker_can_step [of _ s] stuck by blast
  have "c_at c = C_asleep \<or> c_at c = C_ready \<and> c_todo c = []" if "c \<in> set (as_clients s)" for c
    using io_client_can_step [OF that] stuck that th by (cases "c_at c") (auto simp: sched_threads_def)
  then have cs: "\<forall>c \<in> set (as_clients s). client_asleep c \<or> c_at c = C_ready \<and> c_todo c = []" by (auto simp: client_asleep_def)
  have ds: "\<forall>x \<in> set (as_drains s). drain_asleep x \<or> x = D_done"
    using drain_can_step [of s] stuck by (auto simp: drain_asleep_def) (metis drainer.exhaust)
  have nobody: "number waiting_client (as_clients s) = 0" "number io_busy (as_workers s) = 0" "number io_waiting (as_workers s) = 0"
    unfolding number_zero using ws cs by (auto simp: list_ex_iff client_asleep_def)
  have idle: "as_active s = 0" using b nobody by (simp add: sched_books_def)
  have "sum_list (map io_held (as_workers s)) = {#}" by (rule io_idle_hands [OF ws])
  then have ran: "mset (as_started s) = mset (as_ran s)" using b by (simp add: sched_books_def)
  have drained: "\<forall>x \<in> set (as_drains s). x = D_done" if "as_queue s = []"
    using th ds idle that by (auto simp: sched_threads_def list_ex_iff)
  show ?thesis
  proof (cases "as_stopping s")
    case False
    have all: "\<forall>w \<in> set (as_workers s). w = A_asleep" using ws th False by (auto simp: sched_threads_def)
    then have "list_ex io_asleep (as_workers s)" using b by (auto simp: list_ex_iff io_asleep_def sched_books_def neq_Nil_conv)
    then have q: "as_queue s = []" using ww False nobody by (simp add: io_work_wakeups_def)
    then have "\<not> list_ex client_asleep (as_clients s)" using sw False nobody b by (auto simp: io_space_wakeups_def sched_books_def)
    then show ?thesis using False all q cs ran b idle drained [OF q] by (auto simp: sched_finished_def list_ex_iff sched_books_def)
  next
    case True
    have ne: "as_owner s \<noteq> O_idle" using True b by (simp add: sched_books_def)
    then have none: "stop_step s = None" using stuck io_stepI [of Io_stop s] by (cases "stop_step s") auto
    then have o: "as_owner s = O_join \<or> as_owner s = O_gone" using ne by (cases "as_owner s") (auto simp: stop_step_def)
    then have ex: "\<forall>w \<in> set (as_workers s). w = A_exited" using ws th by (auto simp: sched_threads_def io_asleep_def)
    then have "as_owner s = O_gone" using none o by (auto simp: stop_step_def list_all_iff)
    moreover have q: "as_queue s = []" using ex th b by (auto simp: sched_threads_def sched_books_def neq_Nil_conv)
    moreover have "\<forall>c \<in> set (as_clients s). c_at c = C_ready \<and> c_todo c = []" using cs th o by (auto simp: sched_threads_def)
    ultimately show ?thesis using True ex ran b idle drained [OF q] by (simp add: sched_finished_def sched_books_def)
  qed
qed

interpretation sched: ending_system sched_step sched_inv sched_weight sched_finished
  by unfold_locales (auto simp: sched_step_def intro: sched_next_inv sched_lighter [unfolded sched_step_def] dest: sched_progress [unfolded sched_step_def])


lemma io_held_busy: "\<not> list_ex io_busy ws \<Longrightarrow> sum_list (map io_held ws) = {#}"
proof (induction ws)
  case (Cons w ws)
  then show ?case by (cases w) auto
qed simp

lemma drained:
  assumes inv: "sched_inv s" and d: "as_queue s = []" "as_active s = 0"
  shows "mset (as_ran s) = mset (as_accepted s)"
proof -
  have b: "sched_books s" using inv by (simp add: sched_inv_def)
  then have "\<not> list_ex io_busy (as_workers s)" using d(2) unfolding number_zero [symmetric] by (simp add: sched_books_def)
  from io_held_busy [OF this] show ?thesis using b d(1) by (simp add: sched_books_def)
qed

text \<open>C38. The I/O scheduler cannot hang, and \<^verbatim>\<open>drain\<close> keeps its promise: from every state that any interleaving of workers, submitting
  threads, callers of \<^verbatim>\<open>drain\<close> and \<^verbatim>\<open>stop\<close> can reach, if each request returns, the steps that the threads owe come to an end after a
  bounded number, and only where every submission and every \<^verbatim>\<open>drain\<close> has returned and every accepted request has run, with all
  workers gone when the scheduler was stopped. When a call of \<^verbatim>\<open>drain\<close> returns, every request accepted so far has run.\<close>

theorem scheduler_always_finishes:
  assumes "sched_reach (sched_new workers queue_depth jobs drains) s"
  shows "(\<forall>k s'. (sched_step ^^ k) s s' \<longrightarrow> k \<le> sched_weight s)
    \<and> (\<forall>s'. sched_step\<^sup>*\<^sup>* s s' \<longrightarrow> sched_finished s' \<or> (\<exists>s''. sched_step s' s''))
    \<and> (\<exists>s'. sched_step\<^sup>*\<^sup>* s s' \<and> sched_finished s')
    \<and> (\<forall>i s'. drain_step i s = Some s' \<longrightarrow> D_asleep \<noteq> as_drains s' ! i \<longrightarrow> i < length (as_drains s) \<longrightarrow> mset (as_ran s') = mset (as_accepted s'))"
proof -
  note inv = sched_reach_inv [OF assms]
  have "mset (as_ran s') = mset (as_accepted s')"
    if d: "drain_step i s = Some s'" "D_asleep \<noteq> as_drains s' ! i" "i < length (as_drains s)" for i s'
  proof -
    have wait: "as_drains s ! i = D_wait" using d(1) by (cases "as_drains s ! i") (simp_all add: drain_step_def)
    then have s': "s' = s\<lparr>as_drains := (as_drains s)[i := if as_queue s = [] \<and> as_active s = 0 then D_done else D_asleep]\<rparr>"
      using d(1) by (simp add: drain_step_def)
    have "as_drains s' ! i = (if as_queue s = [] \<and> as_active s = 0 then D_done else D_asleep)" unfolding s' using d(3) by simp
    then have "as_queue s = []" "as_active s = 0" using d(2) by (simp_all split: if_split_asm)
    from drained [OF inv this] show ?thesis unfolding s' by simp
  qed
  then show ?thesis using sched.run_ends [OF inv] by blast
qed

section \<open>Sample\<close>

fun sched_run :: "io_action list \<Rightarrow> 't scheduler \<Rightarrow> 't scheduler option" where
  "sched_run [] s = Some s"
| "sched_run (a # as) s = (case sched_next a s of None \<Rightarrow> None | Some s' \<Rightarrow> sched_run as s')"

lemma sched_run_reach: "sched_run as s = Some s' \<Longrightarrow> sched_reach s0 s \<Longrightarrow> sched_reach s0 s'"
  by (induction as arbitrary: s) (auto split: option.splits intro: sched_more)

text \<open>A worker sleeps, a request wakes it, \<^verbatim>\<open>drain\<close> waits for the request, which has just run; the second of two calls of \<^verbatim>\<open>drain\<close> is
  about to look.\<close>

definition sched_sample :: "nat scheduler" where
  "sched_sample = \<lparr>as_depth = 1, as_queue = [], as_stopping = False, as_active = 0, as_workers = [A_wait],
     as_clients = [\<lparr>c_at = C_ready, c_todo = []\<rparr>], as_drains = [D_wait, D_wait], as_owner = O_idle,
     as_accepted = [7], as_started = [7], as_ran = [7], as_refused = []\<rparr>"

lemma sched_sample_reach: "sched_reach (sched_new 1 1 [[7]] 2) sched_sample"
proof (rule sched_run_reach [OF _ sched_start])
  show "sched_run [Io_worker 0 None, Io_client 0 (Some 0), Io_drain 0, Io_worker 0 None, Io_worker 0 None, Io_worker 0 None] (sched_new 1 1 [[7]] 2)
      = Some sched_sample"
    by (simp add: sched_new_def sched_sample_def io_worker_step_def io_client_step_def drain_step_def notify_one_def notify_all_def
        io_asleep_def io_awake_def drain_asleep_def drain_awake_def client_asleep_def numeral_2_eq_2)
qed

theorem scheduler_always_finishes_witness:
  "sched_reach (sched_new 1 1 [[7]] 2) sched_sample \<and> drain_step 0 sched_sample = Some (sched_sample\<lparr>as_drains := [D_done, D_wait]\<rparr>)
     \<and> mset (as_ran (sched_sample\<lparr>as_drains := [D_done, D_wait]\<rparr>)) = mset (as_accepted (sched_sample\<lparr>as_drains := [D_done, D_wait]\<rparr>))
     \<and> (\<exists>s'. sched_step\<^sup>*\<^sup>* sched_sample s' \<and> sched_finished s')"
proof -
  have d: "drain_step 0 sched_sample = Some (sched_sample\<lparr>as_drains := [D_done, D_wait]\<rparr>)" by (simp add: drain_step_def sched_sample_def)
  have l: "0 < length (as_drains sched_sample)" "D_asleep \<noteq> as_drains (sched_sample\<lparr>as_drains := [D_done, D_wait]\<rparr>) ! 0" by (simp_all add: sched_sample_def)
  show ?thesis using d l scheduler_always_finishes [OF sched_sample_reach] sched_sample_reach by blast
qed

end
