(* ===== verification/Spec2Isabelle.thy ===== *)
theory Spec2Isabelle
  imports Fsx_Crc Fsx_Uuid Fsx_Fault Fsx_Journal_Validate Fsx_Stage_Laws Fsx_Resize_Shrink Fsx_Io_Scheduler
begin

text \<open>
  fsx is a tool for offline surgery on disks: it shrinks ext4 filesystems by moving their blocks below
  a target size, changes the entries of GPT and MBR partition tables, and keeps a transaction journal
  so that an interrupted operation can be resumed or assessed. This development models the
  parts of it that carry the data and the ordering of writes, and shows that they keep their promises.

  \<^bold>\<open>How programs are modelled.\<close> A C++ function that touches the outside world is a function from a
  \<open>world\<close> to a result and a world (\<open>'a io\<close>, \<open>Fsx_Device\<close>). The world holds the files with
  their current and their durable contents, the directory in its current and durable form, the
  script of what the next system calls do (succeed, transfer fewer bytes, fail with an \<^verbatim>\<open>errno\<close>), the
  answers of the cancellation flag, the fault-injection state and what the kernel tells about mounted
  devices. A result is \<open>Inr\<close> of the value or \<open>Inl\<close> of a failure, which is an error value, the end
  of the process, or the mark of a loop that does not end. All theorems quantify over worlds, hence over every short transfer, error, crash and
  cancellation the script can express. Machine integers are words of their width; \<^verbatim>\<open>std::size_t\<close> lengths of
  buffers are natural numbers. Loops are recursive functions; all of them are total, without fuel: the loops
  of the device end because every round either transfers a byte or consumes an event of the script, the
  planner's because every round places blocks, the graph of backing devices is explored along a
  path without repetition.

  \<^bold>\<open>Foundations.\<close>
  \<^item> \<open>Fsx_Prelude\<close>: words, error values (\<^verbatim>\<open>error.hpp\<close>, \<^verbatim>\<open>result.hpp\<close>, \<^verbatim>\<open>error.cpp\<close>), byte buffers.
  \<^item> \<open>Fsx_Endian\<close>: \<^verbatim>\<open>endian.hpp\<close>, with the rewrite rules for reads after writes.
  \<^item> \<open>Fsx_Crc\<close>: \<^verbatim>\<open>crc.cpp\<close>; the table-driven and the SSE4.2 routine equal the bitwise definition, and a changed
    byte changes the checksum. The locale of sealed buffers is interpreted for both polynomials.
  \<^item> \<open>Fsx_Uuid\<close>: \<^verbatim>\<open>uuid.cpp\<close>; printing and parsing.
  \<^item> \<open>Fsx_Fault\<close>: \<^verbatim>\<open>fault.cpp\<close>; a one-shot rule fires once.
  \<^item> \<open>Fsx_Device\<close>: \<^verbatim>\<open>device.cpp\<close>, \<^verbatim>\<open>cancel.cpp\<close>; \<^verbatim>\<open>read_exact\<close> and \<^verbatim>\<open>write_exact\<close> move the whole range or report a failure after
    a prefix. The interface that clients rely on is a locale, interpreted on these definitions.
  \<^item> \<open>Fsx_Files\<close>, \<open>Fsx_Publish\<close>: \<^verbatim>\<open>file_util.cpp\<close> and \<^verbatim>\<open>create_file\<close>; a published file is whole, durable and never replaces
    another. The locale of file writers is interpreted on the single write of the MBR code.
  \<^item> \<open>Fsx_Triple\<close>: Hoare triples for writing programs, and a logic for programs that only read.
  \<^item> \<open>Fsx_Safety\<close>: \<^verbatim>\<open>safety.cpp\<close> (Linux); an accepted device is not mounted, swapped on or held, and two accepted
    devices share no backing device.
  \<^item> \<open>Fsx_Intervals\<close>: sort and compare neighbours, the overlap test of the partition tables, as a locale.

  \<^bold>\<open>Transaction journal.\<close>
  \<^item> \<open>Fsx_Journal_Format\<close>: records and headers of \<^verbatim>\<open>journal.cpp\<close> with round trips and rejection of corrupted ones.
  \<^item> \<open>Fsx_Journal\<close>: \<^verbatim>\<open>TransactionJournal\<close>: create, open, append, checkpoint. An append is atomic under
    interruption and power loss; reopening returns what was committed.
  \<^item> \<open>Fsx_Journal_Validate\<close>: \<^verbatim>\<open>validate.cpp\<close> and \<^verbatim>\<open>recovery.cpp\<close>; the validator accepts exactly the sequences of
    records that follow the relocation protocol, stated as a step relation on one transaction.

  \<^bold>\<open>Partition tables.\<close>
  \<^item> \<open>Fsx_Gpt\<close>, \<open>Fsx_Gpt_Laws\<close>: \<^verbatim>\<open>gpt.cpp\<close>; the entry check decides disjointness, and a resize always leaves one whole copy.
  \<^item> \<open>Fsx_Mbr\<close>: \<^verbatim>\<open>mbr.cpp\<close>; the undo sector is durable before the table changes, and restoring it undoes the change.
  \<^item> \<open>Fsx_Partition_Sync\<close>: \<^verbatim>\<open>sync.cpp\<close>; the composition of superblock, journal and table.

  \<^bold>\<open>ext4.\<close>
  \<^item> \<open>Fsx_Ext4_Super\<close>, \<open>Fsx_Ext4_Groups\<close>: \<^verbatim>\<open>internal.cpp\<close> and \<^verbatim>\<open>ext4.cpp\<close>; an accepted superblock has no
    computation that wraps around, and its groups tile the filesystem.
  \<^item> \<open>Fsx_Allocation\<close>, \<open>Fsx_Allocation_Laws\<close>: \<^verbatim>\<open>allocation.cpp\<close>; the graph is the run-length form of the bitmaps, and
    the planner always ends with moves that fit.
  \<^item> \<open>Fsx_Ext4_Metadata\<close>, \<open>Fsx_Ext4_Metadata_Laws\<close>: \<^verbatim>\<open>metadata.cpp\<close>; checksums and the integrity check.
  \<^item> \<open>Fsx_Extents\<close>, \<open>Fsx_Extents_Laws\<close>: \<^verbatim>\<open>extents.cpp\<close>; the scan returns exactly the leaves and nodes of the extent
    trees of the inodes in use, all of them inside the filesystem.
  \<^item> \<open>Fsx_Relocate\<close>, \<open>Fsx_Relocate_Laws\<close>: the planner of \<^verbatim>\<open>relocate.cpp\<close>; sources and destinations of a plan are disjoint,
    the destinations free and below the target.
  \<^item> \<open>Fsx_Stage\<close>, \<open>Fsx_Copy_Laws\<close>, \<open>Fsx_Stage_Laws\<close>: staging, the second half of \<^verbatim>\<open>relocate.cpp\<close>, with the device profile of
    \<^verbatim>\<open>scheduler.cpp\<close>; only destination ranges change, in every interleaving of the concurrent copies, and a complete run
    has copied everything durably.
  \<^item> \<open>Fsx_Commit\<close>, \<open>Fsx_Commit_Laws\<close>, \<open>Fsx_Commit_Journal\<close>: \<^verbatim>\<open>mutate.cpp\<close>, the metadata commit of a staged relocation. The laws
    give for every operation the bytes it may touch and the journal records it adds; the journal of a finished commit is
    determined exactly, and compared with what the validator accepts.
  \<^item> \<open>Fsx_Commit_Bitmap\<close>, \<open>Fsx_Commit_Allocation\<close>: the block bitmaps under the commit, as the set of used blocks; setting the
    allocation of a range changes exactly that range, and the query of a range answers exactly.
  \<^item> \<open>Fsx_Resize\<close>, \<open>Fsx_Resize_Writes\<close>, \<open>Fsx_Resize_Laws\<close>, \<open>Fsx_Resize_Shrink\<close>: \<^verbatim>\<open>resize.cpp\<close>, the change of the filesystem's size. The
    laws name the areas that superblock copies and the last group occupy; a shrink ends with the whole smaller filesystem
    or leaves one that is marked unclean until its metadata is verified.

  \<^bold>\<open>Threads.\<close>
  \<^item> \<open>Fsx_Threads\<close>: condition variables, and the locale of systems whose runs end.
  \<^item> \<open>Fsx_Task_Pool\<close>: \<^verbatim>\<open>task_pool.hpp\<close> as a machine whose steps are critical sections, notifications and tasks, in any
    interleaving; every accepted task runs once, and neither a submission nor the destructor can hang. The bound on the number of
    steps is a weight of the state, so that no fuel and no fairness is needed.
  \<^item> \<open>Fsx_Io_Scheduler\<close>: \<^verbatim>\<open>AsyncIoScheduler\<close> of \<^verbatim>\<open>scheduler.cpp\<close> in the same way, with \<^verbatim>\<open>drain\<close>, which returns only after every
    request accepted so far has run, and \<^verbatim>\<open>stop\<close>. Both machines interpret the locale of \<open>Fsx_Threads\<close>.

  \<^bold>\<open>Choices.\<close> Where C++ leaves an order open (ties of \<^verbatim>\<open>std::sort\<close>, iteration of hash maps) the order is an
  argument with a permutation as hypothesis. Random bytes are arguments. Reads that worker threads
  perform ahead of time take place where their result is awaited; the steps of concurrent copies are taken in an
  order that is an argument. Error messages are those of the code.

  \<^bold>\<open>Not modelled.\<close> The command line (\<^verbatim>\<open>src/cli\<close>) and progress output; the read-only inspection of
  other filesystems (\<^verbatim>\<open>src/fs\<close>); imaging, cloning, scrubbing and benchmarking (\<^verbatim>\<open>src/ops\<close>) with SHA-256
  (\<^verbatim>\<open>hash.cpp\<close>) and size parsing (\<^verbatim>\<open>size.cpp\<close>); the maintenance and the deep verification
  of ext4.
\<close>

end
